(* ===== verification/Prelude.thy ===== *)
theory Prelude
  imports Main "HOL-Library.Word" "HOL-Library.List_Lexorder" "HOL-Library.AList"
    "HOL-Library.Countable"
begin

text \<open>
  Shared ground of the development: the machine types of the TypeScript sources (bytes of a
  \<^verbatim>\<open>Uint8Array\<close>, UTF-16 code units of a \<^verbatim>\<open>string\<close>, the IEEE-754 bit pattern of a
  \<^verbatim>\<open>number\<close>), thrown errors as values, the insertion-ordered \<^verbatim>\<open>Map\<close> and \<^verbatim>\<open>Set\<close> of
  JavaScript as association lists, and the generic lemmas on words and collections that the
  component theories use through the collections \<open>wire_simps\<close> and \<open>js_simps\<close>.
\<close>

unbundle bit_operations_syntax

named_theorems wire_simps \<open>byte and code unit arithmetic\<close>
named_theorems js_simps \<open>JavaScript Map and Set operations\<close>

section \<open>Machine types\<close>

type_synonym byte = "8 word"
type_synonym bytes = "byte list"
type_synonym jschar = "16 word"
type_synonym jstring = "jschar list"
type_synonym f64 = "64 word"

text \<open>\<^verbatim>\<open>Number.MAX_SAFE_INTEGER\<close> and \<^verbatim>\<open>Number.isSafeInteger\<close> on integral numbers.\<close>

definition max_safe_integer :: nat where
  "max_safe_integer = 9007199254740991"

definition is_safe_integer :: "int \<Rightarrow> bool" where
  "is_safe_integer v \<longleftrightarrow> \<bar>v\<bar> \<le> int max_safe_integer"

text \<open>A string literal of the source as UTF-16 code units.\<close>

definition js_lit :: "string \<Rightarrow> jstring" where
  "js_lit s = map (\<lambda>c. word_of_nat (of_char c)) s"

text \<open>
  The white space that \<^verbatim>\<open>trim\<close> removes; a trimmed string is non-empty when some code unit is not
  white space.
\<close>

definition js_space :: "jschar \<Rightarrow> bool" where
  "js_space c \<longleftrightarrow> c \<in> {9, 10, 11, 12, 13, 32, 0xa0, 0x1680, 0x2028, 0x2029, 0x202f, 0x205f, 0x3000, 0xfeff} \<or>
     0x2000 \<le> c \<and> c \<le> 0x200a"

definition non_blank :: "jstring \<Rightarrow> bool" where
  "non_blank s \<longleftrightarrow> (\<exists>c \<in> set s. \<not> js_space c)"

definition js_trim :: "jstring \<Rightarrow> jstring" where
  "js_trim s = rev (dropWhile js_space (rev (dropWhile js_space s)))"

section \<open>Thrown errors as values\<close>

datatype js_error = TypeError string | RangeError string | PlainError string

type_synonym 'a result = "js_error + 'a"

definition bind_result :: "'a result \<Rightarrow> ('a \<Rightarrow> 'b result) \<Rightarrow> 'b result" where
  "bind_result r f = (case r of Inl e \<Rightarrow> Inl e | Inr x \<Rightarrow> f x)"

text \<open>
  A method that mutates an object and may throw: the state is kept as it was when the error was
  thrown, and the rest of the method is skipped.
\<close>

type_synonym ('s, 'a) effect = "'a result \<times> 's"

definition then_do :: "('s, 'a) effect \<Rightarrow> ('a \<Rightarrow> 's \<Rightarrow> ('s, 'b) effect) \<Rightarrow> ('s, 'b) effect" where
  "then_do m f = (case m of (Inl e, s) \<Rightarrow> (Inl e, s) | (Inr x, s) \<Rightarrow> f x s)"

fun is_range_error :: "js_error \<Rightarrow> bool" where
  "is_range_error (RangeError _) = True"
| "is_range_error _ = False"

section \<open>JavaScript collections\<close>

text \<open>
  A \<^verbatim>\<open>Map\<close> iterates in insertion order; \<^verbatim>\<open>set\<close> on a present key keeps its position, and
  \<^verbatim>\<open>delete\<close> followed by \<^verbatim>\<open>set\<close> moves the key to the end. \<open>AList.update\<close> and \<open>AList.delete\<close>
  behave exactly so. A \<^verbatim>\<open>Set\<close> is the list of its members in insertion order.
\<close>

type_synonym ('k, 'v) js_map = "('k \<times> 'v) list"

abbreviation js_get :: "('k, 'v) js_map \<Rightarrow> 'k \<Rightarrow> 'v option" where
  "js_get m k \<equiv> map_of m k"

abbreviation js_set :: "'k \<Rightarrow> 'v \<Rightarrow> ('k, 'v) js_map \<Rightarrow> ('k, 'v) js_map" where
  "js_set \<equiv> AList.update"

abbreviation js_delete :: "'k \<Rightarrow> ('k, 'v) js_map \<Rightarrow> ('k, 'v) js_map" where
  "js_delete \<equiv> AList.delete"

abbreviation js_keys :: "('k, 'v) js_map \<Rightarrow> 'k list" where
  "js_keys m \<equiv> map fst m"

abbreviation js_map_ok :: "('k, 'v) js_map \<Rightarrow> bool" where
  "js_map_ok m \<equiv> distinct (map fst m)"

definition js_has :: "('k, 'v) js_map \<Rightarrow> 'k \<Rightarrow> bool" where
  "js_has m k \<longleftrightarrow> map_of m k \<noteq> None"

definition set_add :: "'a \<Rightarrow> 'a list \<Rightarrow> 'a list" where
  "set_add x xs = (if x \<in> set xs then xs else xs @ [x])"

text \<open>
  The eviction loop that the bounded caches share: while the collection holds more than
  \<open>limit\<close> entries, its oldest entry is removed.
\<close>

fun evict_oldest :: "nat \<Rightarrow> 'a list \<Rightarrow> 'a list" where
  "evict_oldest limit [] = []"
| "evict_oldest limit (x # xs) =
     (if limit < length (x # xs) then evict_oldest limit xs else x # xs)"

text \<open>The decimal text of a number in a template string.\<close>

fun nat_text :: "nat \<Rightarrow> string" where
  "nat_text n = (if n < 10 then [char_of (48 + n)] else nat_text (n div 10) @ [char_of (48 + n mod 10)])"

declare nat_text.simps [simp del]

definition int_text :: "int \<Rightarrow> string" where
  "int_text i = (if i < 0 then ''-'' @ nat_text (nat (- i)) else nat_text (nat i))"

section \<open>Lemmas on results\<close>

lemma bind_result_simps [simp]:
  "bind_result (Inl e) f = Inl e"
  "bind_result (Inr x) f = f x"
  by (simp_all add: bind_result_def)

lemma bind_result_eq_Inr:
  "bind_result r f = Inr y \<longleftrightarrow> (\<exists>x. r = Inr x \<and> f x = Inr y)"
  by (cases r) simp_all

lemma bind_result_cong [fundef_cong]:
  "r = r' \<Longrightarrow> (\<And>x. r' = Inr x \<Longrightarrow> f x = g x) \<Longrightarrow> bind_result r f = bind_result r' g"
  by (cases r') simp_all

lemma then_do_simps [simp]:
  "then_do (Inl e, s) f = (Inl e, s)"
  "then_do (Inr x, s) f = f x s"
  by (simp_all add: then_do_def)

lemma then_do_return [simp]: "snd (then_do m (\<lambda>_ s. (Inr y, s))) = snd m"
  by (cases m; cases "fst m") auto

lemma then_do_eq_Inr:
  "then_do m f = (Inr y, s') \<longleftrightarrow> (\<exists>x s. m = (Inr x, s) \<and> f x s = (Inr y, s'))"
  by (cases m; cases "fst m") auto

lemma size_list_insort_key [simp]:
  "size_list f (insort_key g x xs) = f x + size_list f xs + 1"
  by (induction xs) simp_all

lemma size_list_sort_key [simp]: "size_list f (sort_key g xs) = size_list f xs"
  by (induction xs) (simp_all add: sort_key_def)

lemma js_lit_inj [simp]: "js_lit s = js_lit t \<longleftrightarrow> s = t"
proof -
  have "inj (\<lambda>c :: char. word_of_nat (of_char c) :: jschar)"
  proof (rule injI)
    fix c d :: char
    assume "(word_of_nat (of_char c) :: jschar) = word_of_nat (of_char d)"
    then have "unat (word_of_nat (of_char c) :: jschar) = unat (word_of_nat (of_char d) :: jschar)" by simp
    moreover have "of_char c < (65536 :: nat)" "of_char d < (65536 :: nat)"
      by (rule order_less_trans[OF nat_of_char_less_256]; simp)+
    ultimately show "c = d" by (simp add: unsigned_of_nat take_bit_nat_eq_self)
  qed
  then show ?thesis by (simp add: js_lit_def inj_map_eq_map)
qed

section \<open>Lemmas on trimming\<close>

lemma dropWhile_fixed: "dropWhile P xs = xs \<longleftrightarrow> xs = [] \<or> \<not> P (hd xs)"
  by (metis dropWhile_eq_self_iff)
lemma dropWhile_fixed_length: "length xs \<le> length (dropWhile P xs) \<Longrightarrow> dropWhile P xs = xs"
  using length_dropWhile_le[of P "tl xs"] by (cases xs) (auto split: if_splits)

lemma last_dropWhile: "dropWhile P xs \<noteq> [] \<Longrightarrow> last (dropWhile P xs) = last xs"
  by (metis last_appendR takeWhile_dropWhile_id)

lemma js_trim_fixed: "js_trim s = s \<longleftrightarrow> s = [] \<or> \<not> js_space (hd s) \<and> \<not> js_space (last s)"
proof
  assume *: "js_trim s = s"
  show "s = [] \<or> \<not> js_space (hd s) \<and> \<not> js_space (last s)"
  proof (cases "s = []")
    case False
    have "length s \<le> length (dropWhile js_space s)"
      using arg_cong[OF *, of length] length_dropWhile_le[of js_space "rev (dropWhile js_space s)"]
      by (simp add: js_trim_def)
    then have d: "dropWhile js_space s = s" by (rule dropWhile_fixed_length)
    then have "dropWhile js_space (rev s) = rev s" using * by (metis js_trim_def rev_rev_ident)
    with d False show ?thesis by (simp add: dropWhile_fixed hd_rev)
  qed simp
next
  assume "s = [] \<or> \<not> js_space (hd s) \<and> \<not> js_space (last s)"
  then have "dropWhile js_space s = s" "dropWhile js_space (rev s) = rev s"
    by (auto simp: dropWhile_fixed hd_rev)
  then show "js_trim s = s" by (simp add: js_trim_def)
qed

lemma js_trim_idem [simp]: "js_trim (js_trim s) = js_trim s"
proof -
  let ?a = "dropWhile js_space s"
  let ?b = "dropWhile js_space (rev ?a)"
  show ?thesis
  proof (cases "?b = []")
    case False
    then have a: "?a \<noteq> []" by (metis dropWhile.simps(1) rev.simps(1))
    have "hd (rev ?b) = hd ?a" using last_dropWhile[OF False] a by (simp add: hd_rev last_rev)
    moreover have "last (rev ?b) = hd ?b" using False by (simp add: last_rev)
    ultimately show ?thesis
      using hd_dropWhile[OF False] hd_dropWhile[OF a] by (metis js_trim_def js_trim_fixed)
  next
    case True
    then have "js_trim s = []" by (simp only: js_trim_def rev.simps)
    moreover have "js_trim [] = []" by (simp add: js_trim_def)
    ultimately show ?thesis by simp
  qed
qed

lemma js_trim_Nil: "js_trim s = [] \<longleftrightarrow> \<not> non_blank s"
proof -
  have "js_trim s = [] \<longleftrightarrow> (\<forall>c \<in> set (dropWhile js_space s). js_space c)" by (simp add: js_trim_def)
  also have "\<dots> \<longleftrightarrow> (\<forall>c \<in> set s. js_space c)"
    by (induction s) auto
  finally show ?thesis by (simp add: non_blank_def)
qed
section \<open>Lemmas on bits and words\<close>

lemma nat_and_mask: "(n::nat) AND (2 ^ k - 1) = n mod 2 ^ k"
  using take_bit_eq_mask[of k n] by (simp add: take_bit_eq_mod mask_eq_exp_minus_1)

lemma nat_or_push_bit:
  assumes "a < 2 ^ k"
  shows "(a::nat) OR push_bit k b = a + push_bit k b"
proof -
  have "a AND push_bit k b = take_bit k a AND push_bit k b"
    using assms by (simp add: take_bit_nat_eq_self)
  also have "\<dots> = 0"
    by (rule bit_eqI) (auto simp: bit_simps)
  finally show ?thesis
    by (rule disjunctive_add_eq_or[symmetric])
qed

lemma nat_and_high: "(n::nat) AND push_bit k (2 ^ j - 1) = 2 ^ k * ((n div 2 ^ k) mod 2 ^ j)"
proof -
  have "n AND push_bit k (2 ^ j - 1) = push_bit k (drop_bit k n AND (2 ^ j - 1))"
    by (rule bit_eqI) (auto simp: bit_simps)
  then show ?thesis
    unfolding nat_and_mask by (simp add: drop_bit_eq_div push_bit_eq_mult mult.commute)
qed

lemma nat_and_7 [wire_simps]: "(n::nat) AND 7 = n mod 8"
  using nat_and_mask[of n 3] by simp

lemma nat_and_15 [wire_simps]: "(n::nat) AND 15 = n mod 16"
  using nat_and_mask[of n 4] by simp

lemma nat_and_31 [wire_simps]: "(n::nat) AND 31 = n mod 32"
  using nat_and_mask[of n 5] by simp

lemma nat_and_63 [wire_simps]: "(n::nat) AND 63 = n mod 64"
  using nat_and_mask[of n 6] by simp

lemma nat_and_127 [wire_simps]: "(n::nat) AND 127 = n mod 128"
  using nat_and_mask[of n 7] by simp

lemma nat_and_128 [wire_simps]: "(n::nat) AND 128 = 128 * ((n div 128) mod 2)"
  using nat_and_high[of n 7 1] by simp

lemma nat_and_192 [wire_simps]: "(n::nat) AND 192 = 64 * ((n div 64) mod 4)"
  using nat_and_high[of n 6 2] by simp

lemma byte_lt [simp]: "unat (b::byte) < 256"
  using unsigned_less[of b] by simp

lemma jschar_lt [simp]: "unat (c::jschar) < 65536"
  using unsigned_less[of c] by simp

lemma unat_byte_of_nat [wire_simps]: "n < 256 \<Longrightarrow> unat (word_of_nat n :: byte) = n"
  by (simp add: unsigned_of_nat take_bit_nat_eq_self)

lemma unat_jschar_of_nat [wire_simps]: "n < 65536 \<Longrightarrow> unat (word_of_nat n :: jschar) = n"
  by (simp add: unsigned_of_nat take_bit_nat_eq_self)

lemma byte_and_127 [wire_simps]: "unat ((b::byte) AND 127) = unat b mod 128"
  by (simp add: unsigned_and_eq wire_simps)

lemma byte_bound: "2 * 128 = (256::nat)" "4 * 64 = (256::nat)"
  by simp_all

lemma div_less_of_lt: "n < m * k \<Longrightarrow> n div k < (m::nat)"
  by (simp add: less_mult_imp_div_less)

lemma div_eq_2_iff: "n div (64::nat) = 2 \<longleftrightarrow> 128 \<le> n \<and> n < 192"
  by arith

lemma byte_and_128 [wire_simps]: "((b::byte) AND 128 = 0) \<longleftrightarrow> unat b < 128"
proof -
  have "(b AND 128 = 0) \<longleftrightarrow> (unat b div 128) mod 2 = 0"
    by (simp add: word_unat_eq_iff unsigned_and_eq wire_simps)
  also have "\<dots> \<longleftrightarrow> unat b < 128"
    using div_less_of_lt[OF byte_lt[of b, folded byte_bound(1)]] by (simp add: div_eq_0_iff)
  finally show ?thesis .
qed

lemma byte_and_192 [wire_simps]:
  "((b::byte) AND 192 = 128) \<longleftrightarrow> 128 \<le> unat b \<and> unat b < 192"
proof -
  have "(b AND 192 = 128) \<longleftrightarrow> (unat b div 64) mod 4 = 2"
    by (simp add: word_unat_eq_iff unsigned_and_eq wire_simps)
  also have "\<dots> \<longleftrightarrow> 128 \<le> unat b \<and> unat b < 192"
    using div_less_of_lt[OF byte_lt[of b, folded byte_bound(2)]] by (simp add: div_eq_2_iff)
  finally show ?thesis .
qed

section \<open>Lemmas on collections\<close>

declare map_of_eq_Some_iff [simp del]

lemma js_has_iff [js_simps]: "js_has m k \<longleftrightarrow> k \<in> fst ` set m"
  by (simp add: js_has_def map_of_eq_None_iff)

lemma js_map_ok_delete [simp, intro]: "js_map_ok m \<Longrightarrow> js_map_ok (js_delete k m)"
  by (simp add: distinct_delete)

lemma js_map_ok_set [simp, intro]: "js_map_ok m \<Longrightarrow> js_map_ok (js_set k v m)"
  by (simp add: distinct_update)

lemmas js_lookup = AList.update_conv' AList.delete_conv'

declare js_lookup [js_simps]

lemma js_set_new: "k \<notin> fst ` set m \<Longrightarrow> js_set k v m = m @ [(k, v)]"
  by (induction m) auto

lemma set_js_set: "set (js_set k v m) \<subseteq> insert (k, v) (set m)"
  by (induction m) auto

lemma js_delete_filter: "js_delete k m = filter (\<lambda>kv. fst kv \<noteq> k) m"
  by (induction m) auto

lemma map_of_filter_key:
  "map_of (filter (\<lambda>kv. P (fst kv)) m) k = (if P k then map_of m k else None)"
  by (induction m) auto

lemma map_of_sort_key: "js_map_ok m \<Longrightarrow> map_of (sort_key fst m) = map_of m"
  by (rule map_of_eqI) (auto simp: distinct_map)

lemma keys_of_length:
  assumes "js_map_ok a" "js_map_ok b" "length a = length b" "fst ` set a \<subseteq> fst ` set b"
  shows "fst ` set a = fst ` set b"
  using assms
  by (intro card_subset_eq) (simp_all add: distinct_card[of "map fst _", simplified])

lemma length_of_keys:
  assumes "js_map_ok a" "js_map_ok b" "fst ` set a = fst ` set b"
  shows "length a = length b"
  using assms distinct_card[of "map fst a"] distinct_card[of "map fst b"] by simp

text \<open>A property of all values of a map.\<close>

definition js_all :: "('v \<Rightarrow> bool) \<Rightarrow> ('k, 'v) js_map \<Rightarrow> bool" where
  "js_all P m \<longleftrightarrow> (\<forall>kv \<in> set m. P (snd kv))"

lemma js_all_Nil [simp]: "js_all P []"
  by (simp add: js_all_def)

lemma js_all_set [intro]: "js_all P m \<Longrightarrow> P v \<Longrightarrow> js_all P (js_set k v m)"
  using set_js_set[of k v m] by (auto simp: js_all_def)

lemma js_all_delete [intro]: "js_all P m \<Longrightarrow> js_all P (js_delete k m)"
  by (auto simp: js_all_def js_delete_filter)

lemma js_all_lookup: "js_all P m \<Longrightarrow> map_of m k = Some v \<Longrightarrow> P v"
  by (force simp: js_all_def dest: map_of_SomeD)

lemma js_all_filter [intro]: "js_all P m \<Longrightarrow> js_all P (filter Q m)"
  by (auto simp: js_all_def)

lemma length_js_set_present: "map_of m k \<noteq> None \<Longrightarrow> length (js_set k v m) = length m"
  by (induction m) (auto split: if_splits)

lemma length_js_set_le: "length (js_set k v m) \<le> length m + 1"
  by (induction m) auto

lemma not_in_delete: "k \<notin> fst ` set (js_delete k m)"
  by (auto simp: js_delete_filter)

lemma set_set_add [simp]: "set (set_add x xs) = insert x (set xs)"
  by (auto simp: set_add_def)

lemma distinct_set_add [simp]: "distinct xs \<Longrightarrow> distinct (set_add x xs)"
  by (simp add: set_add_def)

lemma evict_oldest_drop: "evict_oldest limit xs = drop (length xs - limit) xs"
proof (induction limit xs rule: evict_oldest.induct)
  case (2 limit x xs)
  then show ?case by (cases "limit < length (x # xs)") (auto simp: Suc_diff_le)
qed simp

lemma length_evict_oldest [simp]: "length (evict_oldest limit xs) = min limit (length xs)"
  by (simp add: evict_oldest_drop)

lemma evict_oldest_id: "length xs \<le> limit \<Longrightarrow> evict_oldest limit xs = xs"
  by (simp add: evict_oldest_drop)

lemma set_evict_oldest: "set (evict_oldest limit xs) \<subseteq> set xs"
  by (simp add: evict_oldest_drop set_drop_subset)

lemma js_map_ok_evict [simp]: "js_map_ok m \<Longrightarrow> js_map_ok (evict_oldest limit m)"
  by (simp add: evict_oldest_drop flip: drop_map)

lemma evict_oldest_keeps_last:
  "0 < limit \<Longrightarrow> x \<in> set (evict_oldest limit (xs @ [x]))"
  by (simp add: evict_oldest_drop drop_append)

lemma map_of_evict_oldest:
  assumes "js_map_ok m" "map_of (evict_oldest limit m) k = Some v"
  shows "map_of m k = Some v"
  using assms set_evict_oldest[of limit m] by (auto simp: map_of_eq_Some_iff)

lemma js_all_evict [intro]: "js_all P m \<Longrightarrow> js_all P (evict_oldest limit m)"
  using set_evict_oldest[of limit m] by (auto simp: js_all_def)

text \<open>Setting a key after deleting it and then evicting keeps the new entry.\<close>

lemma map_of_evict_last:
  assumes "0 < limit"
  shows "map_of (evict_oldest limit (js_set k v (js_delete k m))) k = Some v"
proof -
  let ?m = "js_delete k m"
  have "js_set k v ?m = ?m @ [(k, v)]" by (rule js_set_new[OF not_in_delete])
  moreover have "map_of (drop n ?m) k = None" for n
    using not_in_delete[of k m] set_drop_subset[of n ?m] by (auto simp: map_of_eq_None_iff)
  ultimately show ?thesis
    using assms by (simp add: evict_oldest_drop map_of_append map_add_def)
qed

end
