(* ===== verification/Json.thy ===== *)
theory Json
  imports Prelude
begin

text \<open>
  JSON values as the Link codecs see them, and \<^verbatim>\<open>packages/meshtastic-link/src/canonical-json.ts\<close>.
  A number is its IEEE-754 binary64 bit pattern, a string its UTF-16 code units, an object its
  properties in insertion order. \<^verbatim>\<open>JSON.stringify\<close> and \<^verbatim>\<open>JSON.parse\<close> belong to the language's
  library; where the text matters they are the parameters \<open>stringify\<close> and \<open>parse\<close> (the order in
  which the engine enumerates properties is part of \<open>stringify\<close>).
\<close>

section \<open>Definitions\<close>

datatype json =
    JNull
  | JBool bool
  | JNumber f64
  | JString jstring
  | JArray "json list"
  | JObject "(jstring \<times> json) list"

instance json :: countable
  by countable_datatype

text \<open>\<^verbatim>\<open>Number.isFinite\<close>: the exponent field is not all ones.\<close>

definition is_finite :: "f64 \<Rightarrow> bool" where
  "is_finite x \<longleftrightarrow> drop_bit 52 x AND 0x7ff \<noteq> 0x7ff"

text \<open>
  \<^verbatim>\<open>sortJSON\<close>: objects are rebuilt with their keys in code-unit order, at every depth. The branches
  for values that are not JSON (functions, class instances) have no counterpart in \<open>json\<close>.
\<close>

function sortJSON :: "json \<Rightarrow> json result"
  and sortJSON_list :: "json list \<Rightarrow> json list result"
  and sortJSON_fields :: "(jstring \<times> json) list \<Rightarrow> (jstring \<times> json) list result" where
  "sortJSON (JArray xs) = bind_result (sortJSON_list xs) (\<lambda>ys. Inr (JArray ys))"
| "sortJSON JNull = Inr JNull"
| "sortJSON (JString s) = Inr (JString s)"
| "sortJSON (JBool b) = Inr (JBool b)"
| "sortJSON (JNumber x) =
     (if \<not> is_finite x then Inl (TypeError ''Radio JSON numbers must be finite'')
      else Inr (JNumber x))"
| "sortJSON (JObject kvs) =
     bind_result (sortJSON_fields (sort_key fst kvs)) (\<lambda>sorted. Inr (JObject sorted))"
| "sortJSON_list [] = Inr []"
| "sortJSON_list (x # xs) =
     bind_result (sortJSON x) (\<lambda>y. bind_result (sortJSON_list xs) (\<lambda>ys. Inr (y # ys)))"
| "sortJSON_fields [] = Inr []"
| "sortJSON_fields ((key, child) # kvs) =
     bind_result (sortJSON child) (\<lambda>y.
       bind_result (sortJSON_fields kvs) (\<lambda>sorted. Inr ((key, y) # sorted)))"
  by pat_completeness auto
termination
  by (relation "measure (\<lambda>x. case x of
        Inl v \<Rightarrow> size v
      | Inr (Inl vs) \<Rightarrow> size_list size vs
      | Inr (Inr kvs) \<Rightarrow> size_list (size_prod (\<lambda>_. 0) size) kvs)") auto

definition canonicalJSON :: "(json \<Rightarrow> jstring) \<Rightarrow> json \<Rightarrow> jstring result" where
  "canonicalJSON stringify v = bind_result (sortJSON v) (\<lambda>sorted. Inr (stringify sorted))"

text \<open>
  Well-formed values: no object repeats a key (an engine object cannot).
\<close>

fun wf_json :: "json \<Rightarrow> bool" where
  "wf_json (JArray xs) = (\<forall>x \<in> set xs. wf_json x)"
| "wf_json (JObject kvs) = (distinct (map fst kvs) \<and> (\<forall>kv \<in> set kvs. wf_json (snd kv)))"
| "wf_json _ = True"

text \<open>
  The integer that a double denotes, if it denotes one: sign, biased exponent and 52-bit mantissa.
\<close>

definition f64_int :: "f64 \<Rightarrow> int option" where
  "f64_int x =
     (let e = unat (drop_bit 52 x AND 0x7ff); m = unat (take_bit 52 x);
        magnitude =
          (if e = 0x7ff then None
           else if e = 0 then (if m = 0 then Some 0 else None)
           else if 1075 \<le> e then Some ((2 ^ 52 + m) * 2 ^ (e - 1075))
           else if (2 ^ 52 + m) mod 2 ^ (1075 - e) = 0 then Some ((2 ^ 52 + m) div 2 ^ (1075 - e))
           else None)
      in map_option (\<lambda>n. if bit x 63 then - int n else int n) magnitude)"

text \<open>\<^verbatim>\<open>Number.isSafeInteger\<close> on a value that may be missing, with the integer where it holds.\<close>

fun safe_integer :: "json option \<Rightarrow> int option" where
  "safe_integer (Some (JNumber x)) =
     (case f64_int x of None \<Rightarrow> None | Some i \<Rightarrow> if is_safe_integer i then Some i else None)"
| "safe_integer _ = None"

text \<open>Every number of the value is finite.\<close>

fun all_finite :: "json \<Rightarrow> bool" where
  "all_finite (JArray xs) = (\<forall>x \<in> set xs. all_finite x)"
| "all_finite (JObject kvs) = (\<forall>kv \<in> set kvs. all_finite (snd kv))"
| "all_finite (JNumber x) = is_finite x"
| "all_finite _ = True"

text \<open>
  Equality of numbers (\<^verbatim>\<open>===\<close>): the two zeros are equal and a NaN differs from itself.
\<close>

definition is_nan :: "f64 \<Rightarrow> bool" where
  "is_nan x \<longleftrightarrow> \<not> is_finite x \<and> take_bit 52 x \<noteq> 0"

definition is_zero :: "f64 \<Rightarrow> bool" where
  "is_zero x \<longleftrightarrow> take_bit 63 x = 0"

definition number_eq :: "f64 \<Rightarrow> f64 \<Rightarrow> bool" where
  "number_eq x y \<longleftrightarrow> (x = y \<and> \<not> is_nan x) \<or> (is_zero x \<and> is_zero y)"

text \<open>
  Two documents that a program cannot tell apart through \<^verbatim>\<open>===\<close> on their parts: the order of the
  properties of an object and the sign of zero do not count.
\<close>

fun json_same :: "json \<Rightarrow> json \<Rightarrow> bool" where
  "json_same (JArray xs) (JArray ys) = list_all2 json_same xs ys"
| "json_same (JObject a) (JObject b) =
     (length a = length b \<and>
      (\<forall>kv \<in> set a. case map_of b (fst kv) of None \<Rightarrow> False | Some y \<Rightarrow> json_same (snd kv) y))"
| "json_same (JNumber x) (JNumber y) = (x = y \<or> is_zero x \<and> is_zero y)"
| "json_same x y = (x = y)"

section \<open>Lemmas\<close>

lemma sortJSON_fields_keys: "sortJSON_fields kvs = Inr kvs' \<Longrightarrow> map fst kvs' = map fst kvs"
  by (induction kvs arbitrary: kvs') (auto simp: bind_result_eq_Inr)

text \<open>Sorting twice is sorting once, so the sorted value has the same canonical text.\<close>

lemma sortJSON_idem_aux:
  "sortJSON v = Inr s \<Longrightarrow> sortJSON s = Inr s"
  "sortJSON_list xs = Inr ys \<Longrightarrow> sortJSON_list ys = Inr ys"
  "sortJSON_fields kvs = Inr kvs' \<Longrightarrow> sortJSON_fields kvs' = Inr kvs'"
proof (induction v and xs and kvs arbitrary: s and ys and kvs'
    rule: sortJSON_sortJSON_list_sortJSON_fields.induct)
  case (6 kvs)
  then obtain kvs' where k: "sortJSON_fields (sort_key fst kvs) = Inr kvs'" "s = JObject kvs'"
    by (auto simp: bind_result_eq_Inr)
  then have "sorted (map fst kvs')"
    using sortJSON_fields_keys[OF k(1)] by simp
  then have "sort_key fst kvs' = kvs'"
    by (rule sort_key_id_if_sorted)
  with 6 k show ?case by simp
qed (auto simp: bind_result_eq_Inr split: if_splits)

lemma canonicalJSON_sorted:
  "sortJSON v = Inr s \<Longrightarrow> canonicalJSON stringify s = canonicalJSON stringify v"
  by (simp add: canonicalJSON_def sortJSON_idem_aux(1))

lemma wf_json_sort_key:
  "wf_json (JObject kvs) \<Longrightarrow> wf_json (JObject (sort_key fst kvs))"
  by (simp add: distinct_map)

text \<open>On objects without repeated keys, sameness compares the objects as maps.\<close>

lemma json_same_object:
  assumes "js_map_ok a" "js_map_ok b"
  shows "json_same (JObject a) (JObject b) \<longleftrightarrow> (\<forall>k. rel_option json_same (map_of a k) (map_of b k))"
proof
  assume same: "json_same (JObject a) (JObject b)"
  have hit: "\<exists>y. map_of b k = Some y \<and> json_same x y" if "(k, x) \<in> set a" for k x
    using same that by (auto split: option.splits dest!: bspec)
  then have sub: "fst ` set a \<subseteq> fst ` set b"
    by (force dest: map_of_SomeD)
  then have keys: "fst ` set a = fst ` set b"
    using same assms by (intro keys_of_length) auto
  show "\<forall>k. rel_option json_same (map_of a k) (map_of b k)"
  proof
    fix k
    show "rel_option json_same (map_of a k) (map_of b k)"
    proof (cases "map_of a k")
      case None
      then have "map_of b k = None" using keys by (simp add: map_of_eq_None_iff)
      with None show ?thesis by simp
    next
      case (Some x)
      with hit[OF map_of_SomeD[OF Some]] show ?thesis by auto
    qed
  qed
next
  assume rel: "\<forall>k. rel_option json_same (map_of a k) (map_of b k)"
  have "k \<in> fst ` set a \<longleftrightarrow> k \<in> fst ` set b" for k
    using rel[rule_format, of k] by (cases "map_of a k"; cases "map_of b k") (auto simp: map_of_eq_None_iff dest: map_of_SomeD intro: rev_image_eqI)
  then have "length a = length b"
    using assms by (intro length_of_keys) auto
  moreover have "case map_of b (fst kv) of None \<Rightarrow> False | Some y \<Rightarrow> json_same (snd kv) y"
    if "kv \<in> set a" for kv
  proof -
    have "map_of a (fst kv) = Some (snd kv)" using assms(1) that by simp
    with rel[rule_format, of "fst kv"] show ?thesis by (cases "map_of b (fst kv)") auto
  qed
  ultimately show "json_same (JObject a) (JObject b)" by simp
qed

lemma json_same_refl: "wf_json v \<Longrightarrow> json_same v v"
proof (induction v)
  case (JObject kvs)
  have "json_same (snd kv) (snd kv)" if "kv \<in> set kvs" for kv
    using JObject.IH[of kv "snd kv"] JObject.prems that by (cases kv) auto
  then show ?case using JObject.prems by auto
qed (auto simp: list_all2_same)

lemma wf_map_of: "wf_json (JObject kvs) \<Longrightarrow> map_of kvs k = Some x \<Longrightarrow> wf_json x"
  by (force dest: map_of_SomeD)

lemma json_same_objectI:
  assumes "wf_json (JObject a)" "wf_json (JObject b)" "\<And>k. rel_option json_same (map_of a k) (map_of b k)"
  shows "json_same (JObject a) (JObject b)"
  using assms json_same_object[of a b] by simp

lemma json_same_objectD:
  assumes "wf_json (JObject a)" "wf_json (JObject b)" "json_same (JObject a) (JObject b)"
  shows "rel_option json_same (map_of a k) (map_of b k)"
  using assms json_same_object[of a b] by (simp del: json_same.simps)

lemma size_map_of: "map_of kvs k = Some x \<Longrightarrow> size x < size (JObject kvs)"
  by (induction kvs) (auto split: if_splits)

lemma size_nth: "i < length xs \<Longrightarrow> size (xs ! i) < size (JArray xs)"
  using size_list_estimation'[of "xs ! i" xs "size (xs ! i)" size] by simp

lemma json_same_sym: "json_same v w \<Longrightarrow> wf_json v \<Longrightarrow> wf_json w \<Longrightarrow> json_same w v"
proof (induction v arbitrary: w rule: measure_induct_rule[where f = size])
  case (less v)
  show ?case
  proof (cases v)
    case (JArray xs)
    then obtain ys where w: "w = JArray ys" "list_all2 json_same xs ys" using less.prems(1) by (cases w) auto
    have "json_same (ys ! i) (xs ! i)" if "i < length xs" for i
    proof (rule less.IH)
      show "size (xs ! i) < size v" unfolding JArray by (rule size_nth[OF that])
    qed (use that w less.prems JArray in \<open>auto simp: list_all2_conv_all_nth\<close>)
    then show ?thesis using w JArray by (auto simp: list_all2_conv_all_nth)
  next
    case (JObject a)
    then obtain b where w: "w = JObject b" using less.prems(1) by (cases w) auto
    note wf = less.prems(2)[unfolded JObject] less.prems(3)[unfolded w]
    show ?thesis unfolding JObject w
    proof (rule json_same_objectI[OF wf(2,1)])
      fix k
      have r: "rel_option json_same (map_of a k) (map_of b k)"
        using json_same_objectD[OF wf] less.prems(1) JObject w by simp
      show "rel_option json_same (map_of b k) (map_of a k)"
      proof (cases "map_of a k")
        case None
        then show ?thesis using r by simp
      next
        case (Some x)
        then obtain y where y: "map_of b k = Some y" "json_same x y" using r by (cases "map_of b k") auto
        have "json_same y x"
          using less.IH[of x y] size_map_of[OF Some] y wf_map_of[OF wf(1) Some] wf_map_of[OF wf(2) y(1)] JObject by simp
        then show ?thesis using Some y by simp
      qed
    qed
  qed (use less.prems in \<open>cases w; auto\<close>)+
qed

lemma json_same_trans:
  "json_same u v \<Longrightarrow> json_same v w \<Longrightarrow> wf_json u \<Longrightarrow> wf_json v \<Longrightarrow> wf_json w \<Longrightarrow> json_same u w"
proof (induction u arbitrary: v w rule: measure_induct_rule[where f = size])
  case (less u)
  show ?case
  proof (cases u)
    case (JArray xs)
    then obtain ys where v: "v = JArray ys" "list_all2 json_same xs ys" using less.prems(1) by (cases v) auto
    then obtain zs where w: "w = JArray zs" "list_all2 json_same ys zs" using less.prems(2) by (cases w) auto
    have "json_same (xs ! i) (zs ! i)" if "i < length xs" for i
    proof (rule less.IH[of _ "ys ! i"])
      show "size (xs ! i) < size u" unfolding JArray by (rule size_nth[OF that])
    qed (use that v w less.prems JArray in \<open>auto simp: list_all2_conv_all_nth\<close>)
    then show ?thesis using v w JArray by (auto simp: list_all2_conv_all_nth)
  next
    case (JObject a)
    then obtain b where v: "v = JObject b" using less.prems(1) by (cases v) auto
    then obtain c where w: "w = JObject c" using less.prems(2) by (cases w) auto
    note wf = less.prems(3)[unfolded JObject] less.prems(4)[unfolded v] less.prems(5)[unfolded w]
    show ?thesis unfolding JObject w
    proof (rule json_same_objectI[OF wf(1,3)])
      fix k
      have r: "rel_option json_same (map_of a k) (map_of b k)" "rel_option json_same (map_of b k) (map_of c k)"
        using json_same_objectD[OF wf(1,2)] json_same_objectD[OF wf(2,3)] less.prems(1,2) JObject v w by auto
      show "rel_option json_same (map_of a k) (map_of c k)"
      proof (cases "map_of a k")
        case None
        then show ?thesis using r by simp
      next
        case (Some x)
        then obtain y where y: "map_of b k = Some y" "json_same x y" using r by (cases "map_of b k") auto
        then obtain z where z: "map_of c k = Some z" "json_same y z" using r by (cases "map_of c k") auto
        have "json_same x z"
          using less.IH[of x y z] size_map_of[OF Some] y z wf_map_of[OF wf(1) Some] wf_map_of[OF wf(2) y(1)]
            wf_map_of[OF wf(3) z(1)] JObject by simp
        then show ?thesis using Some z by simp
      qed
    qed
  next
    case (JNumber x)
    then show ?thesis using less.prems by (cases v; cases w) auto
  qed (use less.prems in \<open>cases v; cases w; auto\<close>)+
qed

text \<open>Sorting a finite document succeeds and gives the same document.\<close>

lemma fields_sameI:
  assumes "map fst a = map fst b" "list_all2 (\<lambda>x y. json_same (snd x) (snd y)) a b"
  shows "rel_option json_same (map_of a k) (map_of b k)"
  using assms
proof (induction a arbitrary: b)
  case (Cons x a)
  then obtain y b' where "b = y # b'" "fst x = fst y" "map fst a = map fst b'" "json_same (snd x) (snd y)"
    "list_all2 (\<lambda>x y. json_same (snd x) (snd y)) a b'" by (cases b) auto
  with Cons.IH[of b'] show ?case by (cases x; cases y) auto
qed simp

lemma sortJSON_same_aux:
  "all_finite v \<Longrightarrow> wf_json v \<Longrightarrow> \<exists>s. sortJSON v = Inr s \<and> wf_json s \<and> json_same s v"
  "\<forall>x \<in> set xs. all_finite x \<and> wf_json x \<Longrightarrow>
     \<exists>ys. sortJSON_list xs = Inr ys \<and> (\<forall>y \<in> set ys. wf_json y) \<and> list_all2 json_same ys xs"
  "\<forall>kv \<in> set kvs. all_finite (snd kv) \<and> wf_json (snd kv) \<Longrightarrow>
     \<exists>kvs'. sortJSON_fields kvs = Inr kvs' \<and> (\<forall>kv \<in> set kvs'. wf_json (snd kv)) \<and>
       list_all2 (\<lambda>x y. json_same (snd x) (snd y)) kvs' kvs"
proof (induction v and xs and kvs rule: sortJSON_sortJSON_list_sortJSON_fields.induct)
  case (6 kvs)
  then obtain kvs' where k: "sortJSON_fields (sort_key fst kvs) = Inr kvs'" "\<forall>kv \<in> set kvs'. wf_json (snd kv)"
    "list_all2 (\<lambda>x y. json_same (snd x) (snd y)) kvs' (sort_key fst kvs)" by auto
  have keys: "map fst kvs' = map fst (sort_key fst kvs)" by (rule sortJSON_fields_keys[OF k(1)])
  then have wf: "wf_json (JObject kvs')" using 6(3) k(2) by (simp add: distinct_map)
  moreover have "json_same (JObject kvs') (JObject kvs)"
  proof (rule json_same_objectI[OF wf 6(3)])
    fix k
    have "map_of (sort_key fst kvs) = map_of kvs"
      using 6(3) by (intro map_of_sort_key) simp
    then show "rel_option json_same (map_of kvs' k) (map_of kvs k)"
      using fields_sameI[OF keys k(3), of k] by simp
  qed
  ultimately show ?case using k(1) by (simp del: json_same.simps)
next
  case (8 x xs)
  then show ?case by fastforce
next
  case (10 k c kvs)
  then show ?case by fastforce
qed auto

lemmas sortJSON_same = sortJSON_same_aux(1)

text \<open>Both zeros denote the integer zero.\<close>

lemma is_zero_int: "is_zero x \<Longrightarrow> f64_int x = Some 0"
proof -
  assume z: "is_zero x"
  have bits: "\<not> bit x n" if "n < 63" for n
    using z that by (auto simp: is_zero_def bit_eq_iff bit_simps)
  have "take_bit 52 x = 0" by (rule bit_eqI) (use bits in \<open>auto simp: bit_simps\<close>)
  moreover have "drop_bit 52 x AND 0x7ff = 0"
  proof (rule bit_eqI)
    fix n
    have "bit (0x7ff :: f64) n \<Longrightarrow> n < 11"
    proof -
      assume "bit (0x7ff :: f64) n"
      moreover have "(0x7ff :: f64) = mask 11" by (simp add: mask_eq_exp_minus_1)
      ultimately show "n < 11" by (simp add: bit_mask_iff)
    qed
    then show "bit (drop_bit 52 x AND 0x7ff) n = bit (0 :: f64) n"
      using bits[of "52 + n"] by (auto simp: bit_simps)
  qed
  ultimately show ?thesis by (simp add: f64_int_def)
qed

end
