(* ===== verification/Wtf8.thy ===== *)
theory Wtf8
  imports Prelude
begin

text \<open>
  The text codec of \<^verbatim>\<open>packages/meshtastic-link/src/binary-codec.ts\<close> (\<^verbatim>\<open>encodeBinaryUtf8\<close>,
  \<^verbatim>\<open>decodeBinaryUtf8\<close>, \<^verbatim>\<open>continuation\<close>). A JavaScript string is the list of its UTF-16 code units, lone
  surrogates included, and the codec keeps every such string (WTF-8). Thrown errors are \<open>Inl\<close>.
\<close>

section \<open>Definitions\<close>

definition utf8_error :: js_error where
  "utf8_error = TypeError ''Invalid binary-v1 UTF-8 string''"

definition is_high :: "jschar \<Rightarrow> bool" where
  "is_high c \<longleftrightarrow> 0xd800 \<le> unat c \<and> unat c \<le> 0xdbff"

definition is_low :: "jschar \<Rightarrow> bool" where
  "is_low c \<longleftrightarrow> 0xdc00 \<le> unat c \<and> unat c \<le> 0xdfff"

text \<open>The bytes pushed for one code point (\<^verbatim>\<open>Uint8Array.from\<close> keeps each number's low byte).\<close>

definition code_point_bytes :: "nat \<Rightarrow> bytes" where
  "code_point_bytes codePoint =
     map word_of_nat
      (if codePoint \<le> 0x7f then [codePoint]
       else if codePoint \<le> 0x7ff then
         [0xc0 OR drop_bit 6 codePoint, 0x80 OR (codePoint AND 0x3f)]
       else if codePoint \<le> 0xffff then
         [0xe0 OR drop_bit 12 codePoint, 0x80 OR (drop_bit 6 codePoint AND 0x3f),
          0x80 OR (codePoint AND 0x3f)]
       else
         [0xf0 OR drop_bit 18 codePoint, 0x80 OR (drop_bit 12 codePoint AND 0x3f),
          0x80 OR (drop_bit 6 codePoint AND 0x3f), 0x80 OR (codePoint AND 0x3f)])"

definition pair_code_point :: "jschar \<Rightarrow> jschar \<Rightarrow> nat" where
  "pair_code_point first second =
     0x10000 + push_bit 10 (unat first - 0xd800) + unat second - 0xdc00"

fun encodeBinaryUtf8 :: "jstring \<Rightarrow> bytes" where
  "encodeBinaryUtf8 [] = []"
| "encodeBinaryUtf8 [first] = code_point_bytes (unat first)"
| "encodeBinaryUtf8 (first # second # rest) =
     (if is_high first \<and> is_low second
      then code_point_bytes (pair_code_point first second) @ encodeBinaryUtf8 rest
      else code_point_bytes (unat first) @ encodeBinaryUtf8 (second # rest))"

text \<open>\<^verbatim>\<open>String.fromCharCode\<close> keeps the low 16 bits; \<^verbatim>\<open>String.fromCodePoint\<close> splits a supplementary point.\<close>

definition fromCharCode :: "nat \<Rightarrow> jstring" where
  "fromCharCode n = [word_of_nat n]"

definition fromCodePoint :: "nat \<Rightarrow> jstring" where
  "fromCodePoint n =
     (if n \<le> 0xffff then [word_of_nat n]
      else [word_of_nat (0xd800 + drop_bit 10 (n - 0x10000)),
            word_of_nat (0xdc00 + ((n - 0x10000) AND 0x3ff))])"

fun continuation :: "bytes \<Rightarrow> (nat \<times> bytes) result" where
  "continuation [] = Inl utf8_error"
| "continuation (byte # bs) =
     (if byte AND 0xc0 \<noteq> 0x80 then Inl utf8_error else Inr (unat (byte AND 0x3f), bs))"

text \<open>One turn of the decoding loop on a non-empty input: the units it appends and the rest.\<close>

definition decode_step :: "byte \<Rightarrow> bytes \<Rightarrow> (jstring \<times> bytes) result" where
  "decode_step first bs =
     (if unat first \<le> 0x7f then Inr (fromCharCode (unat first), bs)
      else if 0xc2 \<le> unat first \<and> unat first \<le> 0xdf then
        bind_result (continuation bs) (\<lambda>(second, bs).
          Inr (fromCharCode (push_bit 6 (unat (first AND 0x1f)) OR second), bs))
      else if 0xe0 \<le> unat first \<and> unat first \<le> 0xef then
        (case bs of
           [] \<Rightarrow> Inl utf8_error
         | second # bs \<Rightarrow>
             if second AND 0xc0 \<noteq> 0x80 \<or> (first = 0xe0 \<and> unat second < 0xa0) then Inl utf8_error
             else bind_result (continuation bs) (\<lambda>(third, bs).
               Inr (fromCharCode (push_bit 12 (unat (first AND 0x0f)) OR
                      push_bit 6 (unat (second AND 0x3f)) OR third), bs)))
      else if 0xf0 \<le> unat first \<and> unat first \<le> 0xf4 then
        (case bs of
           [] \<Rightarrow> Inl utf8_error
         | second # bs \<Rightarrow>
             if second AND 0xc0 \<noteq> 0x80 \<or> (first = 0xf0 \<and> unat second < 0x90) \<or>
                (first = 0xf4 \<and> unat second > 0x8f) then Inl utf8_error
             else bind_result (continuation bs) (\<lambda>(third, bs).
               bind_result (continuation bs) (\<lambda>(fourth, bs).
                 Inr (fromCodePoint (push_bit 18 (unat (first AND 0x07)) OR
                        push_bit 12 (unat (second AND 0x3f)) OR
                        push_bit 6 (third AND 0x3f) OR fourth), bs))))
      else Inl utf8_error)"

lemma continuation_length:
  "continuation bs = Inr (x, bs') \<Longrightarrow> length bs' < length bs"
  by (cases bs) (auto split: if_splits)

lemma decode_step_length:
  "decode_step first bs = Inr (cs, bs') \<Longrightarrow> length bs' \<le> length bs"
  by (auto simp: decode_step_def bind_result_eq_Inr split: if_splits list.splits
      dest!: continuation_length)

function decodeBinaryUtf8 :: "bytes \<Rightarrow> jstring result" where
  "decodeBinaryUtf8 [] = Inr []"
| "decodeBinaryUtf8 (first # bs) =
     (case decode_step first bs of
        Inl e \<Rightarrow> Inl e
      | Inr (cs, bs') \<Rightarrow> bind_result (decodeBinaryUtf8 bs') (\<lambda>out. Inr (cs @ out)))"
  by pat_completeness auto
termination
  by (relation "measure length") (auto dest: decode_step_length)

section \<open>Code points\<close>

lemma or_lead:
  "x < 64 \<Longrightarrow> (0x80::nat) OR x = 0x80 + x"
  "x < 32 \<Longrightarrow> (0xc0::nat) OR x = 0xc0 + x"
  "x < 16 \<Longrightarrow> (0xe0::nat) OR x = 0xe0 + x"
  "x < 8 \<Longrightarrow> (0xf0::nat) OR x = 0xf0 + x"
  using nat_or_push_bit[of x 7 1] nat_or_push_bit[of x 6 3] nat_or_push_bit[of x 5 7]
    nat_or_push_bit[of x 4 15]
  by (simp_all add: or.commute push_bit_eq_mult)

lemma code_point_bytes_cases:
  "n \<le> 0x7f \<Longrightarrow> code_point_bytes n = [word_of_nat n]"
  "0x7f < n \<Longrightarrow> n \<le> 0x7ff \<Longrightarrow>
     code_point_bytes n = map word_of_nat [0xc0 + n div 64, 0x80 + n mod 64]"
  "0x7ff < n \<Longrightarrow> n \<le> 0xffff \<Longrightarrow>
     code_point_bytes n = map word_of_nat [0xe0 + n div 4096, 0x80 + n div 64 mod 64, 0x80 + n mod 64]"
  "0xffff < n \<Longrightarrow> n < 0x110000 \<Longrightarrow>
     code_point_bytes n = map word_of_nat
       [0xf0 + n div 262144, 0x80 + n div 4096 mod 64, 0x80 + n div 64 mod 64, 0x80 + n mod 64]"
  by (simp_all add: code_point_bytes_def drop_bit_eq_div wire_simps or_lead del: of_nat_add)

lemma mod_64_lead: "d < 64 \<Longrightarrow> (128 + d) mod 64 = (d::nat)"
  using mod_mult_self3[of 2 64 d] by simp

lemma continuation_byte:
  "d < 64 \<Longrightarrow> continuation (word_of_nat (0x80 + d) # bs) = Inr (d, bs)"
  by (simp add: wire_simps unsigned_and_eq mod_64_lead del: of_nat_add)

lemma byte_low_bits:
  "d < 32 \<Longrightarrow> unat ((word_of_nat (0xc0 + d) :: byte) AND 0x1f) = d"
  "d < 16 \<Longrightarrow> unat ((word_of_nat (0xe0 + d) :: byte) AND 0x0f) = d"
  "d < 8 \<Longrightarrow> unat ((word_of_nat (0xf0 + d) :: byte) AND 0x07) = d"
  "d < 64 \<Longrightarrow> unat ((word_of_nat (0x80 + d) :: byte) AND 0x3f) = d"
  using mod_mult_self3[of 6 32 d] mod_mult_self3[of 14 16 d] mod_mult_self3[of 30 8 d]
    mod_mult_self3[of 2 64 d]
  by (simp_all add: unsigned_and_eq wire_simps del: of_nat_add)

lemma byte_eq_iff: "n < 256 \<Longrightarrow> (word_of_nat n :: byte) = w \<longleftrightarrow> n = unat w"
  by (metis unat_byte_of_nat byte_lt word_unat_eq_iff)

lemma or_shift: "c < 2 ^ k \<Longrightarrow> push_bit k a OR (c::nat) = a * 2 ^ k + c"
  using nat_or_push_bit[of c k a] by (simp add: or.commute push_bit_eq_mult)

lemma or_shift_6: "c < 64 \<Longrightarrow> push_bit 6 a OR (c::nat) = a * 64 + c"
  using or_shift[of c 6 a] by simp

lemma or_shift_12: "c < 4096 \<Longrightarrow> push_bit 12 a OR (c::nat) = a * 4096 + c"
  using or_shift[of c 12 a] by simp

lemma or_shift_18: "c < 262144 \<Longrightarrow> push_bit 18 a OR (c::nat) = a * 262144 + c"
  using or_shift[of c 18 a] by simp

lemma decode_step_1:
  "n \<le> 0x7f \<Longrightarrow> decode_step (word_of_nat n) bs = Inr (fromCharCode n, bs)"
  by (simp add: decode_step_def wire_simps)

lemma decode_step_2:
  assumes "0x7f < n" "n \<le> 0x7ff"
  shows "decode_step (word_of_nat (0xc0 + n div 64)) (word_of_nat (0x80 + n mod 64) # bs) =
    Inr (fromCharCode n, bs)"
proof -
  have "n div 64 < 32" "2 \<le> n div 64" using assms by auto
  then show ?thesis
    by (simp add: decode_step_def wire_simps continuation_byte byte_low_bits or_shift_6
        del: of_nat_add continuation.simps)
qed

lemma digits_3: "n div 4096 * 4096 + (n div 64 mod 64 * 64 + n mod 64) = (n::nat)"
  using div_mult2_eq[of n 64 64, simplified] mult_div_mod_eq[of 64 n] mult_div_mod_eq[of 64 "n div 64"]
  by linarith

lemma digits_4:
  "n div 262144 * 262144 + (n div 4096 mod 64 * 4096 + (n div 64 mod 64 * 64 + n mod 64)) = (n::nat)"
  using div_mult2_eq[of n 4096 64, simplified] mult_div_mod_eq[of 64 "n div 4096"] digits_3[of n]
  by linarith

lemma decode_step_3:
  assumes "0x7ff < n" "n \<le> 0xffff"
  shows "decode_step (word_of_nat (0xe0 + n div 4096))
      (word_of_nat (0x80 + n div 64 mod 64) # word_of_nat (0x80 + n mod 64) # bs) =
    Inr (fromCharCode n, bs)"
proof -
  have a: "n div 4096 < 16" using assms by auto
  have e0: "n div 4096 = 0 \<Longrightarrow> \<not> n div 64 mod 64 < 32" using assms by auto
  have c: "n div 64 mod 64 * 64 + n mod 64 < 4096"
    using mod_less_divisor[of 64 "n div 64"] mod_less_divisor[of 64 n] by simp
  show ?thesis
    using a e0 c
    by (auto simp: decode_step_def wire_simps continuation_byte byte_low_bits or_shift_6 or_shift_12
        byte_eq_iff digits_3 simp del: of_nat_add continuation.simps)
qed

lemma decode_step_4:
  assumes "0xffff < n" "n < 0x110000"
  shows "decode_step (word_of_nat (0xf0 + n div 262144))
      (word_of_nat (0x80 + n div 4096 mod 64) # word_of_nat (0x80 + n div 64 mod 64) #
       word_of_nat (0x80 + n mod 64) # bs) =
    Inr (fromCodePoint n, bs)"
proof -
  have a: "n div 262144 < 5" using assms by auto
  have f0: "n div 262144 = 0 \<Longrightarrow> \<not> n div 4096 mod 64 < 16" using assms by auto
  have "n div 4096 < 272" using assms by auto
  then have f4: "n div 262144 = 4 \<Longrightarrow> n div 4096 mod 64 < 16"
    using div_mult2_eq[of n 4096 64, simplified] mult_div_mod_eq[of 64 "n div 4096"] by linarith
  have c: "n div 64 mod 64 * 64 + n mod 64 < 4096"
    using mod_less_divisor[of 64 "n div 64"] mod_less_divisor[of 64 n] by simp
  then have d: "n div 4096 mod 64 * 4096 + (n div 64 mod 64 * 64 + n mod 64) < 262144"
    using mod_less_divisor[of 64 "n div 4096"] by simp
  show ?thesis
    using a f0 f4 c d
    by (auto simp: decode_step_def wire_simps continuation_byte byte_low_bits or_shift_6 or_shift_12
        or_shift_18 byte_eq_iff digits_4 simp del: of_nat_add continuation.simps)
qed

lemma fromCharCode_point: "n \<le> 0xffff \<Longrightarrow> fromCharCode n = fromCodePoint n"
  by (simp add: fromCharCode_def fromCodePoint_def)

text \<open>The bytes of a code point decode to that code point, whatever follows.\<close>

lemma decode_code_point:
  assumes "n < 0x110000"
  shows "decodeBinaryUtf8 (code_point_bytes n @ rest) =
    bind_result (decodeBinaryUtf8 rest) (\<lambda>out. Inr (fromCodePoint n @ out))"
proof -
  consider "n \<le> 0x7f" | "0x7f < n" "n \<le> 0x7ff" | "0x7ff < n" "n \<le> 0xffff" | "0xffff < n"
    by linarith
  then show ?thesis
    by cases (simp_all add: code_point_bytes_cases decode_step_1 decode_step_2 decode_step_3
        decode_step_4 fromCharCode_point assms del: of_nat_add)
qed

section \<open>Surrogate pairs\<close>

lemma pair_code_point_range:
  assumes "is_high h" "is_low l"
  shows "0xffff < pair_code_point h l" "pair_code_point h l < 0x110000"
  using assms by (auto simp: is_high_def is_low_def pair_code_point_def push_bit_eq_mult)

lemma fromCodePoint_pair:
  assumes "is_high h" "is_low l"
  shows "fromCodePoint (pair_code_point h l) = [h, l]"
proof -
  define k where "k = unat h - 0xd800"
  define j where "j = unat l - 0xdc00"
  have h: "unat h = 0xd800 + k" and l: "unat l = 0xdc00 + j" and j: "j < 1024"
    using assms by (auto simp: is_high_def is_low_def k_def j_def)
  have p: "pair_code_point h l - 0x10000 = k * 1024 + j"
    by (simp add: pair_code_point_def push_bit_eq_mult h l)
  have hl: "word_of_nat (0xd800 + k) = h" "word_of_nat (0xdc00 + j) = l"
    by (simp_all add: word_unat_eq_iff wire_simps flip: h l)
  from j have "(k * 1024 + j) div 1024 = k" "(k * 1024 + j) AND 0x3ff = j"
    using nat_and_mask[of "k * 1024 + j" 10] by simp_all
  then show ?thesis
    using pair_code_point_range(1)[OF assms]
    by (simp add: fromCodePoint_def p drop_bit_eq_div hl del: of_nat_add)
qed

lemma fromCodePoint_unit: "fromCodePoint (unat (c::jschar)) = [c]"
  using jschar_lt[of c] by (simp add: fromCodePoint_def del: jschar_lt)

lemma decode_encode_utf8: "decodeBinaryUtf8 (encodeBinaryUtf8 s) = Inr s"
proof (induction s rule: encodeBinaryUtf8.induct)
  case (2 c)
  have "unat c < 0x110000" using jschar_lt[of c] by linarith
  from decode_code_point[OF this, of "[]"] show ?case by (simp add: fromCodePoint_unit)
next
  case (3 c d cs)
  have "unat c < 0x110000" using jschar_lt[of c] by linarith
  with 3 show ?case
    by (auto simp: decode_code_point fromCodePoint_unit fromCodePoint_pair pair_code_point_range)
qed simp

text \<open>Every JavaScript string, with paired or lone surrogates, survives \<^verbatim>\<open>encodeBinaryUtf8\<close> followed by
  \<^verbatim>\<open>decodeBinaryUtf8\<close> unchanged; in particular the decoder accepts whatever the encoder writes.
\<close>

theorem wtf8_roundtrip: "decodeBinaryUtf8 (encodeBinaryUtf8 s) = Inr s"
  by (rule decode_encode_utf8)

section \<open>Strict UTF-8\<close>

text \<open>
  \<^verbatim>\<open>TextEncoder\<close> replaces lone surrogates by U+FFFD; \<^verbatim>\<open>TextDecoder("utf-8", { fatal: true })\<close> accepts
  exactly the encodings of strings without lone surrogates and drops one leading byte order mark.
\<close>

fun toWellFormed :: "jstring \<Rightarrow> jstring" where
  "toWellFormed (c # d # s) =
     (if 0xd800 \<le> c \<and> c \<le> 0xdbff \<and> 0xdc00 \<le> d \<and> d \<le> 0xdfff then c # d # toWellFormed s
      else (if 0xd800 \<le> c \<and> c \<le> 0xdfff then 0xfffd else c) # toWellFormed (d # s))"
| "toWellFormed [c] = [if 0xd800 \<le> c \<and> c \<le> 0xdfff then 0xfffd else c]"
| "toWellFormed [] = []"

definition textEncode :: "jstring \<Rightarrow> bytes" where
  "textEncode s = encodeBinaryUtf8 (toWellFormed s)"

definition textDecode :: "bytes \<Rightarrow> jstring option" where
  "textDecode bs =
     (case decodeBinaryUtf8 bs of
        Inl _ \<Rightarrow> None
      | Inr s \<Rightarrow>
          if toWellFormed s = s \<and> encodeBinaryUtf8 s = bs
          then Some (if s \<noteq> [] \<and> hd s = 0xfeff then tl s else s)
          else None)"

lemma textDecode_textEncode:
  "toWellFormed s = s \<Longrightarrow> hd s \<noteq> 0xfeff \<Longrightarrow> textDecode (textEncode s) = Some s"
  by (simp add: textDecode_def textEncode_def decode_encode_utf8)

end
