(* ===== verification/Interfaces.thy ===== *)
theory Interfaces
  imports Prelude
begin

text \<open>
  The interfaces the components share, as locales: a self-delimiting byte codec (what the wire
  readers rely on when they read one field after another) and a guarded state machine (what a
  component promises when each of its operations keeps an invariant). Each is interpreted in the
  theory of the component that provides it.
\<close>

section \<open>Reading a fixed number of fields\<close>

text \<open>
  \<^verbatim>\<open>Array.from({ length: n }, read)\<close>: \<open>n\<close> successive reads from the same input, stopping at the
  first that throws.
\<close>

fun read_many :: "(bytes \<Rightarrow> ('a \<times> bytes) result) \<Rightarrow> nat \<Rightarrow> bytes \<Rightarrow> ('a list \<times> bytes) result" where
  "read_many rd 0 bs = Inr ([], bs)"
| "read_many rd (Suc n) bs =
     bind_result (rd bs) (\<lambda>(x, bs').
       bind_result (read_many rd n bs') (\<lambda>(xs, bs''). Inr (x # xs, bs'')))"

section \<open>Self-delimiting codecs\<close>

locale framed_codec =
  fixes enc :: "'a \<Rightarrow> bytes"
    and dec :: "bytes \<Rightarrow> ('a \<times> bytes) result"
    and ok :: "'a \<Rightarrow> bool"
  assumes dec_enc: "ok x \<Longrightarrow> dec (enc x @ rest) = Inr (x, rest)"
begin

lemma unique_parse:
  assumes "ok x" "ok y" "enc x @ r = enc y @ s"
  shows "x = y \<and> r = s"
proof -
  have "Inr (x, r) = dec (enc x @ r)" by (rule dec_enc[OF assms(1), symmetric])
  also have "\<dots> = dec (enc y @ s)" by (simp only: assms(3))
  also have "\<dots> = Inr (y, s)" by (rule dec_enc[OF assms(2)])
  finally show ?thesis by simp
qed

lemma inj_on_ok: "inj_on enc {x. ok x}"
proof (rule inj_onI)
  fix x y
  assume "x \<in> {x. ok x}" "y \<in> {x. ok x}" "enc x = enc y"
  then show "x = y" using unique_parse[of x y "[]" "[]"] by simp
qed

lemma read_many_enc:
  "\<forall>x \<in> set xs. ok x \<Longrightarrow>
     read_many dec (length xs) (concat (map enc xs) @ rest) = Inr (xs, rest)"
  by (induction xs) (simp_all add: dec_enc)

end

section \<open>Guarded state machines\<close>

text \<open>
  A component with private state and operations: \<open>step s e\<close> is the state after one call (the
  arguments and the outcome of the environment are part of \<open>e\<close>), \<open>inv\<close> the invariant that the
  constructor establishes and every call keeps.
\<close>

locale guarded_machine =
  fixes init :: "'s"
    and step :: "'s \<Rightarrow> 'e \<Rightarrow> 's"
    and inv :: "'s \<Rightarrow> bool"
  assumes inv_init: "inv init"
    and inv_step: "inv s \<Longrightarrow> inv (step s e)"
begin

lemma inv_run_from: "inv s \<Longrightarrow> inv (foldl step s es)"
  by (induction es arbitrary: s) (simp_all add: inv_step)

lemma inv_run: "inv (foldl step init es)"
  by (rule inv_run_from[OF inv_init])

end

text \<open>
  A reflexive and transitive relation between the states before and after a method: what holds of every
  part of a method that may throw holds of the whole method.
\<close>

locale effect_preorder =
  fixes R :: "'s \<Rightarrow> 's \<Rightarrow> bool"
  assumes refl: "R s s"
    and trans: "R a b \<Longrightarrow> R b c \<Longrightarrow> R a c"
begin

lemma then_step:
  assumes "R s (snd m)" "\<And>x s'. m = (Inr x, s') \<Longrightarrow> R s' (snd (f x s'))"
  shows "R s (snd (then_do m f))"
proof -
  obtain r s' where m: "m = (r, s')" by (cases m)
  show ?thesis using assms trans[of s s'] by (cases r) (auto simp: m)
qed

lemma then_guard: "(\<And>x. R s (snd (f x s))) \<Longrightarrow> R s (snd (then_do (r, s) f))"
  by (rule then_step) (auto intro: refl)

end

text \<open>
  A store that takes versioned events in any order and keeps, for every key, the content of the newest one. \<open>view\<close>
  is what the store shows, \<open>ok\<close> the states in which it accepts every valid event. Two such stores that took the same
  events agree, whatever the order and however often each event came.
\<close>

locale lww_replica =
  fixes step :: "'s \<Rightarrow> 'e \<Rightarrow> 's"
    and view :: "'s \<Rightarrow> 'k \<Rightarrow> (int \<times> 'v) option"
    and ok :: "'s \<Rightarrow> bool"
    and valid :: "'e \<Rightarrow> bool"
    and key :: "'e \<Rightarrow> 'k"
    and version :: "'e \<Rightarrow> int"
    and content :: "'e \<Rightarrow> 'v"
  assumes ok_step: "ok s \<Longrightarrow> valid e \<Longrightarrow> ok (step s e)"
    and view_step: "ok s \<Longrightarrow> valid e \<Longrightarrow> view (step s e) k =
      (if k = key e \<and> (case view s k of None \<Rightarrow> 0 | Some x \<Rightarrow> fst x) < version e
       then Some (version e, content e) else view s k)"
begin

definition newest :: "'e list \<Rightarrow> 'k \<Rightarrow> (int \<times> 'v) option \<Rightarrow> bool" where
  "newest es k r \<longleftrightarrow>
     (case r of
        None \<Rightarrow> \<forall>e \<in> set es. key e = k \<longrightarrow> version e \<le> 0
      | Some x \<Rightarrow> 0 < fst x \<and> (\<exists>e \<in> set es. key e = k \<and> version e = fst x \<and> content e = snd x) \<and>
          (\<forall>e \<in> set es. key e = k \<longrightarrow> version e \<le> fst x))"

lemma run_newest:
  assumes "ok s" "\<And>k. view s k = None" "list_all valid es"
  shows "ok (foldl step s es) \<and> newest es k (view (foldl step s es) k)"
  using assms(3)
proof (induction es rule: rev_induct)
  case Nil
  then show ?case using assms by (simp add: newest_def)
next
  case (snoc e es)
  then have s: "ok (foldl step s es)" "newest es k (view (foldl step s es) k)" "valid e" by simp_all
  have "newest (es @ [e]) k (view (step (foldl step s es) e) k)"
  proof (cases "view (foldl step s es) k")
    case None
    then show ?thesis using s(2) unfolding view_step[OF s(1,3)] by (auto simp: newest_def)
  next
    case (Some x)
    then show ?thesis using s(2) unfolding view_step[OF s(1,3)] by (fastforce simp: newest_def)
  qed
  then show ?case using ok_step[OF s(1,3)] by simp
qed

lemma newest_Some_None: "newest es k (Some x) \<Longrightarrow> newest es' k None \<Longrightarrow> set es = set es' \<Longrightarrow> False"
  by (auto simp: newest_def)

lemma newest_unique:
  assumes "newest es k r" "newest es' k r'" "set es = set es'"
    and "\<forall>a \<in> set es. \<forall>b \<in> set es. key a = key b \<and> version a = version b \<longrightarrow> content a = content b"
  shows "r = r'"
proof (cases r)
  case None
  then show ?thesis using assms newest_Some_None by (cases r') blast+
next
  case (Some x)
  then obtain y where y: "r' = Some y" using assms newest_Some_None by (cases r') blast+
  obtain a where a: "a \<in> set es" "key a = k" "version a = fst x" "content a = snd x"
    using assms(1) Some by (auto simp: newest_def)
  obtain b where b: "b \<in> set es" "key b = k" "version b = fst y" "content b = snd y"
    using assms(2,3) y by (auto simp: newest_def)
  have "fst x \<le> fst y" using assms(2,3) y a by (auto simp: newest_def)
  moreover have "fst y \<le> fst x" using assms(1) Some b by (auto simp: newest_def)
  ultimately have "fst x = fst y" by simp
  then have "snd x = snd y" using assms(4) a b by metis
  with \<open>fst x = fst y\<close> show ?thesis using Some y by (simp add: prod_eq_iff)
qed

lemma converge:
  assumes "ok s" "\<And>k. view s k = None" "list_all valid es" "list_all valid es'" "set es = set es'"
    and "\<forall>a \<in> set es. \<forall>b \<in> set es. key a = key b \<and> version a = version b \<longrightarrow> content a = content b"
  shows "view (foldl step s es) k = view (foldl step s es') k"
  using newest_unique[OF _ _ assms(5,6)] run_newest[OF assms(1,2,3)] run_newest[OF assms(1,2,4)] by blast

end

text \<open>
  A component that numbers its changes and keeps the last of them for its readers: \<open>view\<close> is what a reader sees, \<open>redo\<close> the
  effect of one change on it, \<open>buffer\<close> the changes still held. \<open>evolves_by s es s'\<close>: from \<open>s\<close> to \<open>s'\<close> the component made exactly the
  changes \<open>es\<close>.
\<close>

locale event_feed =
  fixes view :: "'s \<Rightarrow> 'v"
    and revision :: "'s \<Rightarrow> nat"
    and buffer :: "'s \<Rightarrow> 'e list"
    and number :: "'e \<Rightarrow> nat"
    and redo :: "'e \<Rightarrow> 'v \<Rightarrow> 'v"
begin

definition evolves_by :: "'s \<Rightarrow> 'e list \<Rightarrow> 's \<Rightarrow> bool" where
  "evolves_by s es s' \<longleftrightarrow>
     map number es = [revision s + 1 ..< revision s + 1 + length es] \<and> revision s' = revision s + length es \<and>
     view s' = fold redo es (view s) \<and> (\<exists>n. buffer s' = drop n (buffer s @ es))"

definition evolves :: "'s \<Rightarrow> 's \<Rightarrow> bool" where
  "evolves s s' \<longleftrightarrow> (\<exists>es. evolves_by s es s')"

definition numbered :: "'s \<Rightarrow> bool" where
  "numbered s \<longleftrightarrow> length (buffer s) \<le> revision s \<and> map number (buffer s) = [revision s + 1 - length (buffer s) ..< revision s + 1]"

lemma evolves_byI: "evolves_by s es s' \<Longrightarrow> evolves s s'"
  by (auto simp: evolves_def)

lemma evolves_by_still:
  assumes "view s' = view s" "revision s' = revision s" "buffer s' = buffer s"
  shows "evolves_by s [] s'"
  using assms by (auto simp: evolves_by_def intro: exI[of _ 0])

lemma evolves_by_trans:
  assumes "evolves_by a es b" "evolves_by b fs c"
  shows "evolves_by a (es @ fs) c"
proof -
  obtain m n where "buffer b = drop m (buffer a @ es)" "buffer c = drop n (buffer b @ fs)"
    using assms by (auto simp: evolves_by_def)
  then have "buffer c = drop n (drop m (buffer a @ es) @ fs)" by simp
  moreover have "drop n (drop m xs @ ys) = drop (if m \<le> length xs then n + m else n + length xs) (xs @ ys)" for xs ys :: "'e list"
    by (auto simp: drop_append algebra_simps)
  ultimately have "\<exists>k. buffer c = drop k (buffer a @ es @ fs)" by (metis append.assoc)
  moreover have "map number (es @ fs) = [revision a + 1 ..< revision a + 1 + length (es @ fs)]"
  proof -
    have "map number (es @ fs) = [revision a + 1 ..< revision a + 1 + length es] @
        [revision a + 1 + length es ..< revision a + 1 + length es + length fs]"
      using assms by (simp add: evolves_by_def add.commute add.left_commute)
    also have "\<dots> = [revision a + 1 ..< revision a + 1 + length es + length fs]"
      by (rule upt_add_eq_append[symmetric]) simp
    finally show ?thesis by (simp add: add.assoc)
  qed
  ultimately show ?thesis using assms by (simp add: evolves_by_def)
qed

text \<open>What a reader gets by redoing the buffered changes after its own revision.\<close>

lemma redo_buffered:
  assumes "evolves_by s es s'" "numbered s" "buffer s' = [] \<Longrightarrow> revision s' \<le> revision s"
    and "buffer s' \<noteq> [] \<Longrightarrow> number (hd (buffer s')) \<le> revision s + 1"
  shows "fold redo (filter (\<lambda>e. revision s < number e) (buffer s')) (view s) = view s'"
proof -
  obtain n where n: "buffer s' = drop n (buffer s @ es)" using assms(1) by (auto simp: evolves_by_def)
  have old: "e \<in> set (buffer s) \<Longrightarrow> number e \<le> revision s" for e
    using assms(2) unfolding numbered_def by (metis atLeastLessThan_iff image_eqI less_Suc_eq_le Suc_eq_plus1 set_map set_upt)
  have new: "e \<in> set es \<Longrightarrow> revision s < number e" for e
    using assms(1) unfolding evolves_by_def by (metis Suc_eq_plus1 Suc_le_lessD atLeastLessThan_iff image_eqI set_map set_upt)
  have keep: "drop (n - length (buffer s)) es = es"
  proof (cases "buffer s' = []")
    case True
    then have "length es = 0" using assms(1,3) by (simp add: evolves_by_def)
    then show ?thesis by simp
  next
    case False
    show ?thesis
    proof (cases "n \<le> length (buffer s)")
      case False
      let ?k = "n - length (buffer s)"
      have b: "buffer s' = drop ?k es" using n False by simp
      with \<open>buffer s' \<noteq> []\<close> have k: "?k < length es" by simp
      have "number (hd (buffer s')) = map number es ! ?k" unfolding b using k by (simp add: hd_drop_conv_nth)
      also have "\<dots> = revision s + 1 + ?k" 
      proof -
        have "map number es = [revision s + 1 ..< revision s + 1 + length es]" using assms(1) by (simp only: evolves_by_def)
        then show ?thesis using k by (simp only: nth_upt add_less_cancel_left)
      qed
      finally show ?thesis using assms(4) \<open>buffer s' \<noteq> []\<close> False by simp
    qed simp
  qed
  have "filter (\<lambda>e. revision s < number e) (drop n (buffer s)) = []"
    using old by (fastforce simp: filter_empty_conv dest: in_set_dropD)
  moreover have "filter (\<lambda>e. revision s < number e) es = es" using new by (simp add: filter_id_conv)
  ultimately have "filter (\<lambda>e. revision s < number e) (buffer s') = es" unfolding n by (simp add: keep)
  then show ?thesis using assms(1) by (simp add: evolves_by_def)
qed

lemma numbered_evolves:
  assumes "numbered s" "evolves s s'"
  shows "numbered s'"
proof -
  obtain es n where e: "evolves_by s es s'" "buffer s' = drop n (buffer s @ es)" using assms(2) by (auto simp: evolves_def evolves_by_def)
  have l: "length (buffer s @ es) \<le> revision s'" using assms(1) e(1) by (simp add: numbered_def evolves_by_def)
  have "map number (buffer s @ es) = [revision s + 1 - length (buffer s) ..< revision s + 1] @ [revision s + 1 ..< revision s + 1 + length es]"
    using assms(1) e(1) by (simp only: numbered_def evolves_by_def map_append)
  also have "\<dots> = [revision s + 1 - length (buffer s) ..< revision s + 1 + length es]"
    by (rule upt_add_eq_append[symmetric]) simp
  finally have "map number (buffer s @ es) = [revision s' + 1 - length (buffer s @ es) ..< revision s' + 1]"
    using e(1) by (simp add: evolves_by_def)
  then have "map number (buffer s') = drop n [revision s' + 1 - length (buffer s @ es) ..< revision s' + 1]"
    unfolding e(2) by (metis drop_map)
  also have "\<dots> = [revision s' + 1 - length (buffer s') ..< revision s' + 1]"
    unfolding drop_upt e(2) length_drop using l
    by (cases "n \<le> length (buffer s @ es)") (auto simp del: upt_Suc)
  finally show ?thesis unfolding numbered_def using l e(2) by simp
qed

end

sublocale event_feed \<subseteq> feed_order: effect_preorder evolves
proof
  show "evolves s s" for s by (auto intro: evolves_byI evolves_by_still)
  show "evolves a c" if "evolves a b" "evolves b c" for a b c
    using that by (auto simp: evolves_def intro: evolves_by_trans)
qed

text \<open>A machine each of whose steps makes numbered changes: its readers can catch up from any revision it still holds.\<close>

locale event_machine = event_feed view revision buffer number redo
  for view :: "'s \<Rightarrow> 'v" and revision :: "'s \<Rightarrow> nat" and buffer :: "'s \<Rightarrow> 'e list" and number :: "'e \<Rightarrow> nat" and redo :: "'e \<Rightarrow> 'v \<Rightarrow> 'v" +
  fixes step :: "'s \<Rightarrow> 'c \<Rightarrow> 's"
  assumes step_evolves: "evolves s (step s c)"
begin

lemma run_evolves: "evolves s (foldl step s cs)"
  by (induction cs arbitrary: s) (auto intro: feed_order.refl feed_order.trans step_evolves)

lemma numbered_run: "numbered s \<Longrightarrow> numbered (foldl step s cs)"
  using numbered_evolves run_evolves by blast

lemma catch_up:
  assumes "numbered s" "buffer (foldl step s cs) = [] \<Longrightarrow> revision (foldl step s cs) \<le> revision s"
    and "buffer (foldl step s cs) \<noteq> [] \<Longrightarrow> number (hd (buffer (foldl step s cs))) \<le> revision s + 1"
  shows "fold redo (filter (\<lambda>e. revision s < number e) (buffer (foldl step s cs))) (view s) = view (foldl step s cs)"
  using redo_buffered[OF _ assms] run_evolves[of s cs] by (auto simp: evolves_def)

end

end
