(* ===== verification/Binary_IO.thy ===== *)
theory Binary_IO
  imports Interfaces
begin

text \<open>
  \<^verbatim>\<open>packages/meshtastic-link/src/binary-io.ts\<close>: the unsigned base-128 integers and the
  \<^verbatim>\<open>BinaryReader\<close> that the state-delta envelope is written and read with. A reader is modelled by
  the bytes from its offset to the end of the payload: reading advances the offset, that is, drops
  a prefix. \<^verbatim>\<open>undefined\<close> results are \<open>None\<close>.
\<close>

section \<open>Definitions\<close>

text \<open>The \<^verbatim>\<open>do ... while (remaining !== 0n)\<close> loop of \<^verbatim>\<open>encodeUnsignedVarint\<close>.\<close>

function varint_loop :: "nat \<Rightarrow> bytes" where
  "varint_loop remaining =
     (let byte = remaining AND 127;
          remaining' = drop_bit 7 remaining;
          byte' = (if remaining' \<noteq> 0 then byte OR 128 else byte)
      in word_of_nat byte' # (if remaining' \<noteq> 0 then varint_loop remaining' else []))"
  by pat_completeness auto
termination
  by (relation "measure id") (auto simp: drop_bit_eq_div)

definition encodeUnsignedVarint :: "int \<Rightarrow> string \<Rightarrow> bytes result" where
  "encodeUnsignedVarint value errorMessage =
     (if \<not> is_safe_integer value \<or> value < 0 then Inl (RangeError errorMessage)
      else Inr (varint_loop (nat value)))"

definition concatBytes :: "bytes list \<Rightarrow> bytes" where
  "concatBytes parts = foldl (\<lambda>result part. result @ part) [] parts"

fun readByte :: "bytes \<Rightarrow> byte option \<times> bytes" where
  "readByte [] = (None, [])"
| "readByte (b # bs) = (Some b, bs)"

text \<open>The \<^verbatim>\<open>for\<close> loop of \<^verbatim>\<open>readUnsignedVarint\<close>, from a given index and partial value.\<close>

function read_varint_loop :: "nat \<Rightarrow> nat \<Rightarrow> bytes \<Rightarrow> nat option \<times> bytes" where
  "read_varint_loop index value bs =
     (if index < 8 then
        (case readByte bs of
           (None, bs') \<Rightarrow> (None, bs')
         | (Some byte, bs') \<Rightarrow>
             let value' = value OR push_bit (index * 7) (unat (byte AND 127))
             in if byte AND 128 = 0
                then (if value' \<le> max_safe_integer then Some value' else None, bs')
                else read_varint_loop (index + 1) value' bs')
      else (None, bs))"
  by pat_completeness auto
termination
  by (relation "measure (\<lambda>(index, value, bs). 8 - index)") auto

definition readUnsignedVarint :: "bytes \<Rightarrow> nat option \<times> bytes" where
  "readUnsignedVarint bs = read_varint_loop 0 0 bs"

definition readBytes :: "int \<Rightarrow> bytes \<Rightarrow> bytes option \<times> bytes" where
  "readBytes len bs =
     (if \<not> is_safe_integer len \<or> len < 0 \<or> int (length bs) < len then (None, bs)
      else (Some (take (nat len) bs), drop (nat len) bs))"

definition readLengthPrefixedBytes :: "bytes \<Rightarrow> bytes option \<times> bytes" where
  "readLengthPrefixedBytes bs =
     (case readUnsignedVarint bs of
        (None, bs') \<Rightarrow> (None, bs')
      | (Some len, bs') \<Rightarrow> readBytes (int len) bs')"

definition readRemaining :: "bytes \<Rightarrow> bytes" where
  "readRemaining bs = bs"

definition reader_done :: "bytes \<Rightarrow> bool" where
  "reader_done bs \<longleftrightarrow> bs = []"

declare varint_loop.simps [simp del] read_varint_loop.simps [simp del]

section \<open>Lemmas\<close>

lemma varint_loop_small: "n < 128 \<Longrightarrow> varint_loop n = [word_of_nat n]"
  by (subst varint_loop.simps) (simp add: drop_bit_eq_div wire_simps)

lemma or_128: "a < 128 \<Longrightarrow> (a::nat) OR 128 = a + 128"
  using nat_or_push_bit[of a 7 1] by (simp add: push_bit_eq_mult)

lemma varint_loop_large:
  "128 \<le> n \<Longrightarrow> varint_loop n = word_of_nat (n mod 128 + 128) # varint_loop (n div 128)"
  by (subst varint_loop.simps) (simp add: drop_bit_eq_div wire_simps or_128 Let_def)

lemma length_varint_loop: "n < 128 ^ k \<Longrightarrow> 0 < k \<Longrightarrow> length (varint_loop n) \<le> k"
proof (induction k arbitrary: n)
  case (Suc k)
  show ?case
  proof (cases "n < 128")
    case True
    then show ?thesis by (simp add: varint_loop_small)
  next
    case False
    with Suc.prems have "0 < k" by (cases k) auto
    moreover from Suc.prems have "n div 128 < 128 ^ k"
      by (simp add: div_less_of_lt mult.commute)
    ultimately show ?thesis
      using Suc.IH False by (simp add: varint_loop_large)
  qed
qed simp

lemma concatBytes_concat: "concatBytes parts = concat parts"
proof -
  have "foldl (\<lambda>result part. result @ part) acc parts = acc @ concat parts" for acc
    by (induction parts arbitrary: acc) simp_all
  then show ?thesis by (simp add: concatBytes_def)
qed

text \<open>One step of the reader: the low seven bits join the value above those read so far.\<close>

lemma or_push_bit_add:
  "value < 128 ^ index \<Longrightarrow> value OR push_bit (index * 7) (k::nat) = value + k * 128 ^ index"
  using nat_or_push_bit[of "value" "index * 7" k]
  by (simp add: push_bit_eq_mult power_mult mult.commute[of index 7])

lemma read_varint_loop_last:
  assumes "index < 8" "value < 128 ^ index" "unat byte < 128"
  shows "read_varint_loop index value (byte # bs) =
    (if value + unat byte * 128 ^ index \<le> max_safe_integer
     then Some (value + unat byte * 128 ^ index) else None, bs)"
  using assms
  by (subst read_varint_loop.simps) (simp add: wire_simps or_push_bit_add Let_def)

lemma read_varint_loop_more:
  assumes "index < 8" "value < 128 ^ index" "128 \<le> unat byte"
  shows "read_varint_loop index value (byte # bs) =
    read_varint_loop (index + 1) (value + (unat byte - 128) * 128 ^ index) bs"
proof -
  have "unat byte - 128 < 128" using byte_lt[of byte] by linarith
  then have "unat byte mod 128 = unat byte - 128"
    using assms(3) by (simp add: le_mod_geq)
  with assms show ?thesis
    by (subst read_varint_loop.simps) (simp add: wire_simps or_push_bit_add Let_def)
qed

lemma add_digit_less:
  assumes "value < 128 ^ index" "d < (128::nat)"
  shows "value + d * 128 ^ index < 128 ^ (index + 1)"
proof -
  have "value + d * 128 ^ index < (d + 1) * 128 ^ index" using assms(1) by simp
  also have "\<dots> \<le> 128 * 128 ^ index" using assms(2) by (intro mult_right_mono) auto
  finally show ?thesis by simp
qed

lemma digit_distrib: "(a + b * 128) * p = a * p + b * (p * (128::nat))"
  by (simp add: algebra_simps)

lemma digit_split:
  "value + n * 128 ^ index =
     value + (n mod 128) * 128 ^ index + (n div 128) * (128::nat) ^ (index + 1)"
proof -
  have "n * 128 ^ index = (n mod 128 + n div 128 * 128) * 128 ^ index"
    by (simp only: mod_div_mult_eq)
  also have "\<dots> = (n mod 128) * 128 ^ index + (n div 128) * 128 ^ (index + 1)"
    by (simp only: digit_distrib power_add power_one_right)
  finally show ?thesis by simp
qed

text \<open>What the loops of the readers know after one more continuation byte.\<close>

lemma digit_step:
  assumes "n < (128::nat) ^ (8 - index)" "index < 8" "\<not> n < 128"
  shows "index + 1 < 8" "n div 128 < 128 ^ (8 - (index + 1))"
proof -
  show i: "index + 1 < 8" using assms by (cases "index = 7") auto
  have "8 - index = Suc (8 - (index + 1))" using i by simp
  with assms(1) have "n < 128 ^ (8 - (index + 1)) * 128" by simp
  then show "n div 128 < 128 ^ (8 - (index + 1))" by (rule div_less_of_lt)
qed

lemma read_varint_loop_enc:
  assumes "value < 128 ^ index" "n < 128 ^ (8 - index)" "index < 8"
    and "value + n * 128 ^ index \<le> max_safe_integer"
  shows "read_varint_loop index value (varint_loop n @ rest) =
    (Some (value + n * 128 ^ index), rest)"
  using assms
proof (induction n arbitrary: index "value" rule: less_induct)
  case (less n)
  show ?case
  proof (cases "n < 128")
    case True
    then show ?thesis
      using less.prems by (simp add: varint_loop_small read_varint_loop_last wire_simps)
  next
    case False
    let ?v = "value + (n mod 128) * 128 ^ index"
    have "read_varint_loop (index + 1) ?v (varint_loop (n div 128) @ rest) =
        (Some (?v + (n div 128) * 128 ^ (index + 1)), rest)"
    proof (rule less.IH)
      show "n div 128 < n" using False by simp
      show "?v < 128 ^ (index + 1)" using less.prems(1) by (rule add_digit_less) simp
      show "?v + n div 128 * 128 ^ (index + 1) \<le> max_safe_integer"
        using less.prems(4) by (simp only: digit_split[symmetric])
    qed (fact digit_step[OF less.prems(2,3) False])+
    then show ?thesis
      using False less.prems(1,3)
      by (simp add: varint_loop_large read_varint_loop_more wire_simps digit_split[of "value" n index]
          del: of_nat_add)
  qed
qed

lemma max_safe_lt: "n \<le> max_safe_integer \<Longrightarrow> n < 128 ^ 8"
  by (simp add: max_safe_integer_def)

lemma readUnsignedVarint_loop:
  "n \<le> max_safe_integer \<Longrightarrow> readUnsignedVarint (varint_loop n @ rest) = (Some n, rest)"
  using read_varint_loop_enc[of 0 0 n rest] max_safe_lt[of n]
  by (simp add: readUnsignedVarint_def)

text \<open>The reader as a self-delimiting codec on the safe integers.\<close>

definition read_varint_result :: "bytes \<Rightarrow> (nat \<times> bytes) result" where
  "read_varint_result bs =
     (case readUnsignedVarint bs of
        (None, _) \<Rightarrow> Inl (TypeError ''undefined'')
      | (Some n, bs') \<Rightarrow> Inr (n, bs'))"

interpretation io_varint: framed_codec varint_loop read_varint_result
  "\<lambda>n. n \<le> max_safe_integer"
  by unfold_locales (simp add: read_varint_result_def readUnsignedVarint_loop)

lemma read_varint_loop_bounds:
  "read_varint_loop index value bs = (r, bs') \<Longrightarrow>
     (\<forall>n. r = Some n \<longrightarrow> n \<le> max_safe_integer) \<and>
     (\<exists>used. bs = used @ bs' \<and> length used \<le> 8 - index)"
proof (induction "8 - index" arbitrary: index "value" bs)
  case 0
  then show ?case by (subst (asm) read_varint_loop.simps) auto
next
  case (Suc k)
  then have index: "index < 8" by simp
  show ?case
  proof (cases bs)
    case Nil
    then show ?thesis
      using Suc.prems by (subst (asm) read_varint_loop.simps) (auto split: if_splits)
  next
    case (Cons b bs1)
    let ?v = "value OR push_bit (index * 7) (unat (b AND 127))"
    show ?thesis
    proof (cases "b AND 128 = 0")
      case True
      then have "r = (if ?v \<le> max_safe_integer then Some ?v else None) \<and> bs' = bs1"
        using Suc.prems index Cons
        by (subst (asm) read_varint_loop.simps) (simp add: Let_def)
      with Cons index show ?thesis by (auto intro!: exI[of _ "[b]"])
    next
      case False
      then have "read_varint_loop (index + 1) ?v bs1 = (r, bs')"
        using Suc.prems index Cons
        by (subst (asm) read_varint_loop.simps) (simp add: Let_def)
      moreover from Suc.hyps(2) have "k = 8 - (index + 1)" by simp
      ultimately obtain used where
        "\<forall>n. r = Some n \<longrightarrow> n \<le> max_safe_integer" "bs1 = used @ bs'" "length used \<le> 8 - (index + 1)"
        using Suc.hyps(1) by blast
      with Cons index show ?thesis by (auto intro!: exI[of _ "b # used"])
    qed
  qed
qed

text \<open>\<^verbatim>\<open>encodeUnsignedVarint\<close> accepts exactly the non-negative safe integers, writes at most eight
  bytes, and \<^verbatim>\<open>readUnsignedVarint\<close> reads the value back and stops right after it, whatever follows.
\<close>

theorem varint_roundtrip:
  assumes "encodeUnsignedVarint value msg = Inr bs"
  shows "0 \<le> value \<and> is_safe_integer value \<and> length bs \<le> 8 \<and>
    readUnsignedVarint (bs @ rest) = (Some (nat value), rest)"
proof -
  from assms have v: "0 \<le> value" "is_safe_integer value" "bs = varint_loop (nat value)"
    by (auto simp: encodeUnsignedVarint_def split: if_splits)
  then have le: "nat value \<le> max_safe_integer" by (simp add: is_safe_integer_def)
  then have "length bs \<le> 8"
    using v(3) length_varint_loop[of "nat value" 8] max_safe_lt by simp
  with v le show ?thesis by (simp add: readUnsignedVarint_loop)
qed

theorem varint_roundtrip_witness:
  "encodeUnsignedVarint 300 ''bad'' = Inr [172, 2] \<and>
   readUnsignedVarint ([172, 2] @ [7]) = (Some 300, [7])"
proof -
  have h: "encodeUnsignedVarint 300 ''bad'' = Inr [172, 2]"
    by (simp add: encodeUnsignedVarint_def is_safe_integer_def max_safe_integer_def
        varint_loop_large varint_loop_small)
  with varint_roundtrip[OF h, of "[7]"] show ?thesis by simp
qed

text \<open>On every input, \<^verbatim>\<open>readUnsignedVarint\<close> either fails or returns a safe integer, and it consumes a
  prefix of at most eight bytes.
\<close>

theorem readUnsignedVarint_bounds:
  "\<exists>r used bs'. readUnsignedVarint bs = (r, bs') \<and> bs = used @ bs' \<and> length used \<le> 8 \<and>
     (case r of None \<Rightarrow> True | Some n \<Rightarrow> n \<le> max_safe_integer)"
proof -
  obtain r bs' where r: "readUnsignedVarint bs = (r, bs')" by (cases "readUnsignedVarint bs")
  from read_varint_loop_bounds[OF r[unfolded readUnsignedVarint_def]] show ?thesis
    using r by (auto split: option.splits)
qed

end
