(* ===== verification/Binary_Codec.thy ===== *)
theory Binary_Codec
  imports Json Wtf8 Binary_IO
begin

text \<open>
  The binary-v1 payload codec of \<^verbatim>\<open>packages/meshtastic-link/src/binary-codec.ts\<close>. Output is the list of
  bytes a call appends, input the bytes from the current offset on; the shared node counter is
  passed along, and a thrown error is \<open>Inl\<close>. The two pinned vocabularies are generated code and are
  a parameter of the model (record \<open>vocabulary\<close>); their SHA-256 check has no counterpart here.
\<close>

section \<open>Definitions\<close>

record vocabulary =
  FRAME_BINARY_KEYS :: "jstring list"
  FRAME_BINARY_STRINGS :: "jstring list"

definition MAX_BINARY_DEPTH :: nat where "MAX_BINARY_DEPTH = 64"
definition MAX_BINARY_NODES :: nat where "MAX_BINARY_NODES = 65536"
definition MAX_BINARY_BYTES :: nat where "MAX_BINARY_BYTES = 128 * 1024"

definition TAG_NULL :: nat where "TAG_NULL = 0"
definition TAG_FALSE :: nat where "TAG_FALSE = 1"
definition TAG_TRUE :: nat where "TAG_TRUE = 2"
definition TAG_NUMBER :: nat where "TAG_NUMBER = 3"
definition TAG_STRING :: nat where "TAG_STRING = 4"
definition TAG_ARRAY :: nat where "TAG_ARRAY = 5"
definition TAG_OBJECT :: nat where "TAG_OBJECT = 6"

lemmas tag_defs = TAG_NULL_def TAG_FALSE_def TAG_TRUE_def TAG_NUMBER_def TAG_STRING_def
  TAG_ARRAY_def TAG_OBJECT_def

lemmas limit_defs = MAX_BINARY_DEPTH_def MAX_BINARY_NODES_def MAX_BINARY_BYTES_def max_safe_integer_def

text \<open>\<^verbatim>\<open>new Map(dictionary.map((entry, index) => [entry, index]))\<close>: a later duplicate wins.\<close>

definition dictionary_index :: "jstring list \<Rightarrow> jstring \<Rightarrow> nat option" where
  "dictionary_index dictionary entry = map_of (rev (zip dictionary [0..<length dictionary])) entry"

text \<open>Eight little-endian bytes of a double and back (\<^verbatim>\<open>writeDoubleLE\<close>, \<^verbatim>\<open>readDoubleLE\<close>).\<close>

fun le_bytes :: "nat \<Rightarrow> nat \<Rightarrow> bytes" where
  "le_bytes 0 n = []"
| "le_bytes (Suc k) n = word_of_nat (n mod 256) # le_bytes k (n div 256)"

fun le_value :: "bytes \<Rightarrow> nat" where
  "le_value [] = 0"
| "le_value (b # bs) = unat b + 256 * le_value bs"

definition writeDoubleLE :: "f64 \<Rightarrow> bytes" where
  "writeDoubleLE x = le_bytes 8 (unat x)"

definition readDoubleLE :: "bytes \<Rightarrow> f64" where
  "readDoubleLE bs = word_of_nat (le_value bs)"

text \<open>The \<^verbatim>\<open>do ... while (value > 0)\<close> loop of \<^verbatim>\<open>writeVarint\<close>.\<close>

function write_varint_loop :: "nat \<Rightarrow> bytes" where
  "write_varint_loop value =
     (let byte = value mod 128; value' = value div 128
      in word_of_nat (byte OR (if value' > 0 then 128 else 0)) #
         (if value' > 0 then write_varint_loop value' else []))"
  by pat_completeness auto
termination
  by (relation "measure id") auto

definition writeVarint :: "nat \<Rightarrow> bytes result" where
  "writeVarint value =
     (if \<not> is_safe_integer (int value) then Inl (TypeError ''Invalid binary-v1 integer'')
      else Inr (write_varint_loop value))"

text \<open>The \<^verbatim>\<open>for\<close> loop of \<^verbatim>\<open>readVarint\<close>, from a given index, partial value and multiplier.\<close>

function readVarint_loop :: "nat \<Rightarrow> nat \<Rightarrow> nat \<Rightarrow> bytes \<Rightarrow> (nat \<times> bytes) result" where
  "readVarint_loop index value multiplier raw =
     (if index < 8 then
        (case raw of
           [] \<Rightarrow> Inl (TypeError ''Truncated binary-v1 integer'')
         | byte # raw' \<Rightarrow>
             let value' = value + unat (byte AND 127) * multiplier
             in if \<not> is_safe_integer (int value') then Inl (TypeError ''Invalid binary-v1 integer'')
                else if unat byte < 128 then Inr (value', raw')
                else readVarint_loop (index + 1) value' (multiplier * 128) raw')
      else Inl (TypeError ''Invalid binary-v1 integer''))"
  by pat_completeness auto
termination
  by (relation "measure (\<lambda>(index, value, multiplier, raw). 8 - index)") auto

definition readVarint :: "bytes \<Rightarrow> (nat \<times> bytes) result" where
  "readVarint raw = readVarint_loop 0 0 1 raw"

definition writeString :: "jstring list \<Rightarrow> jstring \<Rightarrow> bytes result" where
  "writeString dictionary value =
     (case dictionary_index dictionary value of
        Some index \<Rightarrow> writeVarint (index + 1)
      | None \<Rightarrow>
          let bytes = encodeBinaryUtf8 value
          in if length bytes > MAX_BINARY_BYTES
             then Inl (RangeError ''Binary payload string is too large'')
             else bind_result (writeVarint 0) (\<lambda>zero.
               bind_result (writeVarint (length bytes)) (\<lambda>len. Inr (zero @ len @ bytes))))"

definition readString :: "jstring list \<Rightarrow> bytes \<Rightarrow> (jstring \<times> bytes) result" where
  "readString dictionary raw =
     bind_result (readVarint raw) (\<lambda>(token, raw).
       if token > 0 then
         (if token - 1 < length dictionary then Inr (dictionary ! (token - 1), raw)
          else Inl (TypeError ''Unknown binary-v1 dictionary string''))
       else bind_result (readVarint raw) (\<lambda>(len, raw).
         if len > MAX_BINARY_BYTES \<or> len > length raw
         then Inl (TypeError ''Truncated binary-v1 string'')
         else bind_result (decodeBinaryUtf8 (take len raw)) (\<lambda>value. Inr (value, drop len raw))))"

definition readCount :: "bytes \<Rightarrow> (nat \<times> bytes) result" where
  "readCount raw =
     bind_result (readVarint raw) (\<lambda>(count, raw).
       if count > MAX_BINARY_NODES then Inl (RangeError ''Binary payload has too many values'')
       else Inr (count, raw))"

function writeValue :: "vocabulary \<Rightarrow> json \<Rightarrow> nat \<Rightarrow> nat \<Rightarrow> (bytes \<times> nat) result"
  and writeElements :: "vocabulary \<Rightarrow> json list \<Rightarrow> nat \<Rightarrow> nat \<Rightarrow> (bytes \<times> nat) result"
  and writeFields :: "vocabulary \<Rightarrow> (jstring \<times> json) list \<Rightarrow> nat \<Rightarrow> nat \<Rightarrow> (bytes \<times> nat) result"
where
  "writeValue voc value depth count =
     (if depth > MAX_BINARY_DEPTH \<or> count + 1 > MAX_BINARY_NODES
      then Inl (RangeError ''Binary payload is too deep'')
      else (case value of
          JNull \<Rightarrow> Inr ([word_of_nat TAG_NULL], count + 1)
        | JBool False \<Rightarrow> Inr ([word_of_nat TAG_FALSE], count + 1)
        | JBool True \<Rightarrow> Inr ([word_of_nat TAG_TRUE], count + 1)
        | JNumber x \<Rightarrow>
            if \<not> is_finite x then Inl (TypeError ''Binary payload number is not finite'')
            else Inr (word_of_nat TAG_NUMBER # writeDoubleLE x, count + 1)
        | JString s \<Rightarrow>
            bind_result (writeString (FRAME_BINARY_STRINGS voc) s) (\<lambda>text.
              Inr (word_of_nat TAG_STRING # text, count + 1))
        | JArray xs \<Rightarrow>
            bind_result (writeVarint (length xs)) (\<lambda>len.
              bind_result (writeElements voc xs (depth + 1) (count + 1)) (\<lambda>(body, count').
                Inr (word_of_nat TAG_ARRAY # len @ body, count')))
        | JObject kvs \<Rightarrow>
            bind_result (writeVarint (length kvs)) (\<lambda>len.
              bind_result (writeFields voc (sort_key fst kvs) (depth + 1) (count + 1)) (\<lambda>(body, count').
                Inr (word_of_nat TAG_OBJECT # len @ body, count')))))"
| "writeElements voc [] depth count = Inr ([], count)"
| "writeElements voc (child # children) depth count =
     bind_result (writeValue voc child depth count) (\<lambda>(bs, count).
       bind_result (writeElements voc children depth count) (\<lambda>(bs', count).
         Inr (bs @ bs', count)))"
| "writeFields voc [] depth count = Inr ([], count)"
| "writeFields voc ((key, child) # kvs) depth count =
     bind_result (writeString (FRAME_BINARY_KEYS voc) key) (\<lambda>text.
       bind_result (writeValue voc child depth count) (\<lambda>(bs, count).
         bind_result (writeFields voc kvs depth count) (\<lambda>(bs', count).
           Inr (text @ bs @ bs', count))))"
  by pat_completeness auto
termination
  by (relation "measure (\<lambda>x. case x of
        Inl (voc, v, d, c) \<Rightarrow> size v
      | Inr (Inl (voc, vs, d, c)) \<Rightarrow> size_list size vs
      | Inr (Inr (voc, kvs, d, c)) \<Rightarrow> size_list (size_prod (\<lambda>_. 0) size) kvs)") auto

text \<open>
  The array and object loops of \<^verbatim>\<open>readValue\<close> are \<open>readElements\<close> and \<open>readFields\<close>, called with the number
  of remaining turns; the depth limit bounds the recursion.
\<close>

function readValue :: "vocabulary \<Rightarrow> bytes \<Rightarrow> nat \<Rightarrow> nat \<Rightarrow> (json \<times> bytes \<times> nat) result"
  and readElements ::
    "vocabulary \<Rightarrow> nat \<Rightarrow> json list \<Rightarrow> bytes \<Rightarrow> nat \<Rightarrow> nat \<Rightarrow> (json list \<times> bytes \<times> nat) result"
  and readFields ::
    "vocabulary \<Rightarrow> nat \<Rightarrow> (jstring \<times> json) list \<Rightarrow> bytes \<Rightarrow> nat \<Rightarrow> nat \<Rightarrow>
       ((jstring \<times> json) list \<times> bytes \<times> nat) result"
where
  "readValue voc raw depth count =
     (if depth > MAX_BINARY_DEPTH \<or> count + 1 > MAX_BINARY_NODES
      then Inl (RangeError ''Binary payload is too deep'')
      else bind_result (readVarint raw) (\<lambda>(tag, raw).
        if tag = TAG_NULL then Inr (JNull, raw, count + 1)
        else if tag = TAG_FALSE then Inr (JBool False, raw, count + 1)
        else if tag = TAG_TRUE then Inr (JBool True, raw, count + 1)
        else if tag = TAG_NUMBER then
          (if 8 > length raw then Inl (TypeError ''Truncated binary-v1 number'')
           else let x = readDoubleLE (take 8 raw)
             in if \<not> is_finite x then Inl (TypeError ''Binary payload number is not finite'')
                else Inr (JNumber x, drop 8 raw, count + 1))
        else if tag = TAG_STRING then
          bind_result (readString (FRAME_BINARY_STRINGS voc) raw) (\<lambda>(s, raw).
            Inr (JString s, raw, count + 1))
        else if tag = TAG_ARRAY then
          bind_result (readCount raw) (\<lambda>(n, raw).
            bind_result (readElements voc n [] raw (depth + 1) (count + 1)) (\<lambda>(xs, raw, count).
              Inr (JArray xs, raw, count)))
        else if tag = TAG_OBJECT then
          bind_result (readCount raw) (\<lambda>(n, raw).
            bind_result (readFields voc n [] raw (depth + 1) (count + 1)) (\<lambda>(kvs, raw, count).
              Inr (JObject kvs, raw, count)))
        else Inl (TypeError ''Unknown binary-v1 value tag'')))"
| "readElements voc 0 xs raw depth count = Inr (xs, raw, count)"
| "readElements voc (Suc n) xs raw depth count =
     bind_result (readValue voc raw depth count) (\<lambda>(x, raw, count).
       readElements voc n (xs @ [x]) raw depth count)"
| "readFields voc 0 kvs raw depth count = Inr (kvs, raw, count)"
| "readFields voc (Suc n) kvs raw depth count =
     bind_result (readString (FRAME_BINARY_KEYS voc) raw) (\<lambda>(key, raw).
       if js_has kvs key then Inl (TypeError ''Duplicate binary-v1 object key'')
       else bind_result (readValue voc raw depth count) (\<lambda>(x, raw, count).
         readFields voc n (js_set key x kvs) raw depth count))"
  by pat_completeness auto
termination
  by (relation "measures
      [\<lambda>x. case x of
          Inl (voc, raw, d, c) \<Rightarrow> 66 - d
        | Inr (Inl (voc, n, xs, raw, d, c)) \<Rightarrow> 66 - d
        | Inr (Inr (voc, n, kvs, raw, d, c)) \<Rightarrow> 66 - d,
       \<lambda>x. case x of
          Inl _ \<Rightarrow> 0
        | Inr (Inl (voc, n, xs, raw, d, c)) \<Rightarrow> n
        | Inr (Inr (voc, n, kvs, raw, d, c)) \<Rightarrow> n]")
    (auto simp: MAX_BINARY_DEPTH_def)

declare writeValue.simps [simp del] readValue.simps [simp del]
  write_varint_loop.simps [simp del] readVarint_loop.simps [simp del]

text \<open>
  \<open>parse\<close> is \<^verbatim>\<open>decodeJSON\<close> on the payload (\<open>None\<close> when it throws), \<open>text\<close> is the UTF-8 text that
  \<^verbatim>\<open>JSON.stringify\<close> and \<^verbatim>\<open>TextEncoder\<close> give for an already sorted value.
\<close>

definition encodeCanonicalJSON :: "(json \<Rightarrow> bytes) \<Rightarrow> json \<Rightarrow> bytes result" where
  "encodeCanonicalJSON text v = bind_result (sortJSON v) (\<lambda>sorted. Inr (text sorted))"

definition encodeBinaryPayload ::
    "vocabulary \<Rightarrow> (bytes \<Rightarrow> json option) \<Rightarrow> (json \<Rightarrow> bytes) \<Rightarrow> bytes \<Rightarrow> bytes option" where
  "encodeBinaryPayload voc parse text payload =
     (case parse payload of
        None \<Rightarrow> None
      | Some value \<Rightarrow>
          (case encodeCanonicalJSON text value of
             Inl _ \<Rightarrow> None
           | Inr canonical \<Rightarrow>
               if canonical \<noteq> payload then None
               else (case writeValue voc value 0 0 of
                       Inl _ \<Rightarrow> None
                     | Inr (output, count) \<Rightarrow> Some output)))"

definition decodeBinaryPayload ::
    "vocabulary \<Rightarrow> (json \<Rightarrow> bytes) \<Rightarrow> bytes \<Rightarrow> nat \<Rightarrow> bytes result" where
  "decodeBinaryPayload voc text raw start =
     bind_result (readValue voc (drop start raw) 0 0) (\<lambda>(value, rest, count).
       if rest \<noteq> [] then Inl (TypeError ''Invalid binary-v1 payload boundary'')
       else bind_result (encodeCanonicalJSON text value) (\<lambda>payload.
         if length payload > MAX_BINARY_BYTES then Inl (RangeError ''Binary payload exceeds 128 KiB'')
         else Inr payload))"

section \<open>Integers\<close>

text \<open>The codec's integer writer and the one of \<^verbatim>\<open>binary-io.ts\<close> produce the same bytes.\<close>

lemma write_varint_loop_eq: "write_varint_loop n = varint_loop n"
proof (induction n rule: less_induct)
  case (less n)
  show ?case
  proof (cases "n < 128")
    case True
    then show ?thesis by (subst write_varint_loop.simps) (simp add: varint_loop_small)
  next
    case False
    then show ?thesis
      using less[of "n div 128"]
      by (subst write_varint_loop.simps)
        (simp add: varint_loop_large or_128 div_greater_zero_iff Let_def)
  qed
qed

lemma is_safe_int_iff: "is_safe_integer (int n) \<longleftrightarrow> n \<le> max_safe_integer"
  by (simp add: is_safe_integer_def)

lemma writeVarint_eq:
  "writeVarint n = Inr bs \<longleftrightarrow> n \<le> max_safe_integer \<and> bs = varint_loop n"
  by (auto simp: writeVarint_def is_safe_int_iff write_varint_loop_eq)

lemma readVarint_loop_enc:
  assumes "n < 128 ^ (8 - index)" "index < 8" "value + n * 128 ^ index \<le> max_safe_integer"
  shows "readVarint_loop index value (128 ^ index) (varint_loop n @ rest) =
    Inr (value + n * 128 ^ index, rest)"
  using assms
proof (induction n arbitrary: index "value" rule: less_induct)
  case (less n)
  show ?case
  proof (cases "n < 128")
    case True
    then show ?thesis
      using less.prems
      by (subst readVarint_loop.simps) (simp add: varint_loop_small wire_simps is_safe_int_iff)
  next
    case False
    let ?v = "value + (n mod 128) * 128 ^ index"
    have "readVarint_loop (index + 1) ?v (128 ^ (index + 1)) (varint_loop (n div 128) @ rest) =
        Inr (?v + (n div 128) * 128 ^ (index + 1), rest)"
    proof (rule less.IH)
      show "n div 128 < n" using False by simp
      show "?v + n div 128 * 128 ^ (index + 1) \<le> max_safe_integer"
        using less.prems(3) by (simp only: digit_split[symmetric])
    qed (fact digit_step[OF less.prems(1,2) False])+
    moreover have "?v \<le> max_safe_integer"
      using less.prems(3) digit_split[of "value" n index] by simp
    moreover have "(n mod 128 + 128) mod 128 = n mod 128" by simp
    ultimately show ?thesis
      using False less.prems(2)
      by (subst readVarint_loop.simps)
        (simp add: varint_loop_large wire_simps is_safe_int_iff digit_split[of "value" n index]
          mult.commute del: of_nat_add)
  qed
qed

lemma readVarint_enc:
  "n \<le> max_safe_integer \<Longrightarrow> readVarint (varint_loop n @ rest) = Inr (n, rest)"
  using readVarint_loop_enc[of n 0 0 rest] max_safe_lt[of n] by (simp add: readVarint_def)

interpretation codec_varint: framed_codec varint_loop readVarint "\<lambda>n. n \<le> max_safe_integer"
  by unfold_locales (rule readVarint_enc)

lemma readVarint_tag:
  assumes "n < 128"
  shows "readVarint (word_of_nat n # rest) = Inr (n, rest)"
proof -
  have "n \<le> max_safe_integer" using assms by (simp add: max_safe_integer_def)
  from readVarint_enc[OF this, of rest] show ?thesis using assms by (simp add: varint_loop_small)
qed

section \<open>Doubles and strings\<close>

lemma length_le_bytes [simp]: "length (le_bytes k n) = k"
  by (induction k arbitrary: n) simp_all

lemma le_value_le_bytes: "le_value (le_bytes k n) = n mod 256 ^ k"
proof (induction k arbitrary: n)
  case (Suc k)
  have "n mod 256 + 256 * (n div 256 mod 256 ^ k) = n mod (256 * 256 ^ k)"
    by (simp add: mod_mult2_eq)
  with Suc show ?case by (simp add: wire_simps)
qed simp

lemma double_roundtrip: "readDoubleLE (writeDoubleLE x) = x"
proof -
  have "unat x < 2 ^ 64" using unsigned_less[of x, where 'a = nat] by simp
  then show ?thesis by (simp add: readDoubleLE_def writeDoubleLE_def le_value_le_bytes)
qed

lemma length_writeDoubleLE [simp]: "length (writeDoubleLE x) = 8"
  by (simp add: writeDoubleLE_def)

lemma dictionary_index_SomeD:
  "dictionary_index dictionary s = Some i \<Longrightarrow> i < length dictionary \<and> dictionary ! i = s"
  by (auto simp: dictionary_index_def set_zip dest!: map_of_SomeD)

lemma readString_writeString:
  assumes "writeString dictionary s = Inr bs"
  shows "readString dictionary (bs @ rest) = Inr (s, rest)"
proof (cases "dictionary_index dictionary s")
  case (Some i)
  with assms have "i + 1 \<le> max_safe_integer" "bs = varint_loop (i + 1)"
    by (auto simp: writeString_def writeVarint_eq)
  then show ?thesis
    using dictionary_index_SomeD[OF Some] readVarint_enc[of "i + 1" rest]
    by (simp add: readString_def)
next
  case None
  let ?u = "encodeBinaryUtf8 s"
  from None assms have u: "length ?u \<le> MAX_BINARY_BYTES" "length ?u \<le> max_safe_integer"
    and bs: "bs = varint_loop 0 @ varint_loop (length ?u) @ ?u"
    by (auto simp: writeString_def Let_def bind_result_eq_Inr writeVarint_eq split: if_splits)
  then show ?thesis
    by (simp add: readString_def readVarint_enc decode_encode_utf8)
qed

section \<open>Values\<close>

definition node_ok :: "nat \<Rightarrow> nat \<Rightarrow> bool" where
  "node_ok d c \<longleftrightarrow> d \<le> MAX_BINARY_DEPTH \<and> c + 1 \<le> MAX_BINARY_NODES"

text \<open>When the writer succeeds on each kind of value, and what it appends.\<close>

lemma writeValue_scalar:
  "writeValue voc JNull d c = Inr (bs, c') \<longleftrightarrow>
     node_ok d c \<and> bs = [word_of_nat TAG_NULL] \<and> c' = c + 1"
  "writeValue voc (JBool b) d c = Inr (bs, c') \<longleftrightarrow>
     node_ok d c \<and> bs = [word_of_nat (if b then TAG_TRUE else TAG_FALSE)] \<and> c' = c + 1"
  "writeValue voc (JNumber x) d c = Inr (bs, c') \<longleftrightarrow>
     node_ok d c \<and> is_finite x \<and> bs = word_of_nat TAG_NUMBER # writeDoubleLE x \<and> c' = c + 1"
  by (cases b; subst writeValue.simps; auto simp: node_ok_def)+

lemma writeValue_string:
  "writeValue voc (JString s) d c = Inr (bs, c') \<longleftrightarrow>
     node_ok d c \<and> c' = c + 1 \<and>
     (\<exists>text. writeString (FRAME_BINARY_STRINGS voc) s = Inr text \<and> bs = word_of_nat TAG_STRING # text)"
  by (subst writeValue.simps) (auto simp: node_ok_def bind_result_eq_Inr)

lemma writeValue_array:
  "writeValue voc (JArray xs) d c = Inr (bs, c') \<longleftrightarrow>
     node_ok d c \<and> length xs \<le> max_safe_integer \<and>
     (\<exists>body. writeElements voc xs (d + 1) (c + 1) = Inr (body, c') \<and>
        bs = word_of_nat TAG_ARRAY # varint_loop (length xs) @ body)"
  by (subst writeValue.simps)
    (auto simp: node_ok_def bind_result_eq_Inr writeVarint_eq simp del: writeElements.simps)

lemma writeValue_object:
  "writeValue voc (JObject kvs) d c = Inr (bs, c') \<longleftrightarrow>
     node_ok d c \<and> length kvs \<le> max_safe_integer \<and>
     (\<exists>body. writeFields voc (sort_key fst kvs) (d + 1) (c + 1) = Inr (body, c') \<and>
        bs = word_of_nat TAG_OBJECT # varint_loop (length kvs) @ body)"
  by (subst writeValue.simps)
    (auto simp: node_ok_def bind_result_eq_Inr writeVarint_eq simp del: writeFields.simps)

lemmas writeValue_Inr = writeValue_scalar writeValue_string writeValue_array writeValue_object

text \<open>An induction rule that follows the writer, with the guards in the form used above.\<close>

lemma writer_induct [case_names Scalar Array Object Nil Cons FNil FCons]:
  assumes scalar: "\<And>voc v d c. (\<And>xs. v \<noteq> JArray xs) \<Longrightarrow> (\<And>kvs. v \<noteq> JObject kvs) \<Longrightarrow> P voc v d c"
    and array: "\<And>voc xs d c. (node_ok d c \<Longrightarrow> length xs \<le> max_safe_integer \<Longrightarrow>
        Q voc xs (d + 1) (c + 1)) \<Longrightarrow> P voc (JArray xs) d c"
    and object: "\<And>voc kvs d c. (node_ok d c \<Longrightarrow> length kvs \<le> max_safe_integer \<Longrightarrow>
        R voc (sort_key fst kvs) (d + 1) (c + 1)) \<Longrightarrow> P voc (JObject kvs) d c"
    and nil: "\<And>voc d c. Q voc [] d c"
    and cons: "\<And>voc x xs d c. P voc x d c \<Longrightarrow>
        (\<And>bs c'. writeValue voc x d c = Inr (bs, c') \<Longrightarrow> Q voc xs d c') \<Longrightarrow> Q voc (x # xs) d c"
    and fnil: "\<And>voc d c. R voc [] d c"
    and fcons: "\<And>voc k x kvs d c. (\<And>bs. writeString (FRAME_BINARY_KEYS voc) k = Inr bs \<Longrightarrow> P voc x d c) \<Longrightarrow>
        (\<And>ks bs c'. writeString (FRAME_BINARY_KEYS voc) k = Inr ks \<Longrightarrow>
           writeValue voc x d c = Inr (bs, c') \<Longrightarrow> R voc kvs d c') \<Longrightarrow> R voc ((k, x) # kvs) d c"
  shows "P voc v d c" and "Q voc xs d c" and "R voc kvs d c"
proof (induction voc v d c and voc xs d c and voc kvs d c
    rule: writeValue_writeElements_writeFields.induct)
  case (1 voc v d c)
  have guard: "\<not> (MAX_BINARY_DEPTH < d \<or> MAX_BINARY_NODES < c + 1)" if "node_ok d c"
    using that by (simp add: node_ok_def)
  have len: "writeVarint n = Inr (varint_loop n)" if "n \<le> max_safe_integer" for n
    using that by (simp add: writeVarint_eq)
  show ?case
  proof (cases v)
    case (JArray xs)
    show ?thesis unfolding JArray by (rule array) (rule "1.IH"(1)[OF guard JArray len])
  next
    case (JObject kvs)
    show ?thesis unfolding JObject by (rule object) (rule "1.IH"(2)[OF guard JObject len])
  qed (auto intro: scalar)
qed (auto intro: nil cons fnil fcons)

text \<open>A successful write counts every node it writes and never passes the node limit.\<close>

lemma write_counts:
  "writeValue voc v d c = Inr (bs, c') \<Longrightarrow> c < c' \<and> c' \<le> MAX_BINARY_NODES"
  "writeElements voc xs d c = Inr (bs, c') \<Longrightarrow>
     c + length xs \<le> c' \<and> (c \<le> MAX_BINARY_NODES \<longrightarrow> c' \<le> MAX_BINARY_NODES)"
  "writeFields voc kvs d c = Inr (bs, c') \<Longrightarrow>
     c + length kvs \<le> c' \<and> (c \<le> MAX_BINARY_NODES \<longrightarrow> c' \<le> MAX_BINARY_NODES)"
proof (induction voc v d c and voc xs d c and voc kvs d c arbitrary: bs c' and bs c' and bs c'
    rule: writer_induct)
  case (Scalar voc v d c)
  then show ?case by (cases v) (auto simp: writeValue_Inr node_ok_def)
next
  case (Array voc xs d c)
  then show ?case by (fastforce simp: writeValue_array node_ok_def)
next
  case (Object voc kvs d c)
  then show ?case by (fastforce simp: writeValue_object node_ok_def)
next
  case (Cons voc x xs d c)
  then obtain bs1 c1 bs2 where "writeValue voc x d c = Inr (bs1, c1)"
    "writeElements voc xs d c1 = Inr (bs2, c')" by (auto simp: bind_result_eq_Inr)
  with Cons.IH(1)[OF this(1)] Cons.IH(2)[OF this] show ?case by auto
next
  case (FCons voc k x kvs d c)
  then obtain ks bs1 c1 bs2 where w: "writeString (FRAME_BINARY_KEYS voc) k = Inr ks"
    "writeValue voc x d c = Inr (bs1, c1)" "writeFields voc kvs d c1 = Inr (bs2, c')"
    by (auto simp: bind_result_eq_Inr)
  from FCons.IH(1)[OF w(1,2)] FCons.IH(2)[OF w] show ?case by auto
qed auto

text \<open>Reading back what was written gives the sorted value, at every depth and count.\<close>

lemma readVarint_tag_byte:
  "readVarint (word_of_nat TAG_NULL # raw) = Inr (TAG_NULL, raw)"
  "readVarint (word_of_nat TAG_FALSE # raw) = Inr (TAG_FALSE, raw)"
  "readVarint (word_of_nat TAG_TRUE # raw) = Inr (TAG_TRUE, raw)"
  "readVarint (word_of_nat TAG_NUMBER # raw) = Inr (TAG_NUMBER, raw)"
  "readVarint (word_of_nat TAG_STRING # raw) = Inr (TAG_STRING, raw)"
  "readVarint (word_of_nat TAG_ARRAY # raw) = Inr (TAG_ARRAY, raw)"
  "readVarint (word_of_nat TAG_OBJECT # raw) = Inr (TAG_OBJECT, raw)"
  by (rule readVarint_tag, simp add: tag_defs)+

lemma readValue_tag:
  assumes "node_ok d c"
  shows "readValue voc (word_of_nat TAG_NULL # raw) d c = Inr (JNull, raw, c + 1)"
    and "readValue voc (word_of_nat TAG_FALSE # raw) d c = Inr (JBool False, raw, c + 1)"
    and "readValue voc (word_of_nat TAG_TRUE # raw) d c = Inr (JBool True, raw, c + 1)"
    and "is_finite x \<Longrightarrow>
      readValue voc (word_of_nat TAG_NUMBER # writeDoubleLE x @ raw) d c = Inr (JNumber x, raw, c + 1)"
    and "readValue voc (word_of_nat TAG_STRING # raw) d c =
      bind_result (readString (FRAME_BINARY_STRINGS voc) raw) (\<lambda>(s, raw). Inr (JString s, raw, c + 1))"
    and "readValue voc (word_of_nat TAG_ARRAY # raw) d c =
      bind_result (readCount raw) (\<lambda>(n, raw).
        bind_result (readElements voc n [] raw (d + 1) (c + 1)) (\<lambda>(xs, raw, c). Inr (JArray xs, raw, c)))"
    and "readValue voc (word_of_nat TAG_OBJECT # raw) d c =
      bind_result (readCount raw) (\<lambda>(n, raw).
        bind_result (readFields voc n [] raw (d + 1) (c + 1)) (\<lambda>(kvs, raw, c). Inr (JObject kvs, raw, c)))"
proof -
  have g: "\<not> (MAX_BINARY_DEPTH < d \<or> MAX_BINARY_NODES < c + 1)"
    using assms by (simp add: node_ok_def)
  show "readValue voc (word_of_nat TAG_NULL # raw) d c = Inr (JNull, raw, c + 1)"
    unfolding readValue.simps[of voc _ d c] if_not_P[OF g] readVarint_tag_byte by simp
  show "readValue voc (word_of_nat TAG_FALSE # raw) d c = Inr (JBool False, raw, c + 1)"
    unfolding readValue.simps[of voc _ d c] if_not_P[OF g] readVarint_tag_byte by (simp add: tag_defs)
  show "readValue voc (word_of_nat TAG_TRUE # raw) d c = Inr (JBool True, raw, c + 1)"
    unfolding readValue.simps[of voc _ d c] if_not_P[OF g] readVarint_tag_byte by (simp add: tag_defs)
  show "is_finite x \<Longrightarrow>
      readValue voc (word_of_nat TAG_NUMBER # writeDoubleLE x @ raw) d c = Inr (JNumber x, raw, c + 1)"
    unfolding readValue.simps[of voc _ d c] if_not_P[OF g] readVarint_tag_byte
    by (simp add: tag_defs double_roundtrip)
  show "readValue voc (word_of_nat TAG_STRING # raw) d c =
      bind_result (readString (FRAME_BINARY_STRINGS voc) raw) (\<lambda>(s, raw). Inr (JString s, raw, c + 1))"
    unfolding readValue.simps[of voc _ d c] if_not_P[OF g] readVarint_tag_byte by (simp add: tag_defs)
  show "readValue voc (word_of_nat TAG_ARRAY # raw) d c =
      bind_result (readCount raw) (\<lambda>(n, raw).
        bind_result (readElements voc n [] raw (d + 1) (c + 1)) (\<lambda>(xs, raw, c). Inr (JArray xs, raw, c)))"
    unfolding readValue.simps[of voc _ d c] if_not_P[OF g] readVarint_tag_byte by (simp add: tag_defs)
  show "readValue voc (word_of_nat TAG_OBJECT # raw) d c =
      bind_result (readCount raw) (\<lambda>(n, raw).
        bind_result (readFields voc n [] raw (d + 1) (c + 1)) (\<lambda>(kvs, raw, c). Inr (JObject kvs, raw, c)))"
    unfolding readValue.simps[of voc _ d c] if_not_P[OF g] readVarint_tag_byte by (simp add: tag_defs)
qed

lemma readCount_enc:
  assumes "n \<le> MAX_BINARY_NODES"
  shows "readCount (varint_loop n @ rest) = Inr (n, rest)"
proof -
  have "n \<le> max_safe_integer" using assms by (simp add: MAX_BINARY_NODES_def max_safe_integer_def)
  then show ?thesis using assms by (simp add: readCount_def readVarint_enc)
qed

lemma write_read:
  "writeValue voc v d c = Inr (bs, c') \<Longrightarrow> wf_json v \<Longrightarrow>
     \<exists>s. sortJSON v = Inr s \<and> (\<forall>rest. readValue voc (bs @ rest) d c = Inr (s, rest, c'))"
  "writeElements voc xs d c = Inr (bs, c') \<Longrightarrow> \<forall>x \<in> set xs. wf_json x \<Longrightarrow>
     \<exists>ys. sortJSON_list xs = Inr ys \<and>
       (\<forall>acc rest. readElements voc (length xs) acc (bs @ rest) d c = Inr (acc @ ys, rest, c'))"
  "writeFields voc kvs d c = Inr (bs, c') \<Longrightarrow> wf_json (JObject kvs) \<Longrightarrow>
     \<exists>kvs'. sortJSON_fields kvs = Inr kvs' \<and>
       (\<forall>acc rest. distinct (map fst (acc @ kvs)) \<longrightarrow>
          readFields voc (length kvs) acc (bs @ rest) d c = Inr (acc @ kvs', rest, c'))"
proof (induction voc v d c and voc xs d c and voc kvs d c arbitrary: bs c' and bs c' and bs c'
    rule: writer_induct)
  case (Scalar voc v d c)
  then show ?case
    by (cases v)
      (auto simp: writeValue_Inr readValue_tag double_roundtrip readString_writeString)
next
  case (Array voc xs d c)
  from Array.prems(1) obtain body where ok: "node_ok d c" "length xs \<le> max_safe_integer"
    and body: "writeElements voc xs (d + 1) (c + 1) = Inr (body, c')"
    and bs: "bs = word_of_nat TAG_ARRAY # varint_loop (length xs) @ body"
    by (auto simp: writeValue_array)
  have "length xs \<le> MAX_BINARY_NODES"
    using write_counts(2)[OF body] ok(1) by (auto simp: node_ok_def)
  moreover obtain ys where "sortJSON_list xs = Inr ys"
    "\<And>acc rest. readElements voc (length xs) acc (body @ rest) (d + 1) (c + 1) = Inr (acc @ ys, rest, c')"
    using Array.IH[OF ok body] Array.prems(2) by auto
  ultimately show ?case
    using ok(1) by (auto simp: bs readValue_tag readCount_enc)
next
  case (Object voc kvs d c)
  let ?kvs = "sort_key fst kvs"
  from Object.prems(1) obtain body where ok: "node_ok d c" "length kvs \<le> max_safe_integer"
    and body: "writeFields voc ?kvs (d + 1) (c + 1) = Inr (body, c')"
    and bs: "bs = word_of_nat TAG_OBJECT # varint_loop (length kvs) @ body"
    by (auto simp: writeValue_object)
  have wf: "wf_json (JObject ?kvs)" by (rule wf_json_sort_key[OF Object.prems(2)])
  have "length kvs \<le> MAX_BINARY_NODES"
    using write_counts(3)[OF body] ok(1) by (auto simp: node_ok_def)
  moreover obtain kvs' where "sortJSON_fields ?kvs = Inr kvs'"
    "\<And>rest. readFields voc (length kvs) [] (body @ rest) (d + 1) (c + 1) = Inr (kvs', rest, c')"
    using Object.IH[OF ok body wf] wf by (auto dest: spec[of _ "[]"])
  ultimately show ?case
    using ok(1) by (auto simp: bs readValue_tag readCount_enc)
next
  case (Cons voc x xs d c)
  then obtain bs1 c1 bs2 where w: "writeValue voc x d c = Inr (bs1, c1)"
    "writeElements voc xs d c1 = Inr (bs2, c')" "bs = bs1 @ bs2" by (auto simp: bind_result_eq_Inr)
  with Cons.IH(1)[OF w(1)] Cons.IH(2)[OF w(1,2)] Cons.prems(2) show ?case by fastforce
next
  case (FCons voc k x kvs d c)
  then obtain ks bs1 c1 bs2 where w: "writeString (FRAME_BINARY_KEYS voc) k = Inr ks"
    "writeValue voc x d c = Inr (bs1, c1)" "writeFields voc kvs d c1 = Inr (bs2, c')"
    "bs = ks @ bs1 @ bs2"
    by (auto simp: bind_result_eq_Inr)
  obtain y where y: "sortJSON x = Inr y" "\<And>rest. readValue voc (bs1 @ rest) d c = Inr (y, rest, c1)"
    using FCons.IH(1)[OF w(1,2)] FCons.prems(2) by auto
  obtain kvs' where f: "sortJSON_fields kvs = Inr kvs'"
    "\<And>acc rest. distinct (map fst (acc @ kvs)) \<Longrightarrow>
       readFields voc (length kvs) acc (bs2 @ rest) d c1 = Inr (acc @ kvs', rest, c')"
    using FCons.IH(2)[OF w(1,2,3)] FCons.prems(2) by auto
  have "readFields voc (length ((k, x) # kvs)) acc (bs @ rest) d c = Inr (acc @ (k, y) # kvs', rest, c')"
    if "distinct (map fst (acc @ (k, x) # kvs))" for acc rest
  proof -
    have k: "k \<notin> fst ` set acc" using that by auto
    then have "js_set k y acc = acc @ [(k, y)]" by (rule js_set_new)
    then show ?thesis
      using that k f(2)[of "acc @ [(k, y)]" rest]
      by (simp add: w(4) readString_writeString[OF w(1)] y(2) js_has_iff)
  qed
  with y(1) f(1) show ?case by auto
qed auto

section \<open>Payloads\<close>

lemma decode_encode_payload:
  assumes enc: "encodeBinaryPayload voc parse text payload = Some bs"
    and wf: "\<And>v. parse payload = Some v \<Longrightarrow> wf_json v"
    and small: "length payload \<le> MAX_BINARY_BYTES"
  shows "decodeBinaryPayload voc text (pre @ bs) (length pre) = Inr payload"
proof -
  from enc obtain v c where v: "parse payload = Some v" "encodeCanonicalJSON text v = Inr payload"
    "writeValue voc v 0 0 = Inr (bs, c)"
    by (auto simp: encodeBinaryPayload_def split: option.splits sum.splits if_splits)
  obtain s where s: "sortJSON v = Inr s" "readValue voc (bs @ []) 0 0 = Inr (s, [], c)"
    using write_read(1)[OF v(3) wf[OF v(1)]] by blast
  have "encodeCanonicalJSON text s = Inr payload"
    using v(2) s(1) by (simp add: encodeCanonicalJSON_def sortJSON_idem_aux(1)[OF s(1)])
  then show ?thesis using s(2) small by (simp add: decodeBinaryPayload_def)
qed



section \<open>What the reader accepts\<close>

text \<open>The number of nodes of a value and a bound on its nesting depth.\<close>

fun json_nodes :: "json \<Rightarrow> nat" where
  "json_nodes (JArray xs) = 1 + sum_list (map json_nodes xs)"
| "json_nodes (JObject kvs) = 1 + sum_list (map (\<lambda>kv. json_nodes (snd kv)) kvs)"
| "json_nodes _ = 1"

fun depth_within :: "nat \<Rightarrow> json \<Rightarrow> bool" where
  "depth_within n (JArray xs) = (\<forall>x \<in> set xs. n > 0 \<and> depth_within (n - 1) x)"
| "depth_within n (JObject kvs) = (\<forall>kv \<in> set kvs. n > 0 \<and> depth_within (n - 1) (snd kv))"
| "depth_within n _ = True"

definition value_ok :: "nat \<Rightarrow> json \<Rightarrow> bool" where
  "value_ok d v \<longleftrightarrow> wf_json v \<and> all_finite v \<and> depth_within (MAX_BINARY_DEPTH - d) v"

definition node_limits :: "nat \<Rightarrow> nat \<Rightarrow> json \<Rightarrow> nat \<Rightarrow> bool" where
  "node_limits d c v c' \<longleftrightarrow>
     d \<le> MAX_BINARY_DEPTH \<and> value_ok d v \<and> c' = c + json_nodes v \<and> c' \<le> MAX_BINARY_NODES"

lemma readElements_limits:
  assumes child: "\<And>raw c v rest c'. readValue voc raw d c = Inr (v, rest, c') \<Longrightarrow> node_limits d c v c'"
    and "readElements voc n xs raw d c = Inr (ys, rest, c')" and "c \<le> MAX_BINARY_NODES"
  shows "\<exists>zs. ys = xs @ zs \<and> c' = c + sum_list (map json_nodes zs) \<and> c' \<le> MAX_BINARY_NODES \<and>
    (\<forall>z \<in> set zs. d \<le> MAX_BINARY_DEPTH \<and> value_ok d z)"
  using assms(2,3)
proof (induction n arbitrary: xs raw c)
  case (Suc n)
  then obtain x raw1 c1 where r: "readValue voc raw d c = Inr (x, raw1, c1)"
    "readElements voc n (xs @ [x]) raw1 d c1 = Inr (ys, rest, c')"
    by (auto simp: bind_result_eq_Inr)
  from child[OF r(1)] Suc.IH[OF r(2)] show ?case
    by (fastforce simp: node_limits_def)
qed simp

lemma readFields_limits:
  assumes child: "\<And>raw c v rest c'. readValue voc raw d c = Inr (v, rest, c') \<Longrightarrow> node_limits d c v c'"
    and "readFields voc n kvs raw d c = Inr (kvs', rest, c')" and "c \<le> MAX_BINARY_NODES"
    and "js_map_ok kvs"
  shows "\<exists>zs. kvs' = kvs @ zs \<and> c' = c + sum_list (map (\<lambda>kv. json_nodes (snd kv)) zs) \<and>
    c' \<le> MAX_BINARY_NODES \<and> js_map_ok kvs' \<and>
    (\<forall>z \<in> set zs. d \<le> MAX_BINARY_DEPTH \<and> value_ok d (snd z))"
  using assms(2-4)
proof (induction n arbitrary: kvs raw c)
  case (Suc n)
  then obtain k raw0 x raw1 c1 where r: "readString (FRAME_BINARY_KEYS voc) raw = Inr (k, raw0)"
    "\<not> js_has kvs k" "readValue voc raw0 d c = Inr (x, raw1, c1)"
    "readFields voc n (js_set k x kvs) raw1 d c1 = Inr (kvs', rest, c')"
    by (auto simp: bind_result_eq_Inr split: if_splits)
  have new: "js_set k x kvs = kvs @ [(k, x)]" using r(2) by (simp add: js_set_new js_has_iff)
  have "c1 \<le> MAX_BINARY_NODES" using child[OF r(3)] by (simp add: node_limits_def)
  from child[OF r(3)] Suc.IH[OF r(4) this js_map_ok_set[OF Suc.prems(3)]] show ?case
    unfolding new by (fastforce simp: node_limits_def)
qed simp

text \<open>How a successful read can have happened.\<close>

lemma readValue_InrD:
  assumes "readValue voc raw d c = Inr (v, rest, c')"
  shows "node_ok d c"
    and "(c' = c + 1 \<and> (v = JNull \<or> (\<exists>b. v = JBool b) \<or> (\<exists>s. v = JString s) \<or> (\<exists>x. v = JNumber x \<and> is_finite x)))
      \<or> (\<exists>n raw' xs. v = JArray xs \<and> readElements voc n [] raw' (d + 1) (c + 1) = Inr (xs, rest, c'))
      \<or> (\<exists>n raw' kvs. v = JObject kvs \<and> readFields voc n [] raw' (d + 1) (c + 1) = Inr (kvs, rest, c'))"
proof -
  show ok: "node_ok d c"
  proof (rule ccontr)
    assume "\<not> node_ok d c"
    then have "MAX_BINARY_DEPTH < d \<or> MAX_BINARY_NODES < c + 1" by (auto simp: node_ok_def)
    with assms show False unfolding readValue.simps[of voc raw] by simp
  qed
  then have "\<not> (MAX_BINARY_DEPTH < d \<or> MAX_BINARY_NODES < c + 1)" by (auto simp: node_ok_def)
  from assms[unfolded readValue.simps[of voc raw] if_not_P[OF this]]
  show "(c' = c + 1 \<and> (v = JNull \<or> (\<exists>b. v = JBool b) \<or> (\<exists>s. v = JString s) \<or> (\<exists>x. v = JNumber x \<and> is_finite x)))
      \<or> (\<exists>n raw' xs. v = JArray xs \<and> readElements voc n [] raw' (d + 1) (c + 1) = Inr (xs, rest, c'))
      \<or> (\<exists>n raw' kvs. v = JObject kvs \<and> readFields voc n [] raw' (d + 1) (c + 1) = Inr (kvs, rest, c'))"
    by (auto simp: bind_result_eq_Inr Let_def simp del: readElements.simps readFields.simps split: if_splits)
qed

lemma read_limits: "readValue voc raw d c = Inr (v, rest, c') \<Longrightarrow> node_limits d c v c'"
proof (induction "MAX_BINARY_DEPTH + 1 - d" arbitrary: d raw c v rest c' rule: less_induct)
  case less
  have ok: "d \<le> MAX_BINARY_DEPTH" "c + 1 \<le> MAX_BINARY_NODES"
    using readValue_InrD(1)[OF less.prems] by (auto simp: node_ok_def)
  have child: "node_limits (d + 1) c2 v2 c2'"
    if "readValue voc raw2 (d + 1) c2 = Inr (v2, rest2, c2')" for raw2 c2 v2 rest2 c2'
    using less.hyps[OF _ that] ok(1) by simp
  from readValue_InrD(2)[OF less.prems] show ?case
  proof (elim disjE exE conjE)
    fix n raw' xs
    assume v: "v = JArray xs" and "readElements voc n [] raw' (d + 1) (c + 1) = Inr (xs, rest, c')"
    then have "\<exists>zs. xs = [] @ zs \<and> c' = c + 1 + sum_list (map json_nodes zs) \<and> c' \<le> MAX_BINARY_NODES \<and>
        (\<forall>z \<in> set zs. d + 1 \<le> MAX_BINARY_DEPTH \<and> value_ok (d + 1) z)"
      by (intro readElements_limits[where n = n and raw = raw' and rest = rest] child ok(2)) simp_all
    with ok show ?thesis by (auto simp: node_limits_def value_ok_def v)
  next
    fix n raw' kvs
    assume v: "v = JObject kvs" and "readFields voc n [] raw' (d + 1) (c + 1) = Inr (kvs, rest, c')"
    then have "\<exists>zs. kvs = [] @ zs \<and> c' = c + 1 + sum_list (map (\<lambda>kv. json_nodes (snd kv)) zs) \<and>
        c' \<le> MAX_BINARY_NODES \<and> js_map_ok kvs \<and>
        (\<forall>z \<in> set zs. d + 1 \<le> MAX_BINARY_DEPTH \<and> value_ok (d + 1) (snd z))"
      by (intro readFields_limits[where n = n and raw = raw' and rest = rest] child ok(2)) simp_all
    with ok show ?thesis by (auto simp: node_limits_def value_ok_def v)
  qed (use ok in \<open>auto simp: node_limits_def value_ok_def\<close>)
qed

text \<open>Whatever bytes arrive over the radio, a value that the binary-v1 reader returns is within
  the codec's limits: no object repeats a key, every number is finite, it nests at most 64 levels
  deep and has exactly as many nodes as were counted, at most 65536.\<close>

theorem binary_read_limits:
  assumes "readValue voc raw 0 0 = Inr (v, rest, n)"
  shows "wf_json v \<and> all_finite v \<and> depth_within MAX_BINARY_DEPTH v \<and>
    n = json_nodes v \<and> n \<le> MAX_BINARY_NODES"
  using read_limits[OF assms] by (simp add: node_limits_def value_ok_def)

theorem binary_read_limits_witness:
  "readValue \<lparr>FRAME_BINARY_KEYS = [], FRAME_BINARY_STRINGS = []\<rparr> [5, 2, 2, 0, 7] 0 0 =
     Inr (JArray [JBool True, JNull], [7], 3) \<and> json_nodes (JArray [JBool True, JNull]) = 3"
proof -
  have "writeValue \<lparr>FRAME_BINARY_KEYS = [], FRAME_BINARY_STRINGS = []\<rparr>
      (JArray [JBool True, JNull]) 0 0 = Inr ([5, 2, 2, 0], 3)"
    by (simp add: writeValue_Inr node_ok_def limit_defs tag_defs bind_result_eq_Inr varint_loop_small)
  from write_read(1)[OF this]
  have "readValue \<lparr>FRAME_BINARY_KEYS = [], FRAME_BINARY_STRINGS = []\<rparr> [5, 2, 2, 0, 7] 0 0 =
      Inr (JArray [JBool True, JNull], [7], 3)"
    by (auto dest: spec[of _ "[7]"])
  with binary_read_limits[OF this] show ?thesis by simp
qed

end
