(* ===== verification/Json_Patch.thy ===== *)
theory Json_Patch
  imports Json
begin

text \<open>
  The JSON patches of \<^verbatim>\<open>packages/meshtastic-link/src/state-delta.ts\<close>: \<^verbatim>\<open>diffJSON\<close>, the patch format
  check \<^verbatim>\<open>isPatch\<close>, and \<^verbatim>\<open>applyPatch\<close> with its path navigation. \<^verbatim>\<open>applyPatch\<close> edits a private clone in
  place; a clone is a tree without sharing, so an edit of the node at a path is \<open>put_at\<close>. The two
  documents that \<^verbatim>\<open>diffJSON\<close> compares never share a node (one is a structured clone), hence \<^verbatim>\<open>===\<close> on
  two arrays or two objects is false (\<open>js_identical\<close>).
\<close>

section \<open>Definitions\<close>

datatype patch_operation =
    PAdd "jstring list" json
  | PRemove "jstring list"
  | PReplace "jstring list" json

fun js_identical :: "json \<Rightarrow> json \<Rightarrow> bool" where
  "js_identical JNull JNull = True"
| "js_identical (JBool a) (JBool b) = (a = b)"
| "js_identical (JNumber x) (JNumber y) = number_eq x y"
| "js_identical (JString s) (JString t) = (s = t)"
| "js_identical _ _ = False"

fun isJSONObject :: "json \<Rightarrow> bool" where
  "isJSONObject (JObject _) = True"
| "isJSONObject _ = False"

definition diff_removals :: "(jstring \<times> json) list \<Rightarrow> (jstring \<times> json) list \<Rightarrow> jstring list \<Rightarrow> patch_operation list" where
  "diff_removals left right path =
     map (\<lambda>key. PRemove (path @ [key])) (filter (\<lambda>key. \<not> js_has right key) (sort (js_keys left)))"

function diffJSON :: "(json \<Rightarrow> jstring) \<Rightarrow> json \<Rightarrow> json \<Rightarrow> jstring list \<Rightarrow> patch_operation list"
  and diff_fields :: "(json \<Rightarrow> jstring) \<Rightarrow> (jstring \<times> json) list \<Rightarrow> (jstring \<times> json) list \<Rightarrow>
    jstring list \<Rightarrow> patch_operation list"
where
  "diffJSON stringify left right path =
     (if js_identical left right then []
      else (case (left, right) of
          (JArray _, JArray _) \<Rightarrow> if stringify left = stringify right then [] else [PReplace path right]
        | (JObject l, JObject r) \<Rightarrow> diff_removals l r path @ diff_fields stringify l (sort_key fst r) path
        | _ \<Rightarrow> [PReplace path right]))"
| "diff_fields stringify left [] path = []"
| "diff_fields stringify left ((key, y) # right) path =
     (case js_get left key of
        None \<Rightarrow> [PAdd (path @ [key]) y]
      | Some x \<Rightarrow> diffJSON stringify x y (path @ [key])) @
     diff_fields stringify left right path"
  by pat_completeness auto
termination
  by (relation "measure (\<lambda>x. case x of
        Inl (st, l, r, p) \<Rightarrow> size r
      | Inr (st, l, r, p) \<Rightarrow> size_list (size_prod (\<lambda>_. 0) size) r)") auto

declare diffJSON.simps [simp del]

text \<open>\<^verbatim>\<open>arrayIndex\<close>: a decimal without leading zeros that is a safe integer.\<close>

definition is_digit :: "jschar \<Rightarrow> bool" where
  "is_digit c \<longleftrightarrow> 48 \<le> unat c \<and> unat c \<le> 57"

definition decimal :: "jstring \<Rightarrow> nat" where
  "decimal s = foldl (\<lambda>n c. 10 * n + (unat c - 48)) 0 s"

definition arrayIndex :: "jstring \<Rightarrow> nat option" where
  "arrayIndex s =
     (if s \<noteq> [] \<and> (\<forall>c \<in> set s. is_digit c) \<and> (hd s \<noteq> 48 \<or> s = [48]) \<and> decimal s \<le> max_safe_integer
      then Some (decimal s) else None)"

text \<open>One step of \<^verbatim>\<open>pathValue\<close>, and the loop.\<close>

fun child_at :: "json \<Rightarrow> jstring \<Rightarrow> json option" where
  "child_at (JArray xs) segment =
     (case arrayIndex segment of
        None \<Rightarrow> None
      | Some index \<Rightarrow> if index \<ge> length xs then None else Some (xs ! index))"
| "child_at (JObject kvs) segment = js_get kvs segment"
| "child_at _ _ = None"

fun pathValue :: "json \<Rightarrow> jstring list \<Rightarrow> json option" where
  "pathValue root [] = Some root"
| "pathValue root (segment # path) =
     (case child_at root segment of None \<Rightarrow> None | Some child \<Rightarrow> pathValue child path)"

text \<open>The clone after the node at \<open>path\<close> has been changed in place.\<close>

fun put_child :: "json \<Rightarrow> jstring \<Rightarrow> json \<Rightarrow> json" where
  "put_child (JArray xs) segment v =
     (case arrayIndex segment of None \<Rightarrow> JArray xs | Some index \<Rightarrow> JArray (xs[index := v]))"
| "put_child (JObject kvs) segment v = JObject (js_set segment v kvs)"
| "put_child w _ _ = w"

fun put_at :: "json \<Rightarrow> jstring list \<Rightarrow> json \<Rightarrow> json" where
  "put_at root [] v = v"
| "put_at root (segment # path) v =
     (case child_at root segment of
        None \<Rightarrow> root
      | Some child \<Rightarrow> put_child root segment (put_at child path v))"

text \<open>The edit of the parent node by one operation (its branches for arrays and objects).\<close>

fun op_path :: "patch_operation \<Rightarrow> jstring list" where
  "op_path (PAdd p _) = p"
| "op_path (PRemove p) = p"
| "op_path (PReplace p _) = p"

fun edit_parent :: "json \<Rightarrow> jstring \<Rightarrow> patch_operation \<Rightarrow> json option" where
  "edit_parent (JArray xs) segment op =
     (case arrayIndex segment of
        None \<Rightarrow> None
      | Some index \<Rightarrow>
          (case op of
             PAdd _ v \<Rightarrow> if index > length xs then None else Some (JArray (take index xs @ v # drop index xs))
           | PRemove _ \<Rightarrow>
               if index \<ge> length xs then None else Some (JArray (take index xs @ drop (Suc index) xs))
           | PReplace _ v \<Rightarrow> if index \<ge> length xs then None else Some (JArray (xs[index := v]))))"
| "edit_parent (JObject kvs) segment op =
     (case op of
        PRemove _ \<Rightarrow> if \<not> js_has kvs segment then None else Some (JObject (js_delete segment kvs))
      | PReplace _ v \<Rightarrow> if \<not> js_has kvs segment then None else Some (JObject (js_set segment v kvs))
      | PAdd _ v \<Rightarrow> Some (JObject (js_set segment v kvs)))"
| "edit_parent _ _ _ = None"

definition applyOperation :: "json \<Rightarrow> patch_operation \<Rightarrow> json option" where
  "applyOperation root op =
     (if op_path op = [] then
        (case op of PRemove _ \<Rightarrow> None | PAdd _ v \<Rightarrow> Some v | PReplace _ v \<Rightarrow> Some v)
      else
        (case pathValue root (butlast (op_path op)) of
           None \<Rightarrow> None
         | Some parent \<Rightarrow>
             (case edit_parent parent (last (op_path op)) op of
                None \<Rightarrow> None
              | Some parent' \<Rightarrow> Some (put_at root (butlast (op_path op)) parent'))))"

fun applyPatch :: "json \<Rightarrow> patch_operation list \<Rightarrow> json option" where
  "applyPatch result [] = Some result"
| "applyPatch result (op # patch) =
     (case applyOperation result op of None \<Rightarrow> None | Some result' \<Rightarrow> applyPatch result' patch)"

text \<open>
  A patch as the JSON value that is sent, and \<^verbatim>\<open>isPatch\<close> on a received value; where the check
  succeeds the operation is returned.
\<close>

fun operation_json :: "patch_operation \<Rightarrow> json" where
  "operation_json (PAdd p v) =
     JObject [(js_lit ''op'', JString (js_lit ''add'')), (js_lit ''path'', JArray (map JString p)), (js_lit ''value'', v)]"
| "operation_json (PRemove p) =
     JObject [(js_lit ''op'', JString (js_lit ''remove'')), (js_lit ''path'', JArray (map JString p))]"
| "operation_json (PReplace p v) =
     JObject [(js_lit ''op'', JString (js_lit ''replace'')), (js_lit ''path'', JArray (map JString p)), (js_lit ''value'', v)]"

definition patch_json :: "patch_operation list \<Rightarrow> json" where
  "patch_json patch = JArray (map operation_json patch)"

fun string_of :: "json \<Rightarrow> jstring option" where
  "string_of (JString s) = Some s"
| "string_of _ = None"

fun all_some :: "'a option list \<Rightarrow> 'a list option" where
  "all_some [] = Some []"
| "all_some (None # xs) = None"
| "all_some (Some x # xs) = map_option ((#) x) (all_some xs)"

definition isPatch_operation :: "json \<Rightarrow> patch_operation option" where
  "isPatch_operation operation =
     (case operation of
        JObject kvs \<Rightarrow>
          (case js_get kvs (js_lit ''path'') of
             Some (JArray parts) \<Rightarrow>
               (case all_some (map string_of parts) of
                  None \<Rightarrow> None
                | Some path \<Rightarrow>
                    if js_get kvs (js_lit ''op'') = Some (JString (js_lit ''remove'')) then
                      (if set (js_keys kvs) \<subseteq> {js_lit ''op'', js_lit ''path''} then Some (PRemove path) else None)
                    else if js_get kvs (js_lit ''op'') = Some (JString (js_lit ''add'')) \<or>
                      js_get kvs (js_lit ''op'') = Some (JString (js_lit ''replace'')) then
                      (if set (js_keys kvs) \<subseteq> {js_lit ''op'', js_lit ''path'', js_lit ''value''} then
                         (case js_get kvs (js_lit ''value'') of
                            Some v \<Rightarrow>
                              if \<not> all_finite v then None
                              else if js_get kvs (js_lit ''op'') = Some (JString (js_lit ''add'')) then Some (PAdd path v)
                              else Some (PReplace path v)
                          | None \<Rightarrow> None)
                       else None)
                    else None)
           | _ \<Rightarrow> None)
      | _ \<Rightarrow> None)"

definition isPatch :: "json \<Rightarrow> patch_operation list option" where
  "isPatch v = (case v of JArray operations \<Rightarrow> all_some (map isPatch_operation operations) | _ \<Rightarrow> None)"

section \<open>Paths\<close>

fun op_prefix :: "jstring list \<Rightarrow> patch_operation \<Rightarrow> patch_operation" where
  "op_prefix p (PAdd q v) = PAdd (p @ q) v"
| "op_prefix p (PRemove q) = PRemove (p @ q)"
| "op_prefix p (PReplace q v) = PReplace (p @ q) v"

lemma op_path_prefix [simp]: "op_path (op_prefix p op) = p @ op_path op"
  by (cases op) simp_all

lemma edit_parent_prefix [simp]: "edit_parent v k (op_prefix p op) = edit_parent v k op"
  by (cases v; cases op; cases "arrayIndex k") simp_all

lemma diff_prefix:
  "diffJSON st l r (p @ q) = map (op_prefix p) (diffJSON st l r q)"
  "diff_fields st lk rk (p @ q) = map (op_prefix p) (diff_fields st lk rk q)"
proof (induction st l r q and st lk rk q rule: diffJSON_diff_fields.induct)
  case (1 st l r q)
  show ?case
  proof (cases "\<exists>lk rk. l = JObject lk \<and> r = JObject rk")
    case True
    then obtain lk rk where lr: "l = JObject lk" "r = JObject rk" by blast
    with 1 have "diff_fields st lk (sort_key fst rk) (p @ q) = map (op_prefix p) (diff_fields st lk (sort_key fst rk) q)"
      by simp
    then show ?thesis
      by (simp add: lr diffJSON.simps[of _ "JObject lk"] diff_removals_def)
  next
    case False
    then show ?thesis
      by (subst (1 2) diffJSON.simps) (auto split: json.splits)
  qed
qed (auto split: option.splits)

text \<open>An operation below one property edits that property's value.\<close>

definition grounded :: "patch_operation \<Rightarrow> bool" where
  "grounded op \<longleftrightarrow> (\<forall>v. op \<noteq> PAdd [] v)"

lemma applyOperation_below:
  assumes "map_of kvs k = Some x" "applyOperation x op = Some x'" "grounded op"
  shows "applyOperation (JObject kvs) (op_prefix [k] op) = Some (JObject (js_set k x' kvs))"
proof (cases "op_path op = []")
  case True
  with assms obtain v where "op = PReplace [] v" "x' = v"
    by (cases op) (auto simp: applyOperation_def grounded_def)
  then show ?thesis using assms(1) by (simp add: applyOperation_def js_has_def)
next
  case False
  with assms show ?thesis
    by (auto simp: applyOperation_def split: option.splits)
qed

lemma applyPatch_below:
  assumes "map_of kvs k = Some x" "applyPatch x ops = Some x'" "\<forall>op \<in> set ops. grounded op"
  shows "applyPatch (JObject kvs) (map (op_prefix [k]) ops) = Some (JObject (js_set k x' kvs))"
  using assms
proof (induction ops arbitrary: x kvs)
  case Nil
  then show ?case by (simp add: AList.update_triv)
next
  case (Cons op ops)
  then obtain x1 where x1: "applyOperation x op = Some x1" "applyPatch x1 ops = Some x'"
    by (auto split: option.splits)
  have "map_of (js_set k x1 kvs) k = Some x1" by (simp add: update_conv')
  from Cons.IH[OF this x1(2)] Cons.prems(3) applyOperation_below[OF Cons.prems(1) x1(1)]
  show ?case by simp
qed

lemma applyPatch_append:
  "applyPatch v (ops @ ops') = (case applyPatch v ops of None \<Rightarrow> None | Some w \<Rightarrow> applyPatch w ops')"
  by (induction ops arbitrary: v) (auto split: option.splits)

lemma applyPatch_removals:
  assumes "distinct ks" "set ks \<subseteq> fst ` set kvs"
  shows "applyPatch (JObject kvs) (map (\<lambda>k. PRemove [k]) ks) =
    Some (JObject (filter (\<lambda>kv. fst kv \<notin> set ks) kvs))"
  using assms
proof (induction ks arbitrary: kvs)
  case (Cons k ks)
  have "set ks \<subseteq> fst ` set (js_delete k kvs)"
  proof
    fix x
    assume "x \<in> set ks"
    then have "x \<in> fst ` set kvs" "x \<noteq> k" using Cons.prems by auto
    then show "x \<in> fst ` set (js_delete k kvs)" by (force simp: js_delete_filter)
  qed
  moreover have "(\<lambda>kv. fst kv \<notin> set ks \<and> fst kv \<noteq> k) = (\<lambda>kv. fst kv \<noteq> k \<and> fst kv \<notin> set ks)"
    by auto
  ultimately show ?case using Cons
    by (simp add: applyOperation_def js_has_iff js_delete_filter)
qed simp

section \<open>Applying a difference\<close>

text \<open>
  The receiver applies the patch it parsed back from its JSON text; the values in it are only the
  same as the sender's up to the order of properties and the sign of zero.
\<close>

fun op_same :: "patch_operation \<Rightarrow> patch_operation \<Rightarrow> bool" where
  "op_same (PAdd p v) (PAdd q w) = (p = q \<and> wf_json v \<and> json_same v w)"
| "op_same (PRemove p) (PRemove q) = (p = q)"
| "op_same (PReplace p v) (PReplace q w) = (p = q \<and> wf_json v \<and> json_same v w)"
| "op_same _ _ = False"

lemma op_same_prefix:
  "op_same op' (op_prefix p op) \<longleftrightarrow> (\<exists>op0. op' = op_prefix p op0 \<and> op_same op0 op)"
proof
  assume "op_same op' (op_prefix p op)"
  then show "\<exists>op0. op' = op_prefix p op0 \<and> op_same op0 op"
    by (cases op; cases op')
      (auto intro: exI[of _ "PAdd q v" for q v] exI[of _ "PRemove q" for q] exI[of _ "PReplace q v" for q v])
next
  assume "\<exists>op0. op' = op_prefix p op0 \<and> op_same op0 op"
  then obtain op0 where "op' = op_prefix p op0" "op_same op0 op" by blast
  then show "op_same op' (op_prefix p op)" by (cases op; cases op0) auto
qed

lemma ops_same_prefix:
  "list_all2 op_same ops' (map (op_prefix p) ops) \<Longrightarrow>
     \<exists>ops0. ops' = map (op_prefix p) ops0 \<and> list_all2 op_same ops0 ops"
proof (induction ops arbitrary: ops')
  case (Cons op ops)
  then obtain o' os' where o: "ops' = o' # os'" "op_same o' (op_prefix p op)"
    "list_all2 op_same os' (map (op_prefix p) ops)"
    by (auto simp: list_all2_Cons2)
  from Cons.IH[OF o(3)] obtain ops0 where "os' = map (op_prefix p) ops0" "list_all2 op_same ops0 ops" by blast
  moreover obtain op0 where "o' = op_prefix p op0" "op_same op0 op" using o(2) by (auto simp: op_same_prefix)
  ultimately show ?case using o(1) by (intro exI[of _ "op0 # ops0"]) simp
qed simp

lemma op_same_grounded: "op_same op' op \<Longrightarrow> grounded op \<Longrightarrow> grounded op'"
  by (cases op; cases op') (auto simp: grounded_def)

lemma ops_same_grounded:
  "list_all2 op_same ops' ops \<Longrightarrow> \<forall>op \<in> set ops. grounded op \<Longrightarrow> \<forall>op \<in> set ops'. grounded op"
  by (induction rule: list_all2_induct) (auto dest: op_same_grounded)

lemma diff_grounded:
  "op \<in> set (diffJSON st l r p) \<Longrightarrow> grounded op"
  "op \<in> set (diff_fields st lk rk p) \<Longrightarrow> grounded op"
proof (induction st l r p and st lk rk p rule: diffJSON_diff_fields.induct)
  case (1 st l r p)
  show ?case
  proof (cases "\<exists>lk rk. l = JObject lk \<and> r = JObject rk")
    case True
    then obtain lk rk where lr: "l = JObject lk" "r = JObject rk" by blast
    with 1 show ?thesis
      by (auto simp: lr diffJSON.simps[of _ "JObject lk"] diff_removals_def grounded_def)
  next
    case False
    then show ?thesis using 1(2)
      by (subst (asm) (1) diffJSON.simps) (auto simp: grounded_def split: json.splits if_splits)
  qed
qed (auto simp: grounded_def split: option.splits)

lemma ops_same_removals:
  "list_all2 op_same ops (map PRemove ps) \<longleftrightarrow> ops = map PRemove ps"
proof (induction ps arbitrary: ops)
  case (Cons p ps)
  have "op_same op (PRemove p) \<longleftrightarrow> op = PRemove p" for op by (cases op) auto
  with Cons show ?case by (auto simp: list_all2_Cons2)
qed simp


text \<open>The property loop: what is true of the values makes the objects the same.\<close>

definition patchable :: "(json \<Rightarrow> jstring) \<Rightarrow> json \<Rightarrow> json \<Rightarrow> bool" where
  "patchable st x y \<longleftrightarrow> (\<forall>ops. list_all2 op_same ops (diffJSON st x y []) \<longrightarrow>
     (\<exists>s. applyPatch x ops = Some s \<and> wf_json s \<and> json_same s y))"

lemma apply_fields:
  assumes child: "\<forall>(k, y) \<in> set rs. \<forall>x. map_of l k = Some x \<longrightarrow> patchable st x y"
    and "distinct (map fst rs)" "\<forall>k \<in> fst ` set rs. map_of kvs k = map_of l k"
    and "wf_json (JObject kvs)" "list_all2 op_same ops (diff_fields st l rs [])"
  shows "\<exists>kvs'. applyPatch (JObject kvs) ops = Some (JObject kvs') \<and> wf_json (JObject kvs') \<and>
    (\<forall>k. case map_of rs k of
       Some y \<Rightarrow> \<exists>s. map_of kvs' k = Some s \<and> json_same s y
     | None \<Rightarrow> map_of kvs' k = map_of kvs k)"
  using assms
proof (induction rs arbitrary: kvs ops)
  case Nil
  then show ?case by auto
next
  case (Cons ky rs)
  obtain k y where ky: "ky = (k, y)" by (cases ky)
  have step: "\<exists>s ops1 ops2. ops = ops1 @ ops2 \<and> applyPatch (JObject kvs) ops1 = Some (JObject (js_set k s kvs)) \<and>
      wf_json s \<and> json_same s y \<and> list_all2 op_same ops2 (diff_fields st l rs [])"
  proof (cases "map_of l k")
    case None
    with Cons.prems(5) obtain op ops2 where "ops = op # ops2" "op_same op (PAdd [k] y)"
      "list_all2 op_same ops2 (diff_fields st l rs [])"
      by (auto simp: ky list_all2_Cons2)
    moreover then obtain s where "op = PAdd [k] s" "wf_json s" "json_same s y" by (cases op) auto
    ultimately show ?thesis
      by (intro exI[of _ s] exI[of _ "[op]"] exI[of _ ops2]) (simp add: applyOperation_def)
  next
    case (Some x)
    with Cons.prems(5) obtain ops1 ops2 where o: "ops = ops1 @ ops2"
      "list_all2 op_same ops1 (map (op_prefix [k]) (diffJSON st x y []))"
      "list_all2 op_same ops2 (diff_fields st l rs [])"
      using diff_prefix(1)[of st x y "[k]" "[]"] by (auto simp: ky list_all2_append2)
    then obtain ops0 where p: "ops1 = map (op_prefix [k]) ops0" "list_all2 op_same ops0 (diffJSON st x y [])"
      by (auto dest: ops_same_prefix)
    then obtain s where s: "applyPatch x ops0 = Some s" "wf_json s" "json_same s y"
      using Cons.prems(1) Some by (auto simp: ky patchable_def)
    have "map_of kvs k = Some x" using Cons.prems(3) Some by (simp add: ky)
    then have "applyPatch (JObject kvs) ops1 = Some (JObject (js_set k s kvs))"
      unfolding p(1) using s(1) ops_same_grounded[OF p(2)] diff_grounded(1)
      by (intro applyPatch_below) auto
    with o s show ?thesis by blast
  qed
  then obtain s ops1 ops2 where st: "ops = ops1 @ ops2"
      "applyPatch (JObject kvs) ops1 = Some (JObject (js_set k s kvs))"
      "wf_json s" "json_same s y" "list_all2 op_same ops2 (diff_fields st l rs [])" by blast
  let ?kvs = "js_set k s kvs"
  have wf: "wf_json (JObject ?kvs)"
    using Cons.prems(4) st(3) set_js_set[of k s kvs] by (auto simp: distinct_update)
  have k: "k \<notin> fst ` set rs" using Cons.prems(2) by (simp add: ky)
  have "\<forall>k' \<in> fst ` set rs. map_of ?kvs k' = map_of l k'"
    using Cons.prems(3) k by (auto simp: ky update_conv')
  from Cons.IH[OF _ _ this wf st(5)] obtain kvs' where
    r: "applyPatch (JObject ?kvs) ops2 = Some (JObject kvs')" "wf_json (JObject kvs')"
    "\<And>k. case map_of rs k of
       Some y \<Rightarrow> \<exists>s. map_of kvs' k = Some s \<and> json_same s y
     | None \<Rightarrow> map_of kvs' k = map_of ?kvs k"
    using Cons.prems(1,2) by (auto simp: ky)
  have "case map_of (ky # rs) k' of
       Some y \<Rightarrow> \<exists>s. map_of kvs' k' = Some s \<and> json_same s y
     | None \<Rightarrow> map_of kvs' k' = map_of kvs k'" for k'
  proof (cases "k' = k")
    case True
    have "map_of rs k = None" using k by (simp add: map_of_eq_None_iff)
    with r(3)[of k] True st(4) show ?thesis by (auto simp: ky update_conv')
  next
    case False
    with r(3)[of k'] show ?thesis by (auto simp: ky update_conv' split: option.splits)
  qed
  with r(1,2) st(1,2) show ?case by (auto simp: applyPatch_append)
qed

text \<open>The objects: removals first, then the property loop.\<close>

lemma apply_object:
  assumes child: "\<forall>(k, y) \<in> set r. \<forall>x. map_of l k = Some x \<longrightarrow> patchable st x y"
    and wf: "wf_json (JObject l)" "wf_json (JObject r)"
    and ops: "list_all2 op_same ops (diff_removals l r [] @ diff_fields st l (sort_key fst r) [])"
  shows "\<exists>s. applyPatch (JObject l) ops = Some s \<and> wf_json s \<and> json_same s (JObject r)"
proof -
  let ?ks = "filter (\<lambda>key. \<not> js_has r key) (sort (js_keys l))"
  let ?l = "filter (\<lambda>kv. fst kv \<notin> set ?ks) l"
  let ?r = "sort_key fst r"
  have rem: "diff_removals l r [] = map (\<lambda>k. PRemove [k]) ?ks" by (simp add: diff_removals_def)
  from ops obtain ops2 where o: "ops = map (\<lambda>k. PRemove [k]) ?ks @ ops2"
    "list_all2 op_same ops2 (diff_fields st l ?r [])"
    using ops_same_removals[of _ "map (\<lambda>k. [k]) ?ks"]
    by (auto simp: rem list_all2_append2 comp_def)
  have first: "applyPatch (JObject l) (map (\<lambda>k. PRemove [k]) ?ks) = Some (JObject ?l)"
    using wf(1) by (intro applyPatch_removals) auto
  have lookup: "map_of ?l k = (if js_has r k then map_of l k else None)" for k
    unfolding map_of_filter_key[of "\<lambda>k. k \<notin> set ?ks"]
    by (auto simp: map_of_eq_None_iff)
  have "\<exists>kvs'. applyPatch (JObject ?l) ops2 = Some (JObject kvs') \<and> wf_json (JObject kvs') \<and>
    (\<forall>k. case map_of ?r k of
       Some y \<Rightarrow> \<exists>s. map_of kvs' k = Some s \<and> json_same s y
     | None \<Rightarrow> map_of kvs' k = map_of ?l k)"
  proof (rule apply_fields[OF _ _ _ _ o(2)])
    show "\<forall>(k, y) \<in> set ?r. \<forall>x. map_of l k = Some x \<longrightarrow> patchable st x y" using child by simp
    show "\<forall>k \<in> fst ` set ?r. map_of ?l k = map_of l k"
    proof
      fix k
      assume "k \<in> fst ` set ?r"
      then have "js_has r k" by (simp add: js_has_iff)
      then show "map_of ?l k = map_of l k" by (simp only: lookup if_True)
    qed
    show "wf_json (JObject ?l)" using wf(1) by (auto simp: distinct_map_filter)
    show "distinct (map fst ?r)" using wf(2) by (simp add: distinct_map)
  qed
  then obtain kvs' where k: "applyPatch (JObject ?l) ops2 = Some (JObject kvs')" "wf_json (JObject kvs')"
    "\<And>k. case map_of r k of
       Some y \<Rightarrow> \<exists>s. map_of kvs' k = Some s \<and> json_same s y
     | None \<Rightarrow> map_of kvs' k = map_of ?l k"
    using wf(2) by (auto simp: map_of_sort_key)
  have "rel_option json_same (map_of kvs' k) (map_of r k)" for k
    using k(3)[of k] lookup[of k] by (auto simp: js_has_def split: option.splits)
  then have "json_same (JObject kvs') (JObject r)"
    using k(2) wf(2) by (subst json_same_object) auto
  with k o(1) first show ?thesis by (auto simp: applyPatch_append)
qed

lemma js_identical_same: "js_identical l r \<Longrightarrow> json_same l r"
  by (cases l; cases r) (auto simp: number_eq_def)

definition array_text_ok :: "(json \<Rightarrow> jstring) \<Rightarrow> bool" where
  "array_text_ok stringify \<longleftrightarrow>
     (\<forall>xs ys. wf_json (JArray xs) \<longrightarrow> wf_json (JArray ys) \<longrightarrow>
        stringify (JArray xs) = stringify (JArray ys) \<longrightarrow> json_same (JArray xs) (JArray ys))"

lemma array_text_ok_inj: "array_text_ok (\<lambda>v. replicate (to_nat v) 0)"
proof -
  have "v = w" if "replicate (to_nat v) (0 :: jschar) = replicate (to_nat w) 0" for v w :: json
    using that by (metis length_replicate to_nat_split)
  then show ?thesis unfolding array_text_ok_def using json_same_refl by metis
qed

lemma size_field: "(k, y) \<in> set kvs \<Longrightarrow> size y < size (JObject kvs)"
  by (induction kvs) auto

lemma diff_leaf:
  assumes "array_text_ok stringify"
    and "wf_json l" "wf_json r" "\<nexists>lk rk. l = JObject lk \<and> r = JObject rk"
  shows "diffJSON stringify l r p = [] \<and> json_same l r \<or> diffJSON stringify l r p = [PReplace p r]"
proof (cases "js_identical l r")
  case True
  then show ?thesis by (simp add: diffJSON.simps js_identical_same)
next
  case False
  with assms show ?thesis
    by (cases l; cases r) (simp_all add: diffJSON.simps array_text_ok_def del: json_same.simps)
qed

lemma apply_diff:
  assumes str: "array_text_ok stringify"
  shows "wf_json l \<Longrightarrow> wf_json r \<Longrightarrow> patchable stringify l r"
proof (induction r arbitrary: l rule: measure_induct_rule[where f = size])
  case (less r)
  show ?case
  proof (cases "\<exists>lk rk. l = JObject lk \<and> r = JObject rk")
    case True
    then obtain lk rk where lr: "l = JObject lk" "r = JObject rk" by blast
    have "patchable stringify x y" if "(k, y) \<in> set rk" "map_of lk k = Some x" for k x y
    proof (rule less.IH)
      show "size y < size r" unfolding lr by (rule size_field[OF that(1)])
      show "wf_json x" using less.prems(1) map_of_SomeD[OF that(2)] by (auto simp: lr)
      show "wf_json y" using less.prems(2) that(1) by (auto simp: lr)
    qed
    then have "\<forall>(k, y) \<in> set rk. \<forall>x. map_of lk k = Some x \<longrightarrow> patchable stringify x y" by blast
    from apply_object[OF this less.prems[unfolded lr]] show ?thesis
      by (simp add: lr patchable_def diffJSON.simps[of _ "JObject lk"])
  next
    case False
    from diff_leaf[where p = "[]", OF str less.prems this] show ?thesis
    proof
      assume "diffJSON stringify l r [] = [] \<and> json_same l r"
      with less.prems show ?thesis by (simp add: patchable_def)
    next
      assume d: "diffJSON stringify l r [] = [PReplace [] r]"
      show ?thesis unfolding patchable_def d
      proof (intro allI impI)
        fix ops
        assume "list_all2 op_same ops [PReplace [] r]"
        then obtain op where "ops = [op]" "op_same op (PReplace [] r)" by (auto simp: list_all2_Cons2)
        then show "\<exists>s. applyPatch l ops = Some s \<and> wf_json s \<and> json_same s r"
          by (cases op) (auto simp: applyOperation_def)
      qed
    qed
  qed
qed

section \<open>Patches as JSON\<close>

lemma js_lit_words: 
  "js_lit ''op'' = [111, 112]" "js_lit ''path'' = [112, 97, 116, 104]" "js_lit ''value'' = [118, 97, 108, 117, 101]"
  "js_lit ''add'' = [97, 100, 100]" "js_lit ''remove'' = [114, 101, 109, 111, 118, 101]"
  "js_lit ''replace'' = [114, 101, 112, 108, 97, 99, 101]"
  by (simp_all add: js_lit_def)

lemma is_zero_finite: "is_zero x \<Longrightarrow> is_finite x"
proof -
  assume "is_zero x"
  then have "\<not> bit x n" if "n < 63" for n
    using that by (auto simp: is_zero_def bit_eq_iff bit_simps)
  then have "\<not> bit (drop_bit 52 x AND 0x7ff) 0" by (simp add: bit_simps)
  moreover have "bit (0x7ff :: f64) 0" by simp
  ultimately show ?thesis unfolding is_finite_def by metis
qed

lemma json_same_string [simp]: "json_same v (JString s) \<longleftrightarrow> v = JString s"
  by (cases v) auto

lemma json_same_finite: "json_same v w \<Longrightarrow> all_finite w \<Longrightarrow> all_finite v"
proof (induction v w rule: json_same.induct)
  case (1 xs ys)
  then show ?case by (fastforce simp: list_all2_conv_all_nth in_set_conv_nth)
next
  case (2 a b)
  show ?case
  proof (simp, rule ballI)
    fix kv
    assume kv: "kv \<in> set a"
    with 2(2) obtain y where y: "map_of b (fst kv) = Some y" "json_same (snd kv) y"
      by (auto split: option.splits)
    with 2(3) have "all_finite y" by (force dest: map_of_SomeD)
    with 2(1)[OF kv y] show "all_finite (snd kv)" .
  qed
qed (auto dest: is_zero_finite)

lemma all_some_map_Some [simp]: "all_some (map Some xs) = Some xs"
  by (induction xs) auto

lemma json_same_path: "json_same v (JArray (map JString p)) \<longleftrightarrow> v = JArray (map JString p)"
proof (cases v)
  case (JArray xs)
  have "list_all2 json_same xs (map JString p) \<longleftrightarrow> xs = map JString p"
    by (auto simp: list_all2_conv_all_nth list_eq_iff_nth_eq)
  then show ?thesis using JArray by simp
qed auto

lemma same_objectD:
  assumes "json_same (JObject a) (JObject b)" "js_map_ok a" "js_map_ok b"
  shows "fst ` set a = fst ` set b" "map_of b k = Some y \<Longrightarrow> \<exists>x. map_of a k = Some x \<and> json_same x y"
proof -
  have rel: "rel_option json_same (map_of a k) (map_of b k)" for k
    using assms by (simp add: json_same_object del: json_same.simps)
  show "map_of b k = Some y \<Longrightarrow> \<exists>x. map_of a k = Some x \<and> json_same x y"
    using rel[of k] by (cases "map_of a k") auto
  have "k \<in> fst ` set a \<longleftrightarrow> k \<in> fst ` set b" for k
    using rel[of k] by (cases "map_of a k"; cases "map_of b k")
      (auto simp: map_of_eq_None_iff dest: map_of_SomeD intro: rev_image_eqI)
  then show "fst ` set a = fst ` set b" by blast
qed

fun op_value_ok :: "patch_operation \<Rightarrow> bool" where
  "op_value_ok (PRemove _) = True"
| "op_value_ok (PAdd _ v) = (wf_json v \<and> all_finite v)"
| "op_value_ok (PReplace _ v) = (wf_json v \<and> all_finite v)"

lemma isPatch_operation_same:
  assumes "wf_json v" "json_same v (operation_json op)" "op_value_ok op"
  shows "\<exists>op'. isPatch_operation v = Some op' \<and> op_same op' op"
proof -
  obtain b where b: "operation_json op = JObject b" "js_map_ok b" by (cases op) (auto simp: js_lit_words)
  with assms(2) obtain a where v: "v = JObject a" by (cases v) auto
  have a: "js_map_ok a" "\<And>k x. map_of a k = Some x \<Longrightarrow> wf_json x"
    using assms(1) wf_map_of[of a] by (simp_all add: v)
  note D = same_objectD[OF assms(2)[unfolded v b(1)] a(1) b(2)]
  show ?thesis
  proof (cases op)
    case (PRemove p)
    then have b': "b = [(js_lit ''op'', JString (js_lit ''remove'')), (js_lit ''path'', JArray (map JString p))]"
      using b(1) by simp
    have "map_of a (js_lit ''op'') = Some (JString (js_lit ''remove''))"
      "map_of a (js_lit ''path'') = Some (JArray (map JString p))"
      using D(2)[of "js_lit ''op''"] D(2)[of "js_lit ''path''"] by (auto simp: b' js_lit_words json_same_path)
    moreover have "fst ` set a = {js_lit ''op'', js_lit ''path''}" using D(1) by (auto simp: b')
    ultimately show ?thesis by (simp add: v PRemove isPatch_operation_def comp_def)
  next
    case (PAdd p w)
    then have b': "b = [(js_lit ''op'', JString (js_lit ''add'')), (js_lit ''path'', JArray (map JString p)), (js_lit ''value'', w)]"
      using b(1) by simp
    obtain x where x: "map_of a (js_lit ''op'') = Some (JString (js_lit ''add''))"
      "map_of a (js_lit ''path'') = Some (JArray (map JString p))"
      "map_of a (js_lit ''value'') = Some x" "json_same x w"
      using D(2)[of "js_lit ''op''"] D(2)[of "js_lit ''path''"] D(2)[of "js_lit ''value''"]
      by (auto simp: b' js_lit_words json_same_path)
    moreover have "fst ` set a = {js_lit ''op'', js_lit ''path'', js_lit ''value''}" using D(1) by (auto simp: b')
    moreover have "all_finite x" using x(4) assms(3) json_same_finite by (auto simp: PAdd)
    ultimately show ?thesis using a(2)[OF x(3)]
      by (auto simp: v PAdd isPatch_operation_def comp_def js_lit_words)
  next
    case (PReplace p w)
    then have b': "b = [(js_lit ''op'', JString (js_lit ''replace'')), (js_lit ''path'', JArray (map JString p)), (js_lit ''value'', w)]"
      using b(1) by simp
    obtain x where x: "map_of a (js_lit ''op'') = Some (JString (js_lit ''replace''))"
      "map_of a (js_lit ''path'') = Some (JArray (map JString p))"
      "map_of a (js_lit ''value'') = Some x" "json_same x w"
      using D(2)[of "js_lit ''op''"] D(2)[of "js_lit ''path''"] D(2)[of "js_lit ''value''"]
      by (auto simp: b' js_lit_words json_same_path)
    moreover have "fst ` set a = {js_lit ''op'', js_lit ''path'', js_lit ''value''}" using D(1) by (auto simp: b')
    moreover have "all_finite x" using x(4) assms(3) json_same_finite by (auto simp: PReplace)
    ultimately show ?thesis using a(2)[OF x(3)]
      by (auto simp: v PReplace isPatch_operation_def comp_def js_lit_words)
  qed
qed

lemma isPatch_same:
  assumes "wf_json v" "json_same v (patch_json ops)" "\<forall>op \<in> set ops. op_value_ok op"
  shows "\<exists>ops'. isPatch v = Some ops' \<and> list_all2 op_same ops' ops"
proof -
  obtain xs where v: "v = JArray xs" "list_all2 json_same xs (map operation_json ops)"
    using assms(2) by (cases v) (auto simp: patch_json_def)
  have "\<forall>x \<in> set xs. wf_json x" using assms(1) by (simp add: v)
  with v(2) assms(3) have "\<exists>ops'. all_some (map isPatch_operation xs) = Some ops' \<and> list_all2 op_same ops' ops"
  proof (induction ops arbitrary: xs)
    case (Cons op ops)
    then obtain x xs' where x: "xs = x # xs'" "json_same x (operation_json op)"
      "list_all2 json_same xs' (map operation_json ops)" by (auto simp: list_all2_Cons2)
    from isPatch_operation_same[OF _ x(2)] obtain op' where "isPatch_operation x = Some op'" "op_same op' op"
      using Cons.prems by (auto simp: x(1))
    moreover obtain ops' where "all_some (map isPatch_operation xs') = Some ops'" "list_all2 op_same ops' ops"
      using Cons.IH[OF x(3)] Cons.prems by (auto simp: x(1))
    ultimately show ?case by (simp add: x(1))
  qed simp
  then show ?thesis by (simp add: isPatch_def v(1))
qed

lemma diff_values_ok:
  "op \<in> set (diffJSON st l r p) \<Longrightarrow> wf_json r \<Longrightarrow> all_finite r \<Longrightarrow> op_value_ok op"
  "op \<in> set (diff_fields st lk rk p) \<Longrightarrow> \<forall>kv \<in> set rk. wf_json (snd kv) \<and> all_finite (snd kv) \<Longrightarrow>
     op_value_ok op"
proof (induction st l r p and st lk rk p rule: diffJSON_diff_fields.induct)
  case (1 st l r p)
  show ?case
  proof (cases "\<exists>lk rk. l = JObject lk \<and> r = JObject rk")
    case True
    then obtain lk rk where lr: "l = JObject lk" "r = JObject rk" by blast
    with 1 show ?thesis
      by (auto simp: lr diffJSON.simps[of _ "JObject lk"] diff_removals_def)
  next
    case False
    then show ?thesis using 1(2-)
      by (subst (asm) (1) diffJSON.simps) (auto split: json.splits if_splits)
  qed
qed (auto split: option.splits)

lemma patch_transfer:
  assumes "array_text_ok stringify"
    and "wf_json l" "wf_json r" "all_finite r"
    and "wf_json v" "json_same v (patch_json (diffJSON stringify l r []))"
  shows "\<exists>ops s. isPatch v = Some ops \<and> applyPatch l ops = Some s \<and> wf_json s \<and> json_same s r"
proof -
  have "\<forall>op \<in> set (diffJSON stringify l r []). op_value_ok op"
    using diff_values_ok(1) assms(3,4) by blast
  from isPatch_same[OF assms(5,6) this] obtain ops
    where "isPatch v = Some ops" "list_all2 op_same ops (diffJSON stringify l r [])" by blast
  with apply_diff[OF assms(1-3)] show ?thesis by (auto simp: patchable_def)
qed



end
