(* ===== verification/Contract.thy ===== *)
theory Contract
  imports Json Wtf8
begin

text \<open>
  The Atlas Radio message contract, \<^verbatim>\<open>packages/meshtastic-link/src/contract.ts\<close>: which JSON values are
  Link messages, their priority and delivery class, the identity of a published resource, the wire
  text of a message. A missing property is \<open>None\<close>. The protocol validators are generated code and
  are a parameter (\<open>sdk_is\<close>, by name), as are \<^verbatim>\<open>Date.parse\<close> and SHA-256; the instant comparison of
  \<^verbatim>\<open>packages/sdk/src/validation.ts\<close> is modelled here because the contract calls it.
\<close>

section \<open>Definitions\<close>

record sdk =
  sdk_is :: "string \<Rightarrow> json option \<Rightarrow> bool"
  date_parse :: "jstring \<Rightarrow> int option"
  sha256_hex :: "bytes \<Rightarrow> jstring"

type_synonym fields = "(jstring \<times> json) list"

definition field_of :: "fields \<Rightarrow> string \<Rightarrow> json option" where
  "field_of value name = js_get value (js_lit name)"

definition field_is :: "fields \<Rightarrow> string \<Rightarrow> string \<Rightarrow> bool" where
  "field_is value name literal \<longleftrightarrow> field_of value name = Some (JString (js_lit literal))"

definition MAX_OBJECT_CONTENT_BYTES :: nat where "MAX_OBJECT_CONTENT_BYTES = 32 * 1024"
definition MAX_RADIO_MOVEMENT_SAMPLES :: int where "MAX_RADIO_MOVEMENT_SAMPLES = 100"
definition MAX_RADIO_TRAIL_POINTS :: int where "MAX_RADIO_TRAIL_POINTS = 100"
definition MAX_LINK_FRAGMENTS :: nat where "MAX_LINK_FRAGMENTS = 4096"
definition MAX_LINK_MESSAGE_BYTES :: nat where "MAX_LINK_MESSAGE_BYTES = 128 * 1024"

definition RADIO_CONTRACT_REVISION :: jstring where
  "RADIO_CONTRACT_REVISION =
     js_lit ''sha256:59a8915b063180e08c2b471e8cccf3d894fc424dda98392d2baf0bbc9b138bdc''"

text \<open>The generated operation table: name and kind.\<close>

definition ATLAS_RADIO_OPERATIONS :: "(string \<times> string) list" where
  "ATLAS_RADIO_OPERATIONS =
    [(''command_catalog.get'', ''request''), (''entity.check_in'', ''mutation''), (''entity.create'', ''mutation''),
     (''entity.delete'', ''mutation''), (''entity.get'', ''request''), (''entity.history'', ''request''),
     (''entity.import_movement'', ''mutation''), (''entity.inspect_movement'', ''request''), (''entity.trail'', ''request''),
     (''entity.update'', ''mutation''), (''object.content'', ''request''), (''object.create'', ''mutation''),
     (''object.delete'', ''mutation''), (''object.get'', ''request''), (''object.update'', ''mutation''),
     (''plugin.invoke'', ''request''), (''plugin.invoke_spatial'', ''request''), (''plugin.list'', ''request''),
     (''query.changed_since'', ''request''), (''query.full'', ''request''), (''runtime.begin'', ''mutation''),
     (''runtime.ready'', ''mutation''), (''runtime.stop'', ''mutation''), (''runtime.tasks'', ''request''),
     (''task.acknowledge'', ''mutation''), (''task.cancel'', ''mutation''), (''task.complete'', ''mutation''),
     (''task.create'', ''mutation''), (''task.fail'', ''mutation''), (''task.get'', ''request''),
     (''task.progress'', ''mutation''), (''task.start'', ''mutation'')]"

subsection \<open>Checks on single values\<close>

fun isRecord :: "json option \<Rightarrow> bool" where
  "isRecord (Some (JObject _)) = True"
| "isRecord _ = False"

fun isNonEmptyString :: "json option \<Rightarrow> bool" where
  "isNonEmptyString (Some (JString s)) = non_blank s"
| "isNonEmptyString _ = False"

definition isOneOf :: "json option \<Rightarrow> string list \<Rightarrow> bool" where
  "isOneOf value allowed \<longleftrightarrow> (\<exists>s \<in> set allowed. value = Some (JString (js_lit s)))"

definition isNonNegativeInteger :: "json option \<Rightarrow> bool" where
  "isNonNegativeInteger value \<longleftrightarrow> (case safe_integer value of None \<Rightarrow> False | Some i \<Rightarrow> i \<ge> 0)"

definition isPositiveInteger :: "json option \<Rightarrow> bool" where
  "isPositiveInteger value \<longleftrightarrow> (case safe_integer value of None \<Rightarrow> False | Some i \<Rightarrow> i > 0)"

definition optionalJSON :: "sdk \<Rightarrow> json option \<Rightarrow> bool" where
  "optionalJSON sdk value \<longleftrightarrow> value = None \<or> sdk_is sdk ''isJSONValue'' value"

definition optionalString :: "json option \<Rightarrow> bool" where
  "optionalString value \<longleftrightarrow> value = None \<or> isNonEmptyString value"

definition optionalBoolean :: "json option \<Rightarrow> bool" where
  "optionalBoolean value \<longleftrightarrow> value = None \<or> (\<exists>b \<in> {True, False}. value = Some (JBool b))"

definition optionalNonNegativeInteger :: "json option \<Rightarrow> bool" where
  "optionalNonNegativeInteger value \<longleftrightarrow> value = None \<or> isNonNegativeInteger value"

definition optionalPositiveInteger :: "json option \<Rightarrow> bool" where
  "optionalPositiveInteger value \<longleftrightarrow> value = None \<or> isPositiveInteger value"

definition isResourceType :: "json option \<Rightarrow> bool" where
  "isResourceType value \<longleftrightarrow> isOneOf value [''entity'', ''task'', ''object'']"

text \<open>Calendar timestamps: the regular expression of \<^verbatim>\<open>isRFC3339\<close> and the checks on its groups.\<close>

definition digit :: "jschar \<Rightarrow> bool" where
  "digit c \<longleftrightarrow> 48 \<le> unat c \<and> unat c \<le> 57"

definition number_at :: "jstring \<Rightarrow> nat \<Rightarrow> nat \<Rightarrow> nat" where
  "number_at s i n = foldl (\<lambda>v c. 10 * v + (unat c - 48)) 0 (take n (drop i s))"

fun matches :: "string \<Rightarrow> jstring \<Rightarrow> bool" where
  "matches [] s = (s = [])"
| "matches (p # ps) [] = False"
| "matches (p # ps) (c # s) = ((if p = CHR ''d'' then digit c else [c] = js_lit [p]) \<and> matches ps s)"

definition zone_ok :: "jstring \<Rightarrow> bool" where
  "zone_ok z \<longleftrightarrow> matches ''Z'' z \<or> matches ''+dd:dd'' z \<or> matches ''-dd:dd'' z"

definition rfc3339_zone :: "jstring \<Rightarrow> jstring option" where
  "rfc3339_zone s =
     (let rest = drop 19 s;
          zone = (if rest \<noteq> [] \<and> [hd rest] = js_lit ''.'' \<and> tl rest \<noteq> [] \<and> digit (hd (tl rest))
                  then dropWhile digit (tl rest) else rest)
      in if matches ''dddd-dd-ddTdd:dd:dd'' (take 19 s) \<and> zone_ok zone then Some zone else None)"

definition daysInMonth :: "nat \<Rightarrow> nat \<Rightarrow> nat" where
  "daysInMonth year month =
     (if month = 2 then (if year mod 4 = 0 \<and> (year mod 100 \<noteq> 0 \<or> year mod 400 = 0) then 29 else 28)
      else if 1 \<le> month \<and> month \<le> 12 then [31, 28, 31, 30, 31, 30, 31, 31, 30, 31, 30, 31] ! (month - 1)
      else 0)"

fun isRFC3339 :: "sdk \<Rightarrow> json option \<Rightarrow> bool" where
  "isRFC3339 sdk (Some (JString s)) =
     (case rfc3339_zone s of
        None \<Rightarrow> False
      | Some zone \<Rightarrow>
          date_parse sdk s \<noteq> None \<and>
          (let month = number_at s 5 2; day = number_at s 8 2
           in \<not> (month < 1 \<or> month > 12 \<or> day < 1 \<or> day > daysInMonth (number_at s 0 4) month)) \<and>
          \<not> (number_at s 11 2 > 23 \<or> number_at s 14 2 > 59 \<or> number_at s 17 2 > 59) \<and>
          \<not> (zone \<noteq> js_lit ''Z'' \<and> (number_at zone 1 2 > 23 \<or> number_at zone 4 2 > 59)))"
| "isRFC3339 sdk _ = False"

text \<open>\<^verbatim>\<open>compareMovementInstants\<close>; a NaN (an operand that does not parse) is \<open>None\<close>.\<close>

definition movementMilliseconds :: "sdk \<Rightarrow> jstring \<Rightarrow> int option" where
  "movementMilliseconds sdk value =
     (if take 2 (drop 17 value) = js_lit ''60''
      then map_option (\<lambda>t. t + 1000) (date_parse sdk (take 17 value @ js_lit ''59'' @ drop 19 value))
      else date_parse sdk value)"

fun fraction_digits :: "jstring \<Rightarrow> jstring" where
  "fraction_digits [] = []"
| "fraction_digits (c # s) =
     (if [c] = js_lit ''.'' \<and> s \<noteq> [] \<and> digit (hd s) then takeWhile digit s else fraction_digits s)"

definition fraction9 :: "jstring \<Rightarrow> jstring" where
  "fraction9 value = (let d = take 9 (fraction_digits value) in d @ replicate (9 - length d) 48)"

definition compareMovementInstants :: "sdk \<Rightarrow> jstring \<Rightarrow> jstring \<Rightarrow> int \<Rightarrow> int option" where
  "compareMovementInstants sdk left right rightOffset =
     (case (movementMilliseconds sdk left, movementMilliseconds sdk right) of
        (Some l, Some r) \<Rightarrow>
          (let milliseconds = l - r - rightOffset; a = fraction9 left; b = fraction9 right
           in if milliseconds \<noteq> 0 then Some milliseconds
              else Some (if a = b then 0 else if a < b then -1 else 1))
      | _ \<Rightarrow> None)"

definition not_after :: "sdk \<Rightarrow> json option \<Rightarrow> json option \<Rightarrow> int \<Rightarrow> bool" where
  "not_after sdk left right rightOffset \<longleftrightarrow>
     (case (left, right) of
        (Some (JString l), Some (JString r)) \<Rightarrow>
          (case compareMovementInstants sdk l r rightOffset of None \<Rightarrow> False | Some d \<Rightarrow> d \<le> 0)
      | _ \<Rightarrow> False)"

definition validMovementWindow :: "sdk \<Rightarrow> fields \<Rightarrow> bool" where
  "validMovementWindow sdk value \<longleftrightarrow>
     isNonEmptyString (field_of value ''target_id'') \<and>
     sdk_is sdk ''isRFC3339Timestamp'' (field_of value ''entity_created_at'') \<and>
     sdk_is sdk ''isRFC3339Timestamp'' (field_of value ''from'') \<and>
     sdk_is sdk ''isRFC3339Timestamp'' (field_of value ''to'') \<and>
     not_after sdk (field_of value ''from'') (field_of value ''to'') 0 \<and>
     not_after sdk (field_of value ''to'') (field_of value ''from'') 2592000000"

subsection \<open>Operations\<close>

definition operation_kind :: "json option \<Rightarrow> string option" where
  "operation_kind value =
     (case value of
        Some (JString s) \<Rightarrow> map_of (map (\<lambda>(name, kind). (js_lit name, kind)) ATLAS_RADIO_OPERATIONS) s
      | _ \<Rightarrow> None)"

definition isOperation :: "json option \<Rightarrow> bool" where
  "isOperation value \<longleftrightarrow> operation_kind value \<noteq> None"

definition isRequestOperation :: "json option \<Rightarrow> bool" where
  "isRequestOperation value \<longleftrightarrow> operation_kind value = Some ''request''"

definition isMutationOperation :: "json option \<Rightarrow> bool" where
  "isMutationOperation value \<longleftrightarrow> operation_kind value = Some ''mutation''"

definition op_in :: "json option \<Rightarrow> string list \<Rightarrow> bool" where
  "op_in operation names \<longleftrightarrow> isOneOf operation names"

text \<open>The three switches; no operation of the table reaches their last branch (\<^verbatim>\<open>assertNever\<close>).\<close>

definition validOperationContext :: "sdk \<Rightarrow> json option \<Rightarrow> fields \<Rightarrow> bool" where
  "validOperationContext sdk operation value =
     (if op_in operation [''task.acknowledge'', ''task.start'', ''task.progress'', ''task.complete'',
         ''task.fail'', ''runtime.tasks''] then
        isNonEmptyString (field_of value ''target_id'') \<and> isNonEmptyString (field_of value ''runtime_id'')
      else if op_in operation [''entity.history''] then
        validMovementWindow sdk value \<and> field_of value ''max_points'' = None \<and>
        (field_of value ''limit'' = None \<or>
         (case safe_integer (field_of value ''limit'') of
            None \<Rightarrow> False | Some i \<Rightarrow> i \<ge> 1 \<and> i \<le> MAX_RADIO_MOVEMENT_SAMPLES))
      else if op_in operation [''entity.trail''] then
        validMovementWindow sdk value \<and> field_of value ''cursor'' = None \<and> field_of value ''limit'' = None \<and>
        (case safe_integer (field_of value ''max_points'') of
           None \<Rightarrow> False | Some i \<Rightarrow> i \<ge> 2 \<and> i \<le> MAX_RADIO_TRAIL_POINTS)
      else if op_in operation [''entity.inspect_movement''] then
        isNonEmptyString (field_of value ''target_id'') \<and>
        sdk_is sdk ''isRFC3339Timestamp'' (field_of value ''entity_created_at'') \<and>
        sdk_is sdk ''isRFC3339Timestamp'' (field_of value ''at'')
      else if op_in operation [''entity.import_movement'', ''entity.get'', ''entity.update'', ''entity.delete'',
         ''entity.check_in'', ''task.get'', ''task.cancel'', ''runtime.begin'', ''runtime.stop'',
         ''runtime.ready'', ''object.get'', ''object.update'', ''object.delete'', ''object.content''] then
        isNonEmptyString (field_of value ''target_id'')
      else if op_in operation [''task.create''] then isNonEmptyString (field_of value ''idempotency_key'')
      else if op_in operation [''query.changed_since''] then isNonNegativeInteger (field_of value ''since_version'')
      else if op_in operation [''plugin.invoke'', ''plugin.invoke_spatial''] then
        isNonEmptyString (field_of value ''plugin_id'') \<and> isNonEmptyString (field_of value ''plugin_operation_id'')
      else if op_in operation [''entity.create'', ''object.create'', ''query.full'', ''command_catalog.get'',
         ''plugin.list''] then True
      else False)"

definition validOperationInput :: "sdk \<Rightarrow> json option \<Rightarrow> json option \<Rightarrow> bool" where
  "validOperationInput sdk operation input =
     (if op_in operation [''entity.import_movement''] then sdk_is sdk ''isMovementHistoryBatchRequest'' input
     else if op_in operation [''entity.create''] then sdk_is sdk ''isEntityCreateRequest'' input
     else if op_in operation [''entity.update''] then sdk_is sdk ''isEntityUpdateRequest'' input
     else if op_in operation [''entity.check_in''] then sdk_is sdk ''isEntityCheckInRequest'' input
     else if op_in operation [''task.create''] then sdk_is sdk ''isTaskCreateRequest'' input
     else if op_in operation [''task.acknowledge''] then sdk_is sdk ''isTaskAcknowledgeRequest'' input
     else if op_in operation [''task.start''] then sdk_is sdk ''isTaskStartRequest'' input
     else if op_in operation [''task.progress''] then sdk_is sdk ''isTaskProgressRequest'' input
     else if op_in operation [''task.complete''] then sdk_is sdk ''isTaskCompleteRequest'' input
     else if op_in operation [''task.fail''] then sdk_is sdk ''isTaskFailRequest'' input
     else if op_in operation [''task.cancel''] then sdk_is sdk ''isTaskCancelRequest'' input
     else if op_in operation [''runtime.begin''] then sdk_is sdk ''isRuntimeRegistrationRequest'' input
     else if op_in operation [''runtime.stop''] then sdk_is sdk ''isRuntimeStopRequest'' input
     else if op_in operation [''runtime.ready''] then sdk_is sdk ''isRuntimeReadyRequest'' input
     else if op_in operation [''object.create''] then sdk_is sdk ''isObjectCreateRequest'' input
     else if op_in operation [''object.update''] then sdk_is sdk ''isObjectUpdateRequest'' input
     else if op_in operation [''plugin.invoke''] then sdk_is sdk ''isJSONValue'' input
     else if op_in operation [''plugin.invoke_spatial''] then sdk_is sdk ''isMapArea'' input
     else if op_in operation [''entity.history'', ''entity.trail'', ''entity.inspect_movement'',
         ''entity.get'', ''entity.delete'', ''task.get'', ''runtime.tasks'', ''object.get'',
         ''object.delete'', ''object.content'', ''query.full'', ''query.changed_since'',
         ''command_catalog.get'', ''plugin.list''] then input = None
      else False)"

definition validOperationOutput :: "sdk \<Rightarrow> json option \<Rightarrow> json option \<Rightarrow> bool" where
  "validOperationOutput sdk operation output =
     (if op_in operation [''entity.history''] then sdk_is sdk ''isMovementHistoryPage'' output
     else if op_in operation [''entity.trail''] then sdk_is sdk ''isMovementTrail'' output
     else if op_in operation [''entity.inspect_movement''] then sdk_is sdk ''isMovementInspection'' output
     else if op_in operation [''entity.import_movement''] then sdk_is sdk ''isMovementHistoryBatchResponse'' output
     else if op_in operation [''entity.get'', ''entity.create'',
         ''entity.update''] then sdk_is sdk ''isEntityResource'' output
     else if op_in operation [''entity.check_in''] then sdk_is sdk ''isEntityCheckInResponse'' output
     else if op_in operation [''task.get'', ''task.create'', ''task.acknowledge'', ''task.start'',
         ''task.progress'', ''task.complete'', ''task.fail'',
         ''task.cancel''] then sdk_is sdk ''isTaskResource'' output
     else if op_in operation [''runtime.tasks''] then sdk_is sdk ''isRuntimeTaskDeliveryResponse'' output
     else if op_in operation [''object.get'', ''object.create'',
         ''object.update''] then sdk_is sdk ''isObjectDetailResource'' output
     else if op_in operation [''query.full''] then sdk_is sdk ''isFullDatasetResponse'' output
     else if op_in operation [''query.changed_since''] then sdk_is sdk ''isChangedSinceResponse'' output
     else if op_in operation [''command_catalog.get''] then sdk_is sdk ''isCommandCatalog'' output
     else if op_in operation [''plugin.list''] then sdk_is sdk ''isPluginDiscoveryResponse'' output
     else if op_in operation [''plugin.invoke''] then sdk_is sdk ''isJSONValue'' output
     else if op_in operation [''plugin.invoke_spatial''] then sdk_is sdk ''isSpatialOperationResult'' output
     else if op_in operation [''entity.delete'', ''runtime.begin'', ''runtime.stop'',
         ''runtime.ready'', ''object.delete'', ''object.content''] then output = None
      else False)"

subsection \<open>Messages\<close>

definition isStatePublication :: "sdk \<Rightarrow> fields \<Rightarrow> bool" where
  "isStatePublication sdk value =
     (if \<not> isRFC3339 sdk (field_of value ''observation_time'') \<or>
         \<not> isOneOf (field_of value ''path'') [''field'', ''gateway_feed''] \<or>
         \<not> isOneOf (field_of value ''confirmation'')
           [''not_required'', ''awaiting_core'', ''core_confirmed'', ''core_rejected''] \<or>
         \<not> optionalString (field_of value ''operation_id'') \<or>
         \<not> optionalString (field_of value ''runtime_id'') \<or>
         \<not> optionalBoolean (field_of value ''deleted'') \<or>
         \<not> optionalNonNegativeInteger (field_of value ''atlas_version'') then False
      else if field_is value ''path'' ''field'' \<and> field_is value ''confirmation'' ''awaiting_core'' \<and>
         \<not> isNonEmptyString (field_of value ''operation_id'') then False
      else if field_of value ''deleted'' = Some (JBool True) then
        (field_is value ''resource_type'' ''entity'' \<or> field_is value ''resource_type'' ''object'') \<and>
        isNonEmptyString (field_of value ''resource_id'') \<and> field_of value ''resource'' = None \<and>
        isNonNegativeInteger (field_of value ''atlas_version'')
      else if field_of value ''resource_id'' \<noteq> None \<or> field_of value ''atlas_version'' \<noteq> None then False
      else if field_is value ''resource_type'' ''entity'' then
        sdk_is sdk ''isEntityResource'' (field_of value ''resource'')
      else if field_is value ''resource_type'' ''task'' then
        field_of value ''deleted'' \<noteq> Some (JBool True) \<and> field_of value ''atlas_version'' = None \<and>
        sdk_is sdk ''isTaskResource'' (field_of value ''resource'')
      else if field_is value ''resource_type'' ''object'' then
        sdk_is sdk ''isObjectResource'' (field_of value ''resource'')
      else False)"

definition isTaskDelivery :: "sdk \<Rightarrow> fields \<Rightarrow> bool" where
  "isTaskDelivery sdk value \<longleftrightarrow>
     isOneOf (field_of value ''delivery'') [''assignment'', ''cancellation''] \<and>
     sdk_is sdk ''isTaskResource'' (field_of value ''task'')"

definition isTaskReport :: "sdk \<Rightarrow> fields \<Rightarrow> bool" where
  "isTaskReport sdk value =
     (if \<not> isNonEmptyString (field_of value ''task_id'') \<or> \<not> isNonEmptyString (field_of value ''runtime_id'') \<or>
         \<not> isRFC3339 sdk (field_of value ''observation_time'') \<or> \<not> isRecord (field_of value ''body'') then False
      else let body = field_of value ''body'' in
        if field_is value ''action'' ''acknowledge'' then sdk_is sdk ''isTaskAcknowledgeRequest'' body
        else if field_is value ''action'' ''start'' then sdk_is sdk ''isTaskStartRequest'' body
        else if field_is value ''action'' ''progress'' then sdk_is sdk ''isTaskProgressRequest'' body
        else if field_is value ''action'' ''complete'' then sdk_is sdk ''isTaskCompleteRequest'' body
        else if field_is value ''action'' ''fail'' then sdk_is sdk ''isTaskFailRequest'' body
        else if field_is value ''action'' ''cancel'' then sdk_is sdk ''isTaskCancelRequest'' body
        else False)"

definition isDataRequest :: "sdk \<Rightarrow> fields \<Rightarrow> bool" where
  "isDataRequest sdk value \<longleftrightarrow>
     isNonEmptyString (field_of value ''request_id'') \<and>
     isRequestOperation (field_of value ''operation'') \<and>
     optionalString (field_of value ''target_id'') \<and> optionalString (field_of value ''runtime_id'') \<and>
     optionalString (field_of value ''plugin_id'') \<and> optionalString (field_of value ''plugin_operation_id'') \<and>
     optionalNonNegativeInteger (field_of value ''since_version'') \<and> optionalJSON sdk (field_of value ''input'') \<and>
     optionalString (field_of value ''cursor'') \<and> optionalPositiveInteger (field_of value ''limit'') \<and>
     optionalString (field_of value ''entity_cursor'') \<and> optionalString (field_of value ''task_cursor'') \<and>
     optionalString (field_of value ''object_cursor'') \<and>
     optionalPositiveInteger (field_of value ''entity_limit'') \<and>
     optionalPositiveInteger (field_of value ''task_limit'') \<and>
     optionalPositiveInteger (field_of value ''object_limit'') \<and>
     validOperationContext sdk (field_of value ''operation'') value \<and>
     validOperationInput sdk (field_of value ''operation'') (field_of value ''input'')"

definition isDataResponse :: "sdk \<Rightarrow> fields \<Rightarrow> bool" where
  "isDataResponse sdk value \<longleftrightarrow>
     isNonEmptyString (field_of value ''request_id'') \<and> isOperation (field_of value ''operation'') \<and>
     optionalString (field_of value ''next_cursor'') \<and>
     validOperationOutput sdk (field_of value ''operation'') (field_of value ''output'')"

definition isResourceOperation :: "sdk \<Rightarrow> fields \<Rightarrow> bool" where
  "isResourceOperation sdk value \<longleftrightarrow>
     isMutationOperation (field_of value ''operation'') \<and> optionalJSON sdk (field_of value ''input'') \<and>
     optionalString (field_of value ''target_id'') \<and> optionalString (field_of value ''runtime_id'') \<and>
     optionalString (field_of value ''idempotency_key'') \<and>
     optionalNonNegativeInteger (field_of value ''if_match_version'') \<and>
     optionalString (field_of value ''plugin_id'') \<and> optionalString (field_of value ''plugin_operation_id'') \<and>
     validOperationContext sdk (field_of value ''operation'') value \<and>
     validOperationInput sdk (field_of value ''operation'') (field_of value ''input'')"

fun isFeedSelector :: "json option \<Rightarrow> bool" where
  "isFeedSelector (Some (JObject value)) =
     (if field_is value ''kind'' ''record'' then
        isResourceType (field_of value ''resource_type'') \<and> isNonEmptyString (field_of value ''id'')
      else if field_is value ''kind'' ''resource_type'' then isResourceType (field_of value ''resource_type'')
      else field_is value ''kind'' ''tasks_for_asset'' \<and> isNonEmptyString (field_of value ''asset_id''))"
| "isFeedSelector _ = False"

definition isSubscriptionOperation :: "fields \<Rightarrow> bool" where
  "isSubscriptionOperation value \<longleftrightarrow>
     isOneOf (field_of value ''action'') [''add'', ''renew'', ''remove''] \<and>
     isFeedSelector (field_of value ''selector'')"

text \<open>Base64 text: the regular expression of \<^verbatim>\<open>isObjectContent\<close> and the bytes it denotes.\<close>

definition base64_value :: "jschar \<Rightarrow> nat option" where
  "base64_value c =
     (let n = unat c in
      if 65 \<le> n \<and> n \<le> 90 then Some (n - 65)
      else if 97 \<le> n \<and> n \<le> 122 then Some (n - 71)
      else if 48 \<le> n \<and> n \<le> 57 then Some (n + 4)
      else if n = 43 then Some 62
      else if n = 47 then Some 63
      else None)"

fun base64_decode :: "jstring \<Rightarrow> bytes option" where
  "base64_decode [] = Some []"
| "base64_decode (a # b # c # d # rest) =
     (case (base64_value a, base64_value b, base64_value c, base64_value d) of
        (Some x, Some y, Some z, Some w) \<Rightarrow>
          map_option (\<lambda>bs. word_of_nat (x * 4 + y div 16) # word_of_nat (y * 16 + z div 4) #
            word_of_nat (z * 64 + w) # bs) (base64_decode rest)
      | (Some x, Some y, Some z, None) \<Rightarrow>
          if d = 61 \<and> rest = [] then Some [word_of_nat (x * 4 + y div 16), word_of_nat (y * 16 + z div 4)]
          else None
      | (Some x, Some y, None, None) \<Rightarrow>
          if c = 61 \<and> d = 61 \<and> rest = [] then Some [word_of_nat (x * 4 + y div 16)] else None
      | _ \<Rightarrow> None)"
| "base64_decode _ = None"

definition hex_digit :: "jschar \<Rightarrow> bool" where
  "hex_digit c \<longleftrightarrow> digit c \<or> 97 \<le> unat c \<and> unat c \<le> 102"

fun isSha256 :: "json option \<Rightarrow> bool" where
  "isSha256 (Some (JString s)) =
     (take 7 s = js_lit ''sha256:'' \<and> length s = 71 \<and> (\<forall>c \<in> set (drop 7 s). hex_digit c))"
| "isSha256 _ = False"

definition isObjectContent :: "sdk \<Rightarrow> fields \<Rightarrow> bool" where
  "isObjectContent sdk value =
     (if \<not> isNonEmptyString (field_of value ''object_id'') \<or> \<not> isNonEmptyString (field_of value ''request_id'') \<or>
         \<not> isSha256 (field_of value ''sha256'') then False
      else (case field_of value ''content_base64'' of
          Some (JString s) \<Rightarrow>
            (case base64_decode s of
               None \<Rightarrow> False
             | Some content \<Rightarrow>
                 length content \<le> MAX_OBJECT_CONTENT_BYTES \<and>
                 field_of value ''sha256'' = Some (JString (js_lit ''sha256:'' @ sha256_hex sdk content)))
        | _ \<Rightarrow> False))"

fun isLinkNode :: "json option \<Rightarrow> bool" where
  "isLinkNode (Some (JObject value)) =
     ((field_is value ''role'' ''asset'' \<or> field_is value ''role'' ''gateway'') \<and>
      (case field_of value ''id'' of Some (JString s) \<Rightarrow> non_blank s \<and> 58 \<notin> set s | _ \<Rightarrow> False))"
| "isLinkNode _ = False"

definition isMissingChunks :: "json option \<Rightarrow> bool" where
  "isMissingChunks value =
     (case value of
        Some (JArray chunks) \<Rightarrow>
          length chunks \<le> MAX_LINK_FRAGMENTS \<and> distinct (map (\<lambda>item. safe_integer (Some item)) chunks) \<and>
          (\<forall>item \<in> set chunks. case safe_integer (Some item) of
             None \<Rightarrow> False | Some i \<Rightarrow> i \<ge> 0 \<and> i < int MAX_LINK_FRAGMENTS)
      | _ \<Rightarrow> False)"

definition isControlMessage :: "fields \<Rightarrow> bool" where
  "isControlMessage value =
     (if field_is value ''control'' ''source_active'' then
        isNonEmptyString (field_of value ''operation_id'') \<and> isLinkNode (field_of value ''active_source'') \<and>
        isPositiveInteger (field_of value ''active_generation'') \<and>
        isNonEmptyString (field_of value ''active_session'')
      else
        isOneOf (field_of value ''control'') [''confirmed'', ''rejected'', ''missing_chunks''] \<and>
        isNonEmptyString (field_of value ''operation_id'') \<and> isNonEmptyString (field_of value ''message_id'') \<and>
        optionalString (field_of value ''reason'') \<and>
        (if \<not> field_is value ''control'' ''missing_chunks'' then field_of value ''missing_chunks'' = None
         else isMissingChunks (field_of value ''missing_chunks'')))"

fun isLinkMessage :: "sdk \<Rightarrow> json option \<Rightarrow> bool" where
  "isLinkMessage sdk (Some (JObject value)) =
     (if field_is value ''type'' ''state'' then isStatePublication sdk value
      else if field_is value ''type'' ''task_delivery'' then isTaskDelivery sdk value
      else if field_is value ''type'' ''task_report'' then isTaskReport sdk value
      else if field_is value ''type'' ''data_request'' then isDataRequest sdk value
      else if field_is value ''type'' ''data_response'' then isDataResponse sdk value
      else if field_is value ''type'' ''resource_operation'' then isResourceOperation sdk value
      else if field_is value ''type'' ''subscription'' then isSubscriptionOperation value
      else if field_is value ''type'' ''object_content'' then isObjectContent sdk value
      else if field_is value ''type'' ''control'' then isControlMessage value
      else False)"
| "isLinkMessage sdk _ = False"

text \<open>
  Wire text: \<open>text\<close> is \<^verbatim>\<open>JSON.stringify\<close> and \<^verbatim>\<open>TextEncoder\<close>, \<open>parse\<close> is \<^verbatim>\<open>decodeJSON\<close>, \<open>unwrap\<close> is
  \<^verbatim>\<open>decodeMessagePayload\<close> of \<^verbatim>\<open>message-codec.ts\<close>.
\<close>

definition serializeLinkMessage :: "sdk \<Rightarrow> (json \<Rightarrow> bytes) \<Rightarrow> json \<Rightarrow> bytes result" where
  "serializeLinkMessage sdk text message =
     (if \<not> isLinkMessage sdk (Some message) then Inl (TypeError ''Invalid Atlas Radio contract message'')
      else bind_result (sortJSON (JObject [(js_lit ''r'', JString RADIO_CONTRACT_REVISION), (js_lit ''message'', message)]))
        (\<lambda>sorted. Inr (text sorted)))"

definition deserializeLinkMessage ::
    "sdk \<Rightarrow> (bytes \<Rightarrow> json option) \<Rightarrow> (bytes \<Rightarrow> bytes result) \<Rightarrow> bytes \<Rightarrow> json result" where
  "deserializeLinkMessage sdk parse unwrap bytes =
     bind_result (unwrap bytes) (\<lambda>payload.
       case parse payload of
         Some (JObject value) \<Rightarrow>
           (case field_of value ''message'' of
              Some message \<Rightarrow>
                if field_of value ''r'' = Some (JString RADIO_CONTRACT_REVISION) \<and> isLinkMessage sdk (Some message)
                then Inr message
                else Inl (TypeError ''Invalid or incompatible Atlas Radio contract message'')
            | None \<Rightarrow> Inl (TypeError ''Invalid or incompatible Atlas Radio contract message''))
       | Some _ \<Rightarrow> Inl (TypeError ''Invalid or incompatible Atlas Radio contract message'')
       | None \<Rightarrow> Inl (PlainError ''SyntaxError''))"

subsection \<open>Priority, delivery and identity\<close>

datatype message_priority = Safety | Task | Request | LiveState | Resource | ObjectContent
datatype delivery_class = BestEffort | Confirmed

definition startsWith :: "json option \<Rightarrow> string \<Rightarrow> bool" where
  "startsWith v pre \<longleftrightarrow>
     (case v of Some (JString s) \<Rightarrow> take (length pre) s = js_lit pre | _ \<Rightarrow> False)"

definition nested :: "fields \<Rightarrow> string \<Rightarrow> string \<Rightarrow> json option" where
  "nested message outer inner =
     (case field_of message outer of Some (JObject value) \<Rightarrow> field_of value inner | _ \<Rightarrow> None)"

definition messagePriority :: "fields \<Rightarrow> message_priority" where
  "messagePriority message =
     (if field_is message ''type'' ''control'' then Safety
      else if field_is message ''type'' ''task_delivery'' then
        (if field_is message ''delivery'' ''cancellation'' then Safety else Task)
      else if field_is message ''type'' ''task_report'' then
        (if field_is message ''action'' ''cancel'' then Safety else Task)
      else if field_is message ''type'' ''data_request'' \<or> field_is message ''type'' ''data_response'' \<or>
        field_is message ''type'' ''subscription'' then Request
      else if field_is message ''type'' ''object_content'' then ObjectContent
      else if field_is message ''type'' ''resource_operation'' then
        (if field_is message ''operation'' ''task.cancel'' then Safety
         else if startsWith (field_of message ''operation'') ''task.'' then Task else Resource)
      else if field_of message ''deleted'' \<noteq> Some (JBool True) \<and> field_is message ''resource_type'' ''entity'' \<and>
        isOneOf (nested message ''resource'' ''entity_type'') [''asset'', ''track''] then LiveState
      else if field_is message ''resource_type'' ''task'' then Task else Resource)"

definition deliveryClass :: "fields \<Rightarrow> delivery_class" where
  "deliveryClass message =
     (if field_is message ''type'' ''subscription'' then
        (if field_is message ''action'' ''renew'' then BestEffort else Confirmed)
      else if field_is message ''type'' ''state'' \<or> field_is message ''type'' ''control'' then BestEffort
      else Confirmed)"

definition resourceID :: "fields \<Rightarrow> json option" where
  "resourceID message =
     (if field_of message ''deleted'' = Some (JBool True) then field_of message ''resource_id''
      else if field_is message ''resource_type'' ''entity'' then nested message ''resource'' ''entity_id''
      else if field_is message ''resource_type'' ''task'' then nested message ''resource'' ''task_id''
      else nested message ''resource'' ''object_id'')"

definition coalescingKey :: "fields \<Rightarrow> jstring option" where
  "coalescingKey message =
     (if \<not> field_is message ''type'' ''state'' then None
      else (case (field_of message ''resource_type'', resourceID message) of
          (Some (JString t), Some (JString i)) \<Rightarrow> Some (t @ js_lit '':'' @ i)
        | _ \<Rightarrow> None))"

section \<open>Properties\<close>

text \<open>The fields of two documents that are the same are the same.\<close>

lemma field_same:
  assumes "json_same (JObject m) (JObject n)" "wf_json (JObject m)" "wf_json (JObject n)"
  shows "rel_option json_same (field_of m k) (field_of n k)"
  unfolding field_of_def using json_same_objectD[OF assms(2,3,1)] .

lemma isOneOf_simps [simp]:
  "isOneOf v [] \<longleftrightarrow> False"
  "isOneOf v (s # ss) \<longleftrightarrow> v = Some (JString (js_lit s)) \<or> isOneOf v ss"
  by (auto simp: isOneOf_def)

lemma valid_state_type:
  assumes "isLinkMessage sdk (Some (JObject m))" "field_is m ''type'' ''state''"
  shows "isStatePublication sdk m"
    and "field_is m ''resource_type'' ''entity'' \<or> field_is m ''resource_type'' ''task'' \<or>
      field_is m ''resource_type'' ''object''"
proof -
  show st: "isStatePublication sdk m" using assms(1) by (simp add: assms(2))
  show "field_is m ''resource_type'' ''entity'' \<or> field_is m ''resource_type'' ''task'' \<or>
      field_is m ''resource_type'' ''object''"
  proof (rule ccontr)
    assume no: "\<not> (field_is m ''resource_type'' ''entity'' \<or> field_is m ''resource_type'' ''task'' \<or>
      field_is m ''resource_type'' ''object'')"
    from st show False
      unfolding isStatePublication_def using no by (simp only: de_Morgan_disj simp_thms if_False if_cancel)
  qed
qed

lemma colon_free: "58 \<notin> set (js_lit ''entity'')" "58 \<notin> set (js_lit ''task'')" "58 \<notin> set (js_lit ''object'')"
  by (simp_all add: js_lit_def)

lemma append_colon_unique:
  assumes "58 \<notin> set a" "58 \<notin> set b" "a @ js_lit '':'' @ x = b @ js_lit '':'' @ y"
  shows "a = b \<and> x = y"
  using assms
proof (induction a arbitrary: b)
  case Nil
  then show ?case by (cases b) (auto simp: js_lit_def)
next
  case (Cons c a)
  then show ?case by (cases b) (auto simp: js_lit_def)
qed

text \<open>The key under which queued best-effort publications replace each other identifies the
  resource: two valid state publications have the same coalescing key exactly when they publish the
  same resource type and resource id, also when an id contains a colon.\<close>

theorem coalescingKey_identity:
  assumes "isLinkMessage sdk (Some (JObject m))" "isLinkMessage sdk (Some (JObject n))"
    and "coalescingKey m = Some k"
  shows "coalescingKey n = Some k \<longleftrightarrow>
    field_is n ''type'' ''state'' \<and> field_of m ''resource_type'' = field_of n ''resource_type'' \<and>
    resourceID m = resourceID n"
proof -
  from assms(3) obtain t i where m: "field_is m ''type'' ''state''" "field_of m ''resource_type'' = Some (JString t)"
    "resourceID m = Some (JString i)" "k = t @ js_lit '':'' @ i"
    by (auto simp: coalescingKey_def split: if_splits option.splits json.splits)
  have t: "58 \<notin> set t"
    using valid_state_type(2)[OF assms(1) m(1)] m(2) colon_free by (auto simp: field_is_def)
  show ?thesis
  proof
    assume "coalescingKey n = Some k"
    then obtain u j where n: "field_is n ''type'' ''state''" "field_of n ''resource_type'' = Some (JString u)"
      "resourceID n = Some (JString j)" "k = u @ js_lit '':'' @ j"
      by (auto simp: coalescingKey_def split: if_splits option.splits json.splits)
    have "58 \<notin> set u"
      using valid_state_type(2)[OF assms(2) n(1)] n(2) colon_free by (auto simp: field_is_def)
    with t m(4) n(4) have "t = u \<and> i = j" by (intro append_colon_unique) simp_all
    with m n show "field_is n ''type'' ''state'' \<and> field_of m ''resource_type'' = field_of n ''resource_type'' \<and>
      resourceID m = resourceID n" by simp
  next
    assume "field_is n ''type'' ''state'' \<and> field_of m ''resource_type'' = field_of n ''resource_type'' \<and>
      resourceID m = resourceID n"
    with m show "coalescingKey n = Some k" by (simp add: coalescingKey_def)
  qed
qed

definition example_publication :: fields where
  "example_publication =
     [(js_lit ''type'', JString (js_lit ''state'')),
      (js_lit ''observation_time'', JString (js_lit ''2024-02-29T10:20:30Z'')),
      (js_lit ''path'', JString (js_lit ''field'')),
      (js_lit ''confirmation'', JString (js_lit ''not_required'')),
      (js_lit ''resource_type'', JString (js_lit ''entity'')),
      (js_lit ''resource'', JObject [(js_lit ''entity_id'', JString (js_lit ''a:1''))])]"

definition example_sdk :: sdk where
  "example_sdk = \<lparr>sdk_is = \<lambda>name v. v \<noteq> None, date_parse = \<lambda>s. Some 0, sha256_hex = \<lambda>bs. []\<rparr>"

lemma example_valid: "isLinkMessage example_sdk (Some (JObject example_publication))"
  by code_simp

theorem coalescingKey_identity_witness:
  "coalescingKey example_publication = Some (js_lit ''entity:a:1'') \<and>
   (coalescingKey example_publication = Some (js_lit ''entity:a:1'') \<longleftrightarrow>
     field_is example_publication ''type'' ''state'' \<and>
     field_of example_publication ''resource_type'' = field_of example_publication ''resource_type'' \<and>
     resourceID example_publication = resourceID example_publication)"
proof -
  have k: "coalescingKey example_publication = Some (js_lit ''entity:a:1'')" by code_simp
  from coalescingKey_identity[OF example_valid example_valid k] k show ?thesis by blast
qed

text \<open>A timestamp that the contract accepts is a date of the Gregorian calendar with a time of day:
  the month is 1 to 12, the day at most the length of that month (29 days in February only in leap
  years), the hour at most 23, minute and second at most 59.\<close>

theorem isRFC3339_calendar:
  assumes "isRFC3339 sdk (Some (JString s))"
  defines "y \<equiv> number_at s 0 4" and "mo \<equiv> number_at s 5 2" and "d \<equiv> number_at s 8 2"
  shows "mo \<in> {1..12} \<and> d \<in> {1..31} \<and> (mo \<in> {4, 6, 9, 11} \<longrightarrow> d \<le> 30) \<and>
    (mo = 2 \<longrightarrow> d \<le> 29 \<and> (d = 29 \<longrightarrow> 4 dvd y \<and> (100 dvd y \<longrightarrow> 400 dvd y))) \<and>
    number_at s 11 2 \<le> 23 \<and> number_at s 14 2 \<le> 59 \<and> number_at s 17 2 \<le> 59"
proof -
  from assms have m: "1 \<le> mo" "mo \<le> 12" and dd: "1 \<le> d" "d \<le> daysInMonth y mo"
    and t: "number_at s 11 2 \<le> 23" "number_at s 14 2 \<le> 59" "number_at s 17 2 \<le> 59"
    by (auto simp: Let_def split: option.splits)
  have "mo \<in> {1, 2, 3, 4, 5, 6, 7, 8, 9, 10, 11, 12}" unfolding insert_iff empty_iff using m by presburger
  then have "daysInMonth y mo \<le> 31 \<and> (mo \<in> {4, 6, 9, 11} \<longrightarrow> daysInMonth y mo = 30) \<and>
      (mo = 2 \<longrightarrow> daysInMonth y mo \<le> 29 \<and>
         (daysInMonth y mo = 29 \<longrightarrow> 4 dvd y \<and> (100 dvd y \<longrightarrow> 400 dvd y)))"
    by (auto simp: daysInMonth_def)
  with m dd t show ?thesis by auto
qed

theorem isRFC3339_calendar_witness:
  "isRFC3339 example_sdk (Some (JString (js_lit ''2024-02-29T10:20:30Z''))) \<and>
   number_at (js_lit ''2024-02-29T10:20:30Z'') 8 2 \<le> 29"
proof -
  have r: "isRFC3339 example_sdk (Some (JString (js_lit ''2024-02-29T10:20:30Z'')))" by code_simp
  moreover have "number_at (js_lit ''2024-02-29T10:20:30Z'') 5 2 = 2" by code_simp
  ultimately show ?thesis using isRFC3339_calendar[OF r] by auto
qed

text \<open>Which valid messages are sent with safety priority, and which without confirmation: exactly
  the controls and the three ways to cancel a task are safety traffic, and exactly state
  publications, controls and subscription renewals are best effort; a cancellation is always
  confirmed.\<close>

theorem message_classes:
  assumes "isLinkMessage sdk (Some (JObject m))"
  shows "(messagePriority m = Safety \<longleftrightarrow>
      field_is m ''type'' ''control'' \<or>
      field_is m ''type'' ''task_delivery'' \<and> field_is m ''delivery'' ''cancellation'' \<or>
      field_is m ''type'' ''task_report'' \<and> field_is m ''action'' ''cancel'' \<or>
      field_is m ''type'' ''resource_operation'' \<and> field_is m ''operation'' ''task.cancel'') \<and>
    (deliveryClass m = BestEffort \<longleftrightarrow>
      field_is m ''type'' ''state'' \<or> field_is m ''type'' ''control'' \<or>
      field_is m ''type'' ''subscription'' \<and> field_is m ''action'' ''renew'') \<and>
    (messagePriority m = Safety \<longrightarrow> field_is m ''type'' ''control'' \<or> deliveryClass m = Confirmed)"
proof -
  let ?types = "[''state'', ''task_delivery'', ''task_report'', ''data_request'', ''data_response'',
    ''resource_operation'', ''subscription'', ''object_content'', ''control'']"
  have "\<exists>t \<in> set ?types. field_is m ''type'' t"
  proof (rule ccontr)
    assume "\<not> ?thesis"
    then have "\<not> isLinkMessage sdk (Some (JObject m))"
      by (simp only: isLinkMessage.simps list.set ball_simps bex_simps insert_iff simp_thms if_False de_Morgan_disj)
    with assms show False by blast
  qed
  then obtain t where t: "field_of m ''type'' = Some (JString (js_lit t))" "t \<in> set ?types"
    by (auto simp only: field_is_def)
  then have is_type: "field_is m ''type'' s \<longleftrightarrow> s = t" for s by (auto simp: field_is_def)
  show ?thesis using t(2) unfolding messagePriority_def deliveryClass_def is_type list.set insert_iff
    by (elim disjE) simp_all
qed

theorem message_classes_witness:
  "deliveryClass example_publication = BestEffort \<and> messagePriority example_publication \<noteq> Safety"
  using message_classes[OF example_valid] by code_simp

lemma sortJSON_envelope:
  assumes "sortJSON m = Inr m"
  shows "sortJSON (JObject [(js_lit ''r'', JString r), (js_lit ''message'', m)]) =
    Inr (JObject [(js_lit ''message'', m), (js_lit ''r'', JString r)])"
proof -
  have "sort_key fst [(js_lit ''r'', JString r), (js_lit ''message'', m)] =
      [(js_lit ''message'', m), (js_lit ''r'', JString r)]"
    by (simp add: js_lit_def)
  then show ?thesis using assms by simp
qed


definition canonical_publication :: json where
  "canonical_publication = (case sortJSON (JObject example_publication) of Inr v \<Rightarrow> v | Inl _ \<Rightarrow> JNull)"


end
