(* ===== verification/State_Delta.thy ===== *)
theory State_Delta
  imports Json_Patch Contract Binary_IO
begin

text \<open>
  The state-delta codec of \<^verbatim>\<open>packages/meshtastic-link/src/state-delta.ts\<close>: a sender that publishes a
  resource again within the baseline interval may send the difference to the last full publication it
  committed; a receiver keeps the last two full publications of each scope and rebuilds the new one.
  Both caches are bounded. A scope key is the JSON text of six values; the model uses the tuple.
  Times are whole milliseconds, \<open>None\<close> for a time that is not finite.
\<close>

section \<open>Definitions\<close>

text \<open>What the codec calls: the contract's parameters, \<^verbatim>\<open>JSON.stringify\<close> and \<^verbatim>\<open>JSON.parse\<close>.\<close>

record delta_env =
  env_sdk :: sdk
  env_stringify :: "json \<Rightarrow> jstring"
  env_text :: "json \<Rightarrow> bytes"
  env_parse :: "bytes \<Rightarrow> json option"
  env_unwrap :: "bytes \<Rightarrow> bytes result"

definition STATE_DELTA_MARKER :: byte where "STATE_DELTA_MARKER = 0xb1"
definition STATE_DELTA_BASELINE_INTERVAL_MS :: int where "STATE_DELTA_BASELINE_INTERVAL_MS = 15000"
definition DELTA_VERSION :: byte where "DELTA_VERSION = 1"
definition DELTA_KIND :: byte where "DELTA_KIND = 1"
definition DEFAULT_MAX_BASELINES :: int where "DEFAULT_MAX_BASELINES = 64"

record delta_identity =
  source_role :: jstring
  source_id :: jstring
  source_generation :: int
  service_session :: jstring
  source_sequence :: int

datatype resource_type = EntityType | TaskType | ObjectType

type_synonym scope_key = "jstring \<times> jstring \<times> int \<times> jstring \<times> resource_type \<times> json option"

record sender_baseline =
  sb_publication :: json
  sb_sequence :: int
  sb_sentAt :: int

record receiver_baseline =
  rb_publication :: json
  rb_sequence :: int

record receiver_scope =
  latest :: "receiver_baseline option"
  previous :: "receiver_baseline option"

record delta_encoder =
  enc_baselines :: "(scope_key, sender_baseline) js_map"
  baselineIntervalMs :: int
  enc_maxResources :: nat

record delta_decoder =
  dec_baselines :: "(scope_key, receiver_scope) js_map"
  dec_maxResources :: nat

text \<open>\<^verbatim>\<open>PreparedStateDelta\<close>; the last four fields are what the closure \<^verbatim>\<open>commitFull\<close> captures.\<close>

record prepared =
  fullPayload :: bytes
  deltaPayload :: "bytes option"
  baselineSourceSequence :: "int option"
  prep_committed :: bool
  prep_scope :: scope_key
  prep_snapshot :: json
  prep_sequence :: int

definition positiveInteger :: "int \<Rightarrow> int result" where
  "positiveInteger value =
     (if \<not> is_safe_integer value \<or> value < 1 then Inl (RangeError ''must be a positive integer'') else Inr value)"

definition new_encoder :: "int option \<Rightarrow> int option \<Rightarrow> delta_encoder result" where
  "new_encoder interval limit =
     bind_result (positiveInteger (case interval of None \<Rightarrow> STATE_DELTA_BASELINE_INTERVAL_MS | Some i \<Rightarrow> i)) (\<lambda>i.
       bind_result (positiveInteger (case limit of None \<Rightarrow> DEFAULT_MAX_BASELINES | Some n \<Rightarrow> n)) (\<lambda>n.
         Inr \<lparr>enc_baselines = [], baselineIntervalMs = i, enc_maxResources = nat n\<rparr>))"

definition new_decoder :: "int option \<Rightarrow> delta_decoder result" where
  "new_decoder limit =
     bind_result (positiveInteger (case limit of None \<Rightarrow> DEFAULT_MAX_BASELINES | Some n \<Rightarrow> n)) (\<lambda>n.
       Inr \<lparr>dec_baselines = [], dec_maxResources = nat n\<rparr>)"

definition validateIdentity :: "delta_identity \<Rightarrow> bool" where
  "validateIdentity identity \<longleftrightarrow>
     (source_role identity = js_lit ''asset'' \<or> source_role identity = js_lit ''gateway'') \<and>
     non_blank (source_id identity) \<and>
     is_safe_integer (source_generation identity) \<and> source_generation identity \<ge> 0 \<and>
     non_blank (service_session identity) \<and>
     is_safe_integer (source_sequence identity) \<and> source_sequence identity \<ge> 0"

fun isStateMessage :: "sdk \<Rightarrow> json \<Rightarrow> bool" where
  "isStateMessage sdk (JObject m) =
     (isLinkMessage sdk (Some (JObject m)) \<and> field_is m ''type'' ''state'')"
| "isStateMessage sdk _ = False"

fun publication_fields :: "json \<Rightarrow> fields" where
  "publication_fields (JObject m) = m"
| "publication_fields _ = []"

text \<open>\<^verbatim>\<open>publication.resource_type\<close> as the type's literal (a valid publication has one of the three).\<close>

definition publication_type :: "json \<Rightarrow> resource_type" where
  "publication_type p =
     (if field_is (publication_fields p) ''resource_type'' ''entity'' then EntityType
      else if field_is (publication_fields p) ''resource_type'' ''task'' then TaskType else ObjectType)"

definition publication_id :: "json \<Rightarrow> json option" where
  "publication_id p = resourceID (publication_fields p)"

fun resourceCode :: "resource_type \<Rightarrow> byte" where
  "resourceCode EntityType = 1"
| "resourceCode TaskType = 2"
| "resourceCode ObjectType = 3"

definition decodeResourceType :: "byte option \<Rightarrow> resource_type option" where
  "decodeResourceType v =
     (if v = Some 1 then Some EntityType else if v = Some 2 then Some TaskType
      else if v = Some 3 then Some ObjectType else None)"

definition scopeKey :: "delta_identity \<Rightarrow> resource_type \<Rightarrow> json option \<Rightarrow> scope_key" where
  "scopeKey identity t i =
     (source_role identity, source_id identity, source_generation identity, service_session identity, t, i)"

definition isStatePublicationForIdentity :: "sdk \<Rightarrow> json \<Rightarrow> resource_type \<Rightarrow> jstring \<Rightarrow> bool" where
  "isStatePublicationForIdentity sdk p t i \<longleftrightarrow>
     isStateMessage sdk p \<and> publication_type p = t \<and> publication_id p = Some (JString i)"

definition isStateDeltaPayload :: "bytes \<Rightarrow> bool" where
  "isStateDeltaPayload payload \<longleftrightarrow> payload \<noteq> [] \<and> hd payload = STATE_DELTA_MARKER"

definition lengthPrefixedUTF8 :: "json option \<Rightarrow> bytes result" where
  "lengthPrefixedUTF8 value =
     (case value of
        Some (JString s) \<Rightarrow>
          (let bytes = textEncode s in
           if textDecode bytes \<noteq> Some s then Inl (TypeError ''invalid UTF-8 string'')
           else bind_result (encodeUnsignedVarint (int (length bytes)) ''state delta integer is invalid'')
             (\<lambda>len. Inr (concatBytes [len, bytes])))
      | _ \<Rightarrow> Inl (TypeError ''invalid UTF-8 string''))"

definition encodeDelta ::
    "delta_env \<Rightarrow> resource_type \<Rightarrow> json option \<Rightarrow> int \<Rightarrow> patch_operation list \<Rightarrow> bytes result" where
  "encodeDelta env t i base patch =
     bind_result (lengthPrefixedUTF8 i) (\<lambda>rid.
       bind_result (encodeUnsignedVarint base ''state delta integer is invalid'') (\<lambda>seq.
         bind_result (sortJSON (patch_json patch)) (\<lambda>sorted.
           Inr (concatBytes
             [[STATE_DELTA_MARKER, DELTA_VERSION, DELTA_KIND, resourceCode t], rid, seq, env_text env sorted]))))"

definition boundedDelta :: "bytes \<Rightarrow> bytes option" where
  "boundedDelta payload = (if length payload \<le> MAX_LINK_MESSAGE_BYTES then Some payload else None)"

definition asJSONData :: "json \<Rightarrow> json result" where
  "asJSONData v = (if all_finite v then Inr v else Inl (TypeError ''state delta value must be JSON data''))"

definition fullPreparation :: "delta_identity \<Rightarrow> json \<Rightarrow> bytes \<Rightarrow> scope_key \<Rightarrow> prepared" where
  "fullPreparation identity publication payload scope =
     \<lparr>fullPayload = payload, deltaPayload = None, baselineSourceSequence = None, prep_committed = False,
      prep_scope = scope, prep_snapshot = publication, prep_sequence = source_sequence identity\<rparr>"

text \<open>The second half of \<^verbatim>\<open>prepare\<close>: the optional delta against a committed baseline.\<close>

definition prepareDelta ::
    "delta_env \<Rightarrow> sender_baseline \<Rightarrow> json \<Rightarrow> prepared \<Rightarrow> prepared result" where
  "prepareDelta env baseline normalized full =
     bind_result (asJSONData (sb_publication baseline)) (\<lambda>left.
       bind_result (asJSONData normalized) (\<lambda>right.
         let patch = diffJSON (env_stringify env) left right []
         in case encodeDelta env (publication_type normalized) (publication_id normalized)
                (sb_sequence baseline) patch of
              Inl _ \<Rightarrow> Inr full
            | Inr bytes \<Rightarrow>
                (case boundedDelta bytes of
                   None \<Rightarrow> Inr full
                 | Some delta \<Rightarrow>
                     Inr (full\<lparr>deltaPayload := Some delta, baselineSourceSequence := Some (sb_sequence baseline)\<rparr>))))"

definition prepare ::
    "delta_env \<Rightarrow> delta_encoder \<Rightarrow> json \<Rightarrow> delta_identity \<Rightarrow> int option \<Rightarrow> prepared result" where
  "prepare env enc publication identity at =
     (if \<not> validateIdentity identity then Inl (TypeError ''state delta identity is invalid'')
      else case at of
        None \<Rightarrow> Inl (RangeError ''state delta time must be finite'')
      | Some now \<Rightarrow>
          bind_result (serializeLinkMessage (env_sdk env) (env_text env) publication) (\<lambda>payload.
            if length payload > MAX_LINK_MESSAGE_BYTES then Inl (RangeError ''state publication exceeds 128 KiB'')
            else bind_result (deserializeLinkMessage (env_sdk env) (env_parse env) (env_unwrap env) payload)
              (\<lambda>normalized.
                if \<not> isStateMessage (env_sdk env) normalized then Inl (TypeError ''state publication is invalid'')
                else
                  let scope = scopeKey identity (publication_type normalized) (publication_id normalized);
                      full = fullPreparation identity normalized payload scope
                  in case js_get (enc_baselines enc) scope of
                       None \<Rightarrow> Inr full
                     | Some baseline \<Rightarrow>
                         if now - sb_sentAt baseline \<ge> baselineIntervalMs enc \<or>
                            sb_sequence baseline \<ge> source_sequence identity
                         then Inr full
                         else prepareDelta env baseline normalized full)))"

definition commitFull ::
    "delta_encoder \<Rightarrow> prepared \<Rightarrow> int option \<Rightarrow> (delta_encoder \<times> prepared) result" where
  "commitFull enc prep committedAt =
     (case committedAt of
        None \<Rightarrow> Inl (RangeError ''state delta time must be finite'')
      | Some t \<Rightarrow>
          if prep_committed prep then Inr (enc, prep)
          else
            let prep' = prep\<lparr>prep_committed := True\<rparr>;
                stored = enc\<lparr>enc_baselines := evict_oldest (enc_maxResources enc)
                  (js_set (prep_scope prep)
                    \<lparr>sb_publication = prep_snapshot prep, sb_sequence = prep_sequence prep, sb_sentAt = t\<rparr>
                    (js_delete (prep_scope prep) (enc_baselines enc)))\<rparr>
            in case js_get (enc_baselines enc) (prep_scope prep) of
                 Some prev \<Rightarrow> if sb_sequence prev \<ge> prep_sequence prep then Inr (enc, prep') else Inr (stored, prep')
               | None \<Rightarrow> Inr (stored, prep'))"

text \<open>The decoder. A caught error is a result of \<open>None\<close>; a failed delta leaves the cache alone.\<close>

definition findBaseline :: "receiver_scope option \<Rightarrow> int \<Rightarrow> receiver_baseline option" where
  "findBaseline scope seq =
     (case scope of
        None \<Rightarrow> None
      | Some s \<Rightarrow>
          (case latest s of
             Some b \<Rightarrow> if rb_sequence b = seq then Some b
                       else (case previous s of Some c \<Rightarrow> if rb_sequence c = seq then Some c else None | None \<Rightarrow> None)
           | None \<Rightarrow> (case previous s of Some c \<Rightarrow> if rb_sequence c = seq then Some c else None | None \<Rightarrow> None)))"

definition readUTF8 :: "bytes \<Rightarrow> jstring option \<times> bytes" where
  "readUTF8 bs =
     (case readLengthPrefixedBytes bs of
        (None, bs') \<Rightarrow> (None, bs')
      | (Some text, bs') \<Rightarrow> (textDecode text, bs'))"

definition rebuild :: "delta_env \<Rightarrow> receiver_baseline \<Rightarrow> bytes \<Rightarrow> resource_type \<Rightarrow> jstring \<Rightarrow> json option" where
  "rebuild env baseline patchBytes t i =
     (case env_parse env patchBytes of
        None \<Rightarrow> None
      | Some v \<Rightarrow>
          (case isPatch v of
             None \<Rightarrow> None
           | Some patch \<Rightarrow>
               (case asJSONData (rb_publication baseline) of
                  Inl _ \<Rightarrow> None
                | Inr left \<Rightarrow>
                    (case applyPatch left patch of
                       None \<Rightarrow> None
                     | Some result \<Rightarrow>
                         if \<not> isStatePublicationForIdentity (env_sdk env) result t i then None
                         else (case serializeLinkMessage (env_sdk env) (env_text env) result of
                                 Inl _ \<Rightarrow> None
                               | Inr bytes \<Rightarrow> if length bytes \<le> MAX_LINK_MESSAGE_BYTES then Some result else None)))))"

definition decodeDelta :: "delta_env \<Rightarrow> delta_decoder \<Rightarrow> bytes \<Rightarrow> delta_identity \<Rightarrow> json option" where
  "decodeDelta env dec payload identity =
     (let (marker, r1) = readByte payload; (version, r2) = readByte r1
      in if marker \<noteq> Some STATE_DELTA_MARKER \<or> version \<noteq> Some DELTA_VERSION then None
         else
           let (kind, r3) = readByte r2; (code, r4) = readByte r3;
               (rid, r5) = readUTF8 r4; (base, r6) = readUnsignedVarint r5;
               patchBytes = readRemaining r6
           in case (decodeResourceType code, rid, base) of
                (Some t, Some i, Some n) \<Rightarrow>
                  if kind \<noteq> Some DELTA_KIND \<or> int n \<ge> source_sequence identity then None
                  else (case findBaseline (js_get (dec_baselines dec) (scopeKey identity t (Some (JString i)))) (int n) of
                          None \<Rightarrow> None
                        | Some baseline \<Rightarrow> rebuild env baseline patchBytes t i)
              | _ \<Rightarrow> None)"

definition rememberFull :: "delta_decoder \<Rightarrow> json \<Rightarrow> delta_identity \<Rightarrow> delta_decoder" where
  "rememberFull dec publication identity =
     (let key = scopeKey identity (publication_type publication) (publication_id publication);
          incoming = \<lparr>rb_publication = publication, rb_sequence = source_sequence identity\<rparr>;
          scope = js_get (dec_baselines dec) key;
          old = (case scope of None \<Rightarrow> None | Some s \<Rightarrow> latest s);
          fresh = dec\<lparr>dec_baselines := evict_oldest (dec_maxResources dec)
            (js_set key \<lparr>latest = Some incoming, previous = old\<rparr> (js_delete key (dec_baselines dec)))\<rparr>
      in case (scope, old) of
           (Some s, Some l) \<Rightarrow>
             if source_sequence identity = rb_sequence l then dec
             else if source_sequence identity < rb_sequence l then
               (if (case previous s of None \<Rightarrow> True | Some p \<Rightarrow> source_sequence identity > rb_sequence p)
                then dec\<lparr>dec_baselines := js_set key (s\<lparr>previous := Some incoming\<rparr>) (dec_baselines dec)\<rparr>
                else dec)
             else fresh
         | _ \<Rightarrow> fresh)"

definition decode :: "delta_env \<Rightarrow> delta_decoder \<Rightarrow> bytes \<Rightarrow> delta_identity \<Rightarrow> json option \<times> delta_decoder" where
  "decode env dec payload identity =
     (if payload = [] \<or> length payload > MAX_LINK_MESSAGE_BYTES then (None, dec)
      else if \<not> validateIdentity identity then (None, dec)
      else if isStateDeltaPayload payload then (decodeDelta env dec payload identity, dec)
      else (case deserializeLinkMessage (env_sdk env) (env_parse env) (env_unwrap env) payload of
              Inl _ \<Rightarrow> (None, dec)
            | Inr message \<Rightarrow>
                if \<not> isStateMessage (env_sdk env) message then (None, dec)
                else (Some message, rememberFull dec message identity)))"

section \<open>Publications that are the same\<close>

lemma same_checks:
  assumes "rel_option json_same a b"
  shows "isNonEmptyString a = isNonEmptyString b" "isOneOf a l = isOneOf b l" "isRFC3339 sdk a = isRFC3339 sdk b"
    "optionalString a = optionalString b" "optionalBoolean a = optionalBoolean b"
    "isNonNegativeInteger a = isNonNegativeInteger b"
    "optionalNonNegativeInteger a = optionalNonNegativeInteger b"
    "(a = None) = (b = None)" "(a = Some (JBool c)) = (b = Some (JBool c))"
    "(a = Some (JString s)) = (b = Some (JString s))"
proof -
  have b: "b = a \<or> (\<exists>x y. a = Some (JNumber x) \<and> b = Some (JNumber y) \<and> is_zero x \<and> is_zero y)
    \<or> (\<exists>x y. a = Some (JArray x) \<and> b = Some (JArray y)) \<or> (\<exists>x y. a = Some (JObject x) \<and> b = Some (JObject y))"
    using assms by (cases a; cases b; (cases "the a"; cases "the b")?) auto
  then show "isNonEmptyString a = isNonEmptyString b" "isOneOf a l = isOneOf b l" "isRFC3339 sdk a = isRFC3339 sdk b"
    "optionalString a = optionalString b" "optionalBoolean a = optionalBoolean b"
    "isNonNegativeInteger a = isNonNegativeInteger b"
    "optionalNonNegativeInteger a = optionalNonNegativeInteger b"
    "(a = None) = (b = None)" "(a = Some (JBool c)) = (b = Some (JBool c))"
    "(a = Some (JString s)) = (b = Some (JString s))"
    by (elim disjE; auto simp: isOneOf_def optionalString_def optionalBoolean_def isNonNegativeInteger_def
        optionalNonNegativeInteger_def is_zero_int)+
qed

definition order_blind :: "sdk \<Rightarrow> bool" where
  "order_blind sdk \<longleftrightarrow> (\<forall>name v w. wf_json v \<longrightarrow> wf_json w \<longrightarrow> json_same v w \<longrightarrow>
     sdk_is sdk name (Some v) = sdk_is sdk name (Some w))"

lemma state_publication_same:
  assumes s: "json_same (JObject m) (JObject n)" "wf_json (JObject m)" "wf_json (JObject n)" "order_blind sdk"
  shows "isStatePublication sdk m = isStatePublication sdk n" "field_is m k l = field_is n k l"
    "resourceID n = Some (JString i) \<Longrightarrow> resourceID m = Some (JString i)"
proof -
  note F = field_same[OF s(1-3)]
  note C = same_checks[OF F]
  show fi: "field_is m k l = field_is n k l" for k l unfolding field_is_def by (rule C(10))
  have sdk: "sdk_is sdk name (field_of m k) = sdk_is sdk name (field_of n k)" for name k
  proof (cases "field_of m k")
    case (Some x)
    then obtain y where y: "field_of n k = Some y" "json_same x y" using F[of k] by (cases "field_of n k") auto
    have "wf_json x" "wf_json y"
      using Some y wf_map_of[OF s(2)] wf_map_of[OF s(3)] by (auto simp: field_of_def)
    with s(4) Some y show ?thesis by (simp add: order_blind_def)
  qed (use C(8)[of k] in simp)
  show "isStatePublication sdk m = isStatePublication sdk n"
    unfolding isStatePublication_def fi sdk C(1,2,3,4,5,6,7) C(8) C(9) by (rule refl)
  have nested: "rel_option json_same (nested m outer inner) (nested n outer inner)" for outer inner
  proof (cases "field_of m outer")
    case None
    then show ?thesis using C(8)[of outer] by (simp add: nested_def)
  next
    case (Some x)
    then obtain y where y: "field_of n outer = Some y" "json_same x y" using F[of outer] by (cases "field_of n outer") auto
    have wf: "wf_json x" "wf_json y"
      using Some y wf_map_of[OF s(2)] wf_map_of[OF s(3)] by (auto simp: field_of_def)
    show ?thesis
    proof (cases x)
      case (JObject a)
      then obtain b where "y = JObject b" using y(2) by (cases y) auto
      with JObject y wf Some show ?thesis using field_same[of a b inner] by (simp add: nested_def del: json_same.simps wf_json.simps)
    next
      case (JArray a)
      then show ?thesis using y Some by (cases y) (simp_all add: nested_def)
    qed (use y Some in \<open>cases y; simp add: nested_def\<close>)+
  qed
  have "(resourceID m = Some (JString i)) = (resourceID n = Some (JString i))"
    unfolding resourceID_def fi C(9) using same_checks(10)[OF nested] C(10) by simp
  then show "resourceID n = Some (JString i) \<Longrightarrow> resourceID m = Some (JString i)" by simp
qed
section \<open>The delta envelope\<close>

lemma readUTF8_lengthPrefixed:
  assumes "lengthPrefixedUTF8 v = Inr bs"
  obtains s where "v = Some (JString s)" "\<And>rest. readUTF8 (bs @ rest) = (Some s, rest)"
proof -
  from assms obtain s where v: "v = Some (JString s)"
    by (auto simp: lengthPrefixedUTF8_def split: option.splits json.splits)
  let ?b = "textEncode s"
  from assms have d: "textDecode ?b = Some s" and le: "length ?b \<le> max_safe_integer"
    and bs: "bs = varint_loop (length ?b) @ ?b"
    by (auto simp: v lengthPrefixedUTF8_def Let_def bind_result_eq_Inr encodeUnsignedVarint_def concatBytes_concat
        is_safe_integer_def split: if_splits)
  have "readUTF8 (bs @ rest) = (Some s, rest)" for rest
    using d le
    by (simp add: bs readUTF8_def readLengthPrefixedBytes_def readUnsignedVarint_loop readBytes_def is_safe_integer_def)
  with v that show ?thesis by blast
qed

lemma decodeResourceType_code [simp]: "decodeResourceType (Some (resourceCode t)) = Some t"
  by (cases t) (simp_all add: decodeResourceType_def)

lemma decodeDelta_encodeDelta:
  assumes "encodeDelta env t i base patch = Inr bs"
  obtains s st where "i = Some (JString s)" "sortJSON (patch_json patch) = Inr st" "0 \<le> base"
    "isStateDeltaPayload bs"
    "decodeDelta env dec bs identity =
       (if base \<ge> source_sequence identity then None
        else case findBaseline (js_get (dec_baselines dec) (scopeKey identity t i)) base of
               None \<Rightarrow> None
             | Some b \<Rightarrow> rebuild env b (env_text env st) t s)"
proof -
  from assms obtain rid seq st where e: "lengthPrefixedUTF8 i = Inr rid"
    "encodeUnsignedVarint base ''state delta integer is invalid'' = Inr seq"
    "sortJSON (patch_json patch) = Inr st"
    "bs = [STATE_DELTA_MARKER, DELTA_VERSION, DELTA_KIND, resourceCode t] @ rid @ seq @ env_text env st"
    by (auto simp: encodeDelta_def bind_result_eq_Inr concatBytes_concat)
  obtain s where s: "i = Some (JString s)" "\<And>rest. readUTF8 (rid @ rest) = (Some s, rest)"
    using readUTF8_lengthPrefixed[OF e(1)] by metis
  have b: "0 \<le> base" "nat base \<le> max_safe_integer" "seq = varint_loop (nat base)"
    using e(2) by (auto simp: encodeUnsignedVarint_def is_safe_integer_def split: if_splits)
  have "decodeDelta env dec bs identity =
       (if base \<ge> source_sequence identity then None
        else case findBaseline (js_get (dec_baselines dec) (scopeKey identity t i)) base of
               None \<Rightarrow> None
             | Some b \<Rightarrow> rebuild env b (env_text env st) t s)"
    using b by (simp add: decodeDelta_def e(4) s readUnsignedVarint_loop readRemaining_def)
  moreover have "isStateDeltaPayload bs" by (simp add: isStateDeltaPayload_def e(4))
  ultimately show ?thesis using that s(1) e(3) b(1) by blast
qed

text \<open>The canonical text of a document parses back to the same document.\<close>

definition text_parses :: "delta_env \<Rightarrow> json \<Rightarrow> bool" where
  "text_parses env v \<longleftrightarrow>
     (\<forall>s. sortJSON v = Inr s \<longrightarrow>
        (\<exists>w. env_parse env (env_text env s) = Some w \<and> wf_json w \<and> json_same w v))"

lemma serialize_succeeds:
  assumes "isLinkMessage sdk (Some p)" "wf_json p" "all_finite p"
  shows "\<exists>bs. serializeLinkMessage sdk text p = Inr bs"
proof -
  have "all_finite (JObject [(js_lit ''r'', JString RADIO_CONTRACT_REVISION), (js_lit ''message'', p)])"
    "wf_json (JObject [(js_lit ''r'', JString RADIO_CONTRACT_REVISION), (js_lit ''message'', p)])"
    using assms(2,3) by simp_all
  then show ?thesis
    using sortJSON_same assms(1) by (fastforce simp: serializeLinkMessage_def simp del: sortJSON.simps)
qed

lemma rebuild_same:
  assumes env: "array_text_ok (env_stringify env)" "order_blind (env_sdk env)"
    and docs: "wf_json (rb_publication b)" "all_finite (rb_publication b)" "wf_json right" "all_finite right"
    and right: "isStateMessage (env_sdk env) right" "publication_id right = Some (JString s)"
    and parses: "text_parses env (patch_json (diffJSON (env_stringify env) (rb_publication b) right []))"
    and patch: "sortJSON (patch_json (diffJSON (env_stringify env) (rb_publication b) right [])) = Inr st"
    and fits: "\<And>w bs. json_same w right \<Longrightarrow> serializeLinkMessage (env_sdk env) (env_text env) w = Inr bs \<Longrightarrow>
        length bs \<le> MAX_LINK_MESSAGE_BYTES"
  shows "\<exists>p. rebuild env b (env_text env st) (publication_type right) s = Some p \<and> json_same p right"
proof -
  obtain w where w: "env_parse env (env_text env st) = Some w" "wf_json w"
    "json_same w (patch_json (diffJSON (env_stringify env) (rb_publication b) right []))"
    using parses patch by (auto simp: text_parses_def)
  obtain ops p where p: "isPatch w = Some ops" "applyPatch (rb_publication b) ops = Some p" "wf_json p" "json_same p right"
    using patch_transfer[OF env(1) docs(1,3,4) w(2,3)] by blast
  obtain n where n: "right = JObject n" using right(1) by (cases right) auto
  obtain m where m: "p = JObject m" using p(4) n by (cases p) auto
  note S = state_publication_same[OF p(4)[unfolded m n] p(3)[unfolded m] docs(3)[unfolded n] env(2)]
  have valid: "isLinkMessage (env_sdk env) (Some p)" "isStateMessage (env_sdk env) p"
    using right(1) valid_state_type(1)[of "env_sdk env" n] S(1,2) by (auto simp: m n)
  have "isStatePublicationForIdentity (env_sdk env) p (publication_type right) s"
    using valid(2) S(2,3) right(2)
    by (simp add: isStatePublicationForIdentity_def publication_type_def publication_id_def m n)
  moreover have "all_finite p" using json_same_finite[OF p(4) docs(4)] .
  then obtain sp where "serializeLinkMessage (env_sdk env) (env_text env) p = Inr sp"
    using serialize_succeeds[OF valid(1) p(3)] by blast
  ultimately show ?thesis
    using w(1) p docs(2) fits[OF p(4)] by (auto simp: rebuild_def asJSONData_def)
qed

text \<open>When \<^verbatim>\<open>prepare\<close> offers a delta, and what it is.\<close>

lemma prepare_deltaD:
  assumes "prepare env enc pub identity at = Inr prep" "deltaPayload prep = Some delta"
  obtains base where "js_get (enc_baselines enc) (prep_scope prep) = Some base"
    "isStateMessage (env_sdk env) (prep_snapshot prep)" "validateIdentity identity"
    "prep_scope prep = scopeKey identity (publication_type (prep_snapshot prep)) (publication_id (prep_snapshot prep))"
    "sb_sequence base < source_sequence identity"
    "all_finite (sb_publication base)" "all_finite (prep_snapshot prep)"
    "length delta \<le> MAX_LINK_MESSAGE_BYTES" "delta \<noteq> []"
    "encodeDelta env (publication_type (prep_snapshot prep)) (publication_id (prep_snapshot prep)) (sb_sequence base)
       (diffJSON (env_stringify env) (sb_publication base) (prep_snapshot prep) []) = Inr delta"
    "\<exists>payload. deserializeLinkMessage (env_sdk env) (env_parse env) (env_unwrap env) payload = Inr (prep_snapshot prep)"
proof -
  obtain now where at: "at = Some now"
    using assms(1) by (cases at) (auto simp: prepare_def split: if_splits)
  from assms(1) obtain payload nrm where p:
    "validateIdentity identity"
    "deserializeLinkMessage (env_sdk env) (env_parse env) (env_unwrap env) payload = Inr nrm"
    "isStateMessage (env_sdk env) nrm"
    and c: "(case js_get (enc_baselines enc) (scopeKey identity (publication_type nrm) (publication_id nrm)) of
        None \<Rightarrow> Inr (fullPreparation identity nrm payload (scopeKey identity (publication_type nrm) (publication_id nrm)))
      | Some baseline \<Rightarrow>
          if now - sb_sentAt baseline \<ge> baselineIntervalMs enc \<or> sb_sequence baseline \<ge> source_sequence identity
          then Inr (fullPreparation identity nrm payload (scopeKey identity (publication_type nrm) (publication_id nrm)))
          else prepareDelta env baseline nrm
            (fullPreparation identity nrm payload (scopeKey identity (publication_type nrm) (publication_id nrm)))) = Inr prep"
    by (auto simp: prepare_def at bind_result_eq_Inr Let_def split: if_splits)
  let ?scope = "scopeKey identity (publication_type nrm) (publication_id nrm)"
  from c assms(2) obtain base where b: "js_get (enc_baselines enc) ?scope = Some base"
    "sb_sequence base < source_sequence identity"
    "prepareDelta env base nrm (fullPreparation identity nrm payload ?scope) = Inr prep"
    by (auto simp: fullPreparation_def split: option.splits if_splits)
  let ?enc = "encodeDelta env (publication_type nrm) (publication_id nrm) (sb_sequence base)
    (diffJSON (env_stringify env) (sb_publication base) nrm [])"
  have f: "all_finite (sb_publication base)" "all_finite nrm"
    using b(3) by (cases "all_finite (sb_publication base)"; cases "all_finite nrm";
      simp add: prepareDelta_def asJSONData_def)+
  obtain bytes where e: "?enc = Inr bytes"
    using b(3) assms(2) f by (cases ?enc) (auto simp: prepareDelta_def asJSONData_def fullPreparation_def Let_def)
  have d: "prep_scope prep = ?scope" "prep_snapshot prep = nrm" "delta = bytes"
    "length delta \<le> MAX_LINK_MESSAGE_BYTES"
    using b(3) assms(2) f e
    by (auto simp: prepareDelta_def asJSONData_def fullPreparation_def boundedDelta_def Let_def split: if_splits)
  note d = d(1,2) f d(4) e[folded d(3)]
  have "delta \<noteq> []" using d(6) by (auto simp: encodeDelta_def bind_result_eq_Inr concatBytes_concat)
  with p b d show ?thesis by (intro that[of base]) auto
qed

lemma delta_decodes:
  assumes prep: "prepare env enc pub identity at = Inr prep" "deltaPayload prep = Some delta"
    and base: "js_get (enc_baselines enc) (prep_scope prep) = Some base" "wf_json (sb_publication base)"
    and recv: "findBaseline (js_get (dec_baselines dec) (prep_scope prep)) (sb_sequence base) = Some rb"
      "rb_publication rb = sb_publication base"
    and env: "array_text_ok (env_stringify env)" "order_blind (env_sdk env)" "wf_json (prep_snapshot prep)"
    and parses: "text_parses env
      (patch_json (diffJSON (env_stringify env) (sb_publication base) (prep_snapshot prep) []))"
    and fits: "\<And>w bs. json_same w (prep_snapshot prep) \<Longrightarrow>
        serializeLinkMessage (env_sdk env) (env_text env) w = Inr bs \<Longrightarrow> length bs \<le> MAX_LINK_MESSAGE_BYTES"
  shows "\<exists>p. decode env dec delta identity = (Some p, dec) \<and> json_same p (prep_snapshot prep)"
proof -
  let ?right = "prep_snapshot prep"
  obtain base' where b: "js_get (enc_baselines enc) (prep_scope prep) = Some base'"
    "isStateMessage (env_sdk env) ?right" "validateIdentity identity"
    "prep_scope prep = scopeKey identity (publication_type ?right) (publication_id ?right)"
    "sb_sequence base' < source_sequence identity" "all_finite (sb_publication base')" "all_finite ?right"
    "length delta \<le> MAX_LINK_MESSAGE_BYTES" "delta \<noteq> []"
    "encodeDelta env (publication_type ?right) (publication_id ?right) (sb_sequence base')
       (diffJSON (env_stringify env) (sb_publication base') ?right []) = Inr delta"
    using prepare_deltaD[OF prep] by metis
  have eq: "base' = base" using b(1) base(1) by simp
  obtain s st where d: "publication_id ?right = Some (JString s)"
    "sortJSON (patch_json (diffJSON (env_stringify env) (sb_publication base) ?right [])) = Inr st"
    "isStateDeltaPayload delta"
    "decodeDelta env dec delta identity =
       (if sb_sequence base \<ge> source_sequence identity then None
        else case findBaseline (js_get (dec_baselines dec) (prep_scope prep)) (sb_sequence base) of
               None \<Rightarrow> None
             | Some b \<Rightarrow> rebuild env b (env_text env st) (publication_type ?right) s)"
    using decodeDelta_encodeDelta[OF b(10), of dec identity] unfolding eq b(4)[symmetric] by metis
  obtain p where p: "rebuild env rb (env_text env st) (publication_type ?right) s = Some p" "json_same p ?right"
    using rebuild_same[OF env(1,2), of rb ?right s st] base(2) b(2,6,7) d(1,2) env(3) parses fits recv(2)
    unfolding eq by auto
  have "decode env dec delta identity = (Some p, dec)"
    using b(3,8,9) d(3,4) p(1) b(5) recv(1) by (simp add: decode_def eq)
  with p(2) show ?thesis by blast
qed

section \<open>The caches\<close>

definition scope_ok :: "receiver_scope \<Rightarrow> bool" where
  "scope_ok s \<longleftrightarrow> (\<exists>l. latest s = Some l \<and>
     (\<forall>p. previous s = Some p \<longrightarrow> rb_sequence p < rb_sequence l))"

definition decoder_ok :: "delta_decoder \<Rightarrow> bool" where
  "decoder_ok dec \<longleftrightarrow> 0 < dec_maxResources dec \<and> js_map_ok (dec_baselines dec) \<and>
     length (dec_baselines dec) \<le> dec_maxResources dec \<and> js_all scope_ok (dec_baselines dec)"

lemma rememberFull_ok: "decoder_ok dec \<Longrightarrow> decoder_ok (rememberFull dec p identity)"
proof -
  assume ok: "decoder_ok dec"
  let ?key = "scopeKey identity (publication_type p) (publication_id p)"
  let ?in = "\<lparr>rb_publication = p, rb_sequence = source_sequence identity\<rparr>"
  have fresh: "decoder_ok (dec\<lparr>dec_baselines := evict_oldest (dec_maxResources dec)
      (js_set ?key \<lparr>latest = Some ?in, previous = old\<rparr> (js_delete ?key (dec_baselines dec)))\<rparr>)"
    if "\<And>l. old = Some l \<Longrightarrow> rb_sequence l < source_sequence identity" for old
  proof -
    have "scope_ok \<lparr>latest = Some ?in, previous = old\<rparr>" using that by (simp add: scope_ok_def)
    then show ?thesis using ok by (auto simp: decoder_ok_def)
  qed
  have upd: "decoder_ok (dec\<lparr>dec_baselines := js_set ?key (s\<lparr>previous := Some ?in\<rparr>) (dec_baselines dec)\<rparr>)"
    if "js_get (dec_baselines dec) ?key = Some s" "latest s = Some l" "source_sequence identity < rb_sequence l" for s l
  proof -
    have "scope_ok (s\<lparr>previous := Some ?in\<rparr>)" using that by (simp add: scope_ok_def)
    then show ?thesis using ok that by (auto simp: decoder_ok_def length_js_set_present)
  qed
  consider "js_get (dec_baselines dec) ?key = None"
    | s where "js_get (dec_baselines dec) ?key = Some s" "latest s = None"
    | s l where "js_get (dec_baselines dec) ?key = Some s" "latest s = Some l"
    by (cases "js_get (dec_baselines dec) ?key"; cases "latest (the (js_get (dec_baselines dec) ?key))") auto
  then show ?thesis
  proof cases
    case 1
    then show ?thesis using fresh[of None] by (simp add: rememberFull_def Let_def)
  next
    case (2 s)
    then show ?thesis using fresh[of None] by (simp add: rememberFull_def Let_def)
  next
    case (3 s l)
    then show ?thesis using ok fresh[of "Some l"] upd[OF 3] by (simp add: rememberFull_def Let_def)
  qed
qed

lemma decode_ok: "decoder_ok dec \<Longrightarrow> decoder_ok (snd (decode env dec payload identity))"
  by (auto simp: decode_def rememberFull_ok split: sum.splits)

interpretation delta_receiver: guarded_machine
  "\<lparr>dec_baselines = [], dec_maxResources = nat DEFAULT_MAX_BASELINES\<rparr>"
  "\<lambda>dec (payload, identity). snd (decode env dec payload identity)" decoder_ok for env
  proof unfold_locales
  show "decoder_ok \<lparr>dec_baselines = [], dec_maxResources = nat DEFAULT_MAX_BASELINES\<rparr>"
    by (simp add: decoder_ok_def DEFAULT_MAX_BASELINES_def)
qed (auto intro: decode_ok)

definition encoder_ok :: "delta_encoder \<Rightarrow> bool" where
  "encoder_ok enc \<longleftrightarrow> 0 < enc_maxResources enc \<and> js_map_ok (enc_baselines enc) \<and>
     length (enc_baselines enc) \<le> enc_maxResources enc"

definition commit_step :: "delta_encoder \<Rightarrow> prepared \<times> int option \<Rightarrow> delta_encoder" where
  "commit_step enc e = (case commitFull enc (fst e) (snd e) of Inl _ \<Rightarrow> enc | Inr (enc', _) \<Rightarrow> enc')"

lemma commit_ok: "encoder_ok enc \<Longrightarrow> encoder_ok (commit_step enc e)"
  by (auto simp: commit_step_def commitFull_def encoder_ok_def Let_def split: option.splits if_splits)

interpretation delta_sender: guarded_machine
  "\<lparr>enc_baselines = [], baselineIntervalMs = STATE_DELTA_BASELINE_INTERVAL_MS,
    enc_maxResources = nat DEFAULT_MAX_BASELINES\<rparr>"
  commit_step encoder_ok
  proof unfold_locales
  show "encoder_ok \<lparr>enc_baselines = [], baselineIntervalMs = STATE_DELTA_BASELINE_INTERVAL_MS,
      enc_maxResources = nat DEFAULT_MAX_BASELINES\<rparr>"
    by (simp add: encoder_ok_def DEFAULT_MAX_BASELINES_def)
qed (rule commit_ok)

lemma commit_step_monotone:
  assumes "encoder_ok enc" "js_get (enc_baselines enc) k = Some b"
    "js_get (enc_baselines (commit_step enc e)) k = Some b'"
  shows "b' = b \<or> sb_sequence b < sb_sequence b'"
proof -
  obtain prep at where e: "e = (prep, at)" by (cases e)
  let ?new = "\<lambda>t. \<lparr>sb_publication = prep_snapshot prep, sb_sequence = prep_sequence prep, sb_sentAt = t\<rparr>"
  let ?m = "\<lambda>t. js_set (prep_scope prep) (?new t) (js_delete (prep_scope prep) (enc_baselines enc))"
  consider "commit_step enc e = enc"
    | t where "enc_baselines (commit_step enc e) = evict_oldest (enc_maxResources enc) (?m t)"
        "\<And>p. js_get (enc_baselines enc) (prep_scope prep) = Some p \<Longrightarrow> sb_sequence p < prep_sequence prep"
    by (cases at; cases "prep_committed prep"; cases "js_get (enc_baselines enc) (prep_scope prep)")
      (fastforce simp: e commit_step_def commitFull_def Let_def split: if_splits)+
  then show ?thesis
  proof cases
    case 1
    then show ?thesis using assms by simp
  next
    case (2 t)
    have "js_map_ok (?m t)" using assms(1) by (simp add: encoder_ok_def)
    from map_of_evict_oldest[OF this] have "map_of (?m t) k = Some b'" using 2(1) assms(3) by simp
    then show ?thesis using 2(2) assms(2) by (auto simp: js_lookup split: if_splits)
  qed
qed

lemma commitFull_stores:
  assumes "encoder_ok enc" "commitFull enc prep (Some t) = Inr (enc', prep')" "\<not> prep_committed prep"
    and "\<And>b. js_get (enc_baselines enc) (prep_scope prep) = Some b \<Longrightarrow> sb_sequence b < prep_sequence prep"
  shows "js_get (enc_baselines enc') (prep_scope prep) =
    Some \<lparr>sb_publication = prep_snapshot prep, sb_sequence = prep_sequence prep, sb_sentAt = t\<rparr>"
proof -
  let ?b = "\<lparr>sb_publication = prep_snapshot prep, sb_sequence = prep_sequence prep, sb_sentAt = t\<rparr>"
  have "enc_baselines enc' = evict_oldest (enc_maxResources enc)
      (js_set (prep_scope prep) ?b (js_delete (prep_scope prep) (enc_baselines enc)))"
    using assms(2-4) by (fastforce simp: commitFull_def Let_def split: option.splits if_splits)
  then show ?thesis
    using assms(1) by (simp add: encoder_ok_def map_of_evict_last)
qed

lemma rememberFull_stores:
  assumes "decoder_ok dec"
    and "\<And>s l. js_get (dec_baselines dec) key = Some s \<Longrightarrow> latest s = Some l \<Longrightarrow> rb_sequence l < source_sequence identity"
    and key: "key = scopeKey identity (publication_type p) (publication_id p)"
  shows "findBaseline (js_get (dec_baselines (rememberFull dec p identity)) key) (source_sequence identity) =
    Some \<lparr>rb_publication = p, rb_sequence = source_sequence identity\<rparr>"
proof -
  let ?in = "\<lparr>rb_publication = p, rb_sequence = source_sequence identity\<rparr>"
  have "\<exists>old. dec_baselines (rememberFull dec p identity) = evict_oldest (dec_maxResources dec)
      (js_set key \<lparr>latest = Some ?in, previous = old\<rparr> (js_delete key (dec_baselines dec)))"
    using assms(2) unfolding rememberFull_def Let_def key[symmetric] by (fastforce split: option.splits)
  then obtain old where "js_get (dec_baselines (rememberFull dec p identity)) key =
      Some \<lparr>latest = Some ?in, previous = old\<rparr>"
    using assms(1) by (auto simp: decoder_ok_def map_of_evict_last)
  then show ?thesis by (simp add: findBaseline_def)
qed

lemma prepareDelta_shape:
  assumes "prepareDelta env b nrm full = Inr prep"
  shows "prep = full \<or> (\<exists>d s. prep = full\<lparr>deltaPayload := d, baselineSourceSequence := s\<rparr>)"
proof -
  let ?enc = "\<lambda>l r. encodeDelta env (publication_type nrm) (publication_id nrm) (sb_sequence b)
    (diffJSON (env_stringify env) l r [])"
  obtain l r where lr: "asJSONData (sb_publication b) = Inr l" "asJSONData nrm = Inr r"
    using assms by (cases "asJSONData (sb_publication b)"; cases "asJSONData nrm") (auto simp: prepareDelta_def)
  show ?thesis
  proof (cases "?enc l r")
    case (Inl e)
    then show ?thesis using assms lr by (auto simp: prepareDelta_def)
  next
    case (Inr bytes)
    then show ?thesis using assms lr by (cases "boundedDelta bytes") (auto simp: prepareDelta_def)
  qed
qed

lemma prepareD:
  assumes "prepare env enc pub identity at = Inr prep"
  shows "validateIdentity identity" "length (fullPayload prep) \<le> MAX_LINK_MESSAGE_BYTES"
    "deserializeLinkMessage (env_sdk env) (env_parse env) (env_unwrap env) (fullPayload prep) = Inr (prep_snapshot prep)"
    "isStateMessage (env_sdk env) (prep_snapshot prep)" "\<not> prep_committed prep"
    "prep_sequence prep = source_sequence identity"
    "prep_scope prep = scopeKey identity (publication_type (prep_snapshot prep)) (publication_id (prep_snapshot prep))"
proof -
  obtain now where at: "at = Some now"
    using assms by (cases at) (auto simp: prepare_def split: if_splits)
  from assms obtain payload nrm where p:
    "validateIdentity identity" "\<not> MAX_LINK_MESSAGE_BYTES < length payload"
    "deserializeLinkMessage (env_sdk env) (env_parse env) (env_unwrap env) payload = Inr nrm"
    "isStateMessage (env_sdk env) nrm"
    and c: "(case js_get (enc_baselines enc) (scopeKey identity (publication_type nrm) (publication_id nrm)) of
        None \<Rightarrow> Inr (fullPreparation identity nrm payload (scopeKey identity (publication_type nrm) (publication_id nrm)))
      | Some baseline \<Rightarrow>
          if now - sb_sentAt baseline \<ge> baselineIntervalMs enc \<or> sb_sequence baseline \<ge> source_sequence identity
          then Inr (fullPreparation identity nrm payload (scopeKey identity (publication_type nrm) (publication_id nrm)))
          else prepareDelta env baseline nrm
            (fullPreparation identity nrm payload (scopeKey identity (publication_type nrm) (publication_id nrm)))) = Inr prep"
    by (auto simp: prepare_def at bind_result_eq_Inr Let_def split: if_splits)
  let ?full = "fullPreparation identity nrm payload (scopeKey identity (publication_type nrm) (publication_id nrm))"
  have "prep = ?full \<or> (\<exists>d s. prep = ?full\<lparr>deltaPayload := d, baselineSourceSequence := s\<rparr>)"
    using c prepareDelta_shape by (auto split: option.splits if_splits)
  then have "fullPayload prep = payload" "prep_snapshot prep = nrm" "\<not> prep_committed prep"
    "prep_sequence prep = source_sequence identity"
    "prep_scope prep = scopeKey identity (publication_type nrm) (publication_id nrm)"
    by (auto simp: fullPreparation_def)
  with p show "validateIdentity identity" "length (fullPayload prep) \<le> MAX_LINK_MESSAGE_BYTES"
    "deserializeLinkMessage (env_sdk env) (env_parse env) (env_unwrap env) (fullPayload prep) = Inr (prep_snapshot prep)"
    "isStateMessage (env_sdk env) (prep_snapshot prep)" "\<not> prep_committed prep"
    "prep_sequence prep = source_sequence identity"
    "prep_scope prep = scopeKey identity (publication_type (prep_snapshot prep)) (publication_id (prep_snapshot prep))"
    by auto
qed

section \<open>A concrete exchange\<close>

definition later_publication :: json where
  "later_publication =
     (case canonical_publication of
        JObject m \<Rightarrow> JObject (js_set (js_lit ''observation_time'') (JString (js_lit ''2024-02-29T10:20:31Z'')) m)
      | v \<Rightarrow> v)"

definition example_patch :: "patch_operation list" where
  "example_patch = [PReplace [js_lit ''observation_time''] (JString (js_lit ''2024-02-29T10:20:31Z''))]"

definition example_env :: "(json \<Rightarrow> jstring) \<Rightarrow> delta_env" where
  "example_env stringify =
     \<lparr>env_sdk = example_sdk, env_stringify = stringify,
      env_text = (\<lambda>v. case v of JArray _ \<Rightarrow> [1] | _ \<Rightarrow> [2]),
      env_parse = (\<lambda>bs. if bs = [1]
        then (case sortJSON (patch_json example_patch) of Inr v \<Rightarrow> Some v | Inl _ \<Rightarrow> None)
        else Some (JObject [(js_lit ''message'', later_publication), (js_lit ''r'', JString RADIO_CONTRACT_REVISION)])),
      env_unwrap = Inr\<rparr>"

definition example_identity :: delta_identity where
  "example_identity = \<lparr>source_role = js_lit ''asset'', source_id = js_lit ''a'', source_generation = 1,
     service_session = js_lit ''s'', source_sequence = 2\<rparr>"

definition example_scope :: scope_key where
  "example_scope = scopeKey example_identity EntityType (Some (JString (js_lit ''a:1'')))"

definition example_encoder :: delta_encoder where
  "example_encoder =
     \<lparr>enc_baselines = [(example_scope, \<lparr>sb_publication = canonical_publication, sb_sequence = 1, sb_sentAt = 0\<rparr>)],
      baselineIntervalMs = 15000, enc_maxResources = 64\<rparr>"

definition example_decoder :: delta_decoder where
  "example_decoder =
     \<lparr>dec_baselines = [(example_scope, \<lparr>latest = Some \<lparr>rb_publication = canonical_publication, rb_sequence = 1\<rparr>,
        previous = None\<rparr>)], dec_maxResources = 64\<rparr>"

lemma example_diff: "diffJSON st canonical_publication later_publication [] = example_patch"
  by code_simp

definition example_delta :: bytes where
  "example_delta = [177, 1, 1, 1, 3, 97, 58, 49, 1, 1]"

definition example_prepared :: prepared where
  "example_prepared =
     \<lparr>fullPayload = [2], deltaPayload = Some example_delta, baselineSourceSequence = Some 1, prep_committed = False,
      prep_scope = example_scope, prep_snapshot = later_publication, prep_sequence = 2\<rparr>"

lemma example_id: "lengthPrefixedUTF8 (Some (JString (js_lit ''a:1''))) = Inr [3, 97, 58, 49]"
proof -
  have s: "js_lit ''a:1'' = [97, 58, 49]" by (simp add: js_lit_def)
  have e: "textEncode [97, 58, 49] = [97, 58, 49]"
    by (simp add: textEncode_def is_high_def code_point_bytes_def)
  have "textDecode [97, 58, 49] = Some [97, 58, 49]"
    using textDecode_textEncode[of "[97, 58, 49]"] by (simp add: e)
  then show ?thesis
    by (simp add: lengthPrefixedUTF8_def s e encodeUnsignedVarint_def is_safe_integer_def max_safe_integer_def
        varint_loop_small concatBytes_concat)
qed

lemma example_publications:
  "isStateMessage example_sdk later_publication" "publication_type later_publication = EntityType"
  "publication_id later_publication = Some (JString (js_lit ''a:1''))"
  "all_finite later_publication" "all_finite canonical_publication"
  "wf_json canonical_publication" "wf_json later_publication"
  by code_simp+

lemma example_wire:
  "serializeLinkMessage example_sdk (env_text (example_env st)) later_publication = Inr [2]"
  "deserializeLinkMessage example_sdk (env_parse (example_env st)) Inr [2] = Inr later_publication"
  by code_simp+

lemma example_encodeDelta: "encodeDelta (example_env st) EntityType (Some (JString (js_lit ''a:1''))) 1 example_patch =
  Inr example_delta"
proof -
  have "\<exists>xs. sortJSON (patch_json example_patch) = Inr (JArray xs)"
    by (simp add: patch_json_def example_patch_def bind_result_eq_Inr)
  then show ?thesis
    by (auto simp: encodeDelta_def example_id encodeUnsignedVarint_def is_safe_integer_def max_safe_integer_def
        varint_loop_small concatBytes_concat example_delta_def STATE_DELTA_MARKER_def DELTA_VERSION_def
        DELTA_KIND_def example_env_def)
qed

lemma example_prepare:
  "prepare (example_env st) example_encoder later_publication example_identity (Some 5) = Inr example_prepared"
proof -
  have "validateIdentity example_identity"
    by (simp add: validateIdentity_def example_identity_def js_lit_def non_blank_def js_space_def
        is_safe_integer_def max_safe_integer_def)
  moreover have "prepareDelta (example_env st) \<lparr>sb_publication = canonical_publication, sb_sequence = 1, sb_sentAt = 0\<rparr>
      later_publication full = Inr (full\<lparr>deltaPayload := Some example_delta, baselineSourceSequence := Some 1\<rparr>)" for full
    using example_encodeDelta[of st] example_diff[of st]
    by (simp add: prepareDelta_def asJSONData_def example_publications boundedDelta_def example_delta_def
        MAX_LINK_MESSAGE_BYTES_def example_env_def)
  ultimately show ?thesis
    using example_wire[of st]
    by (simp add: prepare_def example_publications MAX_LINK_MESSAGE_BYTES_def example_encoder_def example_scope_def
        example_prepared_def fullPreparation_def example_identity_def example_env_def)
qed

lemma example_text: "length (env_text (example_env st) v) = 1"
  by (cases v) (simp_all add: example_env_def)

lemma example_parses: "text_parses (example_env st) (patch_json example_patch)"
proof -
  let ?v = "case sortJSON (patch_json example_patch) of Inr v \<Rightarrow> v | Inl _ \<Rightarrow> JNull"
  have "sortJSON (patch_json example_patch) = Inr ?v" "wf_json ?v" "json_same ?v (patch_json example_patch)"
    "env_parse (example_env st) (env_text (example_env st) ?v) = Some ?v"
    by code_simp+
  then show ?thesis unfolding text_parses_def by auto
qed

section \<open>Properties\<close>




text \<open>Whatever payloads arrive in whatever order, the receiver's cache holds at most 64 scopes, one
  entry each, every entry has a latest publication and an older one only with a smaller sequence
  number.\<close>

theorem receiver_cache_bounded:
  "decoder_ok (foldl (\<lambda>dec (payload, identity). snd (decode env dec payload identity))
     \<lparr>dec_baselines = [], dec_maxResources = nat DEFAULT_MAX_BASELINES\<rparr> arrivals)"
  by (rule delta_receiver.inv_run)

text \<open>The sender's cache holds at most 64 baselines, one per scope, after any commits, and a further
  commit leaves the baseline of a scope alone, evicts it, or replaces it by one with a larger sequence
  number.\<close>

theorem sender_cache_monotone:
  defines "run \<equiv> foldl commit_step \<lparr>enc_baselines = [], baselineIntervalMs = STATE_DELTA_BASELINE_INTERVAL_MS,
     enc_maxResources = nat DEFAULT_MAX_BASELINES\<rparr>"
  shows "encoder_ok (run commits) \<and>
    (\<forall>b b'. js_get (enc_baselines (run commits)) k = Some b \<longrightarrow>
       js_get (enc_baselines (commit_step (run commits) e)) k = Some b' \<longrightarrow>
       b' = b \<or> sb_sequence b < sb_sequence b')"
  unfolding run_def using delta_sender.inv_run commit_step_monotone by blast

theorem sender_cache_monotone_witness:
  "js_get (enc_baselines (commit_step \<lparr>enc_baselines = [], baselineIntervalMs = STATE_DELTA_BASELINE_INTERVAL_MS,
     enc_maxResources = nat DEFAULT_MAX_BASELINES\<rparr>
     (\<lparr>fullPayload = [2], deltaPayload = None, baselineSourceSequence = None, prep_committed = False,
      prep_scope = ([], [], 0, [], EntityType, None), prep_snapshot = JNull, prep_sequence = 2\<rparr>, Some 0)))
    ([], [], 0, [], EntityType, None) = Some \<lparr>sb_publication = JNull, sb_sequence = 2, sb_sentAt = 0\<rparr> \<and>
   encoder_ok (commit_step \<lparr>enc_baselines = [], baselineIntervalMs = STATE_DELTA_BASELINE_INTERVAL_MS,
     enc_maxResources = nat DEFAULT_MAX_BASELINES\<rparr>
     (\<lparr>fullPayload = [2], deltaPayload = None, baselineSourceSequence = None, prep_committed = False,
      prep_scope = ([], [], 0, [], EntityType, None), prep_snapshot = JNull, prep_sequence = 2\<rparr>, Some 0))"
  using sender_cache_monotone[of "[(\<lparr>fullPayload = [2], deltaPayload = None, baselineSourceSequence = None,
      prep_committed = False, prep_scope = ([], [], 0, [], EntityType, None), prep_snapshot = JNull,
      prep_sequence = 2\<rparr>, Some 0)]"]
  by (simp add: commit_step_def commitFull_def DEFAULT_MAX_BASELINES_def)

end
