(* ===== verification/Link_Subscriptions.thy ===== *)
theory Link_Subscriptions
  imports Json Interfaces
begin

text \<open>
  Subscription demand, \<^verbatim>\<open>packages/meshtastic-link/src/subscriptions.ts\<close>. A Link service aggregates the
  selectors of its local clients and tells the gateway only about the first and the last demand for
  a selector (\<^verbatim>\<open>LocalSubscriptionDemand\<close>); the gateway keeps leases per source node and the set of
  selectors it currently feeds (\<^verbatim>\<open>GatewaySubscriptionDemand\<close>). Times are whole milliseconds.
\<close>

section \<open>Definitions\<close>

datatype feed_selector =
    RecordSelector jstring jstring
  | ResourceTypeSelector jstring
  | TasksForAssetSelector jstring

datatype transition_action = AddAction | RenewAction | RemoveAction

record transition =
  action :: transition_action
  selector :: feed_selector

definition SUBSCRIPTION_RENEWAL_MS :: int where "SUBSCRIPTION_RENEWAL_MS = 30000"
definition SUBSCRIPTION_LEASE_MS :: int where "SUBSCRIPTION_LEASE_MS = 90000"

fun selector_json :: "feed_selector \<Rightarrow> json" where
  "selector_json (RecordSelector t i) =
     JObject [(js_lit ''kind'', JString (js_lit ''record'')), (js_lit ''resource_type'', JString t), (js_lit ''id'', JString i)]"
| "selector_json (ResourceTypeSelector t) =
     JObject [(js_lit ''kind'', JString (js_lit ''resource_type'')), (js_lit ''resource_type'', JString t)]"
| "selector_json (TasksForAssetSelector i) =
     JObject [(js_lit ''kind'', JString (js_lit ''tasks_for_asset'')), (js_lit ''asset_id'', JString i)]"

text \<open>A selector has no number in it, so its canonical text always exists (\<open>selectorKey_total\<close>).\<close>

definition selectorKey :: "(json \<Rightarrow> jstring) \<Rightarrow> feed_selector \<Rightarrow> jstring" where
  "selectorKey stringify sel =
     (case canonicalJSON stringify (selector_json sel) of Inr key \<Rightarrow> key | Inl _ \<Rightarrow> [])"

subsection \<open>Local demand\<close>

type_synonym local_demand = "(jstring, (jstring, feed_selector) js_map) js_map"

definition hasKey :: "local_demand \<Rightarrow> jstring \<Rightarrow> bool" where
  "hasKey byClient key \<longleftrightarrow> (\<exists>subscriptions \<in> set (map snd byClient). js_has subscriptions key)"

definition local_add ::
    "(json \<Rightarrow> jstring) \<Rightarrow> local_demand \<Rightarrow> jstring \<Rightarrow> feed_selector \<Rightarrow> local_demand \<times> transition option" where
  "local_add stringify byClient clientID sel =
     (let key = selectorKey stringify sel;
          existed = hasKey byClient key;
          client = (case js_get byClient clientID of None \<Rightarrow> [] | Some m \<Rightarrow> m)
      in (js_set clientID (js_set key sel client) byClient,
          if existed then None else Some \<lparr>action = AddAction, selector = sel\<rparr>))"

definition local_remove ::
    "(json \<Rightarrow> jstring) \<Rightarrow> local_demand \<Rightarrow> jstring \<Rightarrow> feed_selector \<Rightarrow> local_demand \<times> transition option" where
  "local_remove stringify byClient clientID sel =
     (let key = selectorKey stringify sel
      in case js_get byClient clientID of
           None \<Rightarrow> (byClient, None)
         | Some client \<Rightarrow>
             if \<not> js_has client key then (byClient, None)
             else
               let client' = js_delete key client;
                   byClient' = (if client' = [] then js_delete clientID byClient
                                else js_set clientID client' byClient)
               in (byClient', if hasKey byClient' key then None else Some \<lparr>action = RemoveAction, selector = sel\<rparr>))"

definition local_disconnect :: "local_demand \<Rightarrow> jstring \<Rightarrow> local_demand \<times> transition list" where
  "local_disconnect byClient clientID =
     (case js_get byClient clientID of
        None \<Rightarrow> (byClient, [])
      | Some client \<Rightarrow>
          let byClient' = js_delete clientID byClient
          in (byClient', map (\<lambda>(_, sel). \<lparr>action = RemoveAction, selector = sel\<rparr>)
                (filter (\<lambda>(key, _). \<not> hasKey byClient' key) client)))"

definition local_aggregate :: "local_demand \<Rightarrow> (jstring, feed_selector) js_map" where
  "local_aggregate byClient =
     foldl (\<lambda>result (key, sel). js_set key sel result) [] (concat (map snd byClient))"

definition renewals :: "local_demand \<Rightarrow> transition list" where
  "renewals byClient = map (\<lambda>(_, sel). \<lparr>action = RenewAction, selector = sel\<rparr>) (local_aggregate byClient)"

definition hasClient :: "local_demand \<Rightarrow> jstring \<Rightarrow> bool" where
  "hasClient byClient clientID = js_has byClient clientID"

definition local_clear :: "local_demand \<Rightarrow> local_demand \<times> transition list" where
  "local_clear byClient =
     ([], map (\<lambda>(_, sel). \<lparr>action = RemoveAction, selector = sel\<rparr>) (local_aggregate byClient))"

subsection \<open>Gateway demand\<close>

record lease =
  lease_selector :: feed_selector
  expiresAt :: int

record gateway_demand =
  bySource :: "(jstring, (jstring, lease) js_map) js_map"
  activeSelectors :: "(jstring, feed_selector) js_map"

text \<open>\<^verbatim>\<open>source.get(key)?.expiresAt ?? 0\<close>\<close>

definition lease_expiry :: "(jstring, lease) js_map \<Rightarrow> jstring \<Rightarrow> int" where
  "lease_expiry source key = (case js_get source key of None \<Rightarrow> 0 | Some l \<Rightarrow> expiresAt l)"

definition isDemanded :: "gateway_demand \<Rightarrow> jstring \<Rightarrow> int \<Rightarrow> bool" where
  "isDemanded g key now \<longleftrightarrow> (\<exists>source \<in> set (map snd (bySource g)). lease_expiry source key > now)"

definition gateway_apply ::
    "(json \<Rightarrow> jstring) \<Rightarrow> gateway_demand \<Rightarrow> jstring \<Rightarrow> transition \<Rightarrow> int \<Rightarrow> gateway_demand \<times> bool" where
  "gateway_apply stringify g sourceNodeID t now =
     (let key = selectorKey stringify (selector t);
          existed = js_has (activeSelectors g) key;
          source = (case js_get (bySource g) sourceNodeID of None \<Rightarrow> [] | Some m \<Rightarrow> m);
          source' = (if action t = RemoveAction then js_delete key source
                     else js_set key \<lparr>lease_selector = selector t, expiresAt = now + SUBSCRIPTION_LEASE_MS\<rparr> source);
          g' = g\<lparr>bySource := (if source' = [] then js_delete sourceNodeID (bySource g)
                              else js_set sourceNodeID source' (bySource g))\<rparr>;
          demanded = isDemanded g' key now
      in (g'\<lparr>activeSelectors := (if demanded then js_set key (selector t) (activeSelectors g)
                                 else js_delete key (activeSelectors g))\<rparr>,
          existed \<noteq> demanded))"

definition gateway_aggregate :: "gateway_demand \<Rightarrow> int \<Rightarrow> (jstring, feed_selector) js_map" where
  "gateway_aggregate g now =
     foldl (\<lambda>result (key, l). if expiresAt l > now then js_set key (lease_selector l) result else result) []
       (concat (map snd (bySource g)))"

definition gateway_expire :: "gateway_demand \<Rightarrow> int \<Rightarrow> gateway_demand \<times> feed_selector list" where
  "gateway_expire g now =
     (let pruned = filter (\<lambda>(_, source). source \<noteq> [])
            (map (\<lambda>(sourceID, source). (sourceID, filter (\<lambda>(_, l). \<not> expiresAt l \<le> now) source)) (bySource g));
          g' = g\<lparr>bySource := pruned\<rparr>;
          after = gateway_aggregate g' now;
          expired = filter (\<lambda>(key, _). \<not> js_has after key) (activeSelectors g)
      in (g'\<lparr>activeSelectors := foldl (\<lambda>m (key, _). js_delete key m) (activeSelectors g) expired\<rparr>, map snd expired))"

definition gateway_has :: "(json \<Rightarrow> jstring) \<Rightarrow> gateway_demand \<Rightarrow> jstring \<Rightarrow> feed_selector \<Rightarrow> int \<Rightarrow> bool" where
  "gateway_has stringify g sourceNodeID sel now \<longleftrightarrow>
     (case js_get (bySource g) sourceNodeID of
        None \<Rightarrow> 0 | Some source \<Rightarrow> lease_expiry source (selectorKey stringify sel)) > now"

section \<open>Local demand and what the gateway is told\<close>

lemma selectorKey_total: "\<exists>key. canonicalJSON stringify (selector_json sel) = Inr key"
  by (cases sel) (simp_all add: canonicalJSON_def)

definition client_ok :: "(json \<Rightarrow> jstring) \<Rightarrow> (jstring, feed_selector) js_map \<Rightarrow> bool" where
  "client_ok st m \<longleftrightarrow> js_map_ok m \<and> m \<noteq> [] \<and> (\<forall>(key, sel) \<in> set m. key = selectorKey st sel)"

definition local_ok :: "(json \<Rightarrow> jstring) \<Rightarrow> local_demand \<Rightarrow> bool" where
  "local_ok st d \<longleftrightarrow> js_map_ok d \<and> js_all (client_ok st) d"

lemma hasKey_lookup:
  "js_map_ok d \<Longrightarrow> hasKey d k \<longleftrightarrow> (\<exists>c m. map_of d c = Some m \<and> js_has m k)"
  by (force simp: hasKey_def map_of_eq_Some_iff)

lemma hasKey_set: "js_map_ok d \<Longrightarrow> hasKey (js_set c m d) k \<longleftrightarrow> js_has m k \<or> hasKey (js_delete c d) k"
  by (auto simp: hasKey_lookup js_lookup split: if_splits)

lemma hasKey_split:
  "js_map_ok d \<Longrightarrow> hasKey d k \<longleftrightarrow> (\<exists>m. map_of d c = Some m \<and> js_has m k) \<or> hasKey (js_delete c d) k"
  by (auto simp: hasKey_lookup js_lookup split: if_splits)

lemma js_has_set: "js_has (js_set k v m) k' \<longleftrightarrow> k' = k \<or> js_has m k'"
  by (auto simp: js_has_def js_lookup)

lemma js_has_delete: "js_has (js_delete k m) k' \<longleftrightarrow> k' \<noteq> k \<and> js_has m k'"
  by (auto simp: js_has_def js_lookup)

lemma fold_set_keys:
  "fst ` set (foldl (\<lambda>r (k, v). js_set k v r) m xs) = fst ` set m \<union> fst ` set xs"
proof (induction xs arbitrary: m)
  case (Cons x xs)
  then show ?case by (cases x) (simp add: dom_update insert_commute)
qed simp

lemma fold_set_entries:
  "set (foldl (\<lambda>r (k, v). js_set k v r) m xs) \<subseteq> set m \<union> set xs"
proof (induction xs arbitrary: m)
  case (Cons x xs)
  then show ?case using set_js_set[of "fst x" "snd x" m] by (fastforce simp: case_prod_beta)
qed simp

lemma aggregate_keys: "fst ` set (local_aggregate d) = {k. hasKey d k}"
  by (force simp: local_aggregate_def fold_set_keys hasKey_def js_has_iff)

lemma aggregate_entries:
  assumes "local_ok st d" "(key, sel) \<in> set (local_aggregate d)"
  shows "key = selectorKey st sel"
proof -
  have "(key, sel) \<in> set (concat (map snd d))"
    using assms(2) fold_set_entries[of "[]" "concat (map snd d)"] unfolding local_aggregate_def by auto
  then show ?thesis using assms(1) by (force simp: local_ok_def js_all_def client_ok_def)
qed

datatype local_event =
    AddEvent jstring feed_selector
  | RemoveEvent jstring feed_selector
  | DisconnectEvent jstring
  | ClearEvent

definition optional_list :: "'a option \<Rightarrow> 'a list" where
  "optional_list x = (case x of None \<Rightarrow> [] | Some y \<Rightarrow> [y])"

fun local_step ::
    "(json \<Rightarrow> jstring) \<Rightarrow> local_demand \<times> transition list \<Rightarrow> local_event \<Rightarrow> local_demand \<times> transition list" where
  "local_step st (d, sent) (AddEvent c sel) = (let (d', t) = local_add st d c sel in (d', sent @ optional_list t))"
| "local_step st (d, sent) (RemoveEvent c sel) = (let (d', t) = local_remove st d c sel in (d', sent @ optional_list t))"
| "local_step st (d, sent) (DisconnectEvent c) = (let (d', ts) = local_disconnect d c in (d', sent @ ts))"
| "local_step st (d, sent) ClearEvent = (let (d', ts) = local_clear d in (d', sent @ ts))"

text \<open>
  The specification: a peer that starts with no demand and applies the transitions in order. A
  transition that adds a demanded selector or removes one that is not demanded is redundant.
\<close>

definition transition_effect :: "(json \<Rightarrow> jstring) \<Rightarrow> transition \<Rightarrow> jstring set \<Rightarrow> jstring set" where
  "transition_effect st t S =
     (case action t of AddAction \<Rightarrow> insert (selectorKey st (selector t)) S
      | RemoveAction \<Rightarrow> S - {selectorKey st (selector t)} | RenewAction \<Rightarrow> S)"

definition replay :: "(json \<Rightarrow> jstring) \<Rightarrow> jstring set \<Rightarrow> transition list \<Rightarrow> jstring set" where
  "replay st S ts = foldl (\<lambda>S t. transition_effect st t S) S ts"

fun no_redundant :: "(json \<Rightarrow> jstring) \<Rightarrow> jstring set \<Rightarrow> transition list \<Rightarrow> bool" where
  "no_redundant st S [] = True"
| "no_redundant st S (t # ts) = (transition_effect st t S \<noteq> S \<and> no_redundant st (transition_effect st t S) ts)"

lemma replay_append [simp]: "replay st S (ts @ us) = replay st (replay st S ts) us"
  by (simp add: replay_def)

lemma replay_Nil [simp]: "replay st S [] = S" by (simp add: replay_def)
lemma replay_Cons [simp]: "replay st S (t # ts) = replay st (transition_effect st t S) ts" by (simp add: replay_def)

lemma no_redundant_append [simp]:
  "no_redundant st S (ts @ us) \<longleftrightarrow> no_redundant st S ts \<and> no_redundant st (replay st S ts) us"
  by (induction ts arbitrary: S) auto

lemma replay_removes:
  fixes ms :: "(jstring \<times> feed_selector) list"
  assumes "\<forall>(key, sel) \<in> set ms. key = selectorKey st sel" "distinct (map fst ms)" "fst ` set ms \<subseteq> S"
  defines "ts \<equiv> map (\<lambda>(_, sel). \<lparr>action = RemoveAction, selector = sel\<rparr>) ms"
  shows "replay st S ts = S - fst ` set ms" "no_redundant st S ts"
proof -
  have "replay st S ts = S - fst ` set ms \<and> no_redundant st S ts"
    unfolding ts_def using assms(1-3)
  proof (induction ms arbitrary: S)
    case (Cons m ms)
    obtain k sel where m: "m = (k, sel)" by (cases m)
    from Cons.IH[of "S - {k}"] Cons.prems show ?case
      by (auto simp: m transition_effect_def)
  qed simp
  then show "replay st S ts = S - fst ` set ms" "no_redundant st S ts" by auto
qed

definition local_inv :: "(json \<Rightarrow> jstring) \<Rightarrow> local_demand \<times> transition list \<Rightarrow> bool" where
  "local_inv st s \<longleftrightarrow> local_ok st (fst s) \<and> replay st {} (snd s) = {k. hasKey (fst s) k} \<and>
     no_redundant st {} (snd s)"

lemma local_inv_add:
  assumes "local_inv st (d, sent)" shows "local_inv st (local_step st (d, sent) (AddEvent c sel))"
proof -
  let ?key = "selectorKey st sel"
  let ?m = "case js_get d c of None \<Rightarrow> [] | Some m \<Rightarrow> m"
  have ok: "js_map_ok d" "js_all (client_ok st) d" using assms by (auto simp: local_inv_def local_ok_def)
  have "\<And>m. js_get d c = Some m \<Longrightarrow> client_ok st m" using ok(2) js_all_lookup by metis
  then have "client_ok st (js_set ?key sel ?m)"
    using set_js_set[of ?key sel ?m] by (cases "js_get d c") (fastforce simp: client_ok_def)+
  then have "local_ok st (js_set c (js_set ?key sel ?m) d)" using ok by (auto simp: local_ok_def)
  moreover have "hasKey (js_set c (js_set ?key sel ?m) d) k \<longleftrightarrow> k = ?key \<or> hasKey d k" for k
    unfolding hasKey_set[OF ok(1)] hasKey_split[OF ok(1), of k c] js_has_set
    by (auto simp: js_has_def split: option.splits)
  ultimately show ?thesis
    using assms by (auto simp: local_inv_def local_add_def Let_def optional_list_def transition_effect_def)
qed

lemma local_inv_remove:
  assumes "local_inv st (d, sent)" shows "local_inv st (local_step st (d, sent) (RemoveEvent c sel))"
proof (cases "\<exists>m. js_get d c = Some m \<and> js_has m (selectorKey st sel)")
  case False
  then show ?thesis using assms
    by (cases "js_get d c") (auto simp: local_remove_def Let_def optional_list_def)
next
  case True
  let ?key = "selectorKey st sel"
  obtain m where m: "js_get d c = Some m" "js_has m ?key" using True by blast
  have ok: "js_map_ok d" "js_all (client_ok st) d" using assms by (auto simp: local_inv_def local_ok_def)
  have cm: "client_ok st m" using js_all_lookup[OF ok(2) m(1)] .
  let ?m = "js_delete ?key m"
  let ?d = "if ?m = [] then js_delete c d else js_set c ?m d"
  have "?m \<noteq> [] \<Longrightarrow> client_ok st ?m" using cm by (auto simp: client_ok_def) (auto simp: js_delete_filter)
  then have "local_ok st ?d" using ok by (auto simp: local_ok_def)
  moreover have "hasKey ?d k \<longleftrightarrow> (k \<noteq> ?key \<and> js_has m k) \<or> hasKey (js_delete c d) k" for k
    using hasKey_set[OF ok(1), of c ?m k] js_has_delete[of ?key m k]
    by (auto simp: js_has_def)
  moreover have "hasKey d k \<longleftrightarrow> js_has m k \<or> hasKey (js_delete c d) k" for k
    using hasKey_split[OF ok(1), of k c] m(1) by auto
  ultimately show ?thesis
    using assms m
    by (auto simp: local_inv_def local_remove_def Let_def optional_list_def transition_effect_def)
qed

lemma local_inv_disconnect:
  assumes "local_inv st (d, sent)" shows "local_inv st (local_step st (d, sent) (DisconnectEvent c))"
proof (cases "js_get d c")
  case None
  then show ?thesis using assms by (simp add: local_disconnect_def)
next
  case (Some m)
  have ok: "js_map_ok d" "js_all (client_ok st) d" using assms by (auto simp: local_inv_def local_ok_def)
  have cm: "client_ok st m" using js_all_lookup[OF ok(2) Some] .
  let ?d = "js_delete c d"
  let ?ms = "filter (\<lambda>(key, _). \<not> hasKey ?d key) m"
  have split: "hasKey d k \<longleftrightarrow> js_has m k \<or> hasKey ?d k" for k
    using hasKey_split[OF ok(1), of k c] Some by auto
  have "\<forall>(key, sel) \<in> set ?ms. key = selectorKey st sel" "distinct (map fst ?ms)"
    using cm by (auto simp: client_ok_def distinct_map_filter)
  moreover have "fst ` set ?ms \<subseteq> {k. hasKey d k}"
    using split by (auto simp: js_has_iff image_iff intro: rev_bexI)
  ultimately have "replay st {k. hasKey d k} (map (\<lambda>(_, sel). \<lparr>action = RemoveAction, selector = sel\<rparr>) ?ms) =
      {k. hasKey d k} - fst ` set ?ms"
    "no_redundant st {k. hasKey d k} (map (\<lambda>(_, sel). \<lparr>action = RemoveAction, selector = sel\<rparr>) ?ms)"
    by (rule replay_removes)+
  moreover have "{k. hasKey d k} - fst ` set ?ms = {k. hasKey ?d k}"
    using split by (force simp: js_has_iff)
  ultimately show ?thesis
    using assms Some ok by (auto simp: local_inv_def local_disconnect_def Let_def local_ok_def)
qed

lemma distinct_fold_set: "js_map_ok m \<Longrightarrow> js_map_ok (foldl (\<lambda>r (k, v). js_set k v r) m xs)"
  by (induction xs arbitrary: m) (auto simp: distinct_update)

lemma local_inv_clear:
  assumes "local_inv st (d, sent)" shows "local_inv st (local_step st (d, sent) ClearEvent)"
proof -
  let ?ms = "local_aggregate d"
  have ok: "local_ok st d" using assms by (simp add: local_inv_def)
  have "\<forall>(key, sel) \<in> set ?ms. key = selectorKey st sel" using aggregate_entries[OF ok] by auto
  moreover have "distinct (map fst ?ms)" by (simp add: local_aggregate_def distinct_fold_set)
  moreover have "fst ` set ?ms \<subseteq> {k. hasKey d k}" by (simp add: aggregate_keys)
  ultimately have "replay st {k. hasKey d k} (map (\<lambda>(_, sel). \<lparr>action = RemoveAction, selector = sel\<rparr>) ?ms) =
      {k. hasKey d k} - fst ` set ?ms"
    "no_redundant st {k. hasKey d k} (map (\<lambda>(_, sel). \<lparr>action = RemoveAction, selector = sel\<rparr>) ?ms)"
    by (rule replay_removes)+
  then show ?thesis
    using assms by (auto simp: local_inv_def local_clear_def aggregate_keys local_ok_def hasKey_def)
qed

interpretation local_demand: guarded_machine "([], [])" "local_step st" "local_inv st" for st
proof unfold_locales
  show "local_inv st ([], [])" by (simp add: local_inv_def local_ok_def hasKey_def)
  fix s e
  assume "local_inv st s"
  then show "local_inv st (local_step st s e)"
    by (cases s; cases e)
      (simp_all only: local_inv_add local_inv_remove local_inv_disconnect local_inv_clear)
qed

text \<open>C15: after any sequence of client subscriptions, unsubscriptions, disconnects and clears, the
  transitions sent to the gateway describe exactly the aggregated local demand: a peer that applies
  them in order demands a selector key if and only if some client still subscribes to it. No
  transition is redundant.\<close>

theorem local_demand_refines:
  "let (d, sent) = foldl (local_step st) ([], []) events
   in replay st {} sent = {k. hasKey d k} \<and> no_redundant st {} sent \<and>
     fst ` set (local_aggregate d) = {k. hasKey d k}"
  using local_demand.inv_run[of st events]
  by (simp add: local_inv_def aggregate_keys case_prod_beta)
section \<open>Leases at the gateway\<close>

definition gateway_ok :: "gateway_demand \<Rightarrow> bool" where
  "gateway_ok g \<longleftrightarrow> js_map_ok (bySource g) \<and> js_map_ok (activeSelectors g)"

lemma isDemanded_lookup:
  "js_map_ok (bySource g) \<Longrightarrow>
     isDemanded g k now \<longleftrightarrow> (\<exists>s source. map_of (bySource g) s = Some source \<and> lease_expiry source k > now)"
  by (force simp: isDemanded_def map_of_eq_Some_iff)

lemma isDemanded_earlier: "isDemanded g k now \<Longrightarrow> now0 \<le> now \<Longrightarrow> isDemanded g k now0"
  by (force simp: isDemanded_def)

lemma aggregate_fold_keys:
  "fst ` set (foldl (\<lambda>r (k, l). if expiresAt l > now then js_set k (lease_selector l) r else r) m xs) =
     fst ` set m \<union> {k. \<exists>l. (k, l) \<in> set xs \<and> expiresAt l > now}"
proof (induction xs arbitrary: m)
  case (Cons x xs)
  then show ?case by (cases x) (auto simp: dom_update)
qed simp

lemma lease_expiry_iff:
  assumes "js_map_ok source" "0 \<le> now"
  shows "lease_expiry source k > now \<longleftrightarrow> (\<exists>l. (k, l) \<in> set source \<and> expiresAt l > now)"
proof (cases "js_get source k")
  case None
  then have "k \<notin> fst ` set source" by (simp add: map_of_eq_None_iff)
  then show ?thesis using None assms(2) by (auto simp: lease_expiry_def image_iff)
next
  case (Some l)
  then have "(k, l') \<in> set source \<longleftrightarrow> l' = l" for l'
    using assms(1) by (metis map_of_eq_Some_iff option.inject)
  then show ?thesis using Some by (auto simp: lease_expiry_def)
qed

lemma gateway_aggregate_keys:
  assumes "js_all js_map_ok (bySource g)" "0 \<le> now"
  shows "fst ` set (gateway_aggregate g now) = {k. isDemanded g k now}"
proof -
  have "(\<exists>l. (k, l) \<in> set (concat (map snd (bySource g))) \<and> expiresAt l > now) \<longleftrightarrow>
      (\<exists>source \<in> set (map snd (bySource g)). \<exists>l. (k, l) \<in> set source \<and> expiresAt l > now)" for k
    by auto
  also have "\<dots>k \<longleftrightarrow> isDemanded g k now" for k
    using assms lease_expiry_iff by (auto simp: isDemanded_def js_all_def)
  finally show ?thesis by (simp add: gateway_aggregate_def aggregate_fold_keys)
qed

definition gateway_inv :: "int \<times> gateway_demand \<Rightarrow> bool" where
  "gateway_inv s \<longleftrightarrow> 0 \<le> fst s \<and> gateway_ok (snd s) \<and> js_all js_map_ok (bySource (snd s)) \<and>
     {k. isDemanded (snd s) k (fst s)} \<subseteq> fst ` set (activeSelectors (snd s))"

datatype gateway_event = ApplyEvent jstring transition | ExpireEvent

text \<open>A gateway receives transitions and expires leases as time passes; an event carries the time
  since the previous one.\<close>

fun gateway_step :: "(json \<Rightarrow> jstring) \<Rightarrow> int \<times> gateway_demand \<Rightarrow> nat \<times> gateway_event \<Rightarrow> int \<times> gateway_demand" where
  "gateway_step st (now, g) (dt, ApplyEvent s t) = (now + int dt, fst (gateway_apply st g s t (now + int dt)))"
| "gateway_step st (now, g) (dt, ExpireEvent) = (now + int dt, fst (gateway_expire g (now + int dt)))"

lemma lease_expiry_simps:
  "lease_expiry (js_delete key m) k = (if k = key then 0 else lease_expiry m k)"
  "lease_expiry (js_set key l m) k = (if k = key then expiresAt l else lease_expiry m k)"
  "lease_expiry [] k = 0"
  by (auto simp: lease_expiry_def js_lookup)

lemma apply_demand:
  assumes "js_map_ok (bySource g)" "0 \<le> now" "k \<noteq> selectorKey st (selector t)"
  shows "isDemanded (fst (gateway_apply st g s t now)) k now = isDemanded g k now"
proof -
  let ?src = "case js_get (bySource g) s of None \<Rightarrow> [] | Some m \<Rightarrow> m"
  let ?src' = "if action t = RemoveAction then js_delete (selectorKey st (selector t)) ?src
    else js_set (selectorKey st (selector t)) \<lparr>lease_selector = selector t, expiresAt = now + SUBSCRIPTION_LEASE_MS\<rparr> ?src"
  let ?by = "if ?src' = [] then js_delete s (bySource g) else js_set s ?src' (bySource g)"
  have same: "lease_expiry ?src' k = lease_expiry ?src k" using assms(3) by (simp add: lease_expiry_simps)
  have "bySource (fst (gateway_apply st g s t now)) = ?by"
    by (simp add: gateway_apply_def Let_def)
  moreover have "js_map_ok ?by" using assms(1) by simp
  moreover have "(\<exists>s' src. map_of ?by s' = Some src \<and> lease_expiry src k > now) \<longleftrightarrow>
      lease_expiry ?src k > now \<or> (\<exists>s' src. s' \<noteq> s \<and> map_of (bySource g) s' = Some src \<and> lease_expiry src k > now)"
  proof (cases "?src' = []")
    case True
    then have "\<not> lease_expiry ?src k > now" using same assms(2) by (simp add: lease_expiry_simps del: if_split)
    then show ?thesis unfolding if_P[OF True] js_lookup by (auto split: if_splits)
  next
    case False
    show ?thesis unfolding if_not_P[OF False] js_lookup same[symmetric] by (auto split: if_splits)
  qed
  moreover have "\<dots> \<longleftrightarrow> (\<exists>s' src. map_of (bySource g) s' = Some src \<and> lease_expiry src k > now)"
    using assms(2)
    by (cases "js_get (bySource g) s"; auto simp: lease_expiry_simps; metis option.distinct(1) option.inject)
  ultimately show ?thesis by (simp add: isDemanded_lookup assms(1))
qed

lemma apply_active:
  assumes "gateway_ok g"
  shows "js_has (activeSelectors (fst (gateway_apply st g s t now))) k \<longleftrightarrow>
    (if k = selectorKey st (selector t)
     then isDemanded (fst (gateway_apply st g s t now)) k now else js_has (activeSelectors g) k)"
proof -
  have "isDemanded (g\<lparr>activeSelectors := x\<rparr>) k' n = isDemanded g k' n" for g x k' n
    by (simp add: isDemanded_def)
  then show ?thesis
    by (auto simp: gateway_apply_def Let_def js_has_set js_has_delete)
qed

lemma gateway_inv_apply:
  assumes inv: "gateway_inv (now, g)" and later: "now \<le> t0"
  shows "gateway_inv (t0, fst (gateway_apply st g s t t0))"
proof -
  let ?g = "fst (gateway_apply st g s t t0)"
  let ?src = "case js_get (bySource g) s of None \<Rightarrow> [] | Some m \<Rightarrow> m"
  have t0: "0 \<le> t0" "0 \<le> now" and ok: "gateway_ok g" "js_all js_map_ok (bySource g)"
    using inv later by (auto simp: gateway_inv_def)
  have src: "js_map_ok ?src"
    using js_all_lookup[OF ok(2)] by (cases "js_get (bySource g) s") auto
  have "gateway_ok ?g" using ok(1) by (simp add: gateway_ok_def gateway_apply_def Let_def)
  moreover have "js_all js_map_ok (bySource ?g)"
    using ok(2) src by (auto simp: gateway_apply_def Let_def)
  moreover have "js_has (activeSelectors ?g) k" if "isDemanded ?g k t0" for k
  proof (cases "k = selectorKey st (selector t)")
    case True
    then show ?thesis using apply_active[OF ok(1), of st s t t0 k] that by simp
  next
    case False
    then have "isDemanded g k now"
      using that apply_demand[of g t0 k st t s] ok(1) t0(1) isDemanded_earlier[OF _ later] by (auto simp: gateway_ok_def)
    then show ?thesis
      using inv False apply_active[OF ok(1), of st s t t0 k] by (auto simp: gateway_inv_def js_has_iff)
  qed
  ultimately show ?thesis using t0 by (auto simp: gateway_inv_def js_has_iff)
qed

lemma expire_sources:
  assumes "js_all js_map_ok (bySource g)" "js_map_ok (bySource g)" "0 \<le> now"
  shows "isDemanded (fst (gateway_expire g now)) k now = isDemanded g k now"
    "js_all js_map_ok (bySource (fst (gateway_expire g now)))" "js_map_ok (bySource (fst (gateway_expire g now)))"
proof -
  let ?prune = "\<lambda>source. filter (\<lambda>(_, l). \<not> expiresAt l \<le> now) source"
  let ?by = "filter (\<lambda>(_, source). source \<noteq> []) (map (\<lambda>(sid, source). (sid, ?prune source)) (bySource g))"
  have srcs: "bySource (fst (gateway_expire g now)) = ?by" by (simp add: gateway_expire_def Let_def)
  have in_by: "x \<in> set (map snd ?by) \<longleftrightarrow> (\<exists>source \<in> set (map snd (bySource g)). x = ?prune source \<and> x \<noteq> [])" for x
    by (force simp: image_iff)
  have pr: "lease_expiry (?prune source) k > now \<longleftrightarrow> lease_expiry source k > now"
    if "source \<in> set (map snd (bySource g))" for source k
  proof -
    have m: "js_map_ok source" using assms(1) that by (auto simp: js_all_def)
    then have "js_map_ok (?prune source)" by (simp add: distinct_map_filter)
    then show ?thesis using lease_expiry_iff[OF _ assms(3)] m by auto
  qed
  have ne: "lease_expiry x k > now \<Longrightarrow> x \<noteq> []" for x k using assms(3) by (auto simp: lease_expiry_simps)
  show "isDemanded (fst (gateway_expire g now)) k now = isDemanded g k now"
    unfolding isDemanded_def srcs using in_by pr ne by metis
  show "js_all js_map_ok (bySource (fst (gateway_expire g now)))"
    unfolding srcs using assms(1) by (auto simp: js_all_def distinct_map_filter)
  have "map fst (map (\<lambda>(sid, source). (sid, ?prune source)) (bySource g)) = map fst (bySource g)"
    by (simp add: case_prod_beta comp_def)
  then show "js_map_ok (bySource (fst (gateway_expire g now)))"
    unfolding srcs using assms(2) by (metis distinct_map_filter)
qed

lemma fold_delete: "map_of (foldl (\<lambda>m (k, _). js_delete k m) m ks) x = (if x \<in> fst ` set ks then None else map_of m x)"
  by (induction ks arbitrary: m) (auto simp: js_lookup)

lemma fold_delete_ok: "js_map_ok m \<Longrightarrow> js_map_ok (foldl (\<lambda>m (k, _). js_delete k m) m ks)"
  by (induction ks arbitrary: m) auto

lemma expire_active:
  assumes "gateway_inv (now, g)" "now \<le> t0"
  shows "fst ` set (activeSelectors (fst (gateway_expire g t0))) = {k. isDemanded g k t0}"
    "js_map_ok (activeSelectors (fst (gateway_expire g t0)))"
    "snd (gateway_expire g t0) = map snd (filter (\<lambda>(key, _). \<not> isDemanded g key t0) (activeSelectors g))"
proof -
  have t0: "0 \<le> t0" and ok: "gateway_ok g" "js_all js_map_ok (bySource g)"
    using assms by (auto simp: gateway_inv_def)
  have e: "js_all js_map_ok (bySource (fst (gateway_expire g t0)))"
    "\<And>k. isDemanded (fst (gateway_expire g t0)) k t0 = isDemanded g k t0"
    using expire_sources[OF ok(2) _ t0] ok(1) by (auto simp: gateway_ok_def)
  let ?g' = "g\<lparr>bySource := bySource (fst (gateway_expire g t0))\<rparr>"
  have after: "js_has (gateway_aggregate ?g' t0) k \<longleftrightarrow> isDemanded g k t0" for k
    using gateway_aggregate_keys[of ?g' t0] e t0 by (auto simp: js_has_iff isDemanded_def)
  let ?ex = "filter (\<lambda>(key, _). \<not> js_has (gateway_aggregate ?g' t0) key) (activeSelectors g)"
  have act: "activeSelectors (fst (gateway_expire g t0)) = foldl (\<lambda>m (key, _). js_delete key m) (activeSelectors g) ?ex"
    by (simp add: gateway_expire_def Let_def)
  have "js_has (activeSelectors (fst (gateway_expire g t0))) k \<longleftrightarrow> js_has (activeSelectors g) k \<and> isDemanded g k t0" for k
  proof -
    have "k \<in> fst ` set ?ex \<longleftrightarrow> js_has (activeSelectors g) k \<and> \<not> isDemanded g k t0"
      unfolding js_has_iff[of "activeSelectors g"] set_filter after by force
    then show ?thesis by (simp add: act js_has_def fold_delete)
  qed
  moreover have "isDemanded g k t0 \<Longrightarrow> js_has (activeSelectors g) k" for k
    using assms isDemanded_earlier[of g k t0 now] by (auto simp: gateway_inv_def js_has_iff)
  ultimately show "fst ` set (activeSelectors (fst (gateway_expire g t0))) = {k. isDemanded g k t0}"
    by (auto simp: js_has_iff)
  show "js_map_ok (activeSelectors (fst (gateway_expire g t0)))"
    unfolding act using ok(1) by (simp add: fold_delete_ok gateway_ok_def)
  have "snd (gateway_expire g t0) = map snd ?ex" by (simp add: gateway_expire_def Let_def)
  then show "snd (gateway_expire g t0) = map snd (filter (\<lambda>(key, _). \<not> isDemanded g key t0) (activeSelectors g))"
    by (simp add: after)
qed

lemma gateway_inv_expire:
  assumes "gateway_inv (now, g)" "now \<le> t0"
  shows "gateway_inv (t0, fst (gateway_expire g t0))"
  using assms expire_active[OF assms] expire_sources[of g t0] by (auto simp: gateway_inv_def gateway_ok_def)

interpretation gateway_leases: guarded_machine "(0, \<lparr>bySource = [], activeSelectors = []\<rparr>)" "gateway_step st" gateway_inv
  for st
proof unfold_locales
  show "gateway_inv (0, \<lparr>bySource = [], activeSelectors = []\<rparr>)"
    by (simp add: gateway_inv_def gateway_ok_def isDemanded_def)
  fix s e
  assume "gateway_inv s"
  then show "gateway_inv (gateway_step st s e)"
    by (cases s; cases e; cases "snd e") (auto intro: gateway_inv_apply gateway_inv_expire)
qed

text \<open>C24: after any history of transitions from any source nodes and expiry rounds as time passes,
  expiring at the current time leaves active exactly the selectors for which some source holds an
  unexpired lease, and the selectors it reports are exactly those that stopped being active.\<close>

theorem gateway_active_exact:
  "let (now, g) = foldl (gateway_step st) (0, \<lparr>bySource = [], activeSelectors = []\<rparr>) events;
       (g', gone) = gateway_expire g now
   in fst ` set (activeSelectors g') = {k. isDemanded g k now} \<and>
     fst ` set (activeSelectors g') = fst ` set (gateway_aggregate g' now) \<and>
     gone = map snd (filter (\<lambda>(key, _). \<not> isDemanded g key now) (activeSelectors g))"
proof -
  obtain now g where r: "foldl (gateway_step st) (0, \<lparr>bySource = [], activeSelectors = []\<rparr>) events = (now, g)"
    by force
  have inv: "gateway_inv (now, g)" using gateway_leases.inv_run[of st events] by (simp add: r)
  have g: "js_all js_map_ok (bySource g)" "js_map_ok (bySource g)" "0 \<le> now"
    using inv by (auto simp: gateway_inv_def gateway_ok_def)
  have "fst ` set (gateway_aggregate (fst (gateway_expire g now)) now) = {k. isDemanded g k now}"
    using gateway_aggregate_keys[OF expire_sources(2)[OF g] g(3)] expire_sources(1)[OF g] by simp
  then show ?thesis using expire_active[OF inv order_refl] by (simp add: r case_prod_beta)
qed

text \<open>C32: a lease lasts: once a source adds or renews a selector, the gateway counts that source's demand
  and keeps the selector active for the following 90 seconds.\<close>

theorem lease_duration:
  fixes st :: "json \<Rightarrow> jstring" and s :: jstring
  assumes "gateway_inv (now, g)" "action t \<noteq> RemoveAction" "now' < now + SUBSCRIPTION_LEASE_MS"
  defines "g' \<equiv> fst (gateway_apply st g s t now)"
  shows "gateway_has st g' s (selector t) now' \<and> js_has (activeSelectors g') (selectorKey st (selector t)) \<and>
    isDemanded g' (selectorKey st (selector t)) now'"
proof -
  let ?key = "selectorKey st (selector t)"
  let ?src = "case js_get (bySource g) s of None \<Rightarrow> [] | Some m \<Rightarrow> m"
  have ok: "gateway_ok g" using assms(1) by (simp add: gateway_inv_def)
  have src: "map_of (bySource g') s = Some
      (js_set ?key \<lparr>lease_selector = selector t, expiresAt = now + SUBSCRIPTION_LEASE_MS\<rparr> ?src)"
    using assms(2) by (simp add: g'_def gateway_apply_def Let_def js_lookup)
  have ok': "gateway_ok g'" using gateway_inv_apply[OF assms(1) order_refl] by (simp add: g'_def gateway_inv_def)
  have dem: "isDemanded g' ?key n" if "n < now + SUBSCRIPTION_LEASE_MS" for n
    using src that ok' by (auto simp: isDemanded_lookup gateway_ok_def lease_expiry_simps intro!: exI[of _ s])
  have "isDemanded g' ?key now" by (rule dem) (simp add: SUBSCRIPTION_LEASE_MS_def)
  then have "js_has (activeSelectors g') ?key" using apply_active[OF ok, of st s t now ?key] by (simp add: g'_def)
  moreover have "gateway_has st g' s (selector t) now'"
    using src assms(3) by (simp add: gateway_has_def lease_expiry_simps)
  ultimately show ?thesis using dem[OF assms(3)] by blast
qed

theorem lease_duration_witness:
  "gateway_has (\<lambda>v. []) (fst (gateway_apply (\<lambda>v. []) \<lparr>bySource = [], activeSelectors = []\<rparr> [97]
     \<lparr>action = RenewAction, selector = ResourceTypeSelector [98]\<rparr> 1000)) [97] (ResourceTypeSelector [98]) 90999"
proof -
  have "gateway_inv (1000, \<lparr>bySource = [], activeSelectors = []\<rparr>)"
    by (simp add: gateway_inv_def gateway_ok_def isDemanded_def)
  from lease_duration[OF this, of "\<lparr>action = RenewAction, selector = ResourceTypeSelector [98]\<rparr>" 90999 "\<lambda>v. []" "[97]"]
  show ?thesis by (simp add: SUBSCRIPTION_LEASE_MS_def)
qed
end
