(* ===== verification/Retry_Timing.thy ===== *)
theory Retry_Timing
  imports Interfaces Complex_Main
begin

text \<open>
  Adaptive retry delays, \<^verbatim>\<open>packages/meshtastic-link/src/retry-timing.ts\<close>: a smoothed round-trip time
  and variation per destination, in the manner of RFC 6298. Numbers are exact rationals (the rounding of
  doubles is not modelled); a number that is not finite is \<open>None\<close>.
\<close>

section \<open>Definitions\<close>

definition DEFAULT_MINIMUM_DELAY_MS :: rat where "DEFAULT_MINIMUM_DELAY_MS = 2000"
definition DEFAULT_MAXIMUM_DELAY_MS :: rat where "DEFAULT_MAXIMUM_DELAY_MS = 60000"
definition DEFAULT_PEER_TTL_MS :: rat where "DEFAULT_PEER_TTL_MS = 10 * 60000"
definition DEFAULT_MAX_PEERS :: rat where "DEFAULT_MAX_PEERS = 64"
definition DEFAULT_SMOOTHING_ALPHA :: rat where "DEFAULT_SMOOTHING_ALPHA = 1 / 8"
definition DEFAULT_VARIATION_BETA :: rat where "DEFAULT_VARIATION_BETA = 1 / 4"

record retry_sample =
  destination :: jstring
  measured_rtt_ms :: "rat option"
  observed_at_ms :: "rat option"
  retransmitted :: bool

text \<open>An option that is left out is \<open>None\<close>; a given one may be a number that is not finite.\<close>

record retry_options =
  fallback_ms :: "rat option"
  minimum_delay_ms :: "rat option option"
  maximum_delay_ms :: "rat option option"
  peer_ttl_ms :: "rat option option"
  max_peers :: "rat option option"

record peer_state =
  smoothed_rtt_ms :: rat
  variation_ms :: rat
  last_observed_at_ms :: rat
  order :: nat

record estimator =
  fallbackMs :: rat
  minimumDelayMs :: rat
  maximumDelayMs :: rat
  peerTtlMs :: rat
  maxPeers :: nat
  peers :: "(jstring, peer_state) js_map"
  nextOrder :: nat

definition positiveFinite :: "rat option \<Rightarrow> rat result" where
  "positiveFinite v =
     (case v of
        None \<Rightarrow> Inl (RangeError ''must be positive and finite'')
      | Some x \<Rightarrow> if x \<le> 0 then Inl (RangeError ''must be positive and finite'') else Inr x)"

definition positiveCount :: "rat option \<Rightarrow> nat result" where
  "positiveCount v =
     (case v of
        None \<Rightarrow> Inl (RangeError ''must be a positive integer'')
      | Some x \<Rightarrow>
          if x \<noteq> of_int \<lfloor>x\<rfloor> \<or> \<not> is_safe_integer \<lfloor>x\<rfloor> \<or> x \<le> 0
          then Inl (RangeError ''must be a positive integer'') else Inr (nat \<lfloor>x\<rfloor>))"

definition given :: "rat option option \<Rightarrow> rat \<Rightarrow> rat option" where
  "given v d = (case v of None \<Rightarrow> Some d | Some x \<Rightarrow> x)"

definition new_estimator :: "retry_options \<Rightarrow> estimator result" where
  "new_estimator options =
     bind_result (positiveFinite (fallback_ms options)) (\<lambda>fallback.
       bind_result (positiveFinite (given (minimum_delay_ms options) DEFAULT_MINIMUM_DELAY_MS)) (\<lambda>lo.
         bind_result (positiveFinite (given (maximum_delay_ms options) DEFAULT_MAXIMUM_DELAY_MS)) (\<lambda>hi.
           if hi < lo then Inl (RangeError ''maximum_delay_ms must be at least minimum_delay_ms'')
           else if fallback < lo \<or> fallback > hi
             then Inl (RangeError ''fallback_ms must be within the learned delay bounds'')
           else bind_result (positiveFinite (given (peer_ttl_ms options) DEFAULT_PEER_TTL_MS)) (\<lambda>ttl.
             bind_result (positiveCount (given (max_peers options) DEFAULT_MAX_PEERS)) (\<lambda>n.
               Inr \<lparr>fallbackMs = fallback, minimumDelayMs = lo, maximumDelayMs = hi, peerTtlMs = ttl, maxPeers = n,
                 peers = [], nextOrder = 0\<rparr>)))))"

definition validateDestination :: "jstring \<Rightarrow> unit result" where
  "validateDestination d =
     (if \<not> non_blank d then Inl (TypeError ''destination must be a non-empty string'') else Inr ())"

definition validateTime :: "rat option \<Rightarrow> rat result" where
  "validateTime v =
     (case v of
        None \<Rightarrow> Inl (RangeError ''must be a non-negative finite number'')
      | Some x \<Rightarrow> if x < 0 then Inl (RangeError ''must be a non-negative finite number'') else Inr x)"

definition pruneExpired :: "rat \<Rightarrow> estimator \<Rightarrow> estimator" where
  "pruneExpired now est =
     est\<lparr>peers := filter (\<lambda>(_, state). \<not> now - last_observed_at_ms state \<ge> peerTtlMs est) (peers est)\<rparr>"

definition bound :: "estimator \<Rightarrow> rat \<Rightarrow> rat" where
  "bound est delay = min (maximumDelayMs est) (max (minimumDelayMs est) delay)"

definition estimate :: "estimator \<Rightarrow> jstring \<Rightarrow> rat option \<Rightarrow> (rat \<times> estimator) result" where
  "estimate est dest nowMs =
     bind_result (validateDestination dest) (\<lambda>_.
       bind_result (validateTime nowMs) (\<lambda>now.
         let est' = pruneExpired now est
         in case js_get (peers est') dest of
              None \<Rightarrow> Inr (fallbackMs est', est')
            | Some state \<Rightarrow> Inr (bound est' (smoothed_rtt_ms state + 4 * variation_ms state), est')))"

text \<open>The loop of \<^verbatim>\<open>ensurePeerCapacity\<close> keeps the first peer that is smallest in (time, order).\<close>

definition older :: "peer_state \<Rightarrow> peer_state \<Rightarrow> bool" where
  "older a b \<longleftrightarrow> last_observed_at_ms a < last_observed_at_ms b \<or>
     (last_observed_at_ms a = last_observed_at_ms b \<and> order a < order b)"

fun oldest_peer :: "(jstring \<times> peer_state) option \<Rightarrow> (jstring, peer_state) js_map \<Rightarrow> (jstring \<times> peer_state) option" where
  "oldest_peer best [] = best"
| "oldest_peer None (p # ps) = oldest_peer (Some p) ps"
| "oldest_peer (Some b) (p # ps) = oldest_peer (if older (snd p) (snd b) then Some p else Some b) ps"

definition ensurePeerCapacity :: "estimator \<Rightarrow> estimator" where
  "ensurePeerCapacity est =
     (if length (peers est) < maxPeers est then est
      else (case oldest_peer None (peers est) of
              None \<Rightarrow> est
            | Some (d, _) \<Rightarrow> est\<lparr>peers := js_delete d (peers est)\<rparr>))"

definition observe :: "estimator \<Rightarrow> retry_sample \<Rightarrow> (bool \<times> estimator) result" where
  "observe est sample =
     bind_result (validateDestination (destination sample)) (\<lambda>_.
       bind_result (validateTime (observed_at_ms sample)) (\<lambda>tm.
         if retransmitted sample then Inr (False, est)
         else case measured_rtt_ms sample of
             None \<Rightarrow> Inr (False, est)
           | Some rtt \<Rightarrow>
               if rtt \<le> 0 then Inr (False, est)
               else
                 let est1 = pruneExpired tm est;
                     measured = min rtt (maximumDelayMs est)
                 in case js_get (peers est1) (destination sample) of
                      None \<Rightarrow>
                        let est2 = ensurePeerCapacity est1
                        in Inr (True, est2\<lparr>
                             peers := js_set (destination sample)
                               \<lparr>smoothed_rtt_ms = measured, variation_ms = measured / 2,
                                last_observed_at_ms = tm, order = nextOrder est2\<rparr> (peers est2),
                             nextOrder := nextOrder est2 + 1\<rparr>)
                    | Some state \<Rightarrow>
                        Inr (True, est1\<lparr>peers := js_set (destination sample)
                          (state\<lparr>variation_ms := (1 - DEFAULT_VARIATION_BETA) * variation_ms state +
                               DEFAULT_VARIATION_BETA * \<bar>smoothed_rtt_ms state - measured\<bar>,
                             smoothed_rtt_ms := (1 - DEFAULT_SMOOTHING_ALPHA) * smoothed_rtt_ms state +
                               DEFAULT_SMOOTHING_ALPHA * measured,
                             last_observed_at_ms := tm\<rparr>) (peers est1)\<rparr>)))"

declare map_of_eq_Some_iff [simp del]

section \<open>Invariant\<close>

definition peer_ok :: "rat \<Rightarrow> peer_state \<Rightarrow> bool" where
  "peer_ok hi p \<longleftrightarrow> 0 < smoothed_rtt_ms p \<and> smoothed_rtt_ms p \<le> hi \<and> 0 \<le> variation_ms p \<and> variation_ms p \<le> hi"

definition estimator_ok :: "estimator \<Rightarrow> bool" where
  "estimator_ok est \<longleftrightarrow> 0 < minimumDelayMs est \<and> minimumDelayMs est \<le> maximumDelayMs est \<and>
     minimumDelayMs est \<le> fallbackMs est \<and> fallbackMs est \<le> maximumDelayMs est \<and> 0 < peerTtlMs est \<and>
     0 < maxPeers est \<and> js_map_ok (peers est) \<and> length (peers est) \<le> maxPeers est \<and>
     js_all (peer_ok (maximumDelayMs est)) (peers est)"

lemma positiveCount_pos: "positiveCount v = Inr n \<Longrightarrow> 0 < n"
proof -
  assume "positiveCount v = Inr n"
  then obtain x where "v = Some x" "x = rat_of_int \<lfloor>x\<rfloor>" "0 < x" "n = nat \<lfloor>x\<rfloor>"
    by (auto simp: positiveCount_def split: option.splits if_splits)
  moreover then have "0 < \<lfloor>x\<rfloor>" by (metis of_int_0_less_iff)
  ultimately show "0 < n" by simp
qed

lemma positiveFinite_pos: "positiveFinite v = Inr x \<Longrightarrow> 0 < x"
  by (auto simp: positiveFinite_def split: option.splits if_splits)

lemma new_estimator_ok: "new_estimator options = Inr est \<Longrightarrow> estimator_ok est"
  by (auto simp: new_estimator_def bind_result_eq_Inr estimator_ok_def
      dest!: positiveCount_pos positiveFinite_pos split: if_splits)

lemma pruneExpired_ok: "estimator_ok est \<Longrightarrow> estimator_ok (pruneExpired now est)"
  by (auto simp: estimator_ok_def pruneExpired_def distinct_map_filter intro: le_trans[OF length_filter_le])

lemma oldest_peer_in: "oldest_peer best ps = Some p \<Longrightarrow> p \<in> set ps \<or> best = Some p"
  by (induction best ps rule: oldest_peer.induct) (auto split: if_splits)

lemma oldest_peer_Some: "ps \<noteq> [] \<or> best \<noteq> None \<Longrightarrow> oldest_peer best ps \<noteq> None"
  by (induction best ps rule: oldest_peer.induct) auto

lemma not_older_trans: "\<not> older a b \<Longrightarrow> \<not> older b c \<Longrightarrow> \<not> older a c"
  unfolding older_def by linarith

lemma older_asym: "older a b \<Longrightarrow> \<not> older b a"
  unfolding older_def by linarith

lemma oldest_peer_least:
  "oldest_peer best ps = Some p \<Longrightarrow> q \<in> set ps \<or> best = Some q \<Longrightarrow> \<not> older (snd q) (snd p)"
proof (induction best ps arbitrary: q rule: oldest_peer.induct)
  case (1 best)
  then show ?case using older_asym by auto
next
  case (2 x ps)
  then have "q \<in> set ps \<or> Some x = Some q" by auto
  with 2 show ?case by simp
next
  case (3 b x ps)
  let ?best = "if older (snd x) (snd b) then Some x else Some b"
  have r: "\<not> older (snd y) (snd p)" if "y \<in> set ps \<or> ?best = Some y" for y
    using 3 that by simp
  from 3(3) consider "q \<in> set ps" | "q = x" | "q = b" by auto
  then show ?case
  proof cases
    case 1
    then show ?thesis using r by blast
  next
    case 2
    show ?thesis
    proof (cases "older (snd x) (snd b)")
      case True
      then show ?thesis using r[of x] 2 by simp
    next
      case False
      then show ?thesis using r[of b] 2 not_older_trans[of "snd x" "snd b" "snd p"] by simp
    qed
  next
    case bb: 3
    show ?thesis
    proof (cases "older (snd x) (snd b)")
      case True
      then show ?thesis
        using r[of x] bb older_asym[OF True] not_older_trans[of "snd b" "snd x" "snd p"] by simp
    next
      case False
      then show ?thesis using r[of b] bb by simp
    qed
  qed
qed

lemma length_js_delete: "js_map_ok m \<Longrightarrow> k \<in> fst ` set m \<Longrightarrow> length (js_delete k m) + 1 = length m"
proof (induction m)
  case (Cons x m)
  have "k \<notin> fst ` set m \<Longrightarrow> js_delete k m = m"
    by (simp add: js_delete_filter filter_id_conv) force
  with Cons show ?case by (cases x) (auto simp: js_delete_filter)
qed simp

lemma ensurePeerCapacity_ok:
  assumes "estimator_ok est"
  shows "estimator_ok (ensurePeerCapacity est)" "length (peers (ensurePeerCapacity est)) < maxPeers est"
    "maxPeers (ensurePeerCapacity est) = maxPeers est" "maximumDelayMs (ensurePeerCapacity est) = maximumDelayMs est"
proof -
  have "estimator_ok (ensurePeerCapacity est) \<and> length (peers (ensurePeerCapacity est)) < maxPeers est"
  proof (cases "length (peers est) < maxPeers est")
    case True
    then show ?thesis using assms by (simp add: ensurePeerCapacity_def)
  next
    case False
    then have "peers est \<noteq> []" using assms by (auto simp: estimator_ok_def)
    then obtain d s where o: "oldest_peer None (peers est) = Some (d, s)" using oldest_peer_Some[of "peers est" None] by auto
    then have "d \<in> fst ` set (peers est)" using oldest_peer_in by force
    from length_js_delete[OF _ this] have "length (js_delete d (peers est)) + 1 = length (peers est)"
      using assms by (simp add: estimator_ok_def)
    then show ?thesis using False assms o by (auto simp: ensurePeerCapacity_def estimator_ok_def)
  qed
  then show "estimator_ok (ensurePeerCapacity est)" "length (peers (ensurePeerCapacity est)) < maxPeers est" by auto
  show "maxPeers (ensurePeerCapacity est) = maxPeers est" "maximumDelayMs (ensurePeerCapacity est) = maximumDelayMs est"
    by (auto simp: ensurePeerCapacity_def split: option.splits)
qed

lemma new_peer_ok:
  "0 < m \<Longrightarrow> m \<le> hi \<Longrightarrow>
     peer_ok hi \<lparr>smoothed_rtt_ms = m, variation_ms = m / 2, last_observed_at_ms = tm, order = n\<rparr>"
  by (simp add: peer_ok_def)

lemma peer_ok_update:
  assumes "peer_ok hi p" "0 < m" "m \<le> hi"
  shows "peer_ok hi (p\<lparr>variation_ms := (1 - DEFAULT_VARIATION_BETA) * variation_ms p +
       DEFAULT_VARIATION_BETA * \<bar>smoothed_rtt_ms p - m\<bar>,
     smoothed_rtt_ms := (1 - DEFAULT_SMOOTHING_ALPHA) * smoothed_rtt_ms p + DEFAULT_SMOOTHING_ALPHA * m,
     last_observed_at_ms := tm\<rparr>)"
proof -
  have "\<bar>smoothed_rtt_ms p - m\<bar> \<le> hi" using assms by (auto simp: peer_ok_def abs_le_iff)
  then show ?thesis using assms
    by (auto simp: peer_ok_def DEFAULT_VARIATION_BETA_def DEFAULT_SMOOTHING_ALPHA_def)
qed

lemma observe_ok:
  assumes "estimator_ok est" "observe est sample = Inr (b, est')"
  shows "estimator_ok est'"
proof -
  obtain tm where tm: "validateTime (observed_at_ms sample) = Inr tm" using assms(2)
    by (auto simp: observe_def bind_result_eq_Inr)
  let ?e1 = "pruneExpired tm est"
  let ?e2 = "ensurePeerCapacity ?e1"
  have e1: "estimator_ok ?e1" "maximumDelayMs ?e1 = maximumDelayMs est"
    using pruneExpired_ok[OF assms(1)] by (simp_all add: pruneExpired_def)
  note e2 = ensurePeerCapacity_ok[OF e1(1)]
  show ?thesis
  proof (cases "retransmitted sample \<or> measured_rtt_ms sample = None \<or> the (measured_rtt_ms sample) \<le> 0")
    case True
    then show ?thesis using assms tm
      by (cases "measured_rtt_ms sample") (auto simp: observe_def bind_result_eq_Inr split: if_splits)
  next
    case False
    then obtain rtt where rtt: "measured_rtt_ms sample = Some rtt" "0 < rtt" "\<not> retransmitted sample" by auto
    let ?m = "min rtt (maximumDelayMs est)"
    have m: "0 < ?m" "?m \<le> maximumDelayMs est" using rtt assms(1) by (auto simp: estimator_ok_def)
    show ?thesis
    proof (cases "js_get (peers ?e1) (destination sample)")
      case None
      let ?p = "\<lparr>smoothed_rtt_ms = ?m, variation_ms = ?m / 2, last_observed_at_ms = tm, order = nextOrder ?e2\<rparr>"
      have est': "est' = ?e2\<lparr>peers := js_set (destination sample) ?p (peers ?e2), nextOrder := nextOrder ?e2 + 1\<rparr>"
        using assms(2) tm rtt None by (auto simp: observe_def bind_result_eq_Inr Let_def)
      have "peer_ok (maximumDelayMs ?e2) ?p" unfolding e2(4) e1(2) by (rule new_peer_ok[OF m])
      then show ?thesis
        using e2 length_js_set_le[of "destination sample" ?p "peers ?e2"]
        by (auto simp: est' estimator_ok_def)
    next
      case (Some p)
      then have p: "peer_ok (maximumDelayMs est) p"
        using js_all_lookup[of "peer_ok (maximumDelayMs est)" "peers ?e1"] e1 by (simp add: estimator_ok_def)
      let ?p = "p\<lparr>variation_ms := (1 - DEFAULT_VARIATION_BETA) * variation_ms p +
          DEFAULT_VARIATION_BETA * \<bar>smoothed_rtt_ms p - ?m\<bar>,
        smoothed_rtt_ms := (1 - DEFAULT_SMOOTHING_ALPHA) * smoothed_rtt_ms p + DEFAULT_SMOOTHING_ALPHA * ?m,
        last_observed_at_ms := tm\<rparr>"
      have est': "est' = ?e1\<lparr>peers := js_set (destination sample) ?p (peers ?e1)\<rparr>"
        using assms(2) tm rtt Some by (auto simp: observe_def bind_result_eq_Inr Let_def)
      have "peer_ok (maximumDelayMs est) ?p" by (rule peer_ok_update[OF p m])
      then show ?thesis
        using e1 Some by (auto simp: est' estimator_ok_def length_js_set_present)
    qed
  qed
qed

lemma estimate_bounds:
  assumes "estimator_ok est" "estimate est dest now = Inr (delay, est')"
  shows "minimumDelayMs est \<le> delay \<and> delay \<le> maximumDelayMs est \<and> estimator_ok est'"
proof -
  obtain t where t: "validateTime now = Inr t" "est' = pruneExpired t est"
    using assms(2) by (auto simp: estimate_def bind_result_eq_Inr Let_def split: option.splits)
  show ?thesis
    using assms pruneExpired_ok[OF assms(1), of t] t
    by (auto simp: estimate_def bind_result_eq_Inr Let_def bound_def estimator_ok_def pruneExpired_def
        split: option.splits)
qed

text \<open>One call of the estimator; a thrown error leaves it as it was.\<close>

datatype retry_call = ObserveCall retry_sample | EstimateCall jstring "rat option"

fun retry_step :: "estimator \<Rightarrow> retry_call \<Rightarrow> estimator" where
  "retry_step est (ObserveCall sample) = (case observe est sample of Inl _ \<Rightarrow> est | Inr (_, est') \<Rightarrow> est')"
| "retry_step est (EstimateCall d now) = (case estimate est d now of Inl _ \<Rightarrow> est | Inr (_, est') \<Rightarrow> est')"

lemma retry_step_ok: "estimator_ok est \<Longrightarrow> estimator_ok (retry_step est e)"
proof (cases e)
  case (ObserveCall sample)
  assume "estimator_ok est"
  then show ?thesis using ObserveCall observe_ok[of est sample] by (cases "observe est sample") auto
next
  case (EstimateCall d now)
  assume "estimator_ok est"
  then show ?thesis using EstimateCall estimate_bounds[of est d now] by (cases "estimate est d now") auto
qed

interpretation retry: guarded_machine est0 retry_step "\<lambda>est. estimator_ok est0 \<longrightarrow> estimator_ok est" for est0
  by unfold_locales (auto intro: retry_step_ok)

lemma ensurePeerCapacity_config:
  "minimumDelayMs (ensurePeerCapacity est) = minimumDelayMs est" "fallbackMs (ensurePeerCapacity est) = fallbackMs est"
  by (auto simp: ensurePeerCapacity_def split: option.splits)

lemma observe_config:
  "observe est sample = Inr (b, est') \<Longrightarrow>
     minimumDelayMs est' = minimumDelayMs est \<and> maximumDelayMs est' = maximumDelayMs est"
  by (auto simp: observe_def bind_result_eq_Inr Let_def pruneExpired_def ensurePeerCapacity_config
      ensurePeerCapacity_def split: if_splits option.splits)

lemma retry_step_config:
  "minimumDelayMs (retry_step est e) = minimumDelayMs est \<and> maximumDelayMs (retry_step est e) = maximumDelayMs est"
proof (cases e)
  case (ObserveCall sample)
  then show ?thesis using observe_config[of est sample] by (cases "observe est sample") auto
next
  case (EstimateCall d now)
  then show ?thesis
    by (auto simp: estimate_def bind_result_def Let_def pruneExpired_def split: sum.splits option.splits)
qed

lemma retry_run_config:
  "minimumDelayMs (foldl retry_step est es) = minimumDelayMs est \<and>
   maximumDelayMs (foldl retry_step est es) = maximumDelayMs est"
  by (induction es arbitrary: est) (simp_all add: retry_step_config)

section \<open>Properties\<close>

text \<open>C33: whatever samples were learned before, a retry delay that the estimator returns lies between the
  configured minimum and maximum, and it never keeps more peers than configured.\<close>

theorem retry_delay_bounded:
  assumes "new_estimator options = Inr est0"
    and "estimate (foldl retry_step est0 calls) dest now = Inr (delay, est')"
  shows "minimumDelayMs est0 \<le> delay \<and> delay \<le> maximumDelayMs est0 \<and> length (peers est') \<le> maxPeers est'"
proof -
  have "estimator_ok (foldl retry_step est0 calls)"
    using retry.inv_run[of est0 calls] new_estimator_ok[OF assms(1)] by simp
  from estimate_bounds[OF this assms(2)] show ?thesis
    by (simp add: retry_run_config estimator_ok_def)
qed

definition example_options :: retry_options where
  "example_options = \<lparr>fallback_ms = Some 5000, minimum_delay_ms = None, maximum_delay_ms = None,
     peer_ttl_ms = None, max_peers = None\<rparr>"

definition example_estimator :: estimator where
  "example_estimator = \<lparr>fallbackMs = 5000, minimumDelayMs = 2000, maximumDelayMs = 60000, peerTtlMs = 600000,
     maxPeers = 64, peers = [], nextOrder = 0\<rparr>"

lemma example_new: "new_estimator example_options = Inr example_estimator"
  by (simp add: new_estimator_def example_options_def example_estimator_def positiveFinite_def positiveCount_def
      given_def DEFAULT_MINIMUM_DELAY_MS_def DEFAULT_MAXIMUM_DELAY_MS_def DEFAULT_PEER_TTL_MS_def DEFAULT_MAX_PEERS_def
      is_safe_integer_def max_safe_integer_def)

theorem retry_delay_bounded_witness:
  "\<exists>est'. estimate (foldl retry_step example_estimator
     [ObserveCall \<lparr>destination = [97], measured_rtt_ms = Some 1000, observed_at_ms = Some 10, retransmitted = False\<rparr>])
     [97] (Some 20) = Inr (3000, est') \<and> 2000 \<le> (3000 :: rat) \<and> length (peers est') \<le> maxPeers est'"
proof -
  let ?call = "ObserveCall \<lparr>destination = [97], measured_rtt_ms = Some 1000, observed_at_ms = Some 10, retransmitted = False\<rparr>"
  have "\<exists>est'. estimate (foldl retry_step example_estimator [?call]) [97] (Some 20) = Inr (3000, est')"
    by (simp add: example_estimator_def observe_def validateDestination_def non_blank_def js_space_def validateTime_def
        pruneExpired_def ensurePeerCapacity_def estimate_def bound_def)
  then obtain est' where e: "estimate (foldl retry_step example_estimator [?call]) [97] (Some 20) = Inr (3000, est')"
    by blast
  from retry_delay_bounded[OF example_new e] e show ?thesis by (auto simp: example_estimator_def)
qed

lemma capacity_victim:
  assumes "js_map_ok (peers est)" "js_get (peers est) d = Some p" "js_get (peers (ensurePeerCapacity est)) d = None"
    and "js_get (peers est) c = Some q"
  shows "\<not> older q p"
proof -
  obtain d' s where o: "oldest_peer None (peers est) = Some (d', s)" "d = d'"
    using assms(2,3) by (auto simp: ensurePeerCapacity_def js_lookup split: if_splits option.splits)
  then have "(d', s) \<in> set (peers est)" using oldest_peer_in by force
  then have "s = p" using assms(1,2) o(2) by (metis map_of_eq_Some_iff option.inject)
  then show ?thesis using oldest_peer_least[OF o(1), of "(c, q)"] map_of_SomeD[OF assms(4)] by simp
qed

text \<open>Karn's rule and the guards: a sample of a retransmitted operation, or one whose round-trip time
  is not a positive finite number, is not learned from and changes nothing; any other valid sample
  is learned, at the cost of at most one unexpired peer, one that no other was observed before.\<close>

theorem observe_learns:
  assumes "estimator_ok est" "observed_at_ms sample = Some tm" "observe est sample = Inr (learned, est')"
  defines "fresh \<equiv> peers (pruneExpired tm est)"
  shows "(learned \<longleftrightarrow> \<not> retransmitted sample \<and> (\<exists>rtt. measured_rtt_ms sample = Some rtt \<and> 0 < rtt)) \<and>
    (\<not> learned \<longrightarrow> est' = est) \<and>
    (learned \<longrightarrow> js_has (peers est') (destination sample)) \<and>
    (\<forall>d p c q. learned \<longrightarrow> js_get fresh d = Some p \<longrightarrow> js_get (peers est') d = None \<longrightarrow>
       js_get fresh c = Some q \<longrightarrow> \<not> older q p)"
proof (cases "\<not> retransmitted sample \<and> (\<exists>rtt. measured_rtt_ms sample = Some rtt \<and> 0 < rtt)")
  case False
  then have "learned = False \<and> est' = est"
    using assms(3) by (cases "measured_rtt_ms sample") (auto simp: observe_def bind_result_eq_Inr split: if_splits)
  with False show ?thesis by blast
next
  case True
  let ?e1 = "pruneExpired tm est"
  let ?d = "destination sample"
  have ok: "js_map_ok (peers ?e1)" using pruneExpired_ok[OF assms(1), of tm] by (simp add: estimator_ok_def)
  have at: "validateTime (observed_at_ms sample) = Inr tm"
    using assms(2,3) by (auto simp: observe_def bind_result_eq_Inr validateTime_def split: if_splits)
  consider p where "js_get (peers ?e1) ?d = Some p" | "js_get (peers ?e1) ?d = None" by fastforce
  then have "learned \<and> js_has (peers est') ?d \<and>
      (\<forall>d. js_get (peers est') d = None \<longrightarrow> js_get fresh d \<noteq> None \<longrightarrow> js_get (peers (ensurePeerCapacity ?e1)) d = None)"
    using assms(3) True at
    by cases (auto simp: observe_def bind_result_eq_Inr Let_def js_has_def js_lookup fresh_def split: if_splits)
  then show ?thesis using True capacity_victim[OF ok] unfolding fresh_def by fastforce
qed

theorem observe_learns_witness:
  "observe example_estimator \<lparr>destination = [97], measured_rtt_ms = Some 1000, observed_at_ms = Some 10,
     retransmitted = True\<rparr> = Inr (False, example_estimator)"
proof -
  let ?s = "\<lparr>destination = [97], measured_rtt_ms = Some 1000, observed_at_ms = Some 10, retransmitted = True\<rparr>"
  have "\<exists>l e. observe example_estimator ?s = Inr (l, e)"
    by (auto simp: observe_def validateDestination_def non_blank_def js_space_def validateTime_def)
  then obtain l e where o: "observe example_estimator ?s = Inr (l, e)" by blast
  have "observed_at_ms ?s = Some 10" by simp
  from observe_learns[OF new_estimator_ok[OF example_new] this o] o show ?thesis by auto
qed

end
