(* ===== verification/Json_Text.thy ===== *)
theory Json_Text
  imports Wtf8
begin

text \<open>
  The text of \<^verbatim>\<open>JSON.stringify\<close> and \<^verbatim>\<open>JSON.parse\<close> on arrays of strings, which the SDK uses as keys
  of its maps (\<^verbatim>\<open>packages/sdk/src/subscriptions.ts\<close>). Printing follows \<^verbatim>\<open>QuoteJSONString\<close> of the
  language: quotes, backslashes and control characters are escaped, and so are lone surrogates.
  The reader accepts every JSON text that denotes an array of strings, whatever its white space and
  escapes. The theory shows that printed arrays are read back, so that keys of different
  arrays differ.
\<close>

section \<open>Definitions\<close>

definition hex_digit :: "nat \<Rightarrow> jschar" where
  "hex_digit n = word_of_nat (if n < 10 then 48 + n else 87 + n)"

definition unit_escape :: "jschar \<Rightarrow> jstring" where
  "unit_escape c = (let n = unat c in
     [0x5c, 0x75, hex_digit (n div 4096), hex_digit (n div 256 mod 16), hex_digit (n div 16 mod 16), hex_digit (n mod 16)])"

definition quote_unit :: "jschar \<Rightarrow> jstring" where
  "quote_unit c =
     (if c = 8 then [0x5c, 0x62] else if c = 9 then [0x5c, 0x74] else if c = 10 then [0x5c, 0x6e]
      else if c = 12 then [0x5c, 0x66] else if c = 13 then [0x5c, 0x72]
      else if c = 0x22 then [0x5c, 0x22] else if c = 0x5c then [0x5c, 0x5c]
      else if c < 0x20 \<or> is_high c \<or> is_low c then unit_escape c else [c])"

fun quote_units :: "jstring \<Rightarrow> jstring" where
  "quote_units [] = []"
| "quote_units [c] = quote_unit c"
| "quote_units (c # d # cs) =
     (if is_high c \<and> is_low d then c # d # quote_units cs else quote_unit c @ quote_units (d # cs))"

definition quote_string :: "jstring \<Rightarrow> jstring" where
  "quote_string s = [0x22] @ quote_units s @ [0x22]"

fun join_comma :: "jstring list \<Rightarrow> jstring" where
  "join_comma [] = []"
| "join_comma [x] = x"
| "join_comma (x # y # xs) = x @ [0x2c] @ join_comma (y # xs)"

definition stringify_strings :: "jstring list \<Rightarrow> jstring" where
  "stringify_strings xs = [0x5b] @ join_comma (map quote_string xs) @ [0x5d]"

subsection \<open>Reading\<close>

definition hex_value :: "jschar \<Rightarrow> nat option" where
  "hex_value c = (let n = unat c in
     if 48 \<le> n \<and> n \<le> 57 then Some (n - 48) else if 97 \<le> n \<and> n \<le> 102 then Some (n - 87)
     else if 65 \<le> n \<and> n \<le> 70 then Some (n - 55) else None)"

definition hex_unit :: "jschar \<Rightarrow> jschar \<Rightarrow> jschar \<Rightarrow> jschar \<Rightarrow> jschar option" where
  "hex_unit a b c d =
     (case (hex_value a, hex_value b, hex_value c, hex_value d) of
        (Some w, Some x, Some y, Some z) \<Rightarrow> Some (word_of_nat (4096 * w + 256 * x + 16 * y + z))
      | _ \<Rightarrow> None)"

definition simple_escape :: "jschar \<Rightarrow> jschar option" where
  "simple_escape e =
     (if e = 0x22 \<or> e = 0x5c \<or> e = 0x2f then Some e else if e = 0x62 then Some 8 else if e = 0x66 then Some 12
      else if e = 0x6e then Some 10 else if e = 0x72 then Some 13 else if e = 0x74 then Some 9 else None)"

definition cons_parsed :: "jschar \<Rightarrow> (jstring \<times> jstring) option \<Rightarrow> (jstring \<times> jstring) option" where
  "cons_parsed c r = (case r of None \<Rightarrow> None | Some (s, rest) \<Rightarrow> Some (c # s, rest))"

text \<open>The characters of a string after its opening quote, and the text that follows the closing one.\<close>

fun parse_units :: "jstring \<Rightarrow> (jstring \<times> jstring) option" where
  "parse_units [] = None"
| "parse_units (c # cs) =
     (if c = 0x22 then Some ([], cs)
      else if c < 0x20 then None
      else if c = 0x5c then
        (case cs of
           [] \<Rightarrow> None
         | e # cs' \<Rightarrow>
             if e = 0x75 then
               (case cs' of
                  h1 # h2 # h3 # h4 # rest \<Rightarrow>
                    (case hex_unit h1 h2 h3 h4 of None \<Rightarrow> None | Some u \<Rightarrow> cons_parsed u (parse_units rest))
                | _ \<Rightarrow> None)
             else (case simple_escape e of None \<Rightarrow> None | Some u \<Rightarrow> cons_parsed u (parse_units cs')))
      else cons_parsed c (parse_units cs))"

definition json_space :: "jschar \<Rightarrow> bool" where
  "json_space c \<longleftrightarrow> c = 0x20 \<or> c = 9 \<or> c = 10 \<or> c = 13"

definition skip_space :: "jstring \<Rightarrow> jstring" where
  "skip_space s = dropWhile json_space s"

definition parse_string :: "jstring \<Rightarrow> (jstring \<times> jstring) option" where
  "parse_string s = (case skip_space s of [] \<Rightarrow> None | c # cs \<Rightarrow> if c = 0x22 then parse_units cs else None)"

text \<open>The elements from the current one on; the text gets shorter with every element.\<close>

lemma length_skip_space: "length (skip_space s) \<le> length s"
  by (simp add: skip_space_def length_dropWhile_le)

lemma cons_parsed_SomeD: "cons_parsed c r = Some (s, rest) \<Longrightarrow> \<exists>s'. r = Some (s', rest) \<and> s = c # s'"
  by (auto simp: cons_parsed_def split: option.splits)

lemma parse_units_shorter: "parse_units s = Some (x, rest) \<Longrightarrow> length rest < length s"
proof (induction "length s" arbitrary: s x rule: less_induct)
  case less
  have IH: "parse_units t = Some (y, rest) \<Longrightarrow> length t < length s \<Longrightarrow> length rest < length t" for t y
    by (rule less.hyps)
  show ?case
    using less.prems
    by (cases s) (auto split: if_splits list.splits option.splits dest!: cons_parsed_SomeD dest: IH)
qed

lemma parse_string_shorter: "parse_string s = Some (x, rest) \<Longrightarrow> length rest < length s"
  using length_skip_space[of s] parse_units_shorter[of "tl (skip_space s)" x rest]
  by (auto simp: parse_string_def split: list.splits if_splits)

function parse_elements :: "jstring \<Rightarrow> (jstring list \<times> jstring) option" where
  "parse_elements s =
     (case parse_string s of
        None \<Rightarrow> None
      | Some (x, rest) \<Rightarrow>
          (case skip_space rest of
             [] \<Rightarrow> None
           | c # cs \<Rightarrow>
               if c = 0x5d then Some ([x], cs)
               else if c = 0x2c then
                 (case parse_elements cs of None \<Rightarrow> None | Some (xs, rest') \<Rightarrow> Some (x # xs, rest'))
               else None))"
  by pat_completeness auto
termination
proof (relation "measure length")
  fix s rest cs :: jstring and p x c
  assume "parse_string s = Some p" "(x, rest) = p" "skip_space rest = c # cs"
  then show "(cs, s) \<in> measure length"
    using length_skip_space[of rest] parse_string_shorter[of s x rest] by simp
qed simp

declare parse_elements.simps [simp del]

definition parse_string_array :: "jstring \<Rightarrow> jstring list option" where
  "parse_string_array s =
     (case skip_space s of
        [] \<Rightarrow> None
      | c # cs \<Rightarrow>
          if c \<noteq> 0x5b then None
          else (case skip_space cs of
             [] \<Rightarrow> None
           | d # ds \<Rightarrow>
               if d = 0x5d then (if skip_space ds = [] then Some [] else None)
               else (case parse_elements cs of
                   None \<Rightarrow> None
                 | Some (xs, rest) \<Rightarrow> if skip_space rest = [] then Some xs else None)))"

section \<open>Printed arrays are read back\<close>

lemma hex_value_digit: "n < 16 \<Longrightarrow> hex_value (hex_digit n) = Some n"
  by (simp add: hex_value_def hex_digit_def Let_def wire_simps)

lemma hex_unit_escape:
  "hex_unit (hex_digit (unat c div 4096)) (hex_digit (unat c div 256 mod 16)) (hex_digit (unat c div 16 mod 16))
     (hex_digit (unat c mod 16)) = Some c"
proof -
  have "unat c div 4096 < 16" using jschar_lt[of c] by (simp add: less_mult_imp_div_less)
  moreover have "4096 * (unat c div 4096) + 256 * (unat c div 256 mod 16) + 16 * (unat c div 16 mod 16) + unat c mod 16 = unat c"
  proof -
    have h: "unat c div 256 = unat c div 16 div 16" "unat c div 4096 = unat c div 16 div 16 div 16"
      by (simp_all flip: div_mult2_eq)
    show ?thesis
      unfolding h using mult_div_mod_eq[of 16 "unat c"] mult_div_mod_eq[of 16 "unat c div 16"]
        mult_div_mod_eq[of 16 "unat c div 16 div 16"] by linarith
  qed
  ultimately show ?thesis by (simp add: hex_unit_def hex_value_digit)
qed

lemma surrogate_range: "is_high c \<or> is_low c \<Longrightarrow> 0xd800 \<le> c"
  by (auto simp: is_high_def is_low_def word_le_nat_alt)

lemma surrogate_plain: "is_high c \<or> is_low c \<Longrightarrow> c \<noteq> 0x22 \<and> \<not> c < 0x20 \<and> c \<noteq> 0x5c"
  by (drule surrogate_range) (auto simp: word_le_nat_alt word_less_nat_alt)

lemma parse_units_plain:
  "c \<noteq> 0x22 \<Longrightarrow> \<not> c < 0x20 \<Longrightarrow> c \<noteq> 0x5c \<Longrightarrow> parse_units (c # cs) = cons_parsed c (parse_units cs)"
  by simp

lemma parse_units_escape: "parse_units (unit_escape c @ rest) = cons_parsed c (parse_units rest)"
  by (simp add: unit_escape_def Let_def hex_unit_escape word_less_nat_alt)

lemma parse_units_quote_unit: "parse_units (quote_unit c @ rest) = cons_parsed c (parse_units rest)"
proof (cases "c < 0x20 \<or> is_high c \<or> is_low c \<or> c = 0x22 \<or> c = 0x5c")
  case True
  show ?thesis
  proof (cases "c \<in> {8, 9, 10, 12, 13, 0x22, 0x5c}")
    case True
    then show ?thesis by (auto simp: quote_unit_def simple_escape_def word_less_nat_alt)
  next
    case False
    with True have "quote_unit c = unit_escape c" by (auto simp: quote_unit_def)
    then show ?thesis by (simp only: parse_units_escape)
  qed
next
  case False
  then have "quote_unit c = [c]" by (auto simp: quote_unit_def word_less_nat_alt)
  with False show ?thesis by (simp add: parse_units_plain)
qed

lemma parse_units_quote: "parse_units (quote_units s @ 0x22 # rest) = Some (s, rest)"
proof (induction s rule: quote_units.induct)
  case (2 c)
  show ?case by (simp add: parse_units_quote_unit cons_parsed_def del: parse_units.simps)
      (simp add: cons_parsed_def)
next
  case (3 c d cs)
  show ?case
  proof (cases "is_high c \<and> is_low d")
    case True
    then have "parse_units (quote_units (c # d # cs) @ 0x22 # rest) =
        cons_parsed c (cons_parsed d (parse_units (quote_units cs @ 0x22 # rest)))"
      using surrogate_plain[of c] surrogate_plain[of d] by (simp del: parse_units.simps add: parse_units_plain)
    with 3(1)[OF True] show ?thesis by (simp add: cons_parsed_def)
  next
    case False
    then have "quote_units (c # d # cs) = quote_unit c @ quote_units (d # cs)" by auto
    then have "parse_units (quote_units (c # d # cs) @ 0x22 # rest) =
        cons_parsed c (parse_units (quote_units (d # cs) @ 0x22 # rest))"
      by (simp only: append_assoc parse_units_quote_unit)
    with 3(2)[OF False] show ?thesis by (simp add: cons_parsed_def)
  qed
qed simp

lemma skip_space_other: "\<not> json_space c \<Longrightarrow> skip_space (c # cs) = c # cs"
  by (simp add: skip_space_def)

lemma not_json_space: "\<not> json_space 0x22" "\<not> json_space 0x5b" "\<not> json_space 0x5d" "\<not> json_space 0x2c"
  by (simp_all add: json_space_def)

lemma parse_string_quote: "parse_string (quote_string s @ rest) = Some (s, rest)"
  using parse_units_quote[of s rest]
  by (simp add: parse_string_def quote_string_def skip_space_other not_json_space del: parse_units.simps)

lemma parse_elements_join:
  "xs \<noteq> [] \<Longrightarrow> parse_elements (join_comma (map quote_string xs) @ 0x5d # rest) = Some (xs, rest)"
proof (induction xs rule: induct_list012)
  case (2 x)
  show ?case
    by (subst parse_elements.simps) (simp add: parse_string_quote skip_space_other not_json_space)
next
  case (3 x y zs)
  then show ?case
    by (subst parse_elements.simps) (simp add: parse_string_quote skip_space_other not_json_space)
qed simp

lemma join_quote_hd:
  "xs \<noteq> [] \<Longrightarrow> \<exists>cs. join_comma (map quote_string xs) @ rest = 0x22 # cs"
  by (cases xs rule: remdups_adj.cases) (simp_all add: quote_string_def)

lemma parse_stringify: "parse_string_array (stringify_strings xs) = Some xs"
proof (cases "xs = []")
  case True
  then show ?thesis by (simp add: stringify_strings_def parse_string_array_def skip_space_other not_json_space)
      (simp add: skip_space_def)
next
  case False
  obtain cs where cs: "join_comma (map quote_string xs) @ [0x5d] = 0x22 # cs"
    using join_quote_hd[OF False, of "[0x5d]"] by blast
  have "skip_space [] = []" by (simp add: skip_space_def)
  with parse_elements_join[OF False, of "[]"] cs show ?thesis
    by (simp add: stringify_strings_def parse_string_array_def skip_space_other not_json_space)
qed

lemma stringify_strings_inj [simp]: "stringify_strings xs = stringify_strings ys \<longleftrightarrow> xs = ys"
  by (metis parse_stringify option.inject)

end
