(* ===== verification/Sdk_Subscriptions.thy ===== *)
theory Sdk_Subscriptions
  imports Json Json_Text
begin

text \<open>
  Resources, events and subscription filters of the SDK:
  \<^verbatim>\<open>packages/sdk/src/subscriptions.ts\<close>, \<^verbatim>\<open>resource-id.ts\<close> and the types of \<^verbatim>\<open>types.ts\<close> that they use. A resource
  keeps the fields the SDK reads (its id, the creation instant and version of its metadata, the asset of
  a task); the remaining fields are one JSON value. Identifiers that an error message quotes are left out of the
  message.
\<close>

section \<open>Definitions\<close>

datatype resource_type = EntityType | TaskType | ObjectType

record metadata_block =
  created_at :: jstring
  metadata_version :: int

datatype resource_value =
    is_EntityResource: EntityResource (entity_id: jstring) metadata_block json
  | is_TaskResource: TaskResource (task_id: jstring) (task_asset_id: jstring) json
  | is_ObjectResource: ObjectResource (object_id: jstring) metadata_block json

text \<open>\<^verbatim>\<open>"metadata" in resource\<close> and its value: tasks have no metadata block.\<close>

fun resource_metadata :: "resource_value \<Rightarrow> metadata_block option" where
  "resource_metadata (EntityResource _ m _) = Some m"
| "resource_metadata (TaskResource _ _ _) = None"
| "resource_metadata (ObjectResource _ m _) = Some m"

datatype upsert_name = CreateEvent | UpdateEvent

record upsert_event =
  event :: upsert_name
  event_type :: resource_type
  event_id :: jstring
  event_version :: int
  event_resource :: resource_value

datatype feed_event =
    Upsert upsert_event
  | Delete resource_type jstring int

datatype watch_event =
    Feed feed_event
  | LocalDelete resource_type jstring "int option"

datatype subscription =
    AllFilter
  | IdFilter resource_type jstring
  | TypeFilter resource_type
  | TasksForAssetFilter jstring

fun type_text :: "resource_type \<Rightarrow> string" where
  "type_text EntityType = ''entity''"
| "type_text TaskType = ''task''"
| "type_text ObjectType = ''object''"

definition isResourceType :: "jstring \<Rightarrow> resource_type option" where
  "isResourceType s =
     (if s = js_lit ''entity'' then Some EntityType else if s = js_lit ''task'' then Some TaskType
      else if s = js_lit ''object'' then Some ObjectType else None)"

definition normalizeResourceID :: "string \<Rightarrow> jstring \<Rightarrow> jstring result" where
  "normalizeResourceID name v =
     (let normalized = js_trim v
      in if normalized = [] then Inl (TypeError (name @ '' must not be empty'')) else Inr normalized)"

fun normalizeSubscription :: "subscription \<Rightarrow> subscription result" where
  "normalizeSubscription AllFilter = Inr AllFilter"
| "normalizeSubscription (TypeFilter t) = Inr (TypeFilter t)"
| "normalizeSubscription (IdFilter t i) =
     bind_result (normalizeResourceID (type_text t @ ''_id'') i) (\<lambda>n. Inr (IdFilter t n))"
| "normalizeSubscription (TasksForAssetFilter a) =
     bind_result (normalizeResourceID ''asset_id'' a) (\<lambda>n. Inr (TasksForAssetFilter n))"

datatype subscription_action = Subscribe | Unsubscribe

definition subscriptionMessage :: "subscription_action \<Rightarrow> subscription \<Rightarrow> (subscription_action \<times> subscription) result" where
  "subscriptionMessage act f = bind_result (normalizeSubscription f) (\<lambda>n. Inr (act, n))"

fun filter_parts :: "subscription \<Rightarrow> jstring list" where
  "filter_parts AllFilter = [js_lit ''all'']"
| "filter_parts (IdFilter t i) = [js_lit ''id'', js_lit (type_text t), i]"
| "filter_parts (TypeFilter t) = [js_lit ''type'', js_lit (type_text t)]"
| "filter_parts (TasksForAssetFilter a) = [js_lit ''tasks_for_asset'', a]"

definition subscriptionKey :: "subscription \<Rightarrow> jstring result" where
  "subscriptionKey f = bind_result (normalizeSubscription f) (\<lambda>n. Inr (stringify_strings (filter_parts n)))"

definition invalid_key :: js_error where
  "invalid_key = PlainError ''invalid subscription key''"

definition parseSubscriptionKey :: "jstring \<Rightarrow> subscription result" where
  "parseSubscriptionKey key =
     (case parse_string_array key of
        Some [kind] \<Rightarrow> if kind = js_lit ''all'' then Inr AllFilter else Inl invalid_key
      | Some [kind, resourceType] \<Rightarrow>
          if kind = js_lit ''type'' \<and> isResourceType resourceType \<noteq> None
          then Inr (TypeFilter (the (isResourceType resourceType)))
          else if kind = js_lit ''tasks_for_asset'' \<and> js_trim resourceType \<noteq> []
          then Inr (TasksForAssetFilter (js_trim resourceType))
          else Inl invalid_key
      | Some [kind, resourceType, i] \<Rightarrow>
          if kind = js_lit ''id'' \<and> isResourceType resourceType \<noteq> None \<and> js_trim i \<noteq> []
          then Inr (IdFilter (the (isResourceType resourceType)) (js_trim i))
          else Inl invalid_key
      | _ \<Rightarrow> Inl invalid_key)"

definition covers :: "subscription \<Rightarrow> subscription \<Rightarrow> bool result" where
  "covers covering wanted =
     (case (covering, wanted) of
        (AllFilter, _) \<Rightarrow> Inr True
      | (TypeFilter t, IdFilter t' _) \<Rightarrow> Inr (t = t')
      | _ \<Rightarrow> bind_result (subscriptionKey covering) (\<lambda>a. bind_result (subscriptionKey wanted) (\<lambda>b. Inr (a = b))))"

fun watch_type :: "watch_event \<Rightarrow> resource_type" where
  "watch_type (Feed (Upsert e)) = event_type e"
| "watch_type (Feed (Delete t _ _)) = t"
| "watch_type (LocalDelete t _ _) = t"

fun watch_id :: "watch_event \<Rightarrow> jstring" where
  "watch_id (Feed (Upsert e)) = event_id e"
| "watch_id (Feed (Delete _ i _)) = i"
| "watch_id (LocalDelete _ i _) = i"

text \<open>\<^verbatim>\<open>event.resource.asset_id\<close>\<close>

fun watch_asset :: "watch_event \<Rightarrow> jstring option" where
  "watch_asset (Feed (Upsert e)) = (case event_resource e of TaskResource _ a _ \<Rightarrow> Some a | _ \<Rightarrow> None)"
| "watch_asset _ = None"

definition matchesSubscription :: "subscription \<Rightarrow> watch_event \<Rightarrow> bool result" where
  "matchesSubscription f ev =
     bind_result (normalizeSubscription f) (\<lambda>normalized. case normalized of
         AllFilter \<Rightarrow> Inr True
       | IdFilter t i \<Rightarrow> Inr (watch_type ev = t \<and> watch_id ev = i)
       | TypeFilter t \<Rightarrow> Inr (watch_type ev = t)
       | TasksForAssetFilter a \<Rightarrow>
           if watch_type ev \<noteq> TaskType then Inr False else Inr (watch_asset ev = Some a))"

fun resourceMatchesType :: "resource_type \<Rightarrow> resource_value \<Rightarrow> bool" where
  "resourceMatchesType EntityType r = is_EntityResource r"
| "resourceMatchesType TaskType r = is_TaskResource r"
| "resourceMatchesType ObjectType r = is_ObjectResource r"

fun resourceTypeName :: "resource_value \<Rightarrow> resource_type" where
  "resourceTypeName (TaskResource _ _ _) = TaskType"
| "resourceTypeName (ObjectResource _ _ _) = ObjectType"
| "resourceTypeName (EntityResource _ _ _) = EntityType"

definition assertResourceMatchesType :: "resource_type \<Rightarrow> resource_value \<Rightarrow> unit result" where
  "assertResourceMatchesType t r =
     (if \<not> resourceMatchesType t r
      then Inl (TypeError (''Atlas '' @ type_text (resourceTypeName r) @ '' resource cannot be used as '' @ type_text t))
      else Inr ())"

definition resourceID :: "resource_type \<Rightarrow> resource_value \<Rightarrow> jstring result" where
  "resourceID t r = bind_result (assertResourceMatchesType t r)
     (\<lambda>_. Inr (case t of EntityType \<Rightarrow> entity_id r | TaskType \<Rightarrow> task_id r | ObjectType \<Rightarrow> object_id r))"

definition resourceCacheKey :: "resource_type \<Rightarrow> jstring \<Rightarrow> jstring result" where
  "resourceCacheKey t i =
     (if i = [] \<or> js_trim i \<noteq> i then Inl (TypeError (''Atlas '' @ type_text t @ ''_id must be canonical''))
      else Inr (stringify_strings [js_lit (type_text t), i]))"

definition localDeleteEvent :: "resource_type \<Rightarrow> jstring \<Rightarrow> int \<Rightarrow> watch_event" where
  "localDeleteEvent t i previousVersion =
     LocalDelete t i (if previousVersion > 0 then Some previousVersion else None)"

definition resourceUpsertEvent ::
    "resource_type \<Rightarrow> upsert_name \<Rightarrow> jstring \<Rightarrow> int \<Rightarrow> resource_value \<Rightarrow> upsert_event result" where
  "resourceUpsertEvent t ev i v r =
     bind_result (resourceID t r) (\<lambda>actualID.
       if actualID \<noteq> i then Inl (TypeError (''Atlas '' @ type_text t @ '' resource id does not match event id''))
       else bind_result (assertResourceMatchesType t r) (\<lambda>_.
         Inr \<lparr>event = ev, event_type = t, event_id = i, event_version = v, event_resource = r\<rparr>))"

fun assertResourceMatchesSubscription :: "subscription \<Rightarrow> resource_value \<Rightarrow> unit result" where
  "assertResourceMatchesSubscription AllFilter r = Inr ()"
| "assertResourceMatchesSubscription (TasksForAssetFilter _) r = assertResourceMatchesType TaskType r"
| "assertResourceMatchesSubscription (IdFilter t _) r = assertResourceMatchesType t r"
| "assertResourceMatchesSubscription (TypeFilter t) r = assertResourceMatchesType t r"

section \<open>Keys and filters\<close>

lemma isResourceType_text [simp]: "isResourceType (js_lit (type_text t)) = Some t"
  by (cases t) (simp_all add: isResourceType_def)

lemma type_text_inj [simp]: "type_text t = type_text t' \<longleftrightarrow> t = t'"
  by (cases t; cases t') simp_all

lemma filter_parts_inj: "filter_parts f = filter_parts g \<Longrightarrow> f = g"
  by (cases f; cases g) auto

text \<open>A normalized filter is a fixed point of normalization.\<close>

lemma normalize_trimmed:
  "normalizeSubscription f = Inr n \<Longrightarrow>
     (case n of IdFilter _ i \<Rightarrow> i \<noteq> [] \<and> js_trim i = i | TasksForAssetFilter a \<Rightarrow> a \<noteq> [] \<and> js_trim a = a | _ \<Rightarrow> True)"
  by (cases f) (auto simp: normalizeResourceID_def Let_def bind_result_eq_Inr split: if_splits)

lemma normalize_idem: "normalizeSubscription f = Inr n \<Longrightarrow> normalizeSubscription n = Inr n"
  using normalize_trimmed[of f n] by (cases n) (auto simp: normalizeResourceID_def)

lemma parse_filter_parts:
  assumes "normalizeSubscription f = Inr n"
  shows "parseSubscriptionKey (stringify_strings (filter_parts n)) = Inr n"
  using normalize_trimmed[OF assms] by (cases n) (auto simp: parseSubscriptionKey_def parse_stringify)

text \<open>C34: the key of a subscription filter, as the watcher map of the sync engine keeps it, is parsed back to the
  normalized filter; a filter that has no normal form has no key and the error is the same.\<close>

theorem subscription_key_roundtrip:
  "bind_result (subscriptionKey f) parseSubscriptionKey = normalizeSubscription f"
  by (cases "normalizeSubscription f") (simp_all add: subscriptionKey_def parse_filter_parts)

lemma subscriptionKey_eq:
  assumes "subscriptionKey f = Inr k" "subscriptionKey g = Inr k"
  shows "\<exists>n. normalizeSubscription f = Inr n \<and> normalizeSubscription g = Inr n"
  using assms by (auto simp: subscriptionKey_def bind_result_eq_Inr dest: filter_parts_inj)

lemma covers_cases:
  assumes "covers a b = Inr True"
  obtains (all) "a = AllFilter"
    | (type) t i where "a = TypeFilter t" "b = IdFilter t i"
    | (same) n where "normalizeSubscription a = Inr n" "normalizeSubscription b = Inr n"
proof -
  have "a = AllFilter \<or> (\<exists>t i. a = TypeFilter t \<and> b = IdFilter t i) \<or>
      (\<exists>k. subscriptionKey a = Inr k \<and> subscriptionKey b = Inr k)"
    using assms by (cases a; cases b) (auto simp: covers_def bind_result_eq_Inr)
  then show thesis using that by (blast dest: subscriptionKey_eq)
qed

text \<open>C35: covering is sound: when one subscription covers another, every watch event that matches the covered
  filter matches the covering one, so that the cache may serve the covered filter from its feed.\<close>

theorem covers_sound:
  assumes "covers a b = Inr True" "matchesSubscription b ev = Inr True"
  shows "matchesSubscription a ev = Inr True"
  using assms(1)
proof (cases rule: covers_cases)
  case (type t i)
  then show ?thesis using assms(2) by (auto simp: matchesSubscription_def bind_result_eq_Inr)
next
  case (same n)
  then show ?thesis using assms(2) by (simp add: matchesSubscription_def)
qed (simp add: matchesSubscription_def)

theorem covers_sound_witness:
  "covers (TypeFilter EntityType) (IdFilter EntityType (js_lit '' asset-1 '')) = Inr True \<and>
   matchesSubscription (IdFilter EntityType (js_lit '' asset-1 '')) (LocalDelete EntityType (js_lit ''asset-1'') None) = Inr True \<and>
   matchesSubscription (TypeFilter EntityType) (LocalDelete EntityType (js_lit ''asset-1'') None) = Inr True"
proof -
  have c: "covers (TypeFilter EntityType) (IdFilter EntityType (js_lit '' asset-1 '')) = Inr True" by (simp add: covers_def)
  moreover have m: "matchesSubscription (IdFilter EntityType (js_lit '' asset-1 ''))
      (LocalDelete EntityType (js_lit ''asset-1'') None) = Inr True" by code_simp
  ultimately show ?thesis using covers_sound[OF c m] by simp
qed

text \<open>Cache keys of different resources differ.\<close>

lemma resourceCacheKey_inj:
  "resourceCacheKey t i = Inr k \<Longrightarrow> resourceCacheKey t' i' = Inr k \<longleftrightarrow> t' = t \<and> i' = i"
  by (auto simp: resourceCacheKey_def split: if_splits)

end
