(* ===== verification/Sdk_Cache.thy ===== *)
theory Sdk_Cache
  imports Sdk_Subscriptions Interfaces
begin

text \<open>
  The local resource cache of the SDK, \<^verbatim>\<open>packages/sdk/src/cache.ts\<close>. \<open>resource_cache\<close> has the fields of
  \<^verbatim>\<open>ResourceCache\<close>; its maps and sets are insertion-ordered lists. Cache entries are immutable objects compared by
  identity: every entry carries the reference it was allocated with (\<open>entry_ref\<close>). Local delete operations are
  mutable objects that the cache and its caller share: they live in \<open>delete_objects\<close> and are
  passed by reference. Every method is one function on the cache that returns what the method returns or throws and
  the cache as the method leaves it. \<^verbatim>\<open>immutableClone\<close> is the identity on plain JSON values.
\<close>

section \<open>Definitions\<close>

subsection \<open>Object contents\<close>

record content_cache =
  maxEntries :: nat
  contents :: "(jstring, bytes) js_map"

definition new_content_cache :: "int \<Rightarrow> content_cache result" where
  "new_content_cache limit =
     (if \<not> is_safe_integer limit \<or> limit \<le> 0
      then Inl (TypeError ''objectContentCacheEntries must be a positive safe integer'')
      else Inr \<lparr>maxEntries = nat limit, contents = []\<rparr>)"

definition content_get :: "jstring \<Rightarrow> content_cache \<Rightarrow> bytes option \<times> content_cache" where
  "content_get key cc =
     (case js_get (contents cc) key of
        None \<Rightarrow> (None, cc)
      | Some v \<Rightarrow> (Some v, cc\<lparr>contents := js_set key v (js_delete key (contents cc))\<rparr>))"

definition content_set :: "jstring \<Rightarrow> bytes \<Rightarrow> content_cache \<Rightarrow> content_cache" where
  "content_set key v cc =
     cc\<lparr>contents := evict_oldest (maxEntries cc) (js_set key v (js_delete key (contents cc)))\<rparr>"

subsection \<open>Cached resources\<close>

record cache_entry =
  entry_ref :: nat
  entry_value :: "resource_value option"
  entry_version :: int
  deleted :: bool
  detail :: bool

record read_options =
  opt_detail :: bool
  opt_version :: "int option"
  replaceSameVersion :: bool
  opt_generation :: "nat option"

definition no_options :: read_options where
  "no_options = \<lparr>opt_detail = False, opt_version = None, replaceSameVersion = False, opt_generation = None\<rparr>"

record point_read =
  read_type :: resource_type
  read_id :: jstring
  read_generation :: nat
  read_epoch :: nat
  read_sequence :: nat
  read_observed :: "cache_entry option"

datatype point_status = Pending | Succeeded | Failed | NotFound

record point_state =
  state_sequence :: nat
  status :: point_status

record local_delete =
  delete_type :: resource_type
  delete_id :: jstring
  observedEntry :: "cache_entry option"
  learnedEntry :: "cache_entry option"
  recreated :: bool
  reconcile :: bool
  remote :: bool

datatype delete_outcome = DeletedOutcome | NotFoundOutcome

record resource_change =
  change_event :: watch_event
  change_resource :: "resource_value option"

record snapshot_record =
  record_entries :: "(jstring, resource_value) js_map"
  record_value :: "(jstring, resource_value) js_map"
  dirty :: bool

record sync_snapshot =
  snapshot_entities :: "(jstring, resource_value) js_map"
  snapshot_tasks :: "(jstring, resource_value) js_map"
  snapshot_objects :: "(jstring, resource_value) js_map"

record resource_cache =
  entries :: "resource_type \<Rightarrow> (jstring, cache_entry) js_map"
  pendingDeletes :: "jstring list"
  localDeleteKeys :: "jstring list"
  localDeleteInstances :: "(jstring, jstring) js_map"
  locallyNotifiedDeletes :: "jstring list"
  localDeleteOperations :: "nat list"
  delete_objects :: "(nat, local_delete) js_map"
  generations :: "(jstring, nat) js_map"
  pointReadStates :: "(jstring, point_state) js_map"
  deferredPointNotFound :: "(jstring, point_read) js_map"
  hydrationEpoch :: nat
  snapshotRecords :: "resource_type \<Rightarrow> snapshot_record"
  snapshotValue :: sync_snapshot
  snapshotDirty :: bool
  next_ref :: nat

subsection \<open>Snapshot records\<close>

definition record_set :: "jstring \<Rightarrow> resource_value \<Rightarrow> snapshot_record \<Rightarrow> snapshot_record" where
  "record_set i v r = r\<lparr>record_entries := js_set i v (record_entries r), dirty := True\<rparr>"

definition record_remove :: "jstring \<Rightarrow> snapshot_record \<Rightarrow> bool \<times> snapshot_record" where
  "record_remove i r =
     (if \<not> js_has (record_entries r) i then (False, r)
      else (True, r\<lparr>record_entries := js_delete i (record_entries r), dirty := True\<rparr>))"

definition record_clear :: "snapshot_record \<Rightarrow> snapshot_record" where
  "record_clear r = r\<lparr>record_entries := [], dirty := True\<rparr>"

definition record_snapshot :: "snapshot_record \<Rightarrow> (jstring, resource_value) js_map \<times> snapshot_record" where
  "record_snapshot r =
     (let r' = (if dirty r then r\<lparr>record_value := record_entries r, dirty := False\<rparr> else r)
      in (record_value r', r'))"

definition snapshotFromRecords ::
    "(resource_type \<Rightarrow> snapshot_record) \<Rightarrow> sync_snapshot \<times> (resource_type \<Rightarrow> snapshot_record)" where
  "snapshotFromRecords records =
     (let (es, e') = record_snapshot (records EntityType);
          (ts, t') = record_snapshot (records TaskType);
          (os, o') = record_snapshot (records ObjectType)
      in (\<lparr>snapshot_entities = es, snapshot_tasks = ts, snapshot_objects = os\<rparr>,
          records(EntityType := e', TaskType := t', ObjectType := o')))"

definition new_cache :: resource_cache where
  "new_cache =
     \<lparr>entries = (\<lambda>_. []), pendingDeletes = [], localDeleteKeys = [], localDeleteInstances = [],
      locallyNotifiedDeletes = [], localDeleteOperations = [], delete_objects = [], generations = [],
      pointReadStates = [], deferredPointNotFound = [], hydrationEpoch = 0,
      snapshotRecords = (\<lambda>_. \<lparr>record_entries = [], record_value = [], dirty = False\<rparr>),
      snapshotValue = fst (snapshotFromRecords (\<lambda>_. \<lparr>record_entries = [], record_value = [], dirty = False\<rparr>)),
      snapshotDirty = False, next_ref = 0\<rparr>"

definition snapshot :: "resource_cache \<Rightarrow> sync_snapshot \<times> resource_cache" where
  "snapshot c =
     (let c' = (if snapshotDirty c
                then let (v, records) = snapshotFromRecords (snapshotRecords c)
                     in c\<lparr>snapshotRecords := records, snapshotValue := v, snapshotDirty := False\<rparr>
                else c)
      in (snapshotValue c', c'))"

definition updateSnapshot :: "resource_type \<Rightarrow> jstring \<Rightarrow> resource_value \<Rightarrow> resource_cache \<Rightarrow> resource_cache" where
  "updateSnapshot t i v c =
     c\<lparr>snapshotRecords := (snapshotRecords c)(t := record_set i v (snapshotRecords c t)), snapshotDirty := True\<rparr>"

definition removeFromSnapshot :: "resource_type \<Rightarrow> jstring \<Rightarrow> resource_cache \<Rightarrow> resource_cache" where
  "removeFromSnapshot t i c =
     (let (removed, r) = record_remove i (snapshotRecords c t);
          c' = c\<lparr>snapshotRecords := (snapshotRecords c)(t := r)\<rparr>
      in if removed then c'\<lparr>snapshotDirty := True\<rparr> else c')"

subsection \<open>Reads\<close>

definition cache_value :: "resource_type \<Rightarrow> jstring \<Rightarrow> resource_cache \<Rightarrow> resource_value option" where
  "cache_value t i c =
     (case js_get (entries c t) i of
        None \<Rightarrow> None
      | Some entry \<Rightarrow> if \<not> deleted entry then entry_value entry else None)"

definition objectDetail ::
    "(resource_value \<Rightarrow> bool) \<Rightarrow> jstring \<Rightarrow> resource_cache \<Rightarrow> resource_value option" where
  "objectDetail isObjectDetailResource i c =
     (case js_get (entries c ObjectType) i of
        None \<Rightarrow> None
      | Some entry \<Rightarrow>
          (case entry_value entry of
             None \<Rightarrow> None
           | Some v \<Rightarrow> if detail entry \<and> \<not> deleted entry \<and> isObjectDetailResource v then Some v else None))"

definition versionFor :: "resource_type \<Rightarrow> jstring \<Rightarrow> resource_cache \<Rightarrow> int" where
  "versionFor t i c = (case js_get (entries c t) i of None \<Rightarrow> 0 | Some e \<Rightarrow> entry_version e)"

definition generation :: "resource_type \<Rightarrow> jstring \<Rightarrow> resource_cache \<Rightarrow> nat result" where
  "generation t i c =
     bind_result (resourceCacheKey t i)
       (\<lambda>key. Inr (case js_get (generations c) key of None \<Rightarrow> 0 | Some g \<Rightarrow> g))"

definition bumpGeneration :: "resource_type \<Rightarrow> jstring \<Rightarrow> resource_cache \<Rightarrow> (resource_cache, unit) effect" where
  "bumpGeneration t i c =
     then_do (resourceCacheKey t i, c) (\<lambda>key c.
       then_do (generation t i c, c) (\<lambda>g c.
         (Inr (), c\<lparr>generations := js_set key (g + 1) (generations c)\<rparr>)))"

definition sameResourceInstance :: "resource_value option \<Rightarrow> resource_value option \<Rightarrow> bool" where
  "sameResourceInstance observed current =
     (case (Option.bind observed resource_metadata, Option.bind current resource_metadata) of
        (Some m, Some m') \<Rightarrow> created_at m = created_at m'
      | _ \<Rightarrow> False)"

definition embeddedResourceVersion :: "resource_type \<Rightarrow> resource_value \<Rightarrow> int" where
  "embeddedResourceVersion t v =
     (if t = TaskType then 0 else case resource_metadata v of None \<Rightarrow> 0 | Some m \<Rightarrow> metadata_version m)"

text \<open>\<^verbatim>\<open>a !== b\<close> on two entries, and the value behind an optional entry\<close>

definition same_entry :: "cache_entry option \<Rightarrow> cache_entry option \<Rightarrow> bool" where
  "same_entry a b \<longleftrightarrow> map_option entry_ref a = map_option entry_ref b"

definition value_of :: "cache_entry option \<Rightarrow> resource_value option" where
  "value_of e = Option.bind e entry_value"

definition is_deleted :: "cache_entry option \<Rightarrow> bool" where
  "is_deleted e = (case e of None \<Rightarrow> False | Some x \<Rightarrow> deleted x)"

subsection \<open>Accepting a resource\<close>

definition delete_object :: "resource_cache \<Rightarrow> nat \<Rightarrow> local_delete option" where
  "delete_object c h = js_get (delete_objects c) h"

text \<open>The loops over \<^verbatim>\<open>localDeleteOperations\<close> that update the operations of one resource.\<close>

definition update_operations ::
    "(local_delete \<Rightarrow> bool) \<Rightarrow> (local_delete \<Rightarrow> local_delete) \<Rightarrow> resource_cache \<Rightarrow> resource_cache" where
  "update_operations P f c =
     c\<lparr>delete_objects := map (\<lambda>(h, d). (h, if h \<in> set (localDeleteOperations c) \<and> P d then f d else d))
         (delete_objects c)\<rparr>"

definition for_resource :: "resource_type \<Rightarrow> jstring \<Rightarrow> local_delete \<Rightarrow> bool" where
  "for_resource t i d \<longleftrightarrow> delete_type d = t \<and> delete_id d = i"

definition blocks_read :: "resource_type \<Rightarrow> jstring \<Rightarrow> resource_value \<Rightarrow> resource_cache \<Rightarrow> nat \<Rightarrow> bool" where
  "blocks_read t i v c h =
     (case delete_object c h of
        None \<Rightarrow> False
      | Some d \<Rightarrow> for_resource t i d \<and>
          (observedEntry d = None \<or> sameResourceInstance (value_of (observedEntry d)) (Some v)))"

definition store_resource ::
    "resource_type \<Rightarrow> jstring \<Rightarrow> resource_value \<Rightarrow> read_options \<Rightarrow> resource_cache \<Rightarrow> (resource_cache, bool) effect" where
  "store_resource t i v opts c =
     (let version = (case opt_version opts of None \<Rightarrow> embeddedResourceVersion t v | Some n \<Rightarrow> n);
          existing = js_get (entries c t) i;
          isDetailUpgrade = (t = ObjectType \<and> opt_detail opts \<and>
            (case existing of None \<Rightarrow> False
             | Some e \<Rightarrow> entry_version e = version \<and> \<not> deleted e \<and> \<not> detail e))
      in if (case existing of None \<Rightarrow> False | Some e \<Rightarrow> entry_version e > version) then (Inr False, c)
         else if (case existing of None \<Rightarrow> False | Some e \<Rightarrow> entry_version e = version) \<and>
                 \<not> isDetailUpgrade \<and> \<not> replaceSameVersion opts then (Inr False, c)
         else then_do (resourceCacheKey t i, c) (\<lambda>key c.
           let c' = updateSnapshot t i v c;
               entry = \<lparr>entry_ref = next_ref c', entry_value = Some v, entry_version = version, deleted = False,
                        detail = (t = ObjectType \<and> opt_detail opts)\<rparr>
           in (Inr True,
               c'\<lparr>pendingDeletes := removeAll key (pendingDeletes c'),
                  locallyNotifiedDeletes := removeAll key (locallyNotifiedDeletes c'),
                  entries := (entries c')(t := js_set i entry (entries c' t)),
                  next_ref := next_ref c' + 1\<rparr>)))"

definition acceptResource ::
    "resource_type \<Rightarrow> jstring \<Rightarrow> resource_value \<Rightarrow> read_options \<Rightarrow> resource_cache \<Rightarrow> (resource_cache, bool) effect" where
  "acceptResource t i v opts c =
     then_do (resourceID t v, c) (\<lambda>actualID c.
       if actualID \<noteq> i
       then (Inl (TypeError (''Atlas '' @ type_text t @ '' resource id does not match cache id'')), c)
       else (case opt_generation opts of
           None \<Rightarrow> store_resource t i v opts c
         | Some expected \<Rightarrow>
             then_do (generation t i c, c) (\<lambda>current c.
               if current \<noteq> expected then (Inr False, c)
               else if \<exists>h \<in> set (localDeleteOperations c). blocks_read t i v c h
               then (Inr False,
                 update_operations (\<lambda>d. for_resource t i d \<and> observedEntry d = None) (\<lambda>d. d\<lparr>reconcile := True\<rparr>) c)
               else store_resource t i v opts c)))"

definition markRemoteDelete ::
    "resource_type \<Rightarrow> jstring \<Rightarrow> int \<Rightarrow> bool \<Rightarrow> resource_cache \<Rightarrow> (resource_cache, unit) effect" where
  "markRemoteDelete t i version notify c =
     then_do (bumpGeneration t i c) (\<lambda>_ c.
       let c1 = update_operations (\<lambda>d. notify \<and> for_resource t i d) (\<lambda>d. d\<lparr>remote := True\<rparr>) c;
           entry = \<lparr>entry_ref = next_ref c1, entry_value = None, entry_version = version, deleted = True, detail = False\<rparr>
       in (Inr (), removeFromSnapshot t i
             (c1\<lparr>entries := (entries c1)(t := js_set i entry (entries c1 t)), next_ref := next_ref c1 + 1\<rparr>)))"

subsection \<open>Point reads\<close>

definition beginPointRead :: "resource_type \<Rightarrow> jstring \<Rightarrow> resource_cache \<Rightarrow> (resource_cache, point_read) effect" where
  "beginPointRead t i c =
     then_do (resourceCacheKey t i, c) (\<lambda>key c.
       let sequence = (case js_get (pointReadStates c) key of None \<Rightarrow> 0 | Some s \<Rightarrow> state_sequence s) + 1;
           c' = c\<lparr>pointReadStates := js_set key \<lparr>state_sequence = sequence, status = Pending\<rparr> (pointReadStates c)\<rparr>
       in then_do (generation t i c', c') (\<lambda>g c'.
            (Inr \<lparr>read_type = t, read_id = i, read_generation = g, read_epoch = hydrationEpoch c',
                  read_sequence = sequence, read_observed = js_get (entries c' t) i\<rparr>, c')))"

definition settlePointRead :: "point_read \<Rightarrow> point_status \<Rightarrow> resource_cache \<Rightarrow> (resource_cache, unit) effect" where
  "settlePointRead operation st c =
     then_do (resourceCacheKey (read_type operation) (read_id operation), c) (\<lambda>key c.
       (case js_get (pointReadStates c) key of
          None \<Rightarrow> (Inr (), c)
        | Some latest \<Rightarrow>
            if state_sequence latest \<noteq> read_sequence operation then (Inr (), c)
            else (Inr (), c\<lparr>pointReadStates := js_set key (latest\<lparr>status := st\<rparr>) (pointReadStates c),
                            deferredPointNotFound := js_delete key (deferredPointNotFound c)\<rparr>)))"

definition applyPointRead ::
    "point_read \<Rightarrow> resource_value \<Rightarrow> read_options \<Rightarrow> resource_cache \<Rightarrow> (resource_cache, bool) effect" where
  "applyPointRead operation v opts c =
     (if read_epoch operation \<noteq> hydrationEpoch c then (Inr False, c)
      else then_do (settlePointRead operation Succeeded c) (\<lambda>_ c.
        acceptResource (read_type operation) (read_id operation) v
          (opts\<lparr>opt_generation := Some (read_generation operation)\<rparr>) c))"

definition applyPointNotFoundNow :: "point_read \<Rightarrow> resource_cache \<Rightarrow> (resource_cache, bool) effect" where
  "applyPointNotFoundNow operation c =
     (let t = read_type operation; i = read_id operation;
          currentEntry = js_get (entries c t) i
      in if \<not> same_entry currentEntry (read_observed operation) \<or> is_deleted currentEntry then (Inr False, c)
         else then_do (bumpGeneration t i c) (\<lambda>_ c.
           then_do (markRemoteDelete t i (case currentEntry of None \<Rightarrow> 0 | Some e \<Rightarrow> entry_version e) False c) (\<lambda>_ c.
             then_do (resourceCacheKey t i, c) (\<lambda>key c.
               (Inr True, c\<lparr>pendingDeletes := set_add key (pendingDeletes c)\<rparr>)))))"

definition applyPointNotFound :: "point_read \<Rightarrow> resource_cache \<Rightarrow> (resource_cache, bool) effect" where
  "applyPointNotFound operation c =
     (if read_epoch operation \<noteq> hydrationEpoch c then (Inr False, c)
      else then_do (resourceCacheKey (read_type operation) (read_id operation), c) (\<lambda>key c.
        (case js_get (pointReadStates c) key of
           Some latest \<Rightarrow>
             if read_sequence operation < state_sequence latest then
               let c' = (if status latest = Pending
                         then c\<lparr>deferredPointNotFound := js_set key operation (deferredPointNotFound c)\<rparr> else c)
               in if status latest = Failed then applyPointNotFoundNow operation c' else (Inr False, c')
             else then_do (settlePointRead operation NotFound c) (\<lambda>_ c. applyPointNotFoundNow operation c)
         | None \<Rightarrow> then_do (settlePointRead operation NotFound c) (\<lambda>_ c. applyPointNotFoundNow operation c))))"

definition completePointRead :: "point_read \<Rightarrow> resource_cache \<Rightarrow> (resource_cache, bool) effect" where
  "completePointRead operation c =
     (if read_epoch operation \<noteq> hydrationEpoch c then (Inr False, c)
      else then_do (resourceCacheKey (read_type operation) (read_id operation), c) (\<lambda>key c.
        (case js_get (pointReadStates c) key of
           None \<Rightarrow> (Inr False, c)
         | Some latest \<Rightarrow>
             if state_sequence latest \<noteq> read_sequence operation \<or> status latest \<noteq> Pending then (Inr False, c)
             else
               let c1 = c\<lparr>pointReadStates := js_set key (latest\<lparr>status := Failed\<rparr>) (pointReadStates c)\<rparr>
               in (case js_get (deferredPointNotFound c1) key of
                     None \<Rightarrow> (Inr False, c1)
                   | Some deferred \<Rightarrow>
                       applyPointNotFoundNow deferred
                         (c1\<lparr>deferredPointNotFound := js_delete key (deferredPointNotFound c1)\<rparr>)))))"

subsection \<open>Writes and feed events\<close>

definition changeForUpsert :: "upsert_event \<Rightarrow> resource_cache \<Rightarrow> resource_change" where
  "changeForUpsert ev c =
     (let r = cache_value (event_type ev) (event_id ev) c
      in \<lparr>change_event = Feed (Upsert (ev\<lparr>event_resource := (case r of None \<Rightarrow> event_resource ev | Some x \<Rightarrow> x)\<rparr>)),
          change_resource = r\<rparr>)"

definition isReplacementAfterLocalDelete :: "upsert_event \<Rightarrow> resource_cache \<Rightarrow> bool result" where
  "isReplacementAfterLocalDelete ev c =
     (if event ev \<noteq> UpdateEvent then Inr False
      else bind_result (resourceCacheKey (event_type ev) (event_id ev)) (\<lambda>key.
        Inr (case js_get (localDeleteInstances c) key of
               None \<Rightarrow> False
             | Some deletedInstance \<Rightarrow>
                 (case resource_metadata (event_resource ev) of
                    None \<Rightarrow> False
                  | Some m \<Rightarrow> created_at m \<noteq> deletedInstance))))"

definition isSuppressedByPendingDelete :: "upsert_event \<Rightarrow> resource_cache \<Rightarrow> bool result" where
  "isSuppressedByPendingDelete ev c =
     (if event ev \<noteq> UpdateEvent then Inr False
      else bind_result (resourceCacheKey (event_type ev) (event_id ev)) (\<lambda>key. Inr (key \<in> set (pendingDeletes c))))"

definition isSuppressedByLocalDelete :: "upsert_event \<Rightarrow> resource_cache \<Rightarrow> bool result" where
  "isSuppressedByLocalDelete ev c =
     (if event ev \<noteq> UpdateEvent then Inr False
      else bind_result (resourceCacheKey (event_type ev) (event_id ev)) (\<lambda>key.
        if key \<notin> set (localDeleteKeys c) then Inr False
        else bind_result (isReplacementAfterLocalDelete ev c) (\<lambda>replacement. Inr (\<not> replacement))))"

definition clearLocalDeleteMarker :: "resource_type \<Rightarrow> jstring \<Rightarrow> resource_cache \<Rightarrow> (resource_cache, unit) effect" where
  "clearLocalDeleteMarker t i c =
     then_do (resourceCacheKey t i, c) (\<lambda>key c.
       (Inr (), c\<lparr>localDeleteKeys := removeAll key (localDeleteKeys c),
                  localDeleteInstances := js_delete key (localDeleteInstances c)\<rparr>))"

definition noteLocalDeleteUpsert :: "resource_type \<Rightarrow> jstring \<Rightarrow> upsert_name \<Rightarrow> resource_cache \<Rightarrow> resource_cache" where
  "noteLocalDeleteUpsert t i ev c =
     (let currentEntry = js_get (entries c t) i
      in update_operations (for_resource t i)
           (\<lambda>d. if ev = CreateEvent then d\<lparr>recreated := True\<rparr>
                else if observedEntry d = None \<and> currentEntry \<noteq> None then d\<lparr>learnedEntry := currentEntry\<rparr> else d) c)"

text \<open>\<^verbatim>\<open>if (event.event === "create" || this.isReplacementAfterLocalDelete(event)) this.clearLocalDeleteMarker(...)\<close>\<close>

definition clear_marker_if_recreated :: "upsert_event \<Rightarrow> resource_cache \<Rightarrow> (resource_cache, unit) effect" where
  "clear_marker_if_recreated ev c =
     then_do (if event ev = CreateEvent then Inr True else isReplacementAfterLocalDelete ev c, c) (\<lambda>clear c.
       if clear then clearLocalDeleteMarker (event_type ev) (event_id ev) c else (Inr (), c))"

definition applyWrite :: "upsert_event \<Rightarrow> bool \<Rightarrow> resource_cache \<Rightarrow> (resource_cache, resource_change option) effect" where
  "applyWrite ev write_detail c =
     then_do (isSuppressedByLocalDelete ev c, c) (\<lambda>suppressed c.
       if suppressed then (Inr None, c)
       else then_do (acceptResource (event_type ev) (event_id ev) (event_resource ev)
              (no_options\<lparr>opt_detail := write_detail, opt_version := Some (event_version ev)\<rparr>) c) (\<lambda>accepted c.
         if \<not> accepted then (Inr None, c)
         else then_do (clear_marker_if_recreated ev c) (\<lambda>_ c.
           let c' = (if event_type ev \<noteq> TaskType
                     then noteLocalDeleteUpsert (event_type ev) (event_id ev) (event ev) c else c)
           in (Inr (Some (changeForUpsert ev c')), c'))))"

fun applyFeedEvent :: "feed_event \<Rightarrow> resource_cache \<Rightarrow> (resource_cache, resource_change option) effect" where
  "applyFeedEvent (Delete t i version) c =
     then_do (resourceCacheKey t i, c) (\<lambda>key c.
       if version \<le> versionFor t i c then (Inr None, c)
       else then_do (markRemoteDelete t i version True (c\<lparr>pendingDeletes := removeAll key (pendingDeletes c)\<rparr>)) (\<lambda>_ c.
         (Inr (if key \<in> set (locallyNotifiedDeletes c) then None
               else Some \<lparr>change_event = Feed (Delete t i version), change_resource = None\<rparr>),
          c\<lparr>locallyNotifiedDeletes := removeAll key (locallyNotifiedDeletes c)\<rparr>)))"
| "applyFeedEvent (Upsert ev) c =
     then_do (resourceCacheKey (event_type ev) (event_id ev), c) (\<lambda>key c.
       if event_version ev \<le> versionFor (event_type ev) (event_id ev) c then (Inr None, c)
       else then_do (isSuppressedByPendingDelete ev c, c) (\<lambda>suppressed c.
         if suppressed then (Inr None, c)
         else then_do (acceptResource (event_type ev) (event_id ev) (event_resource ev)
                (no_options\<lparr>opt_version := Some (event_version ev)\<rparr>) c) (\<lambda>accepted c.
           if accepted \<and> event_type ev \<noteq> TaskType
           then then_do (clear_marker_if_recreated ev c) (\<lambda>_ c.
             let c' = noteLocalDeleteUpsert (event_type ev) (event_id ev) (event ev) c
             in (Inr (Some (changeForUpsert ev c')), c'))
           else (Inr (Some (changeForUpsert ev c)), c))))"

fun accept_all :: "resource_type \<Rightarrow> bool \<Rightarrow> resource_value list \<Rightarrow> resource_cache \<Rightarrow> (resource_cache, unit) effect" where
  "accept_all t with_detail [] c = (Inr (), c)"
| "accept_all t with_detail (v # vs) c =
     then_do (acceptResource t (case t of EntityType \<Rightarrow> entity_id v | TaskType \<Rightarrow> task_id v | ObjectType \<Rightarrow> object_id v) v
         (no_options\<lparr>opt_detail := with_detail\<rparr>) c)
       (\<lambda>_ c. accept_all t with_detail vs c)"

definition replaceHydratedResources ::
    "resource_value list \<Rightarrow> resource_value list \<Rightarrow> resource_value list \<Rightarrow> resource_cache \<Rightarrow> (resource_cache, unit) effect" where
  "replaceHydratedResources entities tasks objects c =
     (let c1 = c\<lparr>hydrationEpoch := hydrationEpoch c + 1, entries := (\<lambda>_. []),
            snapshotRecords := (\<lambda>t. record_clear (snapshotRecords c t)), snapshotDirty := True,
            pendingDeletes := [], localDeleteKeys := [], localDeleteInstances := [], locallyNotifiedDeletes := [],
            localDeleteOperations := [], generations := [], pointReadStates := [], deferredPointNotFound := []\<rparr>
      in then_do (accept_all EntityType False entities c1) (\<lambda>_ c.
           then_do (accept_all TaskType False tasks c) (\<lambda>_ c. accept_all ObjectType True objects c)))"

subsection \<open>Local deletes\<close>

definition markLocalDelete :: "resource_type \<Rightarrow> jstring \<Rightarrow> resource_cache \<Rightarrow> (resource_cache, int) effect" where
  "markLocalDelete t i c =
     (let previousEntry = js_get (entries c t) i;
          previousVersion = (case previousEntry of None \<Rightarrow> 0 | Some e \<Rightarrow> entry_version e)
      in then_do (resourceCacheKey t i, c) (\<lambda>key c.
        let previousInstance = (if is_deleted previousEntry then None
              else map_option created_at (Option.bind (value_of previousEntry) resource_metadata));
            c1 = c\<lparr>localDeleteInstances :=
                (case previousInstance of
                   Some inst \<Rightarrow> if inst \<noteq> [] then js_set key inst (localDeleteInstances c)
                              else js_delete key (localDeleteInstances c)
                 | None \<Rightarrow> js_delete key (localDeleteInstances c))\<rparr>
        in then_do (markRemoteDelete t i previousVersion True c1) (\<lambda>_ c.
             (Inr previousVersion,
              c\<lparr>pendingDeletes := set_add key (pendingDeletes c), localDeleteKeys := set_add key (localDeleteKeys c)\<rparr>))))"

definition beginLocalDelete :: "resource_type \<Rightarrow> jstring \<Rightarrow> resource_cache \<Rightarrow> (resource_cache, nat) effect" where
  "beginLocalDelete t i c =
     then_do (bumpGeneration t i c) (\<lambda>_ c.
       let operation = \<lparr>delete_type = t, delete_id = i, observedEntry = js_get (entries c t) i, learnedEntry = None,
                        recreated = False, reconcile = False, remote = False\<rparr>;
           h = next_ref c
       in (Inr h, c\<lparr>delete_objects := js_set h operation (delete_objects c),
                   localDeleteOperations := set_add h (localDeleteOperations c), next_ref := h + 1\<rparr>))"

definition finishLocalDelete ::
    "nat \<Rightarrow> delete_outcome \<Rightarrow> resource_cache \<Rightarrow> (resource_cache, resource_change option) effect" where
  "finishLocalDelete h outcome c =
     (case delete_object c h of
        None \<Rightarrow> (Inr None, c)
      | Some operation \<Rightarrow>
          if h \<notin> set (localDeleteOperations c) then (Inr None, c)
          else
            let t = delete_type operation; i = delete_id operation;
                c1 = c\<lparr>localDeleteOperations := removeAll h (localDeleteOperations c)\<rparr>;
                currentEntry = js_get (entries c1 t) i;
                observed = observedEntry operation
            in then_do (bumpGeneration t i c1) (\<lambda>_ c.
                 let deletesCurrentEntry = (is_deleted observed \<and> outcome = DeletedOutcome)
                 in if is_deleted observed \<and> \<not> deletesCurrentEntry then (Inr None, c)
                    else if remote operation \<or> recreated operation \<or>
                      (\<not> deletesCurrentEntry \<and> \<not> same_entry currentEntry observed \<and> \<not> is_deleted currentEntry \<and>
                       \<not> sameResourceInstance (value_of observed) (value_of currentEntry) \<and>
                       \<not> sameResourceInstance (value_of (learnedEntry operation)) (value_of currentEntry))
                    then (Inr None, c)
                    else then_do (markLocalDelete t i c) (\<lambda>previousVersion c.
                      let removedEntry = (if currentEntry \<noteq> None \<and> \<not> is_deleted currentEntry then currentEntry else observed)
                      in then_do (resourceCacheKey t i, c) (\<lambda>key c.
                        if (removedEntry = None \<or> is_deleted removedEntry) \<and> outcome \<noteq> DeletedOutcome then (Inr None, c)
                        else (Inr (Some \<lparr>change_event = localDeleteEvent t i previousVersion, change_resource = None\<rparr>),
                              c\<lparr>locallyNotifiedDeletes := set_add key (locallyNotifiedDeletes c)\<rparr>)))))"

definition cancelLocalDelete :: "nat \<Rightarrow> resource_cache \<Rightarrow> resource_cache" where
  "cancelLocalDelete h c = c\<lparr>localDeleteOperations := removeAll h (localDeleteOperations c)\<rparr>"

definition needsLocalDeleteReconcile :: "nat \<Rightarrow> resource_cache \<Rightarrow> bool" where
  "needsLocalDeleteReconcile h c = (case delete_object c h of None \<Rightarrow> False | Some d \<Rightarrow> reconcile d)"

section \<open>The snapshot shows exactly the live entries\<close>

fun snapshot_part :: "resource_type \<Rightarrow> sync_snapshot \<Rightarrow> (jstring, resource_value) js_map" where
  "snapshot_part EntityType s = snapshot_entities s"
| "snapshot_part TaskType s = snapshot_tasks s"
| "snapshot_part ObjectType s = snapshot_objects s"

definition entry_ok :: "cache_entry \<Rightarrow> bool" where
  "entry_ok e \<longleftrightarrow> deleted e = (entry_value e = None)"

definition records_exact :: "resource_cache \<Rightarrow> bool" where
  "records_exact c \<longleftrightarrow> (\<forall>t i. map_of (record_entries (snapshotRecords c t)) i = cache_value t i c)"

definition records_clean :: "resource_cache \<Rightarrow> bool" where
  "records_clean c \<longleftrightarrow> (\<forall>t. \<not> dirty (snapshotRecords c t) \<longrightarrow> record_value (snapshotRecords c t) = record_entries (snapshotRecords c t))"

definition snapshot_clean :: "resource_cache \<Rightarrow> bool" where
  "snapshot_clean c \<longleftrightarrow>
     (\<not> snapshotDirty c \<longrightarrow> (\<forall>t. snapshot_part t (snapshotValue c) = record_entries (snapshotRecords c t)))"

definition cache_inv :: "resource_cache \<Rightarrow> bool" where
  "cache_inv c \<longleftrightarrow> (\<forall>t. js_all entry_ok (entries c t)) \<and> records_exact c \<and> records_clean c \<and> snapshot_clean c"

lemmas cache_inv_parts = cache_inv_def records_exact_def records_clean_def snapshot_clean_def

lemma snapshot_part_from_records:
  "snapshot_part t (fst (snapshotFromRecords rs)) = fst (record_snapshot (rs t))"
  "snd (snapshotFromRecords rs) t = snd (record_snapshot (rs t))"
  by (cases t; simp add: snapshotFromRecords_def case_prod_beta Let_def)+

lemma snapshot_value:
  assumes "cache_inv c"
  shows "map_of (snapshot_part t (fst (snapshot c))) i = cache_value t i c"
proof (cases "snapshotDirty c")
  case True
  then have "snapshot_part t (fst (snapshot c)) = fst (record_snapshot (snapshotRecords c t))"
    by (simp add: snapshot_def case_prod_beta Let_def snapshot_part_from_records)
  also have "\<dots> = record_entries (snapshotRecords c t)"
    using assms by (simp add: cache_inv_parts record_snapshot_def Let_def)
  finally show ?thesis using assms by (simp add: cache_inv_parts)
next
  case False
  then show ?thesis using assms by (simp add: cache_inv_parts snapshot_def)
qed

text \<open>Two caches that differ only in bookkeeping.\<close>

definition same_resources :: "resource_cache \<Rightarrow> resource_cache \<Rightarrow> bool" where
  "same_resources c c' \<longleftrightarrow> entries c' = entries c \<and> snapshotRecords c' = snapshotRecords c \<and>
     snapshotValue c' = snapshotValue c \<and> snapshotDirty c' = snapshotDirty c"

lemma cache_value_entries: "entries c' t = entries c t \<Longrightarrow> cache_value t i c' = cache_value t i c"
  by (simp add: cache_value_def)

lemma cache_inv_same: "same_resources c c' \<Longrightarrow> cache_inv c \<Longrightarrow> cache_inv c'"
  by (simp add: same_resources_def cache_inv_parts cache_value_def)

lemma record_lookup:
  "map_of (record_entries (record_set i v r)) j = (if j = i then Some v else map_of (record_entries r) j)"
  "map_of (record_entries (snd (record_remove i r))) j = (if j = i then None else map_of (record_entries r) j)"
  by (auto simp: record_set_def record_remove_def js_has_def js_lookup)

lemma removeFromSnapshot_simps [simp]:
  "entries (removeFromSnapshot t i c) = entries c"
  "generations (removeFromSnapshot t i c) = generations c"
  "hydrationEpoch (removeFromSnapshot t i c) = hydrationEpoch c"
  "pendingDeletes (removeFromSnapshot t i c) = pendingDeletes c"
  "locallyNotifiedDeletes (removeFromSnapshot t i c) = locallyNotifiedDeletes c"
  "delete_objects (removeFromSnapshot t i c) = delete_objects c"
  "localDeleteOperations (removeFromSnapshot t i c) = localDeleteOperations c"
  by (simp_all add: removeFromSnapshot_def case_prod_beta Let_def)

lemma updateSnapshot_simps [simp]:
  "entries (updateSnapshot t i v c) = entries c"
  "generations (updateSnapshot t i v c) = generations c"
  "hydrationEpoch (updateSnapshot t i v c) = hydrationEpoch c"
  "pendingDeletes (updateSnapshot t i v c) = pendingDeletes c"
  "locallyNotifiedDeletes (updateSnapshot t i v c) = locallyNotifiedDeletes c"
  "delete_objects (updateSnapshot t i v c) = delete_objects c"
  "localDeleteOperations (updateSnapshot t i v c) = localDeleteOperations c"
  by (simp_all add: updateSnapshot_def)

lemma cache_value_update:
  "cache_value t' i' (c\<lparr>entries := (entries c)(t := js_set i e (entries c t))\<rparr>) =
     (if t' = t \<and> i' = i then (if deleted e then None else entry_value e) else cache_value t' i' c)"
  by (auto simp: cache_value_def js_lookup)

lemma cache_inv_store:
  assumes "cache_inv c" "entry_value e = Some v" "\<not> deleted e"
    and "entries c' = (entries c)(t := js_set i e (entries c t))"
    and "snapshotRecords c' = (snapshotRecords c)(t := record_set i v (snapshotRecords c t))" "snapshotDirty c'"
  shows "cache_inv c'"
proof -
  have "cache_value t' i' c' = (if t' = t \<and> i' = i then Some v else cache_value t' i' c)" for t' i'
    using assms by (auto simp: cache_value_def js_lookup)
  then have "records_exact c'" using assms by (auto simp: cache_inv_parts record_lookup)
  moreover have "entry_ok e" using assms by (simp add: entry_ok_def)
  then have "js_all entry_ok (entries c' t')" for t' using assms by (auto simp: cache_inv_def)
  moreover have "records_clean c'" using assms by (auto simp: cache_inv_parts record_set_def)
  ultimately show ?thesis using assms(6) by (simp add: cache_inv_def snapshot_clean_def)
qed

lemma cache_inv_delete:
  assumes "cache_inv c" "entry_value e = None" "deleted e"
    and "entries c0 = (entries c)(t := js_set i e (entries c t))"
    and "snapshotRecords c0 = snapshotRecords c" "snapshotValue c0 = snapshotValue c" "snapshotDirty c0 = snapshotDirty c"
  shows "cache_inv (removeFromSnapshot t i c0)"
proof -
  let ?c = "removeFromSnapshot t i c0"
  have recs: "snapshotRecords ?c = (snapshotRecords c)(t := snd (record_remove i (snapshotRecords c t)))"
    using assms by (simp add: removeFromSnapshot_def case_prod_beta Let_def)
  have "cache_value t' i' ?c = (if t' = t \<and> i' = i then None else cache_value t' i' c)" for t' i'
    using assms by (auto simp: cache_value_def js_lookup)
  then have "records_exact ?c" using assms by (auto simp: cache_inv_parts record_lookup recs)
  moreover have "entry_ok e" using assms by (simp add: entry_ok_def)
  then have "js_all entry_ok (entries ?c t')" for t' using assms by (auto simp: cache_inv_def)
  moreover have "records_clean ?c" using assms by (auto simp: cache_inv_parts record_remove_def recs)
  moreover have "snapshot_clean ?c"
    using assms by (auto simp: cache_inv_parts record_remove_def removeFromSnapshot_def Let_def split: if_splits)
  ultimately show ?thesis by (simp add: cache_inv_def)
qed

section \<open>Calls only move forward\<close>

definition gen_at :: "resource_cache \<Rightarrow> jstring \<Rightarrow> nat" where
  "gen_at c k = (case js_get (generations c) k of None \<Rightarrow> 0 | Some g \<Rightarrow> g)"

definition versions_le :: "resource_cache \<Rightarrow> resource_cache \<Rightarrow> bool" where
  "versions_le c c' \<longleftrightarrow> (\<forall>t i e. js_get (entries c t) i = Some e \<longrightarrow>
     (\<exists>e'. js_get (entries c' t) i = Some e' \<and> entry_version e \<le> entry_version e'))"

definition cache_ext :: "resource_cache \<Rightarrow> resource_cache \<Rightarrow> bool" where
  "cache_ext c c' \<longleftrightarrow> (cache_inv c \<longrightarrow> cache_inv c') \<and> hydrationEpoch c' = hydrationEpoch c \<and>
     (\<forall>k. gen_at c k \<le> gen_at c' k) \<and> versions_le c c'"

lemma versions_le_refl [simp]: "versions_le c c"
  by (auto simp: versions_le_def)

lemma versions_le_trans: "versions_le a b \<Longrightarrow> versions_le b c \<Longrightarrow> versions_le a c"
  unfolding versions_le_def by (meson order_trans)

lemma cache_ext_refl [simp]: "cache_ext c c" by (simp add: cache_ext_def)

lemma cache_ext_trans: "cache_ext a b \<Longrightarrow> cache_ext b c \<Longrightarrow> cache_ext a c"
  unfolding cache_ext_def using versions_le_trans order_trans by metis

lemma cache_ext_same:
  "same_resources c c' \<Longrightarrow> hydrationEpoch c' = hydrationEpoch c \<Longrightarrow> generations c' = generations c \<Longrightarrow> cache_ext c c'"
  using cache_inv_same by (auto simp: cache_ext_def gen_at_def versions_le_def same_resources_def)

interpretation cache_order: effect_preorder cache_ext
  by unfold_locales (auto intro: cache_ext_trans)

lemmas cache_ext_then = cache_order.then_step
lemmas then_do_bookkeeping = cache_order.then_guard

lemma versions_le_set:
  assumes "entries c' = (entries c)(t := js_set i e (entries c t))"
    and "\<And>e0. js_get (entries c t) i = Some e0 \<Longrightarrow> entry_version e0 \<le> entry_version e"
  shows "versions_le c c'"
  using assms by (auto simp: versions_le_def js_lookup)

lemma bump_ok:
  "resourceCacheKey t i = Inr k \<Longrightarrow>
     bumpGeneration t i c = (Inr (), c\<lparr>generations := js_set k (gen_at c k + 1) (generations c)\<rparr>)"
  by (simp add: bumpGeneration_def generation_def gen_at_def)

lemma bump_err: "resourceCacheKey t i = Inl e \<Longrightarrow> bumpGeneration t i c = (Inl e, c)"
  by (simp add: bumpGeneration_def)

lemma bump_entries: "bumpGeneration t i c = (Inr u, c') \<Longrightarrow> entries c' = entries c"
  by (cases "resourceCacheKey t i") (auto simp: bump_ok bump_err)

lemma gen_at_bump:
  "gen_at (c\<lparr>generations := js_set k g (generations c)\<rparr>) k' = (if k' = k then g else gen_at c k')"
  by (simp add: gen_at_def js_lookup)

lemma bump_ext: "cache_ext c (snd (bumpGeneration t i c))"
proof (cases "resourceCacheKey t i")
  case (Inr k)
  let ?c = "c\<lparr>generations := js_set k (gen_at c k + 1) (generations c)\<rparr>"
  have "same_resources c ?c" by (simp add: same_resources_def)
  then show ?thesis
    using cache_inv_same[of c ?c] by (auto simp: cache_ext_def bump_ok[OF Inr] gen_at_bump versions_le_def)
qed (simp add: bump_err)

lemma update_operations_simps [simp]:
  "entries (update_operations P f c) = entries c"
  "generations (update_operations P f c) = generations c"
  "hydrationEpoch (update_operations P f c) = hydrationEpoch c"
  "pendingDeletes (update_operations P f c) = pendingDeletes c"
  "locallyNotifiedDeletes (update_operations P f c) = locallyNotifiedDeletes c"
  "localDeleteOperations (update_operations P f c) = localDeleteOperations c"
  "snapshotRecords (update_operations P f c) = snapshotRecords c"
  "snapshotValue (update_operations P f c) = snapshotValue c"
  "snapshotDirty (update_operations P f c) = snapshotDirty c"
  "next_ref (update_operations P f c) = next_ref c"
  by (simp_all add: update_operations_def)

lemma update_operations_ext: "cache_ext c (update_operations P f c)"
  by (rule cache_ext_same) (simp_all add: same_resources_def)

lemma cache_ext_store:
  assumes "entry_value e = Some v" "\<not> deleted e"
    and "entries c' = (entries c)(t := js_set i e (entries c t))"
    and "snapshotRecords c' = (snapshotRecords c)(t := record_set i v (snapshotRecords c t))" "snapshotDirty c'"
    and "hydrationEpoch c' = hydrationEpoch c" "generations c' = generations c"
    and "\<And>e0. js_get (entries c t) i = Some e0 \<Longrightarrow> entry_version e0 \<le> entry_version e"
  shows "cache_ext c c'"
  using cache_inv_store[OF _ assms(1-5)] versions_le_set[OF assms(3,8)] assms(6,7)
  by (simp add: cache_ext_def gen_at_def)

lemma cache_ext_delete:
  assumes "entry_value e = None" "deleted e"
    and "entries c0 = (entries c)(t := js_set i e (entries c t))"
    and "snapshotRecords c0 = snapshotRecords c" "snapshotValue c0 = snapshotValue c" "snapshotDirty c0 = snapshotDirty c"
    and "hydrationEpoch c0 = hydrationEpoch c" "generations c0 = generations c"
    and "\<And>e0. js_get (entries c t) i = Some e0 \<Longrightarrow> entry_version e0 \<le> entry_version e"
  shows "cache_ext c (removeFromSnapshot t i c0)"
  using cache_inv_delete[OF _ assms(1-6)] versions_le_set[of "removeFromSnapshot t i c0" c t i e] assms
  by (simp add: cache_ext_def gen_at_def)

lemma markRemoteDelete_ext:
  assumes "\<And>e0. js_get (entries c t) i = Some e0 \<Longrightarrow> entry_version e0 \<le> version"
  shows "cache_ext c (snd (markRemoteDelete t i version notify c))"
  unfolding markRemoteDelete_def
proof (rule cache_ext_then[OF bump_ext])
  fix u s
  assume "bumpGeneration t i c = (Inr u, s)"
  then have "entries s = entries c" by (rule bump_entries)
  with assms show "cache_ext s (snd (let c1 = update_operations (\<lambda>d. notify \<and> for_resource t i d) (\<lambda>d. d\<lparr>remote := True\<rparr>) s;
           entry = \<lparr>entry_ref = next_ref c1, entry_value = None, entry_version = version, deleted = True, detail = False\<rparr>
       in (Inr (), removeFromSnapshot t i
             (c1\<lparr>entries := (entries c1)(t := js_set i entry (entries c1 t)), next_ref := next_ref c1 + 1\<rparr>))))"
    unfolding Let_def snd_conv
    by (intro cache_ext_delete[where e = "\<lparr>entry_ref = next_ref s, entry_value = None, entry_version = version,
          deleted = True, detail = False\<rparr>"]) simp_all
qed

lemma store_ext: "cache_ext c (snd (store_resource t i v opts c))"
proof -
  let ?version = "case opt_version opts of None \<Rightarrow> embeddedResourceVersion t v | Some n \<Rightarrow> n"
  let ?e = "\<lparr>entry_ref = next_ref (updateSnapshot t i v c), entry_value = Some v, entry_version = ?version, deleted = False,
                        detail = (t = ObjectType \<and> opt_detail opts)\<rparr>"
  show ?thesis
  proof (cases "case js_get (entries c t) i of None \<Rightarrow> False | Some e \<Rightarrow> entry_version e > ?version")
    case True
    then show ?thesis by (simp add: store_resource_def Let_def)
  next
    case False
    then have "\<And>e0. js_get (entries c t) i = Some e0 \<Longrightarrow> entry_version e0 \<le> entry_version ?e" by simp
    from cache_ext_store[of ?e v _ c t i, OF _ _ _ _ _ _ _ this] show ?thesis
      by (cases "resourceCacheKey t i") (simp_all add: store_resource_def Let_def updateSnapshot_def)
  qed
qed

lemma accept_ext: "cache_ext c (snd (acceptResource t i v opts c))"
  unfolding acceptResource_def
  by (intro cache_ext_then) (auto split: option.split intro!: store_ext cache_ext_then update_operations_ext)

lemma snapshot_ext: "cache_ext c (snd (snapshot c))"
proof (cases "snapshotDirty c")
  case True
  have "records_exact c \<Longrightarrow> records_exact (snd (snapshot c))"
    using True by (simp add: records_exact_def snapshot_def case_prod_beta Let_def snapshot_part_from_records
        record_snapshot_def cache_value_def)
  moreover have "records_clean c \<Longrightarrow> records_clean (snd (snapshot c)) \<and> snapshot_clean (snd (snapshot c))"
    using True by (simp add: records_clean_def snapshot_clean_def snapshot_def case_prod_beta Let_def
        snapshot_part_from_records record_snapshot_def)
  ultimately show ?thesis
    using True by (auto simp: cache_ext_def cache_inv_def snapshot_def case_prod_beta Let_def gen_at_def versions_le_def)
qed (simp add: snapshot_def)

lemmas bookkeeping = cache_ext_same[unfolded same_resources_def]

lemma settle_ext: "cache_ext c (snd (settlePointRead operation st c))"
  unfolding settlePointRead_def
  by (rule then_do_bookkeeping) (auto split: option.split intro!: bookkeeping)

lemma begin_read_ext: "cache_ext c (snd (beginPointRead t i c))"
  unfolding beginPointRead_def Let_def
  by (rule then_do_bookkeeping, rule cache_ext_then) (auto intro!: bookkeeping)

lemma apply_read_ext: "cache_ext c (snd (applyPointRead operation v opts c))"
  by (auto simp: applyPointRead_def intro!: cache_ext_then settle_ext accept_ext)

lemma not_found_now_ext: "cache_ext c (snd (applyPointNotFoundNow operation c))"
proof -
  let ?t = "read_type operation" and ?i = "read_id operation"
  have "cache_ext s (snd (then_do (markRemoteDelete ?t ?i (case js_get (entries c ?t) ?i of None \<Rightarrow> 0 | Some e \<Rightarrow> entry_version e) False s)
      (\<lambda>_ c. then_do (resourceCacheKey ?t ?i, c) (\<lambda>key c. (Inr True, c\<lparr>pendingDeletes := set_add key (pendingDeletes c)\<rparr>)))))"
    if "entries s = entries c" for s
    using that
    by (intro cache_ext_then markRemoteDelete_ext then_do_bookkeeping) (auto intro!: bookkeeping)
  then show ?thesis
    by (auto simp: applyPointNotFoundNow_def Let_def intro!: cache_ext_then[OF bump_ext] dest: bump_entries)
qed

lemma apply_not_found_ext: "cache_ext c (snd (applyPointNotFound operation c))"
proof -
  let ?now = "then_do (settlePointRead operation NotFound c) (\<lambda>_ c. applyPointNotFoundNow operation c)"
  have "cache_ext c (snd ?now)" by (intro cache_ext_then settle_ext not_found_now_ext)
  moreover have "cache_ext c (snd (applyPointNotFoundNow operation c))"
    "cache_ext c (c\<lparr>deferredPointNotFound := m\<rparr>)" for m
    by (rule not_found_now_ext) (simp add: bookkeeping)
  ultimately show ?thesis
    unfolding applyPointNotFound_def Let_def
    by (auto intro!: then_do_bookkeeping split: option.split)
qed

lemma complete_read_ext: "cache_ext c (snd (completePointRead operation c))"
proof -
  have "cache_ext c (snd (applyPointNotFoundNow deferred (c\<lparr>pointReadStates := ps, deferredPointNotFound := ds\<rparr>)))" for deferred ps ds
    by (rule cache_ext_trans[OF _ not_found_now_ext]) (simp add: bookkeeping)
  moreover have "cache_ext c (c\<lparr>pointReadStates := ps\<rparr>)" for ps by (simp add: bookkeeping)
  ultimately show ?thesis
    unfolding completePointRead_def Let_def
    by (auto intro!: then_do_bookkeeping split: option.split)
qed

lemma clear_marker_ext: "cache_ext c (snd (clear_marker_if_recreated ev c))"
proof -
  have "cache_ext c (snd (clearLocalDeleteMarker t i c))" for t i
    unfolding clearLocalDeleteMarker_def by (rule then_do_bookkeeping) (simp add: bookkeeping)
  then show ?thesis unfolding clear_marker_if_recreated_def by (intro then_do_bookkeeping) auto
qed

lemma note_ext: "cache_ext c (noteLocalDeleteUpsert t i ev c)"
  by (simp add: noteLocalDeleteUpsert_def Let_def update_operations_ext)

lemma write_ext: "cache_ext c (snd (applyWrite ev d c))"
  unfolding applyWrite_def Let_def
  by (auto intro!: then_do_bookkeeping cache_ext_then accept_ext clear_marker_ext note_ext)

lemma feed_ext: "cache_ext c (snd (applyFeedEvent ev c))"
proof (cases ev)
  case (Upsert e)
  show ?thesis
    unfolding Upsert applyFeedEvent.simps Let_def
    by (auto intro!: then_do_bookkeeping cache_ext_then accept_ext clear_marker_ext note_ext)
next
  case (Delete t i version)
  have "cache_ext c (snd (then_do (markRemoteDelete t i version True (c\<lparr>pendingDeletes := ps\<rparr>))
      (\<lambda>_ c. (Inr (x c), c\<lparr>locallyNotifiedDeletes := removeAll key (locallyNotifiedDeletes c)\<rparr>))))"
    if "\<not> version \<le> versionFor t i c" for ps key and x :: "resource_cache \<Rightarrow> resource_change option"
  proof (rule cache_ext_then)
    have "cache_ext (c\<lparr>pendingDeletes := ps\<rparr>) (snd (markRemoteDelete t i version True (c\<lparr>pendingDeletes := ps\<rparr>)))"
      using that by (intro markRemoteDelete_ext) (simp add: versionFor_def)
    then show "cache_ext c (snd (markRemoteDelete t i version True (c\<lparr>pendingDeletes := ps\<rparr>)))"
      by (rule cache_ext_trans[rotated]) (simp add: bookkeeping)
  qed (simp add: bookkeeping)
  then show ?thesis
    unfolding Delete applyFeedEvent.simps by (auto intro!: then_do_bookkeeping)
qed

lemma accept_all_ext: "cache_ext c (snd (accept_all t d vs c))"
proof (induction vs arbitrary: c)
  case (Cons v vs)
  show ?case unfolding accept_all.simps by (rule cache_ext_then[OF accept_ext Cons.IH])
qed simp

lemma mark_local_ext: "cache_ext c (snd (markLocalDelete t i c))"
proof -
  have "cache_ext c (snd (then_do (markRemoteDelete t i (case js_get (entries c t) i of None \<Rightarrow> 0 | Some e \<Rightarrow> entry_version e) True
      (c\<lparr>localDeleteInstances := is\<rparr>)) (\<lambda>_ c. (Inr x, c\<lparr>pendingDeletes := set_add key (pendingDeletes c), localDeleteKeys := set_add key (localDeleteKeys c)\<rparr>))))"
    for "is" key and x :: int
  proof (rule cache_ext_then)
    let ?c = "c\<lparr>localDeleteInstances := is\<rparr>"
    have "cache_ext ?c (snd (markRemoteDelete t i (case js_get (entries c t) i of None \<Rightarrow> 0 | Some e \<Rightarrow> entry_version e) True ?c))"
      by (intro markRemoteDelete_ext) simp
    then show "cache_ext c (snd (markRemoteDelete t i (case js_get (entries c t) i of None \<Rightarrow> 0 | Some e \<Rightarrow> entry_version e) True ?c))"
      by (rule cache_ext_trans[rotated]) (simp add: bookkeeping)
  qed (simp add: bookkeeping)
  then show ?thesis unfolding markLocalDelete_def Let_def by (intro then_do_bookkeeping)
qed

lemma begin_delete_ext: "cache_ext c (snd (beginLocalDelete t i c))"
  unfolding beginLocalDelete_def Let_def
  by (rule cache_ext_then[OF bump_ext]) (simp add: bookkeeping)

lemma finish_delete_ext: "cache_ext c (snd (finishLocalDelete h outcome c))"
proof -
  have bump: "cache_ext c (snd (bumpGeneration t i (c\<lparr>localDeleteOperations := ops\<rparr>)))" for t i ops
    by (rule cache_ext_trans[OF _ bump_ext]) (simp add: bookkeeping)
  have mark: "cache_ext s (snd (then_do (markLocalDelete t i s) (\<lambda>previousVersion c. then_do (resourceCacheKey t i, c) (\<lambda>key c.
       if b then (Inr None, c) else (Inr (Some (x previousVersion)), c\<lparr>locallyNotifiedDeletes := set_add key (locallyNotifiedDeletes c)\<rparr>)))))"
    for t i s b and x :: "int \<Rightarrow> resource_change"
    by (intro cache_ext_then mark_local_ext then_do_bookkeeping) (simp add: bookkeeping)
  show ?thesis
    unfolding finishLocalDelete_def Let_def
    by (auto split: option.split intro!: cache_ext_then[OF bump] mark mark[where b = False, simplified] mark[where b = True, simplified])
qed

lemma cancel_ext: "cache_ext c (cancelLocalDelete h c)"
  by (simp add: cancelLocalDelete_def bookkeeping)

text \<open>A call of a public method with its arguments, and the cache after it.\<close>

datatype cache_call =
    SnapshotCall
  | BeginPointRead resource_type jstring
  | ApplyPointRead point_read resource_value read_options
  | ApplyPointNotFound point_read
  | CompletePointRead point_read
  | ApplyWrite upsert_event bool
  | ApplyFeedEvent feed_event
  | ReplaceHydrated "resource_value list" "resource_value list" "resource_value list"
  | BeginLocalDelete resource_type jstring
  | FinishLocalDelete nat delete_outcome
  | CancelLocalDelete nat

fun cache_step :: "resource_cache \<Rightarrow> cache_call \<Rightarrow> resource_cache" where
  "cache_step c SnapshotCall = snd (snapshot c)"
| "cache_step c (BeginPointRead t i) = snd (beginPointRead t i c)"
| "cache_step c (ApplyPointRead operation v opts) = snd (applyPointRead operation v opts c)"
| "cache_step c (ApplyPointNotFound operation) = snd (applyPointNotFound operation c)"
| "cache_step c (CompletePointRead operation) = snd (completePointRead operation c)"
| "cache_step c (ApplyWrite ev d) = snd (applyWrite ev d c)"
| "cache_step c (ApplyFeedEvent ev) = snd (applyFeedEvent ev c)"
| "cache_step c (ReplaceHydrated es ts os) = snd (replaceHydratedResources es ts os c)"
| "cache_step c (BeginLocalDelete t i) = snd (beginLocalDelete t i c)"
| "cache_step c (FinishLocalDelete h outcome) = snd (finishLocalDelete h outcome c)"
| "cache_step c (CancelLocalDelete h) = cancelLocalDelete h c"

fun is_hydration :: "cache_call \<Rightarrow> bool" where
  "is_hydration (ReplaceHydrated _ _ _) = True"
| "is_hydration _ = False"

lemma step_ext: "\<not> is_hydration call \<Longrightarrow> cache_ext c (cache_step c call)"
  by (cases call) (simp_all add: snapshot_ext begin_read_ext apply_read_ext apply_not_found_ext complete_read_ext
      write_ext feed_ext begin_delete_ext finish_delete_ext cancel_ext)

lemma hydrate_split:
  obtains c1 where "hydrationEpoch c1 = hydrationEpoch c + 1" "cache_inv c1"
    "cache_ext c1 (snd (replaceHydratedResources es ts os c))"
proof
  let ?c = "c\<lparr>hydrationEpoch := hydrationEpoch c + 1, entries := (\<lambda>_. []),
            snapshotRecords := (\<lambda>t. record_clear (snapshotRecords c t)), snapshotDirty := True,
            pendingDeletes := [], localDeleteKeys := [], localDeleteInstances := [], locallyNotifiedDeletes := [],
            localDeleteOperations := [], generations := [], pointReadStates := [], deferredPointNotFound := []\<rparr>"
  show "hydrationEpoch ?c = hydrationEpoch c + 1" by simp
  show "cache_inv ?c" by (simp add: cache_inv_parts cache_value_def record_clear_def)
  show "cache_ext ?c (snd (replaceHydratedResources es ts os c))"
    unfolding replaceHydratedResources_def Let_def by (intro cache_ext_then accept_all_ext)
qed

lemma step_inv: "cache_inv c \<Longrightarrow> cache_inv (cache_step c call)"
proof (cases "is_hydration call")
  case True
  then obtain es ts os where call: "call = ReplaceHydrated es ts os" by (cases call) auto
  show ?thesis
    by (rule hydrate_split[of c es ts os]) (simp add: call cache_ext_def)
next
  case False
  then show "cache_inv c \<Longrightarrow> cache_inv (cache_step c call)" using step_ext[of call c] by (simp add: cache_ext_def)
qed

lemma new_cache_inv: "cache_inv new_cache"
  by (simp add: cache_inv_parts new_cache_def cache_value_def snapshotFromRecords_def record_snapshot_def Let_def)
    (metis resource_type.exhaust snapshot_part.simps sync_snapshot.select_convs)

interpretation sdk_cache: guarded_machine new_cache cache_step cache_inv
  by unfold_locales (auto intro: new_cache_inv step_inv)

text \<open>C6: after any sequence of calls of the cache's methods, with any arguments and also after calls that threw,
  \<^verbatim>\<open>snapshot()\<close> shows for every resource type exactly the resources that \<^verbatim>\<open>value\<close> returns: the lazily
  rebuilt records and their dirty flags never show a deleted, replaced or missing resource.\<close>

theorem snapshot_exact:
  "map_of (snapshot_part t (fst (snapshot (foldl cache_step new_cache calls)))) i =
     cache_value t i (foldl cache_step new_cache calls)"
  by (rule snapshot_value[OF sdk_cache.inv_run])

lemma run_ext:
  "list_all (\<lambda>call. \<not> is_hydration call) calls \<Longrightarrow> cache_ext c (foldl cache_step c calls)"
proof (induction calls arbitrary: c)
  case (Cons call calls)
  then show ?case using cache_ext_trans[OF step_ext[of call c]] by simp
qed simp

text \<open>C27: between two hydrations no call lets a cached resource or its tombstone disappear or go back to an earlier
  version, whatever order responses, feed events and deletes arrive in.\<close>

theorem versions_monotone:
  assumes "list_all (\<lambda>call. \<not> is_hydration call) calls" "js_get (entries c t) i = Some e"
  shows "\<exists>e'. js_get (entries (foldl cache_step c calls) t) i = Some e' \<and> entry_version e \<le> entry_version e'"
  using run_ext[OF assms(1), of c] assms(2) by (simp add: cache_ext_def versions_le_def)

definition demo_entity :: "int \<Rightarrow> resource_value" where
  "demo_entity v = EntityResource (js_lit ''e1'') \<lparr>created_at = js_lit ''t0'', metadata_version = v\<rparr> JNull"

definition demo_event :: "upsert_name \<Rightarrow> int \<Rightarrow> upsert_event" where
  "demo_event name v = \<lparr>event = name, event_type = EntityType, event_id = js_lit ''e1'', event_version = v,
     event_resource = demo_entity v\<rparr>"

definition demo_entry :: cache_entry where
  "demo_entry = \<lparr>entry_ref = 0, entry_value = Some (demo_entity 3), entry_version = 3, deleted = False, detail = False\<rparr>"

definition demo_cache :: resource_cache where
  "demo_cache = new_cache\<lparr>entries := (\<lambda>_. [])(EntityType := [(js_lit ''e1'', demo_entry)]), next_ref := 1\<rparr>"

theorem versions_monotone_witness:
  "js_get (entries demo_cache EntityType) (js_lit ''e1'') = Some demo_entry \<and>
   (\<exists>e'. js_get (entries (foldl cache_step demo_cache
        [ApplyFeedEvent (Upsert (demo_event UpdateEvent 2)), ApplyFeedEvent (Delete EntityType (js_lit ''e1'') 5)]) EntityType)
        (js_lit ''e1'') = Some e' \<and> 3 \<le> entry_version e')"
proof -
  have e: "js_get (entries demo_cache EntityType) (js_lit ''e1'') = Some demo_entry" by (simp add: demo_cache_def)
  from versions_monotone[OF _ e, of "[ApplyFeedEvent (Upsert (demo_event UpdateEvent 2)),
      ApplyFeedEvent (Delete EntityType (js_lit ''e1'') 5)]"] e
  show ?thesis by (simp add: demo_entry_def)
qed

section \<open>Reads that started before a delete\<close>

definition fence_le :: "jstring \<Rightarrow> resource_cache \<Rightarrow> resource_cache \<Rightarrow> bool" where
  "fence_le k c c' \<longleftrightarrow> hydrationEpoch c < hydrationEpoch c' \<or>
     hydrationEpoch c = hydrationEpoch c' \<and> gen_at c k \<le> gen_at c' k"

lemma fence_le_ext: "cache_ext c c' \<Longrightarrow> fence_le k c c'"
  by (simp add: fence_le_def cache_ext_def)

lemma fence_le_trans: "fence_le k a b \<Longrightarrow> fence_le k b c \<Longrightarrow> fence_le k a c"
  by (auto simp: fence_le_def)

lemma fence_le_step: "fence_le k c (cache_step c call)"
proof (cases "is_hydration call")
  case True
  then obtain es ts os where call: "call = ReplaceHydrated es ts os" by (cases call) auto
  show ?thesis by (rule hydrate_split[of c es ts os]) (simp add: call cache_ext_def fence_le_def)
qed (simp add: fence_le_ext step_ext)

lemma fence_le_run: "fence_le k c (foldl cache_step c calls)"
proof (induction calls arbitrary: c)
  case (Cons call calls)
  then show ?case using fence_le_trans[OF fence_le_step[of k c call]] by simp
qed (simp add: fence_le_def)

lemma finish_SomeD:
  assumes "finishLocalDelete h outcome c = (Inr (Some change), c')" "delete_object c h = Some d"
  defines "t \<equiv> delete_type d" and "i \<equiv> delete_id d"
  obtains k s s2 pv where "resourceCacheKey t i = Inr k" "h \<in> set (localDeleteOperations c)"
    "bumpGeneration t i (c\<lparr>localDeleteOperations := removeAll h (localDeleteOperations c)\<rparr>) = (Inr (), s)"
    "markLocalDelete t i s = (Inr pv, s2)"
    "c' = s2\<lparr>locallyNotifiedDeletes := set_add k (locallyNotifiedDeletes s2)\<rparr>"
  using assms(1,2) unfolding t_def i_def
  by (auto simp: finishLocalDelete_def Let_def then_do_eq_Inr split: if_splits)

lemma finish_generation:
  assumes "finishLocalDelete h outcome c = (Inr (Some change), c')" "delete_object c h = Some d"
    and "resourceCacheKey (delete_type d) (delete_id d) = Inr k"
  shows "hydrationEpoch c' = hydrationEpoch c \<and> gen_at c k < gen_at c' k"
proof (rule finish_SomeD[OF assms(1,2)])
  fix k' s s2 pv
  assume *: "bumpGeneration (delete_type d) (delete_id d) (c\<lparr>localDeleteOperations := removeAll h (localDeleteOperations c)\<rparr>) = (Inr (), s)"
    "markLocalDelete (delete_type d) (delete_id d) s = (Inr pv, s2)"
    "c' = s2\<lparr>locallyNotifiedDeletes := set_add k' (locallyNotifiedDeletes s2)\<rparr>"
  have "gen_at s k = gen_at c k + 1" "hydrationEpoch s = hydrationEpoch c"
    using *(1) assms(3) by (auto simp: bump_ok gen_at_def js_lookup)
  moreover have "cache_ext s s2" using mark_local_ext[of s] *(2) by (metis snd_conv)
  ultimately show ?thesis
    unfolding cache_ext_def *(3) by (auto simp: gen_at_def dest!: spec[of _ k])
qed

lemma begin_read_fence:
  assumes "beginPointRead t i c = (Inr rd, c')"
  shows "\<exists>k. resourceCacheKey t i = Inr k \<and> read_type rd = t \<and> read_id rd = i \<and> read_epoch rd = hydrationEpoch c' \<and>
    read_generation rd = gen_at c' k"
  using assms by (auto simp: beginPointRead_def Let_def then_do_eq_Inr generation_def bind_result_eq_Inr gen_at_def)

lemma settle_entries: "settlePointRead rd st c = (r, c') \<Longrightarrow> entries c' = entries c \<and> generations c' = generations c"
  by (cases "resourceCacheKey (read_type rd) (read_id rd)")
    (auto simp: settlePointRead_def split: option.splits if_splits)

lemma stale_refused:
  assumes "resourceCacheKey (read_type rd) (read_id rd) = Inr k"
    and "read_epoch rd \<noteq> hydrationEpoch c \<or> read_generation rd \<noteq> gen_at c k"
  shows "fst (applyPointRead rd v opts c) \<noteq> Inr True \<and> entries (snd (applyPointRead rd v opts c)) = entries c"
proof (cases "read_epoch rd = hydrationEpoch c")
  case True
  obtain r s where s: "settlePointRead rd Succeeded c = (r, s)" by (cases "settlePointRead rd Succeeded c")
  have "entries s = entries c" "gen_at s k \<noteq> read_generation rd"
    using settle_entries[OF s] assms(2) True by (auto simp: gen_at_def)
  then show ?thesis
    using assms(1) True s
    by (cases r; cases "resourceID (read_type rd) v")
      (auto simp: applyPointRead_def acceptResource_def generation_def gen_at_def)
qed (simp add: applyPointRead_def)

text \<open>C19: a point read that began before a local delete of the same resource finished never brings the resource back:
  whatever calls happen before and after the delete, its response is refused and
  leaves every entry as it is.\<close>

theorem stale_point_read_refused:
  assumes "beginPointRead t i c0 = (Inr rd, c1)" "c2 = foldl cache_step c1 before"
    and "delete_object c2 h = Some d" "delete_type d = t" "delete_id d = i"
    and "finishLocalDelete h outcome c2 = (Inr (Some change), c3)" "c4 = foldl cache_step c3 after"
  shows "fst (applyPointRead rd v opts c4) \<noteq> Inr True \<and> entries (snd (applyPointRead rd v opts c4)) = entries c4"
proof -
  obtain k where k: "resourceCacheKey t i = Inr k" "read_type rd = t" "read_id rd = i" "read_epoch rd = hydrationEpoch c1"
    "read_generation rd = gen_at c1 k" using begin_read_fence[OF assms(1)] by blast
  have "fence_le k c1 c2" "fence_le k c3 c4" using assms(2,7) fence_le_run by blast+
  moreover have "hydrationEpoch c3 = hydrationEpoch c2 \<and> gen_at c2 k < gen_at c3 k"
    using finish_generation[OF assms(6,3)] k(1) assms(4,5) by blast
  ultimately have "read_epoch rd \<noteq> hydrationEpoch c4 \<or> read_generation rd \<noteq> gen_at c4 k"
    using k(4,5) by (auto simp: fence_le_def)
  then show ?thesis using stale_refused[of rd k c4 v opts] k by simp
qed

definition demo_key :: jstring where
  "demo_key = stringify_strings [js_lit ''entity'', js_lit ''e1'']"

lemma demo_cache_key: "resourceCacheKey EntityType (js_lit ''e1'') = Inr demo_key"
proof -
  have "js_lit ''e1'' \<noteq> [] \<and> js_trim (js_lit ''e1'') = js_lit ''e1''" by code_simp
  then show ?thesis by (simp add: resourceCacheKey_def demo_key_def)
qed

definition demo_read :: point_read where
  "demo_read = \<lparr>read_type = EntityType, read_id = js_lit ''e1'', read_generation = 0, read_epoch = 0, read_sequence = 1,
     read_observed = Some demo_entry\<rparr>"

lemmas demo_simps = demo_cache_key demo_cache_def demo_entry_def demo_read_def new_cache_def Let_def

lemma demo_begin_read:
  "\<exists>c. beginPointRead EntityType (js_lit ''e1'') demo_cache = (Inr demo_read, c) \<and>
     c = demo_cache\<lparr>pointReadStates := [(demo_key, \<lparr>state_sequence = 1, status = Pending\<rparr>)]\<rparr>"
  by (simp add: beginPointRead_def generation_def demo_simps)

definition demo_deleting :: resource_cache where
  "demo_deleting = cache_step (demo_cache\<lparr>pointReadStates := [(demo_key, \<lparr>state_sequence = 1, status = Pending\<rparr>)]\<rparr>)
     (BeginLocalDelete EntityType (js_lit ''e1''))"

lemma demo_deleting_object:
  "\<exists>d. delete_object demo_deleting 1 = Some d \<and> delete_type d = EntityType \<and> delete_id d = js_lit ''e1''"
  by (simp add: demo_deleting_def delete_object_def beginLocalDelete_def bump_ok[OF demo_cache_key] demo_simps)

lemma demo_finish:
  "\<exists>change c. finishLocalDelete 1 DeletedOutcome demo_deleting = (Inr (Some change), c) \<and>
     cache_value EntityType (js_lit ''e1'') c = None"
  by (simp add: demo_deleting_def finishLocalDelete_def delete_object_def beginLocalDelete_def bump_ok[OF demo_cache_key]
      markLocalDelete_def markRemoteDelete_def is_deleted_def value_of_def same_entry_def set_add_def demo_simps
      cache_value_def js_lookup update_operations_def for_resource_def)

theorem stale_point_read_refused_witness:
  "\<exists>c1 d change c3. beginPointRead EntityType (js_lit ''e1'') demo_cache = (Inr demo_read, c1) \<and>
     delete_object demo_deleting 1 = Some d \<and> delete_type d = EntityType \<and> delete_id d = js_lit ''e1'' \<and>
     finishLocalDelete 1 DeletedOutcome demo_deleting = (Inr (Some change), c3) \<and>
     cache_value EntityType (js_lit ''e1'') c3 = None \<and>
     entries (snd (applyPointRead demo_read (demo_entity 3) no_options c3)) = entries c3"
proof -
  obtain c1 where b: "beginPointRead EntityType (js_lit ''e1'') demo_cache = (Inr demo_read, c1)"
    and c1: "c1 = demo_cache\<lparr>pointReadStates := [(demo_key, \<lparr>state_sequence = 1, status = Pending\<rparr>)]\<rparr>"
    using demo_begin_read by blast
  obtain d where d: "delete_object demo_deleting 1 = Some d" "delete_type d = EntityType" "delete_id d = js_lit ''e1''"
    using demo_deleting_object by blast
  obtain change c3 where f: "finishLocalDelete 1 DeletedOutcome demo_deleting = (Inr (Some change), c3)"
    "cache_value EntityType (js_lit ''e1'') c3 = None" using demo_finish by blast
  have c2: "demo_deleting = foldl cache_step c1 [BeginLocalDelete EntityType (js_lit ''e1'')]"
    by (simp add: demo_deleting_def c1)
  have c4: "c3 = foldl cache_step c3 []" by simp
  from stale_point_read_refused[OF b c2 d f(1) c4, of "demo_entity 3" no_options] b d f show ?thesis by blast
qed

section \<open>Feed events\<close>

declare applyFeedEvent.simps [simp del]

lemma update_operations_lookup:
  "delete_object (update_operations P f c) h =
     map_option (\<lambda>d. if h \<in> set (localDeleteOperations c) \<and> P d then f d else d) (delete_object c h)"
proof -
  have "map_of (map (\<lambda>(h, d). (h, g h d)) xs) h = map_option (g h) (map_of xs h)" for g :: "nat \<Rightarrow> local_delete \<Rightarrow> local_delete" and xs
    by (induction xs) auto
  then show ?thesis by (simp add: delete_object_def update_operations_def)
qed

text \<open>Accepting a resource without a generation check, and why it may be refused.\<close>

definition refusal :: "resource_type \<Rightarrow> jstring \<Rightarrow> resource_value \<Rightarrow> read_options \<Rightarrow> resource_cache \<Rightarrow> bool" where
  "refusal t i v opts c \<longleftrightarrow> resourceID t v \<noteq> Inr i \<or> (\<exists>e. resourceCacheKey t i = Inl e) \<or>
     (\<exists>e0. js_get (entries c t) i = Some e0 \<and>
        (case opt_version opts of None \<Rightarrow> embeddedResourceVersion t v | Some n \<Rightarrow> n) \<le> entry_version e0)"

lemma accept_cases:
  assumes "opt_generation opts = None"
  obtains (refused) r where "acceptResource t i v opts c = (r, c)" "r \<noteq> Inr True" "refusal t i v opts c"
  | (stored) k e where "resourceCacheKey t i = Inr k" "entry_value e = Some v" "\<not> deleted e"
      "entry_version e = (case opt_version opts of None \<Rightarrow> embeddedResourceVersion t v | Some n \<Rightarrow> n)"
      "fst (acceptResource t i v opts c) = Inr True"
      "entries (snd (acceptResource t i v opts c)) = (entries c)(t := js_set i e (entries c t))"
      "pendingDeletes (snd (acceptResource t i v opts c)) = removeAll k (pendingDeletes c)"
      "delete_objects (snd (acceptResource t i v opts c)) = delete_objects c"
      "localDeleteOperations (snd (acceptResource t i v opts c)) = localDeleteOperations c"
proof -
  have "(\<exists>r. acceptResource t i v opts c = (r, c) \<and> r \<noteq> Inr True \<and> refusal t i v opts c) \<or>
    (\<exists>k e. resourceCacheKey t i = Inr k \<and> entry_value e = Some v \<and> \<not> deleted e \<and>
      entry_version e = (case opt_version opts of None \<Rightarrow> embeddedResourceVersion t v | Some n \<Rightarrow> n) \<and>
      fst (acceptResource t i v opts c) = Inr True \<and>
      entries (snd (acceptResource t i v opts c)) = (entries c)(t := js_set i e (entries c t)) \<and>
      pendingDeletes (snd (acceptResource t i v opts c)) = removeAll k (pendingDeletes c) \<and>
      delete_objects (snd (acceptResource t i v opts c)) = delete_objects c \<and>
      localDeleteOperations (snd (acceptResource t i v opts c)) = localDeleteOperations c)"
  proof (cases "resourceID t v")
    case (Inr a)
    show ?thesis
    proof (cases "a = i")
      case True
      then have acc: "acceptResource t i v opts c = store_resource t i v opts c"
        using Inr assms by (simp add: acceptResource_def)
      have "acceptResource t i v opts c = (Inr False, c) \<and> refusal t i v opts c \<or>
          (\<exists>e. acceptResource t i v opts c = (Inl e, c) \<and> refusal t i v opts c) \<or>
          (\<exists>k. resourceCacheKey t i = Inr k \<and> fst (store_resource t i v opts c) = Inr True)"
        unfolding acc refusal_def
        by (cases "resourceCacheKey t i"; cases "js_get (entries c t) i") (auto simp: store_resource_def Let_def)
      moreover have "\<exists>e. entry_value e = Some v \<and> \<not> deleted e \<and>
          entry_version e = (case opt_version opts of None \<Rightarrow> embeddedResourceVersion t v | Some n \<Rightarrow> n) \<and>
          entries (snd (store_resource t i v opts c)) = (entries c)(t := js_set i e (entries c t)) \<and>
          pendingDeletes (snd (store_resource t i v opts c)) = removeAll k (pendingDeletes c) \<and>
          delete_objects (snd (store_resource t i v opts c)) = delete_objects c \<and>
          localDeleteOperations (snd (store_resource t i v opts c)) = localDeleteOperations c"
        if "resourceCacheKey t i = Inr k" "fst (store_resource t i v opts c) = Inr True" for k
        using that
        by (intro exI[of _ "\<lparr>entry_ref = next_ref (updateSnapshot t i v c), entry_value = Some v,
              entry_version = (case opt_version opts of None \<Rightarrow> embeddedResourceVersion t v | Some n \<Rightarrow> n), deleted = False,
              detail = (t = ObjectType \<and> opt_detail opts)\<rparr>"])
          (auto simp: store_resource_def Let_def split: if_splits)
      ultimately show ?thesis unfolding acc by force
    qed (simp add: Inr acceptResource_def refusal_def)
  qed (simp add: acceptResource_def refusal_def)
  then show thesis using refused stored by blast
qed

lemma clear_marker_frame:
  "entries (snd (clear_marker_if_recreated ev c)) = entries c"
  "pendingDeletes (snd (clear_marker_if_recreated ev c)) = pendingDeletes c"
  "delete_objects (snd (clear_marker_if_recreated ev c)) = delete_objects c"
  "localDeleteOperations (snd (clear_marker_if_recreated ev c)) = localDeleteOperations c"
proof -
  obtain b where b: "(if event ev = CreateEvent then Inr True else isReplacementAfterLocalDelete ev c) = b" by blast
  show "entries (snd (clear_marker_if_recreated ev c)) = entries c"
    "pendingDeletes (snd (clear_marker_if_recreated ev c)) = pendingDeletes c"
    "delete_objects (snd (clear_marker_if_recreated ev c)) = delete_objects c"
    "localDeleteOperations (snd (clear_marker_if_recreated ev c)) = localDeleteOperations c"
    unfolding clear_marker_if_recreated_def b
    by (cases b; cases "resourceCacheKey (event_type ev) (event_id ev)"; simp add: clearLocalDeleteMarker_def)+
qed

lemma note_frame [simp]:
  "entries (noteLocalDeleteUpsert t i ev c) = entries c"
  "pendingDeletes (noteLocalDeleteUpsert t i ev c) = pendingDeletes c"
  by (simp_all add: noteLocalDeleteUpsert_def Let_def)

lemma clear_marker_ok:
  "resourceCacheKey (event_type ev) (event_id ev) = Inr k \<Longrightarrow> \<exists>c'. clear_marker_if_recreated ev c = (Inr (), c')"
  by (cases "event ev") (auto simp: clear_marker_if_recreated_def clearLocalDeleteMarker_def isReplacementAfterLocalDelete_def)

text \<open>A feed upsert either changes nothing or stores its resource under its version.\<close>

definition upsert_options :: "upsert_event \<Rightarrow> read_options" where
  "upsert_options ev = no_options\<lparr>opt_version := Some (event_version ev)\<rparr>"

lemma upsert_cases:
  assumes "\<forall>k'. resourceCacheKey (event_type ev) (event_id ev) = Inr k' \<longrightarrow> k' = k"
  obtains (ignored) "entries (snd (applyFeedEvent (Upsert ev) c)) = entries c"
      "pendingDeletes (snd (applyFeedEvent (Upsert ev) c)) = pendingDeletes c"
      "resourceID (event_type ev) (event_resource ev) = Inr (event_id ev) \<Longrightarrow>
       resourceCacheKey (event_type ev) (event_id ev) = Inr k \<Longrightarrow>
       event_version ev \<le> versionFor (event_type ev) (event_id ev) c \<or> event ev = UpdateEvent \<and> k \<in> set (pendingDeletes c)"
  | (stored) e where "resourceCacheKey (event_type ev) (event_id ev) = Inr k"
      "event ev = UpdateEvent \<longrightarrow> k \<notin> set (pendingDeletes c)"
      "entry_value e = Some (event_resource ev)" "\<not> deleted e" "entry_version e = event_version ev"
      "versionFor (event_type ev) (event_id ev) c < event_version ev"
      "entries (snd (applyFeedEvent (Upsert ev) c)) = (entries c)(event_type ev := js_set (event_id ev) e (entries c (event_type ev)))"
      "pendingDeletes (snd (applyFeedEvent (Upsert ev) c)) = removeAll k (pendingDeletes c)"
proof (cases "resourceCacheKey (event_type ev) (event_id ev)")
  case (Inl e)
  then show thesis using ignored by (simp add: applyFeedEvent.simps)
next
  case key0: (Inr k')
  with assms have key: "resourceCacheKey (event_type ev) (event_id ev) = Inr k" by simp
  let ?t = "event_type ev" and ?i = "event_id ev"
  let ?acc = "acceptResource ?t ?i (event_resource ev) (upsert_options ev) c"
  have supp: "isSuppressedByPendingDelete ev c = Inr (event ev = UpdateEvent \<and> k \<in> set (pendingDeletes c))"
    using key by (auto simp: isSuppressedByPendingDelete_def)
  show thesis
  proof (cases "event_version ev \<le> versionFor ?t ?i c \<or> (event ev = UpdateEvent \<and> k \<in> set (pendingDeletes c))")
    case True
    then show thesis using ignored key supp by (auto simp: applyFeedEvent.simps)
  next
    case False
    have gen: "opt_generation (upsert_options ev) = None" by (simp add: upsert_options_def no_options_def)
    have run: "applyFeedEvent (Upsert ev) c = then_do ?acc (\<lambda>accepted c.
           if accepted \<and> ?t \<noteq> TaskType
           then then_do (clear_marker_if_recreated ev c) (\<lambda>_ c.
             let c' = noteLocalDeleteUpsert ?t ?i (event ev) c in (Inr (Some (changeForUpsert ev c')), c'))
           else (Inr (Some (changeForUpsert ev c)), c))"
      using False key by (auto simp: applyFeedEvent.simps upsert_options_def supp)
    from gen show thesis
    proof (cases rule: accept_cases[of _ ?t ?i "event_resource ev" c])
      case (refused r)
      then have le: "event_version ev \<le> versionFor ?t ?i c" if "resourceID ?t (event_resource ev) = Inr ?i"
        using that key by (auto simp: refusal_def versionFor_def upsert_options_def)
      have "snd (applyFeedEvent (Upsert ev) c) = c" unfolding run using refused(1,2) by (cases r) simp_all
      then show thesis using le by (intro ignored) simp_all
    next
      case (stored k' e)
      obtain s where s: "?acc = (Inr True, s)" using stored(5) by (metis prod.collapse)
      obtain s' where s': "clear_marker_if_recreated ev s = (Inr (), s')" using clear_marker_ok[OF key] by blast
      have "entries s' = entries s" "pendingDeletes s' = pendingDeletes s"
        using clear_marker_frame(1,2)[of ev s] by (simp_all add: s')
      then have fr: "entries (snd (applyFeedEvent (Upsert ev) c)) = entries s"
        "pendingDeletes (snd (applyFeedEvent (Upsert ev) c)) = pendingDeletes s"
        by (simp_all add: run s s' Let_def)
      show thesis
        using that(2)[OF key _ stored(2,3)] stored False key s fr by (auto simp: upsert_options_def)
    qed
  qed
qed

subsection \<open>A finished local delete stays hidden\<close>

lemma cache_value_stored:
  "entries c' = (entries c)(t' := js_set i' e (entries c t')) \<Longrightarrow> (t', i') \<noteq> (t, i) \<Longrightarrow> cache_value t i c' = cache_value t i c"
  by (auto simp: cache_value_def js_lookup)

definition hidden :: "resource_type \<Rightarrow> jstring \<Rightarrow> jstring \<Rightarrow> resource_cache \<Rightarrow> bool" where
  "hidden t i k c \<longleftrightarrow> cache_value t i c = None \<and> k \<in> set (pendingDeletes c)"

lemma hidden_update:
  assumes "resourceCacheKey t i = Inr k" "hidden t i k c" "event ev = UpdateEvent"
  shows "hidden t i k (snd (applyFeedEvent (Upsert ev) c))"
proof -
  obtain k' where k': "\<forall>x. resourceCacheKey (event_type ev) (event_id ev) = Inr x \<longrightarrow> x = k'"
    by (cases "resourceCacheKey (event_type ev) (event_id ev)") auto
  then show ?thesis
  proof (cases rule: upsert_cases[of ev k' c])
    case ignored
    then show ?thesis using assms(2) by (simp add: hidden_def cache_value_def)
  next
    case (stored e)
    have "k' \<noteq> k" using stored(2) assms(2,3) by (auto simp: hidden_def)
    then have "(event_type ev, event_id ev) \<noteq> (t, i)" using stored(1) assms(1) by auto
    then show ?thesis
      using assms(2) stored(8) \<open>k' \<noteq> k\<close> cache_value_stored[OF stored(7)] by (simp add: hidden_def)
  qed
qed

lemma removed_value:
  assumes "markRemoteDelete t i version notify c = (Inr (), c')"
  shows "cache_value t i c' = None"
  using assms by (auto simp: markRemoteDelete_def Let_def then_do_eq_Inr cache_value_def js_lookup)

lemma mark_local_hidden:
  assumes "markLocalDelete t i c = (Inr pv, c')" "resourceCacheKey t i = Inr k"
  shows "hidden t i k c'"
  using assms removed_value by (auto simp: markLocalDelete_def Let_def then_do_eq_Inr hidden_def cache_value_def)

text \<open>C20: once a local delete has been reported, the resource is not visible and no update event of the feed, of any
  version and in any number, makes it visible again before the feed has confirmed the delete.\<close>

theorem local_delete_hides:
  assumes "finishLocalDelete h outcome c = (Inr (Some change), c')" "delete_object c h = Some d"
    and "list_all (\<lambda>ev. event ev = UpdateEvent) evs"
  shows "cache_value (delete_type d) (delete_id d) (foldl (\<lambda>c ev. snd (applyFeedEvent (Upsert ev) c)) c' evs) = None"
proof (rule finish_SomeD[OF assms(1,2)])
  fix k s s2 pv
  let ?t = "delete_type d" and ?i = "delete_id d"
  assume key: "resourceCacheKey ?t ?i = Inr k" and m: "markLocalDelete ?t ?i s = (Inr pv, s2)"
    and c': "c' = s2\<lparr>locallyNotifiedDeletes := set_add k (locallyNotifiedDeletes s2)\<rparr>"
  have "hidden ?t ?i k c'" using mark_local_hidden[OF m key] by (simp add: c' hidden_def cache_value_def)
  then have "hidden ?t ?i k (foldl (\<lambda>c ev. snd (applyFeedEvent (Upsert ev) c)) c' evs)"
    using assms(3)
  proof (induction evs arbitrary: c')
    case (Cons ev evs)
    then show ?case using hidden_update[OF key] by simp
  qed simp
  then show ?thesis by (simp add: hidden_def)
qed

theorem local_delete_hides_witness:
  "\<exists>d change c'. finishLocalDelete 1 DeletedOutcome demo_deleting = (Inr (Some change), c') \<and>
     delete_object demo_deleting 1 = Some d \<and> delete_type d = EntityType \<and> delete_id d = js_lit ''e1'' \<and>
     cache_value EntityType (js_lit ''e1'') (snd (applyFeedEvent (Upsert (demo_event UpdateEvent 9)) c')) = None"
proof -
  obtain d where d: "delete_object demo_deleting 1 = Some d" "delete_type d = EntityType" "delete_id d = js_lit ''e1''"
    using demo_deleting_object by blast
  obtain change c' where f: "finishLocalDelete 1 DeletedOutcome demo_deleting = (Inr (Some change), c')"
    using demo_finish by blast
  have "list_all (\<lambda>ev. event ev = UpdateEvent) [demo_event UpdateEvent 9]" by (simp add: demo_event_def)
  from local_delete_hides[OF f d(1) this] d f show ?thesis by auto
qed

subsection \<open>A recreation during a local delete survives\<close>

lemma upsert_operations:
  assumes "applyFeedEvent (Upsert ev) c = (Inr (Some change), c')" "event ev = CreateEvent" "event_type ev \<noteq> TaskType"
    and "delete_object c h = Some d" "h \<in> set (localDeleteOperations c)" "for_resource (event_type ev) (event_id ev) d"
  shows "h \<in> set (localDeleteOperations c') \<and> (\<exists>d'. delete_object c' h = Some d' \<and> recreated d' \<and>
      delete_type d' = delete_type d \<and> delete_id d' = delete_id d \<and> observedEntry d' = observedEntry d) \<and>
    cache_value (event_type ev) (event_id ev) c' = Some (event_resource ev)"
proof -
  let ?t = "event_type ev" and ?i = "event_id ev" and ?opts = "upsert_options ev"
  let ?acc = "acceptResource ?t ?i (event_resource ev) ?opts c"
  have gen: "opt_generation ?opts = None" by (simp add: upsert_options_def no_options_def)
  have supp: "isSuppressedByPendingDelete ev c = Inr False" using assms(2) by (simp add: isSuppressedByPendingDelete_def)
  obtain k where key: "resourceCacheKey ?t ?i = Inr k" and new: "\<not> event_version ev \<le> versionFor ?t ?i c"
    using assms(1) by (auto simp: applyFeedEvent.simps then_do_eq_Inr split: if_splits)
  have run: "then_do ?acc (\<lambda>accepted c.
       if accepted \<and> ?t \<noteq> TaskType
       then then_do (clear_marker_if_recreated ev c) (\<lambda>_ c.
         let c' = noteLocalDeleteUpsert ?t ?i (event ev) c in (Inr (Some (changeForUpsert ev c')), c'))
       else (Inr (Some (changeForUpsert ev c)), c)) = (Inr (Some change), c')"
    using assms(1) new by (simp add: applyFeedEvent.simps key supp upsert_options_def)
  from gen show ?thesis
  proof (cases rule: accept_cases[of _ ?t ?i "event_resource ev" c])
    case (refused r)
    then have "\<not> (\<exists>e. resourceCacheKey ?t ?i = Inl e)" "r \<noteq> Inr True" using key by auto
    moreover have "resourceID ?t (event_resource ev) = Inr ?i"
      using run refused(1) by (cases "resourceID ?t (event_resource ev)")
        (auto simp: acceptResource_def split: if_splits)
    ultimately show ?thesis using refused(3) new by (auto simp: refusal_def versionFor_def upsert_options_def)
  next
    case (stored k' e)
    obtain s where s: "?acc = (Inr True, s)" using stored(5) by (metis prod.collapse)
    obtain s' where s': "clear_marker_if_recreated ev s = (Inr (), s')" using clear_marker_ok[OF key] by blast
    have fr: "entries s' = entries s" "delete_objects s' = delete_objects s" "localDeleteOperations s' = localDeleteOperations s"
      using clear_marker_frame[of ev s] by (simp_all add: s')
    have c': "c' = noteLocalDeleteUpsert ?t ?i CreateEvent s'"
      using run assms(2,3) by (simp add: s s' Let_def)
    have "localDeleteOperations c' = localDeleteOperations c" "entries c' = (entries c)(?t := js_set ?i e (entries c ?t))"
      using stored s fr by (simp_all add: c' noteLocalDeleteUpsert_def Let_def)
    moreover have "delete_object s' h = Some d" "localDeleteOperations s' = localDeleteOperations c"
      using stored s fr assms(4) by (simp_all add: delete_object_def)
    then have "delete_object c' h = Some (d\<lparr>recreated := True\<rparr>)"
      using assms(5,6) by (simp add: c' noteLocalDeleteUpsert_def Let_def update_operations_lookup)
    ultimately show ?thesis
      using assms(5) stored(2,3) by (simp add: cache_value_def js_lookup)
  qed
qed

lemma finish_recreated:
  assumes "delete_object c h = Some d" "recreated d" "h \<in> set (localDeleteOperations c)"
    and "resourceCacheKey (delete_type d) (delete_id d) = Inr k"
  shows "fst (finishLocalDelete h outcome c) = Inr None \<and> entries (snd (finishLocalDelete h outcome c)) = entries c"
  using assms by (simp add: finishLocalDelete_def Let_def bump_ok)

text \<open>C22: a resource that the feed reports as created while a local delete of its id is under way is kept: the delete
  finishes without a change, whatever Core answered, and the new resource stays visible.\<close>

theorem recreation_survives:
  assumes "beginLocalDelete t i c = (Inr h, c1)" "applyFeedEvent (Upsert ev) c1 = (Inr (Some change), c2)"
    and "event ev = CreateEvent" "event_type ev = t" "event_id ev = i" "t \<noteq> TaskType"
  shows "fst (finishLocalDelete h outcome c2) = Inr None \<and>
    cache_value t i (snd (finishLocalDelete h outcome c2)) = Some (event_resource ev)"
proof -
  obtain k where k: "resourceCacheKey t i = Inr k"
    using assms(1) by (cases "resourceCacheKey t i") (auto simp: beginLocalDelete_def bump_err)
  have h: "h \<in> set (localDeleteOperations c1)" "\<exists>d. delete_object c1 h = Some d \<and> delete_type d = t \<and> delete_id d = i"
    using assms(1) by (auto simp: beginLocalDelete_def Let_def bump_ok[OF k] delete_object_def js_lookup)
  then obtain d where d: "delete_object c1 h = Some d" "delete_type d = t" "delete_id d = i" by blast
  have "for_resource (event_type ev) (event_id ev) d" using d assms by (simp add: for_resource_def)
  from upsert_operations[OF assms(2,3) _ d(1) h(1) this] assms d
  obtain d' where d': "delete_object c2 h = Some d'" "recreated d'" "delete_type d' = t" "delete_id d' = i"
    "h \<in> set (localDeleteOperations c2)" "cache_value t i c2 = Some (event_resource ev)" by auto
  from finish_recreated[OF d'(1,2,5)] d' k show ?thesis by (simp add: cache_value_def)
qed

lemma demo_recreate:
  "\<exists>change c. applyFeedEvent (Upsert (demo_event CreateEvent 7)) demo_deleting = (Inr (Some change), c)"
  by (simp add: applyFeedEvent.simps demo_event_def demo_deleting_def beginLocalDelete_def bump_ok[OF demo_cache_key] demo_simps versionFor_def
      isSuppressedByPendingDelete_def acceptResource_def resourceID_def assertResourceMatchesType_def demo_entity_def
      no_options_def store_resource_def clear_marker_if_recreated_def clearLocalDeleteMarker_def updateSnapshot_def)

theorem recreation_survives_witness:
  "\<exists>c1 change c2. beginLocalDelete EntityType (js_lit ''e1'') (demo_cache\<lparr>pointReadStates :=
       [(demo_key, \<lparr>state_sequence = 1, status = Pending\<rparr>)]\<rparr>) = (Inr 1, c1) \<and>
     applyFeedEvent (Upsert (demo_event CreateEvent 7)) c1 = (Inr (Some change), c2) \<and>
     cache_value EntityType (js_lit ''e1'') (snd (finishLocalDelete 1 DeletedOutcome c2)) = Some (demo_entity 7)"
proof -
  have b: "beginLocalDelete EntityType (js_lit ''e1'') (demo_cache\<lparr>pointReadStates :=
       [(demo_key, \<lparr>state_sequence = 1, status = Pending\<rparr>)]\<rparr>) = (Inr 1, demo_deleting)"
    by (simp add: demo_deleting_def beginLocalDelete_def bump_ok[OF demo_cache_key] demo_simps)
  obtain change c2 where f: "applyFeedEvent (Upsert (demo_event CreateEvent 7)) demo_deleting = (Inr (Some change), c2)"
    using demo_recreate by blast
  from recreation_survives[OF b f, of DeletedOutcome] b f show ?thesis by (auto simp: demo_event_def)
qed

subsection \<open>Clients that take the same feed agree\<close>

fun feed_key :: "feed_event \<Rightarrow> resource_type \<times> jstring" where
  "feed_key (Upsert ev) = (event_type ev, event_id ev)"
| "feed_key (Delete t i _) = (t, i)"

fun feed_version :: "feed_event \<Rightarrow> int" where
  "feed_version (Upsert ev) = event_version ev"
| "feed_version (Delete _ _ v) = v"

fun feed_content :: "feed_event \<Rightarrow> resource_value option" where
  "feed_content (Upsert ev) = Some (event_resource ev)"
| "feed_content (Delete _ _ _) = None"

text \<open>What \<^verbatim>\<open>isInboundFeedEvent\<close> guarantees: a canonical id that is also the id of the resource.\<close>

fun valid_feed_event :: "feed_event \<Rightarrow> bool" where
  "valid_feed_event (Upsert ev) \<longleftrightarrow> (\<exists>k. resourceCacheKey (event_type ev) (event_id ev) = Inr k) \<and>
     resourceID (event_type ev) (event_resource ev) = Inr (event_id ev)"
| "valid_feed_event (Delete t i _) \<longleftrightarrow> (\<exists>k. resourceCacheKey t i = Inr k)"

definition cache_view :: "resource_cache \<Rightarrow> resource_type \<times> jstring \<Rightarrow> (int \<times> resource_value option) option" where
  "cache_view c k = map_option (\<lambda>e. (entry_version e, if deleted e then None else entry_value e))
     (js_get (entries c (fst k)) (snd k))"

definition feed_step :: "resource_cache \<Rightarrow> feed_event \<Rightarrow> resource_cache" where
  "feed_step c ev = snd (applyFeedEvent ev c)"

definition no_pending :: "resource_cache \<Rightarrow> bool" where
  "no_pending c \<longleftrightarrow> pendingDeletes c = []"

lemma versionFor_view: "versionFor t i c = (case cache_view c (t, i) of None \<Rightarrow> 0 | Some x \<Rightarrow> fst x)"
  by (simp add: versionFor_def cache_view_def split: option.split)

lemma cache_view_set:
  "entries c' = (entries c)(t := js_set i e (entries c t)) \<Longrightarrow>
     cache_view c' k = (if k = (t, i) then Some (entry_version e, if deleted e then None else entry_value e) else cache_view c k)"
  by (cases k) (auto simp: cache_view_def js_lookup)

lemma feed_upsert_view:
  assumes "no_pending c" "valid_feed_event (Upsert ev)"
  shows "no_pending (feed_step c (Upsert ev)) \<and> cache_view (feed_step c (Upsert ev)) k =
    (if k = feed_key (Upsert ev) \<and> (case cache_view c k of None \<Rightarrow> 0 | Some x \<Rightarrow> fst x) < event_version ev
     then Some (event_version ev, Some (event_resource ev)) else cache_view c k)"
proof -
  obtain key where key: "resourceCacheKey (event_type ev) (event_id ev) = Inr key"
    and rid: "resourceID (event_type ev) (event_resource ev) = Inr (event_id ev)" using assms(2) by auto
  then have "\<forall>x. resourceCacheKey (event_type ev) (event_id ev) = Inr x \<longrightarrow> x = key" by simp
  then show ?thesis
  proof (cases rule: upsert_cases[of ev key c])
    case ignored
    have "event_version ev \<le> versionFor (event_type ev) (event_id ev) c"
      using ignored(3)[OF rid key] assms(1) by (auto simp: no_pending_def)
    then show ?thesis
      using assms(1) ignored(1,2) by (auto simp: no_pending_def feed_step_def cache_view_def versionFor_view)
  next
    case (stored e)
    from stored(6) have "(case cache_view c (feed_key (Upsert ev)) of None \<Rightarrow> 0 | Some x \<Rightarrow> fst x) < event_version ev"
      by (simp add: versionFor_view)
    then show ?thesis
      using assms(1) stored(3-5,8) cache_view_set[OF stored(7)] by (auto simp: no_pending_def feed_step_def)
  qed
qed

lemma feed_delete_view:
  assumes "no_pending c" "valid_feed_event (Delete t i v)"
  shows "no_pending (feed_step c (Delete t i v)) \<and> cache_view (feed_step c (Delete t i v)) k =
    (if k = (t, i) \<and> (case cache_view c k of None \<Rightarrow> 0 | Some x \<Rightarrow> fst x) < v then Some (v, None) else cache_view c k)"
proof -
  obtain key where key: "resourceCacheKey t i = Inr key" using assms(2) by auto
  show ?thesis
  proof (cases "v \<le> versionFor t i c")
    case True
    then show ?thesis using assms(1) key by (auto simp: feed_step_def applyFeedEvent.simps versionFor_view)
  next
    case False
    let ?c = "feed_step c (Delete t i v)"
    have "pendingDeletes ?c = []"
      using assms(1) False key by (simp add: feed_step_def applyFeedEvent.simps markRemoteDelete_def bump_ok Let_def no_pending_def)
    moreover have "\<exists>e. entries ?c = (entries c)(t := js_set i e (entries c t)) \<and> deleted e \<and> entry_version e = v"
      using False key by (simp add: feed_step_def applyFeedEvent.simps markRemoteDelete_def bump_ok Let_def)
        (metis cache_entry.select_convs(3,4))
    ultimately show ?thesis using False by (auto simp: cache_view_set versionFor_view no_pending_def)
  qed
qed

interpretation feed: lww_replica feed_step cache_view no_pending valid_feed_event feed_key feed_version feed_content
proof
  fix c e
  assume *: "no_pending c" "valid_feed_event e"
  show "no_pending (feed_step c e)"
  proof (cases e)
    case (Upsert ev)
    then show ?thesis using feed_upsert_view[of c ev] * by simp
  next
    case (Delete t i v)
    then show ?thesis using feed_delete_view[of c t i v] * by simp
  qed
  show "cache_view (feed_step c e) k =
      (if k = feed_key e \<and> (case cache_view c k of None \<Rightarrow> 0 | Some x \<Rightarrow> fst x) < feed_version e
       then Some (feed_version e, feed_content e) else cache_view c k)" for k
  proof (cases e)
    case (Upsert ev)
    then show ?thesis using feed_upsert_view[of c ev k] * by (simp only: feed_key.simps feed_version.simps feed_content.simps)
  next
    case (Delete t i v)
    then show ?thesis using feed_delete_view[of c t i v k] * by (simp only: feed_key.simps feed_version.simps feed_content.simps)
  qed
qed

lemma new_cache_view: "no_pending new_cache" "cache_view new_cache k = None"
  by (simp_all add: no_pending_def new_cache_def cache_view_def)

lemma cache_value_view: "cache_value t i c = Option.bind (cache_view c (t, i)) snd"
  by (simp add: cache_value_def cache_view_def split: option.split)

text \<open>C3: two clients that take the same valid feed events from an empty cache end up with the same resources and
  versions, whatever the order and the number of times each event is delivered.\<close>

theorem feed_convergence:
  assumes "list_all valid_feed_event es" "list_all valid_feed_event es'" "set es = set es'"
    and "\<forall>a \<in> set es. \<forall>b \<in> set es. feed_key a = feed_key b \<and> feed_version a = feed_version b \<longrightarrow> feed_content a = feed_content b"
  shows "cache_value t i (foldl feed_step new_cache es) = cache_value t i (foldl feed_step new_cache es') \<and>
    versionFor t i (foldl feed_step new_cache es) = versionFor t i (foldl feed_step new_cache es')"
  using feed.converge[OF new_cache_view assms] by (simp add: cache_value_view versionFor_view)

theorem feed_convergence_witness:
  "let a = Upsert (demo_event CreateEvent 3); b = Upsert (demo_event UpdateEvent 7); d = Delete EntityType (js_lit ''e1'') 5
   in list_all valid_feed_event [a, d, b] \<and> list_all valid_feed_event [b, d, d, a] \<and>
      cache_value EntityType (js_lit ''e1'') (foldl feed_step new_cache [a, d, b]) =
      cache_value EntityType (js_lit ''e1'') (foldl feed_step new_cache [b, d, d, a])"
proof -
  let ?a = "Upsert (demo_event CreateEvent 3)" and ?b = "Upsert (demo_event UpdateEvent 7)"
    and ?d = "Delete EntityType (js_lit ''e1'') 5"
  have v: "valid_feed_event ?a" "valid_feed_event ?b" "valid_feed_event ?d"
    by (simp_all add: demo_event_def demo_cache_key resourceID_def assertResourceMatchesType_def demo_entity_def)
  have "\<forall>x \<in> set [?a, ?d, ?b]. \<forall>y \<in> set [?a, ?d, ?b]. feed_key x = feed_key y \<and> feed_version x = feed_version y \<longrightarrow>
      feed_content x = feed_content y"
    by (simp add: demo_event_def)
  from feed_convergence[OF _ _ _ this, of "[?b, ?d, ?d, ?a]" EntityType "js_lit ''e1''"] v show ?thesis
    unfolding Let_def by (auto simp: insert_commute)
qed

section \<open>Object contents\<close>

datatype content_call = ContentGet jstring | ContentSet jstring bytes

fun content_step :: "content_cache \<Rightarrow> content_call \<Rightarrow> content_cache" where
  "content_step cc (ContentGet key) = snd (content_get key cc)"
| "content_step cc (ContentSet key v) = content_set key v cc"

fun call_key :: "content_call \<Rightarrow> jstring" where
  "call_key (ContentGet key) = key"
| "call_key (ContentSet key _) = key"

text \<open>An entry with its more recent ones behind it.\<close>

definition recent :: "jstring \<Rightarrow> bytes \<Rightarrow> jstring set \<Rightarrow> content_cache \<Rightarrow> bool" where
  "recent k v S cc \<longleftrightarrow> js_map_ok (contents cc) \<and> length (contents cc) \<le> maxEntries cc \<and>
     (\<exists>xs ys. contents cc = xs @ (k, v) # ys \<and> fst ` set ys \<subseteq> S)"

lemma recentI:
  "contents cc = xs @ (k, v) # ys \<Longrightarrow> fst ` set ys \<subseteq> S \<Longrightarrow> js_map_ok (contents cc) \<Longrightarrow>
     length (contents cc) \<le> maxEntries cc \<Longrightarrow> recent k v S cc"
  unfolding recent_def by metis

lemma touch_last: "js_set key v (js_delete key m) = js_delete key m @ [(key, v)]"
  by (rule js_set_new[OF not_in_delete])

lemma delete_around:
  "j \<noteq> k \<Longrightarrow> js_delete j (xs @ (k, v) # ys) = js_delete j xs @ (k, v) # js_delete j ys"
  by (simp add: js_delete_filter)

lemma map_of_mid: "js_map_ok (xs @ (k, v) # ys) \<Longrightarrow> map_of (xs @ (k, v) # ys) k = Some v"
  by (auto simp: map_add_Some_iff map_of_eq_None_iff)

lemma set_delete: "set (js_delete j m) \<subseteq> set m"
  by (auto simp: js_delete_filter)

lemma evict_recent:
  assumes "js_map_ok (xs @ (k, v) # ys)" "fst ` set ys \<subseteq> S" "finite S" "card S < limit"
  shows "\<exists>zs. evict_oldest limit (xs @ (k, v) # ys) = zs @ (k, v) # ys"
proof -
  have "length ys = card (fst ` set ys)" using assms(1) by (simp add: distinct_card[of "map fst ys", simplified])
  also have "\<dots> < limit" using card_mono[OF assms(3,2)] assms(4) by simp
  finally show ?thesis by (auto simp: evict_oldest_drop drop_append)
qed

lemma content_set_ok:
  assumes "js_map_ok (contents cc)"
  shows "js_map_ok (contents (content_set j w cc))"
    "length (contents (content_set j w cc)) \<le> maxEntries (content_set j w cc)"
  using assms by (auto simp: content_set_def)

lemma recent_set:
  assumes "recent k v S cc" "j \<noteq> k" "finite S" "card (insert j S) < maxEntries cc"
  shows "recent k v (insert j S) (content_set j w cc)"
proof -
  obtain xs ys where c: "contents cc = xs @ (k, v) # ys" "fst ` set ys \<subseteq> S" "js_map_ok (contents cc)"
    using assms(1) by (auto simp: recent_def)
  let ?m = "js_delete j xs @ (k, v) # js_delete j ys @ [(j, w)]"
  have m: "js_set j w (js_delete j (contents cc)) = ?m"
    unfolding touch_last c(1) using assms(2) by (simp add: delete_around)
  have ok: "js_map_ok ?m" using c(3) by (metis js_map_ok_delete js_map_ok_set m)
  have "fst ` set (js_delete j ys @ [(j, w)]) \<subseteq> insert j S" using c(2) set_delete[of j ys] by auto
  moreover obtain zs where "evict_oldest (maxEntries cc) ?m = zs @ (k, v) # js_delete j ys @ [(j, w)]"
    using evict_recent[OF ok calculation _ assms(4)] assms(3) by auto
  ultimately show ?thesis
    by (intro recentI[OF _ _ content_set_ok[OF c(3)], of _ _ zs _ _ "js_delete j ys @ [(j, w)]"])
      (simp_all add: content_set_def m)
qed

lemma recent_get:
  assumes "recent k v S cc"
  shows "recent k v (insert j S) (snd (content_get j cc))"
proof (cases "js_get (contents cc) j")
  case None
  then show ?thesis using assms by (auto simp: recent_def content_get_def)
next
  case (Some w)
  obtain xs ys where c: "contents cc = xs @ (k, v) # ys" "fst ` set ys \<subseteq> S" "js_map_ok (contents cc)"
    "length (contents cc) \<le> maxEntries cc" using assms by (auto simp: recent_def)
  have len: "length (js_set j w (js_delete j (contents cc))) \<le> length (contents cc)"
  proof -
    have "(j, w) \<in> set (contents cc)" using Some by (rule map_of_SomeD)
    then have "length (js_delete j (contents cc)) < length (contents cc)"
      unfolding js_delete_filter by (rule length_filter_less) simp
    then show ?thesis by (simp add: touch_last)
  qed
  show ?thesis
  proof (cases "j = k")
    case True
    have "js_get (contents cc) k = Some v" using c(3) unfolding c(1) by (rule map_of_mid)
    then have "snd (content_get j cc) = cc\<lparr>contents := js_delete k (contents cc) @ [(k, v)]\<rparr>"
      using True by (simp add: content_get_def touch_last)
    moreover have "js_map_ok (js_delete k (contents cc) @ [(k, v)])"
      using c(3) by (metis js_map_ok_delete js_map_ok_set touch_last)
    ultimately show ?thesis
      using True c(4) len by (intro recentI[of _ "js_delete k (contents cc)" _ _ "[]"]) (simp_all add: touch_last)
  next
    case False
    have "js_set j w (js_delete j (contents cc)) = js_delete j xs @ (k, v) # js_delete j ys @ [(j, w)]"
      unfolding touch_last c(1) using False by (simp add: delete_around)
    moreover have "fst ` set (js_delete j ys @ [(j, w)]) \<subseteq> insert j S" using c(2) set_delete[of j ys] by auto
    moreover have "js_map_ok (js_set j w (js_delete j (contents cc)))" using c(3) by blast
    ultimately show ?thesis
      using Some c(4) len by (intro recentI[of _ "js_delete j xs" _ _ "js_delete j ys @ [(j, w)]"])
        (simp_all add: content_get_def)
  qed
qed

lemma recent_start:
  assumes "0 < maxEntries cc" "js_map_ok (contents cc)"
  shows "recent k v {} (content_set k v cc)"
proof -
  have "js_map_ok (js_delete k (contents cc) @ [(k, v)])" using assms(2) by (metis js_map_ok_delete js_map_ok_set touch_last)
  moreover from evict_recent[OF this, of "{}" "maxEntries cc"] assms(1)
  obtain zs where "evict_oldest (maxEntries cc) (js_delete k (contents cc) @ [(k, v)]) = zs @ [(k, v)]" by auto
  ultimately show ?thesis
    by (intro recentI[OF _ _ content_set_ok[OF assms(2)], of _ _ zs _ _ "[]"]) (simp_all add: content_set_def touch_last)
qed

lemma content_step_limit [simp]: "maxEntries (content_step cc call) = maxEntries cc"
  by (cases call) (simp_all add: content_get_def content_set_def split: option.split)

lemma recent_run:
  assumes "recent k v S cc" "finite S" "k \<notin> {j. \<exists>w. ContentSet j w \<in> set calls}"
    and "card (S \<union> call_key ` set calls) < maxEntries cc"
  shows "recent k v (S \<union> call_key ` set calls) (foldl content_step cc calls)"
  using assms
proof (induction calls arbitrary: S cc)
  case (Cons call calls)
  let ?S = "insert (call_key call) S"
  have "card ?S \<le> card (S \<union> call_key ` set (call # calls))" using Cons.prems(2) by (intro card_mono) auto
  then have "recent k v ?S (content_step cc call)"
    using Cons.prems recent_get[OF Cons.prems(1)] recent_set[OF Cons.prems(1)] by (cases call) auto
  from Cons.IH[OF this] Cons.prems show ?case by simp
qed simp

text \<open>The object content cache keeps what was used last: after storing a content, a later read of its key returns
  exactly these bytes as long as fewer than \<^verbatim>\<open>maxEntries\<close> different keys were read or stored since and the key itself
  was not stored again, and the cache never holds more than its limit.\<close>

theorem content_cache_keeps_recent:
  assumes "0 < maxEntries cc" "js_map_ok (contents cc)"
    and "k \<notin> {j. \<exists>w. ContentSet j w \<in> set calls}" "card (call_key ` set calls) < maxEntries cc"
  shows "fst (content_get k (foldl content_step (content_set k v cc) calls)) = Some v \<and>
    length (contents (foldl content_step (content_set k v cc) calls)) \<le> maxEntries cc"
proof -
  let ?cc = "foldl content_step (content_set k v cc) calls"
  have "maxEntries (content_set k v cc) = maxEntries cc" by (simp add: content_set_def)
  then have r: "recent k v (call_key ` set calls) ?cc"
    using recent_run[OF recent_start[OF assms(1,2)] _ assms(3)] assms(4) by simp
  have "maxEntries (foldl content_step c0 cs) = maxEntries c0" for c0 cs by (induction cs arbitrary: c0) simp_all
  then have "maxEntries ?cc = maxEntries cc" by (simp add: content_set_def)
  moreover have "js_get (contents ?cc) k = Some v" using r map_of_mid unfolding recent_def by metis
  ultimately show ?thesis using r by (simp add: recent_def content_get_def)
qed

theorem content_cache_keeps_recent_witness:
  "fst (content_get [1] (foldl content_step (content_set [1] [7] \<lparr>maxEntries = 3, contents = []\<rparr>)
     [ContentSet [2] [8], ContentGet [1], ContentSet [2] [9]])) = Some [7]"
proof -
  let ?calls = "[ContentSet [2] [8], ContentGet [1], ContentSet [2] [9]]"
  have "card (call_key ` set ?calls) < maxEntries \<lparr>maxEntries = 3, contents = []\<rparr>" by (simp add: card_insert_if)
  then show ?thesis
    using content_cache_keeps_recent[of "\<lparr>maxEntries = 3, contents = []\<rparr>" "[1]" ?calls "[7]"] by auto
qed

end
