(* ===== verification/Asset_Vehicle.thy ===== *)
theory Asset_Vehicle
  imports Prelude Interfaces Complex_Main
begin

text \<open>
  The vehicle side of the Asset host: \<^verbatim>\<open>edge/asset/src/vehicle.ts\<close> (the tracked snapshot of one aircraft),
  \<^verbatim>\<open>readiness.ts\<close> (flight readiness checks) and \<^verbatim>\<open>commands.ts\<close> (the MAVLink messages sent to it).
  Telemetry numbers are exact reals. The enumerations of the \<^verbatim>\<open>node-mavlink\<close> package are the
  parameter \<open>mavlink_dialect\<close>. Texts for operators are data: a failed check keeps the values that
  its message shows.
\<close>

declare map_of_eq_Some_iff [simp del]

section \<open>Definitions\<close>

record mavlink_dialect =
  copter_mode_names :: "(int, string) js_map"
  guided_mode :: int
  rtl_mode :: int
  land_mode :: int
  armed_flag :: int
  quadrotor_type :: int
  ardupilot_autopilot :: int
  cmd_nav_takeoff :: int
  cmd_nav_return_to_launch :: int
  cmd_nav_land :: int
  cmd_do_set_mode :: int
  frame_global_int :: int
  result_accepted :: int

subsection \<open>Vehicle state\<close>

definition copterModeName :: "mavlink_dialect \<Rightarrow> int \<Rightarrow> string" where
  "copterModeName dialect customMode =
     (case js_get (copter_mode_names dialect) customMode of
        Some name \<Rightarrow> name
      | None \<Rightarrow> ''UNKNOWN_'' @ int_text customMode)"

definition isGuidedMode :: "mavlink_dialect \<Rightarrow> int \<Rightarrow> bool" where
  "isGuidedMode dialect customMode \<longleftrightarrow> customMode = guided_mode dialect"

definition isArmedBaseMode :: "mavlink_dialect \<Rightarrow> int \<Rightarrow> bool" where
  "isArmedBaseMode dialect baseMode \<longleftrightarrow> (baseMode AND armed_flag dialect) \<noteq> 0"

record vehicle_identity =
  systemId :: int
  componentId :: int
  vehicleType :: int
  autopilot :: int

record vehicle_observation =
  latitudeDeg :: real
  longitudeDeg :: real
  altitudeMslM :: real
  relativeAltitudeM :: real
  groundSpeedMS :: real
  headingDeg :: "real option"
  observed_battery :: "real option"
  observedAtMs :: real

record vehicle_snapshot =
  identity :: "vehicle_identity option"
  armed :: bool
  mode :: string
  customMode :: "int option"
  guided :: bool
  observation :: "vehicle_observation option"
  lastHeartbeatMs :: "real option"
  batteryRemainingPercent :: "real option"
  gcsFailsafeEnabled :: "bool option"
  launchElevationM :: "real option"
  launchLatitudeDeg :: "real option"
  launchLongitudeDeg :: "real option"
  launchElevationVerified :: bool

definition emptySnapshot :: vehicle_snapshot where
  "emptySnapshot =
     \<lparr>identity = None, armed = False, mode = ''UNKNOWN'', customMode = None, guided = False, observation = None,
      lastHeartbeatMs = None, batteryRemainingPercent = None, gcsFailsafeEnabled = None, launchElevationM = None,
      launchLatitudeDeg = None, launchLongitudeDeg = None, launchElevationVerified = False\<rparr>"

definition HEARTBEAT_FRESHNESS_MS :: real where "HEARTBEAT_FRESHNESS_MS = 3000"
definition POSITION_FRESHNESS_MS :: real where "POSITION_FRESHNESS_MS = 10000"

definition hasFreshHeartbeat :: "vehicle_snapshot \<Rightarrow> real \<Rightarrow> bool" where
  "hasFreshHeartbeat s nowMs =
     (case lastHeartbeatMs s of
        None \<Rightarrow> False
      | Some t \<Rightarrow> nowMs - t \<ge> 0 \<and> nowMs - t \<le> HEARTBEAT_FRESHNESS_MS)"

definition hasFreshControlTelemetry :: "vehicle_snapshot \<Rightarrow> real \<Rightarrow> bool" where
  "hasFreshControlTelemetry s nowMs \<longleftrightarrow>
     hasFreshHeartbeat s nowMs \<and>
     (case observation s of
        None \<Rightarrow> False
      | Some obs \<Rightarrow> nowMs - observedAtMs obs \<ge> 0 \<and> nowMs - observedAtMs obs \<le> POSITION_FRESHNESS_MS)"

record heartbeat_observation =
  hb_systemId :: int
  hb_componentId :: int
  hb_vehicleType :: int
  hb_autopilot :: int
  hb_baseMode :: int
  hb_customMode :: int
  receivedAtMs :: real

definition LAUNCH_SAMPLES_REQUIRED :: nat where "LAUNCH_SAMPLES_REQUIRED = 3"
definition LAUNCH_STABILITY_M :: real where "LAUNCH_STABILITY_M = 1 / 2"

record vehicle_tracker =
  tracked :: vehicle_snapshot
  launchSamples :: "real list"

definition new_tracker :: vehicle_tracker where
  "new_tracker = \<lparr>tracked = emptySnapshot, launchSamples = []\<rparr>"

definition observeHeartbeat :: "mavlink_dialect \<Rightarrow> heartbeat_observation \<Rightarrow> vehicle_tracker \<Rightarrow> vehicle_tracker" where
  "observeHeartbeat dialect hb tr =
     (let tr1 = (if \<not> hasFreshHeartbeat (tracked tr) (receivedAtMs hb) \<or> isArmedBaseMode dialect (hb_baseMode hb)
                 then tr\<lparr>launchSamples := []\<rparr> else tr)
      in tr1\<lparr>tracked := (tracked tr1)
           \<lparr>identity := Some \<lparr>systemId = hb_systemId hb, componentId = hb_componentId hb,
                            vehicleType = hb_vehicleType hb, autopilot = hb_autopilot hb\<rparr>,
            armed := isArmedBaseMode dialect (hb_baseMode hb),
            mode := copterModeName dialect (hb_customMode hb),
            customMode := Some (hb_customMode hb),
            guided := isGuidedMode dialect (hb_customMode hb),
            lastHeartbeatMs := Some (receivedAtMs hb)\<rparr>\<rparr>)"

definition maybeVerifyLaunchElevation :: "vehicle_observation \<Rightarrow> vehicle_tracker \<Rightarrow> vehicle_tracker" where
  "maybeVerifyLaunchElevation obs tr =
     (if launchElevationVerified (tracked tr) then tr
      else if armed (tracked tr) \<or> \<not> hasFreshHeartbeat (tracked tr) (observedAtMs obs) then tr\<lparr>launchSamples := []\<rparr>
      else if \<bar>relativeAltitudeM obs\<bar> > 1 / 2 then tr\<lparr>launchSamples := []\<rparr>
      else
        let samples = launchSamples tr @ [altitudeMslM obs];
            tr1 = tr\<lparr>launchSamples := samples\<rparr>
        in if length samples < LAUNCH_SAMPLES_REQUIRED then tr1
           else
             let recent = drop (length samples - LAUNCH_SAMPLES_REQUIRED) samples;
                 mn = Min (set recent);
                 mx = Max (set recent)
             in if mx - mn \<le> LAUNCH_STABILITY_M
                then tr1\<lparr>tracked := (tracked tr1)
                       \<lparr>launchElevationM := Some (foldl (+) 0 recent / real (length recent)),
                        launchLatitudeDeg := Some (latitudeDeg obs),
                        launchLongitudeDeg := Some (longitudeDeg obs),
                        launchElevationVerified := True\<rparr>\<rparr>
                else tr1)"

definition observePosition :: "vehicle_observation \<Rightarrow> vehicle_tracker \<Rightarrow> vehicle_tracker" where
  "observePosition obs tr =
     (let tr1 = (if \<not> hasFreshControlTelemetry (tracked tr) (observedAtMs obs) then tr\<lparr>launchSamples := []\<rparr> else tr);
          s1 = (tracked tr1)\<lparr>observation := Some obs\<rparr>;
          s2 = (case observed_battery obs of None \<Rightarrow> s1 | Some b \<Rightarrow> s1\<lparr>batteryRemainingPercent := Some b\<rparr>)
      in maybeVerifyLaunchElevation obs (tr1\<lparr>tracked := s2\<rparr>))"

definition observeSysStatus :: "real option \<Rightarrow> vehicle_tracker \<Rightarrow> vehicle_tracker" where
  "observeSysStatus percent tr =
     (case percent of
        None \<Rightarrow> tr\<lparr>tracked := (tracked tr)\<lparr>batteryRemainingPercent := None\<rparr>\<rparr>
      | Some b \<Rightarrow>
          if b < 0 \<or> b > 100 then tr\<lparr>tracked := (tracked tr)\<lparr>batteryRemainingPercent := None\<rparr>\<rparr>
          else tr\<lparr>tracked := (tracked tr)\<lparr>batteryRemainingPercent := Some b\<rparr>\<rparr>)"

definition observeGcsFailsafe :: "bool \<Rightarrow> vehicle_tracker \<Rightarrow> vehicle_tracker" where
  "observeGcsFailsafe enabled tr = tr\<lparr>tracked := (tracked tr)\<lparr>gcsFailsafeEnabled := Some enabled\<rparr>\<rparr>"

definition heartbeatAgeMs :: "real \<Rightarrow> vehicle_tracker \<Rightarrow> real option" where
  "heartbeatAgeMs nowMs tr = map_option (\<lambda>t. nowMs - t) (lastHeartbeatMs (tracked tr))"

definition positionAgeMs :: "real \<Rightarrow> vehicle_tracker \<Rightarrow> real option" where
  "positionAgeMs nowMs tr = map_option (\<lambda>obs. nowMs - observedAtMs obs) (observation (tracked tr))"

subsection \<open>Readiness\<close>

record asset_config =
  vehicleSystemId :: int
  vehicleComponentId :: int
  coreLossGraceSeconds :: real
  telemetryIntervalSeconds :: real
  arrivalRadiusM :: real
  altitudeToleranceM :: real
  hoverSettleSeconds :: real
  progressTimeoutSeconds :: real
  taskTimeoutSeconds :: real
  minBatteryPercent :: real
  shutdownConfirmSeconds :: real

datatype readiness_failure =
    NoHeartbeat
  | StaleHeartbeat
  | VehicleMismatch int int
  | NotQuadcopter int
  | NotArduPilot int
  | NoFreshPosition
  | FailsafeDisabled
  | BatteryUnknown
  | BatteryLow real real
  | LaunchElevationUnverified

definition HEARTBEAT_FRESH_MS :: real where "HEARTBEAT_FRESH_MS = 3000"
definition POSITION_FRESH_MS :: real where "POSITION_FRESH_MS = 5000"

definition checkBatteryReadiness :: "vehicle_snapshot \<Rightarrow> asset_config \<Rightarrow> readiness_failure option" where
  "checkBatteryReadiness s config =
     (case batteryRemainingPercent s of
        None \<Rightarrow> Some BatteryUnknown
      | Some b \<Rightarrow> if b < minBatteryPercent config then Some (BatteryLow b (minBatteryPercent config)) else None)"

definition push_if :: "bool \<Rightarrow> 'a \<Rightarrow> 'a list" where
  "push_if b x = (if b then [x] else [])"

definition identity_failures :: "mavlink_dialect \<Rightarrow> vehicle_identity \<Rightarrow> vehicle_snapshot \<Rightarrow> asset_config \<Rightarrow> real \<Rightarrow> readiness_failure list" where
  "identity_failures dialect ident s config nowMs =
     push_if (case lastHeartbeatMs s of None \<Rightarrow> True | Some t \<Rightarrow> nowMs - t > HEARTBEAT_FRESH_MS) StaleHeartbeat @
     push_if (systemId ident \<noteq> vehicleSystemId config \<or> componentId ident \<noteq> vehicleComponentId config)
       (VehicleMismatch (systemId ident) (componentId ident)) @
     push_if (vehicleType ident \<noteq> quadrotor_type dialect) (NotQuadcopter (vehicleType ident)) @
     push_if (autopilot ident \<noteq> ardupilot_autopilot dialect) (NotArduPilot (autopilot ident))"

definition checkFlightReadiness ::
    "mavlink_dialect \<Rightarrow> vehicle_snapshot \<Rightarrow> asset_config \<Rightarrow> real \<Rightarrow> bool \<times> readiness_failure list" where
  "checkFlightReadiness dialect s config nowMs =
     (let failures =
        (case identity s of None \<Rightarrow> [NoHeartbeat] | Some ident \<Rightarrow> identity_failures dialect ident s config nowMs) @
        push_if (case observation s of None \<Rightarrow> True | Some obs \<Rightarrow> nowMs - observedAtMs obs > POSITION_FRESH_MS) NoFreshPosition @
        push_if (gcsFailsafeEnabled s = Some False) FailsafeDisabled @
        (case checkBatteryReadiness s config of None \<Rightarrow> [] | Some f \<Rightarrow> [f]) @
        push_if (\<not> launchElevationVerified s \<or> launchElevationM s = None) LaunchElevationUnverified
      in (failures = [], failures))"

subsection \<open>MAVLink messages\<close>

record command_long =
  targetSystem :: int
  targetComponent :: int
  mav_command :: int
  confirmation :: int
  param1 :: real
  param2 :: real
  param3 :: real
  param4 :: real
  param5 :: real
  param6 :: real
  param7 :: real

record position_target =
  pt_timeBootMs :: int
  pt_targetSystem :: int
  pt_targetComponent :: int
  coordinateFrame :: int
  typeMask :: int
  latInt :: int
  lonInt :: int
  pt_alt :: real
  velocity :: "real \<times> real \<times> real"
  acceleration :: "real \<times> real \<times> real"
  pt_yaw :: real
  yawRate :: real

record param_request_read =
  pr_targetSystem :: int
  pr_targetComponent :: int
  paramId :: string
  paramIndex :: int

datatype mav_message =
    CommandLong command_long
  | SetPositionTarget position_target
  | ParamRequestRead param_request_read

definition commandAckAccepted :: "mavlink_dialect \<Rightarrow> int \<Rightarrow> bool" where
  "commandAckAccepted dialect r \<longleftrightarrow> r = result_accepted dialect"

definition commandLong :: "int \<Rightarrow> int \<Rightarrow> int \<Rightarrow> command_long" where
  "commandLong sysid compid cmd =
     \<lparr>targetSystem = sysid, targetComponent = compid, mav_command = cmd, confirmation = 0, param1 = 0, param2 = 0, param3 = 0,
      param4 = 0, param5 = 0, param6 = 0, param7 = 0\<rparr>"

definition takeoffCommand :: "mavlink_dialect \<Rightarrow> int \<Rightarrow> int \<Rightarrow> real \<Rightarrow> mav_message" where
  "takeoffCommand dialect sysid compid heightAboveLaunchM =
     CommandLong ((commandLong sysid compid (cmd_nav_takeoff dialect))\<lparr>param7 := heightAboveLaunchM\<rparr>)"

definition returnToLaunchCommand :: "mavlink_dialect \<Rightarrow> int \<Rightarrow> int \<Rightarrow> mav_message" where
  "returnToLaunchCommand dialect sysid compid = CommandLong (commandLong sysid compid (cmd_nav_return_to_launch dialect))"

definition landCommand :: "mavlink_dialect \<Rightarrow> int \<Rightarrow> int \<Rightarrow> mav_message" where
  "landCommand dialect sysid compid = CommandLong (commandLong sysid compid (cmd_nav_land dialect))"

definition setCopterModeCommand :: "mavlink_dialect \<Rightarrow> int \<Rightarrow> int \<Rightarrow> int \<Rightarrow> mav_message" where
  "setCopterModeCommand dialect sysid compid m =
     CommandLong ((commandLong sysid compid (cmd_do_set_mode dialect))\<lparr>param1 := 1, param2 := of_int m\<rparr>)"

definition guidedModeNumber :: "mavlink_dialect \<Rightarrow> int" where "guidedModeNumber dialect = guided_mode dialect"
definition rtlModeNumber :: "mavlink_dialect \<Rightarrow> int" where "rtlModeNumber dialect = rtl_mode dialect"
definition landModeNumber :: "mavlink_dialect \<Rightarrow> int" where "landModeNumber dialect = land_mode dialect"

definition POSITION_ONLY_TYPE_MASK :: int where "POSITION_ONLY_TYPE_MASK = 0x0df8"

text \<open>\<^verbatim>\<open>Math.round\<close>\<close>

definition math_round :: "real \<Rightarrow> int" where
  "math_round x = \<lfloor>x + 1 / 2\<rfloor>"

definition positionTarget :: "mavlink_dialect \<Rightarrow> int \<Rightarrow> int \<Rightarrow> real \<Rightarrow> real \<Rightarrow> real \<Rightarrow> int \<Rightarrow> position_target" where
  "positionTarget dialect sysid compid lat lon alt tmask =
     \<lparr>pt_timeBootMs = 0, pt_targetSystem = sysid, pt_targetComponent = compid, coordinateFrame = frame_global_int dialect,
      typeMask = tmask, latInt = math_round (lat * 10000000), lonInt = math_round (lon * 10000000), pt_alt = alt,
      velocity = (0, 0, 0), acceleration = (0, 0, 0), pt_yaw = 0, yawRate = 0\<rparr>"

definition gotoPositionCommand :: "mavlink_dialect \<Rightarrow> int \<Rightarrow> int \<Rightarrow> real \<Rightarrow> real \<Rightarrow> real \<Rightarrow> mav_message" where
  "gotoPositionCommand dialect sysid compid lat lon alt =
     SetPositionTarget (positionTarget dialect sysid compid lat lon alt POSITION_ONLY_TYPE_MASK)"

definition holdPositionCommand :: "mavlink_dialect \<Rightarrow> int \<Rightarrow> int \<Rightarrow> real \<Rightarrow> real \<Rightarrow> real \<Rightarrow> mav_message" where
  "holdPositionCommand dialect sysid compid lat lon alt =
     SetPositionTarget (positionTarget dialect sysid compid lat lon alt POSITION_ONLY_TYPE_MASK)"

definition paramReadCommand :: "int \<Rightarrow> int \<Rightarrow> string \<Rightarrow> mav_message" where
  "paramReadCommand sysid compid name =
     ParamRequestRead \<lparr>pr_targetSystem = sysid, pr_targetComponent = compid, paramId = name, paramIndex = -1\<rparr>"

section \<open>Launch elevation\<close>

text \<open>A call of one of the tracker's observers.\<close>

datatype tracker_call =
    Heartbeat heartbeat_observation
  | Position vehicle_observation
  | SysStatus "real option"
  | GcsFailsafe bool

fun tracker_step :: "mavlink_dialect \<Rightarrow> vehicle_tracker \<Rightarrow> tracker_call \<Rightarrow> vehicle_tracker" where
  "tracker_step dialect tr (Heartbeat hb) = observeHeartbeat dialect hb tr"
| "tracker_step dialect tr (Position obs) = observePosition obs tr"
| "tracker_step dialect tr (SysStatus b) = observeSysStatus b tr"
| "tracker_step dialect tr (GcsFailsafe e) = observeGcsFailsafe e tr"

lemma foldl_plus_real: "foldl (+) (a :: real) xs = a + sum_list xs"
  by (induction xs arbitrary: a) simp_all

lemma mean_bounds:
  fixes xs :: "real list"
  assumes "xs \<noteq> []"
  shows "Min (set xs) \<le> sum_list xs / real (length xs)" "sum_list xs / real (length xs) \<le> Max (set xs)"
proof -
  have "real (length ys) * Min (set xs) \<le> sum_list ys \<and> sum_list ys \<le> real (length ys) * Max (set xs)"
    if "set ys \<subseteq> set xs" for ys
    using that
  proof (induction ys)
    case (Cons y ys)
    then have "Min (set xs) \<le> y" "y \<le> Max (set xs)" by auto
    then show ?case using Cons by (auto simp: algebra_simps intro: add_mono)
  qed simp
  from this[of xs] show "Min (set xs) \<le> sum_list xs / real (length xs)" "sum_list xs / real (length xs) \<le> Max (set xs)"
    using assms by (auto simp: field_simps)
qed

text \<open>What the tracker knows of the launch site, and when it collects samples.\<close>

definition launch_site :: "vehicle_tracker \<Rightarrow> bool \<times> real option \<times> real option \<times> real option" where
  "launch_site tr = (launchElevationVerified (tracked tr), launchElevationM (tracked tr), launchLatitudeDeg (tracked tr),
     launchLongitudeDeg (tracked tr))"

definition tracker_inv :: "vehicle_tracker \<Rightarrow> bool" where
  "tracker_inv tr \<longleftrightarrow> (armed (tracked tr) \<longrightarrow> launchSamples tr = []) \<and>
     (launchElevationVerified (tracked tr) \<longrightarrow>
        launchElevationM (tracked tr) \<noteq> None \<and> launchLatitudeDeg (tracked tr) \<noteq> None \<and> launchLongitudeDeg (tracked tr) \<noteq> None)"

lemma verify_cases:
  obtains (same) "tracked (maybeVerifyLaunchElevation obs tr) = tracked tr"
      "armed (tracked tr) \<Longrightarrow> launchSamples tr = [] \<Longrightarrow> launchSamples (maybeVerifyLaunchElevation obs tr) = []"
  | (verified) recent where "\<not> launchElevationVerified (tracked tr)" "\<not> armed (tracked tr)"
      "hasFreshHeartbeat (tracked tr) (observedAtMs obs)" "\<bar>relativeAltitudeM obs\<bar> \<le> 1 / 2"
      "recent = drop (length (launchSamples tr) + 1 - 3) (launchSamples tr @ [altitudeMslM obs])" "length recent = 3"
      "Max (set recent) - Min (set recent) \<le> 1 / 2"
      "tracked (maybeVerifyLaunchElevation obs tr) = (tracked tr)
         \<lparr>launchElevationM := Some (sum_list recent / 3), launchLatitudeDeg := Some (latitudeDeg obs),
          launchLongitudeDeg := Some (longitudeDeg obs), launchElevationVerified := True\<rparr>"
proof -
  let ?recent = "drop (length (launchSamples tr) + 1 - 3) (launchSamples tr @ [altitudeMslM obs])"
  let ?ok = "\<not> launchElevationVerified (tracked tr) \<and> \<not> armed (tracked tr) \<and>
      hasFreshHeartbeat (tracked tr) (observedAtMs obs) \<and> \<bar>relativeAltitudeM obs\<bar> \<le> 1 / 2 \<and>
      3 \<le> length (launchSamples tr) + 1 \<and> Max (set ?recent) - Min (set ?recent) \<le> 1 / 2"
  show thesis
  proof (cases ?ok)
    case True
    then have "length ?recent = 3" by simp
    with True show thesis
      by (intro verified[of ?recent]) (simp_all add: maybeVerifyLaunchElevation_def Let_def LAUNCH_SAMPLES_REQUIRED_def
          LAUNCH_STABILITY_M_def foldl_plus_real)
  next
    case False
    then show thesis
      by (intro same) (auto simp: maybeVerifyLaunchElevation_def Let_def LAUNCH_SAMPLES_REQUIRED_def LAUNCH_STABILITY_M_def)
  qed
qed

lemma position_verify:
  obtains tr1 where "observePosition obs tr = maybeVerifyLaunchElevation obs tr1" "launch_site tr1 = launch_site tr"
    "armed (tracked tr1) = armed (tracked tr)" "launchSamples tr1 = [] \<or> launchSamples tr1 = launchSamples tr"
    "lastHeartbeatMs (tracked tr1) = lastHeartbeatMs (tracked tr)"
  by (rule that[of "(if \<not> hasFreshControlTelemetry (tracked tr) (observedAtMs obs) then tr\<lparr>launchSamples := []\<rparr> else tr)\<lparr>tracked :=
      (case observed_battery obs of None \<Rightarrow> (tracked tr)\<lparr>observation := Some obs\<rparr>
       | Some b \<Rightarrow> (tracked tr)\<lparr>observation := Some obs, batteryRemainingPercent := Some b\<rparr>)\<rparr>"])
    (auto simp: observePosition_def Let_def launch_site_def split: option.split)

lemma position_inv: "tracker_inv tr \<Longrightarrow> tracker_inv (observePosition obs tr)"
proof (rule position_verify[of obs tr])
  fix tr1
  assume inv: "tracker_inv tr" and tr1: "observePosition obs tr = maybeVerifyLaunchElevation obs tr1"
    "launch_site tr1 = launch_site tr" "armed (tracked tr1) = armed (tracked tr)"
    "launchSamples tr1 = [] \<or> launchSamples tr1 = launchSamples tr"
  have inv1: "tracker_inv tr1" using inv tr1 by (auto simp: tracker_inv_def launch_site_def)
  show ?thesis
  proof (cases rule: verify_cases[of obs tr1])
    case same
    then show ?thesis using inv1 by (auto simp: tr1(1) tracker_inv_def)
  next
    case (verified recent)
    then show ?thesis by (simp add: tr1(1) tracker_inv_def)
  qed
qed

lemma tracker_step_inv: "tracker_inv tr \<Longrightarrow> tracker_inv (tracker_step dialect tr call)"
proof (cases call)
  case (Heartbeat hb)
  assume "tracker_inv tr"
  then show ?thesis by (auto simp: Heartbeat observeHeartbeat_def tracker_inv_def Let_def)
next
  case (SysStatus b)
  assume "tracker_inv tr"
  then show ?thesis by (auto simp: SysStatus observeSysStatus_def tracker_inv_def split: option.split)
next
  case (Position obs)
  assume "tracker_inv tr"
  then show ?thesis by (simp add: Position position_inv)
next
  case (GcsFailsafe e)
  assume "tracker_inv tr"
  then show ?thesis by (simp add: GcsFailsafe observeGcsFailsafe_def tracker_inv_def)
qed

interpretation vehicle_tracker: guarded_machine new_tracker "tracker_step dialect" tracker_inv
  for dialect
proof
  show "tracker_inv new_tracker" by (simp add: new_tracker_def emptySnapshot_def tracker_inv_def)
  show "tracker_inv tr \<Longrightarrow> tracker_inv (tracker_step dialect tr call)" for tr call by (rule tracker_step_inv)
qed

lemma launch_site_step:
  assumes "launchElevationVerified (tracked tr)"
  shows "launch_site (tracker_step dialect tr call) = launch_site tr"
proof (cases call)
  case (Position obs)
  show ?thesis
  proof (rule position_verify[of obs tr])
    fix tr1
    assume tr1: "observePosition obs tr = maybeVerifyLaunchElevation obs tr1" "launch_site tr1 = launch_site tr"
    then have "launchElevationVerified (tracked tr1)" using assms by (simp add: launch_site_def)
    then show ?thesis using tr1 by (simp add: Position maybeVerifyLaunchElevation_def)
  qed
next
  case (SysStatus b)
  then show ?thesis by (auto simp: observeSysStatus_def launch_site_def split: option.split)
qed (auto simp: observeHeartbeat_def observeGcsFailsafe_def launch_site_def Let_def)

lemma launch_site_run:
  assumes "launchElevationVerified (tracked tr)"
  shows "launch_site (foldl (tracker_step dialect) tr calls) = launch_site tr"
  using assms
proof (induction calls arbitrary: tr)
  case (Cons call calls)
  have "launch_site (tracker_step dialect tr call) = launch_site tr" by (rule launch_site_step[OF Cons.prems])
  moreover from this have "launchElevationVerified (tracked (tracker_step dialect tr call))"
    using Cons.prems by (simp add: launch_site_def)
  ultimately show ?case using Cons.IH by simp
qed simp

text \<open>C25: once the tracker has verified the launch elevation, it knows the elevation and the launch position, and no
  later heartbeat, position or status message changes them: targets above mean sea level are always converted with the
  elevation of the actual launch site.\<close>

theorem launch_site_fixed:
  assumes "tr = foldl (tracker_step dialect) new_tracker earlier" "launchElevationVerified (tracked tr)"
  shows "\<exists>elevation lat lon. launch_site (foldl (tracker_step dialect) tr later) = (True, Some elevation, Some lat, Some lon) \<and>
    launch_site tr = (True, Some elevation, Some lat, Some lon)"
  using launch_site_run[OF assms(2), of dialect later] vehicle_tracker.inv_run[of dialect earlier] assms
  by (auto simp: tracker_inv_def launch_site_def)

definition demo_dialect :: mavlink_dialect where
  "demo_dialect = \<lparr>copter_mode_names = [(4, ''GUIDED''), (6, ''RTL''), (9, ''LAND'')], guided_mode = 4, rtl_mode = 6,
     land_mode = 9, armed_flag = 128, quadrotor_type = 2, ardupilot_autopilot = 3, cmd_nav_takeoff = 22,
     cmd_nav_return_to_launch = 20, cmd_nav_land = 21, cmd_do_set_mode = 176, frame_global_int = 5, result_accepted = 0\<rparr>"

definition demo_position :: "real \<Rightarrow> real \<Rightarrow> vehicle_observation" where
  "demo_position alt t = \<lparr>latitudeDeg = 1, longitudeDeg = 2, altitudeMslM = alt, relativeAltitudeM = 0, groundSpeedMS = 0,
     headingDeg = None, observed_battery = None, observedAtMs = t\<rparr>"

definition demo_heartbeat :: "real \<Rightarrow> heartbeat_observation" where
  "demo_heartbeat t = \<lparr>hb_systemId = 1, hb_componentId = 1, hb_vehicleType = 2, hb_autopilot = 3, hb_baseMode = 0,
     hb_customMode = 4, receivedAtMs = t\<rparr>"

definition demo_calls :: "tracker_call list" where
  "demo_calls = [Heartbeat (demo_heartbeat 900), Position (demo_position 30 900), Position (demo_position 30 950), Position (demo_position 30 1000)]"

lemmas tracker_eval = new_tracker_def emptySnapshot_def observeHeartbeat_def observePosition_def maybeVerifyLaunchElevation_def
  Let_def demo_position_def demo_heartbeat_def hasFreshControlTelemetry_def hasFreshHeartbeat_def HEARTBEAT_FRESHNESS_MS_def
  POSITION_FRESHNESS_MS_def LAUNCH_SAMPLES_REQUIRED_def LAUNCH_STABILITY_M_def isArmedBaseMode_def demo_dialect_def

lemma demo_verified: "launchElevationVerified (tracked (foldl (tracker_step demo_dialect) new_tracker demo_calls))"
  by (simp add: demo_calls_def tracker_eval)

theorem launch_site_fixed_witness:
  "\<exists>elevation lat lon. launch_site (foldl (tracker_step demo_dialect)
       (foldl (tracker_step demo_dialect) new_tracker demo_calls) [Position (demo_position 90 2000)]) =
     (True, Some elevation, Some lat, Some lon)"
  using launch_site_fixed[OF refl demo_verified, of "[Position (demo_position 90 2000)]"] by blast

text \<open>C38: the launch elevation is verified only by a position that arrives with a fresh heartbeat while the aircraft is
  disarmed and within half a metre of the ground, and the elevation is then within half a metre of the altitude just
  observed; before, no elevation was in use.\<close>

theorem launch_verification_sound:
  assumes "\<not> launchElevationVerified (tracked tr)" "launchElevationVerified (tracked (tracker_step dialect tr call))"
  shows "\<exists>obs m. call = Position obs \<and> \<not> armed (tracked tr) \<and> hasFreshHeartbeat (tracked tr) (observedAtMs obs) \<and>
    \<bar>relativeAltitudeM obs\<bar> \<le> 1 / 2 \<and> launchElevationM (tracked (tracker_step dialect tr call)) = Some m \<and>
    \<bar>m - altitudeMslM obs\<bar> \<le> 1 / 2"
proof -
  have "launchElevationVerified (tracked (tracker_step dialect tr call)) = launchElevationVerified (tracked tr)"
    if "\<And>obs. call \<noteq> Position obs"
    using that by (cases call) (auto simp: observeHeartbeat_def observeSysStatus_def observeGcsFailsafe_def Let_def split: option.splits)
  then obtain obs where call: "call = Position obs" using assms by blast
  show ?thesis
  proof (rule position_verify[of obs tr])
    fix tr1
    assume tr1: "observePosition obs tr = maybeVerifyLaunchElevation obs tr1" "launch_site tr1 = launch_site tr"
      "armed (tracked tr1) = armed (tracked tr)" "lastHeartbeatMs (tracked tr1) = lastHeartbeatMs (tracked tr)"
    show ?thesis
    proof (cases rule: verify_cases[of obs tr1])
      case same
      then show ?thesis using assms tr1 by (simp add: call launch_site_def)
    next
      case (verified recent)
      have ne: "recent \<noteq> []" using verified(6) by auto
      have "altitudeMslM obs \<in> set recent" using verified(5,6) by (auto simp: drop_append)
      then have "Min (set recent) \<le> altitudeMslM obs" "altitudeMslM obs \<le> Max (set recent)" by auto
      moreover have "Min (set recent) \<le> sum_list recent / 3" "sum_list recent / 3 \<le> Max (set recent)"
        using mean_bounds[OF ne] verified(6) by simp_all
      ultimately have "\<bar>sum_list recent / 3 - altitudeMslM obs\<bar> \<le> 1 / 2"
        using verified(7) unfolding abs_le_iff by linarith
      then show ?thesis
        using verified(2,3,4,8) tr1
        by (intro exI[of _ obs] exI[of _ "sum_list recent / 3"]) (simp add: call hasFreshHeartbeat_def)
    qed
  qed
qed

definition demo_landed :: vehicle_tracker where
  "demo_landed = \<lparr>tracked = emptySnapshot\<lparr>lastHeartbeatMs := Some 900, observation := Some (demo_position 30 900)\<rparr>,
     launchSamples = [30, 30]\<rparr>"

theorem launch_verification_sound_witness:
  "\<exists>m. launchElevationM (tracked (tracker_step demo_dialect demo_landed (Position (demo_position 30 1000)))) = Some m \<and>
     \<bar>m - 30\<bar> \<le> 1 / 2"
proof -
  have "\<not> launchElevationVerified (tracked demo_landed)"
    "launchElevationVerified (tracked (tracker_step demo_dialect demo_landed (Position (demo_position 30 1000))))"
    by (simp_all add: demo_landed_def tracker_eval)
  from launch_verification_sound[OF this] show ?thesis by (auto simp: demo_position_def)
qed

end
