(* ===== verification/Task_Engine.thy ===== *)
theory Task_Engine
  imports Asset_Vehicle
begin

text \<open>
  Flight task execution of the Asset host, \<^verbatim>\<open>edge/asset/src/task-engine.ts\<close>. \<open>engine\<close> has the fields of
  \<^verbatim>\<open>TaskEngine\<close> and the trace of what the engine did to the outside: reports to Core, messages to the
  aircraft and reads of the control state, each with whether it succeeded. The outside is the parameter \<open>context\<close>:
  the answer to the \<open>n\<close>-th outside call is fixed by its position in the trace, so that every answer and every failure
  at every await is covered. The controller awaits each method of the engine before it calls the
  next one (\<^verbatim>\<open>controller.ts\<close>, \<^verbatim>\<open>run\<close>), so methods do not interleave. Numbers are exact reals; \<open>None\<close> stands
  for \<^verbatim>\<open>Number.POSITIVE_INFINITY\<close> in the best remaining distances. Report texts are data.
\<close>

declare map_of_eq_Some_iff [simp del]

section \<open>Definitions\<close>

datatype task_status = PendingTask | Acknowledged | InProgress | Completed | FailedTask | Cancelled

datatype input_value = FiniteNumber real | OtherValue

record authoritative_task =
  taskId :: jstring
  command :: string
  task_status :: task_status
  cancellationCode :: "string option"
  task_input :: "(string, input_value) js_map"

datatype failure_code = PreconditionFailed | ExecutionFailed

datatype problem =
    RequiresGuided string
  | IdentityMismatch
  | StaleTelemetry
  | BatteryProblem readiness_failure
  | NotAirborne
  | NotArmed
  | NoTakeoffAltitude
  | LaunchUnverified
  | TargetTooLow
  | GotoInputMissing

datatype report_message =
    Problems "problem list"
  | PilotTakeover string
  | GotoDuringTakeoff
  | StartUnconfirmed
  | SendFailed js_error
  | NoCompletion real
  | NoProgress real

datatype terminal_report =
    CompleteReport jstring
  | FailReport jstring failure_code report_message

fun report_task :: "terminal_report \<Rightarrow> jstring" where
  "report_task (CompleteReport i) = i"
| "report_task (FailReport i _ _) = i"

record control_state =
  control_snapshot :: vehicle_snapshot
  control_nowMs :: real

datatype engine_action =
    ReportStart jstring
  | ReportComplete jstring
  | ReportFail jstring failure_code report_message
  | Send mav_message
  | ReadControl

record engine_context =
  dialect :: mavlink_dialect
  config :: asset_config
  answer :: "nat \<Rightarrow> js_error option"
  control :: "nat \<Rightarrow> control_state result"

record recovery_progress =
  highestAltitudeM :: real
  lowestAltitudeM :: real
  closestLaunchDistanceM :: "real option"
  expectedModeIndex :: int

record active_execution =
  task :: authoritative_task
  startedAtMs :: real
  lastProgressAtMs :: real
  recoveryProgress :: "recovery_progress option"
  startRemainingM :: "real option"
  bestRemainingM :: "real option"
  settleSinceMs :: "real option"
  expectedModes :: "string list"

record engine =
  active :: "active_execution option"
  finished :: "jstring list"
  reholdOnGuided :: bool
  holdRequiredBeforeMovement :: bool
  pendingTerminalReport :: "terminal_report option"
  lastMode :: "string option"
  trace :: "(engine_action \<times> bool) list"

definition new_engine :: engine where
  "new_engine = \<lparr>active = None, finished = [], reholdOnGuided = False, holdRequiredBeforeMovement = False,
     pendingTerminalReport = None, lastMode = None, trace = []\<rparr>"

subsection \<open>Outside calls\<close>

definition perform :: "engine_context \<Rightarrow> engine_action \<Rightarrow> engine \<Rightarrow> (engine, unit) effect" where
  "perform cx a e =
     (case answer cx (length (trace e)) of
        None \<Rightarrow> (Inr (), e\<lparr>trace := trace e @ [(a, True)]\<rparr>)
      | Some err \<Rightarrow> (Inl err, e\<lparr>trace := trace e @ [(a, False)]\<rparr>))"

definition getControlState :: "engine_context \<Rightarrow> engine \<Rightarrow> (engine, control_state) effect" where
  "getControlState cx e =
     (case control cx (length (trace e)) of
        Inr cs \<Rightarrow> (Inr cs, e\<lparr>trace := trace e @ [(ReadControl, True)]\<rparr>)
      | Inl err \<Rightarrow> (Inl err, e\<lparr>trace := trace e @ [(ReadControl, False)]\<rparr>))"

subsection \<open>Geometry and inputs\<close>

definition isFlightCommand :: "string \<Rightarrow> bool" where
  "isFlightCommand c \<longleftrightarrow> c = ''flight.takeoff'' \<or> c = ''flight.goto'' \<or> c = ''flight.return_to_launch'' \<or> c = ''flight.land''"

definition haversineM :: "real \<Rightarrow> real \<Rightarrow> real \<Rightarrow> real \<Rightarrow> real" where
  "haversineM lat1 lon1 lat2 lon2 =
     (let dLat = (lat2 - lat1) * pi / 180;
          dLon = (lon2 - lon1) * pi / 180;
          a = (sin (dLat / 2))\<^sup>2 + cos (lat1 * pi / 180) * cos (lat2 * pi / 180) * (sin (dLon / 2))\<^sup>2
      in 2 * 6371000 * arcsin (sqrt a))"

definition numberInput :: "(string, input_value) js_map \<Rightarrow> string \<Rightarrow> real option" where
  "numberInput inp key =
     (case js_get inp key of Some (FiniteNumber x) \<Rightarrow> Some x | _ \<Rightarrow> None)"

definition launchDistanceM :: "vehicle_snapshot \<Rightarrow> real option" where
  "launchDistanceM s =
     (case (observation s, launchLatitudeDeg s, launchLongitudeDeg s) of
        (Some obs, Some lat, Some lon) \<Rightarrow> Some (haversineM (latitudeDeg obs) (longitudeDeg obs) lat lon)
      | _ \<Rightarrow> None)"

definition remaining :: "authoritative_task \<Rightarrow> vehicle_snapshot \<Rightarrow> real option" where
  "remaining t s =
     (case observation s of
        None \<Rightarrow> None
      | Some obs \<Rightarrow>
          if command t = ''flight.takeoff'' then
            (case numberInput (task_input t) ''altitude_m'' of
               None \<Rightarrow> None
             | Some target \<Rightarrow> Some \<bar>target - altitudeMslM obs\<bar>)
          else if command t = ''flight.goto'' then
            (case (numberInput (task_input t) ''latitude'', numberInput (task_input t) ''longitude'',
                   numberInput (task_input t) ''altitude_m'') of
               (Some lat, Some lon, Some alt) \<Rightarrow>
                 Some (max (haversineM (latitudeDeg obs) (longitudeDeg obs) lat lon) \<bar>alt - altitudeMslM obs\<bar>)
             | _ \<Rightarrow> None)
          else None)"

definition expectedModesFor :: "string \<Rightarrow> string list" where
  "expectedModesFor c =
     (if c = ''flight.return_to_launch'' then [''GUIDED'', ''RTL'', ''LAND'']
      else if c = ''flight.land'' then [''GUIDED'', ''LAND''] else [''GUIDED''])"

text \<open>\<^verbatim>\<open>Array.prototype.indexOf\<close>\<close>

fun index_of :: "'a \<Rightarrow> 'a list \<Rightarrow> int" where
  "index_of x [] = -1"
| "index_of x (y # ys) = (if x = y then 0 else let k = index_of x ys in if k = -1 then -1 else k + 1)"

subsection \<open>Preconditions\<close>

definition takeoff_problems :: "authoritative_task \<Rightarrow> vehicle_snapshot \<Rightarrow> problem list" where
  "takeoff_problems t s =
     push_if (\<not> armed s) NotArmed @
     (case numberInput (task_input t) ''altitude_m'' of
        None \<Rightarrow> [NoTakeoffAltitude]
      | Some target \<Rightarrow>
          (case launchElevationM s of
             None \<Rightarrow> [LaunchUnverified]
           | Some elevation \<Rightarrow>
               if \<not> launchElevationVerified s then [LaunchUnverified]
               else if target \<le> elevation + 3 / 10 then [TargetTooLow] else []))"

definition preconditions :: "engine_context \<Rightarrow> authoritative_task \<Rightarrow> vehicle_snapshot \<Rightarrow> real \<Rightarrow> problem list" where
  "preconditions cx t s nowMs =
     push_if (\<not> guided s) (RequiresGuided (mode s)) @
     push_if (case identity s of None \<Rightarrow> True
        | Some ident \<Rightarrow> systemId ident \<noteq> vehicleSystemId (config cx) \<or> componentId ident \<noteq> vehicleComponentId (config cx))
       IdentityMismatch @
     push_if (\<not> hasFreshControlTelemetry s nowMs) StaleTelemetry @
     (if command t = ''flight.takeoff'' \<or> command t = ''flight.goto'' then
        (case checkBatteryReadiness s (config cx) of None \<Rightarrow> [] | Some f \<Rightarrow> [BatteryProblem f]) else []) @
     (if command t = ''flight.return_to_launch'' \<or> command t = ''flight.land'' then
        push_if (\<not> armed s \<or> \<bar>case observation s of None \<Rightarrow> 0 | Some obs \<Rightarrow> relativeAltitudeM obs\<bar> \<le> 3 / 10) NotAirborne
      else []) @
     (if command t = ''flight.takeoff'' then takeoff_problems t s else []) @
     (if command t = ''flight.goto'' then
        push_if (numberInput (task_input t) ''latitude'' = None \<or> numberInput (task_input t) ''longitude'' = None \<or>
                 numberInput (task_input t) ''altitude_m'' = None) GotoInputMissing
      else [])"

subsection \<open>Reports and holds\<close>

fun report_action :: "terminal_report \<Rightarrow> engine_action" where
  "report_action (CompleteReport i) = ReportComplete i"
| "report_action (FailReport i code message) = ReportFail i code message"

definition flushTerminalReport :: "engine_context \<Rightarrow> engine \<Rightarrow> (engine, unit) effect" where
  "flushTerminalReport cx e =
     (case pendingTerminalReport e of
        None \<Rightarrow> (Inr (), e)
      | Some report \<Rightarrow>
          then_do (perform cx (report_action report) e) (\<lambda>_ e.
            (Inr (), if pendingTerminalReport e = Some report then e\<lparr>pendingTerminalReport := None\<rparr> else e)))"

definition reportTerminal :: "engine_context \<Rightarrow> terminal_report \<Rightarrow> engine \<Rightarrow> (engine, unit) effect" where
  "reportTerminal cx report e = flushTerminalReport cx (e\<lparr>pendingTerminalReport := Some report\<rparr>)"

definition establishHold :: "engine_context \<Rightarrow> vehicle_snapshot \<Rightarrow> real \<Rightarrow> engine \<Rightarrow> (engine, bool) effect" where
  "establishHold cx s nowMs e =
     (case observation s of
        None \<Rightarrow> (Inr False, e)
      | Some obs \<Rightarrow>
          if \<not> guided s \<or> \<not> hasFreshControlTelemetry s nowMs then (Inr False, e)
          else then_do (perform cx (Send (holdPositionCommand (dialect cx) (vehicleSystemId (config cx))
                   (vehicleComponentId (config cx)) (latitudeDeg obs) (longitudeDeg obs) (altitudeMslM obs))) e)
                 (\<lambda>_ e. (Inr True, e)))"

definition finish_active :: "engine \<Rightarrow> jstring \<Rightarrow> engine" where
  "finish_active e i = e\<lparr>active := None, finished := set_add i (finished e)\<rparr>"

definition noteTakeover :: "engine_context \<Rightarrow> string \<Rightarrow> engine \<Rightarrow> (engine, unit) effect" where
  "noteTakeover cx m e =
     (case active e of
        None \<Rightarrow> (Inr (), e)
      | Some a \<Rightarrow>
          if m \<in> set (expectedModes a) then (Inr (), e)
          else reportTerminal cx (FailReport (taskId (task a)) ExecutionFailed (PilotTakeover m))
                 ((finish_active e (taskId (task a)))\<lparr>reholdOnGuided := True\<rparr>))"

definition noteGuidedReturn :: "engine_context \<Rightarrow> vehicle_snapshot \<Rightarrow> real \<Rightarrow> engine \<Rightarrow> (engine, unit) effect" where
  "noteGuidedReturn cx s nowMs e =
     (if \<not> reholdOnGuided e then (Inr (), e)
      else then_do (establishHold cx s nowMs e) (\<lambda>held e.
        (Inr (), if held then e\<lparr>reholdOnGuided := False\<rparr> else e)))"

definition abandonActiveForRecovery :: "bool \<Rightarrow> engine \<Rightarrow> jstring option \<times> engine" where
  "abandonActiveForRecovery rehold e =
     (let e1 = e\<lparr>reholdOnGuided := reholdOnGuided e \<or> rehold\<rparr>
      in case active e1 of
           None \<Rightarrow> (None, e1)
         | Some a \<Rightarrow> (Some (taskId (task a)), finish_active e1 (taskId (task a))))"

definition hasActiveTask :: "engine \<Rightarrow> bool" where
  "hasActiveTask e \<longleftrightarrow> active e \<noteq> None"

definition activeTaskId :: "engine \<Rightarrow> jstring option" where
  "activeTaskId e = map_option (\<lambda>a. taskId (task a)) (active e)"

definition reconciliationTaskId :: "engine \<Rightarrow> jstring option" where
  "reconciliationTaskId e =
     (case pendingTerminalReport e of Some r \<Rightarrow> Some (report_task r) | None \<Rightarrow> activeTaskId e)"

definition activeCommand :: "engine \<Rightarrow> string option" where
  "activeCommand e =
     (case active e of None \<Rightarrow> None
      | Some a \<Rightarrow> if isFlightCommand (command (task a)) then Some (command (task a)) else None)"

definition needsRehold :: "engine \<Rightarrow> bool" where
  "needsRehold e = reholdOnGuided e"

definition observeMode :: "engine_context \<Rightarrow> vehicle_snapshot \<Rightarrow> engine \<Rightarrow> (engine, unit) effect" where
  "observeMode cx s e =
     (if customMode s = None \<or> Some (mode s) = lastMode e then (Inr (), e)
      else
        let previousMode = lastMode e;
            e1 = e\<lparr>lastMode := Some (mode s)\<rparr>
        in if (case (active e1, previousMode) of
                 (Some a, Some previous) \<Rightarrow> previous \<in> set (expectedModes a) \<and> mode s \<notin> set (expectedModes a)
               | _ \<Rightarrow> False)
           then noteTakeover cx (mode s) e1
           else if previousMode = Some ''GUIDED'' \<and> mode s \<noteq> ''GUIDED'' then noteTakeover cx (mode s) e1
           else (Inr (), e1))"

subsection \<open>Reconciliation and rejection\<close>

definition is_terminal :: "task_status \<Rightarrow> bool" where
  "is_terminal st \<longleftrightarrow> st = Completed \<or> st = FailedTask \<or> st = Cancelled"

definition is_open :: "task_status \<Rightarrow> bool" where
  "is_open st \<longleftrightarrow> st = PendingTask \<or> st = Acknowledged"

text \<open>\<^verbatim>\<open>new Map(tasks.map((task) => [task.taskId, task]))\<close>: the last task of an id wins.\<close>

definition by_id :: "authoritative_task list \<Rightarrow> jstring \<Rightarrow> authoritative_task option" where
  "by_id tasks i = map_of (rev (map (\<lambda>t. (taskId t, t)) tasks)) i"

definition reconcileAuthoritative :: "authoritative_task list \<Rightarrow> engine \<Rightarrow> engine" where
  "reconcileAuthoritative tasks e =
     (let e1 = (case pendingTerminalReport e of
            None \<Rightarrow> e
          | Some r \<Rightarrow> (case by_id tasks (report_task r) of
              None \<Rightarrow> e
            | Some t \<Rightarrow> if is_terminal (task_status t) then e\<lparr>pendingTerminalReport := None\<rparr> else e));
          e2 = (case active e1 of
            None \<Rightarrow> e1
          | Some a \<Rightarrow> (case by_id tasks (taskId (task a)) of
              None \<Rightarrow> e1
            | Some t \<Rightarrow>
                if is_terminal (task_status t) then
                  let e' = finish_active e1 (taskId t)
                  in if task_status t = Cancelled \<and> cancellationCode t = Some ''requested'' \<and> command (task a) = ''flight.goto''
                     then e'\<lparr>holdRequiredBeforeMovement := True\<rparr> else e'
                else e1\<lparr>active := Some (a\<lparr>task := t\<rparr>)\<rparr>))
      in e2\<lparr>finished := foldl (\<lambda>done t. if is_terminal (task_status t) then set_add (taskId t) done else done) (finished e2) tasks\<rparr>)"

fun reject_tasks ::
    "engine_context \<Rightarrow> (authoritative_task \<Rightarrow> bool) \<Rightarrow> (authoritative_task \<Rightarrow> report_message) \<Rightarrow>
     authoritative_task list \<Rightarrow> engine \<Rightarrow> (engine, unit) effect" where
  "reject_tasks cx P message [] e = (Inr (), e)"
| "reject_tasks cx P message (t # ts) e =
     (if P t \<and> is_open (task_status t) \<and> taskId t \<notin> set (finished e) then
        then_do (reportTerminal cx (FailReport (taskId t) PreconditionFailed (message t))
            (e\<lparr>finished := set_add (taskId t) (finished e)\<rparr>))
          (\<lambda>_ e. reject_tasks cx P message ts e)
      else reject_tasks cx P message ts e)"

definition rejectGotoDuringTakeoff :: "engine_context \<Rightarrow> authoritative_task list \<Rightarrow> engine \<Rightarrow> (engine, unit) effect" where
  "rejectGotoDuringTakeoff cx tasks e =
     (if map_option (\<lambda>a. command (task a)) (active e) \<noteq> Some ''flight.takeoff'' then (Inr (), e)
      else reject_tasks cx (\<lambda>t. command t = ''flight.goto'') (\<lambda>_. GotoDuringTakeoff) tasks e)"

definition rejectPendingOutsideGuided ::
    "engine_context \<Rightarrow> authoritative_task list \<Rightarrow> vehicle_snapshot \<Rightarrow> real \<Rightarrow> engine \<Rightarrow> (engine, unit) effect" where
  "rejectPendingOutsideGuided cx tasks s nowMs e =
     reject_tasks cx (\<lambda>t. isFlightCommand (command t)) (\<lambda>t. Problems (preconditions cx t s nowMs)) tasks e"

subsection \<open>Starting a task\<close>

definition dispatch :: "engine_context \<Rightarrow> authoritative_task \<Rightarrow> vehicle_snapshot \<Rightarrow> engine \<Rightarrow> (engine, unit) effect" where
  "dispatch cx t s e =
     (let sysid = vehicleSystemId (config cx); compid = vehicleComponentId (config cx)
      in if command t = ''flight.takeoff'' then
           (case (numberInput (task_input t) ''altitude_m'', launchElevationM s) of
              (Some target, Some launch) \<Rightarrow> perform cx (Send (takeoffCommand (dialect cx) sysid compid (target - launch))) e
            | _ \<Rightarrow> (Inr (), e))
         else if command t = ''flight.goto'' then
           (case observation s of
              None \<Rightarrow> (Inr (), e)
            | Some obs \<Rightarrow>
                perform cx (Send (gotoPositionCommand (dialect cx) sysid compid
                    (case numberInput (task_input t) ''latitude'' of Some x \<Rightarrow> x | None \<Rightarrow> latitudeDeg obs)
                    (case numberInput (task_input t) ''longitude'' of Some x \<Rightarrow> x | None \<Rightarrow> longitudeDeg obs)
                    (case numberInput (task_input t) ''altitude_m'' of Some x \<Rightarrow> x | None \<Rightarrow> altitudeMslM obs))) e)
         else if command t = ''flight.return_to_launch'' then perform cx (Send (returnToLaunchCommand (dialect cx) sysid compid)) e
         else if command t = ''flight.land'' then perform cx (Send (landCommand (dialect cx) sysid compid)) e
         else (Inr (), e))"

definition new_execution :: "authoritative_task \<Rightarrow> control_state \<Rightarrow> active_execution" where
  "new_execution t cs =
     (let s = control_snapshot cs; modes = expectedModesFor (command t)
      in \<lparr>task = t, startedAtMs = control_nowMs cs, lastProgressAtMs = control_nowMs cs,
          recoveryProgress =
            (case observation s of
               Some obs \<Rightarrow>
                 if command t = ''flight.return_to_launch'' \<or> command t = ''flight.land''
                 then Some \<lparr>highestAltitudeM = altitudeMslM obs, lowestAltitudeM = altitudeMslM obs,
                            closestLaunchDistanceM = launchDistanceM s, expectedModeIndex = index_of (mode s) modes\<rparr>
                 else None
             | None \<Rightarrow> None),
          startRemainingM = remaining t s, bestRemainingM = remaining t s, settleSinceMs = None, expectedModes = modes\<rparr>)"

text \<open>\<^verbatim>\<open>adoptNext\<close> from the answer of \<^verbatim>\<open>reportStart\<close> on; a failing await in the \<^verbatim>\<open>try\<close> blocks continues in their \<^verbatim>\<open>catch\<close>.\<close>

definition adopt_started :: "engine_context \<Rightarrow> authoritative_task \<Rightarrow> engine \<Rightarrow> (engine, control_state option) effect" where
  "adopt_started cx candidate e =
     (case getControlState cx e of
        (Inl err, e) \<Rightarrow> (Inl err, e\<lparr>finished := set_add (taskId candidate) (finished e)\<rparr>)
      | (Inr current, e) \<Rightarrow>
          let currentProblems = preconditions cx candidate (control_snapshot current) (control_nowMs current)
          in if currentProblems \<noteq> [] then
               then_do (reportTerminal cx (FailReport (taskId candidate) PreconditionFailed (Problems currentProblems))
                   (e\<lparr>finished := set_add (taskId candidate) (finished e)\<rparr>))
                 (\<lambda>_ e. (Inr (Some current), e))
             else
               (case dispatch cx candidate (control_snapshot current) (e\<lparr>active := Some (new_execution candidate current)\<rparr>) of
                  (Inr _, e) \<Rightarrow> (Inr (Some current), e)
                | (Inl err, e) \<Rightarrow>
                    then_do (reportTerminal cx (FailReport (taskId candidate) ExecutionFailed (SendFailed err))
                        (finish_active e (taskId candidate)))
                      (\<lambda>_ e. (Inr (Some current), e))))"

definition adoptNext ::
    "engine_context \<Rightarrow> authoritative_task list \<Rightarrow> vehicle_snapshot \<Rightarrow> real \<Rightarrow> engine \<Rightarrow> (engine, control_state option) effect" where
  "adoptNext cx tasks s nowMs e =
     (case filter (\<lambda>t. isFlightCommand (command t) \<and> is_open (task_status t) \<and> taskId t \<notin> set (finished e)) tasks of
        [] \<Rightarrow> (Inr None, e)
      | candidate # _ \<Rightarrow>
          let problems = preconditions cx candidate s nowMs
          in if problems \<noteq> [] then
               then_do (reportTerminal cx (FailReport (taskId candidate) PreconditionFailed (Problems problems))
                   (e\<lparr>finished := set_add (taskId candidate) (finished e)\<rparr>))
                 (\<lambda>_ e. (Inr None, e))
             else
               (case perform cx (ReportStart (taskId candidate)) e of
                  (Inl err, e) \<Rightarrow>
                    (Inl err, e\<lparr>finished := set_add (taskId candidate) (finished e),
                                pendingTerminalReport := Some (FailReport (taskId candidate) ExecutionFailed StartUnconfirmed)\<rparr>)
                | (Inr _, e) \<Rightarrow> adopt_started cx candidate e))"

subsection \<open>Advancing the active task\<close>

definition failActive ::
    "engine_context \<Rightarrow> failure_code \<Rightarrow> report_message \<Rightarrow> vehicle_snapshot \<Rightarrow> real \<Rightarrow> engine \<Rightarrow> (engine, unit) effect" where
  "failActive cx code message s nowMs e =
     (case active e of
        None \<Rightarrow> (Inr (), e)
      | Some a \<Rightarrow>
          let cmd = command (task a);
              e1 = (finish_active e (taskId (task a)))\<lparr>pendingTerminalReport := Some (FailReport (taskId (task a)) code message)\<rparr>;
              recover =
                (if (cmd = ''flight.goto'' \<or> cmd = ''flight.takeoff'') \<and> guided s \<and> armed s \<and> hasFreshControlTelemetry s nowMs then
                   if cmd = ''flight.goto'' then then_do (establishHold cx s nowMs e1) (\<lambda>_ e. (Inr (), e))
                   else (case observation s of
                       None \<Rightarrow> (Inr (), e1)
                     | Some obs \<Rightarrow>
                         if \<bar>relativeAltitudeM obs\<bar> > 1 / 2
                         then perform cx (Send (landCommand (dialect cx) (vehicleSystemId (config cx)) (vehicleComponentId (config cx)))) e1
                         else (Inr (), e1))
                 else (Inr (), e1))
          in then_do recover (\<lambda>_ e. flushTerminalReport cx e))"

definition best_improved :: "real option \<Rightarrow> real option \<Rightarrow> bool" where
  "best_improved new best =
     (case new of None \<Rightarrow> False | Some x \<Rightarrow> (case best of None \<Rightarrow> True | Some b \<Rightarrow> x < b))"

definition recoveryProgressed :: "active_execution \<Rightarrow> vehicle_snapshot \<Rightarrow> bool \<times> active_execution" where
  "recoveryProgressed a s =
     (case (recoveryProgress a, observation s) of
        (Some p, Some obs) \<Rightarrow>
          let modeIndex = index_of (mode s) (expectedModes a);
              progressed0 = (modeIndex > expectedModeIndex p);
              p0 = (if progressed0 then p\<lparr>expectedModeIndex := modeIndex\<rparr> else p);
              returning = (command (task a) = ''flight.return_to_launch'');
              alt = altitudeMslM obs;
              (progressed1, p1) =
                (if returning \<and> alt \<ge> highestAltitudeM p0 + 1 / 2
                 then (True, p0\<lparr>highestAltitudeM := alt, lowestAltitudeM := alt\<rparr>)
                 else if alt \<le> lowestAltitudeM p0 - 1 / 2 then (True, p0\<lparr>lowestAltitudeM := alt\<rparr>)
                 else (progressed0, p0));
              (progressed2, p2) =
                (case launchDistanceM s of
                   None \<Rightarrow> (progressed1, p1)
                 | Some d \<Rightarrow>
                     if returning \<and> (case closestLaunchDistanceM p1 of None \<Rightarrow> True | Some c \<Rightarrow> d \<le> c - 1 / 2)
                     then (True, p1\<lparr>closestLaunchDistanceM := Some d\<rparr>) else (progressed1, p1))
          in (progressed2, a\<lparr>recoveryProgress := Some p2\<rparr>)
      | _ \<Rightarrow> (False, a))"

definition isComplete :: "engine_context \<Rightarrow> active_execution \<Rightarrow> vehicle_snapshot \<Rightarrow> real \<Rightarrow> bool \<times> active_execution" where
  "isComplete cx a s nowMs =
     (if \<not> hasFreshControlTelemetry s nowMs then (False, a)
      else case observation s of
          None \<Rightarrow> (False, a)
        | Some obs \<Rightarrow>
            if command (task a) = ''flight.takeoff'' then
              (case numberInput (task_input (task a)) ''altitude_m'' of
                 None \<Rightarrow> (False, a)
               | Some target \<Rightarrow>
                   if guided s \<and> armed s \<and> relativeAltitudeM obs > 3 / 10 \<and>
                      \<bar>target - altitudeMslM obs\<bar> \<le> altitudeToleranceM (config cx) \<and> groundSpeedMS obs \<le> 1 / 2
                   then let since = (case settleSinceMs a of None \<Rightarrow> nowMs | Some t \<Rightarrow> t)
                        in (nowMs - since \<ge> hoverSettleSeconds (config cx) * 1000, a\<lparr>settleSinceMs := Some since\<rparr>)
                   else (False, a\<lparr>settleSinceMs := None\<rparr>))
            else if command (task a) = ''flight.goto'' then
              (case (numberInput (task_input (task a)) ''latitude'', numberInput (task_input (task a)) ''longitude'',
                     numberInput (task_input (task a)) ''altitude_m'') of
                 (Some lat, Some lon, Some alt) \<Rightarrow>
                   (haversineM (latitudeDeg obs) (longitudeDeg obs) lat lon \<le> arrivalRadiusM (config cx) \<and>
                    \<bar>alt - altitudeMslM obs\<bar> \<le> altitudeToleranceM (config cx), a)
               | _ \<Rightarrow> (False, a))
            else if command (task a) = ''flight.return_to_launch'' \<or> command (task a) = ''flight.land'' then
              if armed s \<or> \<bar>relativeAltitudeM obs\<bar> > 3 / 10 then (False, a)
              else if command (task a) = ''flight.land'' then (True, a)
              else (case (launchLatitudeDeg s, launchLongitudeDeg s) of
                  (Some lat, Some lon) \<Rightarrow>
                    (haversineM (latitudeDeg obs) (longitudeDeg obs) lat lon \<le> arrivalRadiusM (config cx), a)
                | _ \<Rightarrow> (False, a))
            else (False, a))"

text \<open>The progress check of \<^verbatim>\<open>advance\<close>: whether the task progressed, and the execution with what it remembers.\<close>

definition note_progress :: "active_execution \<Rightarrow> vehicle_snapshot \<Rightarrow> real \<Rightarrow> bool \<times> active_execution" where
  "note_progress a s nowMs =
     (let rem = remaining (task a) s;
          (progressed, a1) =
            (if \<not> hasFreshControlTelemetry s nowMs then (False, a)
             else if best_improved rem (bestRemainingM a) then (True, a)
             else recoveryProgressed a s)
      in if progressed
         then (True, a1\<lparr>bestRemainingM := (case rem of None \<Rightarrow> bestRemainingM a1 | Some r \<Rightarrow> Some r), lastProgressAtMs := nowMs\<rparr>)
         else (False, a1))"

definition advance :: "engine_context \<Rightarrow> vehicle_snapshot \<Rightarrow> real \<Rightarrow> engine \<Rightarrow> (engine, unit) effect" where
  "advance cx s nowMs e =
     (case active e of
        None \<Rightarrow> (Inr (), e)
      | Some a \<Rightarrow>
          if nowMs - startedAtMs a > taskTimeoutSeconds (config cx) * 1000
          then failActive cx ExecutionFailed (NoCompletion (taskTimeoutSeconds (config cx))) s nowMs e
          else
            let (progressed, a1) = note_progress a s nowMs;
                e1 = e\<lparr>active := Some a1\<rparr>
            in if \<not> progressed \<and> nowMs - lastProgressAtMs a1 > progressTimeoutSeconds (config cx) * 1000
               then failActive cx ExecutionFailed (NoProgress (progressTimeoutSeconds (config cx))) s nowMs e1
               else
                 let (complete, a2) = isComplete cx a1 s nowMs;
                     e2 = e1\<lparr>active := Some a2\<rparr>
                 in if complete
                    then reportTerminal cx (CompleteReport (taskId (task a2))) (finish_active e2 (taskId (task a2)))
                    else (Inr (), e2))"

subsection \<open>One tick\<close>

text \<open>\<^verbatim>\<open>ingest\<close> after the rehold block: it works with the control state read last.\<close>

definition ingest_movement :: "engine_context \<Rightarrow> authoritative_task list \<Rightarrow> control_state \<Rightarrow> engine \<Rightarrow> (engine, unit) effect" where
  "ingest_movement cx tasks current e =
     then_do (if active e = None
              then adoptNext cx tasks (control_snapshot current) (control_nowMs current) e else (Inr None, e)) (\<lambda>adopted e.
       let current' = (case adopted of Some cs \<Rightarrow> cs | None \<Rightarrow> current)
       in advance cx (control_snapshot current') (control_nowMs current') e)"

definition ingest_ready :: "engine_context \<Rightarrow> authoritative_task list \<Rightarrow> control_state \<Rightarrow> engine \<Rightarrow> (engine, unit) effect" where
  "ingest_ready cx tasks current e =
     then_do (rejectGotoDuringTakeoff cx tasks e) (\<lambda>_ e.
       if holdRequiredBeforeMovement e then
         then_do (getControlState cx e) (\<lambda>cs e.
           then_do (establishHold cx (control_snapshot cs) (control_nowMs cs) e) (\<lambda>held e.
             if \<not> held then (Inr (), e)
             else then_do (getControlState cx e) (\<lambda>cs' e.
               ingest_movement cx tasks cs' (e\<lparr>holdRequiredBeforeMovement := False\<rparr>))))
       else ingest_movement cx tasks current e)"

definition ingest ::
    "engine_context \<Rightarrow> authoritative_task list \<Rightarrow> vehicle_snapshot \<Rightarrow> real \<Rightarrow> engine \<Rightarrow> (engine, unit) effect" where
  "ingest cx tasks s nowMs e =
     then_do (flushTerminalReport cx (reconcileAuthoritative tasks e)) (\<lambda>_ e.
       then_do (observeMode cx s e) (\<lambda>_ e.
         if reholdOnGuided e then
           if \<not> guided s then rejectPendingOutsideGuided cx tasks s nowMs e
           else then_do (establishHold cx s nowMs e) (\<lambda>held e.
             if \<not> held then (Inr (), e)
             else then_do (getControlState cx e) (\<lambda>cs e.
               ingest_ready cx tasks cs (e\<lparr>reholdOnGuided := False\<rparr>)))
         else ingest_ready cx tasks \<lparr>control_snapshot = s, control_nowMs = nowMs\<rparr> e))"

section \<open>A task is started at most once\<close>

definition starts :: "(engine_action \<times> bool) list \<Rightarrow> jstring list" where
  "starts tr = concat (map (\<lambda>(a, _). case a of ReportStart i \<Rightarrow> [i] | _ \<Rightarrow> []) tr)"

lemma starts_simps [simp]: "starts [] = []" "starts (xs @ ys) = starts xs @ starts ys"
  "starts [(a, b)] = (case a of ReportStart i \<Rightarrow> [i] | _ \<Rightarrow> [])"
  by (simp_all add: starts_def)

text \<open>A step that starts nothing: a task that stops being active is finished, and a hold is never owed while a task is active.\<close>

definition hold_owed :: "engine \<Rightarrow> bool" where
  "hold_owed e \<longleftrightarrow> reholdOnGuided e \<or> holdRequiredBeforeMovement e"

definition quiet :: "engine \<Rightarrow> engine \<Rightarrow> bool" where
  "quiet e e' \<longleftrightarrow> starts (trace e') = starts (trace e) \<and> set (finished e) \<subseteq> set (finished e') \<and>
     (\<forall>i. activeTaskId e = Some i \<longrightarrow> activeTaskId e' = Some i \<or> i \<in> set (finished e')) \<and>
     (active e = None \<longrightarrow> active e' = None) \<and>
     ((hold_owed e \<longrightarrow> active e = None) \<longrightarrow> (hold_owed e' \<longrightarrow> active e' = None))"

lemma quiet_refl [simp]: "quiet e e" by (simp add: quiet_def)

lemma quiet_trans: "quiet a b \<Longrightarrow> quiet b c \<Longrightarrow> quiet a c"
  unfolding quiet_def by (metis subset_iff)

interpretation quiet_order: effect_preorder quiet
  by unfold_locales (auto intro: quiet_trans)

lemmas quiet_then = quiet_order.then_step

lemma perform_quiet: "(\<And>i. a \<noteq> ReportStart i) \<Longrightarrow> quiet e (snd (perform cx a e))"
  by (cases a) (auto simp: perform_def quiet_def activeTaskId_def hold_owed_def split: option.split)

lemma read_quiet: "quiet e (snd (getControlState cx e))"
  by (auto simp: getControlState_def quiet_def activeTaskId_def hold_owed_def split: sum.split)

lemma report_action_not_start: "report_action r \<noteq> ReportStart i"
  by (cases r) simp_all

lemma quiet_pending: "quiet e (e\<lparr>pendingTerminalReport := r\<rparr>)"
  by (simp add: quiet_def activeTaskId_def hold_owed_def)

lemma flush_quiet: "quiet e (snd (flushTerminalReport cx e))"
  unfolding flushTerminalReport_def
  by (auto split: option.split intro!: quiet_then perform_quiet quiet_pending simp: report_action_not_start)

lemma report_quiet: "quiet e (snd (reportTerminal cx r e))"
  unfolding reportTerminal_def by (rule quiet_trans[OF quiet_pending flush_quiet])

lemma finish_quiet: "activeTaskId e = Some i \<Longrightarrow> quiet e (finish_active e i)"
  by (auto simp: quiet_def finish_active_def activeTaskId_def hold_owed_def)

lemma finished_quiet: "quiet e (e\<lparr>finished := set_add i (finished e)\<rparr>)"
  by (auto simp: quiet_def activeTaskId_def hold_owed_def)

lemma hold_quiet: "quiet e (snd (establishHold cx s nowMs e))"
  unfolding establishHold_def by (auto split: option.split intro!: quiet_then perform_quiet)

lemma takeover_quiet: "quiet e (snd (noteTakeover cx m e))"
proof -
  have "quiet e ((finish_active e (taskId (task a)))\<lparr>reholdOnGuided := True\<rparr>)" if "active e = Some a" for a
    using that by (auto simp: quiet_def finish_active_def activeTaskId_def hold_owed_def)
  then show ?thesis
    unfolding noteTakeover_def by (auto split: option.split intro: quiet_trans[OF _ report_quiet])
qed

lemma guided_return_quiet: "quiet e (snd (noteGuidedReturn cx s nowMs e))"
proof -
  have "quiet e (e\<lparr>reholdOnGuided := False\<rparr>)" for e
    by (auto simp: quiet_def activeTaskId_def hold_owed_def)
  then show ?thesis unfolding noteGuidedReturn_def by (auto intro!: quiet_then hold_quiet)
qed

lemma observe_quiet: "quiet e (snd (observeMode cx s e))"
proof -
  have "quiet e (e\<lparr>lastMode := m\<rparr>)" for m by (simp add: quiet_def activeTaskId_def hold_owed_def)
  then show ?thesis
    unfolding observeMode_def Let_def by (auto intro: quiet_trans[OF _ takeover_quiet])
qed

lemma set_terminal_ids:
  "set (foldl (\<lambda>done t. if is_terminal (task_status t) then set_add (taskId t) done else done) xs ts) =
     set xs \<union> taskId ` {t \<in> set ts. is_terminal (task_status t)}"
  by (induction ts arbitrary: xs) (auto simp: insert_commute)

lemma by_id_task: "by_id tasks i = Some t \<Longrightarrow> taskId t = i \<and> t \<in> set tasks"
  unfolding by_id_def by (auto dest!: map_of_SomeD)

lemma reconcile_quiet: "quiet e (reconcileAuthoritative tasks e)"
proof -
  have fin: "quiet e1 (e1\<lparr>finished := foldl (\<lambda>done t. if is_terminal (task_status t) then set_add (taskId t) done else done) (finished e1) tasks\<rparr>)"
    for e1 by (auto simp: quiet_def activeTaskId_def hold_owed_def set_terminal_ids)
  have pend: "quiet e (case pendingTerminalReport e of None \<Rightarrow> e
      | Some r \<Rightarrow> (case by_id tasks (report_task r) of None \<Rightarrow> e
        | Some t \<Rightarrow> if is_terminal (task_status t) then e\<lparr>pendingTerminalReport := None\<rparr> else e))"
    by (auto split: option.split intro: quiet_pending)
  have act: "quiet e1 (case active e1 of None \<Rightarrow> e1
      | Some a \<Rightarrow> (case by_id tasks (taskId (task a)) of None \<Rightarrow> e1
        | Some t \<Rightarrow>
            if is_terminal (task_status t) then
              let e' = finish_active e1 (taskId t)
              in if task_status t = Cancelled \<and> cancellationCode t = Some ''requested'' \<and> command (task a) = ''flight.goto''
                 then e'\<lparr>holdRequiredBeforeMovement := True\<rparr> else e'
            else e1\<lparr>active := Some (a\<lparr>task := t\<rparr>)\<rparr>))" for e1
    by (auto split: option.split dest!: by_id_task simp: Let_def quiet_def finish_active_def activeTaskId_def hold_owed_def)
  show ?thesis unfolding reconcileAuthoritative_def Let_def
    by (rule quiet_trans[OF pend], rule quiet_trans[OF act[unfolded Let_def]], rule fin)
qed

lemma reject_quiet: "quiet e (snd (reject_tasks cx P message ts e))"
proof (induction ts arbitrary: e)
  case (Cons t ts)
  have "quiet e (snd (reportTerminal cx r (e\<lparr>finished := set_add i (finished e)\<rparr>)))" for r i
    by (rule quiet_trans[OF finished_quiet report_quiet])
  then show ?case using Cons.IH by (auto intro!: quiet_then)
qed simp

lemma fail_quiet: "quiet e (snd (failActive cx code message s nowMs e))"
proof (cases "active e")
  case (Some a)
  let ?e1 = "(finish_active e (taskId (task a)))\<lparr>pendingTerminalReport := Some (FailReport (taskId (task a)) code message)\<rparr>"
  have e1: "quiet e ?e1"
    by (rule quiet_trans[OF finish_quiet quiet_pending]) (simp add: activeTaskId_def Some)
  have "quiet ?e1 (snd (then_do (establishHold cx s nowMs ?e1) (\<lambda>_ e. (Inr (), e))))"
    "quiet ?e1 (snd (perform cx (Send m) ?e1))" for m
    by (auto intro!: quiet_then hold_quiet perform_quiet)
  note this[THEN quiet_trans[OF e1]]
  then show ?thesis
    unfolding failActive_def Some Let_def option.case
    by (intro quiet_then flush_quiet) (auto split: option.split intro: e1)
qed (simp add: failActive_def)

lemma recovery_task: "task (snd (recoveryProgressed a s)) = task a"
  by (auto simp: recoveryProgressed_def Let_def split: option.split prod.split)

lemma progress_task: "task (snd (note_progress a s nowMs)) = task a"
  using recovery_task[of a s] by (auto simp: note_progress_def Let_def split: prod.split)

lemma complete_task: "task (snd (isComplete cx a s nowMs)) = task a"
  by (auto simp: isComplete_def Let_def split: option.split)

lemma active_quiet: "active e = Some a \<Longrightarrow> task a' = task a \<Longrightarrow> quiet e (e\<lparr>active := Some a'\<rparr>)"
  by (auto simp: quiet_def activeTaskId_def hold_owed_def)

lemma advance_quiet: "quiet e (snd (advance cx s nowMs e))"
proof (cases "active e")
  case (Some a)
  obtain progressed a1 where a1: "note_progress a s nowMs = (progressed, a1)" by (cases "note_progress a s nowMs")
  obtain complete a2 where a2: "isComplete cx a1 s nowMs = (complete, a2)" by (cases "isComplete cx a1 s nowMs")
  have t: "task a1 = task a" "task a2 = task a"
    using progress_task[of a s nowMs] complete_task[of cx a1 s nowMs] by (simp_all add: a1 a2)
  have q1: "quiet e (e\<lparr>active := Some a1\<rparr>)" "quiet e (e\<lparr>active := Some a2\<rparr>)" using Some t by (auto intro: active_quiet)
  have "quiet (e\<lparr>active := Some a2\<rparr>) (finish_active (e\<lparr>active := Some a2\<rparr>) (taskId (task a2)))"
    by (rule finish_quiet) (simp add: activeTaskId_def)
  from quiet_trans[OF quiet_trans[OF q1(2) this] report_quiet] q1 show ?thesis
    using quiet_trans[OF q1(1) fail_quiet] fail_quiet
    by (auto simp: advance_def Some a1 a2 Let_def)
qed (simp add: advance_def)

text \<open>Steps that leave the active task and the owed holds alone.\<close>

definition calm :: "engine \<Rightarrow> engine \<Rightarrow> bool" where
  "calm e e' \<longleftrightarrow> active e' = active e \<and> reholdOnGuided e' = reholdOnGuided e \<and>
     holdRequiredBeforeMovement e' = holdRequiredBeforeMovement e"

lemma calm_refl [simp]: "calm e e" by (simp add: calm_def)

lemma calm_trans: "calm a b \<Longrightarrow> calm b c \<Longrightarrow> calm a c" by (simp add: calm_def)

interpretation calm_order: effect_preorder calm
  by unfold_locales (auto intro: calm_trans)

lemmas calm_then = calm_order.then_step

lemma perform_calm: "calm e (snd (perform cx a e))"
  by (simp add: perform_def calm_def split: option.split)

lemma read_calm: "calm e (snd (getControlState cx e))"
  by (simp add: getControlState_def calm_def split: sum.split)

lemma flush_calm: "calm e (snd (flushTerminalReport cx e))"
  unfolding flushTerminalReport_def
  by (auto split: option.split intro!: calm_then perform_calm) (auto simp: calm_def)

lemma report_calm: "calm e (snd (reportTerminal cx r e))"
  using flush_calm[of "e\<lparr>pendingTerminalReport := Some r\<rparr>" cx] by (simp add: reportTerminal_def calm_def)

lemma hold_calm: "calm e (snd (establishHold cx s nowMs e))"
  unfolding establishHold_def by (auto split: option.split intro!: calm_then perform_calm)

lemma reject_calm: "calm e (snd (reject_tasks cx P message ts e))"
proof (induction ts arbitrary: e)
  case (Cons t ts)
  have "calm e (snd (reportTerminal cx r (e\<lparr>finished := set_add i (finished e)\<rparr>)))" for r i
    using report_calm[of "e\<lparr>finished := set_add i (finished e)\<rparr>"] by (simp add: calm_def)
  then show ?case using Cons.IH by (auto intro!: calm_then)
qed simp

lemma dispatch_calm_quiet: "calm e (snd (dispatch cx t s e))" "quiet e (snd (dispatch cx t s e))"
  unfolding dispatch_def Let_def by (auto split: option.split intro: perform_calm perform_quiet)

definition engine_inv :: "engine \<Rightarrow> bool" where
  "engine_inv e \<longleftrightarrow> distinct (starts (trace e)) \<and>
     (\<forall>i \<in> set (starts (trace e)). i \<in> set (finished e) \<or> activeTaskId e = Some i) \<and> (hold_owed e \<longrightarrow> active e = None)"

lemma inv_quiet: "engine_inv e \<Longrightarrow> quiet e e' \<Longrightarrow> engine_inv e'"
  unfolding engine_inv_def quiet_def by (metis subset_iff)

lemma inv_then:
  assumes "engine_inv (snd m)" "\<And>x s. m = (Inr x, s) \<Longrightarrow> engine_inv (snd (f x s))"
  shows "engine_inv (snd (then_do m f))"
proof -
  obtain r s where m: "m = (r, s)" by (cases m)
  show ?thesis using assms by (cases r) (auto simp: m)
qed

text \<open>Just after the start of a task was reported: the invariant but for that task.\<close>

definition starting :: "jstring \<Rightarrow> engine \<Rightarrow> bool" where
  "starting i e \<longleftrightarrow> distinct (starts (trace e)) \<and> active e = None \<and> \<not> hold_owed e \<and>
     (\<forall>j \<in> set (starts (trace e)). j = i \<or> j \<in> set (finished e))"

lemma starting_finish: "starting i e \<Longrightarrow> engine_inv (e\<lparr>finished := set_add i (finished e)\<rparr>)"
  by (auto simp: starting_def engine_inv_def hold_owed_def)

lemma starting_adopt: "starting i e \<Longrightarrow> taskId (task a) = i \<Longrightarrow> engine_inv (e\<lparr>active := Some a\<rparr>)"
  by (auto simp: starting_def engine_inv_def activeTaskId_def hold_owed_def)

lemma adopt_started_inv:
  assumes "starting (taskId candidate) e"
  shows "engine_inv (snd (adopt_started cx candidate e))"
proof -
  obtain r s where s: "getControlState cx e = (r, s)" by (cases "getControlState cx e")
  have st: "starting (taskId candidate) s"
    using assms s by (auto simp: getControlState_def starting_def hold_owed_def split: sum.splits)
  show ?thesis
  proof (cases r)
    case (Inl err)
    then show ?thesis using starting_finish[OF st] by (simp add: adopt_started_def s)
  next
    case (Inr cs)
    let ?e = "s\<lparr>active := Some (new_execution candidate cs)\<rparr>"
    have inv: "engine_inv ?e" by (rule starting_adopt[OF st]) (simp add: new_execution_def Let_def)
    obtain r' s' where d: "dispatch cx candidate (control_snapshot cs) ?e = (r', s')"
      by (cases "dispatch cx candidate (control_snapshot cs) ?e")
    have inv': "engine_inv s'" using inv_quiet[OF inv] dispatch_calm_quiet(2)[of ?e cx candidate "control_snapshot cs"] by (simp add: d)
    have "active s' = Some (new_execution candidate cs)"
      using dispatch_calm_quiet(1)[of ?e cx candidate "control_snapshot cs"] by (simp add: d calm_def)
    then have "activeTaskId s' = Some (taskId candidate)" by (simp add: activeTaskId_def new_execution_def Let_def)
    then have "engine_inv (finish_active s' (taskId candidate))" using inv_quiet[OF inv' finish_quiet] by blast
    then have f: "engine_inv (snd (reportTerminal cx rep (finish_active s' (taskId candidate))))" for rep
      using inv_quiet report_quiet by blast
    have p: "engine_inv (snd (reportTerminal cx rep (s\<lparr>finished := set_add (taskId candidate) (finished s)\<rparr>)))" for rep
      using inv_quiet[OF starting_finish[OF st] report_quiet] .
    show ?thesis
      using f p inv' by (auto simp: adopt_started_def s Inr Let_def d split: sum.split intro!: inv_then)
  qed
qed

lemma adopt_inv:
  assumes "engine_inv e" "active e = None" "\<not> hold_owed e"
  shows "engine_inv (snd (adoptNext cx tasks s nowMs e))"
proof (cases "filter (\<lambda>t. isFlightCommand (command t) \<and> is_open (task_status t) \<and> taskId t \<notin> set (finished e)) tasks")
  case Nil
  then show ?thesis using assms(1) by (simp add: adoptNext_def)
next
  case (Cons candidate rest)
  then have "taskId candidate \<notin> set (finished e)" by (metis (mono_tags, lifting) filter_eq_ConsD)
  then have new: "taskId candidate \<notin> set (starts (trace e))"
    using assms(1,2) by (auto simp: engine_inv_def activeTaskId_def)
  have "engine_inv (snd (reportTerminal cx rep (e\<lparr>finished := set_add (taskId candidate) (finished e)\<rparr>)))" for rep
    using inv_quiet[OF inv_quiet[OF assms(1) finished_quiet] report_quiet] .
  moreover obtain r e1 where p: "perform cx (ReportStart (taskId candidate)) e = (r, e1)"
    by (cases "perform cx (ReportStart (taskId candidate)) e")
  have "starting (taskId candidate) e1"
    using p assms new by (auto simp: perform_def starting_def engine_inv_def activeTaskId_def hold_owed_def split: option.splits)
  moreover from starting_finish[OF this]
  have "engine_inv (e1\<lparr>finished := set_add (taskId candidate) (finished e1), pendingTerminalReport := rep\<rparr>)" for rep
    using inv_quiet[OF _ quiet_pending] by force
  ultimately show ?thesis
    using adopt_started_inv[of candidate e1 cx]
    by (auto simp: adoptNext_def Cons Let_def p split: sum.split intro!: inv_then)
qed

lemma movement_inv:
  assumes "engine_inv e" "\<not> hold_owed e"
  shows "engine_inv (snd (ingest_movement cx tasks current e))"
  unfolding ingest_movement_def
proof (rule inv_then)
  let ?m = "if active e = None then adoptNext cx tasks (control_snapshot current) (control_nowMs current) e else (Inr None, e)"
  show 1: "engine_inv (snd ?m)" using adopt_inv assms by auto
  fix x s
  assume "?m = (Inr x, s)"
  then have "engine_inv s" using 1 by simp
  then show "engine_inv (snd (let current' = case x of None \<Rightarrow> current | Some cs \<Rightarrow> cs
      in advance cx (control_snapshot current') (control_nowMs current') s))"
    unfolding Let_def using inv_quiet advance_quiet by blast
qed

lemma snd_eq: "m = (x, s) \<Longrightarrow> P (snd m) \<Longrightarrow> P s" by simp

lemma ready_inv:
  assumes "engine_inv e" "\<not> reholdOnGuided e"
  shows "engine_inv (snd (ingest_ready cx tasks current e))"
  unfolding ingest_ready_def
proof (rule inv_then)
  have q: "quiet e (snd (rejectGotoDuringTakeoff cx tasks e))" "calm e (snd (rejectGotoDuringTakeoff cx tasks e))"
    unfolding rejectGotoDuringTakeoff_def by (auto intro: reject_quiet reject_calm)
  show "engine_inv (snd (rejectGotoDuringTakeoff cx tasks e))" by (rule inv_quiet[OF assms(1) q(1)])
  fix u e1
  assume "rejectGotoDuringTakeoff cx tasks e = (Inr u, e1)"
  with q inv_quiet[OF assms(1)] assms(2) have e1: "engine_inv e1" "\<not> reholdOnGuided e1" by (auto simp: calm_def)
  have "engine_inv (snd (then_do (getControlState cx e1) (\<lambda>cs e.
      then_do (establishHold cx (control_snapshot cs) (control_nowMs cs) e) (\<lambda>held e.
        if \<not> held then (Inr (), e)
        else then_do (getControlState cx e) (\<lambda>cs' e.
          ingest_movement cx tasks cs' (e\<lparr>holdRequiredBeforeMovement := False\<rparr>))))))"
  proof (intro inv_then, goal_cases)
    case 1
    then show ?case using inv_quiet[OF e1(1) read_quiet] .
  next
    case (2 cs e2)
    then have e2: "engine_inv e2" using inv_quiet[OF e1(1) read_quiet[of e1 cx]] by simp
    then show ?case using inv_quiet[OF e2 hold_quiet] by blast
  next
    case (3 cs e2 held e3)
    have e2: "engine_inv e2" "calm e1 e2" using 3(1) inv_quiet[OF e1(1) read_quiet[of e1 cx]] read_calm[of e1 cx] by simp_all
    have e3: "engine_inv e3" "calm e2 e3"
      using 3(2) inv_quiet[OF e2(1) hold_quiet[of e2 cx "control_snapshot cs" "control_nowMs cs"]]
        hold_calm[of e2 cx "control_snapshot cs" "control_nowMs cs"] by simp_all
    have "engine_inv (snd (then_do (getControlState cx e3) (\<lambda>cs' e.
          ingest_movement cx tasks cs' (e\<lparr>holdRequiredBeforeMovement := False\<rparr>))))"
    proof (rule inv_then)
      show i: "engine_inv (snd (getControlState cx e3))" by (rule inv_quiet[OF e3(1) read_quiet])
      fix cs' e4
      assume g: "getControlState cx e3 = (Inr cs', e4)"
      have "engine_inv e4" "calm e3 e4" using g i read_calm[of e3 cx] by simp_all
      moreover have "engine_inv (e4\<lparr>holdRequiredBeforeMovement := False\<rparr>)"
        using \<open>engine_inv e4\<close> by (auto simp: engine_inv_def hold_owed_def activeTaskId_def)
      moreover have "\<not> hold_owed (e4\<lparr>holdRequiredBeforeMovement := False\<rparr>)"
        using \<open>calm e3 e4\<close> e3(2) e2(2) e1(2) by (simp add: hold_owed_def calm_def)
      ultimately show "engine_inv (snd (ingest_movement cx tasks cs' (e4\<lparr>holdRequiredBeforeMovement := False\<rparr>)))"
        using movement_inv by blast
    qed
    then show ?case using e3(1) by simp
  qed
  moreover have "engine_inv (snd (ingest_movement cx tasks current e1))" if "\<not> holdRequiredBeforeMovement e1"
    using movement_inv[OF e1(1)] that e1(2) by (simp add: hold_owed_def)
  ultimately show "engine_inv (snd (if holdRequiredBeforeMovement e1 then
         then_do (getControlState cx e1) (\<lambda>cs e.
           then_do (establishHold cx (control_snapshot cs) (control_nowMs cs) e) (\<lambda>held e.
             if \<not> held then (Inr (), e)
             else then_do (getControlState cx e) (\<lambda>cs' e.
               ingest_movement cx tasks cs' (e\<lparr>holdRequiredBeforeMovement := False\<rparr>))))
       else ingest_movement cx tasks current e1))" by simp
qed

lemma clear_rehold_inv: "engine_inv e \<Longrightarrow> engine_inv (e\<lparr>reholdOnGuided := False\<rparr>)"
  by (auto simp: engine_inv_def hold_owed_def activeTaskId_def)

lemma ingest_inv:
  assumes "engine_inv e"
  shows "engine_inv (snd (ingest cx tasks s nowMs e))"
  unfolding ingest_def
proof (intro inv_then, goal_cases)
  case 1
  then show ?case using inv_quiet[OF inv_quiet[OF assms reconcile_quiet] flush_quiet] by blast
next
  case (2 u e1)
  then have "engine_inv e1" using inv_quiet[OF inv_quiet[OF assms reconcile_quiet] flush_quiet] by (metis snd_conv)
  then show ?case using inv_quiet observe_quiet by blast
next
  case (3 u e1 v e2)
  have "engine_inv e1" using 3(1) inv_quiet[OF inv_quiet[OF assms reconcile_quiet] flush_quiet] by (metis snd_conv)
  then have e2: "engine_inv e2" using 3(2) inv_quiet observe_quiet by (metis snd_conv)
  have "engine_inv (snd (then_do (establishHold cx s nowMs e2) (\<lambda>held e.
      if \<not> held then (Inr (), e)
      else then_do (getControlState cx e) (\<lambda>cs e. ingest_ready cx tasks cs (e\<lparr>reholdOnGuided := False\<rparr>)))))"
  proof (rule inv_then)
    show i: "engine_inv (snd (establishHold cx s nowMs e2))" by (rule inv_quiet[OF e2 hold_quiet])
    fix held e3
    assume h: "establishHold cx s nowMs e2 = (Inr held, e3)"
    have e3: "engine_inv e3" using i h by simp
    have "engine_inv (snd (then_do (getControlState cx e3) (\<lambda>cs e. ingest_ready cx tasks cs (e\<lparr>reholdOnGuided := False\<rparr>))))"
    proof (rule inv_then)
      show i: "engine_inv (snd (getControlState cx e3))" by (rule inv_quiet[OF e3 read_quiet])
      fix cs e4
      assume "getControlState cx e3 = (Inr cs, e4)"
      then have "engine_inv e4" using i by simp
      from ready_inv[OF clear_rehold_inv[OF this]]
      show "engine_inv (snd (ingest_ready cx tasks cs (e4\<lparr>reholdOnGuided := False\<rparr>)))" by simp
    qed
    then show "engine_inv (snd (if \<not> held then (Inr (), e3)
      else then_do (getControlState cx e3) (\<lambda>cs e. ingest_ready cx tasks cs (e\<lparr>reholdOnGuided := False\<rparr>))))"
      using e3 by simp
  qed
  moreover have "engine_inv (snd (rejectPendingOutsideGuided cx tasks s nowMs e2))"
    unfolding rejectPendingOutsideGuided_def by (rule inv_quiet[OF e2 reject_quiet])
  ultimately show ?case using ready_inv[OF e2] by auto
qed

text \<open>Calls of the engine by the controller.\<close>

datatype engine_call =
    Ingest "authoritative_task list" vehicle_snapshot real
  | NoteTakeover string
  | NoteGuidedReturn vehicle_snapshot real
  | Abandon bool

fun engine_step :: "engine_context \<Rightarrow> engine \<Rightarrow> engine_call \<Rightarrow> engine" where
  "engine_step cx e (Ingest tasks s nowMs) = snd (ingest cx tasks s nowMs e)"
| "engine_step cx e (NoteTakeover m) = snd (noteTakeover cx m e)"
| "engine_step cx e (NoteGuidedReturn s nowMs) = snd (noteGuidedReturn cx s nowMs e)"
| "engine_step cx e (Abandon rehold) = snd (abandonActiveForRecovery rehold e)"

lemma abandon_inv: "engine_inv e \<Longrightarrow> engine_inv (snd (abandonActiveForRecovery rehold e))"
  by (auto simp: abandonActiveForRecovery_def Let_def engine_inv_def finish_active_def activeTaskId_def hold_owed_def
      split: option.split)

interpretation task_engine: guarded_machine new_engine "engine_step cx" engine_inv
  for cx
proof
  show "engine_inv new_engine" by (simp add: engine_inv_def new_engine_def hold_owed_def)
  show "engine_inv (engine_step cx e call)" if "engine_inv e" for e call
    using that by (cases call) (simp_all add: ingest_inv abandon_inv inv_quiet[OF _ takeover_quiet] inv_quiet[OF _ guided_return_quiet])
qed

text \<open>C7: repeated delivery never repeats execution: whatever task lists, snapshots, failed reports and failed sends the
  engine sees over its whole run, it reports the start of each task at most once, and a started task is either the active
  one or finished. A hold that the engine owes is never owed while a task is active.\<close>

theorem task_started_once:
  "let e = foldl (engine_step cx) new_engine calls
   in distinct (starts (trace e)) \<and>
      (\<forall>i. i \<in> set (starts (trace e)) \<longrightarrow> i \<in> set (finished e) \<or> activeTaskId e = Some i) \<and>
      (reholdOnGuided e \<or> holdRequiredBeforeMovement e \<longrightarrow> \<not> hasActiveTask e)"
  using task_engine.inv_run[of cx calls]
  by (simp add: Let_def engine_inv_def activeTaskId_def hold_owed_def hasActiveTask_def)

section \<open>Every message to the aircraft is sent under authority\<close>

text \<open>Guided mode and fresh telemetry, in a control state.\<close>

definition authority :: "control_state \<Rightarrow> bool" where
  "authority cs \<longleftrightarrow> guided (control_snapshot cs) \<and> hasFreshControlTelemetry (control_snapshot cs) (control_nowMs cs)"

text \<open>
  \<open>justified cx n cs as\<close>: the actions \<open>as\<close>, the first of which has position \<open>n\<close> in the trace, send only while the control
  state that was read last has authority; \<open>cs\<close> is that state at the beginning and \<open>latest cx n cs as\<close> at the end.
\<close>

fun justified :: "engine_context \<Rightarrow> nat \<Rightarrow> control_state \<Rightarrow> (engine_action \<times> bool) list \<Rightarrow> bool"
  and latest :: "engine_context \<Rightarrow> nat \<Rightarrow> control_state \<Rightarrow> (engine_action \<times> bool) list \<Rightarrow> control_state" where
  "justified cx n cs [] = True"
| "justified cx n cs ((a, b) # as) =
     ((\<forall>m. a = Send m \<longrightarrow> authority cs) \<and>
      justified cx (n + 1) (case (a, control cx n) of (ReadControl, Inr cs') \<Rightarrow> cs' | _ \<Rightarrow> cs) as)"
| "latest cx n cs [] = cs"
| "latest cx n cs ((a, b) # as) = latest cx (n + 1) (case (a, control cx n) of (ReadControl, Inr cs') \<Rightarrow> cs' | _ \<Rightarrow> cs) as"

lemma justified_append:
  "justified cx n cs (as @ bs) \<longleftrightarrow> justified cx n cs as \<and> justified cx (n + length as) (latest cx n cs as) bs"
  "latest cx n cs (as @ bs) = latest cx (n + length as) (latest cx n cs as) bs"
  by (induction as arbitrary: n cs) auto

definition guarded :: "engine_context \<Rightarrow> control_state \<Rightarrow> engine \<Rightarrow> control_state \<Rightarrow> engine \<Rightarrow> bool" where
  "guarded cx cs e cs' e' \<longleftrightarrow> (\<exists>as. trace e' = trace e @ as \<and> justified cx (length (trace e)) cs as \<and>
     latest cx (length (trace e)) cs as = cs')"

lemma guarded_trans: "guarded cx cs a cs' b \<Longrightarrow> guarded cx cs' b cs'' c \<Longrightarrow> guarded cx cs a cs'' c"
  unfolding guarded_def by (force simp: justified_append)

text \<open>Steps that read no control state.\<close>

definition steady :: "engine_context \<Rightarrow> control_state \<Rightarrow> engine \<Rightarrow> engine \<Rightarrow> bool" where
  "steady cx cs e e' \<longleftrightarrow> guarded cx cs e cs e'"

lemma steady_same: "trace e' = trace e \<Longrightarrow> steady cx cs e e'"
  by (simp add: steady_def guarded_def)

interpretation steady_order: effect_preorder "steady cx cs" for cx cs
proof
  show "steady cx cs e e" for e by (rule steady_same) simp
  show "steady cx cs a b \<Longrightarrow> steady cx cs b c \<Longrightarrow> steady cx cs a c" for a b c
    unfolding steady_def by (rule guarded_trans)
qed

lemmas steady_then = steady_order.then_step
lemmas steady_trans = steady_order.trans
declare steady_order.refl [simp]

lemma perform_steady:
  "a \<noteq> ReadControl \<Longrightarrow> (\<And>m. a = Send m \<Longrightarrow> authority cs) \<Longrightarrow> steady cx cs e (snd (perform cx a e))"
  by (cases a) (auto simp: perform_def steady_def guarded_def split: option.split)

lemma flush_steady: "steady cx cs e (snd (flushTerminalReport cx e))"
proof -
  have "steady cx cs e (snd (perform cx (report_action r) e))" for r
    by (rule perform_steady) (cases r; simp)+
  moreover have "steady cx cs s (if b then s\<lparr>pendingTerminalReport := None\<rparr> else s)" for s b by (simp add: steady_same)
  ultimately show ?thesis
    unfolding flushTerminalReport_def by (auto split: option.split intro!: steady_then)
qed

lemma report_steady: "steady cx cs e (snd (reportTerminal cx r e))"
  unfolding reportTerminal_def by (rule steady_trans[OF steady_same flush_steady]) simp

lemma report_after_steady: "trace e' = trace e \<Longrightarrow> steady cx cs e (snd (reportTerminal cx r e'))"
  by (rule steady_trans[OF steady_same report_steady])

lemma hold_steady: "steady cx cs e (snd (establishHold cx (control_snapshot cs) (control_nowMs cs) e))"
  unfolding establishHold_def
  by (auto split: option.split intro!: steady_then perform_steady simp: authority_def)

lemma observe_steady: "steady cx cs e (snd (observeMode cx s e))"
proof -
  have "steady cx cs e (snd (noteTakeover cx m (e\<lparr>lastMode := l\<rparr>)))" for m l
    unfolding noteTakeover_def
    by (auto split: option.split intro!: steady_same report_after_steady simp: finish_active_def)
  then show ?thesis unfolding observeMode_def Let_def by (auto intro: steady_same)
qed

lemma reconcile_trace: "trace (reconcileAuthoritative tasks e) = trace e"
  by (auto simp: reconcileAuthoritative_def Let_def finish_active_def split: option.split)

lemma reject_steady: "steady cx cs e (snd (reject_tasks cx P message ts e))"
proof (induction ts arbitrary: e)
  case (Cons t ts)
  then show ?case by (auto intro!: steady_then report_after_steady)
qed (simp add: steady_same)

lemma fail_steady: "steady cx cs e (snd (failActive cx code message (control_snapshot cs) (control_nowMs cs) e))"
proof (cases "active e")
  case (Some a)
  let ?e1 = "(finish_active e (taskId (task a)))\<lparr>pendingTerminalReport := Some (FailReport (taskId (task a)) code message)\<rparr>"
  have e1: "steady cx cs e ?e1" by (rule steady_same) (simp add: finish_active_def)
  have "steady cx cs ?e1 (snd (then_do (establishHold cx (control_snapshot cs) (control_nowMs cs) ?e1) (\<lambda>_ e. (Inr (), e))))"
    using hold_steady[of cx cs ?e1] by simp
  moreover have "steady cx cs ?e1 (snd (perform cx (Send m) ?e1))" if "authority cs" for m
    using that by (intro perform_steady) auto
  ultimately show ?thesis
    unfolding failActive_def Some Let_def option.case
    by (intro steady_then flush_steady)
      (auto split: option.split intro: e1 steady_trans[OF e1] simp: authority_def)
qed (simp add: failActive_def steady_same)

lemma advance_steady: "steady cx cs e (snd (advance cx (control_snapshot cs) (control_nowMs cs) e))"
proof (cases "active e")
  case (Some a)
  obtain progressed a1 where a1: "note_progress a (control_snapshot cs) (control_nowMs cs) = (progressed, a1)"
    by (cases "note_progress a (control_snapshot cs) (control_nowMs cs)")
  obtain complete a2 where a2: "isComplete cx a1 (control_snapshot cs) (control_nowMs cs) = (complete, a2)"
    by (cases "isComplete cx a1 (control_snapshot cs) (control_nowMs cs)")
  have "steady cx cs e (snd (failActive cx c m (control_snapshot cs) (control_nowMs cs) (e\<lparr>active := x\<rparr>)))" for c m x
    by (rule steady_trans[OF steady_same fail_steady]) simp
  then show ?thesis
    using fail_steady[of cx cs e] steady_same[of "e\<lparr>active := Some a2\<rparr>" e cx cs]
    by (auto simp: advance_def Some a1 a2 Let_def finish_active_def intro: report_after_steady)
qed (simp add: advance_def steady_same)

lemma preconditions_authority:
  "preconditions cx t (control_snapshot cs) (control_nowMs cs) = [] \<Longrightarrow> authority cs"
  by (auto simp: preconditions_def push_if_def authority_def split: if_splits)

lemma dispatch_steady: "authority cs \<Longrightarrow> steady cx cs e (snd (dispatch cx t s e))"
  unfolding dispatch_def Let_def by (auto split: option.split intro!: perform_steady)

lemma read_guarded:
  "getControlState cx e = (Inr cs', e') \<Longrightarrow> guarded cx cs e cs' e'"
  "getControlState cx e = (Inl err, e') \<Longrightarrow> steady cx cs e e'"
  by (auto simp: getControlState_def guarded_def steady_def split: sum.splits)

definition guarded_run :: "engine_context \<Rightarrow> control_state \<Rightarrow> engine \<Rightarrow> engine \<Rightarrow> bool" where
  "guarded_run cx cs e e' \<longleftrightarrow> (\<exists>cs'. guarded cx cs e cs' e')"

lemma guarded_refl [simp]: "guarded cx cs e cs e"
  by (simp add: guarded_def)

lemma run_steady: "steady cx cs e e' \<Longrightarrow> guarded_run cx cs e e'"
  by (auto simp: guarded_run_def steady_def)

lemma run_after: "guarded cx cs e cs' e' \<Longrightarrow> guarded_run cx cs' e' e'' \<Longrightarrow> guarded_run cx cs e e''"
  unfolding guarded_run_def using guarded_trans by blast

lemma run_same: "guarded_run cx cs e e'' \<Longrightarrow> trace e = trace e' \<Longrightarrow> guarded_run cx cs e' e''"
  by (simp add: guarded_run_def guarded_def)

text \<open>A steady step followed by the rest of a method.\<close>

lemma run_then:
  assumes "steady cx cs e (snd m)" "\<And>x s. m = (Inr x, s) \<Longrightarrow> guarded_run cx cs s (snd (f x s))"
  shows "guarded_run cx cs e (snd (then_do m f))"
proof -
  obtain r s where m: "m = (r, s)" by (cases m)
  show ?thesis
    using assms run_after[of cx cs e cs s] run_steady[of cx cs e s] by (cases r) (auto simp: m steady_def)
qed

lemma run_read:
  assumes "\<And>cs' s. getControlState cx e = (Inr cs', s) \<Longrightarrow> guarded_run cx cs' s (snd (f cs' s))"
  shows "guarded_run cx cs e (snd (then_do (getControlState cx e) f))"
proof -
  obtain r s where g: "getControlState cx e = (r, s)" by (cases "getControlState cx e")
  show ?thesis
  proof (cases r)
    case (Inl err)
    then show ?thesis using read_guarded(2) run_steady g by simp
  next
    case (Inr cs')
    then show ?thesis using run_after[OF read_guarded(1)[of cx e cs' s]] assms g by simp
  qed
qed

text \<open>The control state with which the engine goes on after adopting a task.\<close>

definition continues :: "engine_context \<Rightarrow> control_state \<Rightarrow> engine \<Rightarrow> (engine, control_state option) effect \<Rightarrow> bool" where
  "continues cx cs e m \<longleftrightarrow> (case m of
     (Inl _, e') \<Rightarrow> guarded_run cx cs e e'
   | (Inr x, e') \<Rightarrow> guarded cx cs e (case x of Some cs' \<Rightarrow> cs' | None \<Rightarrow> cs) e')"

lemma continues_then:
  assumes "steady cx cs e (snd m)"
  shows "continues cx cs e (then_do m (\<lambda>_ e. (Inr None, e)))"
    "continues cx cs e (then_do m (\<lambda>_ e. (Inr (Some cs), e)))"
  using assms run_steady[of cx cs e "snd m"]
  by (cases m; cases "fst m"; auto simp: continues_def steady_def)+

lemma continues_after:
  assumes "guarded cx cs e cs' e'" "continues cx cs' e' m" "\<And>s. m \<noteq> (Inr None, s)"
  shows "continues cx cs e m"
  using assms run_after[OF assms(1)] guarded_trans[OF assms(1)]
  by (cases m; cases "fst m") (auto simp: continues_def split: option.splits)

lemma adopt_started_continues: "continues cx cs e (adopt_started cx candidate e)"
proof -
  obtain r s where g: "getControlState cx e = (r, s)" by (cases "getControlState cx e")
  show ?thesis
  proof (cases r)
    case (Inl err)
    have "steady cx cs e s" using read_guarded(2) g Inl by simp
    then have "steady cx cs e (s\<lparr>finished := f\<rparr>)" for f by (rule steady_trans) (simp add: steady_same)
    then show ?thesis by (simp add: adopt_started_def g Inl continues_def run_steady)
  next
    case (Inr cs')
    have read: "guarded cx cs e cs' s" using read_guarded(1) g Inr by simp
    let ?p = "preconditions cx candidate (control_snapshot cs') (control_nowMs cs')"
    have refuse: "steady cx cs' s (snd (reportTerminal cx rep (s\<lparr>finished := f\<rparr>)))" for rep f
      by (rule report_after_steady) simp
    let ?e = "s\<lparr>active := Some (new_execution candidate cs')\<rparr>"
    obtain r' s' where d: "dispatch cx candidate (control_snapshot cs') ?e = (r', s')"
      by (cases "dispatch cx candidate (control_snapshot cs') ?e")
    have disp: "steady cx cs' s s'" if "?p = []"
    proof -
      have "steady cx cs' s ?e" by (simp add: steady_same)
      moreover have "steady cx cs' ?e s'"
        using dispatch_steady[OF preconditions_authority[OF that], of cx ?e candidate "control_snapshot cs'"] by (simp add: d)
      ultimately show ?thesis by (rule steady_trans)
    qed
    have fail: "steady cx cs' s (snd (reportTerminal cx rep (finish_active s' i)))" if "?p = []" for rep i
      by (rule steady_trans[OF disp[OF that] report_after_steady]) (simp add: finish_active_def)
    have "continues cx cs' s (adopt_started cx candidate e)"
      using refuse fail disp continues_then(2)[OF refuse] continues_then(2)[OF fail]
      by (auto simp: adopt_started_def g Inr Let_def d continues_def steady_def split: sum.split)
    moreover have "adopt_started cx candidate e \<noteq> (Inr None, z)" for z
      by (auto simp: adopt_started_def g Inr Let_def d then_do_eq_Inr split: sum.split)
    ultimately show ?thesis using continues_after[OF read] by blast
  qed
qed

lemma adopt_continues:
  "continues cx cs e (adoptNext cx tasks (control_snapshot cs) (control_nowMs cs) e)"
proof (cases "filter (\<lambda>t. isFlightCommand (command t) \<and> is_open (task_status t) \<and> taskId t \<notin> set (finished e)) tasks")
  case Nil
  then show ?thesis by (simp add: adoptNext_def continues_def)
next
  case (Cons candidate rest)
  obtain r e1 where p: "perform cx (ReportStart (taskId candidate)) e = (r, e1)"
    by (cases "perform cx (ReportStart (taskId candidate)) e")
  have e1: "steady cx cs e e1" using perform_steady[of "ReportStart (taskId candidate)" cs cx e] by (simp add: p)
  have "continues cx cs e (adopt_started cx candidate e1)"
    using adopt_started_continues[of cx cs e1 candidate] e1 run_after[of cx cs e cs e1] guarded_trans[of cx cs e cs e1]
    by (auto simp: continues_def steady_def split: sum.splits prod.splits)
  moreover have "steady cx cs e (e1\<lparr>finished := f, pendingTerminalReport := q\<rparr>)" for f q
    by (rule steady_trans[OF e1 steady_same]) simp
  then have "continues cx cs e (Inl err, e1\<lparr>finished := f, pendingTerminalReport := q\<rparr>)" for err f q
    by (simp add: continues_def run_steady)
  moreover have "steady cx cs e (snd (reportTerminal cx rep (e\<lparr>finished := f\<rparr>)))" for rep f
    by (rule report_after_steady) simp
  note continues_then(1)[OF this]
  ultimately show ?thesis by (cases r) (auto simp: adoptNext_def Cons Let_def p)
qed

lemma movement_guarded: "guarded_run cx cs e (snd (ingest_movement cx tasks cs e))"
proof -
  let ?m = "if active e = None then adoptNext cx tasks (control_snapshot cs) (control_nowMs cs) e else (Inr None, e)"
  have c: "continues cx cs e ?m"
    using adopt_continues[of cx cs e tasks] by (simp add: continues_def)
  obtain r s where m: "?m = (r, s)" by (cases ?m)
  show ?thesis
  proof (cases r)
    case (Inl err)
    then show ?thesis using c by (simp add: ingest_movement_def m continues_def)
  next
    case (Inr x)
    let ?cs = "case x of Some cs' \<Rightarrow> cs' | None \<Rightarrow> cs"
    have "guarded cx cs e ?cs s" using c by (simp add: m Inr continues_def)
    from run_after[OF this run_steady[OF advance_steady]] show ?thesis
      by (simp add: ingest_movement_def m Inr Let_def)
  qed
qed

lemma ready_guarded: "guarded_run cx cs e (snd (ingest_ready cx tasks cs e))"
  unfolding ingest_ready_def
proof (rule run_then)
  show "steady cx cs e (snd (rejectGotoDuringTakeoff cx tasks e))"
    unfolding rejectGotoDuringTakeoff_def by (auto intro: reject_steady)
  fix u e1
  have "guarded_run cx cs' e4 (snd (ingest_movement cx tasks cs' (e4\<lparr>holdRequiredBeforeMovement := False\<rparr>)))" for cs' e4
    by (rule run_same[OF movement_guarded]) simp
  then have "guarded_run cx cs e1 (snd (then_do (getControlState cx e1) (\<lambda>cs e.
      then_do (establishHold cx (control_snapshot cs) (control_nowMs cs) e) (\<lambda>held e.
        if \<not> held then (Inr (), e)
        else then_do (getControlState cx e) (\<lambda>cs' e.
          ingest_movement cx tasks cs' (e\<lparr>holdRequiredBeforeMovement := False\<rparr>))))))"
    by (intro run_read run_then hold_steady) (auto intro: run_read run_steady)
  then show "guarded_run cx cs e1 (snd (if holdRequiredBeforeMovement e1 then
         then_do (getControlState cx e1) (\<lambda>cs e.
           then_do (establishHold cx (control_snapshot cs) (control_nowMs cs) e) (\<lambda>held e.
             if \<not> held then (Inr (), e)
             else then_do (getControlState cx e) (\<lambda>cs' e.
               ingest_movement cx tasks cs' (e\<lparr>holdRequiredBeforeMovement := False\<rparr>))))
       else ingest_movement cx tasks cs e1))"
    using movement_guarded by simp
qed

lemma ingest_guarded:
  "guarded_run cx \<lparr>control_snapshot = s, control_nowMs = nowMs\<rparr> e (snd (ingest cx tasks s nowMs e))"
proof -
  let ?cs = "\<lparr>control_snapshot = s, control_nowMs = nowMs\<rparr>"
  have start: "steady cx ?cs e (snd (flushTerminalReport cx (reconcileAuthoritative tasks e)))"
    by (rule steady_trans[OF steady_same flush_steady]) (simp add: reconcile_trace)
  have hold: "steady cx ?cs e' (snd (establishHold cx s nowMs e'))" for e' using hold_steady[of cx ?cs e'] by simp
  have rest: "guarded_run cx cs' e4 (snd (ingest_ready cx tasks cs' (e4\<lparr>reholdOnGuided := False\<rparr>)))" for cs' e4
    by (rule run_same[OF ready_guarded]) simp
  have "guarded_run cx ?cs e2 (snd (then_do (establishHold cx s nowMs e2) (\<lambda>held e.
      if \<not> held then (Inr (), e)
      else then_do (getControlState cx e) (\<lambda>cs e. ingest_ready cx tasks cs (e\<lparr>reholdOnGuided := False\<rparr>)))))" for e2
    using rest by (intro run_then hold) (auto intro: run_read run_steady)
  moreover have "guarded_run cx ?cs e2 (snd (rejectPendingOutsideGuided cx tasks s nowMs e2))" for e2
    unfolding rejectPendingOutsideGuided_def by (rule run_steady[OF reject_steady])
  ultimately show ?thesis
    unfolding ingest_def using ready_guarded
    by (intro run_then start observe_steady) auto
qed

text \<open>C4: every message that an \<^verbatim>\<open>ingest\<close> sends to the aircraft, whether a task command, a corrective hold or a
  recovery landing, is sent while the control state that the engine read last (or was called with) shows Guided mode and
  fresh heartbeat and position telemetry, whatever fails on the way.\<close>

theorem sends_need_authority:
  "\<exists>acts. trace (snd (ingest cx tasks s nowMs e)) = trace e @ acts \<and>
     justified cx (length (trace e)) \<lparr>control_snapshot = s, control_nowMs = nowMs\<rparr> acts"
  using ingest_guarded[of cx s nowMs e tasks] by (auto simp: guarded_run_def guarded_def)

section \<open>No started task is forgotten\<close>

fun terminal_action :: "engine_action \<Rightarrow> jstring \<Rightarrow> bool" where
  "terminal_action (ReportComplete i) j = (i = j)"
| "terminal_action (ReportFail i _ _) j = (i = j)"
| "terminal_action _ j = False"

definition settled :: "engine \<Rightarrow> jstring \<Rightarrow> bool" where
  "settled e i \<longleftrightarrow> (\<exists>a. (a, True) \<in> set (trace e) \<and> terminal_action a i)"

text \<open>All started tasks but those in \<open>R\<close> are active, have a report that will be retried, or were reported to Core.\<close>

definition accounted :: "jstring set \<Rightarrow> engine \<Rightarrow> bool" where
  "accounted R e \<longleftrightarrow> (\<forall>i \<in> set (starts (trace e)). i \<in> R \<or> activeTaskId e = Some i \<or>
     map_option report_task (pendingTerminalReport e) = Some i \<or> settled e i)"

definition good :: "jstring set \<Rightarrow> (engine, 'a) effect \<Rightarrow> bool" where
  "good R m \<longleftrightarrow> accounted R (snd m) \<and> (\<forall>x. fst m = Inr x \<longrightarrow> pendingTerminalReport (snd m) = None)"

lemma good_then:
  assumes "good R m"
    "\<And>x s. m = (Inr x, s) \<Longrightarrow> accounted R s \<Longrightarrow> pendingTerminalReport s = None \<Longrightarrow> good R (f x s)"
  shows "good R (then_do m f)"
proof -
  obtain r s where m: "m = (r, s)" by (cases m)
  show ?thesis using assms by (cases r) (auto simp: m good_def)
qed

lemma good_return: "accounted R e \<Longrightarrow> pendingTerminalReport e = None \<Longrightarrow> good R (Inr x, e)"
  by (simp add: good_def)

lemma settled_mono: "settled e i \<Longrightarrow> trace e' = trace e @ as \<Longrightarrow> settled e' i"
  by (auto simp: settled_def)

lemma perform_accounted:
  assumes "accounted R e" "\<And>i. a \<noteq> ReportStart i"
  shows "accounted R (snd (perform cx a e))"
  using assms
  by (cases a) (auto simp: perform_def accounted_def activeTaskId_def settled_def split: option.split)

lemma perform_good:
  "accounted R e \<Longrightarrow> pendingTerminalReport e = None \<Longrightarrow> (\<And>i. a \<noteq> ReportStart i) \<Longrightarrow> good R (perform cx a e)"
  using perform_accounted[of R e a cx] by (auto simp: good_def perform_def split: option.split)

lemma read_good: "accounted R e \<Longrightarrow> pendingTerminalReport e = None \<Longrightarrow> good R (getControlState cx e)"
  by (auto simp: getControlState_def good_def accounted_def activeTaskId_def settled_def split: sum.split)

lemma flush_good: "accounted R e \<Longrightarrow> good R (flushTerminalReport cx e)"
proof (cases "pendingTerminalReport e")
  case None
  then show "accounted R e \<Longrightarrow> good R (flushTerminalReport cx e)" by (simp add: flushTerminalReport_def good_def)
next
  case (Some r)
  have t: "terminal_action (report_action r) (report_task r)" by (cases r) simp_all
  have s: "starts [(report_action r, b)] = []" for b by (cases r) simp_all
  assume "accounted R e"
  then show ?thesis
    using t s[of True] s[of False]
    by (auto simp: flushTerminalReport_def Some perform_def good_def accounted_def activeTaskId_def settled_def
        split: option.split)
qed

lemma report_good:
  assumes "accounted (insert (report_task r) R) e" "pendingTerminalReport e = None"
  shows "good R (reportTerminal cx r e)"
  unfolding reportTerminal_def
  by (rule flush_good) (use assms in \<open>auto simp: accounted_def activeTaskId_def settled_def\<close>)

lemma hold_good: "accounted R e \<Longrightarrow> pendingTerminalReport e = None \<Longrightarrow> good R (establishHold cx s nowMs e)"
  unfolding establishHold_def
  by (auto split: option.split intro!: good_then perform_good good_return)

lemma hold_accounted: "accounted R e \<Longrightarrow> accounted R (snd (establishHold cx s nowMs e))"
  unfolding establishHold_def by (auto split: option.split intro!: perform_accounted)

lemma finish_accounted:
  "accounted R e \<Longrightarrow> activeTaskId e = Some i \<Longrightarrow> accounted (insert i R) (finish_active e i)"
  by (auto simp: accounted_def finish_active_def activeTaskId_def settled_def)

lemma accounted_finished [simp]: "accounted R (e\<lparr>finished := f\<rparr>) = accounted R e"
  "accounted R (e\<lparr>reholdOnGuided := b\<rparr>) = accounted R e" "accounted R (e\<lparr>holdRequiredBeforeMovement := b\<rparr>) = accounted R e"
  "accounted R (e\<lparr>lastMode := m\<rparr>) = accounted R e"
  by (simp_all add: accounted_def activeTaskId_def settled_def)

lemma accounted_mono: "accounted R e \<Longrightarrow> R \<subseteq> R' \<Longrightarrow> accounted R' e"
  by (auto simp: accounted_def)

lemma takeover_good:
  "accounted R e \<Longrightarrow> pendingTerminalReport e = None \<Longrightarrow> good R (noteTakeover cx m e)"
proof (cases "active e")
  case (Some a)
  assume e: "accounted R e" "pendingTerminalReport e = None"
  have "good R (reportTerminal cx (FailReport (taskId (task a)) ExecutionFailed (PilotTakeover m))
      ((finish_active e (taskId (task a)))\<lparr>reholdOnGuided := True\<rparr>))"
    using finish_accounted[OF e(1), of "taskId (task a)"] e(2) Some
    by (intro report_good) (simp_all add: activeTaskId_def, simp add: finish_active_def)
  then show ?thesis using e by (simp add: noteTakeover_def Some good_return)
qed (simp add: noteTakeover_def good_return)

lemma observe_good:
  assumes "accounted R e" "pendingTerminalReport e = None"
  shows "good R (observeMode cx s e)"
proof -
  have "good R (noteTakeover cx m (e\<lparr>lastMode := l\<rparr>))" for m l using assms by (intro takeover_good) auto
  then show ?thesis using assms unfolding observeMode_def Let_def by (auto simp: good_def)
qed

lemma reject_good:
  "accounted R e \<Longrightarrow> pendingTerminalReport e = None \<Longrightarrow> good R (reject_tasks cx P message ts e)"
proof (induction ts arbitrary: e)
  case (Cons t ts)
  have "good R (reportTerminal cx r (e\<lparr>finished := f\<rparr>))" for r f
    by (rule report_good) (use Cons.prems accounted_mono[of R e "insert (report_task r) R"] in auto)
  then show ?case using Cons by (auto intro!: good_then)
qed (simp add: good_def)

lemma fail_good:
  assumes "accounted R e" "pendingTerminalReport e = None"
  shows "good R (failActive cx code message s nowMs e)"
proof (cases "active e")
  case (Some a)
  let ?r = "FailReport (taskId (task a)) code message"
  let ?e1 = "(finish_active e (taskId (task a)))\<lparr>pendingTerminalReport := Some ?r\<rparr>"
  have "accounted (insert (taskId (task a)) R) (finish_active e (taskId (task a)))"
    using finish_accounted[OF assms(1), of "taskId (task a)"] Some by (simp add: activeTaskId_def)
  then have e1: "accounted R ?e1" using assms(2) by (auto simp: accounted_def activeTaskId_def settled_def finish_active_def)
  have flush: "good R (then_do m (\<lambda>_ e. flushTerminalReport cx e))" if "accounted R (snd m)" for m :: "(engine, unit) effect"
    using that flush_good by (cases m; cases "fst m") (auto simp: good_def)
  have "accounted R (snd (then_do (establishHold cx s nowMs ?e1) (\<lambda>_ e. (Inr (), e))))"
    using hold_accounted[OF e1] by simp
  moreover have "accounted R (snd (perform cx (Send m) ?e1))" for m using e1 by (intro perform_accounted) auto
  ultimately show ?thesis
    unfolding failActive_def Some Let_def option.case by (intro flush) (auto split: option.split intro: e1)
qed (use assms in \<open>simp add: failActive_def good_def\<close>)

lemma advance_good:
  assumes "accounted R e" "pendingTerminalReport e = None"
  shows "good R (advance cx s nowMs e)"
proof (cases "active e")
  case (Some a)
  obtain progressed a1 where a1: "note_progress a s nowMs = (progressed, a1)" by (cases "note_progress a s nowMs")
  obtain complete a2 where a2: "isComplete cx a1 s nowMs = (complete, a2)" by (cases "isComplete cx a1 s nowMs")
  have t: "task a1 = task a" "task a2 = task a"
    using progress_task[of a s nowMs] complete_task[of cx a1 s nowMs] by (simp_all add: a1 a2)
  have acc: "accounted R (e\<lparr>active := Some a1\<rparr>)" "accounted R (e\<lparr>active := Some a2\<rparr>)"
    using assms(1) Some t by (auto simp: accounted_def activeTaskId_def settled_def)
  have "accounted (insert (taskId (task a2)) R) (finish_active (e\<lparr>active := Some a2\<rparr>) (taskId (task a2)))"
    using finish_accounted[OF acc(2), of "taskId (task a2)"] by (simp add: activeTaskId_def)
  then have "good R (reportTerminal cx (CompleteReport (taskId (task a2))) (finish_active (e\<lparr>active := Some a2\<rparr>) (taskId (task a2))))"
    using assms(2) by (intro report_good) (simp_all add: finish_active_def)
  then show ?thesis
    using acc assms fail_good[OF assms] fail_good[OF acc(1)]
    by (auto simp: advance_def Some a1 a2 Let_def good_def)
qed (use assms in \<open>simp add: advance_def good_def\<close>)


definition released :: "authoritative_task list \<Rightarrow> jstring set" where
  "released tasks = {i. \<exists>t \<in> set tasks. taskId t = i \<and> is_terminal (task_status t)}"

lemma released_by_id: "by_id tasks i = Some t \<Longrightarrow> is_terminal (task_status t) \<Longrightarrow> i \<in> released tasks"
  by (auto simp: released_def dest!: by_id_task)

lemma accounted_drop_report:
  "accounted R e \<Longrightarrow> pendingTerminalReport e = Some r \<Longrightarrow> report_task r \<in> R \<Longrightarrow> accounted R (e\<lparr>pendingTerminalReport := None\<rparr>)"
  by (auto simp: accounted_def activeTaskId_def settled_def)

lemma accounted_drop_active:
  "accounted R e \<Longrightarrow> activeTaskId e = Some i \<Longrightarrow> i \<in> R \<Longrightarrow> accounted R (finish_active e i)"
  using finish_accounted[of R e i] by (simp add: insert_absorb)

lemma accounted_same_task:
  "accounted R e \<Longrightarrow> active e = Some a \<Longrightarrow> taskId (task b) = taskId (task a) \<Longrightarrow> accounted R (e\<lparr>active := Some b\<rparr>)"
  by (auto simp: accounted_def activeTaskId_def settled_def)

lemma reconcile_accounted:
  assumes "accounted R e"
  shows "accounted (R \<union> released tasks) (reconcileAuthoritative tasks e)"
proof -
  let ?R = "R \<union> released tasks"
  have e: "accounted ?R e" by (rule accounted_mono[OF assms]) simp
  have pend: "accounted ?R (case pendingTerminalReport e of None \<Rightarrow> e
      | Some r \<Rightarrow> (case by_id tasks (report_task r) of None \<Rightarrow> e
        | Some t \<Rightarrow> if is_terminal (task_status t) then e\<lparr>pendingTerminalReport := None\<rparr> else e))"
    using e by (auto split: option.split intro: accounted_drop_report released_by_id)
  have act: "accounted ?R (case active e1 of None \<Rightarrow> e1
      | Some a \<Rightarrow> (case by_id tasks (taskId (task a)) of None \<Rightarrow> e1
        | Some t \<Rightarrow>
            if is_terminal (task_status t) then
              let e' = finish_active e1 (taskId t)
              in if task_status t = Cancelled \<and> cancellationCode t = Some ''requested'' \<and> command (task a) = ''flight.goto''
                 then e'\<lparr>holdRequiredBeforeMovement := True\<rparr> else e'
            else e1\<lparr>active := Some (a\<lparr>task := t\<rparr>)\<rparr>))" if e1: "accounted ?R e1" for e1
  proof (cases "active e1")
    case (Some a)
    show ?thesis
    proof (cases "by_id tasks (taskId (task a))")
      case (Some t)
      note t = by_id_task[OF this]
      have "accounted ?R (finish_active e1 (taskId t))" if "is_terminal (task_status t)"
        using accounted_drop_active[OF e1, of "taskId t"] released_by_id[OF Some that] t \<open>active e1 = Some a\<close>
        by (simp add: activeTaskId_def)
      moreover have "accounted ?R (e1\<lparr>active := Some (a\<lparr>task := t\<rparr>)\<rparr>)"
        using t by (intro accounted_same_task[OF e1 \<open>active e1 = Some a\<close>]) simp
      ultimately show ?thesis using Some \<open>active e1 = Some a\<close> by (simp add: Let_def)
    qed (use Some e1 in simp)
  qed (use e1 in simp)
  show ?thesis
    unfolding reconcileAuthoritative_def Let_def using act[OF pend, unfolded Let_def] by simp
qed

lemma accounted_act:
  "accounted R e \<Longrightarrow> (\<And>i. a \<noteq> ReportStart i) \<Longrightarrow> accounted R (e\<lparr>trace := trace e @ [(a, b)]\<rparr>)"
  "accounted R e \<Longrightarrow> accounted (insert i R) (e\<lparr>trace := trace e @ [(ReportStart i, b)]\<rparr>)"
  by (cases a; auto simp: accounted_def activeTaskId_def settled_def; blast)
     (auto simp: accounted_def activeTaskId_def settled_def; blast)

lemma accounted_read:
  "accounted R e \<Longrightarrow> pendingTerminalReport e = None \<Longrightarrow> getControlState cx e = (r, s) \<Longrightarrow>
   accounted R s \<and> pendingTerminalReport s = None \<and> active s = active e"
  by (auto simp: getControlState_def intro: accounted_act split: sum.splits)

lemma adopt_active_accounted:
  "accounted (insert i R) e \<Longrightarrow> active e = None \<Longrightarrow> taskId (task a) = i \<Longrightarrow> accounted R (e\<lparr>active := Some a\<rparr>)"
  by (auto simp: accounted_def activeTaskId_def settled_def)

lemma dispatch_good: "accounted R e \<Longrightarrow> pendingTerminalReport e = None \<Longrightarrow> good R (dispatch cx t s e)"
  unfolding dispatch_def Let_def by (auto split: option.split intro!: perform_good good_return)

lemma dispatch_pending: "pendingTerminalReport (snd (dispatch cx t s e)) = pendingTerminalReport e"
  by (auto simp: dispatch_def Let_def perform_def split: option.split)

lemma good_then_same: "good R m \<Longrightarrow> good R (then_do m (\<lambda>_ e. (Inr x, e)))"
  by (rule good_then) (simp_all add: good_return)

lemma adopt_started_good:
  assumes "accounted (insert (taskId candidate) R) e" "pendingTerminalReport e = None" "active e = None"
    and control: "\<And>n. \<exists>cs. control cx n = Inr cs"
  shows "good R (adopt_started cx candidate e)"
proof -
  obtain cs s where g: "getControlState cx e = (Inr cs, s)"
    using control[of "length (trace e)"] by (auto simp: getControlState_def)
  have s: "accounted (insert (taskId candidate) R) s" "pendingTerminalReport s = None" "active s = None"
    using accounted_read[OF assms(1,2) g] assms(3) by simp_all
  let ?e = "s\<lparr>active := Some (new_execution candidate cs)\<rparr>"
  obtain r' s' where d: "dispatch cx candidate (control_snapshot cs) ?e = (r', s')"
    by (cases "dispatch cx candidate (control_snapshot cs) ?e")
  have e: "accounted R ?e" by (rule adopt_active_accounted[OF s(1,3)]) (simp add: new_execution_def Let_def)
  have g': "good R (r', s')" using dispatch_good[OF e, of cx candidate "control_snapshot cs"] s(2) by (simp add: d)
  have s': "pendingTerminalReport s' = None" "active s' = Some (new_execution candidate cs)"
    using dispatch_pending[of cx candidate "control_snapshot cs" ?e] dispatch_calm_quiet(1)[of ?e cx candidate "control_snapshot cs"] s(2)
    by (simp_all add: d calm_def)
  have "accounted (insert (taskId candidate) R) (finish_active s' (taskId candidate))"
    using g' s' by (intro finish_accounted) (simp_all add: good_def activeTaskId_def new_execution_def Let_def)
  then have "good R (reportTerminal cx (FailReport (taskId candidate) c m) (finish_active s' (taskId candidate)))" for c m
    using s'(1) by (intro report_good) (simp_all add: finish_active_def)
  moreover have "good R (reportTerminal cx (FailReport (taskId candidate) c m) (s\<lparr>finished := f\<rparr>))" for c m f
    using s by (intro report_good) simp_all
  ultimately show ?thesis
    using g' by (auto simp: adopt_started_def g Let_def d good_def[of R "(Inr _, s')"] intro: good_then_same good_return split: sum.split)
qed

lemma adopt_good:
  assumes "accounted R e" "pendingTerminalReport e = None" "active e = None"
    and control: "\<And>n. \<exists>cs. control cx n = Inr cs"
  shows "good R (adoptNext cx tasks s nowMs e)"
proof (cases "filter (\<lambda>t. isFlightCommand (command t) \<and> is_open (task_status t) \<and> taskId t \<notin> set (finished e)) tasks")
  case Nil
  then show ?thesis using assms by (simp add: adoptNext_def good_return)
next
  case (Cons candidate rest)
  obtain r e1 where p: "perform cx (ReportStart (taskId candidate)) e = (r, e1)"
    by (cases "perform cx (ReportStart (taskId candidate)) e")
  have e1: "accounted (insert (taskId candidate) R) e1" "pendingTerminalReport e1 = None" "active e1 = None"
    using p assms(1,2,3) by (auto simp: perform_def intro: accounted_act split: option.splits)
  have "good R (Inl err, e1\<lparr>finished := f, pendingTerminalReport := Some (FailReport (taskId candidate) c m)\<rparr>)" for err f c m
    using e1 by (auto simp: good_def accounted_def activeTaskId_def settled_def)
  moreover have "good R (reportTerminal cx (FailReport (taskId candidate) c m) (e\<lparr>finished := f\<rparr>))" for c m f
    using assms(1,2) accounted_mono[of R e "insert (taskId candidate) R"] by (intro report_good) auto
  ultimately show ?thesis
    using adopt_started_good[OF e1 control]
    by (auto simp: adoptNext_def Cons Let_def p intro: good_then_same split: sum.split)
qed

lemma movement_good:
  assumes "accounted R e" "pendingTerminalReport e = None" and "\<And>n. \<exists>cs. control cx n = Inr cs"
  shows "good R (ingest_movement cx tasks current e)"
  unfolding ingest_movement_def Let_def
  by (rule good_then) (use assms in \<open>auto intro: adopt_good good_return advance_good\<close>)

lemma ready_good:
  assumes "accounted R e" "pendingTerminalReport e = None" and "\<And>n. \<exists>cs. control cx n = Inr cs"
  shows "good R (ingest_ready cx tasks current e)"
proof -
  have "good R (rejectGotoDuringTakeoff cx tasks e)"
    unfolding rejectGotoDuringTakeoff_def using assms reject_good good_return by auto
  moreover have "good R (ingest_movement cx tasks cs (e\<lparr>holdRequiredBeforeMovement := False\<rparr>))"
    if "accounted R e" "pendingTerminalReport e = None" for cs e
    using that assms(3) by (intro movement_good) auto
  ultimately show ?thesis
    unfolding ingest_ready_def using assms(3)
    by (auto intro!: good_then movement_good read_good hold_good good_return)
qed

lemma ingest_good:
  assumes "accounted R e" and "\<And>n. \<exists>cs. control cx n = Inr cs"
  shows "good (R \<union> released tasks) (ingest cx tasks s nowMs e)"
proof -
  let ?R = "R \<union> released tasks"
  have "good ?R (ingest_ready cx tasks cs (e\<lparr>reholdOnGuided := False\<rparr>))"
    if "accounted ?R e" "pendingTerminalReport e = None" for cs e
    using that assms(2) by (intro ready_good) auto
  then show ?thesis
    unfolding ingest_def rejectPendingOutsideGuided_def
    using assms(2) flush_good[OF reconcile_accounted[OF assms(1)]]
    by (auto intro!: good_then ready_good read_good hold_good good_return observe_good reject_good)
qed


text \<open>Tasks that Core or the controller took over from the engine: those delivered in a terminal state, and the one that the
  controller abandons for a recovery, which it then reports itself.\<close>

fun released_by :: "engine \<Rightarrow> engine_call \<Rightarrow> jstring set" where
  "released_by e (Ingest tasks s nowMs) = released tasks"
| "released_by e (Abandon rehold) = set_option (activeTaskId e)"
| "released_by e _ = {}"

fun released_in :: "engine_context \<Rightarrow> engine \<Rightarrow> engine_call list \<Rightarrow> jstring set" where
  "released_in cx e [] = {}"
| "released_in cx e (c # cs) = released_by e c \<union> released_in cx (engine_step cx e c) cs"

fun controller_call :: "engine_call \<Rightarrow> bool" where
  "controller_call (Ingest _ _ _) = True"
| "controller_call (Abandon _) = True"
| "controller_call _ = False"

lemma abandon_accounted:
  "accounted R e \<Longrightarrow> accounted (R \<union> set_option (activeTaskId e)) (snd (abandonActiveForRecovery rehold e))"
  by (auto simp: abandonActiveForRecovery_def Let_def accounted_def activeTaskId_def settled_def finish_active_def
      split: option.split)

lemma step_accounted:
  assumes "\<And>n. \<exists>cs. control cx n = Inr cs" "controller_call c" "accounted R e"
  shows "accounted (R \<union> released_by e c) (engine_step cx e c)"
proof (cases c)
  case (Ingest tasks s nowMs)
  then show ?thesis using ingest_good[OF assms(3,1)] by (simp add: good_def)
next
  case (Abandon rehold)
  then show ?thesis using abandon_accounted[OF assms(3)] by (simp add: activeTaskId_def)
qed (use assms(2) in simp_all)

lemma run_accounted:
  assumes "\<And>n. \<exists>cs. control cx n = Inr cs"
  shows "list_all controller_call calls \<Longrightarrow> accounted R e \<Longrightarrow>
    accounted (R \<union> released_in cx e calls) (foldl (engine_step cx) e calls)"
proof (induction calls arbitrary: R e)
  case (Cons c calls)
  then show ?case using Cons.IH[of "R \<union> released_by e c" "engine_step cx e c"] step_accounted[OF assms, of c R e]
    by (simp add: Un_assoc)
qed simp

text \<open>C13: no started task is forgotten: as long as the control state can be read (it is the memory of the host), after any
  sequence of the calls that the controller makes, with reports and sends failing anywhere, each task whose start was
  reported is still active, has a report waiting to be retried, was reported to Core as completed or failed with success, or
  was released: delivered in a terminal state or abandoned for a recovery that the controller reports.\<close>

theorem no_task_forgotten:
  assumes "\<forall>n. \<exists>cs. control cx n = Inr cs" "list_all controller_call calls"
    and "e = foldl (engine_step cx) new_engine calls" "i \<in> set (starts (trace e))"
  shows "activeTaskId e = Some i \<or> map_option report_task (pendingTerminalReport e) = Some i \<or>
    (\<exists>code message. (ReportComplete i, True) \<in> set (trace e) \<or> (ReportFail i code message, True) \<in> set (trace e)) \<or>
    i \<in> released_in cx new_engine calls"
proof -
  have "terminal_action a i \<Longrightarrow> a = ReportComplete i \<or> (\<exists>code message. a = ReportFail i code message)" for a
    by (cases a) auto
  moreover have "accounted {} new_engine" by (simp add: accounted_def new_engine_def)
  then have "accounted (released_in cx new_engine calls) e"
    using run_accounted[of cx calls "{}" new_engine] assms by simp
  ultimately show ?thesis
    using assms(4) by (fastforce simp: accounted_def activeTaskId_def settled_def)
qed

section \<open>A task that does not complete is failed\<close>

definition reliable :: "engine_context \<Rightarrow> bool" where
  "reliable cx \<longleftrightarrow> (\<forall>n. answer cx n = None)"

definition succeeds :: "('s, 'a) effect \<Rightarrow> bool" where
  "succeeds m \<longleftrightarrow> (\<exists>x. fst m = Inr x)"

lemma perform_reliable: "reliable cx \<Longrightarrow> perform cx a e = (Inr (), e\<lparr>trace := trace e @ [(a, True)]\<rparr>)"
  by (simp add: perform_def reliable_def)

lemma report_reliable:
  assumes "reliable cx"
  shows "reportTerminal cx r e = (Inr (), e\<lparr>pendingTerminalReport := None, trace := trace e @ [(report_action r, True)]\<rparr>)"
  by (simp add: reportTerminal_def flushTerminalReport_def perform_reliable[OF assms])

lemma flush_reliable: "reliable cx \<Longrightarrow> succeeds (flushTerminalReport cx e)"
  by (simp add: flushTerminalReport_def perform_reliable succeeds_def split: option.split)

lemma reject_reliable: "reliable cx \<Longrightarrow> succeeds (reject_tasks cx P message ts e)"
  by (induction ts arbitrary: e) (simp_all add: report_reliable succeeds_def)

lemma hold_reliable: "reliable cx \<Longrightarrow> succeeds (establishHold cx s nowMs e)"
  by (auto simp: establishHold_def perform_reliable succeeds_def split: option.split)

lemma report_settles: "reliable cx \<Longrightarrow> settled (snd (reportTerminal cx r e)) (report_task r)"
  by (cases r) (auto simp: report_reliable settled_def)

lemma settled_run: "settled e i \<Longrightarrow> guarded_run cx cs e e' \<Longrightarrow> settled e' i"
  by (auto simp: guarded_run_def guarded_def settled_def)

text \<open>A task that is reported and finished.\<close>

definition over :: "jstring \<Rightarrow> engine \<Rightarrow> bool" where
  "over i e \<longleftrightarrow> settled e i \<and> i \<in> set (finished e)"

lemma fail_settles:
  assumes "reliable cx" "active e = Some a"
  shows "over (taskId (task a)) (snd (failActive cx code message s nowMs e))"
proof -
  let ?r = "FailReport (taskId (task a)) code message"
  have flush: "over (taskId (task a)) (snd (then_do m (\<lambda>_ e. flushTerminalReport cx e)))"
    if "succeeds m" "pendingTerminalReport (snd m) = Some ?r" "taskId (task a) \<in> set (finished (snd m))" for m :: "(engine, unit) effect"
    using that by (cases m) (auto simp: succeeds_def flushTerminalReport_def perform_reliable[OF assms(1)] settled_def over_def)
  have hold: "fst (then_do (establishHold cx s nowMs e') (\<lambda>_ e. (Inr (), e))) = Inr ()"
    "pendingTerminalReport (snd (establishHold cx s nowMs e')) = pendingTerminalReport e'"
    "finished (snd (establishHold cx s nowMs e')) = finished e'" for e'
    by (auto simp: establishHold_def perform_reliable[OF assms(1)] split: option.split)
  show ?thesis
    unfolding failActive_def assms(2) option.case Let_def
    by (intro flush) (auto simp: perform_reliable[OF assms(1)] hold finish_active_def succeeds_def split: option.split)
qed

lemma reconcile_active:
  assumes "active e = Some a" "taskId (task a) \<notin> released tasks"
  obtains b where "active (reconcileAuthoritative tasks e) = Some b" "taskId (task b) = taskId (task a)"
    "startedAtMs b = startedAtMs a"
proof -
  define e1 where "e1 = (case pendingTerminalReport e of None \<Rightarrow> e
      | Some r \<Rightarrow> (case by_id tasks (report_task r) of None \<Rightarrow> e
        | Some t \<Rightarrow> if is_terminal (task_status t) then e\<lparr>pendingTerminalReport := None\<rparr> else e))"
  have e1: "active e1 = Some a" using assms(1) by (simp add: e1_def split: option.split)
  show ?thesis
  proof (cases "by_id tasks (taskId (task a))")
    case None
    then show ?thesis using that e1 by (simp add: reconcileAuthoritative_def e1_def[symmetric] Let_def)
  next
    case (Some t)
    then have "\<not> is_terminal (task_status t)" using released_by_id assms(2) by blast
    then show ?thesis
      using that[of "a\<lparr>task := t\<rparr>"] e1 Some by_id_task[OF Some] by (simp add: reconcileAuthoritative_def e1_def[symmetric] Let_def)
  qed
qed

lemma observe_active:
  assumes "reliable cx" "active e = Some a"
  shows "observeMode cx s e = (Inr (), e') \<Longrightarrow>
    over (taskId (task a)) e' \<or> (active e' = Some a \<and> reholdOnGuided e' = reholdOnGuided e \<and>
      holdRequiredBeforeMovement e' = holdRequiredBeforeMovement e)"
  and "succeeds (observeMode cx s e)"
  using report_settles[OF assms(1)] assms
  by (auto simp: observeMode_def noteTakeover_def Let_def succeeds_def report_reliable settled_def over_def finish_active_def split: if_splits)


lemma succeeds_then:
  assumes "succeeds m"
  obtains x s where "m = (Inr x, s)" "then_do m f = f x s"
  using assms by (cases m) (auto simp: succeeds_def)

definition finishes :: "engine \<Rightarrow> engine \<Rightarrow> bool" where
  "finishes e e' \<longleftrightarrow> set (finished e) \<subseteq> set (finished e')"

interpretation finish_order: effect_preorder finishes
  by unfold_locales (auto simp: finishes_def)

lemma quiet_finishes: "quiet e e' \<Longrightarrow> finishes e e'"
  by (simp add: quiet_def finishes_def)

lemma adopt_started_finishes: "finishes e (snd (adopt_started cx candidate e))"
proof -
  obtain r s where g: "getControlState cx e = (r, s)" by (cases "getControlState cx e")
  have s: "finishes e s" using quiet_finishes[OF read_quiet[of e cx]] by (simp add: g)
  show ?thesis
  proof (cases r)
    case (Inl err)
    then show ?thesis using s by (auto simp: adopt_started_def g finishes_def)
  next
    case (Inr cs)
    let ?e = "s\<lparr>active := Some (new_execution candidate cs)\<rparr>"
    obtain r' s' where d: "dispatch cx candidate (control_snapshot cs) ?e = (r', s')"
      by (cases "dispatch cx candidate (control_snapshot cs) ?e")
    have s': "finishes s s'"
      using quiet_finishes[OF dispatch_calm_quiet(2)[of ?e cx candidate "control_snapshot cs"]] by (simp add: d finishes_def)
    have report: "finishes e (snd (reportTerminal cx rep e1))" if "finishes e e1" for rep e1
      using finish_order.trans[OF that quiet_finishes[OF report_quiet]] .
    have "finishes e (s\<lparr>finished := set_add i (finished s)\<rparr>)" "finishes e (finish_active s' i)" "finishes e s'" for i
      using s s' by (auto simp: finishes_def finish_active_def)
    note this this[THEN report]
    then show ?thesis
      by (auto simp: adopt_started_def g Inr Let_def d split: sum.split)
  qed
qed

lemma adopt_finishes: "finishes e (snd (adoptNext cx tasks s nowMs e))"
proof -
  have report: "finishes e (snd (reportTerminal cx rep (e\<lparr>finished := set_add i (finished e)\<rparr>)))" for rep i
    using quiet_finishes[OF report_quiet[of "e\<lparr>finished := set_add i (finished e)\<rparr>" cx rep]] by (auto simp: finishes_def)
  have p: "perform cx (ReportStart i) e = (r, e1) \<Longrightarrow> finished e1 = finished e" for i r e1
    by (auto simp: perform_def split: option.splits)
  show ?thesis
    using report adopt_started_finishes p
    by (fastforce simp: adoptNext_def Let_def finishes_def split: list.split sum.split prod.split)
qed

lemma movement_finishes: "finishes e (snd (ingest_movement cx tasks current e))"
  unfolding ingest_movement_def Let_def
  by (intro finish_order.then_step) (auto intro: adopt_finishes finish_order.refl quiet_finishes advance_quiet)

lemma ready_finishes: "finishes e (snd (ingest_ready cx tasks current e))"
proof -
  have "finishes e (snd (rejectGotoDuringTakeoff cx tasks e))"
    unfolding rejectGotoDuringTakeoff_def by (auto intro: quiet_finishes reject_quiet finish_order.refl)
  moreover have "finishes e (snd (ingest_movement cx tasks cs (e\<lparr>holdRequiredBeforeMovement := False\<rparr>)))" for e cs
    using movement_finishes[of "e\<lparr>holdRequiredBeforeMovement := False\<rparr>"] by (simp add: finishes_def)
  ultimately show ?thesis
    unfolding ingest_ready_def
    by (auto intro!: finish_order.then_step movement_finishes quiet_finishes[OF read_quiet] quiet_finishes[OF hold_quiet]
        simp: finish_order.refl)
qed

lemma over_run: "over i e \<Longrightarrow> guarded_run cx cs e e' \<Longrightarrow> finishes e e' \<Longrightarrow> over i e'"
  using settled_run by (auto simp: over_def finishes_def)

lemma expired_settles:
  assumes "reliable cx" "active e = Some a" "\<not> hold_owed e"
    and "nowMs - startedAtMs a > taskTimeoutSeconds (config cx) * 1000"
  shows "over (taskId (task a)) (snd (ingest_ready cx tasks \<lparr>control_snapshot = s, control_nowMs = nowMs\<rparr> e))"
proof -
  have "succeeds (rejectGotoDuringTakeoff cx tasks e)"
    unfolding rejectGotoDuringTakeoff_def using reject_reliable[OF assms(1)] by (simp add: succeeds_def)
  then obtain u e1 where e1: "rejectGotoDuringTakeoff cx tasks e = (Inr u, e1)"
    by (cases "rejectGotoDuringTakeoff cx tasks e") (auto simp: succeeds_def)
  have "calm e (snd (rejectGotoDuringTakeoff cx tasks e))"
    unfolding rejectGotoDuringTakeoff_def by (auto intro: reject_calm)
  then have "active e1 = Some a" "\<not> holdRequiredBeforeMovement e1"
    using assms(2,3) by (simp_all add: e1 calm_def hold_owed_def)
  then show ?thesis
    using fail_settles[OF assms(1) \<open>active e1 = Some a\<close>] assms(4)
    by (simp add: ingest_ready_def e1 ingest_movement_def advance_def Let_def)
qed

lemma after_takeover_over:
  assumes "over i e"
  shows "over i (snd (if reholdOnGuided e then
           if \<not> guided s then rejectPendingOutsideGuided cx tasks s nowMs e
           else then_do (establishHold cx s nowMs e) (\<lambda>held e.
             if \<not> held then (Inr (), e)
             else then_do (getControlState cx e) (\<lambda>cs e.
               ingest_ready cx tasks cs (e\<lparr>reholdOnGuided := False\<rparr>)))
         else ingest_ready cx tasks \<lparr>control_snapshot = s, control_nowMs = nowMs\<rparr> e))"
proof -
  let ?cs = "\<lparr>control_snapshot = s, control_nowMs = nowMs\<rparr>"
  have over_then: "over i (snd (then_do m f))" if "over i (snd m)" "\<And>x s. over i s \<Longrightarrow> over i (snd (f x s))"
    for m :: "(engine, 'a) effect" and f :: "'a \<Rightarrow> engine \<Rightarrow> (engine, unit) effect"
    using that by (cases m; cases "fst m") auto
  have "over i (snd (rejectPendingOutsideGuided cx tasks s nowMs e))"
    unfolding rejectPendingOutsideGuided_def
    by (rule over_run[OF assms run_steady[OF reject_steady] quiet_finishes[OF reject_quiet]])
  moreover have ready: "over i (snd (ingest_ready cx tasks cs e))" if "over i e" for cs e
    using over_run[OF that ready_guarded ready_finishes] .
  moreover have "over i (snd (establishHold cx s nowMs e))"
    using over_run[OF assms run_steady[OF hold_steady[of cx ?cs]] quiet_finishes[OF hold_quiet]] by simp
  moreover have "over i (snd (getControlState cx e))" if "over i e" for e
    using that by (auto simp: over_def settled_def getControlState_def split: sum.split)
  moreover have "over i (e\<lparr>reholdOnGuided := False\<rparr>)" if "over i e" for e
    using that by (simp add: over_def settled_def)
  ultimately show ?thesis using assms by (auto intro!: over_then)
qed


section \<open>A concrete landing\<close>

definition demo_airborne :: "real \<Rightarrow> vehicle_snapshot" where
  "demo_airborne t = emptySnapshot\<lparr>identity := Some \<lparr>systemId = 1, componentId = 1, vehicleType = 2, autopilot = 3\<rparr>,
     armed := True, mode := ''GUIDED'', customMode := Some 4, guided := True,
     observation := Some ((demo_position 40 t)\<lparr>relativeAltitudeM := 10\<rparr>), lastHeartbeatMs := Some t\<rparr>"

definition demo_config :: asset_config where
  "demo_config = \<lparr>vehicleSystemId = 1, vehicleComponentId = 1, coreLossGraceSeconds = 30, telemetryIntervalSeconds = 1,
     arrivalRadiusM = 2, altitudeToleranceM = 1, hoverSettleSeconds = 2, progressTimeoutSeconds = 30,
     taskTimeoutSeconds = 600, minBatteryPercent = 30, shutdownConfirmSeconds = 5\<rparr>"

definition demo_context :: engine_context where
  "demo_context = \<lparr>dialect = demo_dialect, config = demo_config, answer = (\<lambda>_. None),
     control = (\<lambda>_. Inr \<lparr>control_snapshot = demo_airborne 1000, control_nowMs = 1000\<rparr>)\<rparr>"

definition demo_land :: authoritative_task where
  "demo_land = \<lparr>taskId = js_lit ''T'', command = ''flight.land'', task_status = PendingTask, cancellationCode = None, task_input = []\<rparr>"

definition demo_run :: "engine_call list" where
  "demo_run = [Ingest [demo_land] (demo_airborne 1000) 1000]"

definition demo_engine :: engine where
  "demo_engine = foldl (engine_step demo_context) new_engine demo_run"

lemma demo_fresh: "hasFreshControlTelemetry (demo_airborne 1000) 1000"
  by (simp add: demo_airborne_def hasFreshControlTelemetry_def hasFreshHeartbeat_def demo_position_def
      HEARTBEAT_FRESHNESS_MS_def POSITION_FRESHNESS_MS_def)

lemma demo_snapshot: "guided (demo_airborne t)" "armed (demo_airborne t)" "mode (demo_airborne t) = ''GUIDED''"
  "observation (demo_airborne t) = Some ((demo_position 40 t)\<lparr>relativeAltitudeM := 10\<rparr>)" "customMode (demo_airborne t) = Some 4"
  "launchLatitudeDeg (demo_airborne t) = None"
  "identity (demo_airborne t) = Some \<lparr>systemId = 1, componentId = 1, vehicleType = 2, autopilot = 3\<rparr>"
  by (simp_all add: demo_airborne_def emptySnapshot_def)

lemma demo_preconditions: "preconditions demo_context demo_land (demo_airborne 1000) 1000 = []"
  by (simp add: preconditions_def push_if_def demo_snapshot demo_fresh demo_context_def demo_config_def demo_land_def)

lemma demo_reliable: "reliable demo_context"
  by (simp add: reliable_def demo_context_def)

lemma demo_execution:
  "new_execution demo_land \<lparr>control_snapshot = demo_airborne 1000, control_nowMs = 1000\<rparr> =
     \<lparr>task = demo_land, startedAtMs = 1000, lastProgressAtMs = 1000,
      recoveryProgress = Some \<lparr>highestAltitudeM = 40, lowestAltitudeM = 40, closestLaunchDistanceM = None, expectedModeIndex = 0\<rparr>,
      startRemainingM = None, bestRemainingM = None, settleSinceMs = None, expectedModes = [''GUIDED'', ''LAND'']\<rparr>"
  by (simp add: new_execution_def demo_snapshot demo_land_def launchDistanceM_def remaining_def expectedModesFor_def
      demo_airborne_def emptySnapshot_def demo_position_def)

abbreviation demo_state :: control_state where
  "demo_state \<equiv> \<lparr>control_snapshot = demo_airborne 1000, control_nowMs = 1000\<rparr>"

lemma demo_fields: "command demo_land = ''flight.land''" "task_status demo_land = PendingTask" "task_input demo_land = []"
  "control demo_context n = Inr demo_state" "taskTimeoutSeconds (config demo_context) = 600"
  "progressTimeoutSeconds (config demo_context) = 30" "taskId demo_land = js_lit ''T''"
  by (simp_all add: demo_land_def demo_context_def demo_config_def)

lemma demo_adopt:
  assumes "preconditions demo_context demo_land s 1000 = []" "active e = None" "finished e = []"
  obtains m where "adoptNext demo_context [demo_land] s 1000 e =
    (Inr (Some demo_state),
     e\<lparr>active := Some (new_execution demo_land demo_state),
       trace := trace e @ [(ReportStart (js_lit ''T''), True), (ReadControl, True), (Send m, True)]\<rparr>)"
  using assms demo_preconditions
  by (simp add: adoptNext_def adopt_started_def getControlState_def perform_reliable[OF demo_reliable] demo_fields
      isFlightCommand_def is_open_def dispatch_def)

lemma demo_advance:
  assumes "active e = Some (new_execution demo_land demo_state)"
  shows "advance demo_context (demo_airborne 1000) 1000 e = (Inr (), e\<lparr>active := Some (new_execution demo_land demo_state)\<rparr>)"
  using assms
  by (simp add: advance_def demo_fields demo_execution note_progress_def demo_fresh remaining_def best_improved_def
      recoveryProgressed_def demo_snapshot launchDistanceM_def demo_position_def isComplete_def)

lemma demo_active:
  "\<exists>a. active demo_engine = Some a \<and> task a = demo_land \<and> startedAtMs a = 1000"
  "starts (trace demo_engine) = [js_lit ''T'']"
proof -
  have r: "reconcileAuthoritative [demo_land] new_engine = new_engine"
    by (simp add: reconcileAuthoritative_def new_engine_def demo_fields is_terminal_def)
  have f: "flushTerminalReport demo_context new_engine = (Inr (), new_engine)"
    by (simp add: flushTerminalReport_def new_engine_def)
  have o: "observeMode demo_context (demo_airborne 1000) new_engine = (Inr (), new_engine\<lparr>lastMode := Some ''GUIDED''\<rparr>)"
    by (simp add: observeMode_def demo_snapshot new_engine_def)
  let ?e = "new_engine\<lparr>lastMode := Some ''GUIDED''\<rparr>"
  have e: "active ?e = None" "finished ?e = []" "\<not> reholdOnGuided ?e" "\<not> holdRequiredBeforeMovement ?e" "starts (trace ?e) = []"
    by (simp_all add: new_engine_def)
  obtain m where ad: "adoptNext demo_context [demo_land] (demo_airborne 1000) 1000 ?e =
    (Inr (Some demo_state), ?e\<lparr>active := Some (new_execution demo_land demo_state),
       trace := trace ?e @ [(ReportStart (js_lit ''T''), True), (ReadControl, True), (Send m, True)]\<rparr>)"
    using demo_adopt[OF demo_preconditions e(1,2)] .
  define f where "f = ?e\<lparr>active := Some (new_execution demo_land demo_state),
       trace := trace ?e @ [(ReportStart (js_lit ''T''), True), (ReadControl, True), (Send m, True)]\<rparr>"
  have av: "advance demo_context (demo_airborne 1000) 1000 f = (Inr (), f)"
    using demo_advance[of f] by (simp add: f_def)
  have f: "demo_engine = f"
    unfolding demo_engine_def demo_run_def using r f o ad[folded f_def] av e
    by (simp add: ingest_def ingest_ready_def ingest_movement_def rejectGotoDuringTakeoff_def)
  show "\<exists>a. active demo_engine = Some a \<and> task a = demo_land \<and> startedAtMs a = 1000"
    unfolding f by (simp add: f_def demo_execution)
  show "starts (trace demo_engine) = [js_lit ''T'']"
    unfolding f by (simp add: f_def new_engine_def starts_def)
qed

theorem no_task_forgotten_witness:
  "activeTaskId demo_engine = Some (js_lit ''T'') \<or>
   map_option report_task (pendingTerminalReport demo_engine) = Some (js_lit ''T'') \<or>
    (\<exists>code message. (ReportComplete (js_lit ''T''), True) \<in> set (trace demo_engine) \<or>
       (ReportFail (js_lit ''T'') code message, True) \<in> set (trace demo_engine)) \<or>
    js_lit ''T'' \<in> released_in demo_context new_engine demo_run"
proof (rule no_task_forgotten)
  show "demo_engine = foldl (engine_step demo_context) new_engine demo_run" by (simp only: demo_engine_def)
  show "list_all controller_call demo_run" by (simp add: demo_run_def)
  show "\<forall>n. \<exists>cs. control demo_context n = Inr cs" by (simp add: demo_fields)
  show "js_lit ''T'' \<in> set (starts (trace demo_engine))" by (simp add: demo_active(2))
qed


theorem task_started_once_witness:
  "distinct (starts (trace demo_engine)) \<and> starts (trace demo_engine) = [js_lit ''T''] \<and>
     (js_lit ''T'' \<in> set (finished demo_engine) \<or> activeTaskId demo_engine = Some (js_lit ''T''))"
  using task_started_once[of demo_context demo_run] demo_active(2) by (simp add: Let_def demo_engine_def[symmetric])

end
