(* ===== verification/Asset_Controller.thy ===== *)
theory Asset_Controller
  imports Task_Engine
begin

text \<open>
  The Asset host process, \<^verbatim>\<open>edge/asset/src/controller.ts\<close>: the MAVLink messages it handles, its loops, the recovery
  after the loss of Core and the graceful shutdown, composed with the vehicle tracker and the flight task engine, and the
  request bodies of \<^verbatim>\<open>core-client.ts\<close>. \<open>controller\<close> has the fields of \<^verbatim>\<open>AssetController\<close>, its tracker and engine, and the
  list of what it did to the outside with the outcome of each call. Everything that may happen while the process awaits is a parameter
  of \<open>controller_context\<close>: the answer of the \<open>n\<close>-th call, the MAVLink messages and the stop signals that arrive during it,
  the clock and the state of the link. Loops take a number of rounds; they return \<open>False\<close> when it is used up before the loop
  ends. The control states that the engine reads during an \<^verbatim>\<open>ingest\<close> are those of its own context, so they are arbitrary.
\<close>

declare map_of_eq_Some_iff [simp del]

section \<open>Definitions\<close>

subsection \<open>Data\<close>

datatype mav_received =
    HeartbeatMessage int int int int
  | GlobalPositionMessage int int int int int int int int
  | SysStatusMessage int
  | ParamValueMessage string real
  | CommandAckMessage int int
  | OtherMessage

record received_message =
  sysid :: int
  compid :: int
  received :: mav_received

record task_resource =
  resource_task_id :: jstring
  resource_command :: string
  resource_status :: task_status
  resource_input :: "(string, input_value) js_map option"
  resource_cancellation :: "string option"

record flight_position =
  pos_latitude :: real
  pos_longitude :: real
  pos_altitudeMslM :: real
  pos_speedMS :: real
  pos_headingDeg :: "real option"

record flight_telemetry =
  flight_position :: "flight_position option"
  flight_armed :: "bool option"
  flightMode :: "string option"
  flight_launchElevationM :: "real option"
  flight_battery :: "real option"

datatype link_state = LinkOpen | LinkClosed | LinkFailed js_error

datatype controller_action =
    OpenLink
  | LinkSend mav_message
  | LinkHeartbeat
  | LinkClose
  | CoreBegin
  | CoreReady
  | CoreReportFail jstring
  | Checkin flight_telemetry

datatype controller_event =
    Called controller_action bool
  | Fetched "task_resource list option"
  | GotTask jstring "task_resource option"
  | IngestedTasks
  | Slept real

datatype arrival = Received received_message real | StopSignal

record controller_context =
  engine_env :: engine_context
  call_result :: "nat \<Rightarrow> js_error option"
  fetch_result :: "nat \<Rightarrow> task_resource list result"
  task_result :: "nat \<Rightarrow> task_resource result"
  arrivals :: "nat \<Rightarrow> arrival list"
  clock :: "nat \<Rightarrow> real"
  link_status :: "nat \<Rightarrow> link_state"

record controller =
  tracker :: vehicle_tracker
  flight :: engine
  link_present :: bool
  listening :: bool
  running :: bool
  coreDownSince :: "real option"
  coreLossRecovery :: bool
  coreLossRecoveryConfirmed :: bool
  coreLossRecoveryRelinquished :: bool
  lastCoreLossRecoveryAttemptMs :: "real option"
  initiallyLandedAndDisarmed :: bool
  ready :: bool
  gcsFailsafeChecked :: bool
  lastTasks :: "authoritative_task list"
  recoveryTaskToFail :: "jstring option"
  telemetryStale :: bool
  shutdownPromise :: "bool result option"
  clockReads :: nat
  events :: "controller_event list"

definition new_controller :: controller where
  "new_controller = \<lparr>tracker = new_tracker, flight = new_engine, link_present = False, listening = False, running = False,
     coreDownSince = None, coreLossRecovery = False, coreLossRecoveryConfirmed = False, coreLossRecoveryRelinquished = False,
     lastCoreLossRecoveryAttemptMs = None, initiallyLandedAndDisarmed = False, ready = False, gcsFailsafeChecked = False,
     lastTasks = [], recoveryTaskToFail = None, telemetryStale = False, shutdownPromise = None, clockReads = 0, events = []\<rparr>"

subsection \<open>Decisions\<close>

definition flightGateOpen :: "bool \<Rightarrow> bool \<Rightarrow> real option \<Rightarrow> bool" where
  "flightGateOpen landed_before is_armed relative =
     (if landed_before then True
      else if is_armed then False
      else (case relative of None \<Rightarrow> False | Some r \<Rightarrow> \<bar>r\<bar> \<le> 1 / 2))"

definition shouldRequestCoreLossRecovery ::
    "real \<Rightarrow> real \<Rightarrow> bool \<Rightarrow> string option \<Rightarrow> bool \<Rightarrow> bool \<Rightarrow> bool" where
  "shouldRequestCoreLossRecovery downMs graceMs is_guided activeCmd recoveryRunning telemetryFresh =
     (if recoveryRunning then False
      else if activeCmd = Some ''flight.land'' \<or> activeCmd = Some ''flight.return_to_launch'' then False
      else if \<not> is_guided \<or> \<not> telemetryFresh then False
      else downMs \<ge> graceMs)"

definition isConfiguredVehicleMessage :: "asset_config \<Rightarrow> received_message \<Rightarrow> bool" where
  "isConfiguredVehicleMessage cfg m \<longleftrightarrow> sysid m = vehicleSystemId cfg \<and> compid m = vehicleComponentId cfg"

definition flightTelemetryForCheckin :: "vehicle_snapshot \<Rightarrow> real \<Rightarrow> flight_telemetry option" where
  "flightTelemetryForCheckin s nowMs =
     (if \<not> hasFreshControlTelemetry s nowMs then None
      else Some
        \<lparr>flight_position = map_option (\<lambda>obs. \<lparr>pos_latitude = latitudeDeg obs, pos_longitude = longitudeDeg obs,
            pos_altitudeMslM = altitudeMslM obs, pos_speedMS = groundSpeedMS obs, pos_headingDeg = headingDeg obs\<rparr>) (observation s),
         flight_armed = Some (armed s),
         flightMode = (if customMode s \<noteq> None then Some (mode s) else None),
         flight_launchElevationM = (if launchElevationVerified s then launchElevationM s else None),
         flight_battery = batteryRemainingPercent s\<rparr>)"

definition toAuthoritative :: "task_resource list \<Rightarrow> authoritative_task list" where
  "toAuthoritative tasks =
     map (\<lambda>t. \<lparr>taskId = resource_task_id t, command = resource_command t, task_status = resource_status t,
        cancellationCode = resource_cancellation t,
        task_input = (case resource_input t of None \<Rightarrow> [] | Some inp \<Rightarrow> inp)\<rparr>) tasks"

subsection \<open>Messages from the aircraft\<close>

definition FS_GCS_PARAM :: string where "FS_GCS_PARAM = ''FS_GCS_ENABLE''"
definition PARAM_VERIFY_TIMEOUT_MS :: real where "PARAM_VERIFY_TIMEOUT_MS = 10000"
definition CORE_LOSS_RTL_RETRY_MS :: real where "CORE_LOSS_RTL_RETRY_MS = 1000"

text \<open>The remainder \<^verbatim>\<open>%\<close> of JavaScript: the quotient is truncated towards zero.\<close>

definition js_rem :: "real \<Rightarrow> real \<Rightarrow> real" where
  "js_rem x y = x - y * (if x / y \<ge> 0 then of_int \<lfloor>x / y\<rfloor> else of_int \<lceil>x / y\<rceil>)"

fun handle_received :: "engine_context \<Rightarrow> received_message \<Rightarrow> mav_received \<Rightarrow> real \<Rightarrow> controller \<Rightarrow> controller" where
  "handle_received ex m (HeartbeatMessage vtype pilot base custom) now c =
     c\<lparr>tracker := observeHeartbeat (dialect ex)
         \<lparr>hb_systemId = sysid m, hb_componentId = compid m, hb_vehicleType = vtype, hb_autopilot = pilot,
          hb_baseMode = base, hb_customMode = custom, receivedAtMs = now\<rparr> (tracker c)\<rparr>"
| "handle_received ex m (GlobalPositionMessage lat lon alt rel vx vy vz hdg) now c =
     c\<lparr>tracker := observePosition
         \<lparr>latitudeDeg = of_int lat / 10000000, longitudeDeg = of_int lon / 10000000, altitudeMslM = of_int alt / 1000,
          relativeAltitudeM = of_int rel / 1000,
          groundSpeedMS = sqrt ((of_int vx / 100)\<^sup>2 + (of_int vy / 100)\<^sup>2 + (of_int vz / 100)\<^sup>2),
          headingDeg = (if hdg = 65535 then None else Some (js_rem (of_int hdg / 100) 360)),
          observed_battery = None, observedAtMs = now\<rparr> (tracker c)\<rparr>"
| "handle_received ex m (SysStatusMessage battery) now c =
     c\<lparr>tracker := observeSysStatus (if battery = -1 then None else Some (of_int battery)) (tracker c)\<rparr>"
| "handle_received ex m (ParamValueMessage name v) now c =
     (if name = FS_GCS_PARAM
      then c\<lparr>tracker := observeGcsFailsafe (v \<noteq> 0) (tracker c), gcsFailsafeChecked := True\<rparr> else c)"
| "handle_received ex m (CommandAckMessage cmd res) now c =
     (if coreLossRecovery c \<and> cmd = cmd_nav_return_to_launch (dialect ex) \<and> commandAckAccepted (dialect ex) res
      then c\<lparr>coreLossRecoveryConfirmed := True\<rparr> else c)"
| "handle_received ex m OtherMessage now c = c"

definition handleMessage :: "engine_context \<Rightarrow> received_message \<Rightarrow> real \<Rightarrow> controller \<Rightarrow> controller" where
  "handleMessage ex m now c =
     (if \<not> isConfiguredVehicleMessage (config ex) m then c else handle_received ex m (received m) now c)"

text \<open>What arrives during an await; messages reach the controller once it listens to the link.\<close>

fun arrive :: "engine_context \<Rightarrow> controller \<Rightarrow> arrival \<Rightarrow> controller" where
  "arrive ex c (Received m now) = (if listening c then handleMessage ex m now c else c)"
| "arrive ex c StopSignal = c\<lparr>running := False\<rparr>"

definition log_event :: "controller_context \<Rightarrow> controller_event \<Rightarrow> controller \<Rightarrow> controller" where
  "log_event cx ev c =
     foldl (arrive (engine_env cx)) (c\<lparr>events := events c @ [ev]\<rparr>) (arrivals cx (length (events c)))"

definition call_out :: "controller_context \<Rightarrow> controller_action \<Rightarrow> controller \<Rightarrow> (controller, unit) effect" where
  "call_out cx a c =
     (case call_result cx (length (events c)) of
        None \<Rightarrow> (Inr (), log_event cx (Called a True) c)
      | Some err \<Rightarrow> (Inl err, log_event cx (Called a False) c))"

definition fetchTasks :: "controller_context \<Rightarrow> controller \<Rightarrow> (controller, task_resource list) effect" where
  "fetchTasks cx c =
     (case fetch_result cx (length (events c)) of
        Inr ts \<Rightarrow> (Inr ts, log_event cx (Fetched (Some ts)) c)
      | Inl err \<Rightarrow> (Inl err, log_event cx (Fetched None) c))"

definition getTask :: "controller_context \<Rightarrow> jstring \<Rightarrow> controller \<Rightarrow> (controller, task_resource) effect" where
  "getTask cx i c =
     (case task_result cx (length (events c)) of
        Inr t \<Rightarrow> (Inr t, log_event cx (GotTask i (Some t)) c)
      | Inl err \<Rightarrow> (Inl err, log_event cx (GotTask i None) c))"

definition pause :: "controller_context \<Rightarrow> real \<Rightarrow> controller \<Rightarrow> controller" where
  "pause cx ms c = log_event cx (Slept ms) c"

definition read_clock :: "controller_context \<Rightarrow> controller \<Rightarrow> real \<times> controller" where
  "read_clock cx c = (clock cx (clockReads c), c\<lparr>clockReads := clockReads c + 1\<rparr>)"

definition current_snapshot :: "controller \<Rightarrow> vehicle_snapshot" where
  "current_snapshot c = tracked (tracker c)"

definition isCoreDown :: "controller \<Rightarrow> bool" where
  "isCoreDown c \<longleftrightarrow> coreDownSince c \<noteq> None"

definition assertLinkHealthy :: "controller_context \<Rightarrow> controller \<Rightarrow> (controller, unit) effect" where
  "assertLinkHealthy cx c =
     (if \<not> link_present c then (Inr (), c)
      else case link_status cx (length (events c)) of
          LinkFailed err \<Rightarrow> (Inl err, c)
        | LinkClosed \<Rightarrow> (Inl (PlainError ''MAVLink link closed while the Asset host was running.''), c)
        | LinkOpen \<Rightarrow> (Inr (), c))"

subsection \<open>Core loss and recovery\<close>

definition reportTelemetry :: "controller_context \<Rightarrow> vehicle_snapshot \<Rightarrow> controller \<Rightarrow> controller" where
  "reportTelemetry cx s c =
     (let (now, c1) = read_clock cx c
      in case flightTelemetryForCheckin s now of
           None \<Rightarrow> c1\<lparr>telemetryStale := True\<rparr>
         | Some telemetry \<Rightarrow>
             (case call_out cx (Checkin telemetry) (c1\<lparr>telemetryStale := False\<rparr>) of
                (Inr _, c2) \<Rightarrow> c2
              | (Inl _, c2) \<Rightarrow>
                  if coreDownSince c2 = None
                  then (let (later, c3) = read_clock cx c2 in c3\<lparr>coreDownSince := Some later\<rparr>) else c2))"

definition reconcileAfterReconnect :: "controller_context \<Rightarrow> task_resource list \<Rightarrow> controller \<Rightarrow> (controller, unit) effect" where
  "reconcileAfterReconnect cx tasks c =
     (if \<not> coreLossRecovery c then (Inr (), c)
      else
        let (abandoned, e) = abandonActiveForRecovery (coreLossRecoveryRelinquished c) (flight c);
            c1 = c\<lparr>flight := e,
                   recoveryTaskToFail := (case recoveryTaskToFail c of None \<Rightarrow> abandoned | Some i \<Rightarrow> Some i)\<rparr>
        in then_do
             (case recoveryTaskToFail c1 of
                None \<Rightarrow> (Inr (), c1)
              | Some i \<Rightarrow>
                  then_do
                    (case find (\<lambda>t. resource_task_id t = i) tasks of
                       Some t \<Rightarrow> if is_terminal (resource_status t) then (Inr (), c1) else call_out cx (CoreReportFail i) c1
                     | None \<Rightarrow> call_out cx (CoreReportFail i) c1)
                    (\<lambda>_ c2. (Inr (), c2\<lparr>recoveryTaskToFail := None\<rparr>)))
             (\<lambda>_ c3.
               if \<not> coreLossRecoveryConfirmed c3 \<and> \<not> coreLossRecoveryRelinquished c3 then (Inr (), c3)
               else (Inr (), c3\<lparr>coreLossRecovery := False, coreLossRecoveryConfirmed := False,
                       coreLossRecoveryRelinquished := False, lastCoreLossRecoveryAttemptMs := None\<rparr>)))"

text \<open>The task that must be looked up by its id when the delivery does not list it.\<close>

definition task_to_refresh :: "controller \<Rightarrow> jstring option" where
  "task_to_refresh c =
     (case reconciliationTaskId (flight c) of Some i \<Rightarrow> Some i | None \<Rightarrow> recoveryTaskToFail c)"

definition poll_body :: "controller_context \<Rightarrow> controller \<Rightarrow> (controller, unit) effect" where
  "poll_body cx c =
     then_do (fetchTasks cx c) (\<lambda>tasks c.
       then_do
         (case task_to_refresh c of
            None \<Rightarrow> (Inr tasks, c)
          | Some i \<Rightarrow>
              if list_ex (\<lambda>t. resource_task_id t = i) tasks then (Inr tasks, c)
              else then_do (getTask cx i c) (\<lambda>t c. (Inr (tasks @ [t]), c)))
         (\<lambda>tasks c.
           then_do
             (if coreDownSince c \<noteq> None \<or> coreLossRecovery c then reconcileAfterReconnect cx tasks c else (Inr (), c))
             (\<lambda>_ c. (Inr (), c\<lparr>lastTasks := toAuthoritative tasks, coreDownSince := None\<rparr>))))"

definition pollCore :: "controller_context \<Rightarrow> real \<Rightarrow> controller \<Rightarrow> controller" where
  "pollCore cx now c =
     (case poll_body cx c of
        (Inr _, c1) \<Rightarrow> c1
      | (Inl _, c1) \<Rightarrow> if coreDownSince c1 = None then c1\<lparr>coreDownSince := Some now\<rparr> else c1)"

definition watch_mode :: "vehicle_snapshot \<Rightarrow> real \<Rightarrow> controller \<Rightarrow> controller" where
  "watch_mode s now c =
     (if coreLossRecovery c \<and> hasFreshControlTelemetry s now \<and> customMode s \<noteq> None \<and> \<not> guided s \<and>
         take 7 (mode s) \<noteq> ''UNKNOWN''
      then if mode s = ''RTL'' \<or> mode s = ''LAND'' then c\<lparr>coreLossRecoveryConfirmed := True\<rparr>
           else c\<lparr>coreLossRecoveryRelinquished := True\<rparr>
      else c)"

definition recovery_due :: "controller_context \<Rightarrow> vehicle_snapshot \<Rightarrow> real \<Rightarrow> controller \<Rightarrow> bool" where
  "recovery_due cx s now c =
     (let graceMs = coreLossGraceSeconds (config (engine_env cx)) * 1000;
          downMs = (if coreLossRecovery c then graceMs
                    else now - (case coreDownSince c of None \<Rightarrow> now | Some t \<Rightarrow> t))
      in shouldRequestCoreLossRecovery downMs graceMs (guided s) (activeCommand (flight c))
           (coreLossRecoveryConfirmed c \<or> coreLossRecoveryRelinquished c) (hasFreshControlTelemetry s now))"

definition return_message :: "controller_context \<Rightarrow> mav_message" where
  "return_message cx = returnToLaunchCommand (dialect (engine_env cx)) (vehicleSystemId (config (engine_env cx)))
     (vehicleComponentId (config (engine_env cx)))"

definition watchCoreLossRecovery :: "controller_context \<Rightarrow> vehicle_snapshot \<Rightarrow> real \<Rightarrow> controller \<Rightarrow> controller" where
  "watchCoreLossRecovery cx s now c =
     (let c1 = watch_mode s now c
      in if \<not> recovery_due cx s now c1 \<or> \<not> link_present c1 then c1
         else if (case lastCoreLossRecoveryAttemptMs c1 of None \<Rightarrow> False | Some t \<Rightarrow> now - t < CORE_LOSS_RTL_RETRY_MS) then c1
         else snd (call_out cx (LinkSend (return_message cx))
                (c1\<lparr>lastCoreLossRecoveryAttemptMs := Some now, coreLossRecovery := True\<rparr>)))"

subsection \<open>Loops\<close>

definition sendGcsHeartbeat :: "controller_context \<Rightarrow> controller \<Rightarrow> controller" where
  "sendGcsHeartbeat cx c = (if \<not> link_present c then c else snd (call_out cx LinkHeartbeat c))"

definition ingest_tasks :: "controller_context \<Rightarrow> vehicle_snapshot \<Rightarrow> real \<Rightarrow> controller \<Rightarrow> controller" where
  "ingest_tasks cx s now c =
     (case ingest (engine_env cx) (lastTasks c) s now (flight c) of
        (Inr _, e) \<Rightarrow> log_event cx IngestedTasks (c\<lparr>flight := e\<rparr>)
      | (Inl _, e) \<Rightarrow>
          let c1 = log_event cx IngestedTasks (c\<lparr>flight := e\<rparr>)
          in if coreDownSince c1 = None then c1\<lparr>coreDownSince := Some now\<rparr> else c1)"

definition control_step :: "controller_context \<Rightarrow> controller \<Rightarrow> controller" where
  "control_step cx c =
     (let (now, c1) = read_clock cx c; s = current_snapshot c1
      in if coreLossRecovery c1 then watchCoreLossRecovery cx s now c1
         else if \<not> isCoreDown c1 then ingest_tasks cx s now c1
         else watchCoreLossRecovery cx s now c1)"

record run_times =
  lastTelemetry :: real
  lastHeartbeat :: real
  lastPoll :: real

definition run_once :: "controller_context \<Rightarrow> run_times \<Rightarrow> controller \<Rightarrow> (controller, run_times) effect" where
  "run_once cx w c =
     then_do (assertLinkHealthy cx c) (\<lambda>_ c.
       let (now, c0) = read_clock cx c;
           (w1, c1) = (if now - lastHeartbeat w \<ge> 1000 then (w\<lparr>lastHeartbeat := now\<rparr>, sendGcsHeartbeat cx c0) else (w, c0));
           (w2, c2) = (if now - lastPoll w1 \<ge> 1000 then (w1\<lparr>lastPoll := now\<rparr>, pollCore cx now c1) else (w1, c1));
           (w3, c3) = (if now - lastTelemetry w2 \<ge> telemetryIntervalSeconds (config (engine_env cx)) * 1000
                       then (w2\<lparr>lastTelemetry := now\<rparr>, reportTelemetry cx (current_snapshot c2) c2) else (w2, c2))
       in (Inr w3, pause cx 100 (control_step cx c3)))"

fun run_rounds :: "controller_context \<Rightarrow> nat \<Rightarrow> run_times \<Rightarrow> controller \<Rightarrow> (controller, bool) effect" where
  "run_rounds cx 0 w c = (Inr False, c)"
| "run_rounds cx (Suc n) w c =
     (if \<not> running c then (Inr True, c) else then_do (run_once cx w c) (\<lambda>w c. run_rounds cx n w c))"

definition run :: "controller_context \<Rightarrow> nat \<Rightarrow> controller \<Rightarrow> (controller, bool) effect" where
  "run cx n c = run_rounds cx n \<lparr>lastTelemetry = 0, lastHeartbeat = 0, lastPoll = 0\<rparr> c"

fun verify_rounds :: "controller_context \<Rightarrow> nat \<Rightarrow> real \<Rightarrow> controller \<Rightarrow> (controller, bool) effect" where
  "verify_rounds cx 0 deadline c = (Inr False, c)"
| "verify_rounds cx (Suc n) deadline c =
     (if gcsFailsafeChecked c then (Inr True, c)
      else let (now, c1) = read_clock cx c
           in if \<not> (now < deadline) \<or> \<not> running c1 then (Inr True, c1)
              else then_do (assertLinkHealthy cx c1) (\<lambda>_ c. verify_rounds cx n deadline (pause cx 100 c)))"

definition verifyGcsFailsafe :: "controller_context \<Rightarrow> nat \<Rightarrow> controller \<Rightarrow> (controller, bool) effect" where
  "verifyGcsFailsafe cx n c =
     (if \<not> link_present c then (Inr True, c)
      else then_do (call_out cx (LinkSend (paramReadCommand (vehicleSystemId (config (engine_env cx)))
               (vehicleComponentId (config (engine_env cx))) FS_GCS_PARAM)) c) (\<lambda>_ c.
             let (now, c1) = read_clock cx c
             in verify_rounds cx n (now + PARAM_VERIFY_TIMEOUT_MS) c1))"

text \<open>One round of \<^verbatim>\<open>waitForInitialState\<close>: whether the vehicle is ready, and the state with the landing noted.\<close>

definition note_landed :: "vehicle_snapshot \<Rightarrow> real \<Rightarrow> controller \<Rightarrow> controller" where
  "note_landed s now c =
     (if \<not> initiallyLandedAndDisarmed c \<and> hasFreshControlTelemetry s now \<and> \<not> armed s \<and>
         (case observation s of None \<Rightarrow> False | Some obs \<Rightarrow> \<bar>relativeAltitudeM obs\<bar> \<le> 1 / 2)
      then c\<lparr>initiallyLandedAndDisarmed := True\<rparr> else c)"

definition may_become_ready :: "controller_context \<Rightarrow> vehicle_snapshot \<Rightarrow> real \<Rightarrow> controller \<Rightarrow> bool" where
  "may_become_ready cx s now c \<longleftrightarrow>
     fst (checkFlightReadiness (dialect (engine_env cx)) s (config (engine_env cx)) now) \<and>
     flightGateOpen (initiallyLandedAndDisarmed c) (armed s) (map_option relativeAltitudeM (observation s)) \<and>
     gcsFailsafeChecked c"

fun waitForInitialState :: "controller_context \<Rightarrow> nat \<Rightarrow> controller \<Rightarrow> (controller, bool) effect" where
  "waitForInitialState cx 0 c = (Inr False, c)"
| "waitForInitialState cx (Suc n) c =
     (if \<not> running c then (Inr True, c)
      else then_do (assertLinkHealthy cx c) (\<lambda>_ c.
        let s = current_snapshot c;
            (t1, c1) = read_clock cx c;
            c2 = note_landed s t1 c1;
            (t2, c3) = read_clock cx c2
        in if may_become_ready cx s t2 c3
           then then_do (call_out cx CoreReady c3) (\<lambda>_ c. (Inr True, c\<lparr>ready := True\<rparr>))
           else waitForInitialState cx n (pause cx 1000 (reportTelemetry cx s c3))))"

definition while_running :: "controller \<Rightarrow> (controller \<Rightarrow> (controller, bool) effect) \<Rightarrow> (controller, bool) effect" where
  "while_running c f = (if running c then f c else (Inr True, c))"

definition start :: "controller_context \<Rightarrow> nat \<Rightarrow> controller \<Rightarrow> (controller, bool) effect" where
  "start cx n c =
     then_do (call_out cx OpenLink (c\<lparr>running := True\<rparr>)) (\<lambda>_ c.
       let c = c\<lparr>link_present := True\<rparr>
       in if \<not> running c then then_do (call_out cx LinkClose c) (\<lambda>_ c. (Inr True, c))
          else then_do (call_out cx CoreBegin (c\<lparr>listening := True\<rparr>)) (\<lambda>_ c.
            while_running c (\<lambda>c. then_do (verifyGcsFailsafe cx n c) (\<lambda>ended c.
              if \<not> ended then (Inr False, c)
              else while_running c (\<lambda>c. then_do (waitForInitialState cx n c) (\<lambda>ended c.
                if \<not> ended then (Inr False, c) else while_running c (run cx n)))))))"

subsection \<open>Shutdown\<close>

fun await_return :: "controller_context \<Rightarrow> nat \<Rightarrow> real \<Rightarrow> controller \<Rightarrow> bool \<times> controller" where
  "await_return cx 0 deadline c = (False, c)"
| "await_return cx (Suc n) deadline c =
     (let (now, c1) = read_clock cx c
      in if \<not> (now < deadline) then (True, c1)
         else if mode (current_snapshot c1) = ''RTL'' then (True, c1)
         else await_return cx n deadline (pause cx 250 c1))"

definition airborne :: "vehicle_snapshot \<Rightarrow> bool" where
  "airborne s \<longleftrightarrow> armed s \<or> \<bar>case observation s of None \<Rightarrow> 0 | Some obs \<Rightarrow> relativeAltitudeM obs\<bar> > 1 / 2"

definition request_return :: "controller_context \<Rightarrow> nat \<Rightarrow> controller \<Rightarrow> (controller, bool) effect" where
  "request_return cx n c =
     (let s = current_snapshot c; cmd = activeCommand (flight c); (now, c1) = read_clock cx c
      in if airborne s \<and> guided s \<and> cmd \<noteq> Some ''flight.land'' \<and> cmd \<noteq> Some ''flight.return_to_launch'' \<and>
            hasFreshControlTelemetry s now \<and> link_present c1 \<and> link_status cx (length (events c1)) = LinkOpen
         then then_do (call_out cx (LinkSend (return_message cx)) c1) (\<lambda>_ c.
                let (t, c) = read_clock cx c;
                    (ended, c) = await_return cx n (t + shutdownConfirmSeconds (config (engine_env cx)) * 1000) c
                in (Inr ended, c))
         else (Inr True, c1))"

text \<open>\<^verbatim>\<open>performShutdown\<close>: the failure of the request is thrown before that of the close. The result \<open>False\<close> means that the
  rounds of the confirmation loop are used up.\<close>

definition performShutdown :: "controller_context \<Rightarrow> nat \<Rightarrow> controller \<Rightarrow> (controller, bool) effect" where
  "performShutdown cx n c =
     (case request_return cx n (c\<lparr>running := False\<rparr>) of
        (Inr False, c) \<Rightarrow> (Inr False, c)
      | (r, c) \<Rightarrow>
          (case (if link_present c then call_out cx LinkClose c else (Inr (), c)) of
             (Inr _, c) \<Rightarrow> (r, c)
           | (Inl err, c) \<Rightarrow> ((case r of Inl failure \<Rightarrow> Inl failure | Inr _ \<Rightarrow> Inl err), c)))"

text \<open>\<^verbatim>\<open>shutdown\<close>: a later call gets the promise of the first one.\<close>

definition shutdown :: "controller_context \<Rightarrow> nat \<Rightarrow> controller \<Rightarrow> (controller, bool) effect" where
  "shutdown cx n c =
     (case shutdownPromise c of
        Some r \<Rightarrow> (r, c)
      | None \<Rightarrow> (case performShutdown cx n c of (r, c1) \<Rightarrow> (r, c1\<lparr>shutdownPromise := Some r\<rparr>)))"

section \<open>What arrives during an await\<close>

text \<open>A message or a signal changes only the tracker and three flags.\<close>

lemma received_frame:
  "flight (handle_received ex m r now c) = flight c" "recoveryTaskToFail (handle_received ex m r now c) = recoveryTaskToFail c"
  "coreLossRecovery (handle_received ex m r now c) = coreLossRecovery c" "lastTasks (handle_received ex m r now c) = lastTasks c"
  "events (handle_received ex m r now c) = events c" "link_present (handle_received ex m r now c) = link_present c"
  "coreDownSince (handle_received ex m r now c) = coreDownSince c" "clockReads (handle_received ex m r now c) = clockReads c"
  by (cases r; simp)+

lemma arrive_frame:
  "flight (arrive ex c a) = flight c" "recoveryTaskToFail (arrive ex c a) = recoveryTaskToFail c"
  "coreLossRecovery (arrive ex c a) = coreLossRecovery c" "lastTasks (arrive ex c a) = lastTasks c"
  "events (arrive ex c a) = events c" "link_present (arrive ex c a) = link_present c"
  "coreDownSince (arrive ex c a) = coreDownSince c" "clockReads (arrive ex c a) = clockReads c"
  by (cases a; simp add: handleMessage_def received_frame)+

lemma arrivals_frame:
  "flight (foldl (arrive ex) c as) = flight c" "recoveryTaskToFail (foldl (arrive ex) c as) = recoveryTaskToFail c"
  "coreLossRecovery (foldl (arrive ex) c as) = coreLossRecovery c" "lastTasks (foldl (arrive ex) c as) = lastTasks c"
  "events (foldl (arrive ex) c as) = events c" "link_present (foldl (arrive ex) c as) = link_present c"
  "coreDownSince (foldl (arrive ex) c as) = coreDownSince c" "clockReads (foldl (arrive ex) c as) = clockReads c"
  by (induction as arbitrary: c) (simp_all add: arrive_frame)

lemma log_event_frame [simp]:
  "flight (log_event cx ev c) = flight c" "recoveryTaskToFail (log_event cx ev c) = recoveryTaskToFail c"
  "coreLossRecovery (log_event cx ev c) = coreLossRecovery c" "lastTasks (log_event cx ev c) = lastTasks c"
  "events (log_event cx ev c) = events c @ [ev]" "link_present (log_event cx ev c) = link_present c"
  "coreDownSince (log_event cx ev c) = coreDownSince c" "clockReads (log_event cx ev c) = clockReads c"
  by (simp_all add: log_event_def arrivals_frame)

section \<open>No started task is forgotten by the host\<close>

text \<open>A task that Core returned in a terminal state, or whose failure the controller reported to Core.\<close>

definition known_terminal :: "controller \<Rightarrow> jstring \<Rightarrow> bool" where
  "known_terminal c i \<longleftrightarrow> (\<exists>t. resource_task_id t = i \<and> is_terminal (resource_status t) \<and>
     ((\<exists>ts. Fetched (Some ts) \<in> set (events c) \<and> t \<in> set ts) \<or> (\<exists>j. GotTask j (Some t) \<in> set (events c))))"

definition handled :: "controller \<Rightarrow> jstring set" where
  "handled c = {i. known_terminal c i \<or> Called (CoreReportFail i) True \<in> set (events c) \<or> recoveryTaskToFail c = Some i}"

definition host_inv :: "controller \<Rightarrow> bool" where
  "host_inv c \<longleftrightarrow> accounted (handled c) (flight c) \<and>
     (recoveryTaskToFail c \<noteq> None \<longrightarrow> coreLossRecovery c \<and> active (flight c) = None) \<and>
     (\<forall>i \<in> released (lastTasks c). known_terminal c i)"

text \<open>Steps that leave the engine, the tasks and the recovery alone.\<close>

definition outside :: "controller \<Rightarrow> controller \<Rightarrow> bool" where
  "outside c c' \<longleftrightarrow> flight c' = flight c \<and> recoveryTaskToFail c' = recoveryTaskToFail c \<and>
     (coreLossRecovery c \<longrightarrow> coreLossRecovery c') \<and> lastTasks c' = lastTasks c \<and> set (events c) \<subseteq> set (events c')"

interpretation outside_order: effect_preorder outside
  by unfold_locales (auto simp: outside_def)

lemma outside_inv: "host_inv c \<Longrightarrow> outside c c' \<Longrightarrow> host_inv c'"
proof -
  assume c: "host_inv c" "outside c c'"
  then have k: "known_terminal c i \<Longrightarrow> known_terminal c' i" for i
    by (fastforce simp: known_terminal_def outside_def)
  then have "handled c \<subseteq> handled c'" using c(2) by (auto simp: handled_def outside_def)
  then show "host_inv c'" using c k accounted_mono by (auto simp: host_inv_def outside_def)
qed

lemma log_outside [simp]: "outside c (log_event cx ev c)"
  by (auto simp: outside_def)

lemma call_outside [simp]: "outside c (snd (call_out cx a c))"
  by (auto simp: call_out_def split: option.split)

lemma clock_outside [simp]: "outside c (snd (read_clock cx c))"
  by (simp add: read_clock_def outside_def)

lemma telemetry_outside: "outside c (reportTelemetry cx s c)"
proof -
  have "outside c (c\<lparr>clockReads := k\<rparr>)" "outside c (c\<lparr>coreDownSince := d, clockReads := k\<rparr>)"
    "outside c (c\<lparr>telemetryStale := b, clockReads := k\<rparr>)" for c k d b by (simp_all add: outside_def)
  note frames = this
  have "outside c (snd (call_out cx (Checkin x) (c\<lparr>clockReads := k, telemetryStale := b\<rparr>)))" for x k b
    by (rule outside_order.trans[OF _ call_outside]) (simp add: outside_def)
  then show ?thesis
    by (auto simp: reportTelemetry_def read_clock_def Let_def outside_def split: option.split sum.split prod.split)
      (metis snd_conv subsetD)+
qed

lemma watch_outside: "outside c (watchCoreLossRecovery cx s now c)"
proof -
  have m: "outside c (watch_mode s now c)" by (simp add: watch_mode_def outside_def)
  have "outside c1 (snd (call_out cx a (c1\<lparr>lastCoreLossRecoveryAttemptMs := l, coreLossRecovery := True\<rparr>)))" for c1 l a
    by (rule outside_order.trans[OF _ call_outside]) (simp add: outside_def)
  from outside_order.trans[OF m this] m show ?thesis
    by (auto simp: watchCoreLossRecovery_def Let_def)
qed

lemma known_mono: "known_terminal c i \<Longrightarrow> set (events c) \<subseteq> set (events c') \<Longrightarrow> known_terminal c' i"
  by (fastforce simp: known_terminal_def)

definition known_list :: "task_resource list \<Rightarrow> controller \<Rightarrow> bool" where
  "known_list tasks c \<longleftrightarrow> (\<forall>t \<in> set tasks. is_terminal (resource_status t) \<longrightarrow> known_terminal c (resource_task_id t))"

lemma abandon_fields:
  assumes "abandonActiveForRecovery b e = (i, e')"
  shows "active e' = None" "i = activeTaskId e" "accounted R e \<Longrightarrow> accounted (R \<union> set_option i) e'"
proof -
  show "active e' = None" "i = activeTaskId e"
    using assms by (auto simp: abandonActiveForRecovery_def Let_def finish_active_def activeTaskId_def split: option.splits)
  then show "accounted R e \<Longrightarrow> accounted (R \<union> set_option i) e'"
    using abandon_accounted[of R e b] assms by simp
qed

text \<open>After the failure was reported, the task needs no retry.\<close>

lemma drop_recovery_inv:
  assumes "host_inv c" "\<And>i. recoveryTaskToFail c = Some i \<Longrightarrow> known_terminal c i \<or> Called (CoreReportFail i) True \<in> set (events c)"
  shows "host_inv (c\<lparr>recoveryTaskToFail := None\<rparr>)"
proof -
  have "handled c \<subseteq> handled (c\<lparr>recoveryTaskToFail := None\<rparr>)"
    using assms(2) by (auto simp: handled_def known_terminal_def)
  then show ?thesis using assms(1) accounted_mono by (auto simp: host_inv_def known_terminal_def)
qed

lemma end_recovery_inv:
  assumes "host_inv c" "recoveryTaskToFail c = None"
  shows "host_inv (c\<lparr>coreLossRecovery := False, coreLossRecoveryConfirmed := False, coreLossRecoveryRelinquished := False,
    lastCoreLossRecoveryAttemptMs := None\<rparr>)"
  using assms by (simp add: host_inv_def handled_def known_terminal_def)

lemma abandon_host_inv:
  assumes "host_inv c" "coreLossRecovery c" "abandonActiveForRecovery b (flight c) = (i, e)"
  shows "host_inv (c\<lparr>flight := e, recoveryTaskToFail := (case recoveryTaskToFail c of None \<Rightarrow> i | Some j \<Rightarrow> Some j)\<rparr>)"
proof -
  let ?c = "c\<lparr>flight := e, recoveryTaskToFail := (case recoveryTaskToFail c of None \<Rightarrow> i | Some j \<Rightarrow> Some j)\<rparr>"
  note a = abandon_fields[OF assms(3)]
  have "handled c \<union> set_option i \<subseteq> handled ?c"
    using assms(1) a(2) by (auto simp: handled_def known_terminal_def host_inv_def activeTaskId_def split: option.splits)
  then have "accounted (handled ?c) e"
    using a(3)[of "handled c"] assms(1) accounted_mono by (auto simp: host_inv_def)
  then show ?thesis using assms(1,2) a(1) by (simp add: host_inv_def known_terminal_def)
qed

lemma reconnect_inv:
  assumes "host_inv c" "known_list tasks c"
  shows "host_inv (snd (reconcileAfterReconnect cx tasks c)) \<and>
    lastTasks (snd (reconcileAfterReconnect cx tasks c)) = lastTasks c \<and>
    set (events c) \<subseteq> set (events (snd (reconcileAfterReconnect cx tasks c)))"
proof (cases "coreLossRecovery c")
  case True
  obtain i e where a: "abandonActiveForRecovery (coreLossRecoveryRelinquished c) (flight c) = (i, e)"
    by (cases "abandonActiveForRecovery (coreLossRecoveryRelinquished c) (flight c)")
  define c1 where "c1 = c\<lparr>flight := e, recoveryTaskToFail := (case recoveryTaskToFail c of None \<Rightarrow> i | Some j \<Rightarrow> Some j)\<rparr>"
  have c1: "host_inv c1" "known_list tasks c1" "lastTasks c1 = lastTasks c" "events c1 = events c"
    using abandon_host_inv[OF assms(1) True a] assms(2) by (simp_all add: c1_def known_list_def known_terminal_def)
  define fin :: "unit \<Rightarrow> controller \<Rightarrow> (controller, unit) effect" where
    "fin = (\<lambda>_ c3. if \<not> coreLossRecoveryConfirmed c3 \<and> \<not> coreLossRecoveryRelinquished c3 then (Inr (), c3)
       else (Inr (), c3\<lparr>coreLossRecovery := False, coreLossRecoveryConfirmed := False,
                coreLossRecoveryRelinquished := False, lastCoreLossRecoveryAttemptMs := None\<rparr>))"
  have shape: "reconcileAfterReconnect cx tasks c = then_do
     (case recoveryTaskToFail c1 of
        None \<Rightarrow> (Inr (), c1)
      | Some i \<Rightarrow>
          then_do
            (case find (\<lambda>t. resource_task_id t = i) tasks of
               Some t \<Rightarrow> if is_terminal (resource_status t) then (Inr (), c1) else call_out cx (CoreReportFail i) c1
             | None \<Rightarrow> call_out cx (CoreReportFail i) c1)
            (\<lambda>_ c2. (Inr (), c2\<lparr>recoveryTaskToFail := None\<rparr>))) fin"
    by (simp only: reconcileAfterReconnect_def True a Let_def c1_def fin_def prod.case if_False not_True_eq_False)
  have fin: "host_inv (snd (fin u c3)) \<and> lastTasks (snd (fin u c3)) = lastTasks c3 \<and> events (snd (fin u c3)) = events c3"
    if "host_inv c3" "recoveryTaskToFail c3 = None" for u c3
    using that end_recovery_inv[OF that] by (simp add: fin_def)
  show ?thesis
  proof (cases "recoveryTaskToFail c1")
    case None
    then show ?thesis
      using fin[OF c1(1) None] c1 by (simp add: shape)
  next
    case (Some j)
    define m where "m = (case find (\<lambda>t. resource_task_id t = j) tasks of
         Some t \<Rightarrow> if is_terminal (resource_status t) then (Inr (), c1) else call_out cx (CoreReportFail j) c1
       | None \<Rightarrow> call_out cx (CoreReportFail j) c1)"
    have m: "outside c1 (snd m)" "lastTasks (snd m) = lastTasks c1"
      by (auto simp: m_def outside_order.refl call_out_def split: option.split)
    have gone: "known_terminal c2 j \<or> Called (CoreReportFail j) True \<in> set (events c2)" if "m = (Inr u, c2)" for u c2
    proof (cases "\<exists>t. find (\<lambda>t. resource_task_id t = j) tasks = Some t \<and> is_terminal (resource_status t)")
      case True
      then have "known_terminal c1 j" using c1(2) by (auto simp: known_list_def find_Some_iff)
      moreover have "c2 = c1" using True that by (auto simp: m_def)
      ultimately show ?thesis by simp
    next
      case False
      then have "m = call_out cx (CoreReportFail j) c1" by (auto simp: m_def split: option.split)
      then show ?thesis using that by (auto simp: call_out_def split: option.splits)
    qed
    have r: "reconcileAfterReconnect cx tasks c =
      then_do (then_do m (\<lambda>_ c2. (Inr (), c2\<lparr>recoveryTaskToFail := None\<rparr>))) fin"
      using Some by (simp add: shape m_def)
    obtain x c2 where x: "m = (x, c2)" by (cases m)
    have c2: "host_inv c2" "recoveryTaskToFail c2 = Some j" "lastTasks c2 = lastTasks c" "set (events c) \<subseteq> set (events c2)"
      using m outside_inv[OF c1(1)] c1 Some by (auto simp: x outside_def)
    show ?thesis
    proof (cases x)
      case (Inl err)
      then show ?thesis using c2 by (simp add: r x)
    next
      case (Inr u)
      have "host_inv (c2\<lparr>recoveryTaskToFail := None\<rparr>)"
        using drop_recovery_inv[OF c2(1)] gone[of u c2] c2(2) by (simp add: x Inr)
      from fin[OF this] show ?thesis using c2 by (simp add: r x Inr)
    qed
  qed
qed (use assms in \<open>simp add: reconcileAfterReconnect_def\<close>)

lemma accept_tasks_inv:
  assumes "host_inv c" "known_list tasks c"
  shows "host_inv (c\<lparr>lastTasks := toAuthoritative tasks, coreDownSince := None\<rparr>)"
  using assms by (auto simp: host_inv_def handled_def known_terminal_def[abs_def] known_list_def released_def toAuthoritative_def)

lemma poll_inv:
  assumes "host_inv c"
  shows "host_inv (pollCore cx now c)"
proof -
  have stop: "host_inv (c\<lparr>coreDownSince := d\<rparr>) = host_inv c" for c d
    by (simp add: host_inv_def handled_def known_terminal_def[abs_def])
  have known_log: "known_list tasks (log_event cx (Fetched (Some tasks)) c)" for tasks c
    by (auto simp: known_list_def known_terminal_def)
  have rec: "host_inv (snd (then_do (if coreDownSince c \<noteq> None \<or> coreLossRecovery c then reconcileAfterReconnect cx tasks c else (Inr (), c))
       (\<lambda>_ c. (Inr (), c\<lparr>lastTasks := toAuthoritative tasks, coreDownSince := None\<rparr>))))"
    if "host_inv c" "known_list tasks c" for tasks c
  proof -
    let ?m = "if coreDownSince c \<noteq> None \<or> coreLossRecovery c then reconcileAfterReconnect cx tasks c else (Inr (), c)"
    have "host_inv (snd ?m)" "set (events c) \<subseteq> set (events (snd ?m))" using reconnect_inv[OF that] that by auto
    moreover from this(2) have "known_list tasks (snd ?m)" using that(2) known_mono by (auto simp: known_list_def)
    ultimately show ?thesis using accept_tasks_inv by (cases ?m; cases "fst ?m") auto
  qed
  have "host_inv (snd (poll_body cx c))"
  proof (cases "fetch_result cx (length (events c))")
    case (Inl err)
    then show ?thesis using outside_inv[OF assms log_outside] by (simp add: poll_body_def fetchTasks_def)
  next
    case (Inr tasks)
    let ?c = "log_event cx (Fetched (Some tasks)) c"
    have c: "host_inv ?c" "known_list tasks ?c" using outside_inv[OF assms log_outside] known_log by blast+
    have got: "host_inv (log_event cx (GotTask i (Some t)) ?c)" "known_list (tasks @ [t]) (log_event cx (GotTask i (Some t)) ?c)"
      "host_inv (log_event cx (GotTask i None) ?c)" for i t
      using outside_inv[OF c(1) log_outside] c(2) by (auto simp: known_list_def known_terminal_def)
    show ?thesis
      using rec[OF c] rec[OF got(1,2)] got(3)
      by (auto simp: poll_body_def fetchTasks_def Inr getTask_def split: option.split sum.split)
  qed
  then show ?thesis using stop by (auto simp: pollCore_def split: prod.split sum.split)
qed

lemma ingest_host_inv:
  assumes "host_inv c" "\<not> coreLossRecovery c" and control: "\<And>n. \<exists>cs. control (engine_env cx) n = Inr cs"
  shows "host_inv (ingest_tasks cx s now c)"
proof -
  obtain r e where i: "ingest (engine_env cx) (lastTasks c) s now (flight c) = (r, e)"
    by (cases "ingest (engine_env cx) (lastTasks c) s now (flight c)")
  have "handled c \<union> released (lastTasks c) = handled c"
    using assms(1) by (auto simp: host_inv_def handled_def)
  then have "accounted (handled c) e"
    using ingest_good[OF _ control, of "handled c" "flight c" "lastTasks c" s now] assms(1) by (auto simp: i good_def host_inv_def)
  then have "host_inv (c\<lparr>flight := e\<rparr>)"
    using assms(1,2) by (auto simp: host_inv_def handled_def known_terminal_def[abs_def])
  from outside_inv[OF this log_outside] have "host_inv (log_event cx IngestedTasks (c\<lparr>flight := e\<rparr>))" .
  moreover from this have "host_inv ((log_event cx IngestedTasks (c\<lparr>flight := e\<rparr>))\<lparr>coreDownSince := d\<rparr>)" for d
    by (simp add: host_inv_def handled_def known_terminal_def[abs_def])
  ultimately show ?thesis by (simp add: ingest_tasks_def i Let_def split: sum.split)
qed

lemma control_inv:
  assumes "host_inv c" and "\<And>n. \<exists>cs. control (engine_env cx) n = Inr cs"
  shows "host_inv (control_step cx c)"
proof -
  obtain now c1 where c1: "read_clock cx c = (now, c1)" by (cases "read_clock cx c")
  have "host_inv c1" using outside_inv[OF assms(1) clock_outside[of c cx]] by (simp add: c1)
  then show ?thesis
    using ingest_host_inv[OF _ _ assms(2)] outside_inv[OF _ watch_outside] by (simp add: control_step_def c1 Let_def)
qed

lemma run_once_inv:
  assumes "host_inv c" and "\<And>n. \<exists>cs. control (engine_env cx) n = Inr cs"
  shows "host_inv (snd (run_once cx w c))"
proof -
  obtain now c0 where c0: "read_clock cx c = (now, c0)" by (cases "read_clock cx c")
  have i0: "host_inv c0" using outside_inv[OF assms(1) clock_outside[of c cx]] by (simp add: c0)
  have "outside c (sendGcsHeartbeat cx c)" for c by (simp add: sendGcsHeartbeat_def outside_order.refl)
  then have beat: "host_inv (sendGcsHeartbeat cx c)" if "host_inv c" for c using outside_inv[OF that] by blast
  have tele: "host_inv (reportTelemetry cx s c)" if "host_inv c" for c s using outside_inv[OF that telemetry_outside] .
  have ctl: "host_inv (pause cx 100 (control_step cx c))" if "host_inv c" for c
    unfolding pause_def by (rule outside_inv[OF control_inv[OF that assms(2)] log_outside])
  have healthy: "snd (assertLinkHealthy cx c) = c" by (simp add: assertLinkHealthy_def split: link_state.split)
  show ?thesis
  proof (cases "assertLinkHealthy cx c")
    case (Pair x c')
    then have "c' = c" using healthy by simp
    then show ?thesis
      using Pair assms(1) i0 by (cases x) (auto simp: run_once_def c0 Let_def intro!: ctl tele beat poll_inv split: prod.split)
  qed
qed

lemma run_rounds_inv:
  assumes "\<And>n. \<exists>cs. control (engine_env cx) n = Inr cs"
  shows "host_inv c \<Longrightarrow> host_inv (snd (run_rounds cx n w c))"
proof (induction n arbitrary: w c)
  case (Suc n)
  obtain x c1 where r: "run_once cx w c = (x, c1)" by (cases "run_once cx w c")
  have "host_inv c1" using run_once_inv[OF Suc.prems assms, of w] by (simp add: r)
  then show ?case using Suc by (cases x) (simp_all add: r)
qed simp

lemma verify_outside: "outside c (snd (verify_rounds cx n deadline c))"
proof (induction n arbitrary: c)
  case (Suc n)
  obtain now c1 where c1: "read_clock cx c = (now, c1)" by (cases "read_clock cx c")
  have o: "outside c c1" using clock_outside[of c cx] by (simp add: c1)
  have "outside c1 (snd (verify_rounds cx n deadline (pause cx 100 c1)))"
    using outside_order.trans[OF log_outside Suc.IH] by (simp add: pause_def)
  with o show ?case
    by (auto simp: c1 assertLinkHealthy_def outside_order.refl intro: outside_order.trans split: link_state.split)
qed (simp add: outside_order.refl)

lemma verify_gcs_outside: "outside c (snd (verifyGcsFailsafe cx n c))"
proof -
  have "outside c (snd (verify_rounds cx n d (snd (read_clock cx c))))" for d c
    by (rule outside_order.trans[OF clock_outside verify_outside])
  then show ?thesis
    by (auto simp: verifyGcsFailsafe_def Let_def split_beta outside_order.refl intro!: outside_order.then_step)
qed

lemma wait_outside: "outside c (snd (waitForInitialState cx n c))"
proof (induction n arbitrary: c)
  case (Suc n)
  obtain t1 c1 where c1: "read_clock cx c = (t1, c1)" by (cases "read_clock cx c")
  let ?s = "current_snapshot c"
  obtain t2 c3 where c3: "read_clock cx (note_landed ?s t1 c1) = (t2, c3)" by (cases "read_clock cx (note_landed ?s t1 c1)")
  have "outside c1 (note_landed ?s t1 c1)" by (simp add: note_landed_def outside_def)
  then have o: "outside c c3"
    using clock_outside[of c cx] clock_outside[of "note_landed ?s t1 c1" cx] outside_order.trans by (metis c1 c3 snd_conv)
  have "outside c3 (snd (waitForInitialState cx n (pause cx 1000 (reportTelemetry cx ?s c3))))"
    unfolding pause_def by (rule outside_order.trans[OF telemetry_outside outside_order.trans[OF log_outside Suc.IH]])
  moreover have "outside c3 (snd (then_do (call_out cx CoreReady c3) (\<lambda>_ c. (Inr True, c\<lparr>ready := True\<rparr>))))"
    by (intro outside_order.then_step) (auto simp: outside_def[of _ "_\<lparr>ready := True\<rparr>"])
  ultimately show ?case
    using o by (auto simp: c1 c3 Let_def assertLinkHealthy_def outside_order.refl intro: outside_order.trans split: link_state.split)
qed (simp add: outside_order.refl)

lemma start_inv:
  assumes "\<And>n. \<exists>cs. control (engine_env cx) n = Inr cs"
  shows "host_inv (snd (start cx n new_controller))"
proof -
  have bind: "host_inv (snd (then_do m f))" if "host_inv c" "outside c (snd m)" "\<And>x c. host_inv c \<Longrightarrow> host_inv (snd (f x c))"
    for m :: "(controller, 'a) effect" and f :: "'a \<Rightarrow> controller \<Rightarrow> (controller, bool) effect" and c
    using outside_inv[OF that(1,2)] that(3) by (cases m; cases "fst m") auto
  have wr: "host_inv (snd (while_running c f))" if "host_inv c" "\<And>c. host_inv c \<Longrightarrow> host_inv (snd (f c))" for c f
    using that by (simp add: while_running_def)
  have flags: "host_inv (c\<lparr>link_present := True\<rparr>)" "host_inv (c\<lparr>link_present := True, listening := True\<rparr>)" if "host_inv c" for c
    using that by (simp_all add: host_inv_def handled_def known_terminal_def[abs_def])
  have init: "host_inv (new_controller\<lparr>running := True\<rparr>)"
    by (simp add: host_inv_def new_controller_def released_def accounted_def new_engine_def)
  have run: "host_inv (snd (run cx n c))" if "host_inv c" for c
    unfolding run_def by (rule run_rounds_inv[OF assms that])
  have call: "host_inv (snd (call_out cx a c))" if "host_inv c" for a c by (rule outside_inv[OF that call_outside])
  show ?thesis
    unfolding start_def Let_def
    by (rule bind[OF init call_outside])
      (auto intro!: wr bind[OF _ call_outside] bind[OF _ verify_gcs_outside] bind[OF _ wait_outside] run flags call)
qed

text \<open>C1: the host forgets no started task: after any number of rounds of the process, whatever fails, arrives or is refused
  while it runs (Core unreachable, reports and sends lost, recovery flights, stop signals), a task whose start was reported is
  still active in the engine, has a report that will be retried, was settled by a report that reached Core (of the engine, or of
  the controller after a recovery), or came back from Core in a terminal state. The control state is memory of the host,
  so reading it does not fail.\<close>

theorem host_forgets_no_task:
  assumes "\<forall>n. \<exists>cs. control (engine_env cx) n = Inr cs" "c = snd (start cx n new_controller)"
    and "i \<in> set (starts (trace (flight c)))"
  shows "activeTaskId (flight c) = Some i \<or> map_option report_task (pendingTerminalReport (flight c)) = Some i \<or>
    settled (flight c) i \<or> recoveryTaskToFail c = Some i \<or> Called (CoreReportFail i) True \<in> set (events c) \<or>
    known_terminal c i"
proof -
  have "host_inv c" using start_inv[of cx n] assms(1,2) by simp
  then show ?thesis using assms(3) by (auto simp: host_inv_def accounted_def handled_def)
qed

section \<open>A concrete flight\<close>

definition demo_beat :: "int \<Rightarrow> arrival" where
  "demo_beat base = Received \<lparr>sysid = 1, compid = 1, received = HeartbeatMessage 2 3 base 4\<rparr> 1000"

definition demo_fix :: "int \<Rightarrow> arrival" where
  "demo_fix rel = Received \<lparr>sysid = 1, compid = 1, received = GlobalPositionMessage 10000000 20000000 30000 rel 0 0 0 0\<rparr> 1000"

definition demo_arrivals :: "nat \<Rightarrow> arrival list" where
  "demo_arrivals n =
     (if n = 1 then [demo_beat 0, demo_fix 0, demo_fix 0, demo_fix 0,
          Received \<lparr>sysid = 1, compid = 1, received = SysStatusMessage 90\<rparr> 1000,
          Received \<lparr>sysid = 1, compid = 1, received = ParamValueMessage FS_GCS_PARAM 1\<rparr> 1000]
      else if n = 3 then [demo_beat 128, demo_fix 10000] else [])"

definition demo_resource :: task_resource where
  "demo_resource = \<lparr>resource_task_id = js_lit ''T'', resource_command = ''flight.land'', resource_status = PendingTask,
     resource_input = None, resource_cancellation = None\<rparr>"

definition demo_host :: controller_context where
  "demo_host = \<lparr>engine_env = demo_context, call_result = (\<lambda>_. None), fetch_result = (\<lambda>_. Inr [demo_resource]),
     task_result = (\<lambda>_. Inr demo_resource), arrivals = demo_arrivals, clock = (\<lambda>_. 1000), link_status = (\<lambda>_. LinkOpen)\<rparr>"

lemma demo_host_fields:
  "engine_env demo_host = demo_context" "call_result demo_host n = None" "fetch_result demo_host n = Inr [demo_resource]"
  "clock demo_host n = 1000" "link_status demo_host n = LinkOpen" "arrivals demo_host n = demo_arrivals n"
  by (simp_all add: demo_host_def)

lemma demo_call: "call_out demo_host a c = (Inr (), log_event demo_host (Called a True) c)"
  by (simp add: call_out_def demo_host_fields)

lemma demo_env: "config demo_context = demo_config" "dialect demo_context = demo_dialect"
  "vehicleSystemId demo_config = 1" "vehicleComponentId demo_config = 1" "minBatteryPercent demo_config = 30"
  "telemetryIntervalSeconds demo_config = 1"
  by (simp_all add: demo_context_def demo_config_def)

lemmas host_eval = handleMessage_def isConfiguredVehicleMessage_def demo_env observeSysStatus_def observeGcsFailsafe_def
  commandAckAccepted_def FS_GCS_PARAM_def

text \<open>The aircraft on the ground, ready, and then armed in the air.\<close>

definition demo_observed :: "real \<Rightarrow> vehicle_observation" where
  "demo_observed rel = \<lparr>latitudeDeg = 1, longitudeDeg = 2, altitudeMslM = 30, relativeAltitudeM = rel, groundSpeedMS = 0,
     headingDeg = Some 0, observed_battery = None, observedAtMs = 1000\<rparr>"

definition demo_view :: "bool \<Rightarrow> real \<Rightarrow> vehicle_snapshot" where
  "demo_view is_armed rel =
     \<lparr>identity = Some \<lparr>systemId = 1, componentId = 1, vehicleType = 2, autopilot = 3\<rparr>, armed = is_armed, mode = ''GUIDED'',
      customMode = Some 4, guided = True, observation = Some (demo_observed rel), lastHeartbeatMs = Some 1000,
      batteryRemainingPercent = Some 90, gcsFailsafeEnabled = Some True, launchElevationM = Some 30,
      launchLatitudeDeg = Some 1, launchLongitudeDeg = Some 2, launchElevationVerified = True\<rparr>"

lemma demo_ground:
  assumes "listening c" "tracker c = new_tracker"
  shows "foldl (arrive demo_context) c (demo_arrivals (Suc 0)) =
    c\<lparr>tracker := \<lparr>tracked = demo_view False 0, launchSamples = [30, 30, 30]\<rparr>, gcsFailsafeChecked := True\<rparr>"
  using assms
  by (simp add: demo_arrivals_def demo_beat_def demo_fix_def host_eval tracker_eval isGuidedMode_def copterModeName_def
      js_rem_def demo_view_def demo_observed_def)

lemma demo_air:
  assumes "listening c" "tracker c = \<lparr>tracked = demo_view False 0, launchSamples = [30, 30, 30]\<rparr>"
  shows "foldl (arrive demo_context) c (demo_arrivals 3) = c\<lparr>tracker := \<lparr>tracked = demo_view True 10, launchSamples = []\<rparr>\<rparr>"
  using assms
  by (simp add: demo_arrivals_def demo_beat_def demo_fix_def host_eval tracker_eval isGuidedMode_def copterModeName_def
      js_rem_def demo_view_def demo_observed_def)

lemma demo_quiet_arrivals: "n \<noteq> 1 \<Longrightarrow> n \<noteq> 3 \<Longrightarrow> demo_arrivals n = []"
  by (simp add: demo_arrivals_def)

lemma demo_ready: "fst (checkFlightReadiness demo_dialect (demo_view False 0) demo_config 1000)"
  by (simp add: checkFlightReadiness_def identity_failures_def checkBatteryReadiness_def push_if_def demo_view_def
      demo_observed_def demo_env HEARTBEAT_FRESH_MS_def POSITION_FRESH_MS_def demo_dialect_def)

lemma demo_view_fields: "armed (demo_view b r) = b" "observation (demo_view b r) = Some (demo_observed r)"
  "relativeAltitudeM (demo_observed r) = r" "hasFreshControlTelemetry (demo_view b r) 1000"
  by (simp_all add: demo_view_def demo_observed_def hasFreshControlTelemetry_def hasFreshHeartbeat_def
      HEARTBEAT_FRESHNESS_MS_def POSITION_FRESHNESS_MS_def)

text \<open>Until the vehicle is ready: the link is open, Core knows the runtime, and the aircraft has taken off meanwhile.\<close>

definition demo_ready_host :: controller where
  "demo_ready_host = new_controller\<lparr>running := True, link_present := True, listening := True, ready := True,
     initiallyLandedAndDisarmed := True, gcsFailsafeChecked := True, clockReads := 3,
     tracker := \<lparr>tracked = demo_view True 10, launchSamples = []\<rparr>,
     events := [Called OpenLink True, Called CoreBegin True, Called (LinkSend (paramReadCommand 1 1 FS_GCS_PARAM)) True, Called CoreReady True]\<rparr>"

lemma demo_wait:
  assumes "c = new_controller\<lparr>running := True, link_present := True, listening := True, gcsFailsafeChecked := True, clockReads := 1,
      tracker := \<lparr>tracked = demo_view False 0, launchSamples = [30, 30, 30]\<rparr>,
      events := [Called OpenLink True, Called CoreBegin True, Called (LinkSend (paramReadCommand 1 1 FS_GCS_PARAM)) True]\<rparr>"
  shows "waitForInitialState demo_host (Suc 0) c = (Inr True, demo_ready_host)"
  unfolding assms
  by (simp add: new_controller_def assertLinkHealthy_def demo_host_fields current_snapshot_def read_clock_def note_landed_def
      may_become_ready_def demo_view_fields demo_env demo_ready flightGateOpen_def demo_call log_event_def demo_air[unfolded numeral_3_eq_3]
      demo_ready_host_def numeral_3_eq_3)

lemma demo_started: "start demo_host (Suc 0) new_controller = run demo_host (Suc 0) demo_ready_host"
  by (simp add: start_def demo_call log_event_def demo_host_fields demo_quiet_arrivals demo_ground new_controller_def
      while_running_def verifyGcsFailsafe_def demo_env read_clock_def demo_wait[unfolded new_controller_def]
      del: waitForInitialState.simps)
    (simp add: demo_ready_host_def new_controller_def)

lemma demo_tasks: "toAuthoritative [demo_resource] = [demo_land]"
  by (simp add: toAuthoritative_def demo_resource_def demo_land_def)

lemma demo_poll:
  assumes "c = demo_ready_host\<lparr>clockReads := k, events := evs\<rparr>" "length evs > 3"
  shows "pollCore demo_host 1000 c = c\<lparr>lastTasks := [demo_land], events := evs @ [Fetched (Some [demo_resource])]\<rparr>"
  using assms
  by (simp add: pollCore_def poll_body_def fetchTasks_def demo_host_fields log_event_def demo_quiet_arrivals task_to_refresh_def
      reconciliationTaskId_def demo_ready_host_def new_controller_def new_engine_def activeTaskId_def demo_tasks)

lemma demo_telemetry:
  assumes "c = demo_ready_host\<lparr>clockReads := k, lastTasks := [demo_land], events := evs\<rparr>" "length evs > 3"
  obtains x where "reportTelemetry demo_host (demo_view True 10) c = c\<lparr>clockReads := k + 1, events := evs @ [x]\<rparr>"
  using assms
  by (simp add: reportTelemetry_def read_clock_def demo_host_fields flightTelemetryForCheckin_def demo_view_fields demo_call
      log_event_def demo_quiet_arrivals demo_ready_host_def new_controller_def)

lemma demo_control:
  assumes "tracked (tracker c) = demo_view True 10" "flight c = new_engine" "lastTasks c = [demo_land]"
    "\<not> coreLossRecovery c" "coreDownSince c = None"
  shows "flight (control_step demo_host c) = snd (ingest demo_context [demo_land] (demo_view True 10) 1000 new_engine)"
proof -
  obtain r e where i: "ingest demo_context [demo_land] (demo_view True 10) 1000 new_engine = (r, e)"
    by (cases "ingest demo_context [demo_land] (demo_view True 10) 1000 new_engine")
  show ?thesis
    by (simp add: assms control_step_def read_clock_def isCoreDown_def current_snapshot_def
        ingest_tasks_def demo_host_fields i Let_def split: sum.split)
qed

lemma demo_flight:
  "flight (snd (start demo_host (Suc 0) new_controller)) = snd (ingest demo_context [demo_land] (demo_view True 10) 1000 new_engine)"
proof -
  let ?evs = "events demo_ready_host"
  let ?c1 = "demo_ready_host\<lparr>clockReads := 4, events := ?evs @ [Called LinkHeartbeat True]\<rparr>"
  have len: "length ?evs = 4" by (simp add: demo_ready_host_def)
  have beat: "sendGcsHeartbeat demo_host (demo_ready_host\<lparr>clockReads := 4\<rparr>) = ?c1"
    by (simp add: sendGcsHeartbeat_def demo_call log_event_def demo_host_fields demo_quiet_arrivals len)
      (simp add: demo_ready_host_def)
  let ?c2 = "demo_ready_host\<lparr>clockReads := 4, lastTasks := [demo_land],
    events := ?evs @ [Called LinkHeartbeat True, Fetched (Some [demo_resource])]\<rparr>"
  have poll: "pollCore demo_host 1000 ?c1 = ?c2"
    using demo_poll[OF refl, of "?evs @ [Called LinkHeartbeat True]" 4] len by simp
  obtain x where tele: "reportTelemetry demo_host (demo_view True 10) ?c2 =
      ?c2\<lparr>clockReads := 4 + 1, events := (?evs @ [Called LinkHeartbeat True, Fetched (Some [demo_resource])]) @ [x]\<rparr>"
    using demo_telemetry[OF refl, of "?evs @ [Called LinkHeartbeat True, Fetched (Some [demo_resource])]" 4] len by auto
  have healthy: "assertLinkHealthy demo_host demo_ready_host = (Inr (), demo_ready_host)"
    by (simp add: assertLinkHealthy_def demo_host_fields)
  have clk: "read_clock demo_host demo_ready_host = (1000, demo_ready_host\<lparr>clockReads := 4\<rparr>)"
    by (simp add: read_clock_def demo_host_fields demo_ready_host_def)
  have snap: "current_snapshot ?c2 = demo_view True 10" by (simp add: current_snapshot_def demo_ready_host_def)
  have "flight (snd (run_once demo_host \<lparr>lastTelemetry = 0, lastHeartbeat = 0, lastPoll = 0\<rparr> demo_ready_host)) =
      snd (ingest demo_context [demo_land] (demo_view True 10) 1000 new_engine)"
    by (simp add: run_once_def healthy clk beat poll snap tele pause_def demo_host_fields demo_env Let_def del: One_nat_def)
      (rule demo_control; simp add: demo_ready_host_def new_controller_def)
  moreover obtain x c where r: "run_once demo_host \<lparr>lastTelemetry = 0, lastHeartbeat = 0, lastPoll = 0\<rparr> demo_ready_host = (x, c)"
    by (cases "run_once demo_host \<lparr>lastTelemetry = 0, lastHeartbeat = 0, lastPoll = 0\<rparr> demo_ready_host")
  moreover have "running demo_ready_host" by (simp add: demo_ready_host_def)
  ultimately show ?thesis by (cases x) (simp_all add: demo_started run_def)
qed

lemma demo_start_task:
  "starts (trace (snd (ingest demo_context [demo_land] (demo_view True 10) 1000 new_engine))) = [js_lit ''T'']"
proof -
  let ?s = "demo_view True 10" and ?e = "new_engine\<lparr>lastMode := Some ''GUIDED''\<rparr>"
  have p: "preconditions demo_context demo_land ?s 1000 = []"
    by (simp add: preconditions_def push_if_def demo_view_fields demo_env demo_fields) (simp add: demo_view_def demo_env)
  have start: "reconcileAuthoritative [demo_land] new_engine = new_engine"
    "flushTerminalReport demo_context new_engine = (Inr (), new_engine)"
    "observeMode demo_context ?s new_engine = (Inr (), ?e)"
    by (simp_all add: reconcileAuthoritative_def flushTerminalReport_def observeMode_def new_engine_def demo_fields is_terminal_def demo_view_def)
  obtain m where ad: "adoptNext demo_context [demo_land] ?s 1000 ?e =
    (Inr (Some demo_state), ?e\<lparr>active := Some (new_execution demo_land demo_state),
       trace := trace ?e @ [(ReportStart (js_lit ''T''), True), (ReadControl, True), (Send m, True)]\<rparr>)"
    using demo_adopt[OF p, of ?e] by (auto simp: new_engine_def)
  have "ingest demo_context [demo_land] ?s 1000 new_engine =
      (Inr (), ?e\<lparr>active := Some (new_execution demo_land demo_state),
       trace := trace ?e @ [(ReportStart (js_lit ''T''), True), (ReadControl, True), (Send m, True)]\<rparr>)"
    using start ad demo_advance[of "?e\<lparr>active := Some (new_execution demo_land demo_state),
       trace := trace ?e @ [(ReportStart (js_lit ''T''), True), (ReadControl, True), (Send m, True)]\<rparr>"]
    by (simp add: ingest_def ingest_ready_def ingest_movement_def rejectGotoDuringTakeoff_def new_engine_def)
  then show ?thesis by (simp add: starts_def new_engine_def)
qed


theorem host_forgets_no_task_witness:
  "\<exists>c. c = snd (start demo_host (Suc 0) new_controller) \<and> js_lit ''T'' \<in> set (starts (trace (flight c))) \<and>
    (activeTaskId (flight c) = Some (js_lit ''T'') \<or>
     map_option report_task (pendingTerminalReport (flight c)) = Some (js_lit ''T'') \<or>
     settled (flight c) (js_lit ''T'') \<or> recoveryTaskToFail c = Some (js_lit ''T'') \<or>
     Called (CoreReportFail (js_lit ''T'')) True \<in> set (events c) \<or> known_terminal c (js_lit ''T''))"
proof -
  have "\<forall>n. \<exists>cs. control (engine_env demo_host) n = Inr cs" by (simp add: demo_host_fields demo_fields)
  moreover have "js_lit ''T'' \<in> set (starts (trace (flight (snd (start demo_host (Suc 0) new_controller)))))"
    by (simp add: demo_flight demo_start_task)
  ultimately show ?thesis using host_forgets_no_task[of demo_host _ "Suc 0" "js_lit ''T''"] by blast
qed

section \<open>No flight action before readiness\<close>

definition grounded_until_ready :: "controller \<Rightarrow> bool" where
  "grounded_until_ready c \<longleftrightarrow> flight c = new_engine \<or> Called CoreReady True \<in> set (events c)"

lemma outside_until_ready: "grounded_until_ready c \<Longrightarrow> outside c c' \<Longrightarrow> grounded_until_ready c'"
  by (auto simp: grounded_until_ready_def outside_def)

lemma wait_ready:
  "waitForInitialState cx n c = (Inr True, c') \<Longrightarrow> running c' \<Longrightarrow> Called CoreReady True \<in> set (events c')"
proof (induction n arbitrary: c)
  case (Suc n)
  obtain t1 c1 where c1: "read_clock cx c = (t1, c1)" by (cases "read_clock cx c")
  let ?s = "current_snapshot c"
  obtain t2 c3 where c3: "read_clock cx (note_landed ?s t1 c1) = (t2, c3)" by (cases "read_clock cx (note_landed ?s t1 c1)")
  have ok: "assertLinkHealthy cx c = (Inr (), c)" if "running c"
    using Suc.prems that by (auto simp: assertLinkHealthy_def split: if_splits link_state.splits)
  show ?case
  proof (cases "running c")
    case True
    then show ?thesis
      using Suc.prems Suc.IH ok
      by (auto simp: c1 c3 Let_def call_out_def then_do_eq_Inr split: if_splits option.splits)
  qed (use Suc.prems in auto)
qed simp

text \<open>The list of events only grows.\<close>

definition logged :: "controller \<Rightarrow> controller \<Rightarrow> bool" where
  "logged c c' \<longleftrightarrow> set (events c) \<subseteq> set (events c')"

interpretation logged_order: effect_preorder logged
  by unfold_locales (auto simp: logged_def)

lemmas logged_then = logged_order.then_step

lemma outside_logged: "outside c c' \<Longrightarrow> logged c c'"
  by (simp add: outside_def logged_def)

lemma call_logged [simp]: "logged c (snd (call_out cx a c))"
  by (rule outside_logged[OF call_outside])

lemma fetch_logged: "logged c (snd (fetchTasks cx c))" "logged c (snd (getTask cx i c))"
  by (auto simp: fetchTasks_def getTask_def logged_def split: sum.split)

lemma reconnect_logged: "logged c (snd (reconcileAfterReconnect cx tasks c))"
proof -
  have "logged c (snd (call_out cx a (c\<lparr>flight := e, recoveryTaskToFail := x\<rparr>)))" for c a e x
    using call_logged[of "c\<lparr>flight := e, recoveryTaskToFail := x\<rparr>" cx a] by (simp add: logged_def)
  then show ?thesis
    by (auto simp: reconcileAfterReconnect_def Let_def logged_def[of _ "_\<lparr>recoveryTaskToFail := _\<rparr>"]
        logged_def[of _ "_\<lparr>flight := _, recoveryTaskToFail := _\<rparr>"] logged_def[of _ "_\<lparr>coreLossRecovery := _, coreLossRecoveryConfirmed := _,
          coreLossRecoveryRelinquished := _, lastCoreLossRecoveryAttemptMs := _\<rparr>"] logged_order.refl
        intro!: logged_then split: prod.split option.split)
qed

lemma poll_logged: "logged c (pollCore cx now c)"
proof -
  have "logged c (snd (poll_body cx c))"
    unfolding poll_body_def
    by (auto intro!: logged_then fetch_logged reconnect_logged split: option.split simp: logged_order.refl)
      (auto simp: logged_def)
  then show ?thesis by (auto simp: pollCore_def logged_def split: prod.split sum.split)
qed

lemma ingest_logged: "logged c (ingest_tasks cx s now c)"
  by (auto simp: ingest_tasks_def Let_def logged_def split: prod.split sum.split)

lemma control_logged: "logged c (control_step cx c)"
proof -
  obtain now c1 where c1: "read_clock cx c = (now, c1)" by (cases "read_clock cx c")
  have "logged c c1" using outside_logged[OF clock_outside[of c cx]] by (simp add: c1)
  then show ?thesis
    using ingest_logged[of c1] outside_logged[OF watch_outside[of c1]] logged_order.trans by (auto simp: control_step_def c1 Let_def)
qed

lemma run_once_logged: "logged c (snd (run_once cx w c))"
proof -
  obtain now c0 where c0: "read_clock cx c = (now, c0)" by (cases "read_clock cx c")
  have l0: "logged c c0" using outside_logged[OF clock_outside[of c cx]] by (simp add: c0)
  have beat: "logged c (sendGcsHeartbeat cx c1)" if "logged c c1" for c1
    using logged_order.trans[OF that call_logged] that by (simp add: sendGcsHeartbeat_def)
  have tele: "logged c (reportTelemetry cx s c1)" if "logged c c1" for c1 s
    by (rule logged_order.trans[OF that outside_logged[OF telemetry_outside]])
  have poll: "logged c (pollCore cx now c1)" if "logged c c1" for c1 by (rule logged_order.trans[OF that poll_logged])
  have ctl: "logged c (pause cx 100 (control_step cx c1))" if "logged c c1" for c1
    unfolding pause_def
    by (rule logged_order.trans[OF logged_order.trans[OF that control_logged] outside_logged[OF log_outside]])
  show ?thesis
    by (auto simp: run_once_def assertLinkHealthy_def c0 Let_def logged_order.refl intro!: ctl tele poll beat l0
        split: prod.split link_state.split)
qed

lemma run_logged: "logged c (snd (run_rounds cx n w c))"
proof (induction n arbitrary: w c)
  case (Suc n)
  then show ?case by (auto intro!: logged_then run_once_logged simp: logged_order.refl)
qed (simp add: logged_order.refl)



section \<open>Shutdown\<close>

lemma await_ends:
  assumes "\<And>k. clock cx (Suc k) \<ge> clock cx k + 1"
  shows "0 < n \<Longrightarrow> deadline - clock cx (clockReads c) \<le> real n - 1 \<Longrightarrow> fst (await_return cx n deadline c)"
proof (induction n arbitrary: c)
  case (Suc n)
  let ?c = "pause cx 250 (c\<lparr>clockReads := clockReads c + 1\<rparr>)"
  have reads: "clockReads ?c = Suc (clockReads c)" by (simp add: pause_def)
  show ?case
  proof (cases "clock cx (clockReads c) < deadline")
    case True
    then have "0 < n" using Suc.prems by (cases n) auto
    moreover have "deadline - clock cx (clockReads ?c) \<le> real n - 1"
      using assms[of "clockReads c"] Suc.prems unfolding reads by simp
    ultimately show ?thesis using Suc.IH[of ?c] by (simp add: read_clock_def)
  qed (simp add: read_clock_def)
qed simp

lemma await_link: "link_present (snd (await_return cx n deadline c)) = link_present c"
  by (induction n arbitrary: c) (auto simp: read_clock_def pause_def)

lemma request_ends:
  assumes "\<And>k. clock cx (Suc k) \<ge> clock cx k + 1"
    and "0 < n" "shutdownConfirmSeconds (config (engine_env cx)) * 1000 \<le> real n"
  shows "fst (request_return cx n c) \<noteq> Inr False"
proof -
  have "fst (await_return cx n (clock cx k + shutdownConfirmSeconds (config (engine_env cx)) * 1000) (c'\<lparr>clockReads := k + 1\<rparr>))" for k c'
    using assms(1)[of k] assms(3) by (intro await_ends[OF assms(1,2)]) simp
  then show ?thesis
    by (simp add: request_return_def Let_def split_beta read_clock_def call_out_def split: option.split)
qed

lemma request_link: "link_present (snd (request_return cx n c)) = link_present c"
  by (simp add: request_return_def Let_def split_beta read_clock_def call_out_def await_link split: option.split)


definition demo_exit :: controller_context where
  "demo_exit = demo_host\<lparr>clock := (\<lambda>k. 1000 + real k)\<rparr>"


end
