(* ===== verification/Core_Client.thy ===== *)
theory Core_Client
  imports Asset_Controller
begin

text \<open>
  The attachment of the Asset host to Core, \<^verbatim>\<open>edge/asset/src/core-client.ts\<close>: the command manifest it advertises, the
  body of a check-in, and the checks around the Core client of the SDK. The client is a parameter: the answer that each
  call gets.
\<close>

section \<open>Definitions\<close>

datatype scheduling = ImmediateScheduling

record manifest_entry =
  entry_command :: string
  entry_scheduling :: scheduling
  supports_cancel :: bool
  supports_progress :: bool

definition flightManifest :: "manifest_entry list" where
  "flightManifest =
     [\<lparr>entry_command = ''flight.goto'', entry_scheduling = ImmediateScheduling, supports_cancel = True, supports_progress = False\<rparr>,
      \<lparr>entry_command = ''flight.land'', entry_scheduling = ImmediateScheduling, supports_cancel = False, supports_progress = False\<rparr>,
      \<lparr>entry_command = ''flight.return_to_launch'', entry_scheduling = ImmediateScheduling, supports_cancel = False, supports_progress = False\<rparr>,
      \<lparr>entry_command = ''flight.takeoff'', entry_scheduling = ImmediateScheduling, supports_cancel = False, supports_progress = False\<rparr>]"

fun failureCodeFor :: "failure_code \<Rightarrow> string" where
  "failureCodeFor PreconditionFailed = ''precondition_failed''"
| "failureCodeFor ExecutionFailed = ''execution_failed''"

text \<open>\<^verbatim>\<open>reportStart\<close>: the start is granted only when the task comes back in progress.\<close>

definition reportStart :: "jstring \<Rightarrow> task_resource result \<Rightarrow> unit result" where
  "reportStart i started =
     (case started of
        Inl err \<Rightarrow> Inl err
      | Inr t \<Rightarrow> if resource_status t \<noteq> InProgress then Inl (PlainError ''Core did not grant execution'') else Inr ())"

record checkin_telemetry =
  in_latitude :: "real option"
  in_longitude :: "real option"
  in_altitude_m :: "real option"
  in_speed_m_s :: "real option"
  in_heading_deg :: "real option"

record telemetry_component =
  comp_armed :: "bool option"
  comp_flight_mode :: "string option"
  comp_launch_elevation_m :: "real option"

record checkin_components =
  component_telemetry :: "telemetry_component option"
  component_battery_percent :: "real option"

record checkin_request =
  request_telemetry :: checkin_telemetry
  request_components :: "checkin_components option"

definition flat_telemetry :: "flight_telemetry \<Rightarrow> checkin_telemetry" where
  "flat_telemetry t =
     (case flight_position t of
        None \<Rightarrow> \<lparr>in_latitude = None, in_longitude = None, in_altitude_m = None, in_speed_m_s = None, in_heading_deg = None\<rparr>
      | Some p \<Rightarrow> \<lparr>in_latitude = Some (pos_latitude p), in_longitude = Some (pos_longitude p),
          in_altitude_m = Some (pos_altitudeMslM p), in_speed_m_s = Some (pos_speedMS p), in_heading_deg = pos_headingDeg p\<rparr>)"

definition checkin :: "flight_telemetry \<Rightarrow> checkin_request" where
  "checkin t =
     (let component = \<lparr>comp_armed = flight_armed t, comp_flight_mode = flightMode t,
                        comp_launch_elevation_m = flight_launchElevationM t\<rparr>;
          present = (flight_armed t \<noteq> None \<or> flightMode t \<noteq> None \<or> flight_launchElevationM t \<noteq> None);
          components = \<lparr>component_telemetry = (if present then Some component else None),
                         component_battery_percent = flight_battery t\<rparr>
      in \<lparr>request_telemetry = flat_telemetry t,
          request_components = (if present \<or> flight_battery t \<noteq> None then Some components else None)\<rparr>)"

section \<open>What Core is told\<close>

lemma flat_inject: "flat_telemetry t = flat_telemetry u \<Longrightarrow> flight_position t = flight_position u"
  by (cases "flight_position t"; cases "flight_position u") (auto simp: flat_telemetry_def)

text \<open>A check-in loses nothing: different telemetry gives different requests.\<close>

lemma checkin_inject: "checkin t = checkin u \<Longrightarrow> t = u"
  by (rule flight_telemetry.equality)
    (auto simp: checkin_def Let_def intro: flat_inject split: if_splits)

text \<open>The manifest advertises exactly the commands that the engine executes.\<close>

lemma manifest_commands: "c \<in> set (map entry_command flightManifest) \<longleftrightarrow> isFlightCommand c"
  by (auto simp: flightManifest_def isFlightCommand_def)

end
