(* ===== verification/Device_Framing.thy ===== *)
theory Device_Framing
  imports Interfaces
begin

text \<open>
  The byte stream from a Meshtastic device, \<^verbatim>\<open>packages/meshtastic-link/src/device-framing.ts\<close>: a stateful splitter that
  gets the bytes of a serial or TCP connection in arbitrary chunks and emits the packets in them. \<open>scan\<close> is the loop of
  \<^verbatim>\<open>transform\<close> over one buffer, \<open>transform\<close> one chunk with the bytes kept from earlier chunks, \<open>flush\<close> the end of the stream.
  A thrown error ends the stream after the packets enqueued before it.
\<close>

section \<open>Definitions\<close>

definition header_at :: "bytes \<Rightarrow> bool" where
  "header_at buffer \<longleftrightarrow> buffer ! 0 = 0x94 \<and> buffer ! 1 = 0xc3"

definition frame_length :: "bytes \<Rightarrow> nat" where
  "frame_length buffer = unat (buffer ! 2) * 256 + unat (buffer ! 3)"

function scan :: "bool \<Rightarrow> bytes \<Rightarrow> bytes list \<times> bytes result" where
  "scan allowDebug buffer =
     (if length buffer < 2 then ([], Inr buffer)
      else if allowDebug \<and> \<not> header_at buffer then scan allowDebug (drop 1 buffer)
      else if length buffer < 4 then ([], Inr buffer)
      else if \<not> header_at buffer then ([], Inl (PlainError ''Invalid Meshtastic frame header''))
      else if length buffer < 4 + frame_length buffer then ([], Inr buffer)
      else let (packets, rest) = scan allowDebug (drop (4 + frame_length buffer) buffer)
           in (take (frame_length buffer) (drop 4 buffer) # packets, rest))"
  by pat_completeness auto
termination
  by (relation "measure (\<lambda>(_, buffer). length buffer)") auto

declare scan.simps [simp del]

definition keep_pending :: "bool \<Rightarrow> bytes \<Rightarrow> bytes" where
  "keep_pending allowDebug pending =
     (if allowDebug \<and> length pending = 1 \<and> hd pending \<noteq> 0x94 then [] else pending)"

definition transform :: "bool \<Rightarrow> bytes \<Rightarrow> bytes \<Rightarrow> bytes list \<times> bytes result" where
  "transform allowDebug pending chunk =
     (let (packets, rest) = scan allowDebug (pending @ chunk)
      in (packets, bind_result rest (\<lambda>p. Inr (keep_pending allowDebug p))))"

definition flush :: "bytes \<Rightarrow> unit result" where
  "flush pending = (if pending \<noteq> [] then Inl (PlainError ''Truncated Meshtastic frame'') else Inr ())"

text \<open>The whole stream: one \<^verbatim>\<open>transform\<close> per chunk until one throws.\<close>

fun stream :: "bool \<Rightarrow> bytes \<Rightarrow> bytes list \<Rightarrow> bytes list \<times> bytes result" where
  "stream allowDebug pending [] = ([], Inr pending)"
| "stream allowDebug pending (chunk # chunks) =
     (case transform allowDebug pending chunk of
        (packets, Inl err) \<Rightarrow> (packets, Inl err)
      | (packets, Inr pending') \<Rightarrow>
          let (more, r) = stream allowDebug pending' chunks in (packets @ more, r))"

section \<open>The packets do not depend on the chunks\<close>

lemma header_append: "length a \<ge> 2 \<Longrightarrow> header_at (a @ b) = header_at a"
  by (cases a) (auto simp: header_at_def nth_append)

lemma frame_length_append: "length a \<ge> 4 \<Longrightarrow> frame_length (a @ b) = frame_length a"
  by (simp add: frame_length_def nth_append)

lemma scan_short: "length buffer < 2 \<Longrightarrow> scan d buffer = ([], Inr buffer)"
  by (subst scan.simps) simp

lemma scan_waits:
  "\<not> (d \<and> \<not> header_at buffer) \<Longrightarrow> length buffer < 4 \<Longrightarrow> scan d buffer = ([], Inr buffer)"
  "header_at buffer \<Longrightarrow> length buffer < 4 + frame_length buffer \<Longrightarrow> scan d buffer = ([], Inr buffer)"
  by (subst scan.simps; auto)+

text \<open>Scanning a longer buffer goes on where the scan of its beginning stopped.\<close>

definition resume :: "bool \<Rightarrow> bytes list \<times> bytes result \<Rightarrow> bytes \<Rightarrow> bytes list \<times> bytes result" where
  "resume allowDebug r b =
     (case r of
        (packets, Inl err) \<Rightarrow> (packets, Inl err)
      | (packets, Inr p) \<Rightarrow> let (more, r') = scan allowDebug (p @ b) in (packets @ more, r'))"

lemma scan_append: "scan allowDebug (a @ b) = resume allowDebug (scan allowDebug a) b"
proof (induction allowDebug a rule: scan.induct)
  case (1 d buffer)
  have wait: "resume d ([], Inr buffer) b = scan d (buffer @ b)" by (simp add: resume_def)
  consider "length buffer < 2" | "length buffer \<ge> 2" "d" "\<not> header_at buffer"
    | "length buffer \<ge> 2" "\<not> (d \<and> \<not> header_at buffer)" "length buffer < 4"
    | "length buffer \<ge> 4" "\<not> d" "\<not> header_at buffer"
    | "length buffer \<ge> 4" "header_at buffer" "length buffer < 4 + frame_length buffer"
    | "length buffer \<ge> 4" "header_at buffer" "length buffer \<ge> 4 + frame_length buffer"
    by linarith
  then show ?case
  proof cases
    case 2
    have "scan d (buffer @ b) = scan d (drop 1 buffer @ b)"
      using 2 by (subst scan.simps) (simp add: header_append)
    also have "\<dots> = resume d (scan d (drop 1 buffer)) b" using 2 by (intro 1(1)) simp_all
    also have "scan d (drop 1 buffer) = scan d buffer" using 2 by (subst (2) scan.simps) simp
    finally show ?thesis .
  next
    case 4
    then have "scan d buffer = ([], Inl (PlainError ''Invalid Meshtastic frame header''))"
      "scan d (buffer @ b) = ([], Inl (PlainError ''Invalid Meshtastic frame header''))"
      using scan.simps[of False buffer] scan.simps[of False "buffer @ b"] by (simp_all add: header_append)
    then show ?thesis by (simp add: resume_def)
  next
    case 6
    let ?n = "frame_length buffer"
    have "scan d (drop (4 + ?n) buffer @ b) = resume d (scan d (drop (4 + ?n) buffer)) b"
      using 6 by (intro 1(2)) simp_all
    moreover have "scan d (buffer @ b) =
        (let (packets, rest) = scan d (drop (4 + ?n) buffer @ b) in (take ?n (drop 4 buffer) # packets, rest))"
      using 6 by (subst scan.simps) (simp add: header_append frame_length_append)
    moreover have "scan d buffer =
        (let (packets, rest) = scan d (drop (4 + ?n) buffer) in (take ?n (drop 4 buffer) # packets, rest))"
      using 6 by (subst scan.simps) simp
    ultimately show ?thesis
      by (auto simp: resume_def Let_def split: prod.splits sum.splits)
  qed (use wait in \<open>simp_all add: scan_short scan_waits\<close>)
qed

text \<open>A lone byte that cannot begin a header may be dropped at once.\<close>

lemma scan_keep: "scan d (keep_pending d p @ b) = (if keep_pending d p = p \<or> b \<noteq> [] then scan d (p @ b) else ([], Inr []))"
proof (cases "keep_pending d p = p")
  case False
  then obtain x where x: "p = [x]" "x \<noteq> 0x94" "d" "keep_pending d p = []"
    by (auto simp: keep_pending_def length_Suc_conv split: if_splits)
  show ?thesis
  proof (cases b)
    case (Cons y ys)
    then have "scan d (x # b) = scan d b" using x by (subst scan.simps) (simp add: header_at_def)
    then show ?thesis using x Cons by simp
  qed (use x in \<open>simp add: scan_short\<close>)
qed simp

definition settle_pending :: "bool \<Rightarrow> bytes list \<times> bytes result \<Rightarrow> bytes list \<times> bytes result" where
  "settle_pending d r = (fst r, bind_result (snd r) (\<lambda>p. Inr (keep_pending d p)))"

lemma transform_settle: "transform d p c = settle_pending d (scan d (p @ c))"
  by (simp add: transform_def settle_pending_def split_beta)

lemma keep_keep: "keep_pending d (keep_pending d p) = keep_pending d p"
  by (simp add: keep_pending_def)

text \<open>Continuing from the kept bytes gives the same as continuing from all of them.\<close>

lemma settle_keep: "settle_pending d (scan d (keep_pending d p @ b)) = settle_pending d (scan d (p @ b))"
proof (cases "keep_pending d p = p \<or> b \<noteq> []")
  case False
  then have k: "keep_pending d p = []" "b = []" "length p = 1" by (auto simp: keep_pending_def split: if_splits)
  then have "scan d p = ([], Inr p)" "keep_pending d [] = []" by (simp_all add: scan_short keep_pending_def)
  then show ?thesis using k by (simp add: settle_pending_def scan_short)
qed (simp add: scan_keep)

lemma stream_scan: "stream d p (c # cs) = settle_pending d (scan d (p @ c @ concat cs))"
proof (induction cs arbitrary: p c)
  case Nil
  then show ?case by (auto simp: transform_settle settle_pending_def bind_result_def split: sum.splits prod.splits)
next
  case (Cons c' cs)
  obtain packets r where s: "scan d (p @ c) = (packets, r)" by (cases "scan d (p @ c)")
  have all: "scan d (p @ c @ concat (c' # cs)) = resume d (packets, r) (c' @ concat cs)"
    using scan_append[of d "p @ c" "c' @ concat cs"] s by simp
  show ?case
  proof (cases r)
    case (Inl err)
    then show ?thesis using all s by (simp add: transform_settle settle_pending_def resume_def)
  next
    case (Inr q)
    have "stream d (keep_pending d q) (c' # cs) = settle_pending d (scan d (q @ c' @ concat cs))"
      using Cons.IH[of "keep_pending d q" c'] settle_keep by simp
    then show ?thesis
      using all s Inr by (simp add: transform_settle settle_pending_def resume_def Let_def split_beta del: stream.simps(2))
        (simp add: transform_settle s settle_pending_def split_beta)
  qed
qed

lemma frame_length_bound: "frame_length b \<le> 65535"
  using byte_lt[of "b ! 2"] byte_lt[of "b ! 3"] unfolding frame_length_def by linarith

lemma scan_rest_bound: "scan d b = (ps, Inr p) \<Longrightarrow> length p \<le> 65538"
proof (induction d b arbitrary: ps p rule: scan.induct)
  case (1 d b)
  show ?case
  proof (cases "d \<and> \<not> header_at b \<and> length b \<ge> 2")
    case True
    then have "scan d (drop 1 b) = (ps, Inr p)" using "1.prems" by (subst (asm) scan.simps) simp
    then show ?thesis using 1(1) True by simp
  next
    case False
    show ?thesis
    proof (cases "length b \<ge> 4 \<and> header_at b \<and> length b \<ge> 4 + frame_length b")
      case True
      then obtain qs where "scan d (drop (4 + frame_length b) b) = (qs, Inr p)"
        using "1.prems" by (subst (asm) scan.simps) (auto split: prod.splits)
      then show ?thesis using 1(2) True by simp
    next
      case False
      then have "b = p \<and> length b < 4 + frame_length b"
        using "1.prems" \<open>\<not> (d \<and> \<not> header_at b \<and> length b \<ge> 2)\<close> by (subst (asm) scan.simps) (auto split: if_splits)
      then show ?thesis using frame_length_bound[of b] by auto
    qed
  qed
qed

lemma keep_length: "length (keep_pending d p) \<le> length p"
  by (simp add: keep_pending_def)

lemma stream_transform: "stream d [] cs = transform d [] (concat cs)"
  by (cases cs) (simp_all add: stream_scan transform_settle settle_pending_def scan_short keep_pending_def del: stream.simps(2))

text \<open>C39: the packets do not depend on how the connection cuts the stream: feeding any chunks one after the other gives the
  packets, the error and the kept bytes of feeding them all at once, and the bytes that are kept between two chunks are at most
  65,538, whatever arrives.\<close>

theorem device_chunking:
  "stream allowDebug [] chunks = transform allowDebug [] (concat chunks) \<and>
     (\<forall>pending. snd (stream allowDebug [] chunks) = Inr pending \<longrightarrow> length pending \<le> 65538)"
proof -
  have "length p \<le> 65538" if kept: "snd (transform allowDebug [] (concat chunks)) = Inr p" for p
  proof -
    obtain ps r where s: "scan allowDebug (concat chunks) = (ps, r)" by (cases "scan allowDebug (concat chunks)")
    obtain q where "r = Inr q" "p = keep_pending allowDebug q"
      using kept s by (cases r) (auto simp: transform_settle settle_pending_def)
    then show ?thesis using scan_rest_bound[of allowDebug "concat chunks" ps q] keep_length[of allowDebug q] s by simp
  qed
  then show ?thesis by (simp add: stream_transform)
qed

theorem device_chunking_witness:
  "stream True [] [[0x94], [0xc3, 0, 1], [7, 0x94]] = ([[7]], Inr [0x94]) \<and> length [0x94 :: 8 word] \<le> 65538"
proof -
  have s: "scan True [0x94, 0xc3, 0, 1, 7, 0x94] = ([[7]], Inr [0x94])"
    by (subst scan.simps) (simp add: header_at_def frame_length_def scan_short)
  have "stream True [] [[0x94], [0xc3, 0, 1], [7, 0x94]] = ([[7]], Inr [0x94])"
    using device_chunking[of True "[[0x94], [0xc3, 0, 1], [7, 0x94]]"]
    by (simp add: transform_def s keep_pending_def del: stream.simps)
  then show ?thesis using device_chunking[of True "[[0x94], [0xc3, 0, 1], [7, 0x94]]"] by (simp del: stream.simps)
qed

section \<open>Packets arrive as they were sent\<close>

text \<open>A packet with its header, as the device sends it.\<close>

definition device_frame :: "bytes \<Rightarrow> bytes" where
  "device_frame packet = [0x94, 0xc3, word_of_nat (length packet div 256), word_of_nat (length packet mod 256)] @ packet"

lemma frame_length_frame: "length p < 65536 \<Longrightarrow> frame_length (device_frame p @ b) = length p"
  by (simp add: frame_length_def device_frame_def unat_of_nat nth_Cons' less_mult_imp_div_less)

lemma scan_frame:
  assumes "length p < 65536"
  shows "scan d (device_frame p @ b) = (let (ps, r) = scan d b in (p # ps, r))"
proof -
  have "header_at (device_frame p @ b)" by (simp add: device_frame_def header_at_def)
  moreover have "drop (4 + length p) (device_frame p @ b) = b"
    by (simp add: device_frame_def add.commute[of 4] flip: drop_drop)
  moreover have "take (length p) (drop 4 (device_frame p @ b)) = p"
    "length (device_frame p) = 4 + length p"
    by (simp_all add: device_frame_def)
  ultimately show ?thesis
    by (subst scan.simps) (simp add: frame_length_frame[OF assms])
qed

text \<open>C40: every packet sent is received once, in order: when the stream is the frames of packets of at most 65,535 bytes, in whatever
  chunks it arrives, the splitter emits exactly these packets, keeps nothing and accepts the end of the stream.\<close>

theorem device_roundtrip:
  assumes "\<forall>p \<in> set packets. length p < 65536" "concat chunks = concat (map device_frame packets)"
  shows "stream allowDebug [] chunks = (packets, Inr []) \<and> flush [] = Inr ()"
proof -
  have "scan allowDebug (concat (map device_frame packets)) = (packets, Inr [])"
    using assms(1) by (induction packets) (simp_all add: scan_frame scan_short)
  then show ?thesis by (simp add: stream_transform assms(2) transform_def keep_pending_def flush_def)
qed

theorem device_roundtrip_witness:
  "stream False [] [[0x94, 0xc3], [0, 2, 5], [6, 0x94, 0xc3, 0, 0]] = ([[5, 6], []], Inr [])"
  using device_roundtrip[of "[[5, 6], []]" "[[0x94, 0xc3], [0, 2, 5], [6, 0x94, 0xc3, 0, 0]]" False]
  by (simp add: device_frame_def del: stream.simps)

end
