(* ===== verification/Float_Bits.thy ===== *)
theory Float_Bits
  imports Json
begin

text \<open>
  Conversions between doubles, integers and single-precision floats on bit patterns, as the engine makes
  them for \<^verbatim>\<open>Number.isSafeInteger\<close>, \<^verbatim>\<open>Math.fround\<close> and \<^verbatim>\<open>DataView\<close> in \<^verbatim>\<open>packages/meshtastic-link/src/compact-value.ts\<close>.
  The lemmas show that a double which has an integer or a single-precision form is restored from it.
\<close>

section \<open>Definitions\<close>

text \<open>The fields of a double: sign, biased exponent of 11 bits and mantissa of 52 bits.\<close>

definition f64_sign :: "f64 \<Rightarrow> nat" where "f64_sign x = unat x div 2 ^ 63"
definition f64_exponent :: "f64 \<Rightarrow> nat" where "f64_exponent x = unat x div 2 ^ 52 mod 2 ^ 11"
definition f64_mantissa :: "f64 \<Rightarrow> nat" where "f64_mantissa x = unat x mod 2 ^ 52"

definition make_f64 :: "nat \<Rightarrow> nat \<Rightarrow> nat \<Rightarrow> f64" where
  "make_f64 s e m = word_of_nat (s * 2 ^ 63 + e * 2 ^ 52 + m)"

text \<open>The position of the highest bit.\<close>

fun top_bit :: "nat \<Rightarrow> nat" where
  "top_bit n = (if n < 2 then 0 else 1 + top_bit (n div 2))"

text \<open>The double of an integer of at most 53 bits.\<close>

definition f64_of_int :: "int \<Rightarrow> f64" where
  "f64_of_int i =
     (let n = nat \<bar>i\<bar>; p = top_bit n
      in if n = 0 then 0
         else make_f64 (if i < 0 then 1 else 0) (1023 + p) ((n - 2 ^ p) * 2 ^ (52 - p)))"

text \<open>
  A double that single precision represents exactly (\<^verbatim>\<open>Math.fround(value) === value\<close> for a finite
  value), with the 32 bits of that float; and the double of a float. The exponent of a float is biased by
  127, and its subnormal values are the multiples of \<open>2 ^ -149\<close>.
\<close>

type_synonym f32 = "32 word"

definition f32_of_f64 :: "f64 \<Rightarrow> f32 option" where
  "f32_of_f64 x =
     (let s = f64_sign x; e = f64_exponent x; m = f64_mantissa x
      in if e = 0 then (if m = 0 then Some (word_of_nat (s * 2 ^ 31)) else None)
         else if 897 \<le> e \<and> e \<le> 1150 then
           (if m mod 2 ^ 29 = 0 then Some (word_of_nat (s * 2 ^ 31 + (e - 896) * 2 ^ 23 + m div 2 ^ 29)) else None)
         else if 874 \<le> e \<and> e \<le> 896 then
           (if (2 ^ 52 + m) mod 2 ^ (926 - e) = 0
            then Some (word_of_nat (s * 2 ^ 31 + (2 ^ 52 + m) div 2 ^ (926 - e))) else None)
         else None)"

definition f64_of_f32 :: "f32 \<Rightarrow> f64" where
  "f64_of_f32 y =
     (let s = unat y div 2 ^ 31; e = unat y div 2 ^ 23 mod 2 ^ 8; m = unat y mod 2 ^ 23; p = top_bit m
      in if e = 0 then (if m = 0 then make_f64 s 0 0 else make_f64 s (874 + p) ((m - 2 ^ p) * 2 ^ (52 - p)))
         else if e = 255 then make_f64 s 2047 (m * 2 ^ 29)
         else make_f64 s (e + 896) (m * 2 ^ 29))"

declare top_bit.simps [simp del]

section \<open>Lemmas\<close>

lemma top_bit_unique: "2 ^ p \<le> n \<Longrightarrow> n < 2 ^ (p + 1) \<Longrightarrow> top_bit n = p"
proof (induction p arbitrary: n)
  case 0
  then show ?case by (subst top_bit.simps) simp
next
  case (Suc p)
  have "2 ^ p \<le> n div 2" "n div 2 < 2 ^ (p + 1)" using Suc.prems by auto
  then have "top_bit (n div 2) = p" by (rule Suc.IH)
  moreover have "\<not> n < 2"
    using Suc.prems(1) power_increasing[of 1 "Suc p" "2::nat"] by (simp del: power_Suc)
  ultimately show ?case by (subst top_bit.simps) simp
qed

lemma f64_fields_bounds: "f64_sign x < 2" "f64_exponent x < 2048" "f64_mantissa x < 2 ^ 52"
  using unsigned_less[of x, where 'a = nat]
  by (simp_all add: f64_sign_def f64_exponent_def f64_mantissa_def less_mult_imp_div_less)

text \<open>A number is the sum of its three fields.\<close>

lemma split_fields: "n div (a * b) * (a * b) + n div a mod b * a + n mod a = (n::nat)"
proof -
  have "n div (a * b) * (a * b) + n div a mod b * a = (n div a div b * b + n div a mod b) * a"
    unfolding distrib_right div_mult2_eq by (simp only: mult.assoc mult.commute[of b a])
  then show ?thesis by (simp only: div_mult_mod_eq)
qed

lemma fields_of_sum:
  assumes "e < b" "m < a"
  shows "(s * (a * b) + e * a + m) div (a * b) = s"
    and "(s * (a * b) + e * a + m) div a mod b = e"
    and "(s * (a * b) + e * a + m) mod a = (m::nat)"
proof -
  have eq: "s * (a * b) + e * a + m = m + (s * b + e) * a"
    unfolding distrib_right by (simp only: mult.assoc mult.commute[of b a] ac_simps)
  have d: "(s * (a * b) + e * a + m) div a = s * b + e"
    unfolding eq using assms(2) by (simp del: mult_Suc add_mult_distrib)
  then show "(s * (a * b) + e * a + m) div (a * b) = s" using assms by (simp add: div_mult2_eq)
  show "(s * (a * b) + e * a + m) div a mod b = e" using assms by (simp add: d)
  show "(s * (a * b) + e * a + m) mod a = m" unfolding eq using assms(2) by simp
qed

lemma make_f64_fields: "make_f64 (f64_sign x) (f64_exponent x) (f64_mantissa x) = x"
  using split_fields[of "unat x" "2 ^ 52" "2 ^ 11"]
  by (simp add: make_f64_def f64_sign_def f64_exponent_def f64_mantissa_def)

lemma f64_bit_fields:
  "unat (drop_bit 52 x AND 0x7ff) = f64_exponent x" "unat (take_bit 52 x) = f64_mantissa x"
  "bit x 63 \<longleftrightarrow> f64_sign x = 1"
proof -
  have "drop_bit 52 x AND 0x7ff = take_bit 11 (drop_bit 52 x)"
    unfolding take_bit_eq_mask by (simp add: mask_eq_exp_minus_1)
  then have "unat (drop_bit 52 x AND 0x7ff) = take_bit 11 (drop_bit 52 (unat x))"
    using unsigned_less[of x, where 'a = nat]
    by (simp only: unsigned_take_bit_eq unsigned_drop_bit_eq) (simp add: take_bit_nat_eq_self)
  then show "unat (drop_bit 52 x AND 0x7ff) = f64_exponent x"
    by (simp only: f64_exponent_def take_bit_eq_mod drop_bit_eq_div)
  show "unat (take_bit 52 x) = f64_mantissa x"
    by (simp only: f64_mantissa_def unsigned_take_bit_eq) (simp add: take_bit_eq_mod)
  have "bit x 63 \<longleftrightarrow> bit (unat x) 63" by (simp only: bit_unsigned_iff) simp
  also have "\<dots> \<longleftrightarrow> odd (unat x div 2 ^ 63)" by (rule bit_iff_odd)
  finally show "bit x 63 \<longleftrightarrow> f64_sign x = 1" using f64_fields_bounds(1)[of x] by (auto simp: f64_sign_def less_2_cases_iff)
qed

section \<open>Integers\<close>

lemma power_less_cancel: "(2::nat) ^ a * c < 2 ^ b \<Longrightarrow> 0 < c \<Longrightarrow> a < b"
proof (rule ccontr)
  assume *: "(2::nat) ^ a * c < 2 ^ b" "0 < c" "\<not> a < b"
  then have "(2::nat) ^ b \<le> 2 ^ a" by (simp add: power_increasing)
  also have "\<dots> \<le> 2 ^ a * c" using *(2) by simp
  finally show False using *(1) by simp
qed

text \<open>A divisible significand has its highest bit where the exponent says.\<close>

lemma top_bit_quotient:
  assumes "m < 2 ^ 52" "(2 ^ 52 + m) mod 2 ^ k = 0" "k \<le> 52"
  shows "top_bit ((2 ^ 52 + m) div 2 ^ k) = 52 - k"
    and "((2 ^ 52 + m) div 2 ^ k - 2 ^ (52 - k)) * 2 ^ k = m"
proof -
  obtain v where v: "2 ^ 52 + m = v * 2 ^ k" using assms(2) by (auto simp: mod_eq_0_iff_dvd dvd_def mult.commute)
  have split: "(2::nat) ^ 52 = 2 ^ (52 - k) * 2 ^ k" using assms(3) by (simp flip: power_add)
  have "2 ^ (52 - k) * 2 ^ k \<le> v * 2 ^ k" using v split by simp
  then have lo: "2 ^ (52 - k) \<le> v" by simp
  have "v * 2 ^ k < 2 * 2 ^ 52" using v assms(1) by simp
  then have "v * 2 ^ k < 2 ^ (52 - k + 1) * 2 ^ k" unfolding split power_add by (simp only: mult.assoc mult.commute power_one_right)
  then have hi: "v < 2 ^ (52 - k + 1)" by simp
  have q: "(2 ^ 52 + m) div 2 ^ k = v" unfolding v by simp
  show "top_bit ((2 ^ 52 + m) div 2 ^ k) = 52 - k" unfolding q by (rule top_bit_unique[OF lo hi])
  show "((2 ^ 52 + m) div 2 ^ k - 2 ^ (52 - k)) * 2 ^ k = m"
    unfolding q diff_mult_distrib split[symmetric] v[symmetric] by simp
qed

text \<open>A safe integer other than zero is restored from its value.\<close>

lemma f64_of_int_restores:
  assumes "f64_int x = Some i" "is_safe_integer i" "i \<noteq> 0"
  shows "f64_of_int i = x"
proof -
  let ?s = "f64_sign x" and ?e = "f64_exponent x" and ?m = "f64_mantissa x"
  let ?n = "nat \<bar>i\<bar>"
  note bounds = f64_fields_bounds[of x]
  have small: "?n < 2 ^ 53" using assms(2) by (simp add: is_safe_integer_def max_safe_integer_def)
  obtain k where i: "i = (if ?s = 1 then - int k else int k)"
    and mag: "Some k = (if ?e = 0x7ff then None
        else if ?e = 0 then (if ?m = 0 then Some 0 else None)
        else if 1075 \<le> ?e then Some ((2 ^ 52 + ?m) * 2 ^ (?e - 1075))
        else if (2 ^ 52 + ?m) mod 2 ^ (1075 - ?e) = 0 then Some ((2 ^ 52 + ?m) div 2 ^ (1075 - ?e))
        else None)"
    using assms(1) unfolding f64_int_def Let_def f64_bit_fields map_option_eq_Some
    by (elim exE conjE) (rule that[OF sym sym]; assumption)
  have nk: "?n = k" using i by simp
  from i have sgn: "?s = (if i < 0 then 1 else 0)"
    using assms(3) bounds(1) by (auto simp: less_2_cases_iff split: if_splits)
  have key: "top_bit ?n = ?e - 1023 \<and> 1023 \<le> ?e \<and> (?n - 2 ^ top_bit ?n) * 2 ^ (52 - top_bit ?n) = ?m"
  proof (cases "1075 \<le> ?e")
    case True
    then have n: "?n = (2 ^ 52 + ?m) * 2 ^ (?e - 1075)"
      unfolding nk using mag by (auto split: if_splits)
    have "2 ^ (?e - 1075 + 52) * 1 < (2::nat) ^ 53"
    proof -
      have "(2::nat) ^ (?e - 1075 + 52) \<le> ?n" unfolding n power_add by simp
      also note small
      finally show ?thesis by simp
    qed
    then have "?e - 1075 + 52 < 53" by (rule power_less_cancel) simp
    then have e: "?e = 1075" using True by simp
    then have n': "?n = 2 ^ 52 + ?m" using n by simp
    have "top_bit ?n = 52" unfolding n' by (rule top_bit_unique) (use bounds(3) in simp_all)
    then show ?thesis using e n' by simp
  next
    case False
    let ?k = "1075 - ?e"
    have d: "(2 ^ 52 + ?m) mod 2 ^ ?k = 0" and n: "?n = (2 ^ 52 + ?m) div 2 ^ ?k"
      unfolding nk using mag False assms(3) i by (auto split: if_splits)
    have "2 ^ ?k * ?n = 2 ^ 52 + ?m" unfolding n using mult_div_mod_eq[of "2 ^ ?k" "2 ^ 52 + ?m"] d by (simp only: add_0_right)
    then have "2 ^ ?k * ?n < 2 ^ 53" using bounds(3) by simp
    then have "?k < 53" by (rule power_less_cancel) (use assms(3) in simp)
    then have k: "?k \<le> 52" by simp
    have a: "52 - ?k = ?e - 1023" "52 - (?e - 1023) = ?k" "1023 \<le> ?e" using k False by auto
    from top_bit_quotient[OF bounds(3) d k] show ?thesis unfolding n using a by simp
  qed
  have "f64_of_int i = make_f64 ?s ?e ?m"
  proof -
    have "1023 + top_bit ?n = ?e" "?n \<noteq> 0" "(?n - 2 ^ top_bit ?n) * 2 ^ (52 - top_bit ?n) = ?m"
      using key assms(3) by auto
    then show ?thesis unfolding f64_of_int_def Let_def sgn[symmetric] by (simp only: if_False)
  qed
  then show ?thesis by (simp only: make_f64_fields)
qed

section \<open>Single precision\<close>

lemma unat_f32: "n < 2 ^ 32 \<Longrightarrow> unat (word_of_nat n :: f32) = n"
  by (simp add: unsigned_of_nat take_bit_nat_eq_self)

lemma f32_fields:
  assumes "s < 2" "e < 2 ^ 8" "m < 2 ^ 23"
  shows "unat (word_of_nat (s * 2 ^ 31 + e * 2 ^ 23 + m) :: f32) div 2 ^ 31 = s"
    and "unat (word_of_nat (s * 2 ^ 31 + e * 2 ^ 23 + m) :: f32) div 2 ^ 23 mod 2 ^ 8 = e"
    and "unat (word_of_nat (s * 2 ^ 31 + e * 2 ^ 23 + m) :: f32) mod 2 ^ 23 = m"
proof -
  have "unat (word_of_nat (s * 2 ^ 31 + e * 2 ^ 23 + m) :: f32) = s * (2 ^ 23 * 2 ^ 8) + e * 2 ^ 23 + m"
    using assms by (subst unat_f32) simp_all
  note fields_of_sum[OF assms(2,3), of s, folded this]
  then show "unat (word_of_nat (s * 2 ^ 31 + e * 2 ^ 23 + m) :: f32) div 2 ^ 31 = s"
    and "unat (word_of_nat (s * 2 ^ 31 + e * 2 ^ 23 + m) :: f32) div 2 ^ 23 mod 2 ^ 8 = e"
    and "unat (word_of_nat (s * 2 ^ 31 + e * 2 ^ 23 + m) :: f32) mod 2 ^ 23 = m"
    by (simp_all flip: power_add)
qed

text \<open>A double that has a single-precision form is restored from it.\<close>

lemma f64_of_f32_restores:
  assumes "f32_of_f64 x = Some y"
  shows "f64_of_f32 y = x"
proof -
  let ?s = "f64_sign x" and ?e = "f64_exponent x" and ?m = "f64_mantissa x"
  note bounds = f64_fields_bounds[of x]
  have "f64_of_f32 y = make_f64 ?s ?e ?m"
  proof -
    consider (zero) "?e = 0" "?m = 0" "y = word_of_nat (?s * 2 ^ 31 + 0 * 2 ^ 23 + 0)"
      | (normal) "897 \<le> ?e" "?e \<le> 1150" "?m mod 2 ^ 29 = 0" "y = word_of_nat (?s * 2 ^ 31 + (?e - 896) * 2 ^ 23 + ?m div 2 ^ 29)"
      | (subnormal) "874 \<le> ?e" "?e \<le> 896" "(2 ^ 52 + ?m) mod 2 ^ (926 - ?e) = 0"
          "y = word_of_nat (?s * 2 ^ 31 + 0 * 2 ^ 23 + (2 ^ 52 + ?m) div 2 ^ (926 - ?e))"
      using assms by (auto simp: f32_of_f64_def Let_def split: if_splits)
    then show ?thesis
    proof cases
      case zero
      from f32_fields[OF bounds(1), of 0 0] show ?thesis unfolding f64_of_f32_def zero(3) by (simp add: zero(1,2) Let_def)
    next
      case normal
      have m: "?m div 2 ^ 29 < 2 ^ 23" "?m div 2 ^ 29 * 2 ^ 29 = ?m" using bounds(3) normal(3) by auto
      have e: "?e - 896 < 2 ^ 8" "?e - 896 \<noteq> 0" "?e - 896 \<noteq> 255" "?e - 896 + 896 = ?e" using normal by auto
      show ?thesis unfolding f64_of_f32_def normal(4) Let_def f32_fields[OF bounds(1) e(1) m(1)] using e m(2) by simp
    next
      case subnormal
      let ?k = "926 - ?e" and ?v = "(2 ^ 52 + ?m) div 2 ^ (926 - ?e)"
      have k: "?k \<le> 52" "52 - ?k = ?e - 874" using subnormal by auto
      note t = top_bit_quotient[OF bounds(3) subnormal(3) k(1), unfolded k(2)]
      have "?v * 2 ^ ?k = 2 ^ 52 + ?m" using subnormal(3) by auto
      moreover have "(2::nat) ^ 53 = 2 ^ (53 - ?k) * 2 ^ ?k" using k(1) by (simp flip: power_add)
      ultimately have "?v * 2 ^ ?k < 2 ^ (53 - ?k) * 2 ^ ?k" using bounds(3) by simp
      then have "?v < 2 ^ (53 - ?k)" by simp
      also have "\<dots> \<le> 2 ^ 23" using subnormal by (intro power_increasing) auto
      finally have v: "?v < 2 ^ 23" .
      have "?v \<noteq> 0" using \<open>?v * 2 ^ ?k = 2 ^ 52 + ?m\<close> by (metis add_is_0 mult_0 power_eq_0_iff zero_neq_numeral)
      moreover have "52 - (?e - 874) = ?k" "874 + (?e - 874) = ?e" using subnormal by auto
      moreover have "(0::nat) < 2 ^ 8" by simp
      note f = f32_fields[OF bounds(1) this v]
      ultimately show ?thesis unfolding f64_of_f32_def subnormal(4) Let_def f t using t(2) by simp
    qed
  qed
  then show ?thesis by (simp only: make_f64_fields)
qed

section \<open>From an integer to its double and back\<close>

lemma top_bit_bounds: "0 < n \<Longrightarrow> 2 ^ top_bit n \<le> n \<and> n < 2 ^ (top_bit n + 1)"
proof (induction n rule: less_induct)
  case (less n)
  show ?case
  proof (cases "n < 2")
    case True
    then show ?thesis using less.prems by (subst (1 2) top_bit.simps) auto
  next
    case False
    then have "2 ^ top_bit (n div 2) \<le> n div 2 \<and> n div 2 < 2 ^ (top_bit (n div 2) + 1)" by (intro less.IH) auto
    moreover have "top_bit n = 1 + top_bit (n div 2)" using False by (subst top_bit.simps) simp
    ultimately show ?thesis by auto
  qed
qed

lemma make_f64_parts:
  assumes "s < 2" "e < 2 ^ 11" "m < 2 ^ 52"
  shows "f64_sign (make_f64 s e m) = s" "f64_exponent (make_f64 s e m) = e" "f64_mantissa (make_f64 s e m) = m"
proof -
  have "s * (2 ^ 52 * 2 ^ 11) + e * 2 ^ 52 + m < 2 ^ 64" using assms by simp
  then have "unat (make_f64 s e m) = s * (2 ^ 52 * 2 ^ 11) + e * 2 ^ 52 + m"
    unfolding make_f64_def by (simp add: unsigned_of_nat take_bit_nat_eq_self del: of_nat_add of_nat_mult)
  note f = fields_of_sum[OF assms(2,3), of s, folded this]
  have p: "(2::nat) ^ 52 * 2 ^ 11 = 2 ^ 63" by simp
  show "f64_sign (make_f64 s e m) = s" unfolding f64_sign_def using f(1) by (simp only: p)
  show "f64_exponent (make_f64 s e m) = e" unfolding f64_exponent_def by (rule f(2))
  show "f64_mantissa (make_f64 s e m) = m" unfolding f64_mantissa_def by (rule f(3))
qed

text \<open>The double of a safe integer denotes it.\<close>

lemma f64_int_of_int:
  assumes "is_safe_integer i"
  shows "f64_int (f64_of_int i) = Some i"
proof (cases "i = 0")
  case True
  then show ?thesis by (simp add: f64_of_int_def f64_int_def)
next
  case False
  define n where "n = nat \<bar>i\<bar>"
  define p where "p = top_bit n"
  have n: "0 < n" "n < 2 ^ 53" using False assms by (auto simp: n_def is_safe_integer_def max_safe_integer_def)
  note b = top_bit_bounds[OF n(1), folded p_def]
  have "(2::nat) ^ p * 1 < 2 ^ 53" using b n(2) by simp
  then have "p < 53" by (rule power_less_cancel) simp
  then have p: "p \<le> 52" by simp
  let ?m = "(n - 2 ^ p) * 2 ^ (52 - p)" and ?s = "if i < 0 then 1 else 0 :: nat"
  have pow: "(2::nat) ^ p * 2 ^ (52 - p) = 2 ^ 52" using p by (simp flip: power_add)
  have full: "2 ^ 52 + ?m = n * 2 ^ (52 - p)"
    using b unfolding pow[symmetric] diff_mult_distrib by (simp only: le_add_diff_inverse mult_le_mono1)
  have "n * 2 ^ (52 - p) < 2 ^ (p + 1) * 2 ^ (52 - p)" using b by simp
  also have "\<dots> = 2 * 2 ^ 52" using pow by simp
  finally have m: "?m < 2 ^ 52" unfolding full[symmetric] by simp
  have s: "?s < 2" and e: "1023 + p < 2 ^ 11" using p by auto
  note parts = make_f64_parts[OF s e m]
  have x: "f64_of_int i = make_f64 ?s (1023 + p) ?m"
    using n(1) by (simp add: f64_of_int_def Let_def n_def p_def)
  have k: "1075 - (1023 + p) = 52 - p" by simp
  have q: "(n * 2 ^ (52 - p)) mod 2 ^ (52 - p) = 0" "(n * 2 ^ (52 - p)) div 2 ^ (52 - p) = n" by auto
  have r: "1023 + p \<noteq> 0x7ff" "1023 + p \<noteq> 0" using p by auto
  have mag: "(if 1023 + p = 0x7ff then None
        else if 1023 + p = 0 then (if ?m = 0 then Some 0 else None)
        else if 1075 \<le> 1023 + p then Some ((2 ^ 52 + ?m) * 2 ^ (1023 + p - 1075))
        else if (2 ^ 52 + ?m) mod 2 ^ (1075 - (1023 + p)) = 0 then Some ((2 ^ 52 + ?m) div 2 ^ (1075 - (1023 + p)))
        else None) = Some n"
  proof (cases "p = 52")
    case True
    then have "n * 2 ^ (52 - p) * 2 ^ (1023 + p - 1075) = n" "1075 \<le> 1023 + p" by simp_all
    then show ?thesis unfolding full using r by (simp only: if_True if_False)
  next
    case False
    then have "\<not> 1075 \<le> 1023 + p" using p by simp
    then show ?thesis unfolding full k q using r by (simp only: if_True if_False simp_thms)
  qed
  show ?thesis unfolding f64_int_def Let_def f64_bit_fields x parts mag
    by (simp add: n_def)
qed

end
