(* ===== verification/Compact_Value.thy ===== *)
theory Compact_Value
  imports Binary_Codec Json_Text Float_Bits
begin

text \<open>
  The compact-value-v1 codec, \<^verbatim>\<open>packages/meshtastic-link/src/compact-value.ts\<close>: integers as varints, floats in
  single precision where that is exact, and a table of the texts that occurred so far. The writer is the
  list of bytes written, the reader the bytes that remain, and the table and the counters of the source
  are passed along. \<open>num\<close> is the text of a number (\<^verbatim>\<open>Number.prototype.toString\<close>), which belongs to the language. The
  theory shows that the decoder's budget is the length of the canonical text, so that it refuses no value that the
  encoder accepted, and that a payload is restored byte for byte.
\<close>

section \<open>Definitions\<close>

subsection \<open>The text of a value\<close>

text \<open>
  \<^verbatim>\<open>JSON.stringify\<close> without indentation. An engine object lists its array-index keys first, in numerical
  order, then the others in the order of their insertion.
\<close>

fun decimal_value :: "jstring \<Rightarrow> nat \<Rightarrow> nat option" where
  "decimal_value [] acc = Some acc"
| "decimal_value (c # cs) acc =
     (if 48 \<le> unat c \<and> unat c \<le> 57 then decimal_value cs (acc * 10 + (unat c - 48)) else None)"

definition array_index :: "jstring \<Rightarrow> nat option" where
  "array_index key =
     (if key = [] \<or> hd key = 48 \<and> length key > 1 then None
      else (case decimal_value key 0 of None \<Rightarrow> None | Some n \<Rightarrow> if n < 4294967295 then Some n else None))"

definition own_keys :: "(jstring \<times> 'a) list \<Rightarrow> (jstring \<times> 'a) list" where
  "own_keys kvs =
     sort_key (\<lambda>kv. the (array_index (fst kv))) (filter (\<lambda>kv. array_index (fst kv) \<noteq> None) kvs) @
     filter (\<lambda>kv. array_index (fst kv) = None) kvs"

fun stringify :: "(f64 \<Rightarrow> jstring) \<Rightarrow> json \<Rightarrow> jstring" where
  "stringify num JNull = js_lit ''null''"
| "stringify num (JBool b) = (if b then js_lit ''true'' else js_lit ''false'')"
| "stringify num (JNumber x) = num x"
| "stringify num (JString s) = quote_string s"
| "stringify num (JArray xs) = [0x5b] @ join_comma (map (stringify num) xs) @ [0x5d]"
| "stringify num (JObject kvs) =
     [0x7b] @ join_comma (map (\<lambda>(key, text). quote_string key @ [0x3a] @ text)
       (own_keys (map (\<lambda>(key, child). (key, stringify num child)) kvs))) @ [0x7d]"

text \<open>The bytes of \<^verbatim>\<open>encodeCanonicalJSON\<close> for a sorted value.\<close>

definition json_bytes :: "(f64 \<Rightarrow> jstring) \<Rightarrow> json \<Rightarrow> bytes" where
  "json_bytes num v = textEncode (stringify num v)"

subsection \<open>Limits and tags\<close>

definition COMPACT_VALUE_VERSION :: nat where "COMPACT_VALUE_VERSION = 1"
definition MAX_CANONICAL_BYTES :: nat where "MAX_CANONICAL_BYTES = 128 * 1024"
definition MAX_COMPACT_BYTES :: nat where "MAX_COMPACT_BYTES = MAX_CANONICAL_BYTES * 4"
definition MAX_DEPTH :: nat where "MAX_DEPTH = 64"
definition MAX_NODES :: nat where "MAX_NODES = 65536"
definition MAX_STRING_BYTES :: nat where "MAX_STRING_BYTES = MAX_CANONICAL_BYTES"
definition MAX_TABLE_ENTRIES :: nat where "MAX_TABLE_ENTRIES = 32"

definition COMPACT_NULL :: byte where "COMPACT_NULL = 0"
definition COMPACT_FALSE :: byte where "COMPACT_FALSE = 1"
definition COMPACT_TRUE :: byte where "COMPACT_TRUE = 2"
definition COMPACT_INTEGER_POSITIVE :: byte where "COMPACT_INTEGER_POSITIVE = 3"
definition COMPACT_INTEGER_NEGATIVE :: byte where "COMPACT_INTEGER_NEGATIVE = 4"
definition COMPACT_FLOAT32 :: byte where "COMPACT_FLOAT32 = 5"
definition COMPACT_FLOAT64 :: byte where "COMPACT_FLOAT64 = 6"
definition COMPACT_STRING :: byte where "COMPACT_STRING = 7"
definition COMPACT_ARRAY :: byte where "COMPACT_ARRAY = 8"
definition COMPACT_OBJECT :: byte where "COMPACT_OBJECT = 9"

lemmas compact_tags = COMPACT_NULL_def COMPACT_FALSE_def COMPACT_TRUE_def COMPACT_INTEGER_POSITIVE_def
  COMPACT_INTEGER_NEGATIVE_def COMPACT_FLOAT32_def COMPACT_FLOAT64_def COMPACT_STRING_def COMPACT_ARRAY_def
  COMPACT_OBJECT_def

lemmas compact_limits = MAX_CANONICAL_BYTES_def MAX_COMPACT_BYTES_def MAX_DEPTH_def MAX_NODES_def
  MAX_STRING_BYTES_def MAX_TABLE_ENTRIES_def max_safe_integer_def

subsection \<open>The text table\<close>

record text_table =
  table_values :: "jstring list"
  table_indexes :: "(jstring, nat) js_map"

definition new_table :: text_table where
  "new_table = \<lparr>table_values = [], table_indexes = []\<rparr>"

definition table_index :: "text_table \<Rightarrow> jstring \<Rightarrow> nat option" where
  "table_index t v = js_get (table_indexes t) v"

definition table_add :: "jstring \<Rightarrow> text_table \<Rightarrow> text_table" where
  "table_add v t =
     (if js_has (table_indexes t) v \<or> length (table_values t) \<ge> MAX_TABLE_ENTRIES then t
      else \<lparr>table_values = table_values t @ [v],
            table_indexes = js_set v (length (table_values t)) (table_indexes t)\<rparr>)"

definition table_value :: "text_table \<Rightarrow> nat \<Rightarrow> jstring result" where
  "table_value t index =
     (if index < length (table_values t) then Inr (table_values t ! index)
      else Inl (TypeError ''Unknown compact text reference''))"

subsection \<open>Writer and reader\<close>

definition writer_bytes :: "bytes \<Rightarrow> bytes \<Rightarrow> bytes result" where
  "writer_bytes output bs =
     (if length output + length bs > MAX_COMPACT_BYTES then Inl (RangeError ''Compact value exceeds input bound'')
      else Inr (output @ bs))"

definition writer_byte :: "bytes \<Rightarrow> byte \<Rightarrow> bytes result" where
  "writer_byte output b =
     (if length output + 1 > MAX_COMPACT_BYTES then Inl (RangeError ''Compact value exceeds input bound'')
      else Inr (output @ [b]))"

function writer_varint_loop :: "bytes \<Rightarrow> nat \<Rightarrow> bytes result" where
  "writer_varint_loop output n =
     (let remainder = n mod 128; n' = n div 128
      in bind_result (writer_byte output (word_of_nat (remainder OR (if n' > 0 then 128 else 0)))) (\<lambda>output.
           if n' > 0 then writer_varint_loop output n' else Inr output))"
  by pat_completeness auto
termination
  by (relation "measure snd") auto

definition writer_varint :: "bytes \<Rightarrow> nat \<Rightarrow> bytes result" where
  "writer_varint output n =
     (if \<not> is_safe_integer (int n) then Inl (TypeError ''Invalid compact integer'')
      else writer_varint_loop output n)"

definition writer_float32 :: "bytes \<Rightarrow> f32 \<Rightarrow> bytes result" where
  "writer_float32 output y = writer_bytes output (le_bytes 4 (unat y))"

definition writer_float64 :: "bytes \<Rightarrow> f64 \<Rightarrow> bytes result" where
  "writer_float64 output x = writer_bytes output (le_bytes 8 (unat x))"

fun reader_byte :: "bytes \<Rightarrow> (byte \<times> bytes) result" where
  "reader_byte [] = Inl (TypeError ''Truncated compact value'')"
| "reader_byte (b # raw) = Inr (b, raw)"

definition reader_bytes :: "nat \<Rightarrow> bytes \<Rightarrow> (bytes \<times> bytes) result" where
  "reader_bytes len raw =
     (if len > length raw then Inl (TypeError ''Truncated compact value bytes'')
      else Inr (take len raw, drop len raw))"

function reader_varint_loop :: "nat \<Rightarrow> nat \<Rightarrow> nat \<Rightarrow> bytes \<Rightarrow> (nat \<times> bytes) result" where
  "reader_varint_loop maximum index acc raw =
     (if index < 8 then
        bind_result (reader_byte raw) (\<lambda>(b, raw).
          let chunk = unat (b AND 0x7f)
          in if chunk > (max_safe_integer - acc) div 128 ^ index then Inl (TypeError ''Invalid compact integer'')
             else let acc = acc + chunk * 128 ^ index
               in if b AND 0x80 = 0 then
                    (if index > 0 \<and> chunk = 0 then Inl (TypeError ''Non-canonical compact integer'')
                     else if acc > maximum then Inl (RangeError ''Compact integer exceeds bound'')
                     else Inr (acc, raw))
                  else reader_varint_loop maximum (index + 1) acc raw)
      else Inl (TypeError ''Invalid compact integer''))"
  by pat_completeness auto
termination
  by (relation "measure (\<lambda>(maximum, index, acc, raw). 8 - index)") auto

definition reader_varint :: "nat \<Rightarrow> bytes \<Rightarrow> (nat \<times> bytes) result" where
  "reader_varint maximum raw = reader_varint_loop maximum 0 0 raw"

definition reader_float32 :: "bytes \<Rightarrow> (f64 \<times> bytes) result" where
  "reader_float32 raw =
     bind_result (reader_bytes 4 raw) (\<lambda>(bs, raw).
       let x = f64_of_f32 (word_of_nat (le_value bs))
       in if \<not> is_finite x then Inl (TypeError ''Compact value number is not finite'') else Inr (x, raw))"

definition reader_float64 :: "bytes \<Rightarrow> (f64 \<times> bytes) result" where
  "reader_float64 raw =
     bind_result (reader_bytes 8 raw) (\<lambda>(bs, raw).
       let x = word_of_nat (le_value bs)
       in if \<not> is_finite x then Inl (TypeError ''Compact value number is not finite'') else Inr (x, raw))"

declare writer_varint_loop.simps [simp del] reader_varint_loop.simps [simp del]

subsection \<open>UUIDs\<close>

definition lower_hex :: "jschar \<Rightarrow> bool" where
  "lower_hex c \<longleftrightarrow> 48 \<le> unat c \<and> unat c \<le> 57 \<or> 97 \<le> unat c \<and> unat c \<le> 102"

text \<open>The regular expression: groups of 8, 4, 4, 4 and 12 lower-case hexadecimal digits.\<close>

definition is_uuid :: "jstring \<Rightarrow> bool" where
  "is_uuid s \<longleftrightarrow> length s = 36 \<and> list_all lower_hex (take 8 s) \<and> s ! 8 = 0x2d \<and>
     list_all lower_hex (take 4 (drop 9 s)) \<and> s ! 13 = 0x2d \<and>
     list_all lower_hex (take 4 (drop 14 s)) \<and> s ! 18 = 0x2d \<and>
     list_all lower_hex (take 4 (drop 19 s)) \<and> s ! 23 = 0x2d \<and>
     list_all lower_hex (drop 24 s)"

definition hex_nat :: "jschar \<Rightarrow> nat" where
  "hex_nat c = (if unat c \<le> 57 then unat c - 48 else unat c - 87)"

fun parse_hex_pairs :: "jstring \<Rightarrow> bytes" where
  "parse_hex_pairs (a # b # rest) = word_of_nat (16 * hex_nat a + hex_nat b) # parse_hex_pairs rest"
| "parse_hex_pairs _ = []"

definition packUUID :: "jstring \<Rightarrow> bytes option" where
  "packUUID s = (if \<not> is_uuid s then None else Some (parse_hex_pairs (filter (\<lambda>c. c \<noteq> 0x2d) s)))"

definition byte_hex :: "byte \<Rightarrow> jstring" where
  "byte_hex b = [hex_digit (unat b div 16), hex_digit (unat b mod 16)]"

definition uuidString :: "bytes \<Rightarrow> jstring" where
  "uuidString bs =
     (let hex = concat (map byte_hex bs)
      in take 8 hex @ [0x2d] @ take 4 (drop 8 hex) @ [0x2d] @ take 4 (drop 12 hex) @ [0x2d] @
         take 4 (drop 16 hex) @ [0x2d] @ drop 20 hex)"

subsection \<open>Texts\<close>

definition text_vocabulary :: "vocabulary \<Rightarrow> bool \<Rightarrow> jstring list" where
  "text_vocabulary voc key = (if key then FRAME_BINARY_KEYS voc else FRAME_BINARY_STRINGS voc)"

definition uuidToken :: "vocabulary \<Rightarrow> bool \<Rightarrow> nat" where
  "uuidToken voc key = length (text_vocabulary voc key) + MAX_TABLE_ENTRIES + 1"

definition writeText ::
    "vocabulary \<Rightarrow> bytes \<Rightarrow> jstring \<Rightarrow> bool \<Rightarrow> text_table \<Rightarrow> (bytes \<times> text_table) result" where
  "writeText voc output v key table =
     (case table_index table v of
        Some reference \<Rightarrow>
          bind_result (writer_varint output (length (text_vocabulary voc key) + 1 + reference)) (\<lambda>output.
            Inr (output, table))
      | None \<Rightarrow>
          (case dictionary_index (text_vocabulary voc key) v of
             Some dictionary \<Rightarrow>
               bind_result (writer_varint output (dictionary + 1)) (\<lambda>output. Inr (output, table_add v table))
           | None \<Rightarrow>
               (case packUUID v of
                  Some uuid \<Rightarrow>
                    bind_result (writer_varint output (uuidToken voc key)) (\<lambda>output.
                      bind_result (writer_bytes output uuid) (\<lambda>output. Inr (output, table_add v table)))
                | None \<Rightarrow>
                    let encoded = encodeBinaryUtf8 v
                    in if length encoded > MAX_STRING_BYTES then Inl (RangeError ''Compact value string is too large'')
                       else bind_result (writer_varint output 0) (\<lambda>output.
                         bind_result (writer_varint output (length encoded)) (\<lambda>output.
                           bind_result (writer_bytes output encoded) (\<lambda>output.
                             Inr (output, table_add v table)))))))"

definition readText ::
    "vocabulary \<Rightarrow> bytes \<Rightarrow> bool \<Rightarrow> text_table \<Rightarrow> (jstring \<times> bytes \<times> text_table) result" where
  "readText voc raw key table =
     bind_result (reader_varint (uuidToken voc key) raw) (\<lambda>(token, raw).
       if token = 0 then
         bind_result (reader_varint MAX_STRING_BYTES raw) (\<lambda>(len, raw).
           bind_result (reader_bytes len raw) (\<lambda>(bs, raw).
             bind_result (decodeBinaryUtf8 bs) (\<lambda>v. Inr (v, raw, table_add v table))))
       else
         let dictionary = text_vocabulary voc key
         in if token \<le> length dictionary then
              Inr (dictionary ! (token - 1), raw, table_add (dictionary ! (token - 1)) table)
            else if token < uuidToken voc key then
              bind_result (table_value table (token - (length dictionary + 1))) (\<lambda>v. Inr (v, raw, table))
            else if token = uuidToken voc key then
              bind_result (reader_bytes 16 raw) (\<lambda>(bs, raw).
                Inr (uuidString bs, raw, table_add (uuidString bs) table))
            else Inl (TypeError ''Unknown compact text token''))"

subsection \<open>Values\<close>

definition writeNumber :: "bytes \<Rightarrow> f64 \<Rightarrow> bytes result" where
  "writeNumber output x =
     (if \<not> is_finite x then Inl (TypeError ''Compact value number is not finite'')
      else (case safe_integer (Some (JNumber x)) of
          Some i \<Rightarrow>
            if i < 0 then
              bind_result (writer_byte output COMPACT_INTEGER_NEGATIVE) (\<lambda>output. writer_varint output (nat (- i)))
            else
              bind_result (writer_byte output COMPACT_INTEGER_POSITIVE) (\<lambda>output. writer_varint output (nat i))
        | None \<Rightarrow>
            (case f32_of_f64 x of
               Some y \<Rightarrow> bind_result (writer_byte output COMPACT_FLOAT32) (\<lambda>output. writer_float32 output y)
             | None \<Rightarrow> bind_result (writer_byte output COMPACT_FLOAT64) (\<lambda>output. writer_float64 output x))))"

function writeCompact ::
    "vocabulary \<Rightarrow> bytes \<Rightarrow> json \<Rightarrow> nat \<Rightarrow> nat \<Rightarrow> text_table \<Rightarrow> (bytes \<times> nat \<times> text_table) result"
  and writeCompactElements ::
    "vocabulary \<Rightarrow> bytes \<Rightarrow> json list \<Rightarrow> nat \<Rightarrow> nat \<Rightarrow> text_table \<Rightarrow> (bytes \<times> nat \<times> text_table) result"
  and writeCompactFields ::
    "vocabulary \<Rightarrow> bytes \<Rightarrow> (jstring \<times> json) list \<Rightarrow> nat \<Rightarrow> nat \<Rightarrow> text_table \<Rightarrow>
       (bytes \<times> nat \<times> text_table) result"
where
  "writeCompact voc output v depth count table =
     (if depth > MAX_DEPTH then Inl (RangeError ''Compact value is too deep'')
      else if count + 1 > MAX_NODES then Inl (RangeError ''Compact value has too many values'')
      else (case v of
          JNull \<Rightarrow> bind_result (writer_byte output COMPACT_NULL) (\<lambda>output. Inr (output, count + 1, table))
        | JBool b \<Rightarrow>
            bind_result (writer_byte output (if b then COMPACT_TRUE else COMPACT_FALSE)) (\<lambda>output.
              Inr (output, count + 1, table))
        | JNumber x \<Rightarrow> bind_result (writeNumber output x) (\<lambda>output. Inr (output, count + 1, table))
        | JString s \<Rightarrow>
            bind_result (writer_byte output COMPACT_STRING) (\<lambda>output.
              bind_result (writeText voc output s False table) (\<lambda>(output, table).
                Inr (output, count + 1, table)))
        | JArray xs \<Rightarrow>
            bind_result (writer_byte output COMPACT_ARRAY) (\<lambda>output.
              bind_result (writer_varint output (length xs)) (\<lambda>output.
                writeCompactElements voc output xs (depth + 1) (count + 1) table))
        | JObject kvs \<Rightarrow>
            bind_result (writer_byte output COMPACT_OBJECT) (\<lambda>output.
              bind_result (writer_varint output (length kvs)) (\<lambda>output.
                writeCompactFields voc output (sort_key fst kvs) (depth + 1) (count + 1) table))))"
| "writeCompactElements voc output [] depth count table = Inr (output, count, table)"
| "writeCompactElements voc output (child # children) depth count table =
     bind_result (writeCompact voc output child depth count table) (\<lambda>(output, count, table).
       writeCompactElements voc output children depth count table)"
| "writeCompactFields voc output [] depth count table = Inr (output, count, table)"
| "writeCompactFields voc output ((key, child) # kvs) depth count table =
     bind_result (writeText voc output key True table) (\<lambda>(output, table).
       bind_result (writeCompact voc output child depth count table) (\<lambda>(output, count, table).
         writeCompactFields voc output kvs depth count table))"
  by pat_completeness auto
termination
  by (relation "measure (\<lambda>x. case x of
        Inl (voc, out, v, d, c, t) \<Rightarrow> size v
      | Inr (Inl (voc, out, vs, d, c, t)) \<Rightarrow> size_list size vs
      | Inr (Inr (voc, out, kvs, d, c, t)) \<Rightarrow> size_list (size_prod (\<lambda>_. 0) size) kvs)") auto

text \<open>The number of bytes of a code point, and of a string in the canonical text.\<close>

definition utf8Bytes :: "nat \<Rightarrow> nat" where
  "utf8Bytes p = (if p \<le> 0x7f then 1 else if p \<le> 0x7ff then 2 else if p \<le> 0xffff then 3 else 4)"

definition unit_bytes :: "jschar \<Rightarrow> nat" where
  "unit_bytes c =
     (if c = 0x22 \<or> c = 0x5c then 2
      else if c = 8 \<or> c = 9 \<or> c = 10 \<or> c = 12 \<or> c = 13 then 2
      else if unat c \<le> 0x1f then 6
      else if is_high c \<or> is_low c then 6
      else utf8Bytes (unat c))"

fun string_units_bytes :: "jstring \<Rightarrow> nat" where
  "string_units_bytes [] = 0"
| "string_units_bytes [c] = unit_bytes c"
| "string_units_bytes (c # d # cs) =
     (if is_high c \<and> is_low d
      then utf8Bytes (0x10000 + push_bit 10 (unat c - 0xd800) + (unat d - 0xdc00)) + string_units_bytes cs
      else unit_bytes c + string_units_bytes (d # cs))"

definition canonicalJSONStringBytes :: "jstring \<Rightarrow> nat" where
  "canonicalJSONStringBytes s = 2 + string_units_bytes s"

definition budget_bytes :: "nat \<Rightarrow> nat \<Rightarrow> nat result" where
  "budget_bytes n spent =
     (if spent + n > MAX_CANONICAL_BYTES then Inl (RangeError ''Compact value exceeds 128 KiB'') else Inr (spent + n))"

definition budget_number :: "(f64 \<Rightarrow> jstring) \<Rightarrow> f64 \<Rightarrow> nat \<Rightarrow> nat result" where
  "budget_number num x spent = budget_bytes (length (num x)) spent"

definition budget_string :: "jstring \<Rightarrow> nat \<Rightarrow> nat result" where
  "budget_string s spent = budget_bytes (canonicalJSONStringBytes s) spent"

text \<open>What the recursive calls of \<^verbatim>\<open>readValue\<close> pass on: the reader, the node count, the table and the budget.\<close>

record read_state =
  rs_raw :: bytes
  rs_count :: nat
  rs_table :: text_table
  rs_budget :: nat

definition spend :: "(nat \<Rightarrow> nat result) \<Rightarrow> read_state \<Rightarrow> read_state result" where
  "spend f st = bind_result (f (rs_budget st)) (\<lambda>spent. Inr (st\<lparr>rs_budget := spent\<rparr>))"

definition read_leaf :: "(bytes \<Rightarrow> ('a \<times> bytes) result) \<Rightarrow> read_state \<Rightarrow> ('a \<times> read_state) result" where
  "read_leaf f st = bind_result (f (rs_raw st)) (\<lambda>(x, raw). Inr (x, st\<lparr>rs_raw := raw\<rparr>))"

definition read_text :: "vocabulary \<Rightarrow> bool \<Rightarrow> read_state \<Rightarrow> (jstring \<times> read_state) result" where
  "read_text voc key st =
     bind_result (readText voc (rs_raw st) key (rs_table st)) (\<lambda>(v, raw, table).
       Inr (v, st\<lparr>rs_raw := raw, rs_table := table\<rparr>))"

definition visit :: "nat \<Rightarrow> read_state \<Rightarrow> read_state result" where
  "visit depth st =
     (if depth > MAX_DEPTH then Inl (RangeError ''Compact value is too deep'')
      else if rs_count st + 1 > MAX_NODES then Inl (RangeError ''Compact value has too many values'')
      else Inr (st\<lparr>rs_count := rs_count st + 1\<rparr>))"

lemma visit_depth: "visit depth st = Inr st' \<Longrightarrow> depth \<le> MAX_DEPTH"
  by (simp add: visit_def split: if_splits)

definition read_number ::
    "(f64 \<Rightarrow> jstring) \<Rightarrow> (bytes \<Rightarrow> (f64 \<times> bytes) result) \<Rightarrow> read_state \<Rightarrow> (json \<times> read_state) result" where
  "read_number num f st =
     bind_result (read_leaf f st) (\<lambda>(x, st). bind_result (spend (budget_number num x) st) (\<lambda>st. Inr (JNumber x, st)))"

definition reader_positive :: "bytes \<Rightarrow> (f64 \<times> bytes) result" where
  "reader_positive raw =
     bind_result (reader_varint max_safe_integer raw) (\<lambda>(n, raw). Inr (f64_of_int (int n), raw))"

definition reader_negative :: "bytes \<Rightarrow> (f64 \<times> bytes) result" where
  "reader_negative raw =
     bind_result (reader_varint max_safe_integer raw) (\<lambda>(n, raw).
       if n = 0 then Inl (TypeError ''Negative compact integer has zero magnitude'')
       else Inr (f64_of_int (- int n), raw))"

text \<open>
  \<^verbatim>\<open>readValue\<close>. The loops over elements and fields are called with the index of the current turn, which decides
  about the comma, and the number of remaining turns.
\<close>

function readCompact ::
    "(f64 \<Rightarrow> jstring) \<Rightarrow> vocabulary \<Rightarrow> nat \<Rightarrow> read_state \<Rightarrow> (json \<times> read_state) result"
  and readCompactElements ::
    "(f64 \<Rightarrow> jstring) \<Rightarrow> vocabulary \<Rightarrow> nat \<Rightarrow> nat \<Rightarrow> json list \<Rightarrow> read_state \<Rightarrow> (json list \<times> read_state) result"
  and readCompactFields ::
    "(f64 \<Rightarrow> jstring) \<Rightarrow> vocabulary \<Rightarrow> nat \<Rightarrow> nat \<Rightarrow> (jstring \<times> json) list \<Rightarrow> read_state \<Rightarrow>
       ((jstring \<times> json) list \<times> read_state) result"
where
  "readCompact num voc depth st =
     bind_result (visit depth st) (\<lambda>st.
       bind_result (read_leaf reader_byte st) (\<lambda>(tag, st).
       if tag = COMPACT_NULL then bind_result (spend (budget_bytes 4) st) (\<lambda>st. Inr (JNull, st))
       else if tag = COMPACT_FALSE then bind_result (spend (budget_bytes 5) st) (\<lambda>st. Inr (JBool False, st))
       else if tag = COMPACT_TRUE then bind_result (spend (budget_bytes 4) st) (\<lambda>st. Inr (JBool True, st))
       else if tag = COMPACT_INTEGER_POSITIVE then read_number num reader_positive st
       else if tag = COMPACT_INTEGER_NEGATIVE then read_number num reader_negative st
       else if tag = COMPACT_FLOAT32 then read_number num reader_float32 st
       else if tag = COMPACT_FLOAT64 then read_number num reader_float64 st
       else if tag = COMPACT_STRING then
         bind_result (read_text voc False st) (\<lambda>(s, st).
           bind_result (spend (budget_string s) st) (\<lambda>st. Inr (JString s, st)))
       else if tag = COMPACT_ARRAY then
         bind_result (spend (budget_bytes 1) st) (\<lambda>st.
           bind_result (read_leaf (reader_varint MAX_NODES) st) (\<lambda>(count, st).
             bind_result (readCompactElements num voc (depth + 1) count [] st) (\<lambda>(xs, st).
               bind_result (spend (budget_bytes 1) st) (\<lambda>st. Inr (JArray xs, st)))))
       else if tag = COMPACT_OBJECT then
         bind_result (spend (budget_bytes 1) st) (\<lambda>st.
           bind_result (read_leaf (reader_varint MAX_NODES) st) (\<lambda>(count, st).
             bind_result (readCompactFields num voc (depth + 1) count [] st) (\<lambda>(kvs, st).
               bind_result (spend (budget_bytes 1) st) (\<lambda>st. Inr (JObject kvs, st)))))
       else Inl (TypeError ''Unknown compact value tag'')))"
| "readCompactElements num voc depth 0 xs st = Inr (xs, st)"
| "readCompactElements num voc depth (Suc n) xs st =
     bind_result (if xs \<noteq> [] then spend (budget_bytes 1) st else Inr st) (\<lambda>st.
       bind_result (readCompact num voc depth st) (\<lambda>(x, st).
         readCompactElements num voc depth n (xs @ [x]) st))"
| "readCompactFields num voc depth 0 kvs st = Inr (kvs, st)"
| "readCompactFields num voc depth (Suc n) kvs st =
     bind_result (if kvs \<noteq> [] then spend (budget_bytes 1) st else Inr st) (\<lambda>st.
       bind_result (read_text voc True st) (\<lambda>(key, st).
         bind_result (spend (budget_string key) st) (\<lambda>st.
           bind_result (spend (budget_bytes 1) st) (\<lambda>st.
             if js_has kvs key then Inl (TypeError ''Duplicate compact object key'')
             else bind_result (readCompact num voc depth st) (\<lambda>(x, st).
               readCompactFields num voc depth n (js_set key x kvs) st)))))"
  by pat_completeness auto
termination
  by (relation "measures
      [\<lambda>x. case x of
          Inl (num, voc, d, st) \<Rightarrow> 66 - d
        | Inr (Inl (num, voc, d, n, xs, st)) \<Rightarrow> 66 - d
        | Inr (Inr (num, voc, d, n, kvs, st)) \<Rightarrow> 66 - d,
       \<lambda>x. case x of
          Inl _ \<Rightarrow> 0
        | Inr (Inl (num, voc, d, n, xs, st)) \<Rightarrow> n
        | Inr (Inr (num, voc, d, n, kvs, st)) \<Rightarrow> n]")
    (auto simp: MAX_DEPTH_def dest!: visit_depth)

declare writeCompact.simps [simp del] readCompact.simps [simp del]

text \<open>
  \<open>parse\<close> is \<^verbatim>\<open>decodeJSON\<close> (\<open>None\<close> when it throws). The index of the turn is the number of elements
  read so far.
\<close>

definition encodeCompactValue ::
    "(f64 \<Rightarrow> jstring) \<Rightarrow> vocabulary \<Rightarrow> (bytes \<Rightarrow> json option) \<Rightarrow> bytes \<Rightarrow> bytes option" where
  "encodeCompactValue num voc parse payload =
     (if length payload > MAX_CANONICAL_BYTES then None
      else (case parse payload of
          None \<Rightarrow> None
        | Some v \<Rightarrow>
            (case encodeCanonicalJSON (json_bytes num) v of
               Inl _ \<Rightarrow> None
             | Inr canonical \<Rightarrow>
                 if canonical \<noteq> payload then None
                 else (case bind_result (writer_byte [] (word_of_nat COMPACT_VALUE_VERSION)) (\<lambda>output.
                              writeCompact voc output v 0 0 new_table) of
                         Inl _ \<Rightarrow> None
                       | Inr (output, _) \<Rightarrow> Some output))))"

definition decodeCompactValue :: "(f64 \<Rightarrow> jstring) \<Rightarrow> vocabulary \<Rightarrow> bytes \<Rightarrow> bytes result" where
  "decodeCompactValue num voc payload =
     (if length payload > MAX_COMPACT_BYTES then Inl (RangeError ''Compact value exceeds input bound'')
      else bind_result (reader_byte payload) (\<lambda>(version, raw).
        if version \<noteq> word_of_nat COMPACT_VALUE_VERSION then Inl (TypeError ''Unknown compact value version'')
        else bind_result
            (readCompact num voc 0 \<lparr>rs_raw = raw, rs_count = 0, rs_table = new_table, rs_budget = 0\<rparr>) (\<lambda>(v, st).
          if rs_raw st \<noteq> [] then Inl (TypeError ''Trailing compact value bytes'')
          else bind_result (encodeCanonicalJSON (json_bytes num) v) (\<lambda>canonical.
            if length canonical > MAX_CANONICAL_BYTES then Inl (RangeError ''Compact value exceeds 128 KiB'')
            else Inr canonical))))"

section \<open>Integers\<close>

lemma writer_byte_eq:
  "writer_byte out b = Inr out' \<longleftrightarrow> out' = out @ [b] \<and> length out' \<le> MAX_COMPACT_BYTES"
  by (auto simp: writer_byte_def)

lemma writer_bytes_eq:
  "writer_bytes out bs = Inr out' \<longleftrightarrow> out' = out @ bs \<and> length out' \<le> MAX_COMPACT_BYTES"
  by (auto simp: writer_bytes_def)

lemma writer_varint_loop_eq:
  "writer_varint_loop out n = Inr out' \<longleftrightarrow> out' = out @ varint_loop n \<and> length out' \<le> MAX_COMPACT_BYTES"
proof (induction n arbitrary: out rule: less_induct)
  case (less n)
  show ?case
  proof (cases "n < 128")
    case True
    then show ?thesis
      by (subst writer_varint_loop.simps) (auto simp: varint_loop_small bind_result_eq_Inr writer_byte_eq)
  next
    case False
    then show ?thesis
      using less[of "n div 128"]
      by (subst writer_varint_loop.simps)
        (auto simp: varint_loop_large or_128 div_greater_zero_iff Let_def bind_result_eq_Inr writer_byte_eq)
  qed
qed

lemma writer_varint_eq:
  "writer_varint out n = Inr out' \<longleftrightarrow>
     n \<le> max_safe_integer \<and> out' = out @ varint_loop n \<and> length out' \<le> MAX_COMPACT_BYTES"
  by (auto simp: writer_varint_def is_safe_int_iff writer_varint_loop_eq)

lemma chunk_in_range: "acc + d * 128 ^ index \<le> max_safe_integer \<Longrightarrow> d \<le> (max_safe_integer - acc) div 128 ^ index"
  by (simp add: less_eq_div_iff_mult_less_eq)

lemma reader_varint_loop_enc:
  assumes "n < 128 ^ (8 - index)" "index < 8" "index = 0 \<or> 0 < n"
    and "acc + n * 128 ^ index \<le> max_safe_integer" "acc + n * 128 ^ index \<le> maximum"
  shows "reader_varint_loop maximum index acc (varint_loop n @ rest) = Inr (acc + n * 128 ^ index, rest)"
  using assms
proof (induction n arbitrary: index acc rule: less_induct)
  case (less n)
  show ?case
  proof (cases "n < 128")
    case True
    with less.prems chunk_in_range[OF less.prems(4)] show ?thesis
      by (subst reader_varint_loop.simps) (auto simp: varint_loop_small wire_simps)
  next
    case False
    let ?v = "acc + (n mod 128) * 128 ^ index"
    note split = digit_split[of acc n index]
    have "reader_varint_loop maximum (index + 1) ?v (varint_loop (n div 128) @ rest) =
        Inr (?v + (n div 128) * 128 ^ (index + 1), rest)"
    proof (rule less.IH)
      show "n div 128 < n" "index + 1 = 0 \<or> 0 < n div 128" using False by (auto simp: div_greater_zero_iff)
      show "?v + n div 128 * 128 ^ (index + 1) \<le> max_safe_integer"
        "?v + n div 128 * 128 ^ (index + 1) \<le> maximum"
        using less.prems(4,5) by (simp_all only: split[symmetric])
    qed (fact digit_step[OF less.prems(1,2) False])+
    moreover have "n mod 128 \<le> (max_safe_integer - acc) div 128 ^ index"
      by (rule chunk_in_range) (use less.prems(4) split in simp)
    moreover have "(n mod 128 + 128) mod 128 = n mod 128" by simp
    ultimately show ?thesis
      using False less.prems(2)
      by (subst reader_varint_loop.simps)
        (simp add: varint_loop_large wire_simps split mult.commute del: of_nat_add)
  qed
qed

lemma reader_varint_enc:
  assumes "n \<le> maximum" "n \<le> max_safe_integer"
  shows "reader_varint maximum (varint_loop n @ rest) = Inr (n, rest)"
  using assms reader_varint_loop_enc[of n 0 0 maximum rest] max_safe_lt[of n] by (simp add: reader_varint_def)

interpretation compact_varint: framed_codec varint_loop "reader_varint maximum"
  "\<lambda>n. n \<le> maximum \<and> n \<le> max_safe_integer" for maximum
  by unfold_locales (simp add: reader_varint_enc)

section \<open>UUIDs\<close>

lemma hex_nat_digit: "lower_hex c \<Longrightarrow> hex_nat c < 16 \<and> hex_digit (hex_nat c) = c"
  by (auto simp: lower_hex_def hex_nat_def hex_digit_def word_unat_eq_iff wire_simps)

lemma byte_hex_pair:
  assumes "lower_hex a" "lower_hex b"
  shows "byte_hex (word_of_nat (16 * hex_nat a + hex_nat b)) = [a, b]"
proof -
  have d: "hex_nat a < 16" "hex_nat b < 16" using assms hex_nat_digit by auto
  then have "unat (word_of_nat (16 * hex_nat a + hex_nat b) :: byte) = 16 * hex_nat a + hex_nat b"
    by (intro unat_byte_of_nat) simp
  then show ?thesis using d assms hex_nat_digit by (simp add: byte_hex_def del: of_nat_add of_nat_mult)
qed

lemma hex_pairs_text:
  "list_all lower_hex s \<Longrightarrow> even (length s) \<Longrightarrow>
     concat (map byte_hex (parse_hex_pairs s)) = s \<and> 2 * length (parse_hex_pairs s) = length s"
  by (induction s rule: parse_hex_pairs.induct) (auto simp: byte_hex_pair simp del: of_nat_add of_nat_mult)

lemma hex_no_dash: "list_all lower_hex s \<Longrightarrow> filter (\<lambda>c. c \<noteq> 0x2d) s = s"
  by (induction s) (auto simp: lower_hex_def)

lemma cut_at:
  assumes "n < length s"
  shows "s = take n s @ [s ! n] @ drop (Suc n) s"
  using assms by (simp add: id_take_nth_drop)

text \<open>A UUID text is five groups with dashes between them.\<close>

lemma is_uuid_groups:
  assumes "is_uuid s"
  obtains a b c d e where "s = a @ [0x2d] @ b @ [0x2d] @ c @ [0x2d] @ d @ [0x2d] @ e"
    "length a = 8" "length b = 4" "length c = 4" "length d = 4" "length e = 12" "list_all lower_hex (a @ b @ c @ d @ e)"
proof -
  have u: "length s = 36" "s ! 8 = 0x2d" "s ! 13 = 0x2d" "s ! 18 = 0x2d" "s ! 23 = 0x2d"
    using assms by (auto simp: is_uuid_def)
  have "s = take 8 s @ [s ! 8] @ drop 9 s" using cut_at[of 8 s] u by simp
  also have "drop 9 s = take 4 (drop 9 s) @ [s ! 13] @ drop 14 s" using cut_at[of 4 "drop 9 s"] u by simp
  also have "drop 14 s = take 4 (drop 14 s) @ [s ! 18] @ drop 19 s" using cut_at[of 4 "drop 14 s"] u by simp
  also have "drop 19 s = take 4 (drop 19 s) @ [s ! 23] @ drop 24 s" using cut_at[of 4 "drop 19 s"] u by simp
  finally have "s = take 8 s @ [0x2d] @ take 4 (drop 9 s) @ [0x2d] @ take 4 (drop 14 s) @ [0x2d] @ take 4 (drop 19 s) @ [0x2d] @ drop 24 s"
    unfolding u .
  then show ?thesis by (rule that) (use assms in \<open>auto simp: is_uuid_def\<close>)
qed

lemma uuid_restored:
  assumes "packUUID s = Some bs"
  shows "length bs = 16" "uuidString bs = s"
proof -
  have "is_uuid s" and bs: "bs = parse_hex_pairs (filter (\<lambda>c. c \<noteq> 0x2d) s)"
    using assms by (auto simp: packUUID_def split: if_splits)
  from this(1) obtain a b c d e where g: "s = a @ [0x2d] @ b @ [0x2d] @ c @ [0x2d] @ d @ [0x2d] @ e"
    "length a = 8" "length b = 4" "length c = 4" "length d = 4" "length e = 12" and hex: "list_all lower_hex (a @ b @ c @ d @ e)"
    by (rule is_uuid_groups)
  have "filter (\<lambda>c. c \<noteq> 0x2d) s = a @ b @ c @ d @ e"
    using hex by (simp add: g(1) hex_no_dash)
  with bs hex_pairs_text[OF hex] g(2-6) show "length bs = 16" "uuidString bs = s"
    by (simp_all add: uuidString_def g(1))
qed

section \<open>The text table\<close>

definition table_ok :: "text_table \<Rightarrow> bool" where
  "table_ok t \<longleftrightarrow> length (table_values t) \<le> MAX_TABLE_ENTRIES \<and>
     (\<forall>v i. table_index t v = Some i \<longrightarrow> i < length (table_values t) \<and> table_values t ! i = v)"

lemma table_ok_new [simp]: "table_ok new_table"
  by (simp add: table_ok_def new_table_def table_index_def)

lemma table_ok_index:
  "table_ok t \<Longrightarrow> table_index t v = Some i \<Longrightarrow>
     i < length (table_values t) \<and> table_values t ! i = v \<and> i < MAX_TABLE_ENTRIES"
  by (metis table_ok_def order_less_le_trans)

lemma table_ok_add [simp]: "table_ok t \<Longrightarrow> table_ok (table_add v t)"
  by (auto simp: table_ok_def table_add_def table_index_def nth_append js_lookup split: if_splits
      dest: less_SucI)

section \<open>Texts\<close>

lemma reader_bytes_append: "reader_bytes (length bs) (bs @ rest) = Inr (bs, rest)"
  by (simp add: reader_bytes_def)

lemma write_read_text:
  assumes "writeText voc out v key t = Inr (out', t')" "table_ok t"
  shows "\<exists>bs. out' = out @ bs \<and> length out' \<le> MAX_COMPACT_BYTES \<and> table_ok t' \<and>
    (\<forall>rest. readText voc (bs @ rest) key t = Inr (v, rest, t'))"
proof (cases "table_index t v")
  case (Some i)
  then have i: "i < length (table_values t)" "table_values t ! i = v" "i < MAX_TABLE_ENTRIES"
    using table_ok_index[OF assms(2)] by auto
  let ?token = "length (text_vocabulary voc key) + 1 + i"
  have w: "?token \<le> max_safe_integer" "out' = out @ varint_loop ?token" "length out' \<le> MAX_COMPACT_BYTES" "t' = t"
    using assms(1) Some by (auto simp: writeText_def bind_result_eq_Inr writer_varint_eq)
  have "?token < uuidToken voc key" using i(3) by (simp add: uuidToken_def)
  then have "readText voc (varint_loop ?token @ rest) key t = Inr (v, rest, t)" for rest
    using w(1) i by (simp add: readText_def reader_varint_enc table_value_def Let_def del: add_Suc_right add_Suc)
  with w assms(2) show ?thesis by blast
next
  case None
  note no_reference = None
  show ?thesis
  proof (cases "dictionary_index (text_vocabulary voc key) v")
    case (Some d)
    note d = dictionary_index_SomeD[OF Some]
    have w: "d + 1 \<le> max_safe_integer" "out' = out @ varint_loop (d + 1)" "length out' \<le> MAX_COMPACT_BYTES" "t' = table_add v t"
      using assms(1) None Some by (auto simp: writeText_def bind_result_eq_Inr writer_varint_eq)
    have "d + 1 \<le> uuidToken voc key" using d by (simp add: uuidToken_def)
    then have "readText voc (varint_loop (d + 1) @ rest) key t = Inr (v, rest, table_add v t)" for rest
      using w(1) d by (simp add: readText_def reader_varint_enc Let_def)
    with w assms(2) show ?thesis by auto
  next
    case None
    show ?thesis
    proof (cases "packUUID v")
      case (Some uuid)
      let ?token = "uuidToken voc key"
      note u = uuid_restored[OF Some]
      have w: "?token \<le> max_safe_integer" "out' = out @ varint_loop ?token @ uuid" "length out' \<le> MAX_COMPACT_BYTES" "t' = table_add v t"
        using assms(1) no_reference None Some by (auto simp: writeText_def bind_result_eq_Inr writer_varint_eq writer_bytes_eq)
      have "readText voc (varint_loop ?token @ uuid @ rest) key t = Inr (v, rest, table_add v t)" for rest
        using w(1) u reader_bytes_append[of uuid rest]
        by (simp add: readText_def reader_varint_enc Let_def) (simp add: uuidToken_def)
      with w assms(2) show ?thesis by auto
    next
      case none: None
      let ?e = "encodeBinaryUtf8 v"
      have w: "length ?e \<le> MAX_STRING_BYTES" "out' = out @ varint_loop 0 @ varint_loop (length ?e) @ ?e"
        "length out' \<le> MAX_COMPACT_BYTES" "t' = table_add v t" "length ?e \<le> max_safe_integer"
        using assms(1) no_reference None none
        by (auto simp: writeText_def bind_result_eq_Inr writer_varint_eq writer_bytes_eq Let_def split: if_splits)
      have "readText voc (varint_loop 0 @ varint_loop (length ?e) @ ?e @ rest) key t = Inr (v, rest, table_add v t)" for rest
        using w(1,5) by (simp add: readText_def reader_varint_enc reader_bytes_append decode_encode_utf8)
      with w assms(2) show ?thesis by auto
    qed
  qed
qed

section \<open>The length of the canonical text\<close>

definition starts_ok :: "jstring \<Rightarrow> bool" where
  "starts_ok s \<longleftrightarrow> (case s of [] \<Rightarrow> True | c # _ \<Rightarrow> \<not> is_low c)"

lemma surrogate_words:
  "0xd800 \<le> c \<and> c \<le> 0xdbff \<longleftrightarrow> is_high c" "0xdc00 \<le> c \<and> c \<le> 0xdfff \<longleftrightarrow> is_low c"
  "0xd800 \<le> c \<and> c \<le> 0xdfff \<longleftrightarrow> is_high c \<or> is_low c"
  by (auto simp: is_high_def is_low_def word_le_nat_alt)

lemma wellFormed_step:
  "toWellFormed (c # d # s) = (if is_high c \<and> is_low d then c # d # toWellFormed s
     else (if is_high c \<or> is_low c then 0xfffd else c) # toWellFormed (d # s))"
  "toWellFormed [c] = [if is_high c \<or> is_low c then 0xfffd else c]"
  by (simp_all add: surrogate_words flip: conj_assoc)

declare toWellFormed.simps(1,2) [simp del] wellFormed_step [simp]

lemma high_not_low: "is_high c \<Longrightarrow> \<not> is_low c"
  by (simp add: is_high_def is_low_def)

lemma wellFormed_starts: "starts_ok s \<Longrightarrow> starts_ok (toWellFormed s)"
  by (cases s rule: toWellFormed.cases) (auto simp: starts_ok_def is_low_def high_not_low)

lemma wellFormed_append: "starts_ok b \<Longrightarrow> toWellFormed (a @ b) = toWellFormed a @ toWellFormed b"
proof (induction a rule: encodeBinaryUtf8.induct)
  case (2 c)
  then show ?case by (cases b) (auto simp: starts_ok_def)
qed auto

lemma utf8_append: "starts_ok b \<Longrightarrow> encodeBinaryUtf8 (a @ b) = encodeBinaryUtf8 a @ encodeBinaryUtf8 b"
proof (induction a rule: encodeBinaryUtf8.induct)
  case (2 c)
  then show ?case by (cases b) (auto simp: starts_ok_def)
qed auto

lemma textEncode_append: "starts_ok b \<Longrightarrow> textEncode (a @ b) = textEncode a @ textEncode b"
  by (simp add: textEncode_def wellFormed_append utf8_append wellFormed_starts)

lemma textEncode_Cons: "\<not> is_low d \<Longrightarrow> textEncode (c # d # s) = textEncode [c] @ textEncode (d # s)"
  using textEncode_append[of "d # s" "[c]"] by (simp add: starts_ok_def)

lemma textEncode_Nil [simp]: "textEncode [] = []"
  by (simp add: textEncode_def)

lemma length_code_point: "length (code_point_bytes n) = utf8Bytes n"
  by (simp add: code_point_bytes_def utf8Bytes_def)

lemma length_textEncode_unit: "\<not> is_high c \<Longrightarrow> \<not> is_low c \<Longrightarrow> length (textEncode [c]) = utf8Bytes (unat c)"
  by (simp add: textEncode_def length_code_point)

text \<open>Texts whose units are all below 128.\<close>

definition ascii :: "jstring \<Rightarrow> bool" where
  "ascii s \<longleftrightarrow> (\<forall>c \<in> set s. unat c < 128)"

lemma ascii_starts: "ascii s \<Longrightarrow> starts_ok s"
  by (cases s) (auto simp: ascii_def starts_ok_def is_low_def)

lemma length_textEncode_ascii: "ascii s \<Longrightarrow> length (textEncode s) = length s"
proof (induction s)
  case (Cons c s)
  then have "unat c < 128" "ascii s" by (auto simp: ascii_def)
  then show ?case
    using Cons.IH textEncode_append[OF ascii_starts, of s "[c]"]
    by (simp add: length_textEncode_unit is_high_def is_low_def utf8Bytes_def)
qed simp

lemma ascii_hex: "n < 16 \<Longrightarrow> unat (hex_digit n) < 128"
  by (simp add: hex_digit_def wire_simps)

lemma ascii_escape: "ascii (unit_escape c)"
proof -
  have "unat c div 4096 < 16" using jschar_lt[of c] by (simp add: less_mult_imp_div_less)
  then show ?thesis by (simp add: ascii_def unit_escape_def Let_def ascii_hex)
qed

lemma quote_unit_length: "length (textEncode (quote_unit c)) = unit_bytes c"
proof (cases "c < 0x20 \<or> is_high c \<or> is_low c \<or> c = 0x22 \<or> c = 0x5c")
  case True
  then have "ascii (quote_unit c)"
    by (auto simp: quote_unit_def ascii_escape) (simp_all add: ascii_def is_high_def is_low_def)
  moreover have "length (quote_unit c) = unit_bytes c"
    using True by (auto simp: quote_unit_def unit_bytes_def unit_escape_def Let_def word_less_nat_alt is_high_def is_low_def)
  ultimately show ?thesis by (simp add: length_textEncode_ascii)
next
  case False
  moreover have "c \<noteq> 8 \<and> c \<noteq> 9 \<and> c \<noteq> 10 \<and> c \<noteq> 12 \<and> c \<noteq> 13" using False by auto
  ultimately show ?thesis
    by (simp add: quote_unit_def unit_bytes_def length_textEncode_unit word_less_nat_alt)
qed

lemma quote_units_starts: "starts_ok (quote_units s)"
  by (cases s rule: quote_units.cases)
    (auto simp: starts_ok_def quote_unit_def unit_escape_def Let_def is_low_def is_high_def split: if_splits)

lemma quote_units_length: "length (textEncode (quote_units s)) = string_units_bytes s"
proof (induction s rule: quote_units.induct)
  case (3 c d cs)
  show ?case
  proof (cases "is_high c \<and> is_low d")
    case True
    then have "textEncode (c # d # quote_units cs) = code_point_bytes (pair_code_point c d) @ textEncode (quote_units cs)"
      by (simp add: textEncode_def)
    moreover have "pair_code_point c d = 0x10000 + push_bit 10 (unat c - 0xd800) + (unat d - 0xdc00)"
      using True by (simp add: pair_code_point_def is_low_def)
    ultimately show ?thesis using True 3 by (simp add: length_code_point)
  next
    case False
    then have "quote_units (c # d # cs) = quote_unit c @ quote_units (d # cs)"
      "string_units_bytes (c # d # cs) = unit_bytes c + string_units_bytes (d # cs)" by auto
    with 3(2)[OF False] show ?thesis
      by (simp only: textEncode_append quote_units_starts quote_unit_length length_append)
  qed
qed (simp_all add: quote_unit_length)

lemma quote_string_length: "length (textEncode (quote_string s)) = canonicalJSONStringBytes s"
proof -
  have a: "ascii [0x22]" "starts_ok [0x22]" by (simp_all add: ascii_def starts_ok_def is_low_def)
  have "starts_ok (quote_units s @ [0x22])"
    using quote_units_starts[of s] a(2) by (cases "quote_units s") (auto simp: starts_ok_def)
  then show ?thesis
    using a by (simp only: quote_string_def textEncode_append length_append length_textEncode_ascii quote_units_length
        canonicalJSONStringBytes_def) simp
qed

text \<open>The number of bytes of the canonical text, as the decoder adds it up.\<close>

fun canonical_length :: "(f64 \<Rightarrow> jstring) \<Rightarrow> json \<Rightarrow> nat" where
  "canonical_length num JNull = 4"
| "canonical_length num (JBool b) = (if b then 4 else 5)"
| "canonical_length num (JNumber x) = length (num x)"
| "canonical_length num (JString s) = canonicalJSONStringBytes s"
| "canonical_length num (JArray xs) = 2 + sum_list (map (canonical_length num) xs) + (length xs - 1)"
| "canonical_length num (JObject kvs) =
     2 + sum_list (map (\<lambda>(key, child). canonicalJSONStringBytes key + 1 + canonical_length num child) kvs) +
     (length kvs - 1)"

definition numbers_ascii :: "(f64 \<Rightarrow> jstring) \<Rightarrow> bool" where
  "numbers_ascii num \<longleftrightarrow> (\<forall>x. ascii (num x))"

lemma starts_ok_simps [simp]: "starts_ok []" "starts_ok (c # s) \<longleftrightarrow> \<not> is_low c"
  by (simp_all add: starts_ok_def)

lemma not_low_ascii [simp]: "\<not> is_low 0x22" "\<not> is_low 0x2c" "\<not> is_low 0x5b" "\<not> is_low 0x5d" "\<not> is_low 0x7b" "\<not> is_low 0x7d" "\<not> is_low 0x3a"
  by (simp_all add: is_low_def)

lemma starts_ok_append: "starts_ok a \<Longrightarrow> starts_ok b \<Longrightarrow> starts_ok (a @ b)"
  by (cases a) auto

lemma js_lit_ascii: "ascii (js_lit ''null'')" "ascii (js_lit ''true'')" "ascii (js_lit ''false'')"
  by (simp_all add: ascii_def js_lit_def)

lemma length_js_lit: "length (js_lit s) = length s"
  by (simp add: js_lit_def)

lemma stringify_starts: "numbers_ascii num \<Longrightarrow> starts_ok (stringify num v)"
  by (cases v) (auto simp: numbers_ascii_def ascii_starts js_lit_ascii quote_string_def)

lemma join_comma_starts: "\<forall>t \<in> set ts. starts_ok t \<Longrightarrow> starts_ok (join_comma ts)"
  by (induction ts rule: join_comma.induct) (auto intro: starts_ok_append)

lemma join_comma_length:
  "\<forall>t \<in> set ts. starts_ok t \<Longrightarrow>
     length (textEncode (join_comma ts)) = sum_list (map (\<lambda>t. length (textEncode t)) ts) + (length ts - 1)"
proof (induction ts rule: join_comma.induct)
  case (3 x y ts)
  have a: "ascii [0x2c]" by (simp add: ascii_def)
  have s: "starts_ok (join_comma (y # ts))" by (rule join_comma_starts) (use 3 in auto)
  then have "starts_ok ([0x2c] @ join_comma (y # ts))" by simp
  with 3 s show ?case
    by (simp only: join_comma.simps(3) textEncode_append length_append length_textEncode_ascii[OF a]) simp
qed simp_all

text \<open>The order in which the engine lists the keys does not change the length.\<close>

lemma sum_insort: "sum_list (map f (insort_key g x xs)) = f x + (sum_list (map f xs) :: nat)"
  by (induction xs) simp_all

lemma sum_sort: "sum_list (map f (sort_key g xs)) = (sum_list (map f xs) :: nat)"
  by (induction xs) (simp_all add: sum_insort)

lemma sum_partition:
  "sum_list (map f (filter P xs)) + sum_list (map f (filter (\<lambda>x. \<not> P x) xs)) = (sum_list (map f xs) :: nat)"
  by (induction xs) simp_all

lemma sum_own_keys: "sum_list (map f (own_keys kvs)) = (sum_list (map f kvs) :: nat)"
  using sum_partition[of f "\<lambda>kv. array_index (fst kv) \<noteq> None" kvs] by (simp add: own_keys_def sum_sort)

lemma length_own_keys: "length (own_keys kvs) = length kvs"
  using sum_own_keys[of "\<lambda>_. 1" kvs] by (simp add: sum_list_triv)

lemma bracketed_length:
  assumes "starts_ok body" "unat a < 128" "unat b < 128"
  shows "length (textEncode ([a] @ body @ [b])) = 2 + length (textEncode body)"
proof -
  have "ascii [a]" "ascii [b]" "starts_ok [b]" using assms by (auto simp: ascii_def is_low_def)
  with assms(1) show ?thesis
    by (simp only: textEncode_append starts_ok_append length_append length_textEncode_ascii) simp
qed

lemma stringify_length:
  assumes "numbers_ascii num"
  shows "length (textEncode (stringify num v)) = canonical_length num v"
proof (induction v)
  case (JArray xs)
  have "starts_ok (join_comma (map (stringify num) xs))"
    by (rule join_comma_starts) (simp add: stringify_starts[OF assms])
  with JArray show ?case
    by (simp add: bracketed_length[simplified] join_comma_length stringify_starts[OF assms] comp_def cong: map_cong)
next
  case (JObject kvs)
  let ?texts = "map (\<lambda>(key, child). (key, stringify num child)) kvs"
  let ?f = "\<lambda>(key, text). quote_string key @ [0x3a] @ text"
  have s: "\<forall>t \<in> set (map ?f (own_keys ?texts)). starts_ok t" by (auto simp: quote_string_def)
  have "sum_list (map (\<lambda>t. length (textEncode t)) (map ?f (own_keys ?texts))) = sum_list (map (\<lambda>t. length (textEncode t)) (map ?f ?texts))"
    unfolding map_map[of _ ?f] by (rule sum_own_keys)
  also have "\<dots> = sum_list (map (\<lambda>(key, child). canonicalJSONStringBytes key + 1 + canonical_length num child) kvs)"
  proof -
    have "length (textEncode (?f (key, stringify num child))) = canonicalJSONStringBytes key + 1 + canonical_length num child"
      if "(key, child) \<in> set kvs" for key child
    proof -
      have "ascii [0x3a]" by (simp add: ascii_def)
      moreover have "starts_ok ([0x3a] @ stringify num child)" by simp
      moreover have "length (textEncode (stringify num child)) = canonical_length num child"
        using JObject.IH[OF that] by simp
      ultimately show ?thesis using stringify_starts[OF assms, of child]
        by (simp only: prod.case textEncode_append length_append quote_string_length length_textEncode_ascii) simp
    qed
    then show ?thesis by (intro arg_cong[where f = sum_list]) (auto simp: comp_def)
  qed
  finally have "length (textEncode (join_comma (map ?f (own_keys ?texts)))) =
      sum_list (map (\<lambda>(key, child). canonicalJSONStringBytes key + 1 + canonical_length num child) kvs) + (length kvs - 1)"
    unfolding join_comma_length[OF s] by (simp add: length_own_keys)
  then show ?case using join_comma_starts[OF s] by (simp add: bracketed_length[simplified])
qed (use assms in \<open>auto simp: length_textEncode_ascii js_lit_ascii quote_string_length numbers_ascii_def length_js_lit\<close>)

section \<open>Values\<close>

text \<open>The encoder writes the negative zero as the integer zero, which has the same text.\<close>

definition neg_zero :: f64 where "neg_zero = 0x8000000000000000"

definition zero_unsigned :: "(f64 \<Rightarrow> jstring) \<Rightarrow> bool" where
  "zero_unsigned num \<longleftrightarrow> num neg_zero = num 0"

definition plain_number :: "f64 \<Rightarrow> f64" where
  "plain_number x = (if x = neg_zero then 0 else x)"

fun plain_json :: "json \<Rightarrow> json" where
  "plain_json (JNumber x) = JNumber (plain_number x)"
| "plain_json (JArray xs) = JArray (map plain_json xs)"
| "plain_json (JObject kvs) = JObject (map (\<lambda>(key, child). (key, plain_json child)) kvs)"
| "plain_json v = v"

lemma plain_number_text: "zero_unsigned num \<Longrightarrow> num (plain_number x) = num x"
  by (simp add: zero_unsigned_def plain_number_def)

lemma f64_int_zero:
  assumes "f64_int x = Some 0"
  shows "plain_number x = 0"
proof -
  have e: "f64_exponent x = 0" "f64_mantissa x = 0"
    using assms by (auto simp: f64_int_def Let_def f64_bit_fields split: if_splits)
  have "x = make_f64 (f64_sign x) 0 0" using make_f64_fields[of x] e by simp
  moreover have "f64_sign x = 0 \<or> f64_sign x = 1" using f64_fields_bounds(1)[of x] by auto
  ultimately have "x = make_f64 0 0 0 \<or> x = make_f64 1 0 0" by metis
  then show ?thesis by (auto simp: plain_number_def neg_zero_def make_f64_def)
qed

lemma f64_int_neg_zero: "f64_int neg_zero = Some 0"
proof -
  have "unat neg_zero = 2 ^ 63" by (simp add: neg_zero_def)
  then have "f64_exponent neg_zero = 0" "f64_mantissa neg_zero = 0"
    by (simp_all add: f64_exponent_def f64_mantissa_def)
  then show ?thesis by (simp add: f64_int_def Let_def f64_bit_fields)
qed

lemma f64_of_int_plain:
  assumes "f64_int x = Some i" "is_safe_integer i"
  shows "f64_of_int i = plain_number x"
proof (cases "i = 0")
  case True
  then show ?thesis using f64_int_zero[of x] assms(1) by (simp add: f64_of_int_def)
next
  case False
  then have "x \<noteq> neg_zero" using assms(1) f64_int_neg_zero by auto
  then show ?thesis using f64_of_int_restores[OF assms False] by (simp add: plain_number_def)
qed

lemma le_value_32: "word_of_nat (le_value (le_bytes 4 (unat y))) = (y :: f32)"
  using unsigned_less[of y, where 'a = nat] by (simp add: le_value_le_bytes)

lemma le_value_64: "word_of_nat (le_value (le_bytes 8 (unat x))) = (x :: f64)"
  using double_roundtrip[of x] by (simp add: readDoubleLE_def writeDoubleLE_def)

text \<open>A written number has a tag, and the reader of that tag restores it.\<close>

lemma safe_int_nat: "is_safe_integer i \<Longrightarrow> 0 \<le> i \<Longrightarrow> nat i \<le> max_safe_integer"
  "is_safe_integer i \<Longrightarrow> i < 0 \<Longrightarrow> nat (- i) \<le> max_safe_integer"
  by (simp_all add: is_safe_integer_def nat_le_iff)

definition number_reader :: "byte \<Rightarrow> (bytes \<Rightarrow> (f64 \<times> bytes) result) \<Rightarrow> bool" where
  "number_reader tag f \<longleftrightarrow> tag = COMPACT_INTEGER_POSITIVE \<and> f = reader_positive \<or>
     tag = COMPACT_INTEGER_NEGATIVE \<and> f = reader_negative \<or> tag = COMPACT_FLOAT32 \<and> f = reader_float32 \<or>
     tag = COMPACT_FLOAT64 \<and> f = reader_float64"

lemma write_read_number:
  assumes "writeNumber out x = Inr out'"
  shows "is_finite x \<and> length out' \<le> MAX_COMPACT_BYTES \<and>
    (\<exists>tag f bs. out' = out @ tag # bs \<and> number_reader tag f \<and>
       (\<forall>rest. f (bs @ rest) = Inr (plain_number x, rest)))"
proof -
  have fin: "is_finite x" using assms by (auto simp: writeNumber_def split: if_splits)
  show ?thesis
  proof (cases "safe_integer (Some (JNumber x))")
    case (Some i)
    then have i: "f64_int x = Some i" "is_safe_integer i" by (auto split: option.splits if_splits)
    note restored = f64_of_int_plain[OF i] safe_int_nat[OF i(2)]
    show ?thesis
    proof (cases "i < 0")
      case True
      then have w: "out' = out @ COMPACT_INTEGER_NEGATIVE # varint_loop (nat (- i))" "length out' \<le> MAX_COMPACT_BYTES"
        using assms fin Some by (auto simp: writeNumber_def bind_result_eq_Inr writer_byte_eq writer_varint_eq)
      have "reader_negative (varint_loop (nat (- i)) @ rest) = Inr (plain_number x, rest)" for rest
        using True restored by (simp add: reader_negative_def reader_varint_enc)
      with w fin show ?thesis unfolding number_reader_def by blast
    next
      case False
      then have w: "out' = out @ COMPACT_INTEGER_POSITIVE # varint_loop (nat i)" "length out' \<le> MAX_COMPACT_BYTES"
        using assms fin Some by (auto simp: writeNumber_def bind_result_eq_Inr writer_byte_eq writer_varint_eq)
      have "reader_positive (varint_loop (nat i) @ rest) = Inr (plain_number x, rest)" for rest
        using False restored by (simp add: reader_positive_def reader_varint_enc)
      with w fin show ?thesis unfolding number_reader_def by blast
    qed
  next
    case None
    have p: "plain_number x = x"
      using None f64_int_neg_zero by (auto simp: plain_number_def is_safe_integer_def)
    show ?thesis
    proof (cases "f32_of_f64 x")
      case (Some y)
      then have w: "out' = out @ COMPACT_FLOAT32 # le_bytes 4 (unat y)" "length out' \<le> MAX_COMPACT_BYTES"
        using assms fin None by (auto simp: writeNumber_def bind_result_eq_Inr writer_byte_eq writer_float32_def writer_bytes_eq)
      have "reader_float32 (le_bytes 4 (unat y) @ rest) = Inr (plain_number x, rest)" for rest
        using fin f64_of_f32_restores[OF Some] reader_bytes_append[of "le_bytes 4 (unat y)" rest]
        by (simp add: reader_float32_def le_value_32 p)
      with w fin show ?thesis unfolding number_reader_def by blast
    next
      case none: None
      then have w: "out' = out @ COMPACT_FLOAT64 # le_bytes 8 (unat x)" "length out' \<le> MAX_COMPACT_BYTES"
        using assms fin None by (auto simp: writeNumber_def bind_result_eq_Inr writer_byte_eq writer_float64_def writer_bytes_eq)
      have "reader_float64 (le_bytes 8 (unat x) @ rest) = Inr (plain_number x, rest)" for rest
        using fin reader_bytes_append[of "le_bytes 8 (unat x)" rest] by (simp add: reader_float64_def le_value_64 p)
      with w fin show ?thesis unfolding number_reader_def by blast
    qed
  qed
qed

text \<open>One node read: the state after its tag, and what the tag selects.\<close>

definition compact_ok :: "nat \<Rightarrow> nat \<Rightarrow> bool" where
  "compact_ok d c \<longleftrightarrow> d \<le> MAX_DEPTH \<and> c + 1 \<le> MAX_NODES"

abbreviation reading :: "bytes \<Rightarrow> nat \<Rightarrow> text_table \<Rightarrow> nat \<Rightarrow> read_state" where
  "reading raw c t b \<equiv> \<lparr>rs_raw = raw, rs_count = c, rs_table = t, rs_budget = b\<rparr>"

lemma visit_reading: "compact_ok d c \<Longrightarrow> visit d (reading raw c t b) = Inr (reading raw (c + 1) t b)"
  by (simp add: visit_def compact_ok_def)

lemma spend_reading:
  "b + n \<le> MAX_CANONICAL_BYTES \<Longrightarrow> spend (budget_bytes n) (reading raw c t b) = Inr (reading raw c t (b + n))"
  by (simp add: spend_def budget_bytes_def)

lemma read_leaf_reading:
  "f raw = Inr (x, raw') \<Longrightarrow> read_leaf f (reading raw c t b) = Inr (x, reading raw' c t b)"
  by (simp add: read_leaf_def)

lemma read_text_reading:
  "readText voc raw key t = Inr (v, raw', t') \<Longrightarrow>
     read_text voc key (reading raw c t b) = Inr (v, reading raw' c t' b)"
  by (simp add: read_text_def)

lemma read_tag_byte: "read_leaf reader_byte (reading (tag # raw) c t b) = Inr (tag, reading raw c t b)"
  by (rule read_leaf_reading) simp

lemma readCompact_tag:
  assumes "compact_ok d c"
  shows "readCompact num voc d (reading (COMPACT_NULL # raw) c t b) =
      bind_result (spend (budget_bytes 4) (reading raw (c + 1) t b)) (\<lambda>st. Inr (JNull, st))" (is ?null)
    and "readCompact num voc d (reading ((if x then COMPACT_TRUE else COMPACT_FALSE) # raw) c t b) =
      bind_result (spend (budget_bytes (if x then 4 else 5)) (reading raw (c + 1) t b)) (\<lambda>st. Inr (JBool x, st))" (is ?bool)
    and "number_reader tag f \<Longrightarrow>
      readCompact num voc d (reading (tag # raw) c t b) = read_number num f (reading raw (c + 1) t b)" (is "_ \<Longrightarrow> ?number")
    and "readCompact num voc d (reading (COMPACT_STRING # raw) c t b) =
      bind_result (read_text voc False (reading raw (c + 1) t b)) (\<lambda>(s, st).
        bind_result (spend (budget_string s) st) (\<lambda>st. Inr (JString s, st)))" (is ?string)
    and "readCompact num voc d (reading (COMPACT_ARRAY # raw) c t b) =
      bind_result (spend (budget_bytes 1) (reading raw (c + 1) t b)) (\<lambda>st.
        bind_result (read_leaf (reader_varint MAX_NODES) st) (\<lambda>(count, st).
          bind_result (readCompactElements num voc (d + 1) count [] st) (\<lambda>(xs, st).
            bind_result (spend (budget_bytes 1) st) (\<lambda>st. Inr (JArray xs, st)))))" (is ?array)
    and "readCompact num voc d (reading (COMPACT_OBJECT # raw) c t b) =
      bind_result (spend (budget_bytes 1) (reading raw (c + 1) t b)) (\<lambda>st.
        bind_result (read_leaf (reader_varint MAX_NODES) st) (\<lambda>(count, st).
          bind_result (readCompactFields num voc (d + 1) count [] st) (\<lambda>(kvs, st).
            bind_result (spend (budget_bytes 1) st) (\<lambda>st. Inr (JObject kvs, st)))))" (is ?object)
proof -
  note unfold_node = readCompact.simps[of num voc d] visit_reading[OF assms] bind_result_simps read_tag_byte prod.case
  show ?null unfolding unfold_node by (simp add: compact_tags)
  show ?bool unfolding unfold_node by (cases x) (simp_all add: compact_tags)
  show ?number if "number_reader tag f" using that unfolding unfold_node number_reader_def by (elim disjE conjE) (simp_all add: compact_tags)
  show ?string unfolding unfold_node by (simp add: compact_tags)
  show ?array unfolding unfold_node by (simp add: compact_tags)
  show ?object unfolding unfold_node by (simp add: compact_tags)
qed

text \<open>What it means that a written value is restored, at any place of the message.\<close>

definition restores :: "(f64 \<Rightarrow> jstring) \<Rightarrow> vocabulary \<Rightarrow> json \<Rightarrow> bool" where
  "restores num voc v \<longleftrightarrow> (\<forall>out d c t out' c' t'. writeCompact voc out v d c t = Inr (out', c', t') \<longrightarrow> table_ok t \<longrightarrow>
     c < c' \<and> c' \<le> MAX_NODES \<and> table_ok t' \<and> length out' \<le> MAX_COMPACT_BYTES \<and>
     (\<exists>s bs. sortJSON v = Inr s \<and> out' = out @ bs \<and>
        (\<forall>rest b. b + canonical_length num s \<le> MAX_CANONICAL_BYTES \<longrightarrow>
           readCompact num voc d (reading (bs @ rest) c t b) =
             Inr (plain_json s, reading rest c' t' (b + canonical_length num s)))))"

lemma restoresD:
  assumes "restores num voc v" "writeCompact voc out v d c t = Inr (out', c', t')" "table_ok t"
  obtains s bs where "c < c'" "c' \<le> MAX_NODES" "table_ok t'" "length out' \<le> MAX_COMPACT_BYTES" "sortJSON v = Inr s" "out' = out @ bs"
    "\<And>rest b. b + canonical_length num s \<le> MAX_CANONICAL_BYTES \<Longrightarrow>
       readCompact num voc d (reading (bs @ rest) c t b) = Inr (plain_json s, reading rest c' t' (b + canonical_length num s))"
  using assms unfolding restores_def by metis

abbreviation commas :: "'a list \<Rightarrow> nat \<Rightarrow> nat" where
  "commas acc n \<equiv> (if acc = [] then n - 1 else n)"

text \<open>The loops restore their elements when each element is restored.\<close>

lemma elements_restored:
  assumes "\<forall>x \<in> set xs. restores num voc x" "writeCompactElements voc out xs d c t = Inr (out', c', t')" "table_ok t"
    "c \<le> MAX_NODES" "length out \<le> MAX_COMPACT_BYTES"
  shows "c + length xs \<le> c' \<and> c' \<le> MAX_NODES \<and> table_ok t' \<and> length out' \<le> MAX_COMPACT_BYTES \<and>
    (\<exists>ys bs. sortJSON_list xs = Inr ys \<and> out' = out @ bs \<and> length ys = length xs \<and>
      (\<forall>acc rest b. b + sum_list (map (canonical_length num) ys) + commas acc (length xs) \<le> MAX_CANONICAL_BYTES \<longrightarrow>
         readCompactElements num voc d (length xs) acc (reading (bs @ rest) c t b) =
           Inr (acc @ map plain_json ys,
             reading rest c' t' (b + sum_list (map (canonical_length num) ys) + commas acc (length xs)))))"
  using assms
proof (induction xs arbitrary: out c t)
  case (Cons x xs)
  from Cons.prems(2) obtain out1 c1 t1 where w: "writeCompact voc out x d c t = Inr (out1, c1, t1)"
    "writeCompactElements voc out1 xs d c1 t1 = Inr (out', c', t')"
    by (auto simp: bind_result_eq_Inr)
  have "restores num voc x" using Cons.prems(1) by simp
  from restoresD[OF this w(1) Cons.prems(3)] obtain y bs1 where x: "c < c1" "c1 \<le> MAX_NODES" "table_ok t1" "length out1 \<le> MAX_COMPACT_BYTES"
    "sortJSON x = Inr y" "out1 = out @ bs1"
    and read1: "\<And>rest b. b + canonical_length num y \<le> MAX_CANONICAL_BYTES \<Longrightarrow>
       readCompact num voc d (reading (bs1 @ rest) c t b) = Inr (plain_json y, reading rest c1 t1 (b + canonical_length num y))"
    by metis
  have "\<forall>x \<in> set xs. restores num voc x" using Cons.prems(1) by simp
  from Cons.IH[OF this w(2) x(3,2,4)] obtain ys bs2 where xs: "c1 + length xs \<le> c'" "c' \<le> MAX_NODES" "table_ok t'"
    "length out' \<le> MAX_COMPACT_BYTES" "sortJSON_list xs = Inr ys" "out' = out1 @ bs2" "length ys = length xs"
    and read2: "\<And>acc rest b. b + sum_list (map (canonical_length num) ys) + commas acc (length xs) \<le> MAX_CANONICAL_BYTES \<Longrightarrow>
         readCompactElements num voc d (length xs) acc (reading (bs2 @ rest) c1 t1 b) =
           Inr (acc @ map plain_json ys,
             reading rest c' t' (b + sum_list (map (canonical_length num) ys) + commas acc (length xs)))"
    by metis
  have "readCompactElements num voc d (length (x # xs)) acc (reading ((bs1 @ bs2) @ rest) c t b) =
      Inr (acc @ map plain_json (y # ys),
        reading rest c' t' (b + sum_list (map (canonical_length num) (y # ys)) + commas acc (length (x # xs))))"
    if fits: "b + sum_list (map (canonical_length num) (y # ys)) + commas acc (length (x # xs)) \<le> MAX_CANONICAL_BYTES" for acc rest b
  proof -
    let ?b = "b + (if acc = [] then 0 else 1)"
    have "(if acc \<noteq> [] then spend (budget_bytes 1) (reading (bs1 @ bs2 @ rest) c t b) else Inr (reading (bs1 @ bs2 @ rest) c t b)) =
        Inr (reading (bs1 @ bs2 @ rest) c t ?b)"
      using fits by (auto simp: spend_reading split: if_splits)
    moreover have "readCompact num voc d (reading (bs1 @ bs2 @ rest) c t ?b) =
        Inr (plain_json y, reading (bs2 @ rest) c1 t1 (?b + canonical_length num y))"
      by (rule read1) (use fits in \<open>auto split: if_splits\<close>)
    moreover have "readCompactElements num voc d (length xs) (acc @ [plain_json y]) (reading (bs2 @ rest) c1 t1 (?b + canonical_length num y)) =
        Inr ((acc @ [plain_json y]) @ map plain_json ys, reading rest c' t'
          (?b + canonical_length num y + sum_list (map (canonical_length num) ys) + commas (acc @ [plain_json y]) (length xs)))"
      by (rule read2) (use fits in \<open>auto split: if_splits\<close>)
    ultimately show ?thesis by (simp add: ac_simps)
  qed
  note read = this
  show ?case
  proof (intro conjI exI[of _ "y # ys"] exI[of _ "bs1 @ bs2"] allI impI)
    show "c + length (x # xs) \<le> c'" using x(1) xs(1) by simp
    show "sortJSON_list (x # xs) = Inr (y # ys)" using x(5) xs(5) by simp
  qed (use x xs read in \<open>simp_all del: readCompactElements.simps\<close>)
qed auto

lemma fields_restored:
  assumes "\<forall>kv \<in> set kvs. restores num voc (snd kv)" "writeCompactFields voc out kvs d c t = Inr (out', c', t')" "table_ok t"
    "c \<le> MAX_NODES" "length out \<le> MAX_COMPACT_BYTES"
  shows "c + length kvs \<le> c' \<and> c' \<le> MAX_NODES \<and> table_ok t' \<and> length out' \<le> MAX_COMPACT_BYTES \<and>
    (\<exists>kvs' bs. sortJSON_fields kvs = Inr kvs' \<and> out' = out @ bs \<and> length kvs' = length kvs \<and>
      (\<forall>acc rest b. distinct (map fst (acc @ kvs)) \<longrightarrow>
         b + sum_list (map (\<lambda>(key, child). canonicalJSONStringBytes key + 1 + canonical_length num child) kvs') +
           commas acc (length kvs) \<le> MAX_CANONICAL_BYTES \<longrightarrow>
         readCompactFields num voc d (length kvs) acc (reading (bs @ rest) c t b) =
           Inr (acc @ map (\<lambda>(key, child). (key, plain_json child)) kvs',
             reading rest c' t'
              (b + sum_list (map (\<lambda>(key, child). canonicalJSONStringBytes key + 1 + canonical_length num child) kvs') +
               commas acc (length kvs)))))"
  using assms
proof (induction kvs arbitrary: out c t)
  case (Cons kv kvs)
  obtain k x where kv: "kv = (k, x)" by (cases kv)
  let ?len = "\<lambda>(key, child). canonicalJSONStringBytes key + 1 + canonical_length num child"
  let ?plain = "\<lambda>(key, child). (key, plain_json child)"
  from Cons.prems(2) obtain out0 t0 out1 c1 t1 where w: "writeText voc out k True t = Inr (out0, t0)"
    "writeCompact voc out0 x d c t0 = Inr (out1, c1, t1)" "writeCompactFields voc out1 kvs d c1 t1 = Inr (out', c', t')"
    by (auto simp: bind_result_eq_Inr kv)
  from write_read_text[OF w(1) Cons.prems(3)] obtain bs0 where k: "out0 = out @ bs0" "table_ok t0"
    and read0: "\<And>rest. readText voc (bs0 @ rest) True t = Inr (k, rest, t0)" by blast
  have "restores num voc x" using Cons.prems(1) by (simp add: kv)
  from restoresD[OF this w(2) k(2)] obtain y bs1 where x: "c < c1" "c1 \<le> MAX_NODES" "table_ok t1" "length out1 \<le> MAX_COMPACT_BYTES"
    "sortJSON x = Inr y" "out1 = out0 @ bs1"
    and read1: "\<And>rest b. b + canonical_length num y \<le> MAX_CANONICAL_BYTES \<Longrightarrow>
       readCompact num voc d (reading (bs1 @ rest) c t0 b) = Inr (plain_json y, reading rest c1 t1 (b + canonical_length num y))"
    by metis
  have "\<forall>kv \<in> set kvs. restores num voc (snd kv)" using Cons.prems(1) by simp
  from Cons.IH[OF this w(3) x(3,2,4)] obtain kvs' bs2 where xs: "c1 + length kvs \<le> c'" "c' \<le> MAX_NODES" "table_ok t'"
    "length out' \<le> MAX_COMPACT_BYTES" "sortJSON_fields kvs = Inr kvs'" "out' = out1 @ bs2" "length kvs' = length kvs"
    and read2: "\<And>acc rest b. distinct (map fst (acc @ kvs)) \<Longrightarrow>
         b + sum_list (map ?len kvs') + commas acc (length kvs) \<le> MAX_CANONICAL_BYTES \<Longrightarrow>
         readCompactFields num voc d (length kvs) acc (reading (bs2 @ rest) c1 t1 b) =
           Inr (acc @ map ?plain kvs', reading rest c' t' (b + sum_list (map ?len kvs') + commas acc (length kvs)))"
    by metis
  have "readCompactFields num voc d (length (kv # kvs)) acc (reading ((bs0 @ bs1 @ bs2) @ rest) c t b) =
      Inr (acc @ map ?plain ((k, y) # kvs'),
        reading rest c' t' (b + sum_list (map ?len ((k, y) # kvs')) + commas acc (length (kv # kvs))))"
    if keys: "distinct (map fst (acc @ kv # kvs))"
      and fits: "b + sum_list (map ?len ((k, y) # kvs')) + commas acc (length (kv # kvs)) \<le> MAX_CANONICAL_BYTES" for acc rest b
  proof -
    let ?b = "b + (if acc = [] then 0 else 1)" and ?raw = "bs0 @ bs1 @ bs2 @ rest"
    let ?b1 = "?b + canonicalJSONStringBytes k" and ?acc = "acc @ [(k, plain_json y)]"
    have new: "k \<notin> fst ` set acc" using keys by (auto simp: kv)
    then have upd: "js_set k (plain_json y) acc = ?acc" "\<not> js_has acc k" by (simp_all add: js_set_new js_has_iff)
    have "(if acc \<noteq> [] then spend (budget_bytes 1) (reading ?raw c t b) else Inr (reading ?raw c t b)) = Inr (reading ?raw c t ?b)"
      using fits by (auto simp: spend_reading split: if_splits)
    moreover have "read_text voc True (reading ?raw c t ?b) = Inr (k, reading (bs1 @ bs2 @ rest) c t0 ?b)"
      by (rule read_text_reading) (rule read0)
    moreover have "spend (budget_string k) (reading (bs1 @ bs2 @ rest) c t0 ?b) = Inr (reading (bs1 @ bs2 @ rest) c t0 ?b1)"
      unfolding budget_string_def[abs_def] by (rule spend_reading) (use fits in \<open>auto split: if_splits\<close>)
    moreover have "spend (budget_bytes 1) (reading (bs1 @ bs2 @ rest) c t0 ?b1) = Inr (reading (bs1 @ bs2 @ rest) c t0 (?b1 + 1))"
      by (rule spend_reading) (use fits in \<open>auto split: if_splits\<close>)
    moreover have "readCompact num voc d (reading (bs1 @ bs2 @ rest) c t0 (?b1 + 1)) =
        Inr (plain_json y, reading (bs2 @ rest) c1 t1 (?b1 + 1 + canonical_length num y))"
      by (rule read1) (use fits in \<open>auto split: if_splits\<close>)
    moreover have "readCompactFields num voc d (length kvs) ?acc (reading (bs2 @ rest) c1 t1 (?b1 + 1 + canonical_length num y)) =
        Inr (?acc @ map ?plain kvs', reading rest c' t'
          (?b1 + 1 + canonical_length num y + sum_list (map ?len kvs') + commas ?acc (length kvs)))"
      by (rule read2) (use fits keys in \<open>auto simp: kv split: if_splits\<close>)
    ultimately show ?thesis using upd by (simp add: kv ac_simps)
  qed
  note read = this
  show ?case
  proof (intro conjI exI[of _ "(k, y) # kvs'"] exI[of _ "bs0 @ bs1 @ bs2"] allI impI)
    show "c + length (kv # kvs) \<le> c'" using x(1) xs(1) by simp
    show "sortJSON_fields (kv # kvs) = Inr ((k, y) # kvs')" using x(5) xs(5) by (simp add: kv)
  qed (use k x xs read in \<open>simp_all del: readCompactFields.simps\<close>)
qed auto

lemma sortJSON_list_length: "sortJSON_list xs = Inr ys \<Longrightarrow> length ys = length xs"
  by (induction xs arbitrary: ys) (auto simp: bind_result_eq_Inr)

lemma writeCompact_node:
  "writeCompact voc out v d c t = Inr r \<Longrightarrow> compact_ok d c"
  by (subst (asm) writeCompact.simps) (simp add: compact_ok_def split: if_splits)

lemma writeCompact_ok:
  "compact_ok d c \<Longrightarrow> writeCompact voc out v d c t =
     (case v of
          JNull \<Rightarrow> bind_result (writer_byte out COMPACT_NULL) (\<lambda>output. Inr (output, c + 1, t))
        | JBool b \<Rightarrow>
            bind_result (writer_byte out (if b then COMPACT_TRUE else COMPACT_FALSE)) (\<lambda>output. Inr (output, c + 1, t))
        | JNumber x \<Rightarrow> bind_result (writeNumber out x) (\<lambda>output. Inr (output, c + 1, t))
        | JString s \<Rightarrow>
            bind_result (writer_byte out COMPACT_STRING) (\<lambda>output.
              bind_result (writeText voc output s False t) (\<lambda>(output, table). Inr (output, c + 1, table)))
        | JArray xs \<Rightarrow>
            bind_result (writer_byte out COMPACT_ARRAY) (\<lambda>output.
              bind_result (writer_varint output (length xs)) (\<lambda>output.
                writeCompactElements voc output xs (d + 1) (c + 1) t))
        | JObject kvs \<Rightarrow>
            bind_result (writer_byte out COMPACT_OBJECT) (\<lambda>output.
              bind_result (writer_varint output (length kvs)) (\<lambda>output.
                writeCompactFields voc output (sort_key fst kvs) (d + 1) (c + 1) t)))"
  by (subst writeCompact.simps) (simp add: compact_ok_def)

lemma array_restored:
  assumes "\<forall>x \<in> set xs. restores num voc x"
  shows "restores num voc (JArray xs)"
  unfolding restores_def
proof (intro allI impI)
  fix out d c t out' c' t'
  assume w: "writeCompact voc out (JArray xs) d c t = Inr (out', c', t')" and t: "table_ok t"
  note ok = writeCompact_node[OF w]
  let ?out = "(out @ [COMPACT_ARRAY]) @ varint_loop (length xs)"
  have n: "length xs \<le> max_safe_integer" "length ?out \<le> MAX_COMPACT_BYTES"
    and body: "writeCompactElements voc ?out xs (d + 1) (c + 1) t = Inr (out', c', t')"
    using w unfolding writeCompact_ok[OF ok] by (auto simp: bind_result_eq_Inr writer_byte_eq writer_varint_eq)
  have c: "c + 1 \<le> MAX_NODES" using ok by (simp add: compact_ok_def)
  from elements_restored[OF assms body t c n(2)] obtain ys bs where e: "c + 1 + length xs \<le> c'" "c' \<le> MAX_NODES" "table_ok t'"
    "length out' \<le> MAX_COMPACT_BYTES" "sortJSON_list xs = Inr ys" "out' = ?out @ bs" "length ys = length xs"
    and read: "\<And>acc rest b. b + sum_list (map (canonical_length num) ys) + commas acc (length xs) \<le> MAX_CANONICAL_BYTES \<Longrightarrow>
         readCompactElements num voc (d + 1) (length xs) acc (reading (bs @ rest) (c + 1) t b) =
           Inr (acc @ map plain_json ys, reading rest c' t' (b + sum_list (map (canonical_length num) ys) + commas acc (length xs)))"
    by metis
  have "readCompact num voc d (reading ((COMPACT_ARRAY # varint_loop (length xs) @ bs) @ rest) c t b) =
      Inr (plain_json (JArray ys), reading rest c' t' (b + canonical_length num (JArray ys)))"
    if fits: "b + canonical_length num (JArray ys) \<le> MAX_CANONICAL_BYTES" for rest b
  proof -
    have "length xs \<le> MAX_NODES" using e(1,2) by simp
    then have "read_leaf (reader_varint MAX_NODES) (reading (varint_loop (length xs) @ bs @ rest) (c + 1) t (b + 1)) =
        Inr (length xs, reading (bs @ rest) (c + 1) t (b + 1))"
      using n(1) by (intro read_leaf_reading reader_varint_enc)
    moreover have "readCompactElements num voc (d + 1) (length xs) [] (reading (bs @ rest) (c + 1) t (b + 1)) =
        Inr (map plain_json ys, reading rest c' t' (b + 1 + sum_list (map (canonical_length num) ys) + (length xs - 1)))"
      using read[of "b + 1" "[]" rest] fits e(7) by simp
    ultimately show ?thesis
      using fits e(7) by (simp add: readCompact_tag(5)[OF ok] spend_reading ac_simps del: readCompactElements.simps)
  qed
  then show "c < c' \<and> c' \<le> MAX_NODES \<and> table_ok t' \<and> length out' \<le> MAX_COMPACT_BYTES \<and>
     (\<exists>s bs. sortJSON (JArray xs) = Inr s \<and> out' = out @ bs \<and>
        (\<forall>rest b. b + canonical_length num s \<le> MAX_CANONICAL_BYTES \<longrightarrow>
           readCompact num voc d (reading (bs @ rest) c t b) =
             Inr (plain_json s, reading rest c' t' (b + canonical_length num s))))"
    using e by (intro conjI exI[of _ "JArray ys"] exI[of _ "COMPACT_ARRAY # varint_loop (length xs) @ bs"]) auto
qed

lemma object_restored:
  assumes "\<forall>kv \<in> set kvs. restores num voc (snd kv)" "distinct (map fst kvs)"
  shows "restores num voc (JObject kvs)"
  unfolding restores_def
proof (intro allI impI)
  fix out d c t out' c' t'
  assume w: "writeCompact voc out (JObject kvs) d c t = Inr (out', c', t')" and t: "table_ok t"
  note ok = writeCompact_node[OF w]
  let ?kvs = "sort_key fst kvs"
  let ?out = "(out @ [COMPACT_OBJECT]) @ varint_loop (length kvs)"
  let ?len = "\<lambda>(key, child). canonicalJSONStringBytes key + 1 + canonical_length num child"
  let ?plain = "\<lambda>(key, child). (key, plain_json child)"
  have n: "length kvs \<le> max_safe_integer" "length ?out \<le> MAX_COMPACT_BYTES"
    and body: "writeCompactFields voc ?out ?kvs (d + 1) (c + 1) t = Inr (out', c', t')"
    using w unfolding writeCompact_ok[OF ok] by (auto simp: bind_result_eq_Inr writer_byte_eq writer_varint_eq)
  have c: "c + 1 \<le> MAX_NODES" using ok by (simp add: compact_ok_def)
  have "\<forall>kv \<in> set ?kvs. restores num voc (snd kv)" using assms(1) by simp
  from fields_restored[OF this body t c n(2)] obtain kvs' bs where e: "c + 1 + length kvs \<le> c'" "c' \<le> MAX_NODES" "table_ok t'"
    "length out' \<le> MAX_COMPACT_BYTES" "sortJSON_fields ?kvs = Inr kvs'" "out' = ?out @ bs" "length kvs' = length kvs"
    and read: "\<And>acc rest b. distinct (map fst (acc @ ?kvs)) \<Longrightarrow> b + sum_list (map ?len kvs') + commas acc (length kvs) \<le> MAX_CANONICAL_BYTES \<Longrightarrow>
         readCompactFields num voc (d + 1) (length kvs) acc (reading (bs @ rest) (c + 1) t b) =
           Inr (acc @ map ?plain kvs', reading rest c' t' (b + sum_list (map ?len kvs') + commas acc (length kvs)))"
    unfolding length_sort by metis
  have keys: "distinct (map fst ([] @ ?kvs))" using assms(2) by (simp add: distinct_map)
  have "readCompact num voc d (reading ((COMPACT_OBJECT # varint_loop (length kvs) @ bs) @ rest) c t b) =
      Inr (plain_json (JObject kvs'), reading rest c' t' (b + canonical_length num (JObject kvs')))"
    if fits: "b + canonical_length num (JObject kvs') \<le> MAX_CANONICAL_BYTES" for rest b
  proof -
    have "length kvs \<le> MAX_NODES" using e(1,2) by simp
    then have "read_leaf (reader_varint MAX_NODES) (reading (varint_loop (length kvs) @ bs @ rest) (c + 1) t (b + 1)) =
        Inr (length kvs, reading (bs @ rest) (c + 1) t (b + 1))"
      using n(1) by (intro read_leaf_reading reader_varint_enc)
    moreover have "readCompactFields num voc (d + 1) (length kvs) [] (reading (bs @ rest) (c + 1) t (b + 1)) =
        Inr (map ?plain kvs', reading rest c' t' (b + 1 + sum_list (map ?len kvs') + (length kvs - 1)))"
      using read[OF keys, of "b + 1" rest] fits e(7) by simp
    ultimately show ?thesis
      using fits e(7) by (simp add: readCompact_tag(6)[OF ok] spend_reading ac_simps del: readCompactFields.simps)
  qed
  then show "c < c' \<and> c' \<le> MAX_NODES \<and> table_ok t' \<and> length out' \<le> MAX_COMPACT_BYTES \<and>
     (\<exists>s bs. sortJSON (JObject kvs) = Inr s \<and> out' = out @ bs \<and>
        (\<forall>rest b. b + canonical_length num s \<le> MAX_CANONICAL_BYTES \<longrightarrow>
           readCompact num voc d (reading (bs @ rest) c t b) =
             Inr (plain_json s, reading rest c' t' (b + canonical_length num s))))"
    using e by (intro conjI exI[of _ "JObject kvs'"] exI[of _ "COMPACT_OBJECT # varint_loop (length kvs) @ bs"]) auto
qed

lemma scalar_restored:
  assumes "zero_unsigned num" "\<And>xs. v \<noteq> JArray xs" "\<And>kvs. v \<noteq> JObject kvs"
  shows "restores num voc v"
  unfolding restores_def
proof (intro allI impI)
  fix out d c t out' c' t'
  assume w: "writeCompact voc out v d c t = Inr (out', c', t')" and t: "table_ok t"
  note ok = writeCompact_node[OF w]
  have "c' = c + 1 \<and> table_ok t' \<and> length out' \<le> MAX_COMPACT_BYTES \<and> (\<exists>bs. sortJSON v = Inr v \<and> out' = out @ bs \<and>
        (\<forall>rest b. b + canonical_length num v \<le> MAX_CANONICAL_BYTES \<longrightarrow>
           readCompact num voc d (reading (bs @ rest) c t b) =
             Inr (plain_json v, reading rest (c + 1) t' (b + canonical_length num v))))"
  proof (cases v)
    case (JNumber x)
    from w obtain n: "writeNumber out x = Inr out'" "c' = c + 1" "t' = t"
      unfolding writeCompact_ok[OF ok] JNumber by (auto simp: bind_result_eq_Inr)
    from write_read_number[OF n(1)] obtain tag f bs where b: "is_finite x" "length out' \<le> MAX_COMPACT_BYTES" "out' = out @ tag # bs"
      "number_reader tag f" "\<And>rest. f (bs @ rest) = Inr (plain_number x, rest)" by blast
    have "readCompact num voc d (reading ((tag # bs) @ rest) c t b) =
        Inr (plain_json v, reading rest (c + 1) t (b + canonical_length num v))"
      if "b + canonical_length num v \<le> MAX_CANONICAL_BYTES" for rest b
      using that plain_number_text[OF assms(1), of x] read_leaf_reading[of f "bs @ rest", OF b(5)]
      by (simp add: readCompact_tag(3)[OF ok b(4)] read_number_def budget_number_def[abs_def] spend_reading JNumber)
    with b n t show ?thesis by (auto simp: JNumber intro!: exI[of _ "tag # bs"])
  next
    case (JString s)
    from w obtain out0 where s: "writeText voc (out @ [COMPACT_STRING]) s False t = Inr (out', t')" "c' = c + 1"
      unfolding writeCompact_ok[OF ok] JString by (auto simp: bind_result_eq_Inr writer_byte_eq)
    from write_read_text[OF s(1) t] obtain bs where b: "out' = (out @ [COMPACT_STRING]) @ bs" "length out' \<le> MAX_COMPACT_BYTES"
      "table_ok t'" "\<And>rest. readText voc (bs @ rest) False t = Inr (s, rest, t')" by blast
    have "readCompact num voc d (reading ((COMPACT_STRING # bs) @ rest) c t b) =
        Inr (plain_json v, reading rest (c + 1) t' (b + canonical_length num v))"
      if "b + canonical_length num v \<le> MAX_CANONICAL_BYTES" for rest b
      using that
      by (simp add: readCompact_tag(4)[OF ok] read_text_reading[OF b(4)] budget_string_def[abs_def] spend_reading JString)
    with b s show ?thesis by (auto simp: JString intro!: exI[of _ "COMPACT_STRING # bs"])
  next
    case JNull
    with w t show ?thesis unfolding writeCompact_ok[OF ok]
      by (auto simp: bind_result_eq_Inr writer_byte_eq readCompact_tag(1)[OF ok] spend_reading)
  next
    case (JBool x)
    with w t show ?thesis unfolding writeCompact_ok[OF ok]
      using readCompact_tag(2)[OF ok, of num voc x] by (cases x) (auto simp: bind_result_eq_Inr writer_byte_eq spend_reading)
  qed (use assms in auto)
  then show "c < c' \<and> c' \<le> MAX_NODES \<and> table_ok t' \<and> length out' \<le> MAX_COMPACT_BYTES \<and>
     (\<exists>s bs. sortJSON v = Inr s \<and> out' = out @ bs \<and>
        (\<forall>rest b. b + canonical_length num s \<le> MAX_CANONICAL_BYTES \<longrightarrow>
           readCompact num voc d (reading (bs @ rest) c t b) =
             Inr (plain_json s, reading rest c' t' (b + canonical_length num s))))"
    using ok by (auto simp: compact_ok_def)
qed

lemma all_restored: "zero_unsigned num \<Longrightarrow> wf_json v \<Longrightarrow> restores num voc v"
proof (induction v)
  case (JArray xs)
  then show ?case by (intro array_restored) auto
next
  case (JObject kvs)
  have "restores num voc (snd kv)" if "kv \<in> set kvs" for kv
    using JObject.IH[of kv "snd kv"] JObject.prems that by (cases kv) auto
  then show ?case using JObject.prems by (intro object_restored) auto
qed (auto intro: scalar_restored)

section \<open>Payloads\<close>

lemma plain_text: "zero_unsigned num \<Longrightarrow> stringify num (plain_json v) = stringify num v"
proof (induction v)
  case (JObject kvs)
  have "map (\<lambda>(key, child). (key, stringify num child)) (map (\<lambda>(key, child). (key, plain_json child)) kvs) =
      map (\<lambda>(key, child). (key, stringify num child)) kvs"
    using JObject by (auto simp: comp_def intro!: map_cong)
  then show ?case by (simp only: plain_json.simps stringify.simps)
qed (auto simp: plain_number_text comp_def cong: map_cong)

lemma plain_sorted:
  "sortJSON s = Inr s \<Longrightarrow> sortJSON (plain_json s) = Inr (plain_json s)"
  "sortJSON_list xs = Inr xs \<Longrightarrow> sortJSON_list (map plain_json xs) = Inr (map plain_json xs)"
  "sortJSON_fields kvs = Inr kvs \<Longrightarrow>
     sortJSON_fields (map (\<lambda>(key, child). (key, plain_json child)) kvs) = Inr (map (\<lambda>(key, child). (key, plain_json child)) kvs)"
proof (induction s and xs and kvs rule: sortJSON_sortJSON_list_sortJSON_fields.induct)
  case (5 x)
  then show ?case by (auto simp: plain_number_def is_finite_def split: if_splits)
next
  case (6 kvs)
  then have k: "sortJSON_fields (sort_key fst kvs) = Inr kvs" by (auto simp: bind_result_eq_Inr)
  let ?plain = "\<lambda>(key, child). (key, plain_json child)"
  have "map fst kvs = map fst (sort_key fst kvs)" using sortJSON_fields_keys[OF k] .
  then have sorted: "sorted (map fst kvs)" by simp
  then have s: "sort_key fst kvs = kvs" by (rule sort_key_id_if_sorted)
  have "map fst (map ?plain kvs) = map fst kvs" by auto
  then have "sort_key fst (map ?plain kvs) = map ?plain kvs" using sorted by (intro sort_key_id_if_sorted) (simp only:)
  then show ?case using 6 k unfolding s by simp
qed (auto simp: bind_result_eq_Inr)

lemma decode_encode_compact:
  assumes enc: "encodeCompactValue num voc parse payload = Some bs"
    and wf: "\<And>v. parse payload = Some v \<Longrightarrow> wf_json v"
    and num: "numbers_ascii num" "zero_unsigned num"
  shows "decodeCompactValue num voc bs = Inr payload"
proof -
  from enc obtain v out c t where small: "length payload \<le> MAX_CANONICAL_BYTES" and v: "parse payload = Some v"
    "encodeCanonicalJSON (json_bytes num) v = Inr payload"
    and w: "writer_byte [] (word_of_nat COMPACT_VALUE_VERSION) = Inr out" "writeCompact voc out v 0 0 new_table = Inr (bs, c, t)"
    by (auto simp: encodeCompactValue_def bind_result_eq_Inr split: option.splits sum.splits if_splits)
  from restoresD[OF all_restored[OF num(2) wf[OF v(1)], of voc] w(2) table_ok_new]
  obtain s body where s: "sortJSON v = Inr s" "bs = out @ body" "length bs \<le> MAX_COMPACT_BYTES"
    and read: "\<And>rest b. b + canonical_length num s \<le> MAX_CANONICAL_BYTES \<Longrightarrow>
       readCompact num voc 0 (reading (body @ rest) 0 new_table b) = Inr (plain_json s, reading rest c t (b + canonical_length num s))"
    by metis
  have canon: "json_bytes num s = payload" using v(2) s(1) by (simp add: encodeCanonicalJSON_def)
  then have "0 + canonical_length num s \<le> MAX_CANONICAL_BYTES"
    using small stringify_length[OF num(1), of s] by (simp add: json_bytes_def)
  from read[OF this, of "[]"] have "readCompact num voc 0 (reading body 0 new_table 0) =
      Inr (plain_json s, reading [] c t (canonical_length num s))" by simp
  moreover have "encodeCanonicalJSON (json_bytes num) (plain_json s) = Inr payload"
    using canon plain_sorted(1)[OF sortJSON_idem_aux(1)[OF s(1)]]
    by (simp add: encodeCanonicalJSON_def json_bytes_def plain_text[OF num(2)])
  moreover have "bs = word_of_nat COMPACT_VALUE_VERSION # body" using w(1) s(2) by (simp add: writer_byte_eq)
  ultimately show ?thesis using s(3) small by (simp add: decodeCompactValue_def)
qed

text \<open>C37: a canonical JSON payload that compact-value-v1 can encode is restored byte for byte: integers, floats in
  single or double precision, texts that refer to the vocabulary, to a UUID or to an earlier text of the message are
  read back, and the decoder's running budget, which is the length of the canonical text, refuses none of them.
  (\<open>num\<close> is the engine's number formatting: it writes ASCII and does not distinguish the two zeros.)\<close>

theorem compact_value_roundtrip:
  assumes "encodeCompactValue num voc parse payload = Some bs"
    and "\<And>v. parse payload = Some v \<Longrightarrow> wf_json v"
    and "numbers_ascii num" "zero_unsigned num"
  shows "decodeCompactValue num voc bs = Inr payload"
  using assms by (rule decode_encode_compact)

theorem compact_value_roundtrip_witness:
  "encodeCompactValue (\<lambda>_. [55]) \<lparr>FRAME_BINARY_KEYS = [], FRAME_BINARY_STRINGS = []\<rparr>
     (\<lambda>_. Some (JArray [JString [97, 98], JString [97, 98], JNumber 0x401c000000000000]))
     [91, 34, 97, 98, 34, 44, 34, 97, 98, 34, 44, 55, 93] = Some [1, 8, 3, 7, 0, 2, 97, 98, 7, 1, 3, 7] \<and>
   decodeCompactValue (\<lambda>_. [55]) \<lparr>FRAME_BINARY_KEYS = [], FRAME_BINARY_STRINGS = []\<rparr>
     [1, 8, 3, 7, 0, 2, 97, 98, 7, 1, 3, 7] = Inr [91, 34, 97, 98, 34, 44, 34, 97, 98, 34, 44, 55, 93]"
proof -
  let ?voc = "\<lparr>FRAME_BINARY_KEYS = [], FRAME_BINARY_STRINGS = []\<rparr> :: vocabulary"
  let ?v = "JArray [JString [97, 98], JString [97, 98], JNumber 0x401c000000000000]"
  have seven: "f64_int 0x401c000000000000 = Some 7" "is_finite 0x401c000000000000"
    by (simp_all add: f64_int_def Let_def is_finite_def drop_bit_eq_div take_bit_eq_mod)
  have loop: "varint_loop 0 = [0]" "varint_loop 1 = [1]" "varint_loop 2 = [2]" "varint_loop 3 = [3]" "varint_loop 7 = [7]"
    by (simp_all add: varint_loop_small)
  have out: "length out < 90 \<Longrightarrow> writer_byte out b = Inr (out @ [b])"
      "length out < 90 \<Longrightarrow> n < 100 \<Longrightarrow> writer_varint out n = Inr (out @ varint_loop n)"
      "length out + length bs < 90 \<Longrightarrow> writer_bytes out bs = Inr (out @ bs)" for out b n bs
    using length_varint_loop[of n 1] by (simp_all add: writer_byte_eq writer_varint_eq writer_bytes_eq compact_limits)
  have ab: "encodeBinaryUtf8 [97, 98] = [97, 98]" "packUUID [97, 98] = None"
    by (simp_all add: code_point_bytes_def is_high_def packUUID_def is_uuid_def)
  have num: "writeNumber out 0x401c000000000000 = Inr (out @ [3, 7])" if "length out < 80" for out
    using that seven by (simp add: writeNumber_def is_safe_integer_def compact_limits compact_tags out loop)
  have "writeCompact ?voc [1] ?v 0 0 new_table = Inr ([1, 8, 3, 7, 0, 2, 97, 98, 7, 1, 3, 7], 4, table_add [97, 98] new_table)"
    by (simp add: writeCompact_ok compact_ok_def compact_limits compact_tags out writeText_def text_vocabulary_def
        dictionary_index_def table_index_def table_add_def new_table_def js_has_def ab num
        varint_loop_small is_high_def code_point_bytes_def)
  moreover have "encodeCanonicalJSON (json_bytes (\<lambda>_. [55])) ?v = Inr [91, 34, 97, 98, 34, 44, 34, 97, 98, 34, 44, 55, 93]"
    by (simp add: encodeCanonicalJSON_def seven json_bytes_def textEncode_def quote_string_def quote_unit_def is_high_def is_low_def
        code_point_bytes_def)
  ultimately have enc: "encodeCompactValue (\<lambda>_. [55]) ?voc (\<lambda>_. Some ?v)
      [91, 34, 97, 98, 34, 44, 34, 97, 98, 34, 44, 55, 93] = Some [1, 8, 3, 7, 0, 2, 97, 98, 7, 1, 3, 7]"
    by (simp add: encodeCompactValue_def compact_limits COMPACT_VALUE_VERSION_def out(1))
  show ?thesis
    using enc compact_value_roundtrip[OF enc] by (simp add: numbers_ascii_def ascii_def zero_unsigned_def)
qed

end
