(* ===== verification/Compression.thy ===== *)
theory Compression
  imports Compact_Value
begin

text \<open>
  Compression of whole messages: \<^verbatim>\<open>packages/meshtastic-link/src/compression-methods.ts\<close> (the nine modes of message-v2: three
  representations of the payload times three algorithms) and \<^verbatim>\<open>message-codec.ts\<close> (the message-v1 envelope). The algorithms of
  \<^verbatim>\<open>node:zlib\<close> are parameters (record \<open>codec_env\<close>), and so are \<^verbatim>\<open>JSON.parse\<close> and the text of a number; \<open>codec_laws\<close> says what is
  documented about them: what was compressed is restored, within the output limit, and the whole input is consumed.
  The theory shows that whichever mode the encoder picks, the decoder restores the message.
\<close>

section \<open>Definitions\<close>

text \<open>A decompressor takes the output limit and gives the output with the number of input bytes it consumed.\<close>

type_synonym decompressor = "nat \<Rightarrow> bytes \<Rightarrow> (bytes \<times> nat) result"

record codec_env =
  number_text :: "f64 \<Rightarrow> jstring"
  vocab :: vocabulary
  decode_json :: "bytes \<Rightarrow> json option"
  deflate :: "bytes \<Rightarrow> bytes"
  deflate9 :: "bytes \<Rightarrow> bytes"
  inflate :: decompressor
  brotli :: "bytes \<Rightarrow> bytes"
  unbrotli :: decompressor
  zstd :: "bytes \<Rightarrow> bytes"
  unzstd :: decompressor
  dictionary_digest :: bytes

definition MAX_MESSAGE_BYTES :: nat where "MAX_MESSAGE_BYTES = 128 * 1024"

abbreviation binary_payload :: "codec_env \<Rightarrow> bytes \<Rightarrow> bytes option" where
  "binary_payload env \<equiv> encodeBinaryPayload (vocab env) (decode_json env) (json_bytes (number_text env))"

abbreviation from_binary_payload :: "codec_env \<Rightarrow> bytes \<Rightarrow> nat \<Rightarrow> bytes result" where
  "from_binary_payload env \<equiv> decodeBinaryPayload (vocab env) (json_bytes (number_text env))"

subsection \<open>compression-methods.ts\<close>

text \<open>The complete body of one representation, compressed by the three algorithms.\<close>

definition mode_candidates :: "codec_env \<Rightarrow> bytes \<Rightarrow> nat \<Rightarrow> bytes option \<Rightarrow> (nat \<times> bytes) list" where
  "mode_candidates env header representation v =
     (case v of
        None \<Rightarrow> []
      | Some v \<Rightarrow>
          let body = (if header = [] then v else header @ v)
          in [(representation, deflate9 env body), (3 + representation, brotli env body), (6 + representation, zstd env body)])"

definition better :: "(nat \<times> bytes) option \<Rightarrow> nat \<times> bytes \<Rightarrow> (nat \<times> bytes) option" where
  "better best candidate =
     (case best of
        None \<Rightarrow> Some candidate
      | Some b \<Rightarrow> if length (snd candidate) < length (snd b) then Some candidate else Some b)"

definition compressValue :: "codec_env \<Rightarrow> bytes \<Rightarrow> bytes \<Rightarrow> (nat \<times> bytes) result" where
  "compressValue env payload header =
     (if length payload > MAX_MESSAGE_BYTES then Inl (RangeError ''Message payload exceeds 128 KiB'')
      else (case foldl better None
              (mode_candidates env header 0 (Some payload) @
               mode_candidates env header 1 (binary_payload env payload) @
               mode_candidates env header 2 (encodeCompactValue (number_text env) (vocab env) (decode_json env) payload)) of
          None \<Rightarrow> Inl (PlainError ''Missing compression candidate'')
        | Some best \<Rightarrow> Inr best))"

text \<open>\<open>mode\<close> is \<^verbatim>\<open>-1\<close> when the byte is missing.\<close>

definition validateMode :: "int \<Rightarrow> unit result" where
  "validateMode mode =
     (if mode < 0 \<or> mode > 8 then Inl (TypeError ''Unknown message-v2 compression mode'') else Inr ())"

text \<open>
  The block loop of \<^verbatim>\<open>assertZstandardBoundary\<close>: each block has a header of three bytes with the last-block flag, the type and
  the size. A block of type 1 has one byte of content.
\<close>

function zstd_blocks :: "bytes \<Rightarrow> nat \<Rightarrow> nat result" where
  "zstd_blocks bs offset =
     (if offset + 3 > length bs then Inl (TypeError ''Truncated Zstandard block header'')
      else
        let header = le_value (take 3 (drop offset bs)); kind = drop_bit 1 header AND 3;
            offset' = offset + 3 + (if kind = 1 then 1 else drop_bit 3 header)
        in if kind = 3 then Inl (TypeError ''Reserved Zstandard block type'')
           else if offset' > length bs then Inl (TypeError ''Truncated Zstandard block'')
           else if header AND 1 \<noteq> 0 then Inr offset'
           else zstd_blocks bs offset')"
  by pat_completeness auto
termination
  by (relation "measure (\<lambda>(bs, offset). length bs - offset)") auto

declare zstd_blocks.simps [simp del]

definition assertZstandardBoundary :: "bytes \<Rightarrow> unit result" where
  "assertZstandardBoundary bs =
     (if length bs < 6 \<or> le_value (take 4 bs) \<noteq> 0xfd2fb528 then Inl (TypeError ''Invalid Zstandard frame boundary'')
      else
        let descriptor = unat (bs ! 4)
        in if descriptor AND 8 \<noteq> 0 then Inl (TypeError ''Reserved Zstandard frame flag'')
           else
             let singleSegment = (descriptor AND 32 \<noteq> 0); sizeFlag = drop_bit 6 descriptor;
                 contentSizeBytes = (if sizeFlag = 0 then (if singleSegment then 1 else 0) else 2 ^ sizeFlag);
                 dictionaryFlag = descriptor AND 3;
                 dictionaryBytes = (if dictionaryFlag = 3 then 4 else dictionaryFlag);
                 offset = 5 + (if singleSegment then 0 else 1) + dictionaryBytes + contentSizeBytes
             in bind_result (zstd_blocks bs offset) (\<lambda>offset.
                  let offset = (if descriptor AND 4 \<noteq> 0 then offset + 4 else offset)
                  in if offset \<noteq> length bs then Inl (TypeError ''Invalid Zstandard frame boundary'') else Inr ()))"

definition decompressValue :: "codec_env \<Rightarrow> int \<Rightarrow> bytes \<Rightarrow> nat \<Rightarrow> bytes result" where
  "decompressValue env mode bs maxOutputLength =
     bind_result (validateMode mode) (\<lambda>_.
       bind_result (if mode \<ge> 6 then assertZstandardBoundary bs else Inr ()) (\<lambda>_.
         bind_result
           (if mode < 3 then inflate env maxOutputLength bs
            else if mode < 6 then unbrotli env maxOutputLength bs
            else unzstd env maxOutputLength bs) (\<lambda>(buffer, bytesWritten).
           if bytesWritten \<noteq> length bs then Inl (TypeError ''Invalid compressed value boundary'') else Inr buffer)))"

definition restoreValue :: "codec_env \<Rightarrow> int \<Rightarrow> bytes \<Rightarrow> bytes result" where
  "restoreValue env mode payload =
     bind_result (validateMode mode) (\<lambda>_.
       bind_result
         (if mode mod 3 = 0 then Inr payload
          else if mode mod 3 = 1 then from_binary_payload env payload 0
          else decodeCompactValue (number_text env) (vocab env) payload) (\<lambda>restored.
         if length restored = 0 \<or> length restored > MAX_MESSAGE_BYTES
         then Inl (RangeError ''Restored message must contain 1-131072 bytes'') else Inr restored))"

subsection \<open>message-codec.ts\<close>

definition MESSAGE_CODEC_MARKER :: byte where "MESSAGE_CODEC_MARKER = 0xb2"
definition MESSAGE_CODEC_VERSION :: byte where "MESSAGE_CODEC_VERSION = 1"
definition MODE_CANONICAL :: byte where "MODE_CANONICAL = 0"
definition MODE_BINARY :: byte where "MODE_BINARY = 1"
definition MAX_BINARY_DEFLATE_OUTPUT_BYTES :: nat where
  "MAX_BINARY_DEFLATE_OUTPUT_BYTES = MAX_MESSAGE_BYTES * 8 + 64"

definition assertMessageSize :: "bytes \<Rightarrow> unit result" where
  "assertMessageSize payload =
     (if length payload > MAX_MESSAGE_BYTES then Inl (RangeError ''Whole-message payload exceeds 128 KiB'') else Inr ())"

definition wrap :: "byte \<Rightarrow> bytes \<Rightarrow> bytes" where
  "wrap mode compressed = [MESSAGE_CODEC_MARKER, MESSAGE_CODEC_VERSION, mode] @ compressed"

definition encodeCompressedMessage :: "codec_env \<Rightarrow> bytes \<Rightarrow> bytes option result" where
  "encodeCompressedMessage env payload =
     bind_result (assertMessageSize payload) (\<lambda>_.
       let canonical = wrap MODE_CANONICAL (deflate env payload);
           binary = map_option (\<lambda>b. wrap MODE_BINARY (deflate env b)) (binary_payload env payload);
           candidate = (case binary of None \<Rightarrow> canonical
             | Some b \<Rightarrow> if length canonical \<le> length b then canonical else b)
       in Inr (if length candidate < length payload then Some candidate else None))"

definition inflateMessage :: "codec_env \<Rightarrow> bytes \<Rightarrow> bool \<Rightarrow> bytes result" where
  "inflateMessage env compressed binary =
     (let limit = (if binary then MAX_BINARY_DEFLATE_OUTPUT_BYTES else MAX_MESSAGE_BYTES)
      in if compressed = [] then Inl (TypeError ''Truncated whole-message codec payload'')
         else bind_result (inflate env limit compressed) (\<lambda>(buffer, bytesWritten).
           if bytesWritten \<noteq> length compressed then Inl (TypeError ''Invalid whole-message compressed payload'')
           else if length buffer > limit then Inl (RangeError ''Decoded whole-message payload exceeds bound'')
           else Inr buffer))"

definition byte_at :: "bytes \<Rightarrow> nat \<Rightarrow> byte option" where
  "byte_at bs i = (if i < length bs then Some (bs ! i) else None)"

definition mode_at :: "bytes \<Rightarrow> nat \<Rightarrow> int" where
  "mode_at bs i = (case byte_at bs i of None \<Rightarrow> -1 | Some b \<Rightarrow> int (unat b))"

definition decodeMessagePayload :: "codec_env \<Rightarrow> bytes \<Rightarrow> bytes result" where
  "decodeMessagePayload env payload =
     bind_result (assertMessageSize payload) (\<lambda>_.
       if byte_at payload 0 = Some 0xb3 then
         (if byte_at payload 1 \<noteq> Some 1 then Inl (TypeError ''Unknown message-v2 envelope version'')
          else bind_result (decompressValue env (mode_at payload 2) (drop 3 payload) MAX_BINARY_DEFLATE_OUTPUT_BYTES) (\<lambda>raw.
            restoreValue env (mode_at payload 2) raw))
       else if byte_at payload 0 \<noteq> Some MESSAGE_CODEC_MARKER then Inr payload
       else if length payload < 3 then Inl (TypeError ''Truncated whole-message codec envelope'')
       else if byte_at payload 1 \<noteq> Some MESSAGE_CODEC_VERSION then Inl (TypeError ''Unknown whole-message codec version'')
       else if byte_at payload 2 \<noteq> Some MODE_CANONICAL \<and> byte_at payload 2 \<noteq> Some MODE_BINARY
       then Inl (TypeError ''Unknown whole-message codec mode'')
       else bind_result (inflateMessage env (drop 3 payload) (byte_at payload 2 = Some MODE_BINARY)) (\<lambda>output.
         if length output = 0 then Inl (TypeError ''Decoded whole-message payload must not be empty'')
         else if byte_at payload 2 = Some MODE_BINARY then from_binary_payload env output 0
         else Inr output))"

section \<open>What is documented about the library\<close>

text \<open>
  A decompressor restores what the compressor made, when it fits the output limit. The limit of the bodies is that of one
  raw Zstandard block; the codec never compresses more.
\<close>

definition MAX_BODY_BYTES :: nat where "MAX_BODY_BYTES = 2 ^ 21 - 1"

definition inverse_codec :: "(bytes \<Rightarrow> bytes) \<Rightarrow> decompressor \<Rightarrow> bool" where
  "inverse_codec c d \<longleftrightarrow>
     (\<forall>x limit. length x \<le> limit \<longrightarrow> length x \<le> MAX_BODY_BYTES \<longrightarrow> d limit (c x) = Inr (x, length (c x)) \<and> c x \<noteq> [])"

text \<open>The engine's number formatting: ASCII, not empty, and the same text for the two zeros.\<close>

definition number_laws :: "(f64 \<Rightarrow> jstring) \<Rightarrow> bool" where
  "number_laws num \<longleftrightarrow> numbers_ascii num \<and> zero_unsigned num \<and> (\<forall>x. num x \<noteq> [])"

definition codec_laws :: "codec_env \<Rightarrow> bool" where
  "codec_laws env \<longleftrightarrow> number_laws (number_text env) \<and> (\<forall>bs v. decode_json env bs = Some v \<longrightarrow> wf_json v) \<and>
     inverse_codec (deflate env) (inflate env) \<and> inverse_codec (deflate9 env) (inflate env) \<and>
     inverse_codec (brotli env) (unbrotli env) \<and> inverse_codec (zstd env) (unzstd env) \<and>
     (\<forall>x. length x \<le> MAX_BODY_BYTES \<longrightarrow> assertZstandardBoundary (zstd env x) = Inr ())"

section \<open>The size of binary-v1 payloads\<close>

lemma varint_length: "n \<le> max_safe_integer \<Longrightarrow> length (varint_loop n) \<le> 8"
  using length_varint_loop[of n 8] max_safe_lt[of n] by simp

lemma wtf8_within_text: "length (encodeBinaryUtf8 s) \<le> string_units_bytes s"
proof (induction s rule: encodeBinaryUtf8.induct)
  case (2 c)
  then show ?case
    using jschar_lt[of c] by (auto simp: length_code_point unit_bytes_def utf8Bytes_def)
next
  case (3 c d cs)
  have "length (code_point_bytes (unat c)) \<le> unit_bytes c"
    using jschar_lt[of c] by (auto simp: length_code_point unit_bytes_def utf8Bytes_def)
  moreover have "pair_code_point c d = 0x10000 + push_bit 10 (unat c - 0xd800) + (unat d - 0xdc00)" if "is_low d"
    using that by (simp add: pair_code_point_def is_low_def)
  ultimately show ?case using 3 by (auto simp: length_code_point)
qed simp

lemma writeString_length:
  assumes "writeString dictionary s = Inr bs"
  shows "length bs + 2 \<le> 8 + canonicalJSONStringBytes s"
proof (cases "dictionary_index dictionary s")
  case (Some i)
  with assms have "length bs \<le> 8" by (auto simp: writeString_def writeVarint_eq intro: varint_length)
  then show ?thesis by (simp add: canonicalJSONStringBytes_def)
next
  case None
  let ?u = "encodeBinaryUtf8 s"
  from None assms have u: "length ?u \<le> MAX_BINARY_BYTES" and bs: "bs = varint_loop 0 @ varint_loop (length ?u) @ ?u"
    by (auto simp: writeString_def Let_def bind_result_eq_Inr writeVarint_eq split: if_splits)
  have "length (varint_loop (length ?u)) \<le> 3" by (rule length_varint_loop) (use u in \<open>simp_all add: MAX_BINARY_BYTES_def\<close>)
  then show ?thesis using wtf8_within_text[of s] bs by (simp add: varint_loop_small canonicalJSONStringBytes_def)
qed

text \<open>A written value takes at most four and a half bytes for each byte of its canonical text, and a tag.\<close>

lemma sum_comma: "(n::nat) = 0 \<or> 9 * (n - 1) + 9 = 9 * n"
  by (cases n) auto

lemma write_length:
  assumes "\<And>x. num x \<noteq> []"
  shows "writeValue voc v d c = Inr (bs, c') \<Longrightarrow> sortJSON v = Inr s \<Longrightarrow>
      2 * length bs \<le> 9 * canonical_length num s + 9"
    and "writeElements voc xs d c = Inr (bs, c') \<Longrightarrow> sortJSON_list xs = Inr ys \<Longrightarrow>
      length ys = length xs \<and> 2 * length bs \<le> 9 * sum_list (map (canonical_length num) ys) + 9 * length ys"
    and "writeFields voc kvs d c = Inr (bs, c') \<Longrightarrow> sortJSON_fields kvs = Inr kvs' \<Longrightarrow>
      length kvs' = length kvs \<and> 2 * length bs \<le> 9 * sum_list (map (\<lambda>(key, child). canonicalJSONStringBytes key + 1 + canonical_length num child) kvs') + 9 * length kvs'"
proof (induction voc v d c and voc xs d c and voc kvs d c arbitrary: bs c' s and bs c' ys and bs c' kvs'
    rule: writer_induct)
  case (Scalar voc v d c)
  show ?case
  proof (cases v)
    case (JNumber x)
    have "length (num x) \<ge> 1" using assms[of x] by (cases "num x") auto
    with Scalar JNumber show ?thesis by (auto simp: writeValue_Inr)
  next
    case (JString t)
    with Scalar obtain w where w: "writeString (FRAME_BINARY_STRINGS voc) t = Inr w" "bs = word_of_nat TAG_STRING # w" "s = JString t"
      by (auto simp: writeValue_Inr)
    from writeString_length[OF w(1)] show ?thesis by (simp add: w canonicalJSONStringBytes_def)
  qed (use Scalar in \<open>auto simp: writeValue_Inr\<close>)
next
  case (Array voc xs d c)
  from Array.prems obtain body ys where w: "node_ok d c" "length xs \<le> max_safe_integer" "writeElements voc xs (d + 1) (c + 1) = Inr (body, c')"
    "bs = word_of_nat TAG_ARRAY # varint_loop (length xs) @ body" "sortJSON_list xs = Inr ys" "s = JArray ys"
    by (auto simp: writeValue_array bind_result_eq_Inr)
  have b: "length ys = length xs" "2 * length body \<le> 9 * sum_list (map (canonical_length num) ys) + 9 * length ys"
    using Array.IH[OF w(1,2,3,5)] by auto
  then show ?case using varint_length[OF w(2)] sum_comma[of "length xs"] by (auto simp: w(4,6))
next
  case (Object voc kvs d c)
  from Object.prems obtain body kvs' where w: "node_ok d c" "length kvs \<le> max_safe_integer" "writeFields voc (sort_key fst kvs) (d + 1) (c + 1) = Inr (body, c')"
    "bs = word_of_nat TAG_OBJECT # varint_loop (length kvs) @ body" "sortJSON_fields (sort_key fst kvs) = Inr kvs'" "s = JObject kvs'"
    by (auto simp: writeValue_object bind_result_eq_Inr)
  have b: "length kvs' = length kvs" "2 * length body \<le> 9 * sum_list (map (\<lambda>(key, child). canonicalJSONStringBytes key + 1 + canonical_length num child) kvs') + 9 * length kvs'"
    using Object.IH[OF w(1,2,3,5)] by auto
  then show ?case using varint_length[OF w(2)] sum_comma[of "length kvs"] by (auto simp: w(4,6))
next
  case (Cons voc x xs d c)
  from Cons.prems obtain bs1 c1 bs2 y ys1 where w: "writeValue voc x d c = Inr (bs1, c1)"
    "writeElements voc xs d c1 = Inr (bs2, c')" "bs = bs1 @ bs2" "sortJSON x = Inr y" "sortJSON_list xs = Inr ys1" "ys = y # ys1"
    by (auto simp: bind_result_eq_Inr)
  with Cons.IH(1)[OF w(1,4)] Cons.IH(2)[OF w(1,2,5)] show ?case by simp
next
  case (FCons voc k x kvs d c)
  from FCons.prems obtain ks bs1 c1 bs2 y kvs1 where w: "writeString (FRAME_BINARY_KEYS voc) k = Inr ks"
    "writeValue voc x d c = Inr (bs1, c1)" "writeFields voc kvs d c1 = Inr (bs2, c')"
    "bs = ks @ bs1 @ bs2" "sortJSON x = Inr y" "sortJSON_fields kvs = Inr kvs1" "kvs' = (k, y) # kvs1"
    by (auto simp: bind_result_eq_Inr)
  with FCons.IH(1)[OF w(1,2,5)] FCons.IH(2)[OF w(1,2,3,6)] writeString_length[OF w(1)] show ?case
    by (simp add: canonicalJSONStringBytes_def)
qed auto

lemma binary_payload_length:
  assumes "encodeBinaryPayload voc parse (json_bytes num) payload = Some bs" "number_laws num"
  shows "2 * length bs \<le> 9 * length payload + 9"
proof -
  from assms(1) obtain v c where v: "encodeCanonicalJSON (json_bytes num) v = Inr payload" "writeValue voc v 0 0 = Inr (bs, c)"
    by (auto simp: encodeBinaryPayload_def split: option.splits sum.splits if_splits)
  then obtain s where s: "sortJSON v = Inr s" "json_bytes num s = payload"
    by (auto simp: encodeCanonicalJSON_def bind_result_eq_Inr)
  have "length payload = canonical_length num s"
    using stringify_length[of num s] assms(2) s(2) by (auto simp: json_bytes_def number_laws_def)
  then show ?thesis using write_length(1)[OF _ v(2) s(1), of num] assms(2) by (auto simp: number_laws_def)
qed

section \<open>Every mode is restored\<close>

lemma codec_lawsD:
  assumes "codec_laws env"
  shows "number_laws (number_text env)" "\<And>bs v. decode_json env bs = Some v \<Longrightarrow> wf_json v"
    "inverse_codec (deflate env) (inflate env)" "inverse_codec (deflate9 env) (inflate env)"
    "inverse_codec (brotli env) (unbrotli env)" "inverse_codec (zstd env) (unzstd env)"
    "\<And>x. length x \<le> MAX_BODY_BYTES \<Longrightarrow> assertZstandardBoundary (zstd env x) = Inr ()"
  using assms by (simp_all add: codec_laws_def)

text \<open>The representation of a payload that a mode stands for.\<close>

fun representation :: "codec_env \<Rightarrow> nat \<Rightarrow> bytes \<Rightarrow> bytes option" where
  "representation env 0 payload = Some payload"
| "representation env (Suc 0) payload = binary_payload env payload"
| "representation env r payload = encodeCompactValue (number_text env) (vocab env) (decode_json env) payload"

fun algorithm :: "codec_env \<Rightarrow> nat \<Rightarrow> bytes \<Rightarrow> bytes" where
  "algorithm env 0 = deflate9 env"
| "algorithm env (Suc 0) = brotli env"
| "algorithm env a = zstd env"

lemma foldl_better:
  "foldl better best cs = Some b \<Longrightarrow> best = Some b \<or> b \<in> set cs"
proof (induction cs arbitrary: best)
  case (Cons c cs)
  then have "better best c = Some b \<or> b \<in> set cs" by simp
  then show ?case by (auto simp: better_def split: option.splits if_splits)
qed simp

lemma compressValue_mode:
  assumes "compressValue env payload header = Inr (mode, bs)"
  obtains r a v where "r < 3" "a < 3" "mode = 3 * a + r" "representation env r payload = Some v" "bs = algorithm env a (header @ v)"
    "length payload \<le> MAX_MESSAGE_BYTES"
proof -
  note case_reps = assms[unfolded compressValue_def]
  from case_reps have small: "length payload \<le> MAX_MESSAGE_BYTES" by (simp split: if_splits)
  let ?cs = "mode_candidates env header 0 (representation env 0 payload) @ mode_candidates env header 1 (representation env 1 payload) @
    mode_candidates env header 2 (representation env 2 payload)"
  have "foldl better None ?cs = Some (mode, bs)"
    using case_reps small by (auto simp: numeral_2_eq_2 split: option.splits)
  then have "(mode, bs) \<in> set ?cs" using foldl_better[of None ?cs] by simp
  then obtain r where "r < 3" "(mode, bs) \<in> set (mode_candidates env header r (representation env r payload))"
    by (auto intro: that[of 0] that[of 1] that[of 2])
  then obtain v where v: "representation env r payload = Some v"
    and mem: "(mode, bs) \<in> {(r, deflate9 env (header @ v)), (3 + r, brotli env (header @ v)), (6 + r, zstd env (header @ v))}"
    by (cases "representation env r payload"; cases "header = []") (auto simp: mode_candidates_def Let_def)
  have "\<exists>a < 3. mode = 3 * a + r \<and> bs = algorithm env a (header @ v)"
    using mem by (auto intro: exI[of _ 0] exI[of _ 1] exI[of _ "Suc (Suc 0)"])
  with \<open>r < 3\<close> v small show ?thesis by (auto intro: that)
qed

lemma representation_length:
  assumes "codec_laws env" "representation env r payload = Some v" "length payload \<le> MAX_MESSAGE_BYTES"
  shows "length v \<le> 600000"
proof (cases "(env, r, payload)" rule: representation.cases)
  case (1 env' payload')
  then show ?thesis using assms by (simp add: MAX_MESSAGE_BYTES_def)
next
  case (2 env' payload')
  then show ?thesis
    using assms binary_payload_length[of "vocab env" "decode_json env" "number_text env" payload v] codec_lawsD(1)[OF assms(1)]
    by (simp add: MAX_MESSAGE_BYTES_def)
next
  case (3 env' q payload')
  then obtain x out c t where "writeCompact (vocab env) out x 0 0 new_table = Inr (v, c, t)" "wf_json x"
    using assms codec_lawsD(2)[OF assms(1)]
    by (auto simp: encodeCompactValue_def bind_result_eq_Inr split: option.splits sum.splits if_splits)
  moreover have "zero_unsigned (number_text env)" using codec_lawsD(1)[OF assms(1)] by (simp add: number_laws_def)
  ultimately have "length v \<le> MAX_COMPACT_BYTES"
    using restoresD[OF all_restored] table_ok_new by metis
  then show ?thesis by (simp add: compact_limits)
qed

lemma decompress_mode:
  assumes laws: "codec_laws env" and a: "a < 3" "r < 3" and len: "length x \<le> limit" "length x \<le> MAX_BODY_BYTES"
  shows "decompressValue env (int (3 * a + r)) (algorithm env a x) limit = Inr x"
proof -
  note inv = codec_lawsD(4-6)[OF laws, unfolded inverse_codec_def, rule_format, OF len]
  consider "a = 0" | "a = 1" | "a = 2" using a(1) by linarith
  then show ?thesis
    using a(2) inv codec_lawsD(7)[OF laws len(2)]
    by cases (auto simp: decompressValue_def validateMode_def numeral_2_eq_2)
qed

lemma restore_representation:
  assumes laws: "codec_laws env" and r: "r < 3" "a < 3" and v: "representation env r payload = Some v"
    and payload: "payload \<noteq> []" "length payload \<le> MAX_MESSAGE_BYTES"
  shows "restoreValue env (int (3 * a + r)) v = Inr payload"
proof -
  note nums = codec_lawsD(1)[OF laws, unfolded number_laws_def]
  note bin = decode_encode_payload[of "vocab env" "decode_json env" "json_bytes (number_text env)" payload v "[]"]
  note comp = decode_encode_compact[of "number_text env" "vocab env" "decode_json env" payload v]
  have mode: "validateMode (int (3 * a + r)) = Inr ()" "int (3 * a + r) mod 3 = int r" using r by (auto simp: validateMode_def)
  consider "r = 0" | "r = 1" | "r = 2" using r(1) by linarith
  then have "(if int r = 0 then Inr v else if int r = 1 then from_binary_payload env v 0
      else decodeCompactValue (number_text env) (vocab env) v) = Inr payload"
    using v bin comp nums codec_lawsD(2)[OF laws] payload
    by cases (auto simp: numeral_2_eq_2 MAX_MESSAGE_BYTES_def MAX_BINARY_BYTES_def)
  then show ?thesis using payload unfolding restoreValue_def mode by (simp only: bind_result_simps) simp
qed

lemma empty_binary: "from_binary_payload env [] 0 \<noteq> Inr payload"
proof -
  have "readVarint [] = Inl (TypeError ''Truncated binary-v1 integer'')"
    unfolding readVarint_def by (subst readVarint_loop.simps) simp
  then have "\<exists>e. readValue (vocab env) [] 0 0 = Inl e" by (subst readValue.simps) simp
  then show ?thesis by (auto simp: decodeBinaryPayload_def)
qed

lemma empty_compact: "decodeCompactValue num voc [] \<noteq> Inr payload"
  by (simp add: decodeCompactValue_def)

text \<open>Whatever mode is picked, the body is restored and the payload with it.\<close>

lemma compress_restores:
  assumes laws: "codec_laws env" and enc: "compressValue env payload header = Inr (mode, bs)" and payload: "payload \<noteq> []"
    and len: "length header + 600000 \<le> limit" "length header + 600000 \<le> MAX_BODY_BYTES"
  shows "\<exists>v. decompressValue env (int mode) bs limit = Inr (header @ v) \<and> restoreValue env (int mode) v = Inr payload \<and> v \<noteq> [] \<and> mode \<le> 8"
proof -
  from enc obtain r a v where m: "r < 3" "a < 3" "mode = 3 * a + r" "representation env r payload = Some v" "bs = algorithm env a (header @ v)"
    and small: "length payload \<le> MAX_MESSAGE_BYTES" by (rule compressValue_mode)
  have v: "length v \<le> 600000" by (rule representation_length[OF laws m(4) small])
  have "decompressValue env (int mode) bs limit = Inr (header @ v)"
    unfolding m(3,5) by (rule decompress_mode[OF laws m(2,1)]) (use v len in auto)
  moreover have res: "restoreValue env (int mode) v = Inr payload"
    unfolding m(3) by (rule restore_representation[OF laws m(1,2,4) payload small])
  moreover have "v \<noteq> []"
  proof
    assume "v = []"
    then have "restoreValue env (int mode) [] = Inr payload" using res by simp
    then show False
      using payload empty_binary[of env payload] empty_compact[of "number_text env" "vocab env" payload]
      by (auto simp: restoreValue_def bind_result_eq_Inr split: if_splits)
  qed
  ultimately show ?thesis using m(1-3) by auto
qed

section \<open>Message envelopes\<close>

lemma byte_at_simps [simp]:
  "byte_at (b # bs) 0 = Some b" "byte_at (b # bs) (Suc i) = byte_at bs i" "byte_at [] i = None"
  by (simp_all add: byte_at_def)

lemma decode_compressed_message:
  assumes laws: "codec_laws env" and enc: "encodeCompressedMessage env payload = Inr (Some bs)" and payload: "payload \<noteq> []"
  shows "decodeMessagePayload env bs = Inr payload" "length bs < length payload" "bs \<noteq> []"
proof -
  have small: "length payload \<le> MAX_MESSAGE_BYTES" and shorter: "length bs < length payload"
    using enc by (auto simp: encodeCompressedMessage_def assertMessageSize_def Let_def bind_result_eq_Inr split: if_splits)
  note inv = codec_lawsD(3)[OF laws, unfolded inverse_codec_def, rule_format]
  consider (canonical) "bs = wrap MODE_CANONICAL (deflate env payload)"
    | (binary) b where "binary_payload env payload = Some b" "bs = wrap MODE_BINARY (deflate env b)"
    using enc by (auto simp: encodeCompressedMessage_def Let_def bind_result_eq_Inr split: if_splits option.splits)
  then have "decodeMessagePayload env bs = Inr payload \<and> bs \<noteq> []"
  proof cases
    case canonical
    have "length payload \<le> MAX_BODY_BYTES" using small by (simp add: MAX_MESSAGE_BYTES_def MAX_BODY_BYTES_def)
    from inv[OF small this] canonical shorter small payload show ?thesis
      by (auto simp: decodeMessagePayload_def assertMessageSize_def wrap_def inflateMessage_def MESSAGE_CODEC_MARKER_def
          MESSAGE_CODEC_VERSION_def MODE_CANONICAL_def MODE_BINARY_def numeral_2_eq_2)
  next
    case binary
    have len: "length b \<le> 600000"
      using representation_length[OF laws _ small, of 1 b] binary(1) by simp
    have "length b \<le> MAX_BINARY_DEFLATE_OUTPUT_BYTES" "length b \<le> MAX_BODY_BYTES"
      using len by (simp_all add: MAX_BINARY_DEFLATE_OUTPUT_BYTES_def MAX_MESSAGE_BYTES_def MAX_BODY_BYTES_def)
    note i = inv[OF this]
    have restored: "from_binary_payload env b 0 = Inr payload"
      using decode_encode_payload[of "vocab env" "decode_json env" "json_bytes (number_text env)" payload b "[]"] binary(1)
        codec_lawsD(2)[OF laws] small by (simp add: MAX_MESSAGE_BYTES_def MAX_BINARY_BYTES_def)
    then have "b \<noteq> []" using empty_binary by auto
    with i restored binary shorter small len show ?thesis
      by (auto simp: decodeMessagePayload_def assertMessageSize_def wrap_def inflateMessage_def MESSAGE_CODEC_MARKER_def
          MESSAGE_CODEC_VERSION_def MODE_CANONICAL_def MODE_BINARY_def numeral_2_eq_2 MAX_BINARY_DEFLATE_OUTPUT_BYTES_def MAX_MESSAGE_BYTES_def)
  qed
  then show "decodeMessagePayload env bs = Inr payload" "bs \<noteq> []" by auto
  show "length bs < length payload" by (rule shorter)
qed

lemma decode_method_envelope:
  assumes laws: "codec_laws env" and enc: "compressValue env payload [] = Inr (mode, bs)" and payload: "payload \<noteq> []"
    and shorter: "length ([0xb3, 1, word_of_nat mode] @ bs) < length payload"
  shows "decodeMessagePayload env ([0xb3, 1, word_of_nat mode] @ bs) = Inr payload"
proof -
  have small: "length payload \<le> MAX_MESSAGE_BYTES" using enc by (simp add: compressValue_def split: if_splits)
  have "length ([] :: bytes) + 600000 \<le> MAX_BINARY_DEFLATE_OUTPUT_BYTES" "length ([] :: bytes) + 600000 \<le> MAX_BODY_BYTES"
    by (simp_all add: MAX_BINARY_DEFLATE_OUTPUT_BYTES_def MAX_MESSAGE_BYTES_def MAX_BODY_BYTES_def)
  from compress_restores[OF laws enc payload this] obtain v where
    "decompressValue env (int mode) bs MAX_BINARY_DEFLATE_OUTPUT_BYTES = Inr v" "restoreValue env (int mode) v = Inr payload" "mode \<le> 8"
    by auto
  moreover have "mode_at ([0xb3, 1, word_of_nat mode] @ bs) 2 = int mode"
    using \<open>mode \<le> 8\<close> by (simp add: mode_at_def numeral_2_eq_2 wire_simps)
  ultimately show ?thesis
    using shorter small by (simp add: decodeMessagePayload_def assertMessageSize_def)
qed

end
