(* ===== verification/Link_Frame.thy ===== *)
theory Link_Frame
  imports Compression Contract
begin

text \<open>
  Radio frames, \<^verbatim>\<open>packages/meshtastic-link/src/frame.ts\<close>: a message is put into one frame of at most 233 bytes, or cut into
  at most 4096 of them, in one of seven encodings; the receiver decodes each frame alone. \<open>frame_identity\<close> has the fields of
  \<^verbatim>\<open>FrameIdentity\<close>, and the object that the decoders build (\<^verbatim>\<open>CompactFrame\<close>, of type \<^verbatim>\<open>unknown\<close> until it is checked) is a JSON
  value. Integers in a header are read by the loop of \<open>readVarint\<close>, which the source repeats. The check of the
  pinned dictionary is a constant of the build and has no counterpart.
\<close>

section \<open>Definitions\<close>

definition MESHTASTIC_APPLICATION_PAYLOAD_BYTES :: nat where "MESHTASTIC_APPLICATION_PAYLOAD_BYTES = 233"
definition LINK_PROTOCOL_REVISION :: int where "LINK_PROTOCOL_REVISION = 1"

datatype frame_encoding = CanonicalJson | DeflateV1 | DeflateV2 | DeflateV3 | BinaryV1 | MessageV1 | MessageV2

definition DEFLATE_V1_MARKER :: byte where "DEFLATE_V1_MARKER = 0xa2"
definition DEFLATE_V2_MARKER :: byte where "DEFLATE_V2_MARKER = 0xa3"
definition DEFLATE_V3_MARKER :: byte where "DEFLATE_V3_MARKER = 0xa4"
definition BINARY_V1_MARKER :: byte where "BINARY_V1_MARKER = 0xa5"
definition MESSAGE_V1_MARKER :: byte where "MESSAGE_V1_MARKER = 0xa6"
definition METHOD_FRAME_MARKER :: byte where "METHOD_FRAME_MARKER = 0xa7"

lemmas frame_markers = DEFLATE_V1_MARKER_def DEFLATE_V2_MARKER_def DEFLATE_V3_MARKER_def BINARY_V1_MARKER_def
  MESSAGE_V1_MARKER_def METHOD_FRAME_MARKER_def

subsection \<open>Types and codes\<close>

datatype link_role = AssetRole | GatewayRole

record link_node =
  node_role :: link_role
  node_id :: jstring

datatype link_message_type = StateMessage | TaskDeliveryMessage | TaskReportMessage | DataRequestMessage | DataResponseMessage |
  ResourceOperationMessage | SubscriptionMessage | ObjectContentMessage | ControlMessage

record receipt_identity =
  receipt_operation_id :: jstring
  receipt_message_id :: jstring

record frame_identity =
  fr_revision :: int
  fr_message_type :: link_message_type
  fr_source :: link_node
  fr_destination :: "link_node option"
  fr_source_generation :: int
  fr_service_session :: jstring
  fr_source_sequence :: int
  fr_operation_id :: jstring
  fr_message_id :: jstring
  fr_receipt :: "receipt_identity option"
  fr_priority :: message_priority

record link_frame =
  frame_identity_of :: frame_identity
  chunk_index :: int
  chunk_count :: int
  frame_payload :: bytes

fun MESSAGE_TYPE_CODES :: "link_message_type \<Rightarrow> jschar" where
  "MESSAGE_TYPE_CODES StateMessage = 0x73"
| "MESSAGE_TYPE_CODES TaskDeliveryMessage = 0x74"
| "MESSAGE_TYPE_CODES TaskReportMessage = 0x70"
| "MESSAGE_TYPE_CODES DataRequestMessage = 0x71"
| "MESSAGE_TYPE_CODES DataResponseMessage = 0x72"
| "MESSAGE_TYPE_CODES ResourceOperationMessage = 0x6f"
| "MESSAGE_TYPE_CODES SubscriptionMessage = 0x75"
| "MESSAGE_TYPE_CODES ObjectContentMessage = 0x62"
| "MESSAGE_TYPE_CODES ControlMessage = 0x63"

fun PRIORITY_CODES :: "message_priority \<Rightarrow> jschar" where
  "PRIORITY_CODES Safety = 0x73"
| "PRIORITY_CODES Task = 0x74"
| "PRIORITY_CODES Request = 0x71"
| "PRIORITY_CODES LiveState = 0x6c"
| "PRIORITY_CODES Resource = 0x72"
| "PRIORITY_CODES ObjectContent = 0x6f"

definition decodeMessageType :: "jstring \<Rightarrow> link_message_type result" where
  "decodeMessageType code =
     (case find (\<lambda>t. [MESSAGE_TYPE_CODES t] = code)
        [StateMessage, TaskDeliveryMessage, TaskReportMessage, DataRequestMessage, DataResponseMessage, ResourceOperationMessage,
         SubscriptionMessage, ObjectContentMessage, ControlMessage] of
        None \<Rightarrow> Inl (TypeError ''Invalid message type code'')
      | Some t \<Rightarrow> Inr t)"

definition decodePriority :: "jstring \<Rightarrow> message_priority result" where
  "decodePriority code =
     (case find (\<lambda>p. [PRIORITY_CODES p] = code) [Safety, Task, Request, LiveState, Resource, ObjectContent] of
        None \<Rightarrow> Inl (TypeError ''Invalid priority code'')
      | Some p \<Rightarrow> Inr p)"

definition encodeNode :: "link_node \<Rightarrow> jstring result" where
  "encodeNode node =
     (if \<not> non_blank (node_id node) \<or> 0x3a \<in> set (node_id node)
      then Inl (TypeError ''Link node IDs must be non-empty and cannot contain a colon'')
      else Inr ((if node_role node = AssetRole then 0x61 else 0x67) # 0x3a # node_id node))"

text \<open>\<^verbatim>\<open>value.indexOf(":") === 1\<close> and the parts before and after it.\<close>

definition decodeNode :: "jstring \<Rightarrow> link_node result" where
  "decodeNode v =
     (case v of
        role # colon # ident \<Rightarrow>
          if role = 0x3a \<or> colon \<noteq> 0x3a then Inl (TypeError ''Invalid Link node identity'')
          else if role \<noteq> 0x61 \<and> role \<noteq> 0x67 \<or> \<not> non_blank ident \<or> 0x3a \<in> set ident
          then Inl (TypeError ''Invalid Link node identity'')
          else Inr \<lparr>node_role = (if role = 0x61 then AssetRole else GatewayRole), node_id = ident\<rparr>
      | _ \<Rightarrow> Inl (TypeError ''Invalid Link node identity''))"

subsection \<open>base64url\<close>

text \<open>\<^verbatim>\<open>Buffer.toString("base64url")\<close> and, on a text of that alphabet, \<^verbatim>\<open>Buffer.from(value, "base64url")\<close>.\<close>

definition b64_digit :: "nat \<Rightarrow> jschar" where
  "b64_digit n = word_of_nat (if n < 26 then n + 65 else if n < 52 then n + 71 else if n < 62 then n - 4 else if n = 62 then 45 else 95)"

definition b64_value :: "jschar \<Rightarrow> nat option" where
  "b64_value c =
     (let n = unat c in
      if 65 \<le> n \<and> n \<le> 90 then Some (n - 65)
      else if 97 \<le> n \<and> n \<le> 122 then Some (n - 71)
      else if 48 \<le> n \<and> n \<le> 57 then Some (n + 4)
      else if n = 45 then Some 62
      else if n = 95 then Some 63
      else None)"

fun to_base64url :: "bytes \<Rightarrow> jstring" where
  "to_base64url (a # b # c # rest) =
     b64_digit (unat a div 4) # b64_digit (unat a mod 4 * 16 + unat b div 16) #
     b64_digit (unat b mod 16 * 4 + unat c div 64) # b64_digit (unat c mod 64) # to_base64url rest"
| "to_base64url [a, b] =
     [b64_digit (unat a div 4), b64_digit (unat a mod 4 * 16 + unat b div 16), b64_digit (unat b mod 16 * 4)]"
| "to_base64url [a] = [b64_digit (unat a div 4), b64_digit (unat a mod 4 * 16)]"
| "to_base64url [] = []"

definition b64_num :: "jschar \<Rightarrow> nat" where
  "b64_num c = (case b64_value c of None \<Rightarrow> 0 | Some n \<Rightarrow> n)"

fun of_base64url :: "jstring \<Rightarrow> bytes" where
  "of_base64url (a # b # c # d # rest) =
     word_of_nat (b64_num a * 4 + b64_num b div 16) # word_of_nat (b64_num b mod 16 * 16 + b64_num c div 4) #
     word_of_nat (b64_num c mod 4 * 64 + b64_num d) # of_base64url rest"
| "of_base64url [a, b, c] = [word_of_nat (b64_num a * 4 + b64_num b div 16), word_of_nat (b64_num b mod 16 * 16 + b64_num c div 4)]"
| "of_base64url [a, b] = [word_of_nat (b64_num a * 4 + b64_num b div 16)]"
| "of_base64url _ = []"

fun isBase64URL :: "json option \<Rightarrow> bool" where
  "isBase64URL (Some (JString v)) =
     (v \<noteq> [] \<and> list_all (\<lambda>c. b64_value c \<noteq> None) v \<and> to_base64url (of_base64url v) = v)"
| "isBase64URL _ = False"

subsection \<open>Headers\<close>

fun has_string :: "json option \<Rightarrow> bool" where
  "has_string (Some (JString _)) = True"
| "has_string _ = False"

definition receipt_encodings :: "frame_encoding list" where
  "receipt_encodings = [DeflateV3, BinaryV1, MessageV1, MessageV2]"

definition validateReceipt :: "frame_identity \<Rightarrow> frame_encoding \<Rightarrow> nat \<Rightarrow> nat \<Rightarrow> unit result" where
  "validateReceipt identity encoding index count =
     (case fr_receipt identity of
        None \<Rightarrow> Inr ()
      | Some receipt \<Rightarrow>
          if encoding \<notin> set receipt_encodings
          then Inl (TypeError ''Receipt metadata requires deflate-v3, binary-v1, message-v1, or message-v2'')
          else if fr_message_type identity \<noteq> TaskReportMessage \<or> fr_destination identity = None
          then Inl (TypeError ''Receipt metadata requires an addressed task_report frame'')
          else if index \<noteq> 0 \<or> count \<noteq> 1 then Inl (RangeError ''Receipt metadata requires a single frame'')
          else if \<not> non_blank (receipt_operation_id receipt) \<or> \<not> non_blank (receipt_message_id receipt)
          then Inl (TypeError ''Receipt identity fields must be non-empty'')
          else Inr ())"

definition writeFrameVarint :: "int \<Rightarrow> bytes result" where
  "writeFrameVarint v =
     (if \<not> is_safe_integer v \<or> v < 0 then Inl (TypeError ''Invalid frame integer'') else Inr (varint_loop (nat v)))"

text \<open>\<^verbatim>\<open>for (const value of values) write(fields, value)\<close>.\<close>

fun write_all :: "('a \<Rightarrow> bytes result) \<Rightarrow> 'a list \<Rightarrow> bytes result" where
  "write_all f [] = Inr []"
| "write_all f (x # xs) = bind_result (f x) (\<lambda>bs. bind_result (write_all f xs) (\<lambda>rest. Inr (bs @ rest)))"

definition writeBinaryHeaderString :: "jstring \<Rightarrow> bytes result" where
  "writeBinaryHeaderString v =
     (let bs = encodeBinaryUtf8 v
      in if length bs > 65535 then Inl (RangeError ''Link binary header field is too large'')
         else bind_result (writeFrameVarint (int (length bs))) (\<lambda>len. Inr (len @ bs)))"

definition encodeDestination :: "frame_identity \<Rightarrow> jstring result" where
  "encodeDestination identity = (case fr_destination identity of None \<Rightarrow> Inr [] | Some node \<Rightarrow> encodeNode node)"

definition header_numbers :: "frame_identity \<Rightarrow> nat \<Rightarrow> nat \<Rightarrow> int list" where
  "header_numbers identity index count =
     [fr_revision identity, int (unat (MESSAGE_TYPE_CODES (fr_message_type identity))),
      int (unat (PRIORITY_CODES (fr_priority identity))), fr_source_generation identity, fr_source_sequence identity,
      int index, int count]"

definition receipt_strings :: "frame_identity \<Rightarrow> jstring list" where
  "receipt_strings identity =
     (case fr_receipt identity of None \<Rightarrow> [] | Some r \<Rightarrow> [receipt_operation_id r, receipt_message_id r])"

definition encodeBinaryHeader :: "frame_identity \<Rightarrow> nat \<Rightarrow> nat \<Rightarrow> bool \<Rightarrow> bytes result" where
  "encodeBinaryHeader identity index count opaque =
     bind_result (write_all writeFrameVarint (header_numbers identity index count)) (\<lambda>numbers.
       bind_result (encodeNode (fr_source identity)) (\<lambda>source.
         bind_result (encodeDestination identity) (\<lambda>destination.
           bind_result (write_all writeBinaryHeaderString
               [source, destination, fr_service_session identity, fr_operation_id identity, fr_message_id identity]) (\<lambda>strings.
             bind_result (writeFrameVarint ((if fr_receipt identity = None then 0 else 1) + (if opaque then 2 else 0))) (\<lambda>flag.
               bind_result (write_all writeBinaryHeaderString (receipt_strings identity)) (\<lambda>receipt.
                 Inr (numbers @ strings @ flag @ receipt)))))))"

text \<open>
  \<^verbatim>\<open>Buffer.from(value)\<close> replaces lone surrogates, so \<^verbatim>\<open>bytes.toString("utf8") === value\<close> holds exactly when there are none.
\<close>

definition utf8_roundtrips :: "jstring \<Rightarrow> bool" where
  "utf8_roundtrips v \<longleftrightarrow> toWellFormed v = v"

definition writeHeaderText :: "jstring \<Rightarrow> bytes result" where
  "writeHeaderText v =
     (let bs = textEncode v
      in if \<not> utf8_roundtrips v then Inl (TypeError ''Link header text must be valid UTF-8'')
         else if length bs > 65535 then Inl (RangeError ''Link header field is too large'')
         else bind_result (writeFrameVarint (int (length bs))) (\<lambda>len. Inr (len @ bs)))"

definition legacyHeaderRoundTrips :: "frame_identity \<Rightarrow> bool result" where
  "legacyHeaderRoundTrips identity =
     bind_result (encodeNode (fr_source identity)) (\<lambda>source.
       bind_result (encodeDestination identity) (\<lambda>destination.
         Inr (list_all utf8_roundtrips
           ([source, destination, fr_service_session identity, fr_operation_id identity, fr_message_id identity] @
            receipt_strings identity))))"

subsection \<open>Encoding one frame\<close>

definition json_int :: "int \<Rightarrow> json" where
  "json_int i = JNumber (f64_of_int i)"

definition json_receipt :: "receipt_identity option \<Rightarrow> fields" where
  "json_receipt receipt =
     (case receipt of
        None \<Rightarrow> []
      | Some r \<Rightarrow> [(js_lit ''receipt'', JObject [(js_lit ''operation_id'', JString (receipt_operation_id r)),
          (js_lit ''message_id'', JString (receipt_message_id r))])])"

text \<open>The object \<^verbatim>\<open>compact\<close>; an empty destination stands for none.\<close>

definition compact_object ::
    "int list \<Rightarrow> jstring \<Rightarrow> jstring \<Rightarrow> jstring list \<Rightarrow> receipt_identity option \<Rightarrow> jstring \<Rightarrow> fields" where
  "compact_object numbers k y strings receipt p =
     [(js_lit ''v'', json_int (numbers ! 0)), (js_lit ''k'', JString k), (js_lit ''y'', JString y), (js_lit ''s'', JString (strings ! 0))] @
     (if strings ! 1 = [] then [] else [(js_lit ''d'', JString (strings ! 1))]) @
     [(js_lit ''g'', json_int (numbers ! 3)), (js_lit ''x'', JString (strings ! 2)), (js_lit ''q'', json_int (numbers ! 4)),
      (js_lit ''o'', JString (strings ! 3)), (js_lit ''m'', JString (strings ! 4)),
      (js_lit ''i'', json_int (numbers ! 5)), (js_lit ''n'', json_int (numbers ! 6))] @
     json_receipt receipt @ [(js_lit ''p'', JString p)]"

definition frame_prefix :: "codec_env \<Rightarrow> frame_encoding \<Rightarrow> bytes" where
  "frame_prefix env encoding =
     (if encoding = DeflateV2 then [DEFLATE_V2_MARKER]
      else if encoding = DeflateV3 then [DEFLATE_V3_MARKER]
      else DEFLATE_V1_MARKER # dictionary_digest env)"

text \<open>The header of the three deflate encodings.\<close>

definition encodeDeflateHeader ::
    "frame_identity \<Rightarrow> jstring list \<Rightarrow> nat \<Rightarrow> nat \<Rightarrow> frame_encoding \<Rightarrow> bytes result" where
  "encodeDeflateHeader identity strings index count encoding =
     bind_result (write_all writeFrameVarint (header_numbers identity index count)) (\<lambda>numbers.
       bind_result (write_all writeHeaderText strings) (\<lambda>texts.
         if encoding = DeflateV3 then
           bind_result (writeFrameVarint (if fr_receipt identity = None then 0 else 1)) (\<lambda>flag.
             bind_result (write_all writeHeaderText (receipt_strings identity)) (\<lambda>receipt.
               Inr (numbers @ texts @ flag @ receipt)))
         else Inr (numbers @ texts)))"

definition encodeDeflateFrame ::
    "codec_env \<Rightarrow> frame_identity \<Rightarrow> nat \<Rightarrow> nat \<Rightarrow> bytes \<Rightarrow> frame_encoding \<Rightarrow> bytes result" where
  "encodeDeflateFrame env identity index count payload encoding =
     bind_result (validateReceipt identity encoding index count) (\<lambda>_.
       bind_result (encodeNode (fr_source identity)) (\<lambda>source.
         bind_result (encodeDestination identity) (\<lambda>destination.
           bind_result (encodeDeflateHeader identity
               [source, destination, fr_service_session identity, fr_operation_id identity, fr_message_id identity]
               index count encoding) (\<lambda>fields.
             Inr (frame_prefix env encoding @ deflate env (fields @ payload))))))"

definition encodeBinaryFrame :: "codec_env \<Rightarrow> frame_identity \<Rightarrow> nat \<Rightarrow> nat \<Rightarrow> bytes \<Rightarrow> bytes result" where
  "encodeBinaryFrame env identity index count payload =
     (let binaryPayload = binary_payload env payload
      in bind_result (encodeBinaryHeader identity index count (binaryPayload = None)) (\<lambda>fields.
           Inr (BINARY_V1_MARKER #
             deflate env (fields @ (case binaryPayload of None \<Rightarrow> payload | Some b \<Rightarrow> b)))))"

definition encodeAdaptiveBinaryFrame :: "codec_env \<Rightarrow> frame_identity \<Rightarrow> nat \<Rightarrow> nat \<Rightarrow> bytes \<Rightarrow> bytes result" where
  "encodeAdaptiveBinaryFrame env identity index count payload =
     bind_result (encodeBinaryFrame env identity index count payload) (\<lambda>binary.
       bind_result (legacyHeaderRoundTrips identity) (\<lambda>legacy.
         if \<not> legacy then Inr binary
         else bind_result (encodeDeflateFrame env identity index count payload
             (if fr_receipt identity = None then DeflateV2 else DeflateV3)) (\<lambda>fallback.
           Inr (if length binary \<ge> length fallback then fallback else binary))))"

definition encodeMessageFrame :: "codec_env \<Rightarrow> frame_identity \<Rightarrow> nat \<Rightarrow> nat \<Rightarrow> bytes \<Rightarrow> bytes result" where
  "encodeMessageFrame env identity index count payload =
     bind_result (encodeBinaryHeader identity index count True) (\<lambda>fields.
       let header = deflate env fields
       in if length header > 255 then Inl (RangeError ''Message-v1 header exceeds its length field'')
          else Inr ([MESSAGE_V1_MARKER, word_of_nat (length header)] @ header @ payload))"

definition encodeCompactFrame ::
    "codec_env \<Rightarrow> frame_identity \<Rightarrow> nat \<Rightarrow> nat \<Rightarrow> bytes \<Rightarrow> frame_encoding \<Rightarrow> bytes result" where
  "encodeCompactFrame env identity index count payload encoding =
     bind_result (validateReceipt identity encoding index count) (\<lambda>_.
       bind_result (encodeNode (fr_source identity)) (\<lambda>source.
         bind_result (encodeDestination identity) (\<lambda>destination.
           (case encoding of
              CanonicalJson \<Rightarrow>
                encodeCanonicalJSON (json_bytes (number_text env)) (JObject (compact_object
                  (header_numbers identity index count) [MESSAGE_TYPE_CODES (fr_message_type identity)]
                  [PRIORITY_CODES (fr_priority identity)]
                  [source, destination, fr_service_session identity, fr_operation_id identity, fr_message_id identity]
                  (fr_receipt identity) (to_base64url payload)))
            | BinaryV1 \<Rightarrow> encodeAdaptiveBinaryFrame env identity index count payload
            | MessageV1 \<Rightarrow> encodeMessageFrame env identity index count payload
            | MessageV2 \<Rightarrow> encodeMessageFrame env identity index count payload
            | _ \<Rightarrow> encodeDeflateFrame env identity index count payload encoding))))"

subsection \<open>Fragments\<close>

definition chunk_of :: "bytes \<Rightarrow> nat \<Rightarrow> nat \<Rightarrow> bytes" where
  "chunk_of payload chunkSize index = take chunkSize (drop (index * chunkSize) payload)"

text \<open>\<^verbatim>\<open>Math.ceil(payload.byteLength / chunkSize)\<close>.\<close>

definition chunk_total :: "bytes \<Rightarrow> nat \<Rightarrow> nat" where
  "chunk_total payload chunkSize = (length payload + chunkSize - 1) div chunkSize"

fun frames_from ::
    "codec_env \<Rightarrow> bytes \<Rightarrow> frame_identity \<Rightarrow> nat \<Rightarrow> nat \<Rightarrow> frame_encoding \<Rightarrow> nat list \<Rightarrow> bytes list result" where
  "frames_from env payload identity chunkSize count encoding [] = Inr []"
| "frames_from env payload identity chunkSize count encoding (index # indexes) =
     bind_result (encodeCompactFrame env identity index count (chunk_of payload chunkSize index) encoding) (\<lambda>frame.
       bind_result (frames_from env payload identity chunkSize count encoding indexes) (\<lambda>frames. Inr (frame # frames)))"

definition framesForChunkSize ::
    "codec_env \<Rightarrow> bytes \<Rightarrow> frame_identity \<Rightarrow> nat \<Rightarrow> frame_encoding \<Rightarrow> bytes list result" where
  "framesForChunkSize env payload identity chunkSize encoding =
     (let count = chunk_total payload chunkSize
      in frames_from env payload identity chunkSize count encoding [0..<count])"

fun fit_from ::
    "codec_env \<Rightarrow> bytes \<Rightarrow> frame_identity \<Rightarrow> nat \<Rightarrow> nat \<Rightarrow> nat \<Rightarrow> frame_encoding \<Rightarrow> nat list \<Rightarrow> bool result" where
  "fit_from env payload identity chunkSize count maxFrameBytes encoding [] = Inr True"
| "fit_from env payload identity chunkSize count maxFrameBytes encoding (index # indexes) =
     bind_result (encodeCompactFrame env identity index count (chunk_of payload chunkSize index) encoding) (\<lambda>frame.
       if length frame > maxFrameBytes then Inr False
       else fit_from env payload identity chunkSize count maxFrameBytes encoding indexes)"

definition framesFit ::
    "codec_env \<Rightarrow> bytes \<Rightarrow> frame_identity \<Rightarrow> nat \<Rightarrow> nat \<Rightarrow> nat \<Rightarrow> frame_encoding \<Rightarrow> bool result" where
  "framesFit env payload identity chunkSize count maxFrameBytes encoding =
     fit_from env payload identity chunkSize count maxFrameBytes encoding [0..<count]"

text \<open>The search for the largest chunk size that fits, downwards.\<close>

fun chunk_search ::
    "codec_env \<Rightarrow> bytes \<Rightarrow> frame_identity \<Rightarrow> nat \<Rightarrow> frame_encoding \<Rightarrow> nat \<Rightarrow> bytes list result" where
  "chunk_search env payload identity maxFrameBytes encoding 0 =
     Inl (RangeError ''Link envelope leaves no room for a payload chunk'')"
| "chunk_search env payload identity maxFrameBytes encoding (Suc n) =
     (let count = chunk_total payload (Suc n)
      in if count > MAX_LINK_FRAGMENTS then chunk_search env payload identity maxFrameBytes encoding n
         else bind_result (framesFit env payload identity (Suc n) count maxFrameBytes encoding) (\<lambda>fit.
           if \<not> fit then chunk_search env payload identity maxFrameBytes encoding n
           else framesForChunkSize env payload identity (Suc n) encoding))"

text \<open>The guards with which each call of \<^verbatim>\<open>fragmentPayload\<close> starts; they give the frame size to use.\<close>

definition fragment_guards :: "bytes \<Rightarrow> frame_identity \<Rightarrow> int \<Rightarrow> frame_encoding \<Rightarrow> nat result" where
  "fragment_guards payload identity maxFrameBytes encoding =
     (if length payload = 0 then Inl (TypeError ''Link payload must not be empty'')
      else if length payload > MAX_LINK_MESSAGE_BYTES then Inl (RangeError ''Link payload exceeds 128 KiB'')
      else if \<not> is_safe_integer maxFrameBytes \<or> maxFrameBytes < 64 then Inl (RangeError ''maxFrameBytes is too small'')
      else bind_result (validateReceipt identity encoding 0 1) (\<lambda>_.
        Inr (min (nat maxFrameBytes) MESHTASTIC_APPLICATION_PAYLOAD_BYTES)))"

text \<open>\<^verbatim>\<open>fragmentPayload\<close> for the encodings that encode every frame alone.\<close>

definition fragmentPlain ::
    "codec_env \<Rightarrow> bytes \<Rightarrow> frame_identity \<Rightarrow> int \<Rightarrow> frame_encoding \<Rightarrow> bytes list result" where
  "fragmentPlain env payload identity maxFrameBytes encoding =
     bind_result (fragment_guards payload identity maxFrameBytes encoding) (\<lambda>maxFrameBytes.
       let search = chunk_search env payload identity maxFrameBytes encoding
             (min (length payload) (maxFrameBytes * (if encoding = CanonicalJson then 1 else 4)))
       in if encoding = CanonicalJson then search
          else bind_result (encodeCompactFrame env identity 0 1 payload encoding) (\<lambda>whole.
            if length whole \<le> maxFrameBytes then Inr [whole]
            else if fr_receipt identity \<noteq> None then Inl (RangeError ''Receipt metadata requires a single frame'')
            else search))"

text \<open>The loop of \<^verbatim>\<open>fragmentEncodedMessage\<close>; \<open>None\<close> is \<^verbatim>\<open>undefined\<close>.\<close>

fun encoded_search ::
    "codec_env \<Rightarrow> bytes \<Rightarrow> frame_identity \<Rightarrow> nat \<Rightarrow> frame_encoding \<Rightarrow> nat \<Rightarrow> bytes list option result" where
  "encoded_search env compressed identity maxFrameBytes encoding 0 = Inr None"
| "encoded_search env compressed identity maxFrameBytes encoding (Suc n) =
     (let count = chunk_total compressed (Suc n)
      in if fr_receipt identity \<noteq> None \<and> count \<noteq> 1 then Inr None
         else if count > MAX_LINK_FRAGMENTS then encoded_search env compressed identity maxFrameBytes encoding n
         else bind_result (framesFit env compressed identity (Suc n) count maxFrameBytes encoding) (\<lambda>fit.
           if \<not> fit then encoded_search env compressed identity maxFrameBytes encoding n
           else bind_result (framesForChunkSize env compressed identity (Suc n) encoding) (\<lambda>frames. Inr (Some frames))))"

definition fragmentEncodedMessage ::
    "codec_env \<Rightarrow> bytes option \<Rightarrow> frame_identity \<Rightarrow> nat \<Rightarrow> frame_encoding \<Rightarrow> bytes list option result" where
  "fragmentEncodedMessage env compressed identity maxFrameBytes encoding =
     (case compressed of
        None \<Rightarrow> Inr None
      | Some bs \<Rightarrow>
          (case encoded_search env bs identity maxFrameBytes encoding (min (length bs) maxFrameBytes) of
             Inl e \<Rightarrow> if is_range_error e then Inr None else Inl e
           | Inr r \<Rightarrow> Inr r))"

definition total_bytes :: "bytes list \<Rightarrow> nat" where
  "total_bytes frames = sum_list (map length frames)"

text \<open>A candidate is taken when it needs no more frames and fewer bytes, or when nothing else fits.\<close>

definition choose_frames :: "bytes list option \<Rightarrow> bytes list result \<Rightarrow> bytes list result" where
  "choose_frames candidate baseline =
     (case baseline of
        Inl e \<Rightarrow> (case candidate of Some c \<Rightarrow> if is_range_error e then Inr c else Inl e | None \<Rightarrow> Inl e)
      | Inr b \<Rightarrow> (case candidate of
            Some c \<Rightarrow> if length c \<le> length b \<and> total_bytes c < total_bytes b then Inr c else Inr b
          | None \<Rightarrow> Inr b))"

definition fragmentCompressedMessage :: "codec_env \<Rightarrow> bytes \<Rightarrow> frame_identity \<Rightarrow> nat \<Rightarrow> bytes list result" where
  "fragmentCompressedMessage env payload identity maxFrameBytes =
     bind_result (encodeAdaptiveBinaryFrame env identity 0 1 payload) (\<lambda>whole.
       if length whole \<le> maxFrameBytes then Inr [whole]
       else bind_result (encodeCompressedMessage env payload) (\<lambda>compressed.
         bind_result (fragmentEncodedMessage env compressed identity maxFrameBytes MessageV1) (\<lambda>candidate.
           choose_frames candidate (fragmentPlain env payload identity (int maxFrameBytes) BinaryV1))))"

definition fragmentV1 :: "codec_env \<Rightarrow> bytes \<Rightarrow> frame_identity \<Rightarrow> int \<Rightarrow> bytes list result" where
  "fragmentV1 env payload identity maxFrameBytes =
     bind_result (fragment_guards payload identity maxFrameBytes MessageV1)
       (fragmentCompressedMessage env payload identity)"

definition fragmentMethodMessage :: "codec_env \<Rightarrow> bytes \<Rightarrow> frame_identity \<Rightarrow> nat \<Rightarrow> bytes list result" where
  "fragmentMethodMessage env payload identity maxFrameBytes =
     bind_result (encodeAdaptiveBinaryFrame env identity 0 1 payload) (\<lambda>previousWhole.
       bind_result (encodeBinaryHeader identity 0 1 True) (\<lambda>header.
         bind_result (compressValue env payload header) (\<lambda>(mode, bs).
           let whole = [METHOD_FRAME_MARKER, word_of_nat mode] @ bs
           in if length previousWhole \<le> maxFrameBytes
              then Inr [if length whole < length previousWhole then whole else previousWhole]
              else bind_result
                (if length whole \<le> maxFrameBytes then Inr (Some [whole])
                 else bind_result (compressValue env payload []) (\<lambda>(mode, bs).
                   let envelope = [0xb3, 1, word_of_nat mode] @ bs
                   in if length envelope < length payload
                      then fragmentEncodedMessage env (Some envelope) identity maxFrameBytes MessageV2
                      else Inr None)) (\<lambda>candidate.
                choose_frames candidate (fragmentV1 env payload identity (int maxFrameBytes))))))"

definition fragmentPayload ::
    "codec_env \<Rightarrow> bytes \<Rightarrow> frame_identity \<Rightarrow> int \<Rightarrow> frame_encoding \<Rightarrow> bytes list result" where
  "fragmentPayload env payload identity maxFrameBytes encoding =
     (if encoding = MessageV1 then fragmentV1 env payload identity maxFrameBytes
      else if encoding = MessageV2 then
        bind_result (fragment_guards payload identity maxFrameBytes MessageV2)
          (fragmentMethodMessage env payload identity)
      else fragmentPlain env payload identity maxFrameBytes encoding)"

subsection \<open>Decoding\<close>

definition readHeaderString :: "bytes \<Rightarrow> (jstring \<times> bytes) result" where
  "readHeaderString raw =
     bind_result (readVarint raw) (\<lambda>(len, raw).
       if len > 65535 \<or> len > length raw then Inl (TypeError ''Truncated binary-v1 frame header'')
       else bind_result (decodeBinaryUtf8 (take len raw)) (\<lambda>v. Inr (v, drop len raw)))"

definition readHeaderText :: "bytes \<Rightarrow> (jstring \<times> bytes) result" where
  "readHeaderText raw =
     bind_result (readVarint raw) (\<lambda>(len, raw).
       if len > 65535 \<or> len > length raw then Inl (TypeError ''Truncated compressed frame header'')
       else (case textDecode (take len raw) of
           None \<Rightarrow> Inl (TypeError ''The encoded data was not valid for encoding utf-8'')
         | Some v \<Rightarrow> Inr (v, drop len raw)))"

text \<open>The two strings of a receipt, when the flag says that there is one.\<close>

definition read_receipt ::
    "(bytes \<Rightarrow> (jstring \<times> bytes) result) \<Rightarrow> bool \<Rightarrow> bytes \<Rightarrow> (receipt_identity option \<times> bytes) result" where
  "read_receipt rd present raw =
     (if present then
        bind_result (rd raw) (\<lambda>(a, raw). bind_result (rd raw) (\<lambda>(b, raw).
          Inr (Some \<lparr>receipt_operation_id = a, receipt_message_id = b\<rparr>, raw)))
      else Inr (None, raw))"

definition decodeCompressedFrame :: "codec_env \<Rightarrow> bytes \<Rightarrow> frame_encoding \<Rightarrow> json result" where
  "decodeCompressedFrame env bs encoding =
     (let prefix = frame_prefix env encoding
      in if take (length prefix) bs \<noteq> prefix then Inl (TypeError ''Invalid deflate frame marker'')
         else bind_result (inflate env (MAX_LINK_MESSAGE_BYTES + (if encoding = DeflateV3 then 7 * 65538 + 64 else 5 * 65538 + 56))
             (drop (length prefix) bs)) (\<lambda>(raw, _).
           bind_result (read_many readVarint 7 raw) (\<lambda>(numbers, raw).
             bind_result (read_many readHeaderText 5 raw) (\<lambda>(strings, raw).
               bind_result (if encoding = DeflateV3 then readVarint raw else Inr (0, raw)) (\<lambda>(receiptFlag, raw).
                 if receiptFlag \<noteq> 0 \<and> receiptFlag \<noteq> 1 then Inl (TypeError ''Invalid deflate-v3 receipt flag'')
                 else bind_result (read_receipt readHeaderText (receiptFlag = 1) raw) (\<lambda>(receipt, raw).
                   if length raw > MAX_LINK_MESSAGE_BYTES then Inl (RangeError ''Link payload exceeds 128 KiB'')
                   else Inr (JObject (compact_object (map int numbers) (fromCharCode (numbers ! 1)) (fromCharCode (numbers ! 2))
                     strings receipt (to_base64url raw)))))))))"

definition decodeBinaryBody :: "codec_env \<Rightarrow> bytes \<Rightarrow> bytes option \<Rightarrow> int option \<Rightarrow> json result" where
  "decodeBinaryBody env raw separatePayload methodMode =
     bind_result (read_many readVarint 7 raw) (\<lambda>(numbers, raw).
       bind_result (read_many readHeaderString 5 raw) (\<lambda>(strings, raw).
         bind_result (readVarint raw) (\<lambda>(receiptFlag, raw).
           if receiptFlag > 3 then Inl (TypeError ''Invalid binary-v1 receipt flag'')
           else bind_result (read_receipt readHeaderString (receiptFlag AND 1 = 1) raw) (\<lambda>(receipt, raw).
             if separatePayload \<noteq> None \<and> (raw \<noteq> [] \<or> receiptFlag AND 2 = 0)
             then Inl (TypeError ''Invalid message-v1 header boundary or payload flag'')
             else if separatePayload = None \<and> raw = [] then Inl (TypeError ''Binary-v1 payload must not be empty'')
             else if methodMode \<noteq> None \<and> receiptFlag AND 2 = 0
             then Inl (TypeError ''Method frame requires an opaque encoded payload'')
             else bind_result
               (case separatePayload of
                  Some p \<Rightarrow> Inr p
                | None \<Rightarrow> if receiptFlag AND 2 = 2 then Inr raw else from_binary_payload env raw 0) (\<lambda>encodedPayload.
               bind_result
                 (case methodMode of None \<Rightarrow> Inr encodedPayload | Some mode \<Rightarrow> restoreValue env mode encodedPayload) (\<lambda>payload.
                 if length payload > MAX_LINK_MESSAGE_BYTES then Inl (RangeError ''Link payload exceeds 128 KiB'')
                 else Inr (JObject (compact_object (map int numbers) (fromCharCode (numbers ! 1)) (fromCharCode (numbers ! 2))
                   strings receipt (to_base64url payload)))))))))"

definition decodeBinaryFrame :: "codec_env \<Rightarrow> bytes \<Rightarrow> json result" where
  "decodeBinaryFrame env bs =
     (if byte_at bs 0 \<noteq> Some BINARY_V1_MARKER then Inl (TypeError ''Invalid binary-v1 frame marker'')
      else bind_result (inflate env (MAX_LINK_MESSAGE_BYTES * 4 + 7 * 65538 + 64) (drop 1 bs)) (\<lambda>(raw, _).
        decodeBinaryBody env raw None None))"

definition decodeMessageFrame :: "codec_env \<Rightarrow> bytes \<Rightarrow> json result" where
  "decodeMessageFrame env bs =
     (case byte_at bs 1 of
        None \<Rightarrow> Inl (TypeError ''Truncated message-v1 frame'')
      | Some b \<Rightarrow>
          let headerLength = unat b
          in if headerLength = 0 \<or> headerLength + 2 \<ge> length bs then Inl (TypeError ''Truncated message-v1 frame'')
             else bind_result (inflate env (7 * 65538 + 64) (take headerLength (drop 2 bs))) (\<lambda>(buffer, bytesWritten).
               if bytesWritten \<noteq> headerLength then Inl (TypeError ''Trailing message-v1 header bytes'')
               else decodeBinaryBody env buffer (Some (drop (2 + headerLength) bs)) None))"

fun single_chunk :: "json \<Rightarrow> bool" where
  "single_chunk (JObject v) \<longleftrightarrow> safe_integer (field_of v ''i'') = Some 0 \<and> safe_integer (field_of v ''n'') = Some 1"
| "single_chunk _ \<longleftrightarrow> False"

definition decodeMethodFrame :: "codec_env \<Rightarrow> bytes \<Rightarrow> json result" where
  "decodeMethodFrame env bs =
     bind_result (decompressValue env (mode_at bs 1) (drop 2 bs) (MAX_LINK_MESSAGE_BYTES * 8 + 7 * 65538 + 64)) (\<lambda>raw.
       bind_result (decodeBinaryBody env raw None (Some (mode_at bs 1))) (\<lambda>v.
         if \<not> single_chunk v then Inl (TypeError ''Method frame requires one complete payload'') else Inr v))"

subsection \<open>The checks on a decoded object\<close>

definition isMessageType :: "json option \<Rightarrow> bool" where
  "isMessageType v \<longleftrightarrow> isOneOf v [''s'', ''t'', ''p'', ''q'', ''r'', ''o'', ''u'', ''b'', ''c'']"

definition isPriority :: "json option \<Rightarrow> bool" where
  "isPriority v \<longleftrightarrow> isOneOf v [''s'', ''t'', ''q'', ''l'', ''r'', ''o'']"

fun isReceiptIdentity :: "json option \<Rightarrow> bool" where
  "isReceiptIdentity (Some (JObject r)) \<longleftrightarrow>
     isNonEmptyString (field_of r ''operation_id'') \<and> isNonEmptyString (field_of r ''message_id'')"
| "isReceiptIdentity _ \<longleftrightarrow> False"

fun isCompactFrame :: "json \<Rightarrow> bool" where
  "isCompactFrame (JObject v) \<longleftrightarrow>
     safe_integer (field_of v ''v'') = Some LINK_PROTOCOL_REVISION \<and> isMessageType (field_of v ''k'') \<and>
     has_string (field_of v ''s'') \<and> (field_of v ''d'' = None \<or> has_string (field_of v ''d'')) \<and>
     isNonNegativeInteger (field_of v ''g'') \<and> isNonEmptyString (field_of v ''x'') \<and>
     isNonNegativeInteger (field_of v ''q'') \<and> isNonEmptyString (field_of v ''o'') \<and>
     isNonEmptyString (field_of v ''m'') \<and> isPriority (field_of v ''y'') \<and> isNonNegativeInteger (field_of v ''i'') \<and>
     (case safe_integer (field_of v ''n'') of
        None \<Rightarrow> False
      | Some n \<Rightarrow> n > 0 \<and> n \<le> int MAX_LINK_FRAGMENTS \<and>
          (case safe_integer (field_of v ''i'') of None \<Rightarrow> False | Some i \<Rightarrow> i < n)) \<and>
     isBase64URL (field_of v ''p'') \<and>
     (field_of v ''receipt'' = None \<or>
      (isReceiptIdentity (field_of v ''receipt'') \<and> field_is v ''k'' ''p'' \<and> field_of v ''d'' \<noteq> None \<and>
       safe_integer (field_of v ''i'') = Some 0 \<and> safe_integer (field_of v ''n'') = Some 1))"
| "isCompactFrame _ \<longleftrightarrow> False"

subsection \<open>The frame\<close>

definition the_string :: "json option \<Rightarrow> jstring" where
  "the_string v = (case v of Some (JString s) \<Rightarrow> s | _ \<Rightarrow> [])"

definition the_integer :: "json option \<Rightarrow> int" where
  "the_integer v = (case safe_integer v of None \<Rightarrow> 0 | Some i \<Rightarrow> i)"

definition the_receipt :: "json option \<Rightarrow> receipt_identity option" where
  "the_receipt v =
     (case v of
        Some (JObject r) \<Rightarrow> Some \<lparr>receipt_operation_id = the_string (field_of r ''operation_id''),
          receipt_message_id = the_string (field_of r ''message_id'')\<rparr>
      | _ \<Rightarrow> None)"

text \<open>By the first byte; \<^verbatim>\<open>decodeJSON\<close> for everything below \<^verbatim>\<open>0xa0\<close>.\<close>

definition decode_by_marker :: "codec_env \<Rightarrow> bytes \<Rightarrow> json result" where
  "decode_by_marker env bs =
     (let marker = byte_at bs 0
      in if marker = Some DEFLATE_V1_MARKER then decodeCompressedFrame env bs DeflateV1
         else if marker = Some DEFLATE_V2_MARKER then decodeCompressedFrame env bs DeflateV2
         else if marker = Some DEFLATE_V3_MARKER then decodeCompressedFrame env bs DeflateV3
         else if marker = Some BINARY_V1_MARKER then decodeBinaryFrame env bs
         else if marker = Some MESSAGE_V1_MARKER then decodeMessageFrame env bs
         else if marker = Some METHOD_FRAME_MARKER then decodeMethodFrame env bs
         else if (case marker of None \<Rightarrow> False | Some b \<Rightarrow> unat b \<ge> 0xa0)
         then Inl (TypeError ''Unknown Link frame encoding marker'')
         else (case decode_json env bs of None \<Rightarrow> Inl (PlainError ''SyntaxError'') | Some v \<Rightarrow> Inr v))"

definition decodeFrame :: "codec_env \<Rightarrow> bytes \<Rightarrow> link_frame result" where
  "decodeFrame env bs =
     (if length bs > MESHTASTIC_APPLICATION_PAYLOAD_BYTES then Inl (RangeError ''Meshtastic Link frame exceeds 233 bytes'')
      else bind_result (decode_by_marker env bs) (\<lambda>v.
        case v of
          JObject v \<Rightarrow>
            if \<not> isCompactFrame (JObject v) then Inl (TypeError ''Invalid Meshtastic Link frame'')
            else if field_of v ''receipt'' \<noteq> None \<and>
              byte_at bs 0 \<notin> Some ` {DEFLATE_V3_MARKER, BINARY_V1_MARKER, MESSAGE_V1_MARKER, METHOD_FRAME_MARKER}
            then Inl (TypeError ''Receipt metadata requires deflate-v3, binary-v1, message-v1, or message-v2'')
            else bind_result (decodeNode (the_string (field_of v ''s''))) (\<lambda>source.
              bind_result (case field_of v ''d'' of None \<Rightarrow> Inr None
                | Some _ \<Rightarrow> bind_result (decodeNode (the_string (field_of v ''d''))) (\<lambda>node. Inr (Some node))) (\<lambda>destination.
                let payload = of_base64url (the_string (field_of v ''p''))
                in if payload = [] then Inl (TypeError ''Link frame chunk must not be empty'')
                   else bind_result (decodeMessageType (the_string (field_of v ''k''))) (\<lambda>message_type.
                     bind_result (decodePriority (the_string (field_of v ''y''))) (\<lambda>priority.
                       Inr \<lparr>frame_identity_of = \<lparr>
                              fr_revision = LINK_PROTOCOL_REVISION, fr_message_type = message_type, fr_source = source,
                              fr_destination = destination, fr_source_generation = the_integer (field_of v ''g''),
                              fr_service_session = the_string (field_of v ''x''),
                              fr_source_sequence = the_integer (field_of v ''q''),
                              fr_operation_id = the_string (field_of v ''o''), fr_message_id = the_string (field_of v ''m''),
                              fr_receipt = the_receipt (field_of v ''receipt''), fr_priority = priority\<rparr>,
                            chunk_index = the_integer (field_of v ''i''), chunk_count = the_integer (field_of v ''n''),
                            frame_payload = payload\<rparr>))))
        | _ \<Rightarrow> Inl (TypeError ''Invalid Meshtastic Link frame'')))"

lemma safe_json_int: "is_safe_integer i \<Longrightarrow> safe_integer (Some (json_int i)) = Some i"
  by (simp add: json_int_def f64_int_of_int)

section \<open>base64url\<close>

lemma unat_b64_digit:
  "n < 64 \<Longrightarrow> unat (b64_digit n) =
     (if n < 26 then n + 65 else if n < 52 then n + 71 else if n < 62 then n - 4 else if n = 62 then 45 else 95)"
  unfolding b64_digit_def by (rule unat_jschar_of_nat) auto

lemma b64_digit_value:
  assumes "n < 64"
  shows "b64_value (b64_digit n) = Some n"
proof -
  consider "n < 26" | "26 \<le> n" "n < 52" | "52 \<le> n" "n < 62" | "n = 62" | "n = 63" using assms by linarith
  then show ?thesis unfolding b64_value_def unat_b64_digit[OF assms] by cases (auto simp: Let_def)
qed

lemma byte_of_parts: "unat (x :: byte) = n \<Longrightarrow> word_of_nat n = x"
  by auto

lemma b64_num_digit: "n < 64 \<Longrightarrow> b64_num (b64_digit n) = n"
  by (simp add: b64_num_def b64_digit_value)

lemma b64_parts:
  "unat (a::byte) div 4 < 64" "unat a mod 4 * 16 + unat (b::byte) div 16 < 64" "unat b mod 16 * 4 + unat (c::byte) div 64 < 64"
  "unat c mod 64 < 64" "unat b mod 16 * 4 < 64" "unat a mod 4 * 16 < 64"
proof -
  have "unat b div 16 < 16" "unat c div 64 < 4" "unat a div 4 < 64"
    using byte_lt[of a] byte_lt[of b] byte_lt[of c] by (auto simp: less_mult_imp_div_less)
  moreover have "unat a mod 4 < 4" "unat b mod 16 < 16" by simp_all
  ultimately show "unat a div 4 < 64" "unat a mod 4 * 16 + unat b div 16 < 64" "unat b mod 16 * 4 + unat c div 64 < 64"
    "unat c mod 64 < 64" "unat b mod 16 * 4 < 64" "unat a mod 4 * 16 < 64" by auto
qed

lemma b64_joined:
  "(unat (a::byte) div 4) * 4 + (unat a mod 4 * 16 + unat (b::byte) div 16) div 16 = unat a"
  "(unat a mod 4 * 16 + unat b div 16) mod 16 * 16 + (unat b mod 16 * 4 + unat (c::byte) div 64) div 4 = unat b"
  "(unat b mod 16 * 4 + unat c div 64) mod 4 * 64 + unat c mod 64 = unat c"
  "(unat a div 4) * 4 + (unat a mod 4 * 16) div 16 = unat a"
  "(unat a mod 4 * 16 + unat b div 16) mod 16 * 16 + (unat b mod 16 * 4) div 4 = unat b"
proof -
  have "unat b div 16 < 16" "unat c div 64 < 4"
    using byte_lt[of b] byte_lt[of c] by (auto simp: less_mult_imp_div_less)
  then have "(unat a mod 4 * 16 + unat b div 16) div 16 = unat a mod 4" "(unat a mod 4 * 16 + unat b div 16) mod 16 = unat b div 16"
    "(unat b mod 16 * 4 + unat c div 64) div 4 = unat b mod 16" "(unat b mod 16 * 4 + unat c div 64) mod 4 = unat c div 64"
    by auto
  then show "(unat a div 4) * 4 + (unat a mod 4 * 16 + unat b div 16) div 16 = unat a"
    "(unat a mod 4 * 16 + unat b div 16) mod 16 * 16 + (unat b mod 16 * 4 + unat c div 64) div 4 = unat b"
    "(unat b mod 16 * 4 + unat c div 64) mod 4 * 64 + unat c mod 64 = unat c"
    "(unat a div 4) * 4 + (unat a mod 4 * 16) div 16 = unat a"
    "(unat a mod 4 * 16 + unat b div 16) mod 16 * 16 + (unat b mod 16 * 4) div 4 = unat b"
    by simp_all
qed

lemma base64url_roundtrip: "of_base64url (to_base64url bs) = bs"
  by (induction bs rule: to_base64url.induct)
    (simp_all only: to_base64url.simps of_base64url.simps b64_num_digit[OF b64_parts(1)] b64_num_digit[OF b64_parts(2)]
      b64_num_digit[OF b64_parts(3)] b64_num_digit[OF b64_parts(4)] b64_num_digit[OF b64_parts(5)] b64_num_digit[OF b64_parts(6)]
      b64_joined byte_of_parts)

lemma base64url_alphabet: "list_all (\<lambda>c. b64_value c \<noteq> None) (to_base64url bs)"
  by (induction bs rule: to_base64url.induct) (simp_all add: b64_digit_value b64_parts)

lemma base64url_empty: "to_base64url bs = [] \<longleftrightarrow> bs = []"
  by (cases bs rule: to_base64url.cases) auto

lemma isBase64URL_encoded: "bs \<noteq> [] \<Longrightarrow> isBase64URL (Some (JString (to_base64url bs)))"
  unfolding isBase64URL.simps base64url_roundtrip base64url_empty by (simp only: base64url_alphabet simp_thms)

section \<open>Headers\<close>

definition enc_string :: "jstring \<Rightarrow> bytes" where
  "enc_string v = varint_loop (length (encodeBinaryUtf8 v)) @ encodeBinaryUtf8 v"

definition enc_text :: "jstring \<Rightarrow> bytes" where
  "enc_text v = varint_loop (length (textEncode v)) @ textEncode v"

definition no_bom :: "jstring \<Rightarrow> bool" where
  "no_bom v \<longleftrightarrow> (v \<noteq> [] \<longrightarrow> hd v \<noteq> 0xfeff)"

lemma field_length_safe: "n \<le> 65535 \<Longrightarrow> n \<le> max_safe_integer"
  by (simp add: max_safe_integer_def)

interpretation header_string: framed_codec enc_string readHeaderString "\<lambda>v. length (encodeBinaryUtf8 v) \<le> 65535"
  by unfold_locales (simp add: enc_string_def readHeaderString_def readVarint_enc field_length_safe decode_encode_utf8)

lemma textDecode_text: "utf8_roundtrips v \<Longrightarrow> no_bom v \<Longrightarrow> textDecode (textEncode v) = Some v"
  by (cases v) (auto simp: textDecode_def textEncode_def utf8_roundtrips_def no_bom_def decode_encode_utf8)

interpretation header_text: framed_codec enc_text readHeaderText
  "\<lambda>v. length (textEncode v) \<le> 65535 \<and> utf8_roundtrips v \<and> no_bom v"
  by unfold_locales (simp add: enc_text_def readHeaderText_def readVarint_enc field_length_safe textDecode_text)

lemma write_all_eq:
  assumes "\<And>x bs. f x = Inr bs \<longleftrightarrow> ok x \<and> bs = enc x"
  shows "write_all f xs = Inr bs \<longleftrightarrow> (\<forall>x \<in> set xs. ok x) \<and> bs = concat (map enc xs)"
  by (induction xs arbitrary: bs) (auto simp: bind_result_eq_Inr assms)

lemma frame_varint_eq: "writeFrameVarint v = Inr bs \<longleftrightarrow> (is_safe_integer v \<and> 0 \<le> v) \<and> bs = varint_loop (nat v)"
  by (auto simp: writeFrameVarint_def)

lemma header_string_eq: "writeBinaryHeaderString v = Inr bs \<longleftrightarrow> length (encodeBinaryUtf8 v) \<le> 65535 \<and> bs = enc_string v"
  by (auto simp: writeBinaryHeaderString_def Let_def bind_result_eq_Inr frame_varint_eq enc_string_def is_safe_int_iff field_length_safe)

lemma header_text_eq:
  "writeHeaderText v = Inr bs \<longleftrightarrow> (length (textEncode v) \<le> 65535 \<and> utf8_roundtrips v) \<and> bs = enc_text v"
  by (auto simp: writeHeaderText_def Let_def bind_result_eq_Inr frame_varint_eq enc_text_def is_safe_int_iff field_length_safe)

lemmas write_numbers = write_all_eq[of writeFrameVarint "\<lambda>v. is_safe_integer v \<and> 0 \<le> v" "\<lambda>v. varint_loop (nat v)", OF frame_varint_eq]
lemmas write_strings = write_all_eq[of writeBinaryHeaderString _ enc_string, OF header_string_eq]
lemmas write_texts = write_all_eq[of writeHeaderText _ enc_text, OF header_text_eq]

text \<open>The numbers of a header as the reader returns them.\<close>

definition header_nats :: "frame_identity \<Rightarrow> nat \<Rightarrow> nat \<Rightarrow> nat list" where
  "header_nats identity index count = map nat (header_numbers identity index count)"

lemma read_numbers:
  assumes "write_all writeFrameVarint (header_numbers identity index count) = Inr bs"
  shows "read_many readVarint 7 (bs @ rest) = Inr (header_nats identity index count, rest)"
    and "map int (header_nats identity index count) = header_numbers identity index count" and "length bs \<le> 56"
proof -
  let ?xs = "header_numbers identity index count"
  have ok: "\<forall>v \<in> set ?xs. is_safe_integer v \<and> 0 \<le> v" and bs: "bs = concat (map (\<lambda>v. varint_loop (nat v)) ?xs)"
    using assms by (auto simp: write_numbers)
  have safe: "\<forall>n \<in> set (map nat ?xs). n \<le> max_safe_integer" using ok by (auto simp: is_safe_integer_def)
  have "length (map nat ?xs) = 7" by (simp add: header_numbers_def)
  with codec_varint.read_many_enc[OF safe, of rest] show "read_many readVarint 7 (bs @ rest) = Inr (header_nats identity index count, rest)"
    by (simp add: bs header_nats_def comp_def)
  show "map int (header_nats identity index count) = ?xs" using ok by (auto simp: header_nats_def map_idI)
  have "length (concat (map varint_loop ns)) \<le> 8 * length ns" if "\<forall>n \<in> set ns. n \<le> max_safe_integer" for ns
    using that by (induction ns) (auto dest: varint_length)
  from this[OF safe] show "length bs \<le> 56" by (simp add: bs comp_def header_numbers_def)
qed

definition header_strings :: "frame_identity \<Rightarrow> jstring \<Rightarrow> jstring \<Rightarrow> jstring list" where
  "header_strings identity source destination =
     [source, destination, fr_service_session identity, fr_operation_id identity, fr_message_id identity]"

lemma length_enc_string: "length (encodeBinaryUtf8 v) \<le> 65535 \<Longrightarrow> length (enc_string v) \<le> 3 + length (encodeBinaryUtf8 v)"
  using length_varint_loop[of "length (encodeBinaryUtf8 v)" 3] by (simp add: enc_string_def)

lemma jschar_le: "unat (c::jschar) \<le> 65535"
  using jschar_lt[of c] by linarith

lemma utf8_triple: "length (encodeBinaryUtf8 v) \<le> 3 * length v"
proof (induction v rule: encodeBinaryUtf8.induct)
  case (2 c)
  then show ?case by (auto simp: length_code_point utf8Bytes_def jschar_le)
next
  case (3 c d cs)
  have "length (code_point_bytes (unat c)) \<le> 3" by (auto simp: length_code_point utf8Bytes_def jschar_le)
  moreover have "length (code_point_bytes (pair_code_point c d)) \<le> 4" by (simp add: length_code_point utf8Bytes_def)
  ultimately show ?case using 3 by auto
qed simp

text \<open>The strings of an identity, with the receipt's.\<close>

definition identity_strings :: "frame_identity \<Rightarrow> jstring list" where
  "identity_strings identity =
     [node_id (fr_source identity), (case fr_destination identity of None \<Rightarrow> [] | Some n \<Rightarrow> node_id n), fr_service_session identity,
      fr_operation_id identity, fr_message_id identity] @ receipt_strings identity"

definition header_small :: "frame_identity \<Rightarrow> bool" where
  "header_small identity \<longleftrightarrow> sum_list (map length (identity_strings identity)) \<le> 32768"

lemma binary_header_parts:
  assumes "encodeBinaryHeader identity index count opaque = Inr h"
  obtains numbers source destination where "write_all writeFrameVarint (header_numbers identity index count) = Inr numbers"
    "encodeNode (fr_source identity) = Inr source" "encodeDestination identity = Inr destination"
    "\<forall>v \<in> set (header_strings identity source destination @ receipt_strings identity). length (encodeBinaryUtf8 v) \<le> 65535"
    "h = numbers @ concat (map enc_string (header_strings identity source destination)) @
       varint_loop ((if fr_receipt identity = None then 0 else 1) + (if opaque then 2 else 0)) @
       concat (map enc_string (receipt_strings identity))"
proof -
  from assms obtain numbers source destination strings flag receipt where
    p: "write_all writeFrameVarint (header_numbers identity index count) = Inr numbers"
      "encodeNode (fr_source identity) = Inr source" "encodeDestination identity = Inr destination"
      "write_all writeBinaryHeaderString (header_strings identity source destination) = Inr strings"
      "writeFrameVarint ((if fr_receipt identity = None then 0 else 1) + (if opaque then 2 else 0)) = Inr flag"
      "write_all writeBinaryHeaderString (receipt_strings identity) = Inr receipt" "h = numbers @ strings @ flag @ receipt"
    unfolding encodeBinaryHeader_def header_strings_def[symmetric] bind_result_eq_Inr
    by (elim exE conjE) (rule that, assumption+, simp)
  have "flag = varint_loop ((if fr_receipt identity = None then 0 else 1) + (if opaque then 2 else 0))"
    using p(5) unfolding frame_varint_eq by (auto simp: nat_add_distrib)
  with p show ?thesis unfolding write_strings by (intro that[of numbers source destination]) auto
qed

lemma encodeNode_length: "encodeNode n = Inr s \<Longrightarrow> length s = length (node_id n) + 2"
  by (auto simp: encodeNode_def split: if_splits)

lemma encodeDestination_length:
  "encodeDestination identity = Inr s \<Longrightarrow>
     length s \<le> length (case fr_destination identity of None \<Rightarrow> [] | Some n \<Rightarrow> node_id n) + 2"
  by (auto simp: encodeDestination_def dest: encodeNode_length split: option.splits)

lemma enc_strings_length:
  "\<forall>v \<in> set vs. length (encodeBinaryUtf8 v) \<le> 65535 \<Longrightarrow>
     length (concat (map enc_string vs)) \<le> 3 * length vs + 3 * sum_list (map length vs) \<and>
     length (concat (map enc_string vs)) \<le> 65538 * length vs"
proof (induction vs)
  case (Cons v vs)
  then show ?case using length_enc_string[of v] utf8_triple[of v] by auto
qed simp

lemma receipt_strings_length: "length (receipt_strings identity) \<le> 2"
  by (simp add: receipt_strings_def split: option.split)

lemma flag_small: "length (varint_loop ((if r then 0 else 1) + (if q then 2 else 0))) = 1"
  by (simp add: varint_loop_small)

lemma binary_header_length:
  assumes "encodeBinaryHeader identity index count opaque = Inr h"
  shows "length h \<le> 7 * 65538 + 64" "header_small identity \<Longrightarrow> length h \<le> 100000"
proof -
  from assms obtain numbers source destination where
    p: "write_all writeFrameVarint (header_numbers identity index count) = Inr numbers"
      "encodeNode (fr_source identity) = Inr source" "encodeDestination identity = Inr destination"
      "\<forall>v \<in> set (header_strings identity source destination @ receipt_strings identity). length (encodeBinaryUtf8 v) \<le> 65535"
      "h = numbers @ concat (map enc_string (header_strings identity source destination)) @
       varint_loop ((if fr_receipt identity = None then 0 else 1) + (if opaque then 2 else 0)) @
       concat (map enc_string (receipt_strings identity))" by (rule binary_header_parts)
  let ?vs = "header_strings identity source destination @ receipt_strings identity"
  have h: "length h = length numbers + length (concat (map enc_string ?vs)) + 1"
    unfolding p(5) by (simp add: flag_small)
  note n = read_numbers(3)[OF p(1)]
  have l: "length ?vs \<le> 7" using receipt_strings_length[of identity] by (simp add: header_strings_def)
  note e = enc_strings_length[OF p(4)]
  show "length h \<le> 7 * 65538 + 64" using h n l e mult_le_mono2[OF l, of 65538] by linarith
  assume "header_small identity"
  moreover have "sum_list (map length ?vs) \<le> sum_list (map length (identity_strings identity)) + 4"
    using encodeNode_length[OF p(2)] encodeDestination_length[OF p(3)] by (simp add: header_strings_def identity_strings_def)
  ultimately have "sum_list (map length ?vs) \<le> 32772" by (simp add: header_small_def)
  then show "length h \<le> 100000" using h n l e by linarith
qed

section \<open>What the decoders of one frame restore\<close>

definition frame_object :: "frame_identity \<Rightarrow> jstring \<Rightarrow> jstring \<Rightarrow> nat \<Rightarrow> nat \<Rightarrow> bytes \<Rightarrow> json" where
  "frame_object identity source destination index count payload =
     JObject (compact_object (header_numbers identity index count) [MESSAGE_TYPE_CODES (fr_message_type identity)]
       [PRIORITY_CODES (fr_priority identity)] (header_strings identity source destination) (fr_receipt identity) (to_base64url payload))"

definition header_flag :: "frame_identity \<Rightarrow> bool \<Rightarrow> nat" where
  "header_flag identity opaque = (if fr_receipt identity = None then 0 else 1) + (if opaque then 2 else 0)"

lemma and_flags:
  "(0::nat) AND 1 = 0" "(1::nat) AND 1 = 1" "(2::nat) AND 1 = 0" "(3::nat) AND 1 = 1"
  "(0::nat) AND 2 = 0" "(1::nat) AND 2 = 0" "(2::nat) AND 2 = 2" "(3::nat) AND 2 = 2"
  by simp_all

lemma header_flag_cases:
  "header_flag identity opaque =
     (if fr_receipt identity = None then (if opaque then 2 else 0) else (if opaque then 3 else 1))"
  by (simp add: header_flag_def)

lemma header_flag_bits:
  "header_flag identity opaque \<le> 3" "header_flag identity opaque AND 1 = 1 \<longleftrightarrow> fr_receipt identity \<noteq> None"
  "header_flag identity opaque AND 2 = (if opaque then 2 else 0)"
proof -
  show "header_flag identity opaque \<le> 3" by (simp add: header_flag_cases)
  show "header_flag identity opaque AND 1 = 1 \<longleftrightarrow> fr_receipt identity \<noteq> None"
    unfolding header_flag_cases by (simp only: and_flags split: if_split) simp
  show "header_flag identity opaque AND 2 = (if opaque then 2 else 0)"
    unfolding header_flag_cases by (simp only: and_flags split: if_split) simp
qed

lemma read_receipt_string:
  assumes "\<forall>v \<in> set (receipt_strings identity). length (encodeBinaryUtf8 v) \<le> 65535"
  shows "read_receipt readHeaderString (fr_receipt identity \<noteq> None) (concat (map enc_string (receipt_strings identity)) @ rest) =
    Inr (fr_receipt identity, rest)"
proof (cases "fr_receipt identity")
  case (Some r)
  then show ?thesis using assms by (simp add: read_receipt_def receipt_strings_def header_string.dec_enc)
qed (simp add: read_receipt_def receipt_strings_def)

lemma read_receipt_text:
  assumes "\<forall>v \<in> set (receipt_strings identity). length (textEncode v) \<le> 65535 \<and> utf8_roundtrips v \<and> no_bom v"
  shows "read_receipt readHeaderText (fr_receipt identity \<noteq> None) (concat (map enc_text (receipt_strings identity)) @ rest) =
    Inr (fr_receipt identity, rest)"
proof (cases "fr_receipt identity")
  case (Some r)
  then show ?thesis using assms by (simp add: read_receipt_def receipt_strings_def header_text.dec_enc)
qed (simp add: read_receipt_def receipt_strings_def)

lemma header_codes:
  "fromCharCode (header_nats identity index count ! 1) = [MESSAGE_TYPE_CODES (fr_message_type identity)]"
  "fromCharCode (header_nats identity index count ! 2) = [PRIORITY_CODES (fr_priority identity)]"
  by (simp_all add: header_nats_def header_numbers_def fromCharCode_def)

lemma decode_header:
  assumes "encodeBinaryHeader identity index count opaque = Inr h"
    and nodes: "encodeNode (fr_source identity) = Inr source" "encodeDestination identity = Inr destination"
  shows "decodeBinaryBody env (h @ body) separate mode =
    (let opaque_flag = header_flag identity opaque AND 2
     in if separate \<noteq> None \<and> (body \<noteq> [] \<or> \<not> opaque) then Inl (TypeError ''Invalid message-v1 header boundary or payload flag'')
        else if separate = None \<and> body = [] then Inl (TypeError ''Binary-v1 payload must not be empty'')
        else if mode \<noteq> None \<and> \<not> opaque then Inl (TypeError ''Method frame requires an opaque encoded payload'')
        else bind_result (case separate of Some p \<Rightarrow> Inr p | None \<Rightarrow> if opaque then Inr body else from_binary_payload env body 0) (\<lambda>encoded.
          bind_result (case mode of None \<Rightarrow> Inr encoded | Some m \<Rightarrow> restoreValue env m encoded) (\<lambda>payload.
            if length payload > MAX_LINK_MESSAGE_BYTES then Inl (RangeError ''Link payload exceeds 128 KiB'')
            else Inr (frame_object identity source destination index count payload))))"
proof -
  from assms(1) obtain numbers where
    p: "write_all writeFrameVarint (header_numbers identity index count) = Inr numbers"
      "\<forall>v \<in> set (header_strings identity source destination @ receipt_strings identity). length (encodeBinaryUtf8 v) \<le> 65535"
      "h = numbers @ concat (map enc_string (header_strings identity source destination)) @ varint_loop (header_flag identity opaque) @
       concat (map enc_string (receipt_strings identity))"
    using nodes by (auto elim!: binary_header_parts simp: header_flag_def)
  let ?s = "header_strings identity source destination"
  let ?r1 = "varint_loop (header_flag identity opaque) @ concat (map enc_string (receipt_strings identity)) @ body"
  have n: "read_many readVarint 7 (h @ body) = Inr (header_nats identity index count, concat (map enc_string ?s) @ ?r1)"
    unfolding p(3) using read_numbers(1)[OF p(1)] by simp
  have "\<forall>v \<in> set ?s. length (encodeBinaryUtf8 v) \<le> 65535" "length ?s = 5" using p(2) by (auto simp: header_strings_def)
  from header_string.read_many_enc[OF this(1), of ?r1] this(2)
  have s: "read_many readHeaderString 5 (concat (map enc_string ?s) @ ?r1) = Inr (?s, ?r1)" by simp
  have "header_flag identity opaque \<le> max_safe_integer" using header_flag_bits(1)[of identity opaque] by (simp add: max_safe_integer_def)
  then have f: "readVarint ?r1 = Inr (header_flag identity opaque, concat (map enc_string (receipt_strings identity)) @ body)"
    by (rule readVarint_enc)
  have r: "read_receipt readHeaderString (fr_receipt identity \<noteq> None) (concat (map enc_string (receipt_strings identity)) @ body) =
      Inr (fr_receipt identity, body)"
    by (rule read_receipt_string) (use p(2) in auto)
  have small: "\<not> header_flag identity opaque > 3" using header_flag_bits(1)[of identity opaque] by simp
  show ?thesis
    unfolding decodeBinaryBody_def n s f bind_result_simps prod.case if_not_P[OF small] header_codes header_flag_bits r read_numbers(2)[OF p(1)]
      frame_object_def Let_def
    by (cases separate; cases mode; cases opaque) simp_all
qed

lemma decode_opaque:
  assumes "encodeBinaryHeader identity index count True = Inr h" "encodeNode (fr_source identity) = Inr source"
    "encodeDestination identity = Inr destination" "length payload \<le> MAX_LINK_MESSAGE_BYTES"
  shows "payload \<noteq> [] \<Longrightarrow> decodeBinaryBody env (h @ payload) None None = Inr (frame_object identity source destination index count payload)"
    and "decodeBinaryBody env h (Some payload) None = Inr (frame_object identity source destination index count payload)"
    and "v \<noteq> [] \<Longrightarrow> restoreValue env mode v = Inr payload \<Longrightarrow>
      decodeBinaryBody env (h @ v) None (Some mode) = Inr (frame_object identity source destination index count payload)"
  using assms decode_header[OF assms(1-3), of env "[]"] by (simp_all add: decode_header[OF assms(1-3)])

lemma decode_transparent:
  assumes "encodeBinaryHeader identity index count False = Inr h" "encodeNode (fr_source identity) = Inr source"
    "encodeDestination identity = Inr destination" "length payload \<le> MAX_LINK_MESSAGE_BYTES" "from_binary_payload env body 0 = Inr payload"
  shows "decodeBinaryBody env (h @ body) None None = Inr (frame_object identity source destination index count payload)"
proof -
  have "body \<noteq> []" using assms(5) empty_binary by auto
  then show ?thesis using assms by (simp add: decode_header[OF assms(1-3)])
qed

section \<open>From the object to the frame\<close>

text \<open>What a decoded object must show for the frame to be that of an identity.\<close>

definition frame_view :: "fields \<Rightarrow> frame_identity \<Rightarrow> jstring \<Rightarrow> jstring \<Rightarrow> nat \<Rightarrow> nat \<Rightarrow> bytes \<Rightarrow> bool" where
  "frame_view v identity source destination index count payload \<longleftrightarrow>
     safe_integer (field_of v ''v'') = Some (fr_revision identity) \<and>
     field_of v ''k'' = Some (JString [MESSAGE_TYPE_CODES (fr_message_type identity)]) \<and>
     field_of v ''y'' = Some (JString [PRIORITY_CODES (fr_priority identity)]) \<and>
     field_of v ''s'' = Some (JString source) \<and>
     field_of v ''d'' = (if destination = [] then None else Some (JString destination)) \<and>
     safe_integer (field_of v ''g'') = Some (fr_source_generation identity) \<and>
     field_of v ''x'' = Some (JString (fr_service_session identity)) \<and>
     safe_integer (field_of v ''q'') = Some (fr_source_sequence identity) \<and>
     field_of v ''o'' = Some (JString (fr_operation_id identity)) \<and> field_of v ''m'' = Some (JString (fr_message_id identity)) \<and>
     safe_integer (field_of v ''i'') = Some (int index) \<and> safe_integer (field_of v ''n'') = Some (int count) \<and>
     field_of v ''p'' = Some (JString (to_base64url payload)) \<and>
     (case fr_receipt identity of
        None \<Rightarrow> field_of v ''receipt'' = None
      | Some r \<Rightarrow> \<exists>rv. field_of v ''receipt'' = Some (JObject rv) \<and>
          field_of rv ''operation_id'' = Some (JString (receipt_operation_id r)) \<and>
          field_of rv ''message_id'' = Some (JString (receipt_message_id r)))"

lemma numbers_safe:
  "write_all writeFrameVarint (header_numbers identity index count) = Inr bs \<Longrightarrow>
     \<forall>v \<in> set (header_numbers identity index count). is_safe_integer v"
  by (auto simp: write_numbers)

lemma frame_object_view:
  assumes "\<forall>v \<in> set (header_numbers identity index count). is_safe_integer v"
  shows "\<exists>v. frame_object identity source destination index count payload = JObject v \<and>
    frame_view v identity source destination index count payload"
proof -
  have n: "is_safe_integer (fr_revision identity)" "is_safe_integer (fr_source_generation identity)"
    "is_safe_integer (fr_source_sequence identity)" "is_safe_integer (int index)" "is_safe_integer (int count)"
    using assms by (auto simp: header_numbers_def)
  show ?thesis
    unfolding frame_object_def
    by (rule exI, rule conjI, rule refl)
      (cases "destination = []"; cases "fr_receipt identity";
        simp add: frame_view_def compact_object_def field_of_def header_numbers_def header_strings_def json_receipt_def n safe_json_int
          del: safe_integer.simps)
qed

lemma encodeNode_decodes: "encodeNode n = Inr s \<Longrightarrow> decodeNode s = Inr n \<and> s \<noteq> []"
  by (cases n; cases "node_role n") (auto simp: encodeNode_def decodeNode_def split: if_splits)

lemma encodeDestination_cases:
  assumes "encodeDestination identity = Inr d"
  shows "(fr_destination identity = None \<and> d = []) \<or> (\<exists>n. fr_destination identity = Some n \<and> decodeNode d = Inr n \<and> d \<noteq> [])"
  using assms encodeNode_decodes by (auto simp: encodeDestination_def split: option.splits)

lemma decode_codes:
  "decodeMessageType [MESSAGE_TYPE_CODES t] = Inr t" "decodePriority [PRIORITY_CODES p] = Inr p"
  "isMessageType (Some (JString [MESSAGE_TYPE_CODES t]))" "isPriority (Some (JString [PRIORITY_CODES p]))"
  by (cases t; simp add: decodeMessageType_def isMessageType_def isOneOf_def js_lit_def)
    (cases p; simp add: decodePriority_def isPriority_def isOneOf_def js_lit_def
      | cases t; simp add: decodeMessageType_def isMessageType_def isOneOf_def js_lit_def)+

text \<open>The identities that a node uses: the current revision, counters that are safe integers, and texts that are not blank.\<close>

definition identity_ok :: "frame_identity \<Rightarrow> bool" where
  "identity_ok identity \<longleftrightarrow> fr_revision identity = LINK_PROTOCOL_REVISION \<and>
     is_safe_integer (fr_source_generation identity) \<and> 0 \<le> fr_source_generation identity \<and>
     is_safe_integer (fr_source_sequence identity) \<and> 0 \<le> fr_source_sequence identity \<and>
     non_blank (fr_service_session identity) \<and> non_blank (fr_operation_id identity) \<and> non_blank (fr_message_id identity) \<and>
     header_small identity \<and>
     (\<forall>v \<in> set ([fr_service_session identity, fr_operation_id identity, fr_message_id identity] @ receipt_strings identity). no_bom v)"

definition frame_of :: "frame_identity \<Rightarrow> nat \<Rightarrow> nat \<Rightarrow> bytes \<Rightarrow> link_frame" where
  "frame_of identity index count payload =
     \<lparr>frame_identity_of = identity, chunk_index = int index, chunk_count = int count, frame_payload = payload\<rparr>"

definition receipt_markers :: "byte set" where
  "receipt_markers = {DEFLATE_V3_MARKER, BINARY_V1_MARKER, MESSAGE_V1_MARKER, METHOD_FRAME_MARKER}"

lemma decodeFrame_view:
  assumes "decode_by_marker env bs = Inr (JObject v)" "length bs \<le> MESHTASTIC_APPLICATION_PAYLOAD_BYTES"
    and view: "frame_view v identity source destination index count payload"
    and nodes: "encodeNode (fr_source identity) = Inr source" "encodeDestination identity = Inr destination"
    and ok: "identity_ok identity" and chunk: "index < count" "count \<le> MAX_LINK_FRAGMENTS" "payload \<noteq> []"
    and receipt: "validateReceipt identity encoding index count = Inr ()" "fr_receipt identity \<noteq> None \<Longrightarrow> byte_at bs 0 \<in> Some ` receipt_markers"
  shows "decodeFrame env bs = Inr (frame_of identity index count payload)"
proof -
  note view = view[unfolded frame_view_def]
  have r: "case fr_receipt identity of None \<Rightarrow> field_of v ''receipt'' = None
      | Some r \<Rightarrow> isReceiptIdentity (field_of v ''receipt'') \<and> field_is v ''k'' ''p'' \<and> field_of v ''d'' \<noteq> None \<and> index = 0 \<and> count = 1 \<and>
          the_receipt (field_of v ''receipt'') = Some r"
  proof (cases "fr_receipt identity")
    case (Some rc)
    then have "fr_message_type identity = TaskReportMessage" "fr_destination identity \<noteq> None" "index = 0" "count = 1"
      "non_blank (receipt_operation_id rc)" "non_blank (receipt_message_id rc)"
      using receipt(1) by (auto simp: validateReceipt_def split: if_splits)
    moreover have "destination \<noteq> []" using encodeDestination_cases[OF nodes(2)] calculation(2) by auto
    ultimately show ?thesis using view Some by (auto simp: field_is_def js_lit_def the_receipt_def the_string_def)
  qed (use view in simp)
  have marker: "\<not> (field_of v ''receipt'' \<noteq> None \<and> byte_at bs 0 \<notin> Some ` {DEFLATE_V3_MARKER, BINARY_V1_MARKER, MESSAGE_V1_MARKER, METHOD_FRAME_MARKER})"
    using receipt(2) r by (cases "fr_receipt identity") (auto simp: receipt_markers_def)
  have compact: "isCompactFrame (JObject v)"
    using view ok chunk r isBase64URL_encoded[OF chunk(3)] decode_codes(3)[of "fr_message_type identity"] decode_codes(4)[of "fr_priority identity"]
    by (cases "fr_receipt identity") (auto simp: identity_ok_def isNonNegativeInteger_def simp del: safe_integer.simps isBase64URL.simps)
  have rec: "the_receipt (field_of v ''receipt'') = fr_receipt identity"
    using r by (cases "fr_receipt identity") (auto simp: the_receipt_def)
  have dest: "(case field_of v ''d'' of None \<Rightarrow> Inr None | Some _ \<Rightarrow> bind_result (decodeNode (the_string (field_of v ''d''))) (\<lambda>node. Inr (Some node))) =
      Inr (fr_destination identity)"
    using view encodeDestination_cases[OF nodes(2)] by (auto simp: the_string_def)
  have fields: "the_string (field_of v ''s'') = source" "the_string (field_of v ''x'') = fr_service_session identity"
    "the_string (field_of v ''o'') = fr_operation_id identity" "the_string (field_of v ''m'') = fr_message_id identity"
    "the_string (field_of v ''k'') = [MESSAGE_TYPE_CODES (fr_message_type identity)]"
    "the_string (field_of v ''y'') = [PRIORITY_CODES (fr_priority identity)]" "the_string (field_of v ''p'') = to_base64url payload"
    "the_integer (field_of v ''g'') = fr_source_generation identity" "the_integer (field_of v ''q'') = fr_source_sequence identity"
    "the_integer (field_of v ''i'') = int index" "the_integer (field_of v ''n'') = int count"
    using view by (auto simp: the_string_def the_integer_def simp del: safe_integer.simps)
  have len: "\<not> length bs > MESHTASTIC_APPLICATION_PAYLOAD_BYTES" using assms(2) by simp
  have c: "\<not> \<not> isCompactFrame (JObject v)" using compact by simp
  have "LINK_PROTOCOL_REVISION = fr_revision identity" using ok by (simp add: identity_ok_def)
  then show ?thesis
    unfolding decodeFrame_def if_not_P[OF len] assms(1) bind_result_simps json.case if_not_P[OF c] if_not_P[OF marker] fields dest rec
      conjunct1[OF encodeNode_decodes[OF nodes(1)]] decode_codes base64url_roundtrip Let_def if_not_P[OF chunk(3)]
    by (cases identity) (simp add: frame_of_def)
qed

end
