(* ===== verification/Frame_Delivery.thy ===== *)
theory Frame_Delivery
  imports Link_Frame
begin

text \<open>
  The radio frames of \<^verbatim>\<open>packages/meshtastic-link/src/frame.ts\<close> deliver the message: every encoder's frame is decoded to the
  identity and the chunk it was made from, and the frames that \<^verbatim>\<open>fragmentPayload\<close> produces, in whatever encoding, together carry
  a message from which \<^verbatim>\<open>decodeMessagePayload\<close> restores the payload.
\<close>

section \<open>Each encoder's frame is decoded\<close>

lemma inflate_deflate:
  assumes "codec_laws env" "length x \<le> limit" "length x \<le> MAX_BODY_BYTES"
  shows "inflate env limit (deflate env x) = Inr (x, length (deflate env x))" "deflate env x \<noteq> []"
  using codec_lawsD(3)[OF assms(1)] assms(2,3) by (simp_all add: inverse_codec_def)

lemma binary_frame_decodes:
  assumes laws: "codec_laws env" and enc: "encodeBinaryFrame env identity index count payload = Inr bs"
    and nodes: "encodeNode (fr_source identity) = Inr source" "encodeDestination identity = Inr destination"
    and small: "header_small identity" and payload: "payload \<noteq> []" "length payload \<le> MAX_LINK_MESSAGE_BYTES"
  shows "decode_by_marker env bs = Inr (frame_object identity source destination index count payload)" "byte_at bs 0 = Some BINARY_V1_MARKER"
proof -
  let ?b = "binary_payload env payload"
  obtain h where h: "encodeBinaryHeader identity index count (?b = None) = Inr h"
    and bs: "bs = BINARY_V1_MARKER # deflate env (h @ (case ?b of None \<Rightarrow> payload | Some b \<Rightarrow> b))"
    using enc by (auto simp: encodeBinaryFrame_def Let_def bind_result_eq_Inr)
  let ?body = "case ?b of None \<Rightarrow> payload | Some b \<Rightarrow> b"
  have m: "length payload \<le> MAX_MESSAGE_BYTES" using payload(2) by (simp add: MAX_LINK_MESSAGE_BYTES_def MAX_MESSAGE_BYTES_def)
  have "length ?body \<le> 600000"
    using representation_length[OF laws _ m, of 1] m by (cases ?b) (auto simp: MAX_MESSAGE_BYTES_def)
  then have len: "length (h @ ?body) \<le> MAX_LINK_MESSAGE_BYTES * 4 + 7 * 65538 + 64" "length (h @ ?body) \<le> MAX_BODY_BYTES"
    using binary_header_length(2)[OF h small] by (simp_all add: MAX_LINK_MESSAGE_BYTES_def MAX_BODY_BYTES_def)
  have "decodeBinaryBody env (h @ ?body) None None = Inr (frame_object identity source destination index count payload)"
  proof (cases ?b)
    case None
    then show ?thesis using decode_opaque(1)[OF _ nodes payload(2,1)] h by simp
  next
    case (Some b)
    have "from_binary_payload env b 0 = Inr payload"
      using decode_encode_payload[of "vocab env" "decode_json env" "json_bytes (number_text env)" payload b "[]"] Some
        codec_lawsD(2)[OF laws] m by (simp add: MAX_MESSAGE_BYTES_def MAX_BINARY_BYTES_def)
    then show ?thesis using decode_transparent[OF _ nodes payload(2)] h Some by simp
  qed
  then show "decode_by_marker env bs = Inr (frame_object identity source destination index count payload)"
    using inflate_deflate(1)[OF laws len]
    by (simp add: bs decode_by_marker_def decodeBinaryFrame_def frame_markers)
  show "byte_at bs 0 = Some BINARY_V1_MARKER" by (simp add: bs)
qed

lemma message_frame_decodes:
  assumes laws: "codec_laws env" and enc: "encodeMessageFrame env identity index count payload = Inr bs"
    and nodes: "encodeNode (fr_source identity) = Inr source" "encodeDestination identity = Inr destination"
    and payload: "payload \<noteq> []" "length payload \<le> MAX_LINK_MESSAGE_BYTES"
  shows "decode_by_marker env bs = Inr (frame_object identity source destination index count payload)" "byte_at bs 0 = Some MESSAGE_V1_MARKER"
proof -
  obtain h where h: "encodeBinaryHeader identity index count True = Inr h"
    and short: "length (deflate env h) \<le> 255" and bs: "bs = [MESSAGE_V1_MARKER, word_of_nat (length (deflate env h))] @ deflate env h @ payload"
    using enc by (auto simp: encodeMessageFrame_def Let_def bind_result_eq_Inr split: if_splits)
  have len: "length h \<le> 7 * 65538 + 64" "length h \<le> MAX_BODY_BYTES"
    using binary_header_length(1)[OF h] by (simp_all add: MAX_BODY_BYTES_def)
  have u: "unat (word_of_nat (length (deflate env h)) :: byte) = length (deflate env h)" using short by (intro unat_byte_of_nat) simp
  have "0 < length payload" using payload(1) by simp
  then show "decode_by_marker env bs = Inr (frame_object identity source destination index count payload)"
    using inflate_deflate[OF laws len] decode_opaque(2)[OF h nodes payload(2), of env] payload(1)
    by (simp add: bs decode_by_marker_def decodeMessageFrame_def frame_markers u)
  show "byte_at bs 0 = Some MESSAGE_V1_MARKER" by (simp add: bs)
qed

lemma method_frame_decodes:
  assumes laws: "codec_laws env" and h: "encodeBinaryHeader identity 0 1 True = Inr h" and enc: "compressValue env payload h = Inr (mode, c)"
    and nodes: "encodeNode (fr_source identity) = Inr source" "encodeDestination identity = Inr destination"
    and payload: "payload \<noteq> []" "length payload \<le> MAX_LINK_MESSAGE_BYTES"
  shows "decode_by_marker env ([METHOD_FRAME_MARKER, word_of_nat mode] @ c) = Inr (frame_object identity source destination 0 1 payload)"
proof -
  have "length h + 600000 \<le> MAX_LINK_MESSAGE_BYTES * 8 + 7 * 65538 + 64" "length h + 600000 \<le> MAX_BODY_BYTES"
    using binary_header_length(1)[OF h] by (simp_all add: MAX_LINK_MESSAGE_BYTES_def MAX_BODY_BYTES_def)
  from compress_restores[OF laws enc payload(1) this] obtain v where
    v: "decompressValue env (int mode) c (MAX_LINK_MESSAGE_BYTES * 8 + 7 * 65538 + 64) = Inr (h @ v)"
      "restoreValue env (int mode) v = Inr payload" "v \<noteq> []" "mode \<le> 8" by auto
  have m: "mode_at ([METHOD_FRAME_MARKER, word_of_nat mode] @ c) 1 = int mode"
    using v(4) by (simp add: mode_at_def wire_simps)
  obtain numbers where "write_all writeFrameVarint (header_numbers identity 0 1) = Inr numbers" using h by (rule binary_header_parts)
  from frame_object_view[OF numbers_safe[OF this], of source destination payload] obtain f where
    f: "frame_object identity source destination 0 1 payload = JObject f" "frame_view f identity source destination 0 1 payload" by blast
  then have "single_chunk (frame_object identity source destination 0 1 payload)" by (simp add: frame_view_def)
  then have "decodeMethodFrame env ([METHOD_FRAME_MARKER, word_of_nat mode] @ c) = Inr (frame_object identity source destination 0 1 payload)"
    using v(1) decode_opaque(3)[OF h nodes payload(2) v(3,2)] unfolding decodeMethodFrame_def m by simp
  then show ?thesis by (simp add: decode_by_marker_def frame_markers)
qed

lemma length_enc_text: "length (textEncode v) \<le> 65535 \<Longrightarrow> length (enc_text v) \<le> 65538"
  using length_varint_loop[of "length (textEncode v)" 3] by (simp add: enc_text_def)

lemma enc_texts_length:
  "\<forall>v \<in> set vs. length (textEncode v) \<le> 65535 \<Longrightarrow> length (concat (map enc_text vs)) \<le> 65538 * length vs"
  by (induction vs) (auto dest: length_enc_text)

lemma node_no_bom: "encodeNode n = Inr s \<Longrightarrow> no_bom s"
  by (auto simp: encodeNode_def no_bom_def split: if_splits)

lemma destination_no_bom: "encodeDestination identity = Inr s \<Longrightarrow> no_bom s"
  by (auto simp: encodeDestination_def no_bom_def[of "[]"] split: option.splits dest: node_no_bom)

lemma deflate_frame_decodes:
  assumes laws: "codec_laws env" and enc: "encodeDeflateFrame env identity index count payload encoding = Inr bs"
    and kind: "encoding \<in> {DeflateV1, DeflateV2, DeflateV3}"
    and nodes: "encodeNode (fr_source identity) = Inr source" "encodeDestination identity = Inr destination"
    and ok: "identity_ok identity" and payload: "payload \<noteq> []" "length payload \<le> MAX_LINK_MESSAGE_BYTES"
  shows "decode_by_marker env bs = Inr (frame_object identity source destination index count payload)"
    "fr_receipt identity \<noteq> None \<Longrightarrow> byte_at bs 0 = Some DEFLATE_V3_MARKER"
proof -
  let ?s = "header_strings identity source destination"
  obtain fields where valid: "validateReceipt identity encoding index count = Inr ()"
    and fields: "encodeDeflateHeader identity ?s index count encoding = Inr fields"
    and bs: "bs = frame_prefix env encoding @ deflate env (fields @ payload)"
    using enc nodes by (auto simp: encodeDeflateFrame_def bind_result_eq_Inr header_strings_def)
  have v3: "fr_receipt identity \<noteq> None \<Longrightarrow> encoding = DeflateV3"
    using valid kind by (auto simp: validateReceipt_def receipt_encodings_def split: if_splits)
  let ?flag = "if fr_receipt identity = None then 0 else 1 :: nat"
  let ?tail = "if encoding = DeflateV3 then varint_loop ?flag @ concat (map enc_text (receipt_strings identity)) else []"
  obtain numbers where n: "write_all writeFrameVarint (header_numbers identity index count) = Inr numbers"
    and texts: "\<forall>v \<in> set ?s. length (textEncode v) \<le> 65535 \<and> utf8_roundtrips v"
    and rtexts: "encoding = DeflateV3 \<Longrightarrow> \<forall>v \<in> set (receipt_strings identity). length (textEncode v) \<le> 65535 \<and> utf8_roundtrips v"
    and f: "fields = numbers @ concat (map enc_text ?s) @ ?tail"
    using fields by (auto simp: encodeDeflateHeader_def bind_result_eq_Inr write_texts frame_varint_eq split: if_splits)
  have bom: "\<forall>v \<in> set ?s. no_bom v" "\<forall>v \<in> set (receipt_strings identity). no_bom v"
    using ok node_no_bom[OF nodes(1)] destination_no_bom[OF nodes(2)] by (auto simp: identity_ok_def header_strings_def)
  have five: "length ?s = 5" by (simp add: header_strings_def)
  have flag1: "length (varint_loop ?flag) = 1" by (simp add: varint_loop_small)
  have "length (concat (map enc_text ?s)) \<le> 5 * 65538" using enc_texts_length[of ?s] texts five by simp
  moreover have "encoding = DeflateV3 \<Longrightarrow> length (concat (map enc_text (receipt_strings identity))) \<le> 2 * 65538"
    using enc_texts_length[of "receipt_strings identity"] rtexts receipt_strings_length[of identity] by (auto intro: order_trans)
  ultimately have flen: "length fields \<le> (if encoding = DeflateV3 then 7 * 65538 + 64 else 5 * 65538 + 56)"
    using read_numbers(3)[OF n] flag1 by (cases "encoding = DeflateV3") (simp_all add: f)
  let ?limit = "MAX_LINK_MESSAGE_BYTES + (if encoding = DeflateV3 then 7 * 65538 + 64 else 5 * 65538 + 56)"
  have len: "length (fields @ payload) \<le> ?limit" "length (fields @ payload) \<le> MAX_BODY_BYTES"
    using flen payload(2) by (auto simp: MAX_BODY_BYTES_def MAX_LINK_MESSAGE_BYTES_def split: if_splits)
  note inf = inflate_deflate(1)[OF laws len]
  have rn: "read_many readVarint 7 (fields @ payload) = Inr (header_nats identity index count, concat (map enc_text ?s) @ ?tail @ payload)"
    unfolding f using read_numbers(1)[OF n] by simp
  have "\<forall>v \<in> set ?s. length (textEncode v) \<le> 65535 \<and> utf8_roundtrips v \<and> no_bom v" using texts bom(1) by blast
  from header_text.read_many_enc[OF this, of "?tail @ payload"]
  have rs: "read_many readHeaderText 5 (concat (map enc_text ?s) @ ?tail @ payload) = Inr (?s, ?tail @ payload)" by (simp only: five)
  have rf: "(if encoding = DeflateV3 then readVarint (?tail @ payload) else Inr (0, ?tail @ payload)) =
      Inr (if encoding = DeflateV3 then ?flag else 0, if encoding = DeflateV3 then concat (map enc_text (receipt_strings identity)) @ payload else payload)"
    using readVarint_enc[of ?flag] by (simp add: max_safe_integer_def)
  have rr: "read_receipt readHeaderText ((if encoding = DeflateV3 then ?flag else 0) = 1)
      (if encoding = DeflateV3 then concat (map enc_text (receipt_strings identity)) @ payload else payload) = Inr (fr_receipt identity, payload)"
  proof (cases "encoding = DeflateV3")
    case True
    have "\<forall>v \<in> set (receipt_strings identity). length (textEncode v) \<le> 65535 \<and> utf8_roundtrips v \<and> no_bom v" using rtexts[OF True] bom(2) by blast
    from read_receipt_text[OF this, of payload] True show ?thesis by (cases "fr_receipt identity") simp_all
  next
    case False
    then have "fr_receipt identity = None" using v3 by blast
    with False show ?thesis by (simp add: read_receipt_def)
  qed
  have flag_ok: "\<not> ((if encoding = DeflateV3 then ?flag else 0) \<noteq> 0 \<and> (if encoding = DeflateV3 then ?flag else 0) \<noteq> 1)" by simp
  have big: "\<not> length payload > MAX_LINK_MESSAGE_BYTES" using payload(2) by simp
  have "take (length (frame_prefix env encoding)) bs = frame_prefix env encoding"
    "drop (length (frame_prefix env encoding)) bs = deflate env (fields @ payload)" by (simp_all add: bs)
  then have "decodeCompressedFrame env bs encoding = Inr (frame_object identity source destination index count payload)"
    unfolding decodeCompressedFrame_def Let_def inf
    by (simp only: simp_thms if_False bind_result_simps prod.case rn rs rf rr if_not_P[OF flag_ok] if_not_P[OF big] inf
        header_codes read_numbers(2)[OF n] frame_object_def)
  then show "decode_by_marker env bs = Inr (frame_object identity source destination index count payload)"
    using kind by (auto simp: decode_by_marker_def bs frame_prefix_def frame_markers)
  show "fr_receipt identity \<noteq> None \<Longrightarrow> byte_at bs 0 = Some DEFLATE_V3_MARKER"
    using v3 by (simp add: bs frame_prefix_def)
qed

section \<open>Frames as JSON text\<close>

text \<open>\<^verbatim>\<open>JSON.parse\<close> gives back the value that \<^verbatim>\<open>JSON.stringify\<close> printed, up to the order of its properties.\<close>

definition json_text_law :: "codec_env \<Rightarrow> bool" where
  "json_text_law env \<longleftrightarrow> (\<forall>s. sortJSON s = Inr s \<longrightarrow> wf_json s \<longrightarrow>
     (\<exists>w. decode_json env (json_bytes (number_text env) s) = Some w \<and> json_same s w))"

lemma f64_int_finite: "f64_int x = Some i \<Longrightarrow> is_finite x"
proof -
  assume *: "f64_int x = Some i"
  have "f64_exponent x \<noteq> 0x7ff" using * by (auto simp: f64_int_def Let_def f64_bit_fields)
  moreover have "unat (0x7ff :: f64) = 0x7ff" by simp
  ultimately show ?thesis unfolding is_finite_def using f64_bit_fields(1)[of x] by metis
qed

definition scalar_json :: "json \<Rightarrow> bool" where
  "scalar_json v \<longleftrightarrow> (\<exists>s. v = JString s) \<or> (\<exists>x. v = JNumber x \<and> is_finite x)"

lemma sort_scalar_fields: "\<forall>kv \<in> set kvs. scalar_json (snd kv) \<Longrightarrow> sortJSON_fields kvs = Inr kvs"
  by (induction kvs) (auto simp: scalar_json_def)

lemma safe_integer_same: "rel_option json_same a b \<Longrightarrow> safe_integer a = safe_integer b"
proof -
  assume "rel_option json_same a b"
  then have "a = b \<or> (\<exists>x y. a = Some (JNumber x) \<and> b = Some (JNumber y) \<and> is_zero x \<and> is_zero y)
    \<or> (\<exists>x y. a = Some (JArray x) \<and> b = Some (JArray y)) \<or> (\<exists>x y. a = Some (JObject x) \<and> b = Some (JObject y))"
    by (cases a; cases b; (cases "the a"; cases "the b")?) auto
  then show ?thesis by (elim disjE) (auto simp: is_zero_int)
qed

lemma string_same: "rel_option json_same a b \<Longrightarrow> a = Some (JString s) \<Longrightarrow> b = Some (JString s)"
  by (cases b; cases "the b") auto

lemma compact_scalars:
  assumes "\<forall>v \<in> set (header_numbers identity index count). is_safe_integer v"
  shows "\<forall>kv \<in> set (compact_object (header_numbers identity index count) k y (header_strings identity source destination) None p). scalar_json (snd kv)"
    and "js_map_ok (compact_object (header_numbers identity index count) k y (header_strings identity source destination) None p)"
proof -
  have "scalar_json (json_int v)" if "is_safe_integer v" for v
    using f64_int_finite[OF f64_int_of_int[OF that]] by (simp add: scalar_json_def json_int_def)
  then show "\<forall>kv \<in> set (compact_object (header_numbers identity index count) k y (header_strings identity source destination) None p). scalar_json (snd kv)"
    using assms by (auto simp: compact_object_def json_receipt_def header_numbers_def header_strings_def scalar_json_def)
  show "js_map_ok (compact_object (header_numbers identity index count) k y (header_strings identity source destination) None p)"
    by (simp add: compact_object_def json_receipt_def)
qed

lemma view_same:
  assumes "frame_view v identity source destination index count payload" "fr_receipt identity = None"
    and rel: "\<And>k. rel_option json_same (field_of v k) (field_of w k)"
  shows "frame_view w identity source destination index count payload"
proof -
  have none: "field_of v k = None \<Longrightarrow> field_of w k = None" for k using rel[of k] by (cases "field_of w k") auto
  show ?thesis
    using assms(1,2) safe_integer_same[OF rel] string_same[OF rel] none
    by (auto simp: frame_view_def simp del: safe_integer.simps)
qed

lemma object_first_byte: "byte_at (json_bytes num (JObject kvs)) 0 = Some 0x7b"
proof -
  let ?rest = "join_comma (map (\<lambda>(key, t). quote_string key @ [0x3a] @ t) (own_keys (map (\<lambda>(key, child). (key, stringify num child)) kvs))) @ [0x7d]"
  have s: "\<forall>t \<in> set (map (\<lambda>(key, t). quote_string key @ [0x3a] @ t) xs). starts_ok t" for xs
    by (auto simp: quote_string_def)
  have "starts_ok ?rest" by (intro starts_ok_append join_comma_starts[OF s]) simp
  then have "textEncode ([0x7b] @ ?rest) = textEncode [0x7b] @ textEncode ?rest" by (rule textEncode_append)
  moreover have "textEncode [0x7b] = [0x7b]" by (simp add: textEncode_def is_high_def is_low_def code_point_bytes_def)
  ultimately show ?thesis by (simp add: json_bytes_def)
qed

lemma json_frame_decodes:
  assumes laws: "codec_laws env" and law: "json_text_law env"
    and enc: "encodeCanonicalJSON (json_bytes (number_text env)) (frame_object identity source destination index count payload) = Inr bs"
    and safe: "\<forall>v \<in> set (header_numbers identity index count). is_safe_integer v" and plain: "fr_receipt identity = None"
  shows "\<exists>w. decode_by_marker env bs = Inr (JObject w) \<and> frame_view w identity source destination index count payload"
proof -
  obtain v where v: "frame_object identity source destination index count payload = JObject v" "frame_view v identity source destination index count payload"
    using frame_object_view[OF safe] by blast
  have scal: "\<forall>kv \<in> set v. scalar_json (snd kv)" "js_map_ok v"
    using compact_scalars[OF safe, of "[MESSAGE_TYPE_CODES (fr_message_type identity)]" "[PRIORITY_CODES (fr_priority identity)]" source
        destination "to_base64url payload"] v(1) plain by (simp_all add: frame_object_def)
  let ?s = "sort_key fst v"
  have sorted: "sortJSON (JObject v) = Inr (JObject ?s)" using sort_scalar_fields[of ?s] scal(1) by simp
  then have bs: "bs = json_bytes (number_text env) (JObject ?s)" using enc by (simp add: v(1) encodeCanonicalJSON_def)
  have wf: "wf_json (JObject ?s)"
    using scal by (auto simp: scalar_json_def distinct_map)
  from law[unfolded json_text_law_def, rule_format, OF sortJSON_idem_aux(1)[OF sorted] wf] obtain w where
    w: "decode_json env bs = Some w" "json_same (JObject ?s) w" by (auto simp: bs)
  then obtain ws where ws: "w = JObject ws" by (cases w) auto
  have wf': "wf_json (JObject ws)" using codec_lawsD(2)[OF laws w(1)] ws by simp
  have rel: "rel_option json_same (field_of v k) (field_of ws k)" for k
    using field_same[of ?s ws k] w(2) wf wf' map_of_sort_key[OF scal(2)] by (simp add: ws field_of_def)
  have "decode_by_marker env bs = Inr (JObject ws)"
    using w(1) object_first_byte[of "number_text env" ?s] by (simp add: decode_by_marker_def bs ws frame_markers)
  with view_same[OF v(2) plain rel] show ?thesis by blast
qed

section \<open>One frame\<close>

lemma compact_frame_decodes:
  assumes laws: "codec_laws env" and law: "encoding = CanonicalJson \<Longrightarrow> json_text_law env"
    and enc: "encodeCompactFrame env identity index count payload encoding = Inr bs" "length bs \<le> MESHTASTIC_APPLICATION_PAYLOAD_BYTES"
    and ok: "identity_ok identity" and chunk: "index < count" "count \<le> MAX_LINK_FRAGMENTS" "payload \<noteq> []" "length payload \<le> MAX_LINK_MESSAGE_BYTES"
  shows "decodeFrame env bs = Inr (frame_of identity index count payload)"
proof -
  obtain source destination where valid: "validateReceipt identity encoding index count = Inr ()"
    and nodes: "encodeNode (fr_source identity) = Inr source" "encodeDestination identity = Inr destination"
    using enc(1) by (auto simp: encodeCompactFrame_def bind_result_eq_Inr)
  have safe: "\<forall>v \<in> set (header_numbers identity index count). is_safe_integer v"
  proof -
    have "is_safe_integer (int (unat (c :: jschar)))" for c using jschar_le[of c] unfolding is_safe_integer_def max_safe_integer_def by linarith
    then show ?thesis using ok chunk(1,2)
      by (auto simp: header_numbers_def identity_ok_def LINK_PROTOCOL_REVISION_def is_safe_integer_def max_safe_integer_def MAX_LINK_FRAGMENTS_def)
  qed
  have small: "header_small identity" using ok by (simp add: identity_ok_def)
  obtain w where w: "decode_by_marker env bs = Inr (JObject w)" "frame_view w identity source destination index count payload"
    and marker: "fr_receipt identity \<noteq> None \<Longrightarrow> byte_at bs 0 \<in> Some ` receipt_markers"
  proof -
    note result = that
    obtain v where v: "frame_object identity source destination index count payload = JObject v" "frame_view v identity source destination index count payload"
      using frame_object_view[OF safe] by blast
    have plain: "encoding \<notin> set receipt_encodings \<Longrightarrow> fr_receipt identity = None"
      using valid by (auto simp: validateReceipt_def split: option.splits if_splits)
    have deflate: thesis if kind: "e \<in> {DeflateV1, DeflateV2, DeflateV3}" and f: "encodeDeflateFrame env identity index count payload e = Inr bs" for e
      using deflate_frame_decodes[OF laws f kind nodes ok chunk(3,4)] v by (intro result[of v]) (auto simp: receipt_markers_def)
    have adaptive: thesis if a: "encodeAdaptiveBinaryFrame env identity index count payload = Inr bs"
    proof -
      from a consider "encodeBinaryFrame env identity index count payload = Inr bs"
        | e where "e \<in> {DeflateV1, DeflateV2, DeflateV3}" "encodeDeflateFrame env identity index count payload e = Inr bs"
        by (auto simp: encodeAdaptiveBinaryFrame_def bind_result_eq_Inr split: if_splits)
      then show thesis
      proof cases
        case 1
        from binary_frame_decodes[OF laws 1 nodes small chunk(3,4)] v show thesis by (intro result[of v]) (auto simp: receipt_markers_def)
      qed (rule deflate)
    qed
    have message: thesis if m: "encodeMessageFrame env identity index count payload = Inr bs"
      using message_frame_decodes[OF laws m nodes chunk(3,4)] v by (intro result[of v]) (auto simp: receipt_markers_def)
    show thesis
    proof (cases encoding)
      case CanonicalJson
      then have "fr_receipt identity = None" by (intro plain) (simp add: receipt_encodings_def)
      moreover have "encodeCanonicalJSON (json_bytes (number_text env)) (frame_object identity source destination index count payload) = Inr bs"
        using enc(1) valid nodes CanonicalJson by (simp add: encodeCompactFrame_def frame_object_def header_strings_def)
      ultimately show thesis using json_frame_decodes[OF laws law[OF CanonicalJson] _ safe] result by blast
    qed (use enc(1) valid nodes adaptive message deflate in \<open>auto simp: encodeCompactFrame_def\<close>)
  qed
  show ?thesis by (rule decodeFrame_view[OF w(1) enc(2) w(2) nodes ok chunk(1-3) valid marker])
qed

section \<open>Fragments\<close>

lemma chunk_total_exact:
  assumes "0 < n" "payload \<noteq> []"
  shows "0 < chunk_total payload n" "i < chunk_total payload n \<longleftrightarrow> i * n < length payload"
proof -
  have "0 < length payload" using assms(2) by simp
  then have "n \<le> length payload + n - 1" by linarith
  then have "1 \<le> chunk_total payload n"
    using assms(1) unfolding chunk_total_def by (metis div_le_mono div_self less_numeral_extra(3))
  then show "0 < chunk_total payload n" by simp
  have "i < chunk_total payload n \<longleftrightarrow> Suc i \<le> (length payload + n - 1) div n" unfolding chunk_total_def by auto
  also have "\<dots> \<longleftrightarrow> Suc i * n \<le> length payload + n - 1" using assms(1) by (simp only: less_eq_div_iff_mult_less_eq)
  also have "\<dots> \<longleftrightarrow> i * n < length payload" using assms(1) by auto
  finally show "i < chunk_total payload n \<longleftrightarrow> i * n < length payload" .
qed

lemma chunks_concat: "concat (map (chunk_of payload n) [0..<k]) = take (k * n) payload"
proof (induction k)
  case (Suc k)
  have "concat (map (chunk_of payload n) [0..<Suc k]) = take (k * n) payload @ take n (drop (k * n) payload)"
    using Suc by (simp add: chunk_of_def[of payload n k])
  also have "\<dots> = take (k * n + n) payload" by (simp only: take_add)
  finally show ?case by (simp add: add.commute)
qed simp

lemma chunks_complete:
  assumes "0 < n" "payload \<noteq> []"
  shows "concat (map (chunk_of payload n) [0..<chunk_total payload n]) = payload"
    and "i < chunk_total payload n \<Longrightarrow> chunk_of payload n i \<noteq> []" "length (chunk_of payload n i) \<le> length payload"
proof -
  have "\<not> chunk_total payload n < chunk_total payload n" by simp
  then have "length payload \<le> chunk_total payload n * n" unfolding chunk_total_exact(2)[OF assms] by simp
  then show "concat (map (chunk_of payload n) [0..<chunk_total payload n]) = payload" by (simp add: chunks_concat)
  show "i < chunk_total payload n \<Longrightarrow> chunk_of payload n i \<noteq> []"
    unfolding chunk_total_exact(2)[OF assms] chunk_of_def using assms(1) by simp
  show "length (chunk_of payload n i) \<le> length payload" by (simp add: chunk_of_def)
qed

text \<open>Frames that together carry a message, each within a room.\<close>

definition carries :: "codec_env \<Rightarrow> frame_identity \<Rightarrow> nat \<Rightarrow> bytes list \<Rightarrow> bytes \<Rightarrow> bool" where
  "carries env identity room frames message \<longleftrightarrow>
     frames \<noteq> [] \<and> length frames \<le> MAX_LINK_FRAGMENTS \<and>
     (\<exists>chunks. length chunks = length frames \<and> concat chunks = message \<and>
        (\<forall>i < length frames. length (frames ! i) \<le> room \<and>
           decodeFrame env (frames ! i) = Inr (frame_of identity i (length frames) (chunks ! i))))"

lemma frames_from_nth:
  assumes "frames_from env payload identity n count encoding idx = Inr frames"
  shows "length frames = length idx \<and>
    (\<forall>j < length idx. encodeCompactFrame env identity (idx ! j) count (chunk_of payload n (idx ! j)) encoding = Inr (frames ! j))"
  using assms
proof (induction idx arbitrary: frames)
  case (Cons i idx)
  then show ?case by (auto simp: bind_result_eq_Inr less_Suc_eq_0_disj)
qed simp

lemma fit_from_all:
  "fit_from env payload identity n count room encoding idx = Inr True \<Longrightarrow>
     \<forall>i \<in> set idx. \<exists>f. encodeCompactFrame env identity i count (chunk_of payload n i) encoding = Inr f \<and> length f \<le> room"
  by (induction idx) (auto simp: bind_result_eq_Inr split: if_splits)

text \<open>What all lemmas on fragments assume of the environment, the identity and the size of a frame.\<close>

definition sendable :: "codec_env \<Rightarrow> frame_identity \<Rightarrow> frame_encoding \<Rightarrow> nat \<Rightarrow> bool" where
  "sendable env identity encoding room \<longleftrightarrow> codec_laws env \<and> (encoding = CanonicalJson \<longrightarrow> json_text_law env) \<and>
     identity_ok identity \<and> room \<le> MESHTASTIC_APPLICATION_PAYLOAD_BYTES"

lemma sendableD:
  assumes "sendable env identity encoding room"
  shows "codec_laws env" "encoding = CanonicalJson \<Longrightarrow> json_text_law env" "identity_ok identity" "room \<le> MESHTASTIC_APPLICATION_PAYLOAD_BYTES"
  using assms by (simp_all add: sendable_def)

lemma single_frame_carries:
  assumes "sendable env identity encoding room" "length bs \<le> room" "encodeCompactFrame env identity 0 1 payload encoding = Inr bs"
    "payload \<noteq> []" "length payload \<le> MAX_LINK_MESSAGE_BYTES"
  shows "carries env identity room [bs] payload"
proof -
  have "decodeFrame env bs = Inr (frame_of identity 0 1 payload)"
    by (rule compact_frame_decodes[OF sendableD(1,2)[OF assms(1)] assms(3) _ sendableD(3)[OF assms(1)] _ _ assms(4,5)])
      (use assms(2) sendableD(4)[OF assms(1)] in \<open>auto simp: MAX_LINK_FRAGMENTS_def\<close>)
  then show ?thesis using assms(2) by (auto simp: carries_def MAX_LINK_FRAGMENTS_def intro!: exI[of _ "[payload]"])
qed

lemma fitting_frames_carry:
  assumes send: "sendable env identity encoding room"
    and "framesFit env message identity n (chunk_total message n) room encoding = Inr True"
    and "framesForChunkSize env message identity n encoding = Inr frames"
    and "0 < n" "message \<noteq> []" "chunk_total message n \<le> MAX_LINK_FRAGMENTS" "length message \<le> MAX_LINK_MESSAGE_BYTES"
  shows "carries env identity room frames message"
proof -
  let ?k = "chunk_total message n"
  have f: "length frames = ?k" "\<And>j. j < ?k \<Longrightarrow> encodeCompactFrame env identity j ?k (chunk_of message n j) encoding = Inr (frames ! j)"
    using frames_from_nth[of env message identity n ?k encoding "[0..<?k]" frames] assms(3) by (auto simp: framesForChunkSize_def Let_def)
  have small: "length (frames ! j) \<le> room" if "j < ?k" for j
    using fit_from_all[OF assms(2)[unfolded framesFit_def]] f(2)[OF that] that by force
  have "decodeFrame env (frames ! j) = Inr (frame_of identity j ?k (chunk_of message n j))" if j: "j < ?k" for j
  proof (rule compact_frame_decodes[OF sendableD(1,2)[OF send] f(2)[OF j]])
    show "length (frames ! j) \<le> MESHTASTIC_APPLICATION_PAYLOAD_BYTES" using small[OF j] sendableD(4)[OF send] by simp
    show "length (chunk_of message n j) \<le> MAX_LINK_MESSAGE_BYTES" using chunks_complete(3)[OF assms(4,5)] assms(7) order_trans by blast
  qed (use sendableD(3)[OF send] j assms(6) chunks_complete(2)[OF assms(4,5) j] in auto)
  then show ?thesis
    unfolding carries_def f(1)
    using chunk_total_exact(1)[OF assms(4,5)] chunks_complete(1)[OF assms(4,5)] assms(6) f(1) small
    by (intro conjI exI[of _ "map (chunk_of message n) [0..<?k]"]) auto
qed

lemma chunk_search_carries:
  assumes send: "sendable env identity encoding room" and message: "message \<noteq> []" "length message \<le> MAX_LINK_MESSAGE_BYTES"
  shows "chunk_search env message identity room encoding n = Inr frames \<Longrightarrow> carries env identity room frames message"
proof (induction n)
  case (Suc n)
  then show ?case
    by (auto simp: Let_def bind_result_eq_Inr intro: fitting_frames_carry[OF send _ _ _ message(1) _ message(2)] split: if_splits)
qed simp

lemma encoded_search_carries:
  assumes send: "sendable env identity encoding room" and message: "message \<noteq> []" "length message \<le> MAX_LINK_MESSAGE_BYTES"
  shows "encoded_search env message identity room encoding n = Inr (Some frames) \<Longrightarrow> carries env identity room frames message"
proof (induction n)
  case (Suc n)
  then show ?case
    by (auto simp: Let_def bind_result_eq_Inr intro: fitting_frames_carry[OF send _ _ _ message(1) _ message(2)] split: if_splits)
qed simp

lemma guards_room:
  assumes "fragment_guards payload identity maximum encoding = Inr room"
  shows "room \<le> MESHTASTIC_APPLICATION_PAYLOAD_BYTES" "int room \<le> maximum" "64 \<le> room" "payload \<noteq> []"
    "length payload \<le> MAX_LINK_MESSAGE_BYTES" "validateReceipt identity encoding 0 1 = Inr ()"
    "fragment_guards payload identity (int room) e = bind_result (validateReceipt identity e 0 1) (\<lambda>_. Inr room)"
  using assms
  by (auto simp: fragment_guards_def bind_result_eq_Inr MESHTASTIC_APPLICATION_PAYLOAD_BYTES_def is_safe_integer_def max_safe_integer_def
      split: if_splits)

lemma plain_carries:
  assumes "fragmentPlain env payload identity maximum encoding = Inr frames" "codec_laws env" "identity_ok identity"
    "encoding = CanonicalJson \<Longrightarrow> json_text_law env"
  shows "\<exists>room. fragment_guards payload identity maximum encoding = Inr room \<and> carries env identity room frames payload"
proof -
  obtain room where g: "fragment_guards payload identity maximum encoding = Inr room"
    using assms(1) by (auto simp: fragmentPlain_def bind_result_eq_Inr)
  note room = guards_room[OF g]
  have send: "sendable env identity encoding room" using assms room by (simp add: sendable_def)
  show ?thesis
    using assms(1) g chunk_search_carries[OF send room(4,5)] single_frame_carries[OF send _ _ room(4,5)]
    by (auto simp: fragmentPlain_def Let_def bind_result_eq_Inr split: if_splits)
qed

lemma choose_frames_cases:
  "choose_frames candidate baseline = Inr frames \<Longrightarrow> candidate = Some frames \<or> baseline = Inr frames"
  by (auto simp: choose_frames_def split: sum.splits option.splits if_splits)

lemma encoded_carries:
  assumes "fragmentEncodedMessage env (Some message) identity room encoding = Inr (Some frames)" "sendable env identity encoding room"
    "message \<noteq> []" "length message \<le> MAX_LINK_MESSAGE_BYTES"
  shows "carries env identity room frames message"
  using assms encoded_search_carries[OF assms(2-4)] by (auto simp: fragmentEncodedMessage_def split: sum.splits if_splits)

text \<open>The whole frame of the adaptive encoding, which the message encodings try first.\<close>

lemma adaptive_carries:
  assumes "encodeAdaptiveBinaryFrame env identity 0 1 payload = Inr bs" "length bs \<le> room" "codec_laws env" "identity_ok identity"
    "validateReceipt identity encoding 0 1 = Inr ()" "encoding \<in> {MessageV1, MessageV2}" "room \<le> MESHTASTIC_APPLICATION_PAYLOAD_BYTES"
    "payload \<noteq> []" "length payload \<le> MAX_LINK_MESSAGE_BYTES"
  shows "carries env identity room [bs] payload"
proof -
  have "validateReceipt identity BinaryV1 0 1 = Inr ()"
    using assms(5,6) by (auto simp: validateReceipt_def receipt_encodings_def split: option.splits if_splits)
  moreover obtain source destination where "encodeNode (fr_source identity) = Inr source" "encodeDestination identity = Inr destination"
    using assms(1) by (auto simp: encodeAdaptiveBinaryFrame_def legacyHeaderRoundTrips_def bind_result_eq_Inr)
  ultimately have "encodeCompactFrame env identity 0 1 payload BinaryV1 = Inr bs" using assms(1) by (simp add: encodeCompactFrame_def)
  then show ?thesis using single_frame_carries[of env identity BinaryV1 room bs payload] assms by (simp add: sendable_def)
qed

lemma unmarked_message:
  "payload \<noteq> [] \<Longrightarrow> hd payload \<notin> {0xb2, 0xb3} \<Longrightarrow> length payload \<le> MAX_LINK_MESSAGE_BYTES \<Longrightarrow> decodeMessagePayload env payload = Inr payload"
  by (cases payload)
    (auto simp: decodeMessagePayload_def assertMessageSize_def MESSAGE_CODEC_MARKER_def MAX_MESSAGE_BYTES_def MAX_LINK_MESSAGE_BYTES_def)

definition delivers :: "codec_env \<Rightarrow> frame_identity \<Rightarrow> nat \<Rightarrow> bytes list \<Rightarrow> bytes \<Rightarrow> bool" where
  "delivers env identity room frames payload \<longleftrightarrow>
     (\<exists>message. carries env identity room frames message \<and> decodeMessagePayload env message = Inr payload)"

lemma v1_delivers:
  assumes "fragmentV1 env payload identity maximum = Inr frames" "codec_laws env" "identity_ok identity" "hd payload \<notin> {0xb2, 0xb3}"
  shows "\<exists>room. fragment_guards payload identity maximum MessageV1 = Inr room \<and> delivers env identity room frames payload"
proof -
  obtain room where g: "fragment_guards payload identity maximum MessageV1 = Inr room"
    and f: "fragmentCompressedMessage env payload identity room = Inr frames"
    using assms(1) by (auto simp: fragmentV1_def bind_result_eq_Inr)
  note room = guards_room[OF g]
  note raw = unmarked_message[OF room(4) assms(4) room(5), of env]
  have send: "sendable env identity MessageV1 room" using assms room by (simp add: sendable_def)
  from f obtain whole where whole: "encodeAdaptiveBinaryFrame env identity 0 1 payload = Inr whole"
    by (auto simp: fragmentCompressedMessage_def bind_result_eq_Inr)
  consider "length whole \<le> room" "frames = [whole]"
    | message where "encodeCompressedMessage env payload = Inr (Some message)" "fragmentEncodedMessage env (Some message) identity room MessageV1 = Inr (Some frames)"
    | "fragmentPlain env payload identity (int room) BinaryV1 = Inr frames"
  proof (cases "length whole \<le> room")
    case True
    then show thesis using f whole that(1) by (simp add: fragmentCompressedMessage_def)
  next
    case False
    from f obtain compressed candidate where c: "encodeCompressedMessage env payload = Inr compressed"
      "fragmentEncodedMessage env compressed identity room MessageV1 = Inr candidate"
      "choose_frames candidate (fragmentPlain env payload identity (int room) BinaryV1) = Inr frames"
      unfolding fragmentCompressedMessage_def whole bind_result_simps if_not_P[OF False] bind_result_eq_Inr by blast
    show thesis
    proof (cases "candidate = Some frames")
      case True
      then obtain message where "compressed = Some message" using c(2) by (cases compressed) (simp_all add: fragmentEncodedMessage_def)
      with c True show thesis using that(2) by blast
    next
      case False
      then show thesis using choose_frames_cases[OF c(3)] that(3) by blast
    qed
  qed
  then have "delivers env identity room frames payload"
  proof cases
    case 1
    then show ?thesis using adaptive_carries[OF whole _ assms(2,3) room(6) _ room(1,4,5)] raw by (auto simp: delivers_def)
  next
    case (2 message)
    note d = decode_compressed_message[OF assms(2) 2(1) room(4)]
    have "length message \<le> MAX_LINK_MESSAGE_BYTES" using d(2) room(5) by simp
    then show ?thesis using encoded_carries[OF 2(2) send d(3)] d(1) by (auto simp: delivers_def)
  next
    case 3
    obtain r where r: "fragment_guards payload identity (int room) BinaryV1 = Inr r" "carries env identity r frames payload"
      using plain_carries[OF 3 assms(2,3)] by auto
    then have "r = room" unfolding room(7) by (auto simp: bind_result_eq_Inr)
    with r raw show ?thesis by (auto simp: delivers_def)
  qed
  with g show ?thesis by blast
qed

lemma method_carries:
  assumes laws: "codec_laws env" and ok: "identity_ok identity" and valid: "validateReceipt identity encoding 0 1 = Inr ()"
    and h: "encodeBinaryHeader identity 0 1 True = Inr h" and c: "compressValue env payload h = Inr (mode, c)"
    and room: "length ([METHOD_FRAME_MARKER, word_of_nat mode] @ c) \<le> room" "room \<le> MESHTASTIC_APPLICATION_PAYLOAD_BYTES"
    and payload: "payload \<noteq> []" "length payload \<le> MAX_LINK_MESSAGE_BYTES"
  shows "carries env identity room [[METHOD_FRAME_MARKER, word_of_nat mode] @ c] payload"
proof -
  let ?bs = "[METHOD_FRAME_MARKER, word_of_nat mode] @ c"
  obtain numbers source destination where numbers: "write_all writeFrameVarint (header_numbers identity 0 1) = Inr numbers"
    and nodes: "encodeNode (fr_source identity) = Inr source" "encodeDestination identity = Inr destination"
    using h by (rule binary_header_parts)
  from frame_object_view[OF numbers_safe[OF numbers], of source destination payload] obtain v where
    v: "frame_object identity source destination 0 1 payload = JObject v" "frame_view v identity source destination 0 1 payload" by blast
  have "decodeFrame env ?bs = Inr (frame_of identity 0 1 payload)"
  proof (rule decodeFrame_view[OF _ _ v(2) nodes ok _ _ payload(1) valid])
    show "decode_by_marker env ?bs = Inr (JObject v)" using method_frame_decodes[OF laws h c nodes payload] v(1) by simp
    show "length ?bs \<le> MESHTASTIC_APPLICATION_PAYLOAD_BYTES" using room by simp
  qed (simp_all add: receipt_markers_def MAX_LINK_FRAGMENTS_def)
  then show ?thesis using room(1) by (auto simp: carries_def MAX_LINK_FRAGMENTS_def intro!: exI[of _ "[payload]"])
qed

lemma v2_delivers:
  assumes "fragmentPayload env payload identity maximum MessageV2 = Inr frames" "codec_laws env" "identity_ok identity" "hd payload \<notin> {0xb2, 0xb3}"
  shows "\<exists>room. fragment_guards payload identity maximum MessageV2 = Inr room \<and> delivers env identity room frames payload"
proof -
  obtain room where g: "fragment_guards payload identity maximum MessageV2 = Inr room"
    and f: "fragmentMethodMessage env payload identity room = Inr frames"
    using assms(1) by (auto simp: fragmentPayload_def bind_result_eq_Inr)
  note room = guards_room[OF g]
  note raw = unmarked_message[OF room(4) assms(4) room(5), of env]
  have send: "sendable env identity MessageV2 room" using assms room by (simp add: sendable_def)
  obtain prev h mode c where prev: "encodeAdaptiveBinaryFrame env identity 0 1 payload = Inr prev"
    and h: "encodeBinaryHeader identity 0 1 True = Inr h" and c: "compressValue env payload h = Inr (mode, c)"
    using f by (auto simp: fragmentMethodMessage_def bind_result_eq_Inr)
  let ?whole = "[METHOD_FRAME_MARKER, word_of_nat mode] @ c"
  note meth = method_carries[OF assms(2,3) room(6) h c _ room(1,4,5)]
  have "delivers env identity room frames payload"
  proof (cases "length prev \<le> room")
    case True
    then have "frames = [if length ?whole < length prev then ?whole else prev]"
      using f unfolding fragmentMethodMessage_def prev h c bind_result_simps prod.case Let_def[of ?whole] if_P[OF True] by (simp only: sum.inject)
    then show ?thesis
      using True meth adaptive_carries[OF prev True assms(2,3) room(6) _ room(1,4,5)] raw
      by (auto simp: delivers_def split: if_splits)
  next
    case False
    from f obtain candidate where cand: "(if length ?whole \<le> room then Inr (Some [?whole])
         else bind_result (compressValue env payload []) (\<lambda>(mode, bs).
           let envelope = [0xb3, 1, word_of_nat mode] @ bs
           in if length envelope < length payload then fragmentEncodedMessage env (Some envelope) identity room MessageV2 else Inr None)) = Inr candidate"
      and choice: "choose_frames candidate (fragmentV1 env payload identity (int room)) = Inr frames"
      unfolding fragmentMethodMessage_def prev h c bind_result_simps prod.case Let_def[of ?whole] if_not_P[OF False] bind_result_eq_Inr by blast
    from choose_frames_cases[OF choice] show ?thesis
    proof
      assume s: "candidate = Some frames"
      show ?thesis
      proof (cases "length ?whole \<le> room")
        case True
        then show ?thesis using cand s meth raw by (auto simp: delivers_def)
      next
        case False
        then obtain m bs where e: "compressValue env payload [] = Inr (m, bs)" "length ([0xb3, 1, word_of_nat m] @ bs) < length payload"
          "fragmentEncodedMessage env (Some ([0xb3, 1, word_of_nat m] @ bs)) identity room MessageV2 = Inr (Some frames)"
          using cand s by (auto simp: bind_result_eq_Inr Let_def split: if_splits)
        have "carries env identity room frames ([0xb3, 1, word_of_nat m] @ bs)"
          by (rule encoded_carries[OF e(3) send]) (use e(2) room(5) in auto)
        then show ?thesis using decode_method_envelope[OF assms(2) e(1) room(4) e(2)] by (auto simp: delivers_def)
      qed
    next
      assume "fragmentV1 env payload identity (int room) = Inr frames"
      from v1_delivers[OF this assms(2-4)] obtain r where r: "fragment_guards payload identity (int room) MessageV1 = Inr r"
        "delivers env identity r frames payload" by blast
      then have "r = room" unfolding room(7) by (auto simp: bind_result_eq_Inr)
      with r show ?thesis by simp
    qed
  qed
  with g show ?thesis by blast
qed

lemma fragments_deliver:
  assumes "fragmentPayload env payload identity maximum encoding = Inr frames" "codec_laws env" "encoding = CanonicalJson \<Longrightarrow> json_text_law env"
    "identity_ok identity" "hd payload \<notin> {0xb2, 0xb3}"
  shows "\<exists>room. fragment_guards payload identity maximum encoding = Inr room \<and> delivers env identity room frames payload"
proof (cases "encoding = MessageV1 \<or> encoding = MessageV2")
  case True
  then show ?thesis using assms v1_delivers[OF _ assms(2,4,5)] v2_delivers[OF _ assms(2,4,5)] by (auto simp: fragmentPayload_def)
next
  case False
  then have f: "fragmentPlain env payload identity maximum encoding = Inr frames" using assms(1) by (simp add: fragmentPayload_def)
  from plain_carries[OF f assms(2,4,3)] obtain room where r: "fragment_guards payload identity maximum encoding = Inr room"
    "carries env identity room frames payload" by blast
  with unmarked_message[OF guards_room(4)[OF r(1)] assms(5) guards_room(5)[OF r(1)], of env] show ?thesis by (auto simp: delivers_def)
qed


text \<open>An instance of the library: stored blocks with a marker, and Zstandard frames of one raw block.\<close>

definition stored :: "bytes \<Rightarrow> bytes" where
  "stored x = 0 # x"

definition unstored :: decompressor where
  "unstored limit bs =
     (case bs of
        b # x \<Rightarrow> if b = 0 \<and> length x \<le> limit then Inr (x, length bs) else Inl (RangeError ''output'')
      | [] \<Rightarrow> Inl (PlainError ''input''))"

definition raw_zstd :: "bytes \<Rightarrow> bytes" where
  "raw_zstd x = [0x28, 0xb5, 0x2f, 0xfd, 0, 0] @ le_bytes 3 (1 + 8 * length x) @ x"

definition unraw_zstd :: decompressor where
  "unraw_zstd limit bs = (if length (drop 9 bs) \<le> limit then Inr (drop 9 bs, length bs) else Inl (RangeError ''output''))"

definition demo_codec :: codec_env where
  "demo_codec = \<lparr>number_text = \<lambda>_. [48], vocab = \<lparr>FRAME_BINARY_KEYS = [], FRAME_BINARY_STRINGS = []\<rparr>, decode_json = \<lambda>_. None,
     deflate = stored, deflate9 = stored, inflate = unstored, brotli = stored, unbrotli = unstored, zstd = raw_zstd, unzstd = unraw_zstd,
     dictionary_digest = [1, 2, 3, 4, 5, 6, 7, 8]\<rparr>"

definition demo_identity :: frame_identity where
  "demo_identity = \<lparr>fr_revision = 1, fr_message_type = StateMessage, fr_source = \<lparr>node_role = AssetRole, node_id = [97]\<rparr>,
     fr_destination = None, fr_source_generation = 1, fr_service_session = [98], fr_source_sequence = 2, fr_operation_id = [99],
     fr_message_id = [100], fr_receipt = None, fr_priority = LiveState\<rparr>"

lemma stored_codec: "inverse_codec stored unstored"
  by (simp add: inverse_codec_def stored_def unstored_def)

lemma raw_zstd_boundary:
  assumes "length x \<le> MAX_BODY_BYTES"
  shows "assertZstandardBoundary (raw_zstd x) = Inr ()"
proof -
  let ?h = "1 + 8 * length x"
  have small: "?h < 256 ^ 3" using assms by (simp add: MAX_BODY_BYTES_def)
  have t3: "take 3 (drop 6 (raw_zstd x)) = le_bytes 3 ?h" 
  proof -
    have "drop 6 (raw_zstd x) = le_bytes 3 ?h @ x" by (simp add: raw_zstd_def)
    then show ?thesis by (simp only: take_append length_le_bytes) simp
  qed
  have v: "le_value (take 3 (drop 6 (raw_zstd x))) = ?h" unfolding t3 le_value_le_bytes using small by simp
  have k: "drop_bit 1 ?h AND 3 = 0" "drop_bit 3 ?h = length x" "?h AND 1 \<noteq> 0"
  proof -
    show "drop_bit 1 ?h AND 3 = 0" using nat_and_mask[of "drop_bit 1 ?h" 2] by (simp add: drop_bit_eq_div)
    show "drop_bit 3 ?h = length x" by (simp add: drop_bit_eq_div)
    have "odd ?h" by simp
    then show "?h AND 1 \<noteq> 0" by (simp only: and_one_eq odd_iff_mod_2_eq_one)
  qed
  have l: "length (raw_zstd x) = 9 + length x" by (simp add: raw_zstd_def)
  have "zstd_blocks (raw_zstd x) 6 = Inr (9 + length x)"
    unfolding zstd_blocks.simps[of "raw_zstd x" 6] v Let_def k l by (use k(3) in simp)
  moreover have "le_value (take 4 (raw_zstd x)) = 0xfd2fb528" by (simp add: raw_zstd_def)
  moreover have "raw_zstd x ! 4 = 0" by (simp add: raw_zstd_def)
  ultimately show ?thesis by (simp add: assertZstandardBoundary_def l)
qed

lemma demo_codec_laws: "codec_laws demo_codec"
proof -
  have "inverse_codec raw_zstd unraw_zstd" by (simp add: inverse_codec_def raw_zstd_def unraw_zstd_def)
  then show ?thesis
    using stored_codec raw_zstd_boundary
    by (simp add: codec_laws_def demo_codec_def number_laws_def numbers_ascii_def ascii_def zero_unsigned_def)
qed

definition demo_frame :: bytes where
  "demo_frame = [0xa3, 0, 1, 115, 108, 1, 2, 0, 1, 3, 97, 58, 97, 0, 1, 98, 1, 99, 1, 100, 7, 8, 9]"

lemma demo_frames:
  "fragmentPayload demo_codec [7, 8, 9] demo_identity 233 DeflateV2 = Inr [demo_frame]" "identity_ok demo_identity"
proof -
  have ascii: "textEncode [] = []" "textEncode [98] = [98]" "textEncode [99] = [99]" "textEncode [100] = [100]" "textEncode [97, 58, 97] = [97, 58, 97]"
    "utf8_roundtrips []" "utf8_roundtrips [98]" "utf8_roundtrips [99]" "utf8_roundtrips [100]" "utf8_roundtrips [97, 58, 97]"
    by (simp_all add: textEncode_def utf8_roundtrips_def is_high_def is_low_def code_point_bytes_def)
  have blank: "non_blank [97]" "non_blank [98]" "non_blank [99]" "non_blank [100]" by (simp_all add: non_blank_def js_space_def)
  have "encodeCompactFrame demo_codec demo_identity 0 1 [7, 8, 9] DeflateV2 = Inr demo_frame"
    by (simp add: encodeCompactFrame_def validateReceipt_def demo_identity_def encodeNode_def encodeDestination_def encodeDeflateFrame_def
        encodeDeflateHeader_def header_numbers_def writeFrameVarint_def is_safe_integer_def max_safe_integer_def varint_loop_small
        writeHeaderText_def ascii blank frame_prefix_def demo_codec_def stored_def demo_frame_def DEFLATE_V2_MARKER_def)
  then show "fragmentPayload demo_codec [7, 8, 9] demo_identity 233 DeflateV2 = Inr [demo_frame]"
    by (simp add: fragmentPayload_def fragmentPlain_def fragment_guards_def is_safe_integer_def max_safe_integer_def validateReceipt_def
        MESHTASTIC_APPLICATION_PAYLOAD_BYTES_def MAX_LINK_MESSAGE_BYTES_def demo_identity_def demo_frame_def)
  show "identity_ok demo_identity"
    by (simp add: identity_ok_def demo_identity_def LINK_PROTOCOL_REVISION_def is_safe_integer_def max_safe_integer_def blank header_small_def
        identity_strings_def receipt_strings_def no_bom_def)
qed


section \<open>Byte order marks\<close>

text \<open>
  Why the identities above must not start with U+FEFF: the check with which the sender chooses a deflate frame
  (\<^verbatim>\<open>Buffer.toString\<close>) keeps the mark, and the decoder (\<^verbatim>\<open>TextDecoder\<close>) removes it, so the receiver reads another text.
\<close>

theorem bom_text_changes:
  assumes "toWellFormed v = v" "length (textEncode (0xfeff # v)) \<le> 65535"
  shows "utf8_roundtrips (0xfeff # v) \<and> (\<exists>bs. writeHeaderText (0xfeff # v) = Inr bs \<and> (\<forall>rest. readHeaderText (bs @ rest) = Inr (v, rest)))"
proof -
  let ?t = "0xfeff # v"
  have wf: "toWellFormed ?t = ?t"
    using assms(1) by (cases v) (simp_all add: is_high_def is_low_def)
  then have r: "utf8_roundtrips ?t" by (simp add: utf8_roundtrips_def)
  have "textDecode (textEncode ?t) = Some v" using wf by (simp add: textDecode_def textEncode_def decode_encode_utf8)
  then have "readHeaderText (enc_text ?t @ rest) = Inr (v, rest)" for rest
    using assms(2) by (simp add: readHeaderText_def enc_text_def readVarint_enc field_length_safe)
  moreover have "writeHeaderText ?t = Inr (enc_text ?t)" using r assms(2) by (simp only: header_text_eq simp_thms)
  ultimately show ?thesis using r by blast
qed

theorem bom_text_changes_witness:
  "utf8_roundtrips [0xfeff, 99] \<and>
   (\<exists>bs. writeHeaderText [0xfeff, 99] = Inr bs \<and> (\<forall>rest. readHeaderText (bs @ rest) = Inr ([99], rest)))"
proof -
  have "toWellFormed [99] = [99]" "length (textEncode [0xfeff, 99]) \<le> 65535"
    by (simp_all add: textEncode_def is_high_def is_low_def length_code_point utf8Bytes_def)
  then show ?thesis using bom_text_changes[of "[99]"] by simp
qed

end
