(* ===== verification/Picture.thy ===== *)
theory Picture
  imports State_Delta Link_Frame
begin

text \<open>
  The shared picture of a Link service, \<^verbatim>\<open>packages/meshtastic-link/src/picture.ts\<close>, and the projection of delivered messages
  onto it, \<^verbatim>\<open>picture-projection.ts\<close>. A publication is the object of its fields, as in the message contract. The keys of the
  maps are the strings the code builds. Subscribers only write to their clients: they do not call the picture back, so an event
  is handed to every subscriber before the operation that emitted it goes on (\<^verbatim>\<open>pendingEvents\<close> is empty between operations);
  \<open>delivered\<close> records what each subscriber was given, and \<open>listener_throws\<close> says which calls throw. The clock is an argument.
\<close>

declare map_of_eq_Some_iff [simp del]

section \<open>Definitions\<close>

subsection \<open>State\<close>

datatype picture_freshness = Fresh | Stale | Degraded

record picture_record =
  pr_resource_type :: resource_type
  pr_id :: jstring
  pr_state :: json
  pr_source :: link_node
  pr_source_generation :: int
  pr_service_session :: jstring
  pr_source_sequence :: int
  pr_source_asset_id :: "jstring option"
  pr_runtime_id :: "json option"
  pr_operation_id :: "json option"
  pr_observation_time :: "json option"
  pr_received_at :: int
  pr_atlas_version :: "int option"
  pr_freshness :: picture_freshness
  pr_path :: "json option"
  pr_confirmation :: "json option"

datatype event_type = Upsert | StaleEvent | Remove

record picture_event =
  ev_session :: jstring
  ev_revision :: nat
  ev_type :: event_type
  ev_key :: jstring
  ev_record :: "picture_record option"

datatype picture_rejection = StaleSource | StaleSequence | StaleRecord | Capacity

record source_position =
  sp_generation :: int
  sp_session :: jstring

record picture_tombstone =
  ts_atlasVersion :: int
  ts_confirmation :: "json option"
  ts_source :: link_node
  ts_sourceGeneration :: int
  ts_serviceSession :: jstring
  ts_sourceSequence :: int

record record_source_sequence =
  rs_sourceKey :: jstring
  rs_generation :: int
  rs_session :: jstring
  rs_sequence :: int
  rs_receivedAt :: int

record connectivity =
  connected :: bool
  receivedAt :: "int option"

record apply_context =
  cx_source :: link_node
  cx_source_generation :: int
  cx_service_session :: jstring
  cx_source_sequence :: int
  cx_received_at :: int

record picture_env =
  penv_sdk :: sdk
  penv_number :: "f64 \<Rightarrow> jstring"
  penv_iso :: "int \<Rightarrow> jstring"
  locale_compare :: "jstring \<Rightarrow> jstring \<Rightarrow> int"
  listener_throws :: "nat \<Rightarrow> picture_event \<Rightarrow> bool"

record picture =
  pic_session :: jstring
  eventBufferLimit :: nat
  pic_revision :: nat
  records :: "(jstring, picture_record) js_map"
  tombstones :: "(jstring, picture_tombstone) js_map"
  sources :: "(jstring, source_position) js_map"
  assetConnectivity :: "(jstring, connectivity) js_map"
  recordSourceSequences :: "(jstring, record_source_sequence) js_map"
  entryBytes :: "(jstring, nat) js_map"
  pic_events :: "picture_event list"
  eventBytes :: "nat list"
  pic_listeners :: "nat list"
  retainedEntryTotal :: int
  retainedEventTotal :: int
  delivered :: "(nat \<times> picture_event) list"

definition RECORD_SOURCE_SEQUENCE_REPLAY_MS :: int where "RECORD_SOURCE_SEQUENCE_REPLAY_MS = 10 * 60000"
definition RECORD_SOURCE_SEQUENCE_LIMIT :: nat where "RECORD_SOURCE_SEQUENCE_LIMIT = 4096"
definition PICTURE_ENTRY_LIMIT :: nat where "PICTURE_ENTRY_LIMIT = 4096"
definition PICTURE_RETAINED_BYTES_LIMIT :: int where "PICTURE_RETAINED_BYTES_LIMIT = 16 * 1024 * 1024"
definition PICTURE_LISTENER_LIMIT :: nat where "PICTURE_LISTENER_LIMIT = 1024"
definition PICTURE_EVENT_BYTES_LIMIT :: int where "PICTURE_EVENT_BYTES_LIMIT = 8 * 1024 * 1024"
definition LINK_SOURCE_IDENTITY_LIMIT :: nat where "LINK_SOURCE_IDENTITY_LIMIT = 4096"

definition new_picture :: "jstring \<Rightarrow> int \<Rightarrow> picture result" where
  "new_picture session limit =
     (if session = [] then Inl (TypeError ''picture session must not be empty'')
      else if \<not> is_safe_integer limit \<or> limit < 1 then Inl (RangeError ''event buffer must be positive'')
      else Inr \<lparr>pic_session = session, eventBufferLimit = nat limit, pic_revision = 0, records = [], tombstones = [], sources = [],
        assetConnectivity = [], recordSourceSequences = [], entryBytes = [], pic_events = [], eventBytes = [], pic_listeners = [],
        retainedEntryTotal = 0, retainedEventTotal = 0, delivered = []\<rparr>)"

subsection \<open>Keys and single values\<close>

definition sameNode :: "link_node \<Rightarrow> link_node \<Rightarrow> bool" where
  "sameNode left right \<longleftrightarrow> node_role left = node_role right \<and> node_id left = node_id right"

fun role_name :: "link_role \<Rightarrow> jstring" where
  "role_name AssetRole = js_lit ''asset''"
| "role_name GatewayRole = js_lit ''gateway''"

definition node_key :: "link_node \<Rightarrow> jstring" where
  "node_key n = role_name (node_role n) @ js_lit '':'' @ node_id n"

fun type_name :: "resource_type \<Rightarrow> jstring" where
  "type_name EntityType = js_lit ''entity''"
| "type_name TaskType = js_lit ''task''"
| "type_name ObjectType = js_lit ''object''"

definition record_key :: "resource_type \<Rightarrow> jstring \<Rightarrow> jstring" where
  "record_key t i = type_name t @ js_lit '':'' @ i"

definition publication_deleted :: "fields \<Rightarrow> bool" where
  "publication_deleted publication \<longleftrightarrow> field_of publication ''deleted'' = Some (JBool True)"

text \<open>\<^verbatim>\<open>Date.parse\<close> of a field, \<open>None\<close> for NaN, and the comparisons on it.\<close>

definition parsed :: "picture_env \<Rightarrow> json option \<Rightarrow> int option" where
  "parsed env v = (case v of Some (JString s) \<Rightarrow> date_parse (penv_sdk env) s | _ \<Rightarrow> None)"

fun later_than :: "int option \<Rightarrow> int option \<Rightarrow> bool" where
  "later_than (Some a) (Some b) \<longleftrightarrow> b < a"
| "later_than _ _ \<longleftrightarrow> False"

fun not_before :: "int option \<Rightarrow> int option \<Rightarrow> bool" where
  "not_before (Some a) (Some b) \<longleftrightarrow> b \<le> a"
| "not_before _ _ \<longleftrightarrow> False"

definition same_number :: "int option \<Rightarrow> int option \<Rightarrow> bool" where
  "same_number a b \<longleftrightarrow> a \<noteq> None \<and> a = b"

fun state_field :: "json \<Rightarrow> string \<Rightarrow> json option" where
  "state_field (JObject m) name = field_of m name"
| "state_field _ name = None"

fun truthy :: "json option \<Rightarrow> bool" where
  "truthy None = False"
| "truthy (Some JNull) = False"
| "truthy (Some (JBool b)) = b"
| "truthy (Some (JNumber x)) = (\<not> is_zero x \<and> \<not> is_nan x)"
| "truthy (Some (JString s)) = (s \<noteq> [])"
| "truthy (Some _) = True"

definition isTerminalTask :: "json \<Rightarrow> bool" where
  "isTerminalTask task \<longleftrightarrow> isOneOf (state_field task ''status'') [''completed'', ''failed'', ''cancelled'']"

definition confirmationRank :: "json option \<Rightarrow> int" where
  "confirmationRank confirmation = (if isOneOf confirmation [''core_confirmed'', ''core_rejected''] then 2 else 1)"

text \<open>A version is a safe integer: the contract and the generated validators admit no other.\<close>

definition resourceVersion :: "fields \<Rightarrow> int option" where
  "resourceVersion publication =
     (if publication_deleted publication then safe_integer (field_of publication ''atlas_version'')
      else if field_is publication ''resource_type'' ''task'' then None
      else case field_of publication ''atlas_version'' of
          Some v \<Rightarrow> safe_integer (Some v)
        | None \<Rightarrow>
            (case nested publication ''resource'' ''metadata'' of
               Some metadata \<Rightarrow> safe_integer (state_field metadata ''version'')
             | None \<Rightarrow> None))"

definition is_asset_entity :: "fields \<Rightarrow> bool" where
  "is_asset_entity publication \<longleftrightarrow>
     field_is publication ''resource_type'' ''entity'' \<and>
     nested publication ''resource'' ''entity_type'' = Some (JString (js_lit ''asset''))"

definition sourceAssetID :: "fields \<Rightarrow> link_node \<Rightarrow> jstring option" where
  "sourceAssetID publication source =
     (if publication_deleted publication then None
      else if node_role source = AssetRole then Some (node_id source)
      else if field_is publication ''resource_type'' ''task'' then Some (the_string (nested publication ''resource'' ''asset_id''))
      else if is_asset_entity publication then Some (the_string (nested publication ''resource'' ''entity_id''))
      else None)"

definition same_origin :: "link_node \<Rightarrow> int \<Rightarrow> jstring \<Rightarrow> apply_context \<Rightarrow> bool" where
  "same_origin source generation session context \<longleftrightarrow>
     sameNode source (cx_source context) \<and> generation = cx_source_generation context \<and> session = cx_service_session context"

definition isNewer :: "picture_env \<Rightarrow> fields \<Rightarrow> picture_record \<Rightarrow> apply_context \<Rightarrow> bool" where
  "isNewer env publication current context =
     (let nextVersion = resourceVersion publication;
          newerSourceGeneration =
            sameNode (pr_source current) (cx_source context) \<and> pr_source_generation current < cx_source_generation context;
          nextRank = confirmationRank (field_of publication ''confirmation'');
          currentRank = confirmationRank (pr_confirmation current);
          nextObserved = parsed env (field_of publication ''observation_time'');
          currentObserved = parsed env (pr_observation_time current);
          sameSource = same_origin (pr_source current) (pr_source_generation current) (pr_service_session current) context
      in if nextVersion \<noteq> None \<and> pr_atlas_version current \<noteq> None then
           (if nextVersion \<noteq> pr_atlas_version current then the (pr_atlas_version current) < the nextVersion
            else if currentRank < nextRank then True
            else if nextRank < currentRank then later_than nextObserved currentObserved
            else if newerSourceGeneration then not_before nextObserved currentObserved
            else if sameSource then pr_source_sequence current < cx_source_sequence context
            else later_than nextObserved currentObserved)
         else if field_is publication ''resource_type'' ''task'' \<and> pr_resource_type current = TaskType then
           (let nextUpdatedAt = parsed env (nested publication ''resource'' ''updated_at'');
                currentUpdatedAt = parsed env (state_field (pr_state current) ''updated_at'')
            in if currentRank < nextRank then True
               else if \<not> same_number nextUpdatedAt currentUpdatedAt then later_than nextUpdatedAt currentUpdatedAt
               else if newerSourceGeneration then True
               else if nextRank < currentRank then False
               else sameSource \<and> pr_source_sequence current < cx_source_sequence context)
         else True)"

definition canReplaceTombstone :: "fields \<Rightarrow> picture_tombstone \<Rightarrow> bool" where
  "canReplaceTombstone publication tombstone =
     (case resourceVersion publication of
        None \<Rightarrow> False
      | Some version \<Rightarrow>
          if version \<noteq> ts_atlasVersion tombstone then ts_atlasVersion tombstone < version
          else confirmationRank (ts_confirmation tombstone) < confirmationRank (field_of publication ''confirmation''))"

definition freshnessThresholds :: "picture_record \<Rightarrow> int option \<times> int option" where
  "freshnessThresholds r =
     (case pr_resource_type r of
        TaskType \<Rightarrow> (None, if isTerminalTask (pr_state r) then Some (10 * 60000) else None)
      | EntityType \<Rightarrow>
          (if isOneOf (state_field (pr_state r) ''entity_type'') [''asset'', ''track''] then
             (case state_field (pr_state r) ''components'' of
                Some components \<Rightarrow>
                  if truthy (state_field components ''telemetry'') \<or> truthy (state_field components ''health'')
                  then (Some 30000, Some 120000)
                  else if truthy (state_field components ''geometry'') then (Some 5000, Some 30000) else (None, None)
              | None \<Rightarrow> (None, None))
           else (None, None))
      | ObjectType \<Rightarrow> (None, None))"

subsection \<open>Sizes\<close>

definition json_field :: "string \<Rightarrow> json option \<Rightarrow> fields" where
  "json_field name v = (case v of None \<Rightarrow> [] | Some j \<Rightarrow> [(js_lit name, j)])"

definition node_json :: "link_node \<Rightarrow> json" where
  "node_json n = JObject [(js_lit ''role'', JString (role_name (node_role n))), (js_lit ''id'', JString (node_id n))]"

fun freshness_name :: "picture_freshness \<Rightarrow> jstring" where
  "freshness_name Fresh = js_lit ''fresh''"
| "freshness_name Stale = js_lit ''stale''"
| "freshness_name Degraded = js_lit ''degraded''"

definition record_json :: "picture_record \<Rightarrow> json" where
  "record_json r = JObject (
     [(js_lit ''resource_type'', JString (type_name (pr_resource_type r))), (js_lit ''id'', JString (pr_id r)),
      (js_lit ''state'', pr_state r), (js_lit ''source'', node_json (pr_source r)),
      (js_lit ''source_generation'', json_int (pr_source_generation r)), (js_lit ''service_session'', JString (pr_service_session r)),
      (js_lit ''source_sequence'', json_int (pr_source_sequence r))] @
     json_field ''source_asset_id'' (map_option JString (pr_source_asset_id r)) @
     json_field ''runtime_id'' (pr_runtime_id r) @ json_field ''operation_id'' (pr_operation_id r) @
     json_field ''observation_time'' (pr_observation_time r) @ [(js_lit ''received_at'', json_int (pr_received_at r))] @
     json_field ''atlas_version'' (map_option json_int (pr_atlas_version r)) @
     [(js_lit ''freshness'', JString (freshness_name (pr_freshness r)))] @
     json_field ''path'' (pr_path r) @ json_field ''confirmation'' (pr_confirmation r))"

definition tombstone_json :: "picture_tombstone \<Rightarrow> json" where
  "tombstone_json t = JObject (
     [(js_lit ''atlasVersion'', json_int (ts_atlasVersion t))] @ json_field ''confirmation'' (ts_confirmation t) @
     [(js_lit ''source'', node_json (ts_source t)), (js_lit ''sourceGeneration'', json_int (ts_sourceGeneration t)),
      (js_lit ''serviceSession'', JString (ts_serviceSession t)), (js_lit ''sourceSequence'', json_int (ts_sourceSequence t))])"

fun event_name :: "event_type \<Rightarrow> jstring" where
  "event_name Upsert = js_lit ''upsert''"
| "event_name StaleEvent = js_lit ''stale''"
| "event_name Remove = js_lit ''remove''"

definition event_json :: "picture_event \<Rightarrow> json" where
  "event_json e = JObject (
     [(js_lit ''type'', JString (event_name (ev_type e))), (js_lit ''key'', JString (ev_key e))] @
     json_field ''record'' (map_option record_json (ev_record e)) @
     [(js_lit ''session'', JString (ev_session e)), (js_lit ''revision'', json_int (int (ev_revision e)))])"

definition retainedBytes :: "picture_env \<Rightarrow> json \<Rightarrow> nat" where
  "retainedBytes env v = length (json_bytes (penv_number env) v)"

text \<open>A record is charged as if it were degraded, so that a change of its freshness does not change its size.\<close>

definition record_bytes :: "picture_env \<Rightarrow> picture_record \<Rightarrow> nat" where
  "record_bytes env r = retainedBytes env (record_json (r\<lparr>pr_freshness := Degraded\<rparr>))"

definition tombstone_bytes :: "picture_env \<Rightarrow> picture_tombstone \<Rightarrow> nat" where
  "tombstone_bytes env t = retainedBytes env (tombstone_json t)"

subsection \<open>Retained entries\<close>

definition entry_size :: "picture \<Rightarrow> jstring \<Rightarrow> nat" where
  "entry_size p key = (case js_get (entryBytes p) key of None \<Rightarrow> 0 | Some n \<Rightarrow> n)"

definition canRetain :: "picture \<Rightarrow> jstring \<Rightarrow> nat \<Rightarrow> bool" where
  "canRetain p key bytes =
     (let currentBytes = entry_size p key in
      if currentBytes = 0 \<and> PICTURE_ENTRY_LIMIT \<le> length (entryBytes p) then False
      else retainedEntryTotal p - int currentBytes + int bytes \<le> PICTURE_RETAINED_BYTES_LIMIT)"

definition retainEntrySize :: "jstring \<Rightarrow> nat \<Rightarrow> picture \<Rightarrow> picture" where
  "retainEntrySize key bytes p =
     p\<lparr>entryBytes := js_set key bytes (entryBytes p),
       retainedEntryTotal := retainedEntryTotal p - int (entry_size p key) + int bytes\<rparr>"

definition retainRecord :: "picture_env \<Rightarrow> jstring \<Rightarrow> picture_record \<Rightarrow> picture \<Rightarrow> picture" where
  "retainRecord env key r p =
     (let p = retainEntrySize key (record_bytes env r) p
      in p\<lparr>tombstones := js_delete key (tombstones p), records := js_set key r (records p)\<rparr>)"

definition retainTombstone :: "picture_env \<Rightarrow> jstring \<Rightarrow> picture_tombstone \<Rightarrow> picture \<Rightarrow> picture" where
  "retainTombstone env key t p =
     (let p = retainEntrySize key (tombstone_bytes env t) p
      in p\<lparr>records := js_delete key (records p), tombstones := js_set key t (tombstones p)\<rparr>)"

definition removeRecord :: "jstring \<Rightarrow> picture \<Rightarrow> picture" where
  "removeRecord key p =
     p\<lparr>records := js_delete key (records p), retainedEntryTotal := retainedEntryTotal p - int (entry_size p key),
       entryBytes := js_delete key (entryBytes p)\<rparr>"

subsection \<open>Events\<close>

text \<open>The eviction loop of the event buffer: the oldest event goes while there are too many events or bytes.\<close>

fun evict_events :: "nat \<Rightarrow> picture_event list \<Rightarrow> nat list \<Rightarrow> int \<Rightarrow> picture_event list \<times> nat list \<times> int" where
  "evict_events limit (e # es) ns held =
     (if limit < length (e # es) \<or> PICTURE_EVENT_BYTES_LIMIT < held
      then evict_events limit es (tl ns) (held - int (case ns of [] \<Rightarrow> 0 | n # _ \<Rightarrow> n))
      else (e # es, ns, held))"
| "evict_events limit [] ns held = ([], ns, held)"

definition store_event :: "picture_env \<Rightarrow> picture_event \<Rightarrow> picture \<Rightarrow> picture" where
  "store_event env e p =
     (let bytes = retainedBytes env (event_json e) in
      if PICTURE_EVENT_BYTES_LIMIT < int bytes then p\<lparr>pic_events := [], eventBytes := [], retainedEventTotal := 0\<rparr>
      else (case evict_events (eventBufferLimit p) (pic_events p @ [e]) (eventBytes p @ [bytes]) (retainedEventTotal p + int bytes) of
          (es, ns, held) \<Rightarrow> p\<lparr>pic_events := es, eventBytes := ns, retainedEventTotal := held\<rparr>))"

definition dispatch_event :: "picture_env \<Rightarrow> picture_event \<Rightarrow> picture \<Rightarrow> picture" where
  "dispatch_event env e p =
     p\<lparr>delivered := delivered p @ map (\<lambda>l. (l, e)) (pic_listeners p),
       pic_listeners := filter (\<lambda>l. \<not> listener_throws env l e) (pic_listeners p)\<rparr>"

definition emit :: "picture_env \<Rightarrow> event_type \<Rightarrow> jstring \<Rightarrow> picture_record option \<Rightarrow> picture \<Rightarrow> picture" where
  "emit env kind key r p =
     (let complete = \<lparr>ev_session = pic_session p, ev_revision = pic_revision p + 1, ev_type = kind, ev_key = key, ev_record = r\<rparr>
      in dispatch_event env complete (store_event env complete (p\<lparr>pic_revision := pic_revision p + 1\<rparr>)))"

subsection \<open>Connectivity and refresh\<close>

text \<open>
  \<^verbatim>\<open>for (const [key, record] of this.records)\<close>: the loops only change or remove present keys, so they visit the keys
  present at the start, each with its value at that moment.
\<close>

definition visit_record :: "(jstring \<Rightarrow> picture_record \<Rightarrow> picture \<Rightarrow> picture) \<Rightarrow> jstring \<Rightarrow> picture \<Rightarrow> picture" where
  "visit_record f key p = (case js_get (records p) key of None \<Rightarrow> p | Some r \<Rightarrow> f key r p)"

definition for_records :: "(jstring \<Rightarrow> picture_record \<Rightarrow> picture \<Rightarrow> picture) \<Rightarrow> picture \<Rightarrow> picture" where
  "for_records f p = fold (visit_record f) (js_keys (records p)) p"

definition mark_record :: "picture_env \<Rightarrow> jstring \<Rightarrow> bool \<Rightarrow> jstring \<Rightarrow> picture_record \<Rightarrow> picture \<Rightarrow> picture" where
  "mark_record env asset now_connected key r p =
     (let freshness = (if now_connected then Fresh else Degraded) in
      if pr_resource_type r = TaskType \<and> \<not> isTerminalTask (pr_state r) \<and>
         state_field (pr_state r) ''asset_id'' = Some (JString asset) \<and> pr_freshness r \<noteq> freshness
      then let updated = r\<lparr>pr_freshness := freshness\<rparr> in
        emit env (if now_connected then Upsert else StaleEvent) key (Some updated) (retainRecord env key updated p)
      else p)"

definition markSourceConnectivity :: "picture_env \<Rightarrow> link_node \<Rightarrow> bool \<Rightarrow> picture \<Rightarrow> picture" where
  "markSourceConnectivity env source now_connected p =
     (if node_role source \<noteq> AssetRole then p
      else for_records (mark_record env (node_id source) now_connected)
        (case js_get (assetConnectivity p) (node_id source) of
           None \<Rightarrow> p
         | Some c \<Rightarrow> p\<lparr>assetConnectivity := js_set (node_id source) (c\<lparr>connected := now_connected\<rparr>) (assetConnectivity p)\<rparr>))"

definition degradeTasksForExpiredAsset :: "picture_env \<Rightarrow> picture_record \<Rightarrow> picture \<Rightarrow> picture" where
  "degradeTasksForExpiredAsset env r p =
     (if pr_resource_type r \<noteq> EntityType then p
      else if state_field (pr_state r) ''entity_type'' = Some (JString (js_lit ''asset'')) then
        markSourceConnectivity env \<lparr>node_role = AssetRole, node_id = the_string (state_field (pr_state r) ''entity_id'')\<rparr> False p
      else p)"

definition pruneRecordSourceSequences :: "int \<Rightarrow> picture \<Rightarrow> picture" where
  "pruneRecordSourceSequences t p =
     p\<lparr>recordSourceSequences :=
         filter (\<lambda>(_, position). \<not> RECORD_SOURCE_SEQUENCE_REPLAY_MS \<le> t - rs_receivedAt position) (recordSourceSequences p)\<rparr>"

text \<open>The two loops of \<^verbatim>\<open>refresh\<close>; the first visits the assets known at the start, which no step removes.\<close>

definition refresh_asset :: "picture_env \<Rightarrow> int \<Rightarrow> jstring \<Rightarrow> picture \<Rightarrow> picture" where
  "refresh_asset env t i p =
     (case js_get (assetConnectivity p) i of
        Some c \<Rightarrow>
          (case receivedAt c of
             Some r \<Rightarrow> if connected c \<and> 30000 \<le> t - r
               then markSourceConnectivity env \<lparr>node_role = AssetRole, node_id = i\<rparr> False p else p
           | None \<Rightarrow> p)
      | None \<Rightarrow> p)"

definition refresh_record :: "picture_env \<Rightarrow> int \<Rightarrow> jstring \<Rightarrow> picture_record \<Rightarrow> picture \<Rightarrow> picture" where
  "refresh_record env t key r p =
     (let age = t - pr_received_at r; (staleAfter, removeAfter) = freshnessThresholds r in
      if removeAfter \<noteq> None \<and> the removeAfter \<le> age then
        emit env Remove key None (removeRecord key (degradeTasksForExpiredAsset env r p))
      else if staleAfter \<noteq> None \<and> the staleAfter \<le> age \<and> pr_freshness r = Fresh then
        (let stale = r\<lparr>pr_freshness := Stale\<rparr>
         in emit env StaleEvent key (Some stale) (retainRecord env key stale (degradeTasksForExpiredAsset env r p)))
      else p)"

definition refresh :: "picture_env \<Rightarrow> int \<Rightarrow> picture \<Rightarrow> picture" where
  "refresh env t p =
     (let p = pruneRecordSourceSequences t p; p = fold (refresh_asset env t) (js_keys (assetConnectivity p)) p
      in for_records (refresh_record env t) p)"

subsection \<open>Sources\<close>

definition stale_position :: "int \<Rightarrow> jstring \<Rightarrow> source_position \<Rightarrow> bool" where
  "stale_position generation session current \<longleftrightarrow>
     generation < sp_generation current \<or> generation = sp_generation current \<and> session \<noteq> sp_session current"

text \<open>\<^verbatim>\<open>activateSource\<close> after its argument check.\<close>

definition activate_source :: "picture_env \<Rightarrow> link_node \<Rightarrow> int \<Rightarrow> jstring \<Rightarrow> picture \<Rightarrow> bool \<times> picture" where
  "activate_source env source generation session p =
     (let key = node_key source; current = js_get (sources p) key in
      if current = None \<and> LINK_SOURCE_IDENTITY_LIMIT \<le> length (sources p) then (False, p)
      else if current \<noteq> None \<and> stale_position generation session (the current) then (False, p)
      else let unknown = (node_role source = AssetRole \<and> \<not> js_has (assetConnectivity p) (node_id source)) in
        if unknown \<and> LINK_SOURCE_IDENTITY_LIMIT \<le> length (assetConnectivity p) then (False, p)
        else let p = (if unknown then p\<lparr>assetConnectivity :=
                 js_set (node_id source) \<lparr>connected = False, receivedAt = None\<rparr> (assetConnectivity p)\<rparr> else p)
          in if current = Some \<lparr>sp_generation = generation, sp_session = session\<rparr> then (True, p)
             else let p = (if current \<noteq> None \<and> sp_generation (the current) < generation
                 then let q = markSourceConnectivity env source False p in
                   q\<lparr>recordSourceSequences := filter (\<lambda>(_, position). rs_sourceKey position \<noteq> key) (recordSourceSequences q)\<rparr>
                 else p)
               in (True, p\<lparr>sources := js_set key \<lparr>sp_generation = generation, sp_session = session\<rparr> (sources p)\<rparr>))"

definition activateSource :: "picture_env \<Rightarrow> link_node \<Rightarrow> int \<Rightarrow> jstring \<Rightarrow> picture \<Rightarrow> (picture, bool) effect" where
  "activateSource env source generation session p =
     (if \<not> is_safe_integer generation \<or> generation < 0 \<or> session = []
      then (Inl (TypeError ''source activation requires a generation and service session''), p)
      else let (accepted, p) = activate_source env source generation session p in (Inr accepted, p))"

definition acceptSource :: "picture_env \<Rightarrow> apply_context \<Rightarrow> picture \<Rightarrow> (picture, picture_rejection option) effect" where
  "acceptSource env context p =
     (if js_get (sources p) (node_key (cx_source context)) = None \<and> LINK_SOURCE_IDENTITY_LIMIT \<le> length (sources p)
      then (Inr (Some Capacity), p)
      else then_do (activateSource env (cx_source context) (cx_source_generation context) (cx_service_session context) p)
        (\<lambda>accepted p. (Inr (if accepted then None else Some StaleSource), p)))"

subsection \<open>Applying a publication\<close>

definition connectivityAssetID :: "fields \<Rightarrow> apply_context \<Rightarrow> picture_record option \<Rightarrow> picture \<Rightarrow> jstring option" where
  "connectivityAssetID publication context current p =
     (if publication_deleted publication then
        (if current \<noteq> None \<and> pr_resource_type (the current) = EntityType \<and>
            state_field (pr_state (the current)) ''entity_type'' = Some (JString (js_lit ''asset''))
         then Some (pr_id (the current))
         else if \<not> field_is publication ''resource_type'' ''entity'' then None
         else let i = the_string (field_of publication ''resource_id'') in if js_has (assetConnectivity p) i then Some i else None)
      else if node_role (cx_source context) = AssetRole then Some (node_id (cx_source context))
      else if is_asset_entity publication then Some (the_string (nested publication ''resource'' ''entity_id''))
      else None)"

definition canAdmitAsset :: "picture \<Rightarrow> jstring \<Rightarrow> bool" where
  "canAdmitAsset p i \<longleftrightarrow> js_has (assetConnectivity p) i \<or> length (assetConnectivity p) < LINK_SOURCE_IDENTITY_LIMIT"

definition taskFreshness :: "picture \<Rightarrow> json \<Rightarrow> picture_record option \<Rightarrow> picture_freshness" where
  "taskFreshness p task current =
     (let asset = the_string (state_field task ''asset_id''); assetKey = record_key EntityType asset in
      if isTerminalTask task then Fresh
      else if current \<noteq> None \<and> pr_resource_type (the current) = TaskType \<and> pr_freshness (the current) \<noteq> Fresh
      then pr_freshness (the current)
      else if js_get (records p) assetKey \<noteq> None \<and> pr_freshness (the (js_get (records p) assetKey)) \<noteq> Fresh then Degraded
      else if js_has (tombstones p) assetKey then Degraded
      else if js_get (assetConnectivity p) asset \<noteq> None \<and> \<not> connected (the (js_get (assetConnectivity p) asset)) then Degraded
      else Fresh)"

definition source_position_of :: "apply_context \<Rightarrow> record_source_sequence" where
  "source_position_of context = \<lparr>rs_sourceKey = node_key (cx_source context), rs_generation = cx_source_generation context,
     rs_session = cx_service_session context, rs_sequence = cx_source_sequence context, rs_receivedAt = cx_received_at context\<rparr>"

definition record_of :: "fields \<Rightarrow> apply_context \<Rightarrow> picture_freshness \<Rightarrow> picture_record" where
  "record_of publication context freshness =
     \<lparr>pr_resource_type = publication_type (JObject publication), pr_id = the_string (resourceID publication),
      pr_state = (case field_of publication ''resource'' of None \<Rightarrow> JNull | Some j \<Rightarrow> j), pr_source = cx_source context,
      pr_source_generation = cx_source_generation context, pr_service_session = cx_service_session context,
      pr_source_sequence = cx_source_sequence context, pr_source_asset_id = sourceAssetID publication (cx_source context),
      pr_runtime_id = field_of publication ''runtime_id'', pr_operation_id = field_of publication ''operation_id'',
      pr_observation_time = field_of publication ''observation_time'', pr_received_at = cx_received_at context,
      pr_atlas_version = resourceVersion publication, pr_freshness = freshness,
      pr_path = field_of publication ''path'', pr_confirmation = field_of publication ''confirmation''\<rparr>"

definition tombstone_of :: "fields \<Rightarrow> apply_context \<Rightarrow> picture_tombstone" where
  "tombstone_of publication context =
     \<lparr>ts_atlasVersion = the_integer (field_of publication ''atlas_version''), ts_confirmation = field_of publication ''confirmation'',
      ts_source = cx_source context, ts_sourceGeneration = cx_source_generation context,
      ts_serviceSession = cx_service_session context, ts_sourceSequence = cx_source_sequence context\<rparr>"

text \<open>\<^verbatim>\<open>rejectCapacity\<close>: the position that this publication recorded is taken back.\<close>

definition rejectCapacity ::
    "jstring \<Rightarrow> record_source_sequence option \<Rightarrow> picture \<Rightarrow> (picture, picture_rejection option) effect" where
  "rejectCapacity recordSourceKey sourceSequence p =
     (Inr (Some Capacity),
      p\<lparr>recordSourceSequences :=
          (case sourceSequence of
             None \<Rightarrow> js_delete recordSourceKey (recordSourceSequences p)
           | Some position \<Rightarrow> js_set recordSourceKey position (recordSourceSequences p))\<rparr>)"

definition asset_node :: "jstring \<Rightarrow> link_node" where
  "asset_node i = \<lparr>node_role = AssetRole, node_id = i\<rparr>"

definition apply_delete ::
    "picture_env \<Rightarrow> fields \<Rightarrow> apply_context \<Rightarrow> jstring option \<Rightarrow> jstring \<Rightarrow> jstring \<Rightarrow> record_source_sequence option \<Rightarrow>
     picture_record option \<Rightarrow> picture \<Rightarrow> (picture, picture_rejection option) effect" where
  "apply_delete env publication context connectivityAsset key recordSourceKey sourceSequence current p =
     (let tombstone = js_get (tombstones p) key; nextTombstone = tombstone_of publication context in
      if tombstone \<noteq> None \<and> \<not> canReplaceTombstone publication (the tombstone) then (Inr (Some StaleRecord), p)
      else if \<not> canRetain p key (tombstone_bytes env nextTombstone) then rejectCapacity recordSourceKey sourceSequence p
      else let p = (case current of None \<Rightarrow> p | Some r \<Rightarrow> degradeTasksForExpiredAsset env r p);
               p = retainTombstone env key nextTombstone p;
               p = (case connectivityAsset of None \<Rightarrow> p | Some i \<Rightarrow> markSourceConnectivity env (asset_node i) False p)
           in (Inr None, case current of None \<Rightarrow> p | Some r \<Rightarrow> emit env Remove key None p))"

definition apply_upsert ::
    "picture_env \<Rightarrow> fields \<Rightarrow> apply_context \<Rightarrow> jstring option \<Rightarrow> jstring \<Rightarrow> jstring \<Rightarrow> record_source_sequence option \<Rightarrow>
     picture_record option \<Rightarrow> picture \<Rightarrow> (picture, picture_rejection option) effect" where
  "apply_upsert env publication context connectivityAsset key recordSourceKey sourceSequence current p =
     (let tombstone = js_get (tombstones p) key;
          freshness = (if field_is publication ''resource_type'' ''task''
            then taskFreshness p (the (field_of publication ''resource'')) current else Fresh);
          r = record_of publication context freshness
      in if tombstone \<noteq> None \<and> (resourceVersion publication = None \<or> \<not> canReplaceTombstone publication (the tombstone))
         then (Inr (Some StaleRecord), p)
         else if \<not> canRetain p key (record_bytes env r) then rejectCapacity recordSourceKey sourceSequence p
         else let p = retainRecord env key r p;
                  p = (case connectivityAsset of
                      None \<Rightarrow> p
                    | Some i \<Rightarrow> p\<lparr>assetConnectivity :=
                        js_set i \<lparr>connected = True, receivedAt = Some (cx_received_at context)\<rparr> (assetConnectivity p)\<rparr>);
                  p = emit env Upsert key (Some r) p
              in (Inr None, case connectivityAsset of None \<Rightarrow> p | Some i \<Rightarrow> markSourceConnectivity env (asset_node i) True p))"

definition apply_accepted ::
    "picture_env \<Rightarrow> fields \<Rightarrow> apply_context \<Rightarrow> jstring option \<Rightarrow> jstring \<Rightarrow> picture_record option \<Rightarrow> picture \<Rightarrow>
     (picture, picture_rejection option) effect" where
  "apply_accepted env publication context connectivityAsset key current p =
     (let p = pruneRecordSourceSequences (cx_received_at context) p;
          recordSourceKey = key @ [0] @ node_key (cx_source context);
          sourceSequence = js_get (recordSourceSequences p) recordSourceKey
      in if sourceSequence \<noteq> None \<and> rs_generation (the sourceSequence) = cx_source_generation context \<and>
            rs_session (the sourceSequence) = cx_service_session context \<and>
            cx_source_sequence context \<le> rs_sequence (the sourceSequence) then (Inr (Some StaleSequence), p)
         else if sourceSequence = None \<and> RECORD_SOURCE_SEQUENCE_LIMIT \<le> length (recordSourceSequences p)
         then (Inr (Some Capacity), p)
         else let p = p\<lparr>recordSourceSequences := js_set recordSourceKey (source_position_of context) (recordSourceSequences p)\<rparr>;
                  tombstone = js_get (tombstones p) key
           in if current \<noteq> None \<and> same_origin (pr_source (the current)) (pr_source_generation (the current))
                   (pr_service_session (the current)) context \<and> cx_source_sequence context \<le> pr_source_sequence (the current)
              then (Inr (Some StaleSequence), p)
              else if tombstone \<noteq> None \<and> same_origin (ts_source (the tombstone)) (ts_sourceGeneration (the tombstone))
                   (ts_serviceSession (the tombstone)) context \<and> cx_source_sequence context \<le> ts_sourceSequence (the tombstone)
              then (Inr (Some StaleSequence), p)
              else if current \<noteq> None \<and> \<not> isNewer env publication (the current) context then (Inr (Some StaleRecord), p)
              else if publication_deleted publication
              then apply_delete env publication context connectivityAsset key recordSourceKey sourceSequence current p
              else apply_upsert env publication context connectivityAsset key recordSourceKey sourceSequence current p)"

text \<open>\<^verbatim>\<open>apply\<close>: \<open>None\<close> is \<^verbatim>\<open>APPLIED\<close>.\<close>

definition apply_publication ::
    "picture_env \<Rightarrow> fields \<Rightarrow> apply_context \<Rightarrow> picture \<Rightarrow> (picture, picture_rejection option) effect" where
  "apply_publication env publication context p =
     (let key = record_key (publication_type (JObject publication)) (the_string (resourceID publication));
          current = js_get (records p) key;
          connectivityAsset = connectivityAssetID publication context current p
      in if connectivityAsset \<noteq> None \<and> \<not> canAdmitAsset p (the connectivityAsset) then (Inr (Some Capacity), p)
         else then_do (acceptSource env context p) (\<lambda>rejection p.
           case rejection of
             Some r \<Rightarrow> (Inr (Some r), p)
           | None \<Rightarrow> apply_accepted env publication context connectivityAsset key current p))"

subsection \<open>Reading\<close>

definition comparePictureRecords :: "picture_env \<Rightarrow> picture_record \<Rightarrow> picture_record \<Rightarrow> int" where
  "comparePictureRecords env left right =
     (let c = locale_compare env (type_name (pr_resource_type left)) (type_name (pr_resource_type right))
      in if c \<noteq> 0 then c else locale_compare env (pr_id left) (pr_id right))"

text \<open>A stable sort by a comparison function.\<close>

fun insert_by :: "('a \<Rightarrow> 'a \<Rightarrow> int) \<Rightarrow> 'a \<Rightarrow> 'a list \<Rightarrow> 'a list" where
  "insert_by compare x [] = [x]"
| "insert_by compare x (y # ys) = (if compare x y \<le> 0 then x # y # ys else y # insert_by compare x ys)"

definition picture_snapshot :: "picture_env \<Rightarrow> picture \<Rightarrow> jstring \<times> nat \<times> picture_record list" where
  "picture_snapshot env p = (pic_session p, pic_revision p, foldr (insert_by (comparePictureRecords env)) (map snd (records p)) [])"

definition eventsAfter :: "picture \<Rightarrow> jstring \<Rightarrow> int \<Rightarrow> picture_event list result" where
  "eventsAfter p session revision =
     (if session \<noteq> pic_session p \<or> \<not> is_safe_integer revision \<or> revision < 0 \<or> int (pic_revision p) < revision
      then Inl (PlainError ''picture cursor belongs to another service session or is invalid'')
      else let earliest = (case pic_events p of [] \<Rightarrow> int (pic_revision p) + 1 | e # _ \<Rightarrow> int (ev_revision e)) in
        if revision < earliest - 1 then Inl (PlainError ''picture cursor expired; read a new snapshot'')
        else Inr (filter (\<lambda>e. revision < int (ev_revision e)) (pic_events p)))"

definition addListener :: "nat \<Rightarrow> picture \<Rightarrow> (picture, unit) effect" where
  "addListener l p =
     (if l \<notin> set (pic_listeners p) \<and> PICTURE_LISTENER_LIMIT \<le> length (pic_listeners p)
      then (Inl (RangeError ''picture subscriber capacity exhausted''), p)
      else (Inr (), p\<lparr>pic_listeners := set_add l (pic_listeners p)\<rparr>))"

definition unsubscribe :: "nat \<Rightarrow> picture \<Rightarrow> picture" where
  "unsubscribe l p = p\<lparr>pic_listeners := filter (\<lambda>x. x \<noteq> l) (pic_listeners p)\<rparr>"

definition subscribeAfter :: "jstring \<Rightarrow> int \<Rightarrow> nat \<Rightarrow> picture \<Rightarrow> (picture, picture_event list) effect" where
  "subscribeAfter session revision l p =
     (case eventsAfter p session revision of
        Inl e \<Rightarrow> (Inl e, p)
      | Inr replay \<Rightarrow> then_do (addListener l p) (\<lambda>_ p. (Inr replay, p)))"

end
