(* ===== verification/Picture_Safety.thy ===== *)
theory Picture_Safety
  imports Picture Interfaces "HOL-Library.Multiset"
begin

text \<open>
  What the shared picture guarantees. Every change of its records is one of its events, so a subscriber catches up from a snapshot by
  redoing the events (the picture is an \<open>event_machine\<close>); every operation is a sequence of primitive steps made under the conditions the
  code checks, and the limits and the byte accounting are invariants of those steps; a versioned publication never takes a
  resource back to an earlier version.
\<close>

declare map_of_eq_Some_iff [simp del]

section \<open>Properties\<close>

subsection \<open>Loops over the records\<close>

lemma for_records_inv:
  assumes "P p" "\<And>key r q. P q \<Longrightarrow> map_of (records q) key = Some r \<Longrightarrow> P (f key r q)"
  shows "P (for_records f p)"
proof -
  have "P (fold (visit_record f) ks q)" if "P q" for ks q
    using that by (induction ks arbitrary: q) (auto simp: visit_record_def split: option.splits intro: assms(2))
  then show ?thesis using assms(1) by (simp add: for_records_def)
qed

subsection \<open>Every change is an event\<close>

fun redo_event :: "picture_event \<Rightarrow> jstring \<times> (jstring \<rightharpoonup> picture_record) \<Rightarrow> jstring \<times> (jstring \<rightharpoonup> picture_record)" where
  "redo_event e (s, m) = (s, m(ev_key e := (if ev_type e = Remove then None else ev_record e)))"

definition picture_view :: "picture \<Rightarrow> jstring \<times> (jstring \<rightharpoonup> picture_record)" where
  "picture_view p = (pic_session p, map_of (records p))"

interpretation feed: event_feed picture_view pic_revision pic_events ev_revision redo_event .

lemma evict_events_drop: "\<exists>n. fst (evict_events limit es ns held) = drop n es"
proof (induction limit es ns held rule: evict_events.induct)
  case (1 limit e es ns held)
  show ?case
  proof (cases "limit < length (e # es) \<or> PICTURE_EVENT_BYTES_LIMIT < held")
    case True
    with 1 obtain n where "fst (evict_events limit (e # es) ns held) = drop n es" by auto
    then show ?thesis by (intro exI[of _ "Suc n"]) simp
  next
    case False
    then show ?thesis by (intro exI[of _ 0]) auto
  qed
qed simp

lemma store_event_drop: "\<exists>n. pic_events (store_event env e p) = drop n (pic_events p @ [e])"
proof (cases "PICTURE_EVENT_BYTES_LIMIT < int (retainedBytes env (event_json e))")
  case True
  then show ?thesis by (intro exI[of _ "length (pic_events p @ [e])"]) (simp add: store_event_def Let_def)
next
  case False
  let ?x = "evict_events (eventBufferLimit p) (pic_events p @ [e]) (eventBytes p @ [retainedBytes env (event_json e)])
    (retainedEventTotal p + int (retainedBytes env (event_json e)))"
  have "pic_events (store_event env e p) = fst ?x"
    using False by (simp add: store_event_def Let_def split: prod.splits)
  then show ?thesis using evict_events_drop by metis
qed

lemma store_event_fields [simp]:
  "pic_session (store_event env e p) = pic_session p" "records (store_event env e p) = records p"
  "pic_revision (store_event env e p) = pic_revision p" "tombstones (store_event env e p) = tombstones p"
  "sources (store_event env e p) = sources p" "assetConnectivity (store_event env e p) = assetConnectivity p"
  "recordSourceSequences (store_event env e p) = recordSourceSequences p" "entryBytes (store_event env e p) = entryBytes p"
  "retainedEntryTotal (store_event env e p) = retainedEntryTotal p" "pic_listeners (store_event env e p) = pic_listeners p"
  "eventBufferLimit (store_event env e p) = eventBufferLimit p" "delivered (store_event env e p) = delivered p"
  by (simp_all add: store_event_def Let_def split: prod.splits)

lemma emit_fields [simp]:
  "pic_session (emit env kind key r p) = pic_session p" "records (emit env kind key r p) = records p"
  "tombstones (emit env kind key r p) = tombstones p"
  "sources (emit env kind key r p) = sources p" "assetConnectivity (emit env kind key r p) = assetConnectivity p"
  "recordSourceSequences (emit env kind key r p) = recordSourceSequences p" "entryBytes (emit env kind key r p) = entryBytes p"
  "retainedEntryTotal (emit env kind key r p) = retainedEntryTotal p"
  "eventBufferLimit (emit env kind key r p) = eventBufferLimit p"
  by (simp_all add: emit_def dispatch_event_def Let_def)

definition event_at :: "picture \<Rightarrow> event_type \<Rightarrow> jstring \<Rightarrow> picture_record option \<Rightarrow> picture_event" where
  "event_at p kind key r = \<lparr>ev_session = pic_session p, ev_revision = pic_revision p + 1, ev_type = kind, ev_key = key, ev_record = r\<rparr>"

lemma emit_evolves:
  assumes "pic_session q = pic_session p" "pic_revision q = pic_revision p" "pic_events q = pic_events p"
    and "map_of (records q) = (map_of (records p))(key := (if kind = Remove then None else r))"
  shows "feed.evolves_by p [event_at p kind key r] (emit env kind key r q)"
proof -
  let ?q = "q\<lparr>pic_revision := pic_revision q + 1\<rparr>"
  obtain n where n: "pic_events (store_event env (event_at q kind key r) ?q) = drop n (pic_events ?q @ [event_at q kind key r])"
    using store_event_drop by blast
  have e: "emit env kind key r q = dispatch_event env (event_at q kind key r) (store_event env (event_at q kind key r) ?q)"
    by (simp add: emit_def event_at_def Let_def)
  have same: "event_at q kind key r = event_at p kind key r" using assms by (simp add: event_at_def)
  have "pic_events (emit env kind key r q) = drop n (pic_events p @ [event_at p kind key r])"
    unfolding e same using n assms(3) same by (simp add: dispatch_event_def)
  moreover have "pic_revision (emit env kind key r q) = pic_revision p + 1"
    unfolding e using assms(2) by (simp add: dispatch_event_def)
  ultimately show ?thesis
    using assms by (auto simp: feed.evolves_by_def picture_view_def event_at_def)
qed

text \<open>Changes of tasks only: what the connectivity loop does, wherever it runs.\<close>

definition touches :: "(jstring \<Rightarrow> bool) \<Rightarrow> picture \<Rightarrow> picture \<Rightarrow> bool" where
  "touches K p p' \<longleftrightarrow> (\<exists>es. feed.evolves_by p es p' \<and> (\<forall>e \<in> set es. K (ev_key e)))"

interpretation touch_order: effect_preorder "touches K" for K
proof
  show "touches K s s" for s unfolding touches_def by (rule exI[of _ "[]"]) (simp add: feed.evolves_by_still)
next
  fix a b c
  assume "touches K a b" "touches K b c"
  then show "touches K a c" unfolding touches_def by (metis Un_iff feed.evolves_by_trans set_append)
qed

lemma touches_still:
  "picture_view p' = picture_view p \<Longrightarrow> pic_revision p' = pic_revision p \<Longrightarrow> pic_events p' = pic_events p \<Longrightarrow> touches K p p'"
  unfolding touches_def by (rule exI[of _ "[]"]) (simp add: feed.evolves_by_still)

lemma touches_evolves: "touches K p p' \<Longrightarrow> feed.evolves p p'"
  by (auto simp: touches_def feed.evolves_def)

lemma retainRecord_fields [simp]:
  "pic_session (retainRecord env key r p) = pic_session p" "pic_revision (retainRecord env key r p) = pic_revision p"
  "pic_events (retainRecord env key r p) = pic_events p" "records (retainRecord env key r p) = js_set key r (records p)"
  "tombstones (retainRecord env key r p) = js_delete key (tombstones p)" "sources (retainRecord env key r p) = sources p"
  "assetConnectivity (retainRecord env key r p) = assetConnectivity p"
  "recordSourceSequences (retainRecord env key r p) = recordSourceSequences p"
  "entryBytes (retainRecord env key r p) = js_set key (record_bytes env r) (entryBytes p)"
  "retainedEntryTotal (retainRecord env key r p) = retainedEntryTotal p - int (entry_size p key) + int (record_bytes env r)"
  "eventBytes (retainRecord env key r p) = eventBytes p" "retainedEventTotal (retainRecord env key r p) = retainedEventTotal p"
  "eventBufferLimit (retainRecord env key r p) = eventBufferLimit p" "pic_listeners (retainRecord env key r p) = pic_listeners p"
  by (simp_all add: retainRecord_def retainEntrySize_def Let_def)

lemma retainTombstone_fields [simp]:
  "pic_session (retainTombstone env key t p) = pic_session p" "pic_revision (retainTombstone env key t p) = pic_revision p"
  "pic_events (retainTombstone env key t p) = pic_events p" "records (retainTombstone env key t p) = js_delete key (records p)"
  "tombstones (retainTombstone env key t p) = js_set key t (tombstones p)" "sources (retainTombstone env key t p) = sources p"
  "assetConnectivity (retainTombstone env key t p) = assetConnectivity p"
  "recordSourceSequences (retainTombstone env key t p) = recordSourceSequences p"
  "entryBytes (retainTombstone env key t p) = js_set key (tombstone_bytes env t) (entryBytes p)"
  "retainedEntryTotal (retainTombstone env key t p) = retainedEntryTotal p - int (entry_size p key) + int (tombstone_bytes env t)"
  "eventBytes (retainTombstone env key t p) = eventBytes p" "retainedEventTotal (retainTombstone env key t p) = retainedEventTotal p"
  "eventBufferLimit (retainTombstone env key t p) = eventBufferLimit p" "pic_listeners (retainTombstone env key t p) = pic_listeners p"
  by (simp_all add: retainTombstone_def retainEntrySize_def Let_def)

lemma removeRecord_fields [simp]:
  "pic_session (removeRecord key p) = pic_session p" "pic_revision (removeRecord key p) = pic_revision p"
  "pic_events (removeRecord key p) = pic_events p" "records (removeRecord key p) = js_delete key (records p)"
  "tombstones (removeRecord key p) = tombstones p" "sources (removeRecord key p) = sources p"
  "assetConnectivity (removeRecord key p) = assetConnectivity p"
  "recordSourceSequences (removeRecord key p) = recordSourceSequences p"
  "entryBytes (removeRecord key p) = js_delete key (entryBytes p)"
  "retainedEntryTotal (removeRecord key p) = retainedEntryTotal p - int (entry_size p key)"
  "eventBytes (removeRecord key p) = eventBytes p" "retainedEventTotal (removeRecord key p) = retainedEventTotal p"
  "eventBufferLimit (removeRecord key p) = eventBufferLimit p" "pic_listeners (removeRecord key p) = pic_listeners p"
  by (simp_all add: removeRecord_def)

lemma mark_record_touches: "K key \<Longrightarrow> touches K p (mark_record env a c key r p)"
proof (cases "mark_record env a c key r p = p")
  case False
  assume K: "K key"
  let ?u = "r\<lparr>pr_freshness := if c then Fresh else Degraded\<rparr>" and ?kind = "if c then Upsert else StaleEvent"
  have e: "mark_record env a c key r p = emit env ?kind key (Some ?u) (retainRecord env key ?u p)"
    using False by (auto simp: mark_record_def Let_def split: if_splits)
  have "feed.evolves_by p [event_at p ?kind key (Some ?u)] (mark_record env a c key r p)"
    unfolding e by (rule emit_evolves) (auto simp: js_lookup fun_eq_iff)
  then show ?thesis using K unfolding touches_def by (intro exI[of _ "[event_at p ?kind key (Some ?u)]"]) (simp add: event_at_def)
qed (simp add: touch_order.refl)

lemma mark_avoids:
  assumes "map_of (records p) k0 = None"
  shows "touches (\<lambda>k. k \<noteq> k0) p (markSourceConnectivity env source c p) \<and>
    map_of (records (markSourceConnectivity env source c p)) k0 = None"
proof (cases "node_role source = AssetRole")
  case True
  let ?p = "case js_get (assetConnectivity p) (node_id source) of None \<Rightarrow> p
    | Some d \<Rightarrow> p\<lparr>assetConnectivity := js_set (node_id source) (d\<lparr>connected := c\<rparr>) (assetConnectivity p)\<rparr>"
  have start: "touches (\<lambda>k. k \<noteq> k0) p ?p \<and> map_of (records ?p) k0 = None"
    using assms by (auto intro!: touches_still simp: picture_view_def split: option.splits)
  have "touches (\<lambda>k. k \<noteq> k0) p (for_records (mark_record env (node_id source) c) ?p) \<and>
      map_of (records (for_records (mark_record env (node_id source) c) ?p)) k0 = None"
  proof (rule for_records_inv[where P = "\<lambda>q. touches (\<lambda>k. k \<noteq> k0) p q \<and> map_of (records q) k0 = None"])
    show "touches (\<lambda>k. k \<noteq> k0) p ?p \<and> map_of (records ?p) k0 = None" by (rule start)
    fix key r q
    assume q: "touches (\<lambda>k. k \<noteq> k0) p q \<and> map_of (records q) k0 = None" and r: "map_of (records q) key = Some r"
    then have "key \<noteq> k0" by auto
    then have "touches (\<lambda>k. k \<noteq> k0) q (mark_record env (node_id source) c key r q)" by (rule mark_record_touches)
    moreover have "map_of (records (mark_record env (node_id source) c key r q)) k0 = None"
      using q \<open>key \<noteq> k0\<close> by (auto simp: mark_record_def Let_def js_lookup)
    ultimately show "touches (\<lambda>k. k \<noteq> k0) p (mark_record env (node_id source) c key r q) \<and>
        map_of (records (mark_record env (node_id source) c key r q)) k0 = None"
      using q touch_order.trans by blast
  qed
  then show ?thesis using True by (simp add: markSourceConnectivity_def)
qed (use assms in \<open>simp add: markSourceConnectivity_def touch_order.refl\<close>)

lemma mark_evolves: "feed.evolves p (markSourceConnectivity env source c p)"
proof (cases "node_role source = AssetRole")
  case True
  let ?p = "case js_get (assetConnectivity p) (node_id source) of None \<Rightarrow> p
    | Some d \<Rightarrow> p\<lparr>assetConnectivity := js_set (node_id source) (d\<lparr>connected := c\<rparr>) (assetConnectivity p)\<rparr>"
  have "feed.evolves p (for_records (mark_record env (node_id source) c) ?p)"
  proof (rule for_records_inv)
    show "feed.evolves p ?p"
      by (auto intro!: touches_evolves[OF touches_still] simp: picture_view_def split: option.splits)
    show "feed.evolves p (mark_record env (node_id source) c key r q)" if "feed.evolves p q" for key r q
      using that feed.feed_order.trans touches_evolves[OF mark_record_touches[where K = "\<lambda>_. True"]] by blast
  qed
  then show ?thesis using True by (simp add: markSourceConnectivity_def)
qed (simp add: markSourceConnectivity_def feed.feed_order.refl)

lemma degrade_evolves: "feed.evolves p (degradeTasksForExpiredAsset env r p)"
  by (simp add: degradeTasksForExpiredAsset_def mark_evolves feed.feed_order.refl)

text \<open>An event about one key after changes of other keys, the record itself being gone before them.\<close>

lemma redo_other_keys:
  assumes "\<forall>e \<in> set es. ev_key e \<noteq> k"
  shows "fold redo_event es (s, m(k := x)) = (fst (fold redo_event es (s, m)), (snd (fold redo_event es (s, m)))(k := x))"
  using assms
proof (induction es arbitrary: m)
  case (Cons e es)
  let ?m = "snd (redo_event e (s, m))"
  have e: "redo_event e (s, m(k := x)) = (s, ?m(k := x))" "redo_event e (s, m) = (s, ?m)"
    using Cons.prems by (auto simp: fun_upd_twist)
  have "fold redo_event es (s, ?m(k := x)) = (fst (fold redo_event es (s, ?m)), (snd (fold redo_event es (s, ?m)))(k := x))"
    by (rule Cons.IH) (use Cons.prems in simp)
  then show ?case unfolding fold_simps e(1) e(2)[symmetric] .
qed simp

lemma remove_after:
  assumes "pic_session q = pic_session p" "pic_revision q = pic_revision p" "pic_events q = pic_events p"
    and "map_of (records q) = (map_of (records p))(k := None)" "touches (\<lambda>k'. k' \<noteq> k) q q'" "map_of (records q') k = None"
  shows "feed.evolves p (emit env Remove k None q')"
proof -
  from assms(5) obtain es where es: "feed.evolves_by q es q'" "\<forall>e \<in> set es. ev_key e \<noteq> k" by (auto simp: touches_def)
  let ?v = "fold redo_event es (picture_view p)"
  have fst_v: "fst (fold redo_event fs v) = fst v" for fs v
    by (induction fs arbitrary: v) (simp_all, metis fst_conv redo_event.simps surj_pair)
  have v: "picture_view q' = (fst ?v, (snd ?v)(k := None))"
  proof -
    have "picture_view q' = fold redo_event es (pic_session p, (map_of (records p))(k := None))"
      using es(1) assms(1,4) by (simp add: feed.evolves_by_def picture_view_def)
    then show ?thesis unfolding redo_other_keys[OF es(2)] by (simp add: picture_view_def)
  qed
  let ?e = "event_at q' Remove k None"
  have last: "feed.evolves_by q' [?e] (emit env Remove k None q')"
    by (rule emit_evolves) (use assms(6) in \<open>auto simp: fun_eq_iff\<close>)
  obtain n where n: "pic_events q' = drop n (pic_events p @ es)" using es(1) assms(3) by (auto simp: feed.evolves_by_def)
  obtain m where m: "pic_events (emit env Remove k None q') = drop m (pic_events q' @ [?e])"
    using last by (auto simp: feed.evolves_by_def)
  have numbers: "feed.evolves_by q (es @ [?e]) (emit env Remove k None q')" by (rule feed.evolves_by_trans[OF es(1) last])
  have "picture_view (emit env Remove k None q') = fold redo_event (es @ [?e]) (picture_view p)"
    using v fst_v[of es "picture_view p"] by (cases ?v) (auto simp: picture_view_def event_at_def)
  then have "feed.evolves_by p (es @ [?e]) (emit env Remove k None q')"
    using numbers assms(2,3) by (simp add: feed.evolves_by_def)
  then show ?thesis by (auto simp: feed.evolves_def)
qed

lemma evolves_still:
  "picture_view p' = picture_view p \<Longrightarrow> pic_revision p' = pic_revision p \<Longrightarrow> pic_events p' = pic_events p \<Longrightarrow> feed.evolves p p'"
  by (rule touches_evolves[OF touches_still])

lemma emit_evolves1:
  assumes "pic_session q = pic_session p" "pic_revision q = pic_revision p" "pic_events q = pic_events p"
    and "map_of (records q) = (map_of (records p))(key := (if kind = Remove then None else r))"
  shows "feed.evolves p (emit env kind key r q)"
  using emit_evolves[OF assms] by (rule feed.evolves_byI)

lemma refresh_record_evolves: "feed.evolves p (refresh_record env t key r p)"
proof -
  let ?d = "degradeTasksForExpiredAsset env r p"
  have "feed.evolves ?d (emit env Remove key None (removeRecord key ?d))"
    by (rule emit_evolves1) (auto simp: js_lookup fun_eq_iff)
  moreover have "feed.evolves ?d (emit env StaleEvent key (Some q) (retainRecord env key q ?d))" for q
    by (rule emit_evolves1) (auto simp: js_lookup fun_eq_iff)
  ultimately show ?thesis
    unfolding refresh_record_def Let_def
    by (auto split: prod.splits intro: feed.feed_order.refl feed.feed_order.trans[OF degrade_evolves])
qed

lemma refresh_asset_evolves: "feed.evolves p (refresh_asset env t i p)"
  by (auto simp: refresh_asset_def mark_evolves intro: feed.feed_order.refl split: option.splits)

lemma fold_evolves: "(\<And>x q. feed.evolves q (f x q)) \<Longrightarrow> feed.evolves p (fold f xs p)"
  by (induction xs arbitrary: p) (auto intro: feed.feed_order.refl feed.feed_order.trans)

lemma refresh_evolves: "feed.evolves p (refresh env t p)"
proof -
  let ?q = "fold (refresh_asset env t) (js_keys (assetConnectivity (pruneRecordSourceSequences t p))) (pruneRecordSourceSequences t p)"
  have "feed.evolves p (pruneRecordSourceSequences t p)"
    by (rule evolves_still) (simp_all add: pruneRecordSourceSequences_def picture_view_def)
  moreover have "feed.evolves (pruneRecordSourceSequences t p) ?q" by (rule fold_evolves[OF refresh_asset_evolves])
  moreover have "feed.evolves ?q (for_records (refresh_record env t) ?q)"
    by (rule for_records_inv) (auto intro: feed.feed_order.refl feed.feed_order.trans refresh_record_evolves)
  ultimately show ?thesis unfolding refresh_def Let_def by (metis feed.feed_order.trans)
qed

lemma activate_source_evolves: "feed.evolves p (snd (activate_source env source g s p))"
proof -
  have still: "feed.evolves q (q\<lparr>assetConnectivity := x\<rparr>)" "feed.evolves q (q\<lparr>recordSourceSequences := y\<rparr>)"
    "feed.evolves q (q\<lparr>sources := z\<rparr>)" for q x y z
    by (rule evolves_still; simp add: picture_view_def)+
  note steps = feed.feed_order.trans[OF _ still(1)] feed.feed_order.trans[OF _ still(2)] feed.feed_order.trans[OF _ still(3)]
  show ?thesis
    unfolding activate_source_def Let_def
    by (auto intro!: steps feed.feed_order.refl intro: feed.feed_order.trans[OF steps(1)[OF feed.feed_order.refl] mark_evolves] mark_evolves)
qed

lemma source_evolves:
  "feed.evolves p (snd (activateSource env source g s p))"
  "feed.evolves p (snd (acceptSource env context p))"
proof -
  show *: "feed.evolves p (snd (activateSource env source g s p))" for source g s
    using activate_source_evolves[of p env source g s]
    by (auto simp: activateSource_def feed.feed_order.refl split: prod.splits)
  show "feed.evolves p (snd (acceptSource env context p))"
    by (auto simp: acceptSource_def intro: feed.feed_order.refl intro!: feed.feed_order.then_step *)
qed

lemma prune_evolves: "feed.evolves p (pruneRecordSourceSequences t p)"
  by (rule evolves_still) (simp_all add: pruneRecordSourceSequences_def picture_view_def)

lemma positions_evolve: "feed.evolves p (p\<lparr>recordSourceSequences := m\<rparr>)"
  by (rule evolves_still) (simp_all add: picture_view_def)

lemma apply_delete_evolves:
  assumes "current = None \<longleftrightarrow> map_of (records p) key = None"
  shows "feed.evolves p (snd (apply_delete env publication context asset key rsk seq current p))"
proof -
  let ?d = "case current of None \<Rightarrow> p | Some r \<Rightarrow> degradeTasksForExpiredAsset env r p"
  let ?t = "retainTombstone env key (tombstone_of publication context) ?d"
  let ?m = "case asset of None \<Rightarrow> ?t | Some i \<Rightarrow> markSourceConnectivity env (asset_node i) False ?t"
  have d: "feed.evolves p ?d" by (auto intro: feed.feed_order.refl degrade_evolves split: option.splits)
  have gone: "map_of (records ?t) key = None" by (simp add: js_lookup)
  have m: "touches (\<lambda>k. k \<noteq> key) ?t ?m \<and> map_of (records ?m) key = None"
    using mark_avoids[OF gone] gone by (auto intro: touch_order.refl split: option.splits)
  have "feed.evolves ?d (case current of None \<Rightarrow> ?m | Some r \<Rightarrow> emit env Remove key None ?m)"
  proof (cases current)
    case None
    have "feed.evolves p ?t"
      using assms None by (intro evolves_still) (auto simp: picture_view_def js_lookup fun_upd_idem)
    moreover have "feed.evolves ?t ?m" using m touches_evolves by blast
    ultimately have "feed.evolves p ?m" by (rule feed.feed_order.trans)
    then show ?thesis using None by simp
  next
    case (Some r)
    have "feed.evolves ?d (emit env Remove key None ?m)"
      by (rule remove_after[where q = ?t]) (use m in \<open>auto simp: js_lookup\<close>)
    then show ?thesis using Some by simp
  qed
  then have all: "feed.evolves p (case current of None \<Rightarrow> ?m | Some r \<Rightarrow> emit env Remove key None ?m)"
    using d feed.feed_order.trans by blast
  show ?thesis
    using all unfolding apply_delete_def Let_def
    by (auto simp: rejectCapacity_def intro: feed.feed_order.refl positions_evolve)
qed

lemma apply_upsert_evolves: "feed.evolves p (snd (apply_upsert env publication context asset key rsk seq current p))"
proof -
  define r where "r = record_of publication context
    (if field_is publication ''resource_type'' ''task'' then taskFreshness p (the (field_of publication ''resource'')) current else Fresh)"
  let ?c = "case asset of None \<Rightarrow> retainRecord env key r p | Some i \<Rightarrow> retainRecord env key r p\<lparr>assetConnectivity :=
     js_set i \<lparr>connected = True, receivedAt = Some (cx_received_at context)\<rparr> (assetConnectivity (retainRecord env key r p))\<rparr>"
  let ?e = "emit env Upsert key (Some r) ?c"
  have e: "feed.evolves p ?e"
    by (rule emit_evolves1) (auto simp: js_lookup fun_eq_iff split: option.splits)
  have "feed.evolves p (case asset of None \<Rightarrow> ?e | Some i \<Rightarrow> markSourceConnectivity env (asset_node i) True ?e)"
    using e feed.feed_order.trans[OF e mark_evolves] by (auto split: option.splits)
  then show ?thesis
    unfolding apply_upsert_def Let_def r_def[symmetric]
    by (auto simp: rejectCapacity_def intro: feed.feed_order.refl positions_evolve)
qed

lemma apply_accepted_evolves:
  assumes "current = None \<longleftrightarrow> map_of (records p) key = None"
  shows "feed.evolves p (snd (apply_accepted env publication context asset key current p))"
proof -
  let ?p = "pruneRecordSourceSequences (cx_received_at context) p"
  let ?rsk = "key @ [0] @ node_key (cx_source context)"
  let ?q = "?p\<lparr>recordSourceSequences := js_set ?rsk (source_position_of context) (recordSourceSequences ?p)\<rparr>"
  have q: "feed.evolves p ?q" by (rule feed.feed_order.trans[OF prune_evolves positions_evolve])
  have rec: "current = None \<longleftrightarrow> map_of (records ?q) key = None" using assms by (simp add: pruneRecordSourceSequences_def)
  have "feed.evolves p (snd (apply_delete env publication context asset key ?rsk seq current ?q))"
    "feed.evolves p (snd (apply_upsert env publication context asset key ?rsk seq current ?q))" for seq
    using feed.feed_order.trans[OF q] apply_delete_evolves[OF rec] apply_upsert_evolves by blast+
  then show ?thesis
    unfolding apply_accepted_def Let_def using q prune_evolves by auto
qed

text \<open>The records keep their keys when a source is accepted.\<close>

lemma mark_keys: "map_of (records (markSourceConnectivity env source c p)) k = None \<longleftrightarrow> map_of (records p) k = None"
proof (cases "node_role source = AssetRole")
  case True
  have "map_of (records (for_records (mark_record env (node_id source) c) q)) k = None \<longleftrightarrow> map_of (records q) k = None" for q
    by (rule for_records_inv) (auto simp: mark_record_def Let_def js_lookup)
  then show ?thesis using True by (auto simp: markSourceConnectivity_def split: option.splits)
qed (simp add: markSourceConnectivity_def)

lemma activate_keys: "map_of (records (snd (activate_source env source g s p))) k = None \<longleftrightarrow> map_of (records p) k = None"
  unfolding activate_source_def Let_def by (auto simp: mark_keys)

lemma accept_keys: "map_of (records (snd (acceptSource env context p))) k = None \<longleftrightarrow> map_of (records p) k = None"
proof -
  obtain b q where a: "activate_source env (cx_source context) (cx_source_generation context) (cx_service_session context) p = (b, q)"
    by (cases "activate_source env (cx_source context) (cx_source_generation context) (cx_service_session context) p")
  show ?thesis
    using activate_keys[of env "cx_source context" "cx_source_generation context" "cx_service_session context" p k]
    by (simp add: acceptSource_def activateSource_def a)
qed

lemma apply_evolves: "feed.evolves p (snd (apply_publication env publication context p))"
proof -
  let ?key = "record_key (publication_type (JObject publication)) (the_string (resourceID publication))"
  let ?current = "map_of (records p) ?key"
  have "feed.evolves p (snd (then_do (acceptSource env context p) (\<lambda>rejection p.
       case rejection of Some r \<Rightarrow> (Inr (Some r), p)
       | None \<Rightarrow> apply_accepted env publication context asset ?key ?current p)))" for asset
  proof (rule feed.feed_order.then_step[OF source_evolves(2)])
    fix x q
    assume q: "acceptSource env context p = (Inr x, q)"
    have "?current = None \<longleftrightarrow> map_of (records q) ?key = None" using accept_keys[of env "context" p ?key] q by simp
    from apply_accepted_evolves[OF this] show "feed.evolves q (snd (case x of Some r \<Rightarrow> (Inr (Some r), q)
       | None \<Rightarrow> apply_accepted env publication context asset ?key ?current q))"
      by (auto intro: feed.feed_order.refl split: option.splits)
  qed
  then show ?thesis unfolding apply_publication_def Let_def by (auto intro: feed.feed_order.refl)
qed

subsection \<open>The machine\<close>

datatype picture_call = ApplyCall fields apply_context | MarkCall link_node bool | RefreshCall int |
  ActivateCall link_node int jstring | SubscribeCall nat | SubscribeAfterCall jstring int nat | UnsubscribeCall nat

fun picture_step :: "picture_env \<Rightarrow> picture \<Rightarrow> picture_call \<Rightarrow> picture" where
  "picture_step env p (ApplyCall publication context) = snd (apply_publication env publication context p)"
| "picture_step env p (MarkCall source c) = markSourceConnectivity env source c p"
| "picture_step env p (RefreshCall t) = refresh env t p"
| "picture_step env p (ActivateCall source g s) = snd (activateSource env source g s p)"
| "picture_step env p (SubscribeCall l) = snd (addListener l p)"
| "picture_step env p (SubscribeAfterCall s r l) = snd (subscribeAfter s r l p)"
| "picture_step env p (UnsubscribeCall l) = unsubscribe l p"

lemma listeners_evolve:
  "feed.evolves p (snd (addListener l p))" "feed.evolves p (unsubscribe l p)" "feed.evolves p (snd (subscribeAfter s r l p))"
  by (rule evolves_still; simp add: addListener_def unsubscribe_def subscribeAfter_def picture_view_def split: sum.splits)+

interpretation picture_machine: event_machine picture_view pic_revision pic_events ev_revision redo_event "picture_step env" for env
proof
  fix s c
  show "feed.evolves s (picture_step env s c)"
    by (cases c) (simp_all add: apply_evolves mark_evolves refresh_evolves source_evolves listeners_evolve)
qed

subsection \<open>The retained entries\<close>

definition entries_ok :: "picture_env \<Rightarrow> picture \<Rightarrow> bool" where
  "entries_ok env p \<longleftrightarrow>
     js_map_ok (records p) \<and> js_map_ok (tombstones p) \<and> js_map_ok (entryBytes p) \<and>
     (\<forall>k r. map_of (records p) k = Some r \<longrightarrow> k = record_key (pr_resource_type r) (pr_id r) \<and> map_of (tombstones p) k = None) \<and>
     (\<forall>k. map_of (entryBytes p) k =
        (case map_of (records p) k of Some r \<Rightarrow> Some (record_bytes env r) | None \<Rightarrow> map_option (tombstone_bytes env) (map_of (tombstones p) k))) \<and>
     retainedEntryTotal p = int (sum_list (map snd (entryBytes p))) \<and> retainedEntryTotal p \<le> PICTURE_RETAINED_BYTES_LIMIT \<and>
     length (entryBytes p) \<le> PICTURE_ENTRY_LIMIT"

lemma sum_js_set:
  "js_map_ok m \<Longrightarrow> sum_list (map snd (js_set k v m)) + (case map_of m k of None \<Rightarrow> 0 | Some x \<Rightarrow> x) = sum_list (map snd m) + (v::nat)"
  by (induction m) (auto simp: map_of_eq_None_iff split: option.splits)

lemma sum_js_delete:
  "js_map_ok m \<Longrightarrow> sum_list (map snd (js_delete k m)) + (case map_of m k of None \<Rightarrow> 0 | Some x \<Rightarrow> x) = sum_list (map snd (m :: ('a, nat) js_map))"
proof (induction m)
  case (Cons x m)
  show ?case
  proof (cases "fst x = k")
    case True
    then have "k \<notin> fst ` set m" using Cons.prems by auto
    then have "js_delete k m = m" unfolding js_delete_filter by (intro filter_True) (auto intro: rev_image_eqI)
    then show ?thesis using True by (cases x) simp
  next
    case False
    then show ?thesis using Cons by (cases x) (auto split: option.splits)
  qed
qed simp

lemma textEncode_pos: "s \<noteq> [] \<Longrightarrow> textEncode s \<noteq> []"
proof -
  have w: "toWellFormed s \<noteq> []" if "s \<noteq> []" using that by (cases s rule: toWellFormed.cases) auto
  have b: "code_point_bytes n \<noteq> []" for n by (simp add: code_point_bytes_def)
  have "encodeBinaryUtf8 t \<noteq> []" if "t \<noteq> []" for t using that b by (cases t rule: encodeBinaryUtf8.cases) auto
  then show "s \<noteq> [] \<Longrightarrow> textEncode s \<noteq> []" using w by (simp add: textEncode_def)
qed

lemma object_bytes_pos: "0 < retainedBytes env (JObject kvs)"
  using textEncode_pos by (simp add: retainedBytes_def json_bytes_def)

lemma bytes_pos: "0 < record_bytes env r" "0 < tombstone_bytes env t"
  by (simp_all only: record_bytes_def tombstone_bytes_def record_json_def tombstone_json_def object_bytes_pos)

lemma entry_sizes:
  assumes "entries_ok env p"
  shows "entry_size p key = 0 \<longleftrightarrow> map_of (entryBytes p) key = None"
    and "int (sum_list (map snd (js_set key n (entryBytes p)))) = retainedEntryTotal p - int (entry_size p key) + int n"
    and "int (sum_list (map snd (js_delete key (entryBytes p)))) = retainedEntryTotal p - int (entry_size p key)"
proof -
  have m: "js_map_ok (entryBytes p)" and t: "retainedEntryTotal p = int (sum_list (map snd (entryBytes p)))"
    using assms by (simp_all add: entries_ok_def)
  show "entry_size p key = 0 \<longleftrightarrow> map_of (entryBytes p) key = None"
  proof -
    have "map_of (entryBytes p) key =
        (case map_of (records p) key of Some r \<Rightarrow> Some (record_bytes env r) | None \<Rightarrow> map_option (tombstone_bytes env) (map_of (tombstones p) key))"
      using assms unfolding entries_ok_def by blast
    then show ?thesis
      by (cases "map_of (records p) key"; cases "map_of (tombstones p) key") (simp_all add: entry_size_def bytes_pos[THEN less_imp_neq, symmetric])
  qed
  show "int (sum_list (map snd (js_set key n (entryBytes p)))) = retainedEntryTotal p - int (entry_size p key) + int n"
    using sum_js_set[OF m, of key n] t by (auto simp: entry_size_def split: option.splits)
  show "int (sum_list (map snd (js_delete key (entryBytes p)))) = retainedEntryTotal p - int (entry_size p key)"
    using sum_js_delete[OF m, of key] t by (auto simp: entry_size_def split: option.splits)
qed

lemma retain_length:
  assumes "entries_ok env p" "canRetain p key n"
  shows "length (js_set key v (entryBytes p)) \<le> PICTURE_ENTRY_LIMIT"
proof (cases "map_of (entryBytes p) key = None")
  case True
  then have "length (entryBytes p) < PICTURE_ENTRY_LIMIT"
    using assms(2) entry_sizes(1)[OF assms(1)] by (auto simp: canRetain_def Let_def split: if_splits)
  then show ?thesis using length_js_set_le[of key v "entryBytes p"] by simp
next
  case False
  then show ?thesis using assms(1) by (simp add: length_js_set_present entries_ok_def)
qed

lemma retain_total: "canRetain p key n \<Longrightarrow> retainedEntryTotal p - int (entry_size p key) + int n \<le> PICTURE_RETAINED_BYTES_LIMIT"
  by (auto simp: canRetain_def Let_def split: if_splits)

lemma retainRecord_ok:
  assumes "entries_ok env p" "canRetain p key (record_bytes env r)" "key = record_key (pr_resource_type r) (pr_id r)"
  shows "entries_ok env (retainRecord env key r p)"
  unfolding entries_ok_def
proof (intro conjI)
  note e = assms(1)[unfolded entries_ok_def]
  show "retainedEntryTotal (retainRecord env key r p) = int (sum_list (map snd (entryBytes (retainRecord env key r p))))"
    using entry_sizes(2)[OF assms(1)] by simp
  show "length (entryBytes (retainRecord env key r p)) \<le> PICTURE_ENTRY_LIMIT" using retain_length[OF assms(1,2)] by simp
  show "retainedEntryTotal (retainRecord env key r p) \<le> PICTURE_RETAINED_BYTES_LIMIT" using retain_total[OF assms(2)] by simp
qed (use assms in \<open>auto simp: entries_ok_def js_lookup split: option.splits\<close>)

lemma retainTombstone_ok:
  assumes "entries_ok env p" "canRetain p key (tombstone_bytes env t)"
  shows "entries_ok env (retainTombstone env key t p)"
  unfolding entries_ok_def
proof (intro conjI)
  show "retainedEntryTotal (retainTombstone env key t p) = int (sum_list (map snd (entryBytes (retainTombstone env key t p))))"
    using entry_sizes(2)[OF assms(1)] by simp
  show "length (entryBytes (retainTombstone env key t p)) \<le> PICTURE_ENTRY_LIMIT" using retain_length[OF assms(1,2)] by simp
  show "retainedEntryTotal (retainTombstone env key t p) \<le> PICTURE_RETAINED_BYTES_LIMIT" using retain_total[OF assms(2)] by simp
qed (use assms in \<open>auto simp: entries_ok_def js_lookup split: option.splits\<close>)

lemma removeRecord_ok:
  assumes "entries_ok env p" "map_of (records p) key \<noteq> None"
  shows "entries_ok env (removeRecord key p)"
  unfolding entries_ok_def
proof (intro conjI)
  show "retainedEntryTotal (removeRecord key p) = int (sum_list (map snd (entryBytes (removeRecord key p))))"
    using entry_sizes(3)[OF assms(1)] by simp
  show "retainedEntryTotal (removeRecord key p) \<le> PICTURE_RETAINED_BYTES_LIMIT"
    using assms(1) by (simp add: entries_ok_def)
  show "length (entryBytes (removeRecord key p)) \<le> PICTURE_ENTRY_LIMIT"
    using assms(1) length_filter_le[of "\<lambda>kv. fst kv \<noteq> key" "entryBytes p"]
    by (simp add: entries_ok_def js_delete_filter del: length_filter_le)
  show "\<forall>k. map_of (entryBytes (removeRecord key p)) k = (case map_of (records (removeRecord key p)) k of
      Some r \<Rightarrow> Some (record_bytes env r) | None \<Rightarrow> map_option (tombstone_bytes env) (map_of (tombstones (removeRecord key p)) k))"
    using assms by (auto simp: entries_ok_def js_lookup split: option.splits)
qed (use assms in \<open>auto simp: entries_ok_def js_lookup split: option.splits\<close>)

text \<open>Only the freshness of a record changes: its charge and the total stay.\<close>

lemma freshness_ok:
  assumes "entries_ok env p" "map_of (records p) key = Some r"
  shows "entries_ok env (retainRecord env key (r\<lparr>pr_freshness := f\<rparr>) p)"
    and "entry_size (retainRecord env key (r\<lparr>pr_freshness := f\<rparr>) p) k = entry_size p k"
    and "retainedEntryTotal (retainRecord env key (r\<lparr>pr_freshness := f\<rparr>) p) = retainedEntryTotal p"
    and "length (entryBytes (retainRecord env key (r\<lparr>pr_freshness := f\<rparr>) p)) = length (entryBytes p)"
proof -
  have b: "record_bytes env (r\<lparr>pr_freshness := f\<rparr>) = record_bytes env r" by (simp add: record_bytes_def)
  have s: "map_of (entryBytes p) key = Some (record_bytes env r)" using assms by (simp add: entries_ok_def)
  have "canRetain p key (record_bytes env r)"
    using s bytes_pos(1)[of env r] assms(1) by (simp add: canRetain_def entry_size_def entries_ok_def)
  then show "entries_ok env (retainRecord env key (r\<lparr>pr_freshness := f\<rparr>) p)"
    using assms b by (intro retainRecord_ok) (auto simp: entries_ok_def)
  show "entry_size (retainRecord env key (r\<lparr>pr_freshness := f\<rparr>) p) k = entry_size p k"
    using s b by (simp add: entry_size_def js_lookup)
  show "retainedEntryTotal (retainRecord env key (r\<lparr>pr_freshness := f\<rparr>) p) = retainedEntryTotal p"
    using s b by (simp add: entry_size_def)
  show "length (entryBytes (retainRecord env key (r\<lparr>pr_freshness := f\<rparr>) p)) = length (entryBytes p)"
    using s by (simp add: length_js_set_present)
qed

subsection \<open>Primitive steps\<close>

text \<open>The steps that a change of connectivity makes, and all steps of the picture, with the conditions under which the code makes them.\<close>

inductive mark_step :: "picture_env \<Rightarrow> picture \<Rightarrow> picture \<Rightarrow> bool" for env where
  mark_emit: "mark_step env p (emit env kind key r p)"
| mark_fresh: "map_of (records p) key = Some r \<Longrightarrow> mark_step env p (retainRecord env key (r\<lparr>pr_freshness := f\<rparr>) p)"
| mark_connected: "map_of (assetConnectivity p) i \<noteq> None \<Longrightarrow> mark_step env p (p\<lparr>assetConnectivity := js_set i c (assetConnectivity p)\<rparr>)"

inductive picture_prim :: "picture_env \<Rightarrow> picture \<Rightarrow> picture \<Rightarrow> bool" for env where
  prim_mark: "mark_step env p q \<Longrightarrow> picture_prim env p q"
| prim_record: "canRetain p (record_key (pr_resource_type r) (pr_id r)) (record_bytes env r) \<Longrightarrow>
    picture_prim env p (retainRecord env (record_key (pr_resource_type r) (pr_id r)) r p)"
| prim_tombstone: "canRetain p key (tombstone_bytes env t) \<Longrightarrow> picture_prim env p (retainTombstone env key t p)"
| prim_remove: "map_of (records p) key \<noteq> None \<Longrightarrow> picture_prim env p (removeRecord key p)"
| prim_asset: "length (assetConnectivity p) < LINK_SOURCE_IDENTITY_LIMIT \<Longrightarrow>
    picture_prim env p (p\<lparr>assetConnectivity := js_set i c (assetConnectivity p)\<rparr>)"
| prim_source: "map_of (sources p) key \<noteq> None \<or> length (sources p) < LINK_SOURCE_IDENTITY_LIMIT \<Longrightarrow>
    (\<forall>s. map_of (sources p) key = Some s \<longrightarrow> sp_generation s \<le> sp_generation s') \<Longrightarrow>
    picture_prim env p (p\<lparr>sources := js_set key s' (sources p)\<rparr>)"
| prim_forget: "picture_prim env p (p\<lparr>recordSourceSequences := filter P (recordSourceSequences p)\<rparr>)"
| prim_position: "map_of (recordSourceSequences p) key \<noteq> None \<or> length (recordSourceSequences p) < RECORD_SOURCE_SEQUENCE_LIMIT \<Longrightarrow>
    picture_prim env p (p\<lparr>recordSourceSequences := js_set key position (recordSourceSequences p)\<rparr>)"
| prim_listen: "l \<in> set (pic_listeners p) \<or> length (pic_listeners p) < PICTURE_LISTENER_LIMIT \<Longrightarrow>
    picture_prim env p (p\<lparr>pic_listeners := set_add l (pic_listeners p)\<rparr>)"
| prim_leave: "picture_prim env p (p\<lparr>pic_listeners := filter P (pic_listeners p)\<rparr>)"

lemmas picture_prim_intros = picture_prim.intros r_into_rtranclp

lemma mark_prims: "(mark_step env)\<^sup>*\<^sup>* p q \<Longrightarrow> (picture_prim env)\<^sup>*\<^sup>* p q"
  by (induction rule: rtranclp_induct) (auto intro: rtranclp.rtrancl_into_rtrancl prim_mark)

lemma mark_record_steps: "map_of (records p) key = Some r \<Longrightarrow> (mark_step env)\<^sup>*\<^sup>* p (mark_record env a c key r p)"
proof -
  have "(mark_step env)\<^sup>*\<^sup>* p (emit env kind key u q)" if "mark_step env p q" for kind u q
    using that mark_emit[of env q kind key u] by (meson r_into_rtranclp rtranclp.rtrancl_into_rtrancl)
  then show "map_of (records p) key = Some r \<Longrightarrow> ?thesis"
    unfolding mark_record_def Let_def by (auto intro: mark_fresh)
qed

lemma mark_steps: "(mark_step env)\<^sup>*\<^sup>* p (markSourceConnectivity env source c p)"
proof (cases "node_role source = AssetRole")
  case True
  let ?p = "case js_get (assetConnectivity p) (node_id source) of None \<Rightarrow> p
    | Some d \<Rightarrow> p\<lparr>assetConnectivity := js_set (node_id source) (d\<lparr>connected := c\<rparr>) (assetConnectivity p)\<rparr>"
  have "(mark_step env)\<^sup>*\<^sup>* p (for_records (mark_record env (node_id source) c) ?p)"
  proof (rule for_records_inv)
    show "(mark_step env)\<^sup>*\<^sup>* p ?p" by (auto split: option.splits intro: mark_connected)
    show "(mark_step env)\<^sup>*\<^sup>* p (mark_record env (node_id source) c key r q)"
      if "(mark_step env)\<^sup>*\<^sup>* p q" "map_of (records q) key = Some r" for key r q
      using that mark_record_steps rtranclp_trans by metis
  qed
  then show ?thesis using True by (simp add: markSourceConnectivity_def)
qed (simp add: markSourceConnectivity_def)

lemma degrade_steps: "(mark_step env)\<^sup>*\<^sup>* p (degradeTasksForExpiredAsset env r p)"
  by (simp add: degradeTasksForExpiredAsset_def mark_steps)

text \<open>What such steps leave alone.\<close>

definition same_charges :: "picture_env \<Rightarrow> picture \<Rightarrow> picture \<Rightarrow> bool" where
  "same_charges env p q \<longleftrightarrow>
     entries_ok env q \<and> (\<forall>k. entry_size q k = entry_size p k) \<and> retainedEntryTotal q = retainedEntryTotal p \<and>
     length (entryBytes q) = length (entryBytes p) \<and> (\<forall>k. map_of (records q) k = None \<longleftrightarrow> map_of (records p) k = None) \<and>
     map_of (tombstones q) = map_of (tombstones p) \<and> js_keys (assetConnectivity q) = js_keys (assetConnectivity p) \<and>
     sources q = sources p \<and> recordSourceSequences q = recordSourceSequences p"

lemma entries_ok_cong:
  assumes "records q = records p" "tombstones q = tombstones p" "entryBytes q = entryBytes p" "retainedEntryTotal q = retainedEntryTotal p"
  shows "entries_ok env q = entries_ok env p"
  unfolding entries_ok_def assms ..

lemma entries_ok_emit [simp]: "entries_ok env (emit env kind key r p) = entries_ok env p"
  by (rule entries_ok_cong) simp_all

lemma entries_ok_fields [simp]:
  "entries_ok env (p\<lparr>assetConnectivity := a\<rparr>) = entries_ok env p" "entries_ok env (p\<lparr>sources := b\<rparr>) = entries_ok env p"
  "entries_ok env (p\<lparr>recordSourceSequences := c\<rparr>) = entries_ok env p" "entries_ok env (p\<lparr>pic_listeners := d\<rparr>) = entries_ok env p"
  by (rule entries_ok_cong; simp)+

lemma entry_size_emit [simp]: "entry_size (emit env kind key r p) k = entry_size p k"
  by (simp add: entry_size_def)

lemma js_keys_set_present: "map_of m k \<noteq> None \<Longrightarrow> js_keys (js_set k v m) = js_keys m"
  by (induction m) (auto split: if_splits)

lemma mark_step_charges:
  assumes "mark_step env p q" "entries_ok env p"
  shows "same_charges env p q"
  using assms
proof cases
  case (mark_fresh key r f)
  have "map_of (tombstones p) key = None" using mark_fresh(2) assms(2) by (auto simp: entries_ok_def)
  then have "map_of (js_delete key (tombstones p)) = map_of (tombstones p)" by (simp add: js_lookup fun_upd_idem)
  then show ?thesis
    using freshness_ok[OF assms(2) mark_fresh(2), of f] mark_fresh by (simp add: same_charges_def js_lookup)
next
  case (mark_connected i c)
  then show ?thesis using assms(2) js_keys_set_present[of "assetConnectivity p" i c]
    by (simp add: same_charges_def entry_size_def)
qed (simp_all add: same_charges_def)

lemma mark_steps_charges:
  assumes "(mark_step env)\<^sup>*\<^sup>* p q" "entries_ok env p"
  shows "same_charges env p q"
  using assms(1)
proof (induction rule: rtranclp_induct)
  case base
  then show ?case using assms(2) by (simp add: same_charges_def)
next
  case (step q r)
  then have "entries_ok env q" by (simp add: same_charges_def)
  from mark_step_charges[OF step(2) this] step(3) show ?case by (simp add: same_charges_def)
qed

lemma canRetain_charges: "same_charges env p q \<Longrightarrow> canRetain q key n = canRetain p key n"
  by (simp add: canRetain_def same_charges_def)

lemma prim_step_ok: "picture_prim env p q \<Longrightarrow> entries_ok env p \<Longrightarrow> entries_ok env q"
proof (induction rule: picture_prim.induct)
  case (prim_mark p q)
  then show ?case using mark_step_charges by (auto simp: same_charges_def)
qed (auto intro: retainRecord_ok retainTombstone_ok removeRecord_ok)

lemma prims_ok: "(picture_prim env)\<^sup>*\<^sup>* p q \<Longrightarrow> entries_ok env p \<Longrightarrow> entries_ok env q"
  by (induction rule: rtranclp_induct) (auto intro: prim_step_ok)

lemma prims_trans: "(picture_prim env)\<^sup>*\<^sup>* p q \<Longrightarrow> picture_prim env q r \<Longrightarrow> (picture_prim env)\<^sup>*\<^sup>* p r"
  by (rule rtranclp.rtrancl_into_rtrancl)

lemma prims_emit: "(picture_prim env)\<^sup>*\<^sup>* p q \<Longrightarrow> (picture_prim env)\<^sup>*\<^sup>* p (emit env kind key r q)"
  by (erule prims_trans) (rule prim_mark[OF mark_emit])

lemma prims_mark: "(picture_prim env)\<^sup>*\<^sup>* p q \<Longrightarrow> (picture_prim env)\<^sup>*\<^sup>* p (markSourceConnectivity env source c q)"
  using mark_prims[OF mark_steps] by (rule rtranclp_trans[rotated])

lemma mark_other_types:
  assumes "map_of (records p) key = Some r" "pr_resource_type r \<noteq> TaskType"
  shows "map_of (records (markSourceConnectivity env source c p)) key = Some r"
proof (cases "node_role source = AssetRole")
  case True
  have "map_of (records (for_records (mark_record env (node_id source) c) q)) key = Some r" if "map_of (records q) key = Some r" for q
    using that by (rule for_records_inv) (use assms(2) in \<open>auto simp: mark_record_def Let_def js_lookup\<close>)
  then show ?thesis using True assms(1) by (auto simp: markSourceConnectivity_def split: option.splits)
qed (use assms in \<open>simp add: markSourceConnectivity_def\<close>)

lemma degrade_keeps: "map_of (records p) key = Some r \<Longrightarrow> map_of (records (degradeTasksForExpiredAsset env r p)) key = Some r"
  by (simp add: degradeTasksForExpiredAsset_def mark_other_types)

lemma refresh_record_prims:
  assumes "map_of (records p) key = Some r"
  shows "(picture_prim env)\<^sup>*\<^sup>* p (refresh_record env t key r p)"
proof -
  let ?d = "degradeTasksForExpiredAsset env r p"
  have d: "(picture_prim env)\<^sup>*\<^sup>* p ?d" by (rule mark_prims[OF degrade_steps])
  have r: "map_of (records ?d) key = Some r" by (rule degrade_keeps[OF assms])
  have "(picture_prim env)\<^sup>*\<^sup>* p (removeRecord key ?d)"
    using prims_trans[OF d prim_remove] r by simp
  moreover have "(picture_prim env)\<^sup>*\<^sup>* p (retainRecord env key (r\<lparr>pr_freshness := Stale\<rparr>) ?d)"
    by (rule prims_trans[OF d prim_mark[OF mark_fresh[OF r]]])
  ultimately show ?thesis
    unfolding refresh_record_def Let_def by (auto intro: prims_emit split: prod.splits)
qed

lemma refresh_prims: "(picture_prim env)\<^sup>*\<^sup>* p (refresh env t p)"
proof -
  let ?p = "pruneRecordSourceSequences t p"
  have "(picture_prim env)\<^sup>*\<^sup>* p ?p"
    unfolding pruneRecordSourceSequences_def by (rule r_into_rtranclp) (rule prim_forget)
  moreover have "(picture_prim env)\<^sup>*\<^sup>* q (fold (refresh_asset env t) ks q)" for ks q
  proof (induction ks arbitrary: q)
    case (Cons k ks)
    have "(picture_prim env)\<^sup>*\<^sup>* q (refresh_asset env t k q)"
      by (auto simp: refresh_asset_def intro: prims_mark split: option.splits)
    then show ?case using Cons rtranclp_trans by fastforce
  qed simp
  moreover have "(picture_prim env)\<^sup>*\<^sup>* q (for_records (refresh_record env t) q)" for q
    by (rule for_records_inv) (auto intro: rtranclp_trans refresh_record_prims)
  ultimately show ?thesis unfolding refresh_def Let_def by (meson rtranclp_trans)
qed

lemma activate_prims: "(picture_prim env)\<^sup>*\<^sup>* p (snd (activate_source env source g s p))"
proof -
  let ?key = "node_key source"
  let ?current = "map_of (sources p) ?key"
  let ?unknown = "node_role source = AssetRole \<and> \<not> js_has (assetConnectivity p) (node_id source)"
  define p1 where "p1 = (if ?unknown then p\<lparr>assetConnectivity :=
     js_set (node_id source) \<lparr>connected = False, receivedAt = None\<rparr> (assetConnectivity p)\<rparr> else p)"
  define p2 where "p2 = (if ?current \<noteq> None \<and> sp_generation (the ?current) < g
     then let q = markSourceConnectivity env source False p1 in
       q\<lparr>recordSourceSequences := filter (\<lambda>(_, position). rs_sourceKey position \<noteq> ?key) (recordSourceSequences q)\<rparr>
     else p1)"
  show ?thesis
  proof (cases "?current = None \<and> LINK_SOURCE_IDENTITY_LIMIT \<le> length (sources p) \<or> ?current \<noteq> None \<and> stale_position g s (the ?current) \<or>
      ?unknown \<and> LINK_SOURCE_IDENTITY_LIMIT \<le> length (assetConnectivity p)")
    case True
    then show ?thesis unfolding activate_source_def Let_def by auto
  next
    case False
    have one: "(picture_prim env)\<^sup>*\<^sup>* p p1" using False by (auto simp: p1_def intro!: r_into_rtranclp prim_asset)
    have two: "(picture_prim env)\<^sup>*\<^sup>* p p2"
      using one prims_trans[OF prims_mark[OF one] prim_forget] by (auto simp: p2_def Let_def)
    have src: "sources p2 = sources p"
    proof -
      have "sources (markSourceConnectivity env source c q) = sources q" for c q
        using mark_steps[of env q source c] by (induction rule: rtranclp_induct) (auto elim: mark_step.cases)
      then show ?thesis by (simp add: p2_def p1_def Let_def)
    qed
    have "picture_prim env p2 (p2\<lparr>sources := js_set ?key \<lparr>sp_generation = g, sp_session = s\<rparr> (sources p2)\<rparr>)"
      using False by (intro prim_source) (auto simp: src stale_position_def)
    with two have three: "(picture_prim env)\<^sup>*\<^sup>* p (p2\<lparr>sources := js_set ?key \<lparr>sp_generation = g, sp_session = s\<rparr> (sources p2)\<rparr>)"
      by (rule prims_trans)
    have "activate_source env source g s p = (if ?current = Some \<lparr>sp_generation = g, sp_session = s\<rparr> then (True, p1)
        else (True, p2\<lparr>sources := js_set ?key \<lparr>sp_generation = g, sp_session = s\<rparr> (sources p2)\<rparr>))"
      using False unfolding activate_source_def Let_def p1_def p2_def by auto
    then show ?thesis using one three by simp
  qed
qed

interpretation prim_order: effect_preorder "(picture_prim env)\<^sup>*\<^sup>*" for env
  by unfold_locales (auto intro: rtranclp_trans)

lemma source_prims:
  "(picture_prim env)\<^sup>*\<^sup>* p (snd (activateSource env source g s p))"
  "(picture_prim env)\<^sup>*\<^sup>* p (snd (acceptSource env context p))"
proof -
  show *: "(picture_prim env)\<^sup>*\<^sup>* p (snd (activateSource env source g s p))" for source g s
    using activate_prims[of env p source g s] by (auto simp: activateSource_def split: prod.splits)
  show "(picture_prim env)\<^sup>*\<^sup>* p (snd (acceptSource env context p))"
    by (auto simp: acceptSource_def intro!: prim_order.then_step *)
qed

lemma rejectCapacity_prims:
  assumes "(picture_prim env)\<^sup>*\<^sup>* p q" "seq \<noteq> None \<Longrightarrow> map_of (recordSourceSequences q) rsk \<noteq> None"
  shows "(picture_prim env)\<^sup>*\<^sup>* p (snd (rejectCapacity rsk seq q))"
proof (cases seq)
  case None
  then show ?thesis using prims_trans[OF assms(1) prim_forget] by (simp add: rejectCapacity_def js_delete_filter)
next
  case (Some position)
  then show ?thesis using prims_trans[OF assms(1) prim_position] assms(2) by (simp add: rejectCapacity_def)
qed

lemma apply_delete_prims:
  assumes "entries_ok env p" "seq \<noteq> None \<Longrightarrow> map_of (recordSourceSequences p) rsk \<noteq> None"
  shows "(picture_prim env)\<^sup>*\<^sup>* p (snd (apply_delete env publication context asset key rsk seq current p))"
proof -
  let ?t = "tombstone_of publication context"
  let ?d = "case current of None \<Rightarrow> p | Some r \<Rightarrow> degradeTasksForExpiredAsset env r p"
  have m: "(mark_step env)\<^sup>*\<^sup>* p ?d" by (auto simp: degrade_steps split: option.splits)
  have "(picture_prim env)\<^sup>*\<^sup>* p (retainTombstone env key ?t ?d)" if "canRetain p key (tombstone_bytes env ?t)"
    using that canRetain_charges[OF mark_steps_charges[OF m assms(1)]] prims_trans[OF mark_prims[OF m] prim_tombstone] by simp
  moreover have "(picture_prim env)\<^sup>*\<^sup>* p (snd (rejectCapacity rsk seq p))" by (rule rejectCapacity_prims) (auto simp: assms(2))
  ultimately show ?thesis
    unfolding apply_delete_def Let_def by (cases current; cases asset) (auto intro!: prims_emit prims_mark)
qed

lemma apply_upsert_prims:
  assumes "seq \<noteq> None \<Longrightarrow> map_of (recordSourceSequences p) rsk \<noteq> None" "asset \<noteq> None \<Longrightarrow> canAdmitAsset p (the asset)"
    and "key = record_key (publication_type (JObject publication)) (the_string (resourceID publication))"
  shows "(picture_prim env)\<^sup>*\<^sup>* p (snd (apply_upsert env publication context asset key rsk seq current p))"
proof -
  define r where "r = record_of publication context
    (if field_is publication ''resource_type'' ''task'' then taskFreshness p (the (field_of publication ''resource'')) current else Fresh)"
  have key: "key = record_key (pr_resource_type r) (pr_id r)" using assms(3) by (simp add: r_def record_of_def)
  let ?q = "retainRecord env key r p"
  let ?c = "case asset of None \<Rightarrow> ?q | Some i \<Rightarrow> ?q\<lparr>assetConnectivity :=
     js_set i \<lparr>connected = True, receivedAt = Some (cx_received_at context)\<rparr> (assetConnectivity ?q)\<rparr>"
  have "(picture_prim env)\<^sup>*\<^sup>* p ?c" if "canRetain p key (record_bytes env r)"
  proof (cases asset)
    case None
    then show ?thesis using that key by (auto intro: prim_record)
  next
    case (Some i)
    have q: "(picture_prim env)\<^sup>*\<^sup>* p ?q" using that key by (auto intro: prim_record)
    have "map_of (assetConnectivity ?q) i \<noteq> None \<or> length (assetConnectivity ?q) < LINK_SOURCE_IDENTITY_LIMIT"
      using assms(2) Some by (simp add: canAdmitAsset_def js_has_def)
    then show ?thesis
      using prims_trans[OF q prim_mark[OF mark_connected]] prims_trans[OF q prim_asset] Some by fastforce
  qed
  moreover have "(picture_prim env)\<^sup>*\<^sup>* p (snd (rejectCapacity rsk seq p))" by (rule rejectCapacity_prims) (auto simp: assms(1))
  ultimately show ?thesis
    unfolding apply_upsert_def Let_def r_def[symmetric] by (cases asset) (auto intro!: prims_emit prims_mark)
qed

text \<open>Accepting the source keeps room for the asset of the publication.\<close>

lemma accept_admits:
  assumes "acceptSource env context p = (Inr None, q)" "canAdmitAsset p i"
    and "node_role (cx_source context) = AssetRole \<Longrightarrow> i = node_id (cx_source context) \<or> js_has (assetConnectivity p) i"
  shows "canAdmitAsset q i"
proof -
  have keys: "js_keys (assetConnectivity (markSourceConnectivity env source c r)) = js_keys (assetConnectivity r)" for source c r
    using mark_steps[of env r source c]
    by (induction rule: rtranclp_induct) (auto elim!: mark_step.cases simp: js_keys_set_present)
  have len: "length (assetConnectivity (markSourceConnectivity env source c r)) = length (assetConnectivity r)" for source c r
    using arg_cong[OF keys, of length] by simp
  have has: "js_has (assetConnectivity (markSourceConnectivity env source c r)) j = js_has (assetConnectivity r) j" for source c r j
    using arg_cong[OF keys[of source c r], of set] by (simp add: js_has_iff)
  obtain a where a: "activate_source env (cx_source context) (cx_source_generation context) (cx_service_session context) p = (a, q)" "a"
    using assms(1) by (auto simp: acceptSource_def activateSource_def split: if_splits prod.splits)
  have set_same: "js_has (js_set k v m) k" for k v and m :: "(jstring, connectivity) js_map"
    by (simp add: js_has_def js_lookup)
  have set_other: "js_has m j \<Longrightarrow> js_has (js_set k v m) j" for k v j and m :: "(jstring, connectivity) js_map"
    by (auto simp: js_has_def js_lookup)
  show ?thesis
    using a assms(2,3) set_same set_other unfolding activate_source_def Let_def canAdmitAsset_def
    by (fastforce simp: has len split: if_splits)
qed

lemma apply_accepted_prims:
  assumes "entries_ok env p" "asset \<noteq> None \<and> \<not> publication_deleted publication \<Longrightarrow> canAdmitAsset p (the asset)"
    and "key = record_key (publication_type (JObject publication)) (the_string (resourceID publication))"
  shows "(picture_prim env)\<^sup>*\<^sup>* p (snd (apply_accepted env publication context asset key current p))"
proof -
  let ?p = "pruneRecordSourceSequences (cx_received_at context) p"
  let ?rsk = "key @ [0] @ node_key (cx_source context)"
  let ?seq = "map_of (recordSourceSequences ?p) ?rsk"
  let ?q = "?p\<lparr>recordSourceSequences := js_set ?rsk (source_position_of context) (recordSourceSequences ?p)\<rparr>"
  have one: "(picture_prim env)\<^sup>*\<^sup>* p ?p"
    unfolding pruneRecordSourceSequences_def by (rule r_into_rtranclp) (rule prim_forget)
  have two: "(picture_prim env)\<^sup>*\<^sup>* p ?q" if "\<not> (?seq = None \<and> RECORD_SOURCE_SEQUENCE_LIMIT \<le> length (recordSourceSequences ?p))"
    by (rule prims_trans[OF one prim_position]) (use that in auto)
  have ok: "entries_ok env ?q" using assms(1) by (simp add: pruneRecordSourceSequences_def)
  have pos: "map_of (recordSourceSequences ?q) ?rsk \<noteq> None" by (simp add: js_lookup)
  have admit: "canAdmitAsset ?q (the asset)" if "asset \<noteq> None" "\<not> publication_deleted publication"
    using assms(2) that by (simp add: canAdmitAsset_def pruneRecordSourceSequences_def)
  have "(picture_prim env)\<^sup>*\<^sup>* ?q (snd (apply_delete env publication context asset key ?rsk ?seq current ?q))"
    by (rule apply_delete_prims[OF ok]) (rule pos)
  moreover have "(picture_prim env)\<^sup>*\<^sup>* ?q (snd (apply_upsert env publication context asset key ?rsk ?seq current ?q))"
    if "\<not> publication_deleted publication"
    by (rule apply_upsert_prims[OF _ _ assms(3)]) (use pos admit that in auto)
  ultimately show ?thesis
    using one two unfolding apply_accepted_def Let_def by (auto intro: rtranclp_trans)
qed

lemma apply_prims:
  assumes "entries_ok env p"
  shows "(picture_prim env)\<^sup>*\<^sup>* p (snd (apply_publication env publication context p))"
proof -
  let ?key = "record_key (publication_type (JObject publication)) (the_string (resourceID publication))"
  let ?current = "map_of (records p) ?key"
  let ?asset = "connectivityAssetID publication context ?current p"
  have "(picture_prim env)\<^sup>*\<^sup>* p (snd (then_do (acceptSource env context p) (\<lambda>rejection p.
       case rejection of Some r \<Rightarrow> (Inr (Some r), p)
       | None \<Rightarrow> apply_accepted env publication context ?asset ?key ?current p)))"
    if admit: "?asset \<noteq> None \<Longrightarrow> canAdmitAsset p (the ?asset)"
  proof (rule prim_order.then_step[OF source_prims(2)])
    fix x q
    assume q: "acceptSource env context p = (Inr x, q)"
    have ok: "entries_ok env q" using prims_ok[OF source_prims(2) assms, of "context"] q by simp
    have "canAdmitAsset q (the ?asset)" if "x = None" "?asset \<noteq> None \<and> \<not> publication_deleted publication"
      by (rule accept_admits[OF q[unfolded that(1)]]) (use admit that in \<open>auto simp: connectivityAssetID_def\<close>)
    then show "(picture_prim env)\<^sup>*\<^sup>* q (snd (case x of Some r \<Rightarrow> (Inr (Some r), q)
       | None \<Rightarrow> apply_accepted env publication context ?asset ?key ?current q))"
      using apply_accepted_prims[OF ok _ refl, of ?asset publication "context" ?current] by (cases x) auto
  qed
  then show ?thesis unfolding apply_publication_def Let_def by auto
qed

lemma step_prims:
  assumes "entries_ok env p"
  shows "(picture_prim env)\<^sup>*\<^sup>* p (picture_step env p c)"
proof -
  have listen: "(picture_prim env)\<^sup>*\<^sup>* p (snd (addListener l p))" for l
    by (auto simp: addListener_def intro!: r_into_rtranclp prim_listen)
  have "(picture_prim env)\<^sup>*\<^sup>* p (snd (subscribeAfter s r l p))" for s r l
    using listen[of l] by (auto simp: subscribeAfter_def intro: prim_order.then_step split: sum.splits)
  moreover have "(picture_prim env)\<^sup>*\<^sup>* p (unsubscribe l p)" for l
    unfolding unsubscribe_def by (rule r_into_rtranclp) (rule prim_leave)
  ultimately show ?thesis
    by (cases c) (simp_all add: apply_prims[OF assms] mark_prims[OF mark_steps] refresh_prims source_prims listen)
qed

subsection \<open>Every table of the picture is bounded\<close>

definition events_ok :: "picture_env \<Rightarrow> picture \<Rightarrow> bool" where
  "events_ok env p \<longleftrightarrow>
     eventBytes p = map (\<lambda>e. retainedBytes env (event_json e)) (pic_events p) \<and>
     retainedEventTotal p = int (sum_list (eventBytes p)) \<and> retainedEventTotal p \<le> PICTURE_EVENT_BYTES_LIMIT \<and>
     length (pic_events p) \<le> eventBufferLimit p"

definition tables_ok :: "picture \<Rightarrow> bool" where
  "tables_ok p \<longleftrightarrow>
     length (sources p) \<le> LINK_SOURCE_IDENTITY_LIMIT \<and> length (assetConnectivity p) \<le> LINK_SOURCE_IDENTITY_LIMIT \<and>
     length (recordSourceSequences p) \<le> RECORD_SOURCE_SEQUENCE_LIMIT \<and> length (pic_listeners p) \<le> PICTURE_LISTENER_LIMIT"

lemma evict_events_ok:
  assumes "evict_events limit es ns held = (es', ns', held')" "ns = map f es" "held = int (sum_list ns)"
  shows "ns' = map f es' \<and> held' = int (sum_list ns') \<and> held' \<le> PICTURE_EVENT_BYTES_LIMIT \<and> length es' \<le> limit"
  using assms
proof (induction limit es ns held rule: evict_events.induct)
  case (1 limit e es ns held)
  show ?case
  proof (cases "limit < length (e # es) \<or> PICTURE_EVENT_BYTES_LIMIT < held")
    case True
    with 1 show ?thesis by auto
  next
    case False
    with 1(2-) show ?thesis by auto
  qed
qed (simp add: PICTURE_EVENT_BYTES_LIMIT_def)

lemma store_event_ok:
  assumes "events_ok env p"
  shows "events_ok env (store_event env e p)"
proof (cases "PICTURE_EVENT_BYTES_LIMIT < int (retainedBytes env (event_json e))")
  case True
  then show ?thesis by (simp add: store_event_def events_ok_def PICTURE_EVENT_BYTES_LIMIT_def)
next
  case False
  let ?n = "retainedBytes env (event_json e)"
  obtain es ns held where x: "evict_events (eventBufferLimit p) (pic_events p @ [e]) (eventBytes p @ [?n])
    (retainedEventTotal p + int ?n) = (es, ns, held)" by (metis prod_cases3)
  from evict_events_ok[OF x, of "\<lambda>e. retainedBytes env (event_json e)"] assms False x show ?thesis
    by (auto simp: store_event_def events_ok_def)
qed

lemma events_ok_cong:
  assumes "pic_events q = pic_events p" "eventBytes q = eventBytes p" "retainedEventTotal q = retainedEventTotal p" "eventBufferLimit q = eventBufferLimit p"
  shows "events_ok env q = events_ok env p"
  unfolding events_ok_def assms ..

lemma emit_ok:
  assumes "events_ok env p"
  shows "events_ok env (emit env kind key r p)"
proof -
  let ?p = "p\<lparr>pic_revision := pic_revision p + 1\<rparr>"
  have "events_ok env (emit env kind key r p) = events_ok env (store_event env (event_at p kind key r) ?p)"
    by (rule events_ok_cong) (simp_all add: emit_def dispatch_event_def Let_def event_at_def)
  moreover have "events_ok env ?p = events_ok env p" by (rule events_ok_cong) simp_all
  ultimately show ?thesis using store_event_ok assms by blast
qed

lemma emit_listeners: "length (pic_listeners (emit env kind key r p)) \<le> length (pic_listeners p)"
  by (simp add: emit_def dispatch_event_def Let_def)

lemma prim_tables: "picture_prim env p q \<Longrightarrow> tables_ok p \<Longrightarrow> tables_ok q"
proof (induction rule: picture_prim.induct)
  case (prim_mark p q)
  then show ?case
    using emit_listeners[THEN order_trans]
    by (auto elim!: mark_step.cases simp: tables_ok_def length_js_set_present)
next
  case (prim_source p key s')
  then show ?case using length_js_set_le[of key s' "sources p"] by (auto simp: tables_ok_def length_js_set_present)
next
  case (prim_asset p i c)
  then show ?case using length_js_set_le[of i c "assetConnectivity p"] by (simp add: tables_ok_def)
next
  case (prim_position p key position)
  then show ?case using length_js_set_le[of key position "recordSourceSequences p"] by (auto simp: tables_ok_def length_js_set_present)
next
  case (prim_listen l p)
  then show ?case by (auto simp: tables_ok_def set_add_def)
qed (auto simp: tables_ok_def intro: order_trans[OF length_filter_le])

lemma prim_events: "picture_prim env p q \<Longrightarrow> events_ok env p \<Longrightarrow> events_ok env q"
proof (induction rule: picture_prim.induct)
  case (prim_mark p q)
  then show ?case by (auto elim!: mark_step.cases intro: emit_ok events_ok_cong[THEN iffD2])
qed (erule events_ok_cong[THEN iffD2, rotated 4]; simp)+

definition picture_ok :: "picture_env \<Rightarrow> picture \<Rightarrow> bool" where
  "picture_ok env p \<longleftrightarrow> entries_ok env p \<and> events_ok env p \<and> tables_ok p \<and> feed.numbered p"

lemma prims_all:
  assumes "(picture_prim env)\<^sup>*\<^sup>* p q" "entries_ok env p" "events_ok env p" "tables_ok p"
  shows "entries_ok env q \<and> events_ok env q \<and> tables_ok q"
  using assms by (induction rule: rtranclp_induct) (auto intro: prim_step_ok prim_events prim_tables)

lemma new_picture_ok: "new_picture session limit = Inr p \<Longrightarrow> picture_ok env p"
  by (auto simp: new_picture_def picture_ok_def entries_ok_def events_ok_def tables_ok_def feed.numbered_def
      PICTURE_RETAINED_BYTES_LIMIT_def PICTURE_EVENT_BYTES_LIMIT_def split: if_splits)

interpretation picture_safety: guarded_machine p0 "picture_step env" "\<lambda>p. picture_ok env p0 \<longrightarrow> picture_ok env p" for p0 env
proof
  fix s c
  assume s: "picture_ok env p0 \<longrightarrow> picture_ok env s"
  have "picture_ok env (picture_step env s c)" if "picture_ok env s"
    using prims_all[OF step_prims] that picture_machine.numbered_run[of s env "[c]"] by (auto simp: picture_ok_def)
  with s show "picture_ok env p0 \<longrightarrow> picture_ok env (picture_step env s c)" by blast
qed simp

lemma run_ok: "new_picture session limit = Inr p \<Longrightarrow> picture_ok env (foldl (picture_step env) p calls)"
  using picture_safety.inv_run[of env p calls] new_picture_ok by blast


subsection \<open>Catching up from a snapshot\<close>

definition client_view :: "picture_record list \<Rightarrow> (jstring \<rightharpoonup> picture_record)" where
  "client_view rs = map_of (map (\<lambda>r. (record_key (pr_resource_type r) (pr_id r), r)) rs)"

lemma mset_insert_by: "mset (insert_by f x xs) = add_mset x (mset xs)"
  by (induction xs) auto

lemma mset_sort_by: "mset (foldr (insert_by f) xs []) = mset xs"
  by (induction xs) (simp_all add: mset_insert_by)

lemma mset_map_of:
  assumes "js_map_ok b" "mset a = mset b"
  shows "map_of a = map_of b"
proof -
  have "mset (js_keys a) = mset (js_keys b)" using arg_cong[OF assms(2), of "image_mset fst"] by (simp only: mset_map)
  then have a: "js_map_ok a" using assms(1) mset_eq_imp_distinct_iff by blast
  have "map_of a k = Some v \<longleftrightarrow> map_of b k = Some v" for k v
    using map_of_eq_Some_iff[OF a] map_of_eq_Some_iff[OF assms(1)] mset_eq_setD[OF assms(2)] by simp
  then show ?thesis by (metis not_Some_eq ext)
qed

lemma snapshot_view:
  assumes "entries_ok env p"
  shows "client_view (snd (snd (picture_snapshot env p))) = map_of (records p)"
proof -
  let ?key = "\<lambda>r. record_key (pr_resource_type r) (pr_id r)"
  let ?rs = "snd (snd (picture_snapshot env p))"
  have ok: "js_map_ok (records p)" and keys: "\<And>k r. map_of (records p) k = Some r \<Longrightarrow> k = ?key r"
    using assms by (auto simp: entries_ok_def)
  have pairs: "map (\<lambda>r. (?key r, r)) (map snd (records p)) = records p"
    using ok keys by (auto simp: map_of_eq_Some_iff intro!: map_idI)
  have m: "mset ?rs = mset (map snd (records p))" by (simp add: picture_snapshot_def mset_sort_by)
  then have "mset (map (\<lambda>r. (?key r, r)) ?rs) = mset (map (\<lambda>r. (?key r, r)) (map snd (records p)))"
    unfolding mset_map by simp
  then have same: "mset (map (\<lambda>r. (?key r, r)) ?rs) = mset (records p)" unfolding pairs .
  then show ?thesis unfolding client_view_def by (rule mset_map_of[OF ok])
qed

lemma replay_fst: "fst (fold redo_event es v) = fst v"
  by (induction es arbitrary: v) (simp_all, metis fst_conv redo_event.simps surj_pair)

text \<open>C12: a subscriber that has a snapshot of the picture and later redoes the events the picture still holds after the snapshot's revision
  sees exactly the records the picture has by then, whatever happened in between: publications applied or refused, records going stale
  or expiring, sources replaced, connectivity lost. The picture refuses a cursor it can no longer serve, so nothing is missed silently.\<close>

theorem picture_replay:
  assumes "new_picture session limit = Inr p"
    and "picture_snapshot env (foldl (picture_step env) p calls) = (s, revision, seen)"
    and "eventsAfter (foldl (picture_step env) p (calls @ later)) s (int revision) = Inr replay"
  shows "snd (fold redo_event replay (s, client_view seen)) =
    client_view (snd (snd (picture_snapshot env (foldl (picture_step env) p (calls @ later)))))"
proof -
  define a where "a = foldl (picture_step env) p calls"
  define b where "b = foldl (picture_step env) a later"
  have b': "foldl (picture_step env) p (calls @ later) = b" by (simp add: a_def b_def)
  have ok: "picture_ok env a" "picture_ok env b"
    using run_ok[OF assms(1), of env calls] run_ok[OF assms(1), of env "calls @ later"] unfolding b' a_def by simp_all
  have sn: "s = pic_session a" "revision = pic_revision a" "seen = snd (snd (picture_snapshot env a))"
    using assms(2) by (auto simp: picture_snapshot_def a_def)
  have view: "picture_view a = (s, client_view seen)"
    using snapshot_view[of env a] ok(1) sn by (simp add: picture_view_def picture_ok_def)
  have ea: "replay = filter (\<lambda>e. int revision < int (ev_revision e)) (pic_events b)"
    "\<not> int (pic_revision b) < int revision"
    "\<not> int revision < (case pic_events b of [] \<Rightarrow> int (pic_revision b) + 1 | e # _ \<Rightarrow> int (ev_revision e)) - 1"
    using assms(3) unfolding b' by (auto simp: eventsAfter_def Let_def split: if_splits)
  have "fold redo_event (filter (\<lambda>e. pic_revision a < ev_revision e) (pic_events b)) (picture_view a) = picture_view b"
    unfolding b_def
  proof (rule picture_machine.catch_up)
    show "feed.numbered a" using ok(1) by (simp add: picture_ok_def)
    show "pic_revision (foldl (picture_step env) a later) \<le> pic_revision a" if "pic_events (foldl (picture_step env) a later) = []"
      using ea(3) that sn(2) unfolding b_def by simp
    show "ev_revision (hd (pic_events (foldl (picture_step env) a later))) \<le> pic_revision a + 1"
      if "pic_events (foldl (picture_step env) a later) \<noteq> []"
      using ea(3) that sn(2) unfolding b_def by (auto simp: neq_Nil_conv)
  qed
  then have "fold redo_event replay (s, client_view seen) = picture_view b" using ea(1) sn(2) view by simp
  then show ?thesis unfolding b' using snapshot_view[of env b] ok(2) by (simp add: picture_view_def picture_ok_def)
qed

lemma js_map_mset:
  assumes "js_map_ok a" "js_map_ok b" "map_of a = map_of b"
  shows "mset a = mset b"
proof -
  have "x \<in> set a \<longleftrightarrow> x \<in> set b" for x
    using map_of_eq_Some_iff[OF assms(1), of "fst x" "snd x"] map_of_eq_Some_iff[OF assms(2), of "fst x" "snd x"] assms(3) by simp
  then have "set a = set b" by blast
  moreover have "distinct a" "distinct b" using assms(1,2) by (auto simp: distinct_map)
  ultimately show ?thesis by (simp add: set_eq_iff_mset_eq_distinct)
qed

lemma entries_exact:
  assumes "entries_ok env p"
  shows "length (records p) + length (tombstones p) = length (entryBytes p)"
    and "sum_list (map (record_bytes env \<circ> snd) (records p)) + sum_list (map (tombstone_bytes env \<circ> snd) (tombstones p)) =
      sum_list (map snd (entryBytes p))"
    and "fst ` set (records p) \<inter> fst ` set (tombstones p) = {}"
proof -
  let ?all = "map (\<lambda>kr. (fst kr, record_bytes env (snd kr))) (records p) @ map (\<lambda>kt. (fst kt, tombstone_bytes env (snd kt))) (tombstones p)"
  have ok: "js_map_ok (records p)" "js_map_ok (tombstones p)" "js_map_ok (entryBytes p)"
    and apart: "\<And>k r. map_of (records p) k = Some r \<Longrightarrow> map_of (tombstones p) k = None"
    and sizes: "\<And>k. map_of (entryBytes p) k = (case map_of (records p) k of Some r \<Rightarrow> Some (record_bytes env r)
      | None \<Rightarrow> map_option (tombstone_bytes env) (map_of (tombstones p) k))"
    using assms by (auto simp: entries_ok_def)
  show disj: "fst ` set (records p) \<inter> fst ` set (tombstones p) = {}"
  proof -
    have False if "k \<in> fst ` set (records p)" "k \<in> fst ` set (tombstones p)" for k
      using apart[of k] that by (cases "map_of (records p) k") (auto simp: map_of_eq_None_iff)
    then show ?thesis by blast
  qed
  then have all: "js_map_ok ?all" using ok by (simp add: comp_def)
  have look: "map_of ?all k = (case map_of (records p) k of Some r \<Rightarrow> Some (record_bytes env r)
      | None \<Rightarrow> map_option (tombstone_bytes env) (map_of (tombstones p) k))" for k
  proof -
    have *: "map_of (map (\<lambda>kr. (fst kr, f (snd kr))) m) k = map_option f (map_of m k)" for f :: "'a \<Rightarrow> nat" and m :: "(jstring \<times> 'a) list"
      by (induction m) auto
    have **: "map_of (map (\<lambda>kr. (fst kr, f (snd kr))) m) k = map_option f (map_of m k)" for f :: "'b \<Rightarrow> nat" and m :: "(jstring \<times> 'b) list"
      by (induction m) auto
    show ?thesis using apart[of k] by (simp add: map_add_def * ** split: option.splits)
  qed
  then have "map_of (entryBytes p) = map_of ?all" unfolding fun_eq_iff sizes look by simp
  then have m: "mset (entryBytes p) = mset ?all" by (rule js_map_mset[OF ok(3) all])
  show "length (records p) + length (tombstones p) = length (entryBytes p)" using arg_cong[OF m, of size] by simp
  have "sum_list (map snd (entryBytes p)) = sum_list (map snd ?all)"
    using arg_cong[OF m, of "\<lambda>x. sum_mset (image_mset snd x)"] by (simp only: mset_map[symmetric] sum_mset_sum_list)
  then show "sum_list (map (record_bytes env \<circ> snd) (records p)) + sum_list (map (tombstone_bytes env \<circ> snd) (tombstones p)) =
      sum_list (map snd (entryBytes p))" by (simp add: comp_def)
qed

lemma run_limit:
  assumes "picture_ok env p"
  shows "eventBufferLimit (foldl (picture_step env) p calls) = eventBufferLimit p"
proof -
  have prim: "picture_prim env a b \<Longrightarrow> eventBufferLimit b = eventBufferLimit a" for a b
    by (induction rule: picture_prim.induct) (auto elim: mark_step.cases)
  have "eventBufferLimit (picture_step env a c) = eventBufferLimit a" if "entries_ok env a" for a c
    using step_prims[OF that, of c] by (induction rule: rtranclp_induct) (auto simp: prim)
  then show ?thesis
    using assms picture_safety.inv_run[of env p]
    by (induction calls rule: rev_induct) (simp, simp, metis foldl_Cons foldl_Nil picture_ok_def)
qed

text \<open>C29: whatever is published to a picture and whenever it is refreshed, its tables stay within their limits: at most 4096 records
  and tombstones, whose JSON texts together (each record counted with its longest freshness) have exactly the size the picture accounts
  for and at most 16 MiB, at most as many buffered events as asked for and 8 MiB of them, at most 4096 sources, connected assets and
  sequence positions, and 1024 subscribers; no resource is both present and deleted.\<close>

theorem picture_bounded:
  assumes "new_picture session limit = Inr p" and "q = foldl (picture_step env) p calls"
  shows "length (records q) + length (tombstones q) \<le> PICTURE_ENTRY_LIMIT \<and>
    int (sum_list (map (record_bytes env \<circ> snd) (records q)) + sum_list (map (tombstone_bytes env \<circ> snd) (tombstones q)))
      = retainedEntryTotal q \<and> retainedEntryTotal q \<le> PICTURE_RETAINED_BYTES_LIMIT \<and>
    length (pic_events q) \<le> nat limit \<and>
    int (sum_list (map (\<lambda>e. retainedBytes env (event_json e)) (pic_events q))) \<le> PICTURE_EVENT_BYTES_LIMIT \<and>
    length (sources q) \<le> LINK_SOURCE_IDENTITY_LIMIT \<and> length (assetConnectivity q) \<le> LINK_SOURCE_IDENTITY_LIMIT \<and>
    length (recordSourceSequences q) \<le> RECORD_SOURCE_SEQUENCE_LIMIT \<and> length (pic_listeners q) \<le> PICTURE_LISTENER_LIMIT \<and>
    fst ` set (records q) \<inter> fst ` set (tombstones q) = {}"
proof -
  have ok: "entries_ok env q" "events_ok env q" "tables_ok q"
    using run_ok[OF assms(1), of env calls] assms(2) by (simp_all add: picture_ok_def)
  have "eventBufferLimit q = nat limit"
    using run_limit[OF new_picture_ok[OF assms(1)]] assms by (auto simp: new_picture_def split: if_splits)
  then show ?thesis
    using ok(2,3) entries_exact[OF ok(1)] ok(1) unfolding events_ok_def tables_ok_def entries_ok_def by auto
qed

subsection \<open>An example\<close>

text \<open>A bound on the size of a JSON text that evaluates quickly.\<close>

fun json_weight :: "json \<Rightarrow> nat" where
  "json_weight JNull = 4"
| "json_weight (JBool b) = 5"
| "json_weight (JNumber x) = 1"
| "json_weight (JString s) = 2 + 6 * length s"
| "json_weight (JArray xs) = 2 + sum_list (map json_weight xs) + length xs"
| "json_weight (JObject kvs) = 2 + sum_list (map (\<lambda>kv. 3 + 6 * length (fst kv) + json_weight (snd kv)) kvs) + length kvs"

lemma string_units_weight: "string_units_bytes s \<le> 6 * length s"
proof (induction s rule: string_units_bytes.induct)
  case (2 c)
  show ?case by (simp add: unit_bytes_def utf8Bytes_def)
next
  case (3 c d cs)
  have u: "unit_bytes c \<le> 6" by (simp add: unit_bytes_def utf8Bytes_def)
  have p: "utf8Bytes n \<le> 4" for n by (simp add: utf8Bytes_def)
  show ?case
  proof (cases "is_high c \<and> is_low d")
    case True
    let ?n = "0x10000 + push_bit 10 (unat c - 0xd800) + (unat d - 0xdc00)"
    have "string_units_bytes (c # d # cs) = utf8Bytes ?n + string_units_bytes cs" by (simp only: string_units_bytes.simps True simp_thms if_True)
    then show ?thesis using 3(1)[OF True] p[of ?n] by simp
  next
    case False
    have "string_units_bytes (c # d # cs) = unit_bytes c + string_units_bytes (d # cs)" by (simp only: string_units_bytes.simps False if_False)
    then show ?thesis using 3(2)[OF False] u by simp
  qed
qed simp

lemma canonical_weight:
  assumes "\<And>x. length (num x) = 1"
  shows "canonical_length num v \<le> json_weight v"
proof (induction v)
  case (JString s)
  then show ?case using string_units_weight[of s] by (simp add: canonicalJSONStringBytes_def)
next
  case (JArray xs)
  then have "sum_list (map (canonical_length num) xs) \<le> sum_list (map json_weight xs)" by (intro sum_list_mono) simp
  then show ?case by simp
next
  case (JObject kvs)
  have "sum_list (map (\<lambda>kv. canonicalJSONStringBytes (fst kv) + 1 + canonical_length num (snd kv)) kvs) \<le>
      sum_list (map (\<lambda>kv. 3 + 6 * length (fst kv) + json_weight (snd kv)) kvs)"
  proof (rule sum_list_mono)
    fix kv assume "kv \<in> set kvs"
    then have "canonical_length num (snd kv) \<le> json_weight (snd kv)" using JObject[of kv "snd kv"] by (simp add: snds.intros prod_set_simps)
    then show "canonicalJSONStringBytes (fst kv) + 1 + canonical_length num (snd kv) \<le> 3 + 6 * length (fst kv) + json_weight (snd kv)"
      using string_units_weight[of "fst kv"] by (simp add: canonicalJSONStringBytes_def)
  qed
  then show ?case by (simp add: split_def)
qed (simp_all add: assms)

definition demo_env :: picture_env where
  "demo_env = \<lparr>penv_sdk = \<lparr>sdk_is = (\<lambda>_ _. True), date_parse = (\<lambda>_. None), sha256_hex = (\<lambda>_. [])\<rparr>, penv_number = (\<lambda>_. [0x30]),
     penv_iso = (\<lambda>_. []), locale_compare = (\<lambda>_ _. 0), listener_throws = (\<lambda>_ _. False)\<rparr>"

lemma demo_bytes: "retainedBytes demo_env v \<le> json_weight v"
proof -
  have "numbers_ascii (\<lambda>_. [0x30])" by (simp add: numbers_ascii_def ascii_def)
  then have "retainedBytes demo_env v = canonical_length (\<lambda>_. [0x30]) v"
    by (simp add: retainedBytes_def json_bytes_def demo_env_def stringify_length)
  then show ?thesis using canonical_weight[of "\<lambda>_. [0x30]" v] by simp
qed

definition demo_publication :: fields where
  "demo_publication = [(js_lit ''resource_type'', JString (js_lit ''object'')),
     (js_lit ''resource'', JObject [(js_lit ''object_id'', JString (js_lit ''o''))])]"

definition demo_context :: apply_context where
  "demo_context = \<lparr>cx_source = \<lparr>node_role = GatewayRole, node_id = js_lit ''g''\<rparr>, cx_source_generation = 0,
     cx_service_session = js_lit ''t'', cx_source_sequence = 1, cx_received_at = 0\<rparr>"

definition demo_record :: picture_record where
  "demo_record = \<lparr>pr_resource_type = ObjectType, pr_id = js_lit ''o'', pr_state = JObject [(js_lit ''object_id'', JString (js_lit ''o''))],
     pr_source = \<lparr>node_role = GatewayRole, node_id = js_lit ''g''\<rparr>, pr_source_generation = 0, pr_service_session = js_lit ''t'',
     pr_source_sequence = 1, pr_source_asset_id = None, pr_runtime_id = None, pr_operation_id = None, pr_observation_time = None,
     pr_received_at = 0, pr_atlas_version = None, pr_freshness = Fresh, pr_path = None, pr_confirmation = None\<rparr>"

definition demo_picture :: picture where
  "demo_picture = \<lparr>pic_session = js_lit ''s'', eventBufferLimit = 8, pic_revision = 0, records = [], tombstones = [], sources = [],
     assetConnectivity = [], recordSourceSequences = [], entryBytes = [], pic_events = [], eventBytes = [], pic_listeners = [],
     retainedEntryTotal = 0, retainedEventTotal = 0, delivered = []\<rparr>"

definition demo_event :: picture_event where
  "demo_event = \<lparr>ev_session = js_lit ''s'', ev_revision = 1, ev_type = Upsert, ev_key = record_key ObjectType (js_lit ''o''), ev_record = Some demo_record\<rparr>"

lemma demo_new: "new_picture (js_lit ''s'') 8 = Inr demo_picture"
  by (simp add: new_picture_def demo_picture_def js_lit_def is_safe_integer_def max_safe_integer_def)

lemma demo_step: "\<exists>q. picture_step demo_env demo_picture (ApplyCall demo_publication demo_context) = q \<and>
    pic_session q = js_lit ''s'' \<and> pic_revision q = 1 \<and> pic_events q = [demo_event] \<and> map_of (records q) (record_key ObjectType (js_lit ''o'')) = Some demo_record"
proof -
  have n: "json_int i = JNumber (f64_of_int i)" for i by (simp add: json_int_def)
  have r: "record_bytes demo_env demo_record \<le> 16 * 1024 * 1024"
    unfolding record_bytes_def
    by (rule order_trans[OF demo_bytes]) (simp add: demo_record_def record_json_def node_json_def json_field_def n js_lit_def)
  have e: "int (retainedBytes demo_env (event_json demo_event)) \<le> 8 * 1024 * 1024"
  proof -
    have "json_weight (event_json demo_event) \<le> 8 * 1024 * 1024"
      by (simp add: demo_event_def demo_record_def event_json_def record_json_def node_json_def json_field_def n js_lit_def record_key_def)
    then show ?thesis using demo_bytes[of "event_json demo_event"] by simp
  qed
  have rec: "record_of demo_publication demo_context Fresh = demo_record"
    by (simp add: record_of_def demo_publication_def demo_context_def demo_record_def publication_type_def resourceID_def field_of_def field_is_def
        nested_def the_string_def sourceAssetID_def publication_deleted_def is_asset_entity_def resourceVersion_def)
  have key: "record_key (publication_type (JObject demo_publication)) (the_string (resourceID demo_publication)) = record_key ObjectType (js_lit ''o'')"
    using rec by (simp add: record_of_def demo_record_def)
  have ver: "resourceVersion demo_publication = None" using rec by (simp add: record_of_def demo_record_def)
  have del: "\<not> publication_deleted demo_publication" "\<not> field_is demo_publication ''resource_type'' ''task''"
    "connectivityAssetID demo_publication demo_context None demo_picture = None"
    by (simp_all add: connectivityAssetID_def publication_deleted_def field_of_def field_is_def demo_publication_def demo_context_def is_asset_entity_def)
  let ?src = "\<lparr>node_role = GatewayRole, node_id = js_lit ''g''\<rparr>"
  have acc: "acceptSource demo_env demo_context demo_picture =
      (Inr None, demo_picture\<lparr>sources := [(node_key ?src, \<lparr>sp_generation = 0, sp_session = js_lit ''t''\<rparr>)]\<rparr>)"
    by (simp add: acceptSource_def activateSource_def activate_source_def demo_context_def demo_picture_def is_safe_integer_def max_safe_integer_def
        js_lit_def LINK_SOURCE_IDENTITY_LIMIT_def)
  have ev: "PICTURE_EVENT_BYTES_LIMIT < int (retainedBytes demo_env (event_json demo_event)) \<longleftrightarrow> False"
    using e by (simp add: PICTURE_EVENT_BYTES_LIMIT_def)
  have fold_event: "\<lparr>ev_session = js_lit ''s'', ev_revision = Suc 0, ev_type = Upsert, ev_key = record_key ObjectType (js_lit ''o''), ev_record = Some demo_record\<rparr> = demo_event"
    by (simp add: demo_event_def)
  have ret: "canRetain q key (record_bytes demo_env demo_record)" if "entryBytes q = []" "retainedEntryTotal q = 0" for q key
    using r that by (simp add: canRetain_def entry_size_def PICTURE_RETAINED_BYTES_LIMIT_def PICTURE_ENTRY_LIMIT_def)
  have em: "pic_events (emit demo_env Upsert (record_key ObjectType (js_lit ''o'')) (Some demo_record) q) = [demo_event]"
    if "pic_session q = js_lit ''s''" "pic_revision q = 0" "pic_events q = []" "eventBytes q = []" "retainedEventTotal q = 0" "eventBufferLimit q = 8" for q
    using that ev fold_event by (simp add: emit_def dispatch_event_def store_event_def Let_def)
  have rev: "pic_revision (emit demo_env kind k x q) = pic_revision q + 1" for kind k x q
    by (simp add: emit_def dispatch_event_def Let_def)
  show ?thesis
    unfolding picture_step.simps apply_publication_def Let_def key demo_picture_def[THEN arg_cong[of _ _ records], simplified] map_of.simps del(3) acc
    by (simp add: apply_accepted_def apply_upsert_def Let_def del ver rec pruneRecordSourceSequences_def demo_picture_def ret em rev
        RECORD_SOURCE_SEQUENCE_LIMIT_def)
qed

theorem picture_replay_witness:
  "new_picture (js_lit ''s'') 8 = Inr demo_picture \<and> picture_snapshot demo_env demo_picture = (js_lit ''s'', 0, []) \<and>
   eventsAfter (foldl (picture_step demo_env) demo_picture [ApplyCall demo_publication demo_context]) (js_lit ''s'') 0 = Inr [demo_event] \<and>
   client_view (snd (snd (picture_snapshot demo_env (foldl (picture_step demo_env) demo_picture [ApplyCall demo_publication demo_context])))) =
     [record_key ObjectType (js_lit ''o'') \<mapsto> demo_record]"
proof -
  have snap: "picture_snapshot demo_env (foldl (picture_step demo_env) demo_picture []) = (js_lit ''s'', 0, [])"
    by (simp add: picture_snapshot_def demo_picture_def)
  have ea: "eventsAfter (foldl (picture_step demo_env) demo_picture ([] @ [ApplyCall demo_publication demo_context])) (js_lit ''s'') (int 0) = Inr [demo_event]"
    using demo_step by (auto simp: eventsAfter_def Let_def is_safe_integer_def demo_event_def)
  have "snd (fold redo_event [demo_event] (js_lit ''s'', client_view [])) = [record_key ObjectType (js_lit ''o'') \<mapsto> demo_record]"
    by (simp add: client_view_def demo_event_def)
  then show ?thesis using picture_replay[OF demo_new snap ea] demo_new snap ea by simp
qed

theorem picture_bounded_witness:
  "\<exists>q. q = foldl (picture_step demo_env) demo_picture [ApplyCall demo_publication demo_context] \<and> pic_events q = [demo_event] \<and>
     length (records q) + length (tombstones q) \<le> PICTURE_ENTRY_LIMIT \<and> length (pic_events q) \<le> nat 8"
  using picture_bounded[OF demo_new refl, of demo_env "[ApplyCall demo_publication demo_context]"] demo_step by auto

subsection \<open>Versions never go back\<close>

definition known_version :: "picture \<Rightarrow> jstring \<Rightarrow> int option" where
  "known_version p key =
     (case map_of (records p) key of Some r \<Rightarrow> pr_atlas_version r | None \<Rightarrow> map_option ts_atlasVersion (map_of (tombstones p) key))"

lemma mark_step_versions:
  assumes "mark_step env p q" "entries_ok env p"
  shows "known_version q k = known_version p k \<and> map_option pr_atlas_version (map_of (records q) k) = map_option pr_atlas_version (map_of (records p) k)"
  using assms
proof cases
  case (mark_fresh key r f)
  have "map_of (tombstones p) key = None" using mark_fresh(2) assms(2) by (auto simp: entries_ok_def)
  then show ?thesis using mark_fresh by (auto simp: known_version_def js_lookup split: option.splits)
qed (auto simp: known_version_def split: option.splits)

lemma mark_steps_versions:
  assumes "(mark_step env)\<^sup>*\<^sup>* p q" "entries_ok env p"
  shows "known_version q k = known_version p k \<and> map_option pr_atlas_version (map_of (records q) k) = map_option pr_atlas_version (map_of (records p) k)"
  using assms(1)
proof (induction rule: rtranclp_induct)
  case (step q r)
  have "entries_ok env q" using mark_steps_charges[OF step(1) assms(2)] by (simp add: same_charges_def)
  from mark_step_versions[OF step(2) this, of k] step(3) show ?case by simp
qed simp

lemma emit_version [simp]: "known_version (emit env kind key r p) k = known_version p k"
  by (simp add: known_version_def split: option.split)

lemma field_versions [simp]:
  "known_version (p\<lparr>assetConnectivity := a\<rparr>) k = known_version p k" "known_version (p\<lparr>sources := b\<rparr>) k = known_version p k"
  "known_version (p\<lparr>recordSourceSequences := c\<rparr>) k = known_version p k"
  by (simp_all add: known_version_def split: option.split)

lemma retain_versions:
  "known_version (retainTombstone env key t p) k = (if k = key then Some (ts_atlasVersion t) else known_version p k)"
  "known_version (retainRecord env key r p) k = (if k = key then pr_atlas_version r else known_version p k)"
  by (simp_all add: known_version_def js_lookup split: option.split)

lemma mark_versions: "entries_ok env p \<Longrightarrow> known_version (markSourceConnectivity env source c p) k = known_version p k"
  using mark_steps_versions[OF mark_steps] by blast

lemma accept_versions:
  assumes "entries_ok env p"
  shows "known_version (snd (acceptSource env context p)) k = known_version p k \<and>
    map_option pr_atlas_version (map_of (records (snd (acceptSource env context p))) k) = map_option pr_atlas_version (map_of (records p) k)"
proof -
  have mark: "known_version (markSourceConnectivity env source c q) k = known_version q k \<and>
      map_option pr_atlas_version (map_of (records (markSourceConnectivity env source c q)) k) = map_option pr_atlas_version (map_of (records q) k)"
    if "entries_ok env q" for source c q
    using mark_steps_versions[OF mark_steps that] by blast
  have "known_version (snd (activate_source env source g s p)) k = known_version p k \<and>
    map_option pr_atlas_version (map_of (records (snd (activate_source env source g s p))) k) = map_option pr_atlas_version (map_of (records p) k)" for source g s
    using mark[of p source] mark[of "p\<lparr>assetConnectivity := js_set (node_id source) \<lparr>connected = False, receivedAt = None\<rparr> (assetConnectivity p)\<rparr>" source] assms
    unfolding activate_source_def Let_def by auto
  from this[of "cx_source context" "cx_source_generation context" "cx_service_session context"] show ?thesis
    by (cases "activate_source env (cx_source context) (cx_source_generation context) (cx_service_session context) p")
      (auto simp: acceptSource_def activateSource_def)
qed

lemma newer_version:
  assumes "isNewer env publication r context" "resourceVersion publication = Some w" "pr_atlas_version r = Some v"
  shows "v \<le> w"
  using assms by (auto simp: isNewer_def Let_def split: if_splits)

lemma replace_version: "canReplaceTombstone publication t \<Longrightarrow> resourceVersion publication = Some w \<Longrightarrow> ts_atlasVersion t \<le> w"
  by (auto simp: canReplaceTombstone_def split: if_splits)

lemma apply_delete_version:
  assumes "entries_ok env p" "resourceVersion publication = Some w" "publication_deleted publication"
    and "current \<noteq> None \<Longrightarrow> isNewer env publication (the current) context"
    and "map_option pr_atlas_version current = map_option pr_atlas_version (map_of (records p) key)" "known_version p k = Some v"
  shows "\<exists>v' \<ge> v. known_version (snd (apply_delete env publication context asset key rsk seq current p)) k = Some v'"
proof -
  let ?t = "tombstone_of publication context"
  let ?d = "case current of None \<Rightarrow> p | Some r \<Rightarrow> degradeTasksForExpiredAsset env r p"
  have steps: "(mark_step env)\<^sup>*\<^sup>* p ?d" by (auto simp: degrade_steps split: option.splits)
  have ok: "entries_ok env ?d" using mark_steps_charges[OF steps assms(1)] by (simp add: same_charges_def)
  have kd: "known_version ?d k = Some v" using mark_steps_versions[OF steps assms(1)] assms(6) by simp
  have w: "ts_atlasVersion ?t = w" using assms(2,3) by (simp add: tombstone_of_def resourceVersion_def the_integer_def)
  have "\<exists>v' \<ge> v. known_version (retainTombstone env key ?t ?d) k = Some v'"
    if "\<not> (map_of (tombstones p) key \<noteq> None \<and> \<not> canReplaceTombstone publication (the (map_of (tombstones p) key)))"
  proof (cases "k = key")
    case False
    then show ?thesis using kd by (simp add: retain_versions)
  next
    case True
    have "v \<le> w"
    proof (cases current)
      case (Some r)
      then have "pr_atlas_version r = Some v" using assms(5,6) True by (auto simp: known_version_def split: option.splits)
      then show ?thesis using newer_version[OF _ assms(2), of env r "context"] assms(4) Some by simp
    next
      case None
      then obtain t where "map_of (tombstones p) key = Some t" "ts_atlasVersion t = v"
        using assms(5,6) True by (auto simp: known_version_def split: option.splits)
      then show ?thesis using replace_version[OF _ assms(2), of t] that by simp
    qed
    then show ?thesis using w True by (simp add: retain_versions)
  qed
  moreover have "known_version (markSourceConnectivity env n c (retainTombstone env key ?t ?d)) k = known_version (retainTombstone env key ?t ?d) k"
    if "canRetain p key (tombstone_bytes env ?t)" for n c
    using mark_versions[OF retainTombstone_ok[OF ok]] that canRetain_charges[OF mark_steps_charges[OF steps assms(1)]] by blast
  ultimately show ?thesis
    using assms(6) unfolding apply_delete_def Let_def
    by (cases asset; cases current) (auto simp: rejectCapacity_def)
qed

lemma apply_upsert_version:
  assumes "entries_ok env p" "resourceVersion publication = Some w"
    and "key = record_key (publication_type (JObject publication)) (the_string (resourceID publication))"
    and "current \<noteq> None \<Longrightarrow> isNewer env publication (the current) context"
    and "map_option pr_atlas_version current = map_option pr_atlas_version (map_of (records p) key)" "known_version p k = Some v"
  shows "\<exists>v' \<ge> v. known_version (snd (apply_upsert env publication context asset key rsk seq current p)) k = Some v'"
proof -
  define r where "r = record_of publication context
    (if field_is publication ''resource_type'' ''task'' then taskFreshness p (the (field_of publication ''resource'')) current else Fresh)"
  have key: "key = record_key (pr_resource_type r) (pr_id r)" and w: "pr_atlas_version r = Some w"
    using assms(2,3) by (simp_all add: r_def record_of_def)
  have "\<exists>v' \<ge> v. known_version (retainRecord env key r p) k = Some v'"
    if "\<not> (map_of (tombstones p) key \<noteq> None \<and> \<not> canReplaceTombstone publication (the (map_of (tombstones p) key)))"
  proof (cases "k = key")
    case False
    then show ?thesis using assms(6) by (simp add: retain_versions)
  next
    case True
    have "v \<le> w"
    proof (cases current)
      case (Some x)
      then have "pr_atlas_version x = Some v" using assms(5,6) True by (auto simp: known_version_def split: option.splits)
      then show ?thesis using newer_version[OF _ assms(2), of env x "context"] assms(4) Some by simp
    next
      case None
      then obtain t where "map_of (tombstones p) key = Some t" "ts_atlasVersion t = v"
        using assms(5,6) True by (auto simp: known_version_def split: option.splits)
      then show ?thesis using replace_version[OF _ assms(2), of t] that by simp
    qed
    then show ?thesis using w True by (simp add: retain_versions)
  qed
  moreover have "known_version (markSourceConnectivity env n c q) k = known_version q k" if "entries_ok env q" for n c q
    by (rule mark_versions[OF that])
  moreover have "entries_ok env (retainRecord env key r p)" if "canRetain p key (record_bytes env r)"
    by (rule retainRecord_ok[OF assms(1) that key])
  ultimately show ?thesis
    using assms(2,6) unfolding apply_upsert_def Let_def r_def[symmetric]
    by (cases asset) (auto simp: rejectCapacity_def)
qed

text \<open>C28: a publication with a version never takes the picture back: whatever version of a resource the picture knows, of a record
  or of a deletion, after it applied or refused any versioned publication (of this or of another resource, a newer state or a
  deletion) it knows that version or a later one. In particular an old publication does not bring a deleted resource back.\<close>

theorem picture_versions_monotone:
  assumes "new_picture session limit = Inr p" and "q = foldl (picture_step env) p calls"
    and "known_version q k = Some v" and "resourceVersion publication \<noteq> None"
  shows "\<exists>v' \<ge> v. known_version (picture_step env q (ApplyCall publication context)) k = Some v'"
proof -
  have ok: "entries_ok env q" using run_ok[OF assms(1)] assms(2) by (simp add: picture_ok_def)
  obtain w where w: "resourceVersion publication = Some w" using assms(4) by blast
  let ?key = "record_key (publication_type (JObject publication)) (the_string (resourceID publication))"
  let ?current = "map_of (records q) ?key"
  obtain x a where a: "acceptSource env context q = (x, a)" by (cases "acceptSource env context q")
  have ka: "known_version a k = Some v" "map_option pr_atlas_version ?current = map_option pr_atlas_version (map_of (records a) ?key)"
    using accept_versions[OF ok, of "context" k] accept_versions[OF ok, of "context" ?key] a assms(3) by simp_all
  have oka: "entries_ok env a" using prims_ok[OF source_prims(2) ok, of "context"] a by simp
  define b where "b = pruneRecordSourceSequences (cx_received_at context) a"
  define c where "c = b\<lparr>recordSourceSequences := js_set (?key @ [0] @ node_key (cx_source context)) (source_position_of context) (recordSourceSequences b)\<rparr>"
  have b: "known_version b k = Some v" using ka(1) by (simp add: b_def pruneRecordSourceSequences_def)
  have c: "known_version c k = Some v" "entries_ok env c" "records c = records a"
    using b oka by (simp_all add: c_def b_def pruneRecordSourceSequences_def)
  have "\<exists>v' \<ge> v. known_version (snd (apply_accepted env publication context asset ?key ?current a)) k = Some v'" for asset
    unfolding apply_accepted_def Let_def b_def[symmetric] c_def[symmetric]
    using b c(1) apply_delete_version[OF c(2) w _ _ _ c(1), of ?current "context" ?key] apply_upsert_version[OF c(2) w refl _ _ c(1), of ?current "context"]
      ka(2) c(3) by auto
  then show ?thesis
    using assms(3) ka(1) a unfolding picture_step.simps apply_publication_def Let_def
    by (cases x) (auto split: option.splits)
qed

definition demo_delete :: fields where
  "demo_delete = [(js_lit ''resource_type'', JString (js_lit ''object'')), (js_lit ''resource_id'', JString (js_lit ''o'')),
     (js_lit ''deleted'', JBool True), (js_lit ''atlas_version'', json_int 3)]"

lemma demo_tombstone: "known_version (picture_step demo_env demo_picture (ApplyCall demo_delete demo_context)) (record_key ObjectType (js_lit ''o'')) = Some 3"
  "resourceVersion demo_delete = Some 3"
proof -
  have three: "safe_integer (Some (json_int 3)) = Some 3"
    by (simp add: json_int_def f64_int_of_int is_safe_integer_def max_safe_integer_def)
  then show ver: "resourceVersion demo_delete = Some 3"
    by (simp add: resourceVersion_def demo_delete_def publication_deleted_def field_of_def)
  have key: "record_key (publication_type (JObject demo_delete)) (the_string (resourceID demo_delete)) = record_key ObjectType (js_lit ''o'')"
    by (simp add: demo_delete_def publication_type_def resourceID_def field_of_def field_is_def the_string_def)
  have del: "publication_deleted demo_delete" "connectivityAssetID demo_delete demo_context None demo_picture = None"
    by (simp_all add: connectivityAssetID_def publication_deleted_def field_of_def field_is_def demo_delete_def)
  let ?src = "\<lparr>node_role = GatewayRole, node_id = js_lit ''g''\<rparr>"
  have acc: "acceptSource demo_env demo_context demo_picture =
      (Inr None, demo_picture\<lparr>sources := [(node_key ?src, \<lparr>sp_generation = 0, sp_session = js_lit ''t''\<rparr>)]\<rparr>)"
    by (simp add: acceptSource_def activateSource_def activate_source_def demo_context_def demo_picture_def is_safe_integer_def max_safe_integer_def
        js_lit_def LINK_SOURCE_IDENTITY_LIMIT_def)
  have size: "tombstone_bytes demo_env (tombstone_of demo_delete demo_context) \<le> 16 * 1024 * 1024"
    unfolding tombstone_bytes_def
    by (rule order_trans[OF demo_bytes]) (simp add: tombstone_of_def tombstone_json_def demo_context_def demo_delete_def field_of_def node_json_def
        json_field_def json_int_def js_lit_def)
  have ret: "canRetain q k (tombstone_bytes demo_env (tombstone_of demo_delete demo_context))" if "entryBytes q = []" "retainedEntryTotal q = 0" for q k
    using size that by (simp add: canRetain_def entry_size_def PICTURE_RETAINED_BYTES_LIMIT_def PICTURE_ENTRY_LIMIT_def)
  have t: "ts_atlasVersion (tombstone_of demo_delete demo_context) = 3"
    using three by (simp add: tombstone_of_def demo_delete_def field_of_def the_integer_def)
  show "known_version (picture_step demo_env demo_picture (ApplyCall demo_delete demo_context)) (record_key ObjectType (js_lit ''o'')) = Some 3"
    unfolding picture_step.simps apply_publication_def Let_def key demo_picture_def[THEN arg_cong[of _ _ records], simplified] map_of.simps del(2) acc
    by (simp add: apply_accepted_def apply_delete_def Let_def del pruneRecordSourceSequences_def demo_picture_def ret retain_versions t
        RECORD_SOURCE_SEQUENCE_LIMIT_def)
qed

theorem picture_versions_monotone_witness:
  "\<exists>v' \<ge> 3. known_version (picture_step demo_env (foldl (picture_step demo_env) demo_picture [ApplyCall demo_delete demo_context])
     (ApplyCall demo_delete demo_context)) (record_key ObjectType (js_lit ''o'')) = Some v'"
  using picture_versions_monotone[OF demo_new refl, of demo_env "[ApplyCall demo_delete demo_context]" "record_key ObjectType (js_lit ''o'')" 3 demo_delete]
    demo_tombstone by simp

end
