(* ===== verification/Picture_Projection.thy ===== *)
theory Picture_Projection
  imports Picture
begin

text \<open>
  The projection of delivered messages onto the shared picture, \<^verbatim>\<open>packages/meshtastic-link/src/picture-projection.ts\<close>. The generated
  validators are the parameter \<open>sdk_is\<close> of the contract, \<^verbatim>\<open>new Date(..).toISOString()\<close> is \<open>penv_iso\<close>. A publication is built field by
  field, in the order of the source.
\<close>

section \<open>Definitions\<close>

definition lit :: "string \<Rightarrow> string \<Rightarrow> jstring \<times> json" where
  "lit name s = (js_lit name, JString (js_lit s))"

text \<open>\<^verbatim>\<open>ResponseProvenance\<close>: path and confirmation.\<close>

type_synonym provenance = "string \<times> string"

definition provenance_fields :: "provenance \<Rightarrow> fields" where
  "provenance_fields v = [lit ''path'' (fst v), lit ''confirmation'' (snd v)]"

definition taskDeliveryPublication :: "fields \<Rightarrow> fields" where
  "taskDeliveryPublication message =
     [lit ''type'' ''state'', lit ''resource_type'' ''task''] @ json_field ''resource'' (field_of message ''task'') @
     json_field ''observation_time'' (nested message ''task'' ''updated_at'') @
     [lit ''path'' ''gateway_feed'', lit ''confirmation'' ''core_confirmed'']"

definition operation_field :: "json option \<Rightarrow> fields" where
  "operation_field operationID = json_field ''operation_id'' operationID"

definition metadata_time :: "json \<Rightarrow> json option" where
  "metadata_time resource = (case state_field resource ''metadata'' of Some m \<Rightarrow> state_field m ''updated_at'' | None \<Rightarrow> None)"

definition entityPublication :: "json \<Rightarrow> json option \<Rightarrow> provenance \<Rightarrow> fields" where
  "entityPublication resource operationID v =
     [lit ''type'' ''state'', lit ''resource_type'' ''entity'', (js_lit ''resource'', resource)] @
     json_field ''observation_time'' (metadata_time resource) @ provenance_fields v @ operation_field operationID"

definition taskPublication :: "json \<Rightarrow> json option \<Rightarrow> provenance \<Rightarrow> fields" where
  "taskPublication resource operationID v =
     [lit ''type'' ''state'', lit ''resource_type'' ''task'', (js_lit ''resource'', resource)] @
     json_field ''observation_time'' (state_field resource ''updated_at'') @ provenance_fields v @ operation_field operationID"

definition objectPublication :: "json \<Rightarrow> json option \<Rightarrow> provenance \<Rightarrow> fields" where
  "objectPublication resource operationID v =
     [lit ''type'' ''state'', lit ''resource_type'' ''object'', (js_lit ''resource'', resource)] @
     json_field ''observation_time'' (metadata_time resource) @ provenance_fields v @ operation_field operationID"

definition deletedPublication ::
    "json option \<Rightarrow> json option \<Rightarrow> json option \<Rightarrow> json option \<Rightarrow> jstring \<Rightarrow> provenance \<Rightarrow> fields" where
  "deletedPublication resourceType resourceId atlasVersion operationID observedAt v =
     [lit ''type'' ''state''] @ json_field ''resource_type'' resourceType @ json_field ''resource_id'' resourceId @
     [(js_lit ''deleted'', JBool True)] @ json_field ''atlas_version'' atlasVersion @
     [(js_lit ''observation_time'', JString observedAt)] @ provenance_fields v @ operation_field operationID"

definition objectSummary :: "json \<Rightarrow> json" where
  "objectSummary resource =
     JObject (concat (map (\<lambda>name. json_field name (state_field resource name))
       [''object_id'', ''type'', ''content_type'', ''size_bytes'', ''bucket'', ''path'', ''usage_hints'', ''referenced_by'', ''metadata'']))"

fun elements :: "json option \<Rightarrow> json list" where
  "elements (Some (JArray xs)) = xs"
| "elements _ = []"

text \<open>The last event of each resource by version, at the place of its first event.\<close>

definition event_key :: "json \<Rightarrow> jstring" where
  "event_key event = the_string (state_field event ''resource_type'') @ js_lit '':'' @ the_string (state_field event ''id'')"

definition collapse_step :: "json \<Rightarrow> (jstring, json) js_map \<Rightarrow> (jstring, json) js_map" where
  "collapse_step event m =
     (case js_get m (event_key event) of
        None \<Rightarrow> js_set (event_key event) event m
      | Some current \<Rightarrow>
          if the_integer (state_field current ''version'') \<le> the_integer (state_field event ''version'')
          then js_set (event_key event) event m else m)"

definition collapseChangedSinceEvents :: "json list \<Rightarrow> json list" where
  "collapseChangedSinceEvents events = map snd (fold collapse_step events [])"

definition changed_publication :: "json option \<Rightarrow> jstring \<Rightarrow> provenance \<Rightarrow> json \<Rightarrow> fields list" where
  "changed_publication operationID observedAt v event =
     (let resource = (case state_field event ''resource'' of None \<Rightarrow> JNull | Some j \<Rightarrow> j); t = state_field event ''resource_type'' in
      if state_field event ''event'' = Some (JString (js_lit ''delete''))
      then [deletedPublication t (state_field event ''id'') (state_field event ''version'') operationID observedAt v]
      else if t = Some (JString (js_lit ''entity'')) then [entityPublication resource operationID v]
      else if t = Some (JString (js_lit ''task'')) then [taskPublication resource operationID v]
      else if t = Some (JString (js_lit ''object'')) then [objectPublication resource operationID v] else [])"

definition responsePublications :: "sdk \<Rightarrow> fields \<Rightarrow> jstring \<Rightarrow> provenance \<Rightarrow> fields list" where
  "responsePublications sdk response observedAt v =
     (let operation = field_of response ''operation''; out = field_of response ''output'';
          operationID = field_of response ''request_id''; output = (case out of None \<Rightarrow> JNull | Some j \<Rightarrow> j) in
      if op_in operation [''entity.get'', ''entity.create'', ''entity.update''] then
        (if sdk_is sdk ''isEntityResource'' out then [entityPublication output operationID v] else [])
      else if op_in operation [''entity.check_in''] then
        (if sdk_is sdk ''isEntityCheckInResponse'' out
         then [entityPublication (case state_field output ''entity'' of None \<Rightarrow> JNull | Some j \<Rightarrow> j) operationID v] else [])
      else if op_in operation [''task.get'', ''task.create'', ''task.acknowledge'', ''task.start'', ''task.progress'', ''task.complete'',
          ''task.fail'', ''task.cancel''] then
        (if sdk_is sdk ''isTaskResource'' out then [taskPublication output operationID v] else [])
      else if op_in operation [''runtime.tasks''] then
        (if sdk_is sdk ''isRuntimeTaskDeliveryResponse'' out
         then map (\<lambda>task. taskPublication task operationID v) (elements (state_field output ''tasks'')) else [])
      else if op_in operation [''object.get'', ''object.create'', ''object.update''] then
        (if sdk_is sdk ''isObjectDetailResource'' out then [objectPublication (objectSummary output) operationID v] else [])
      else if op_in operation [''query.full''] then
        (if sdk_is sdk ''isFullDatasetResponse'' out
         then map (\<lambda>entity. entityPublication entity operationID v) (elements (state_field output ''entities'')) @
           map (\<lambda>task. taskPublication task operationID v) (elements (state_field output ''tasks'')) @
           map (\<lambda>object. objectPublication (objectSummary object) operationID v) (elements (state_field output ''objects''))
         else [])
      else if op_in operation [''query.changed_since''] then
        (if sdk_is sdk ''isChangedSinceResponse'' out
         then concat (map (changed_publication operationID observedAt v) (collapseChangedSinceEvents (elements (state_field output ''events''))))
         else [])
      else [])"

text \<open>
  \<^verbatim>\<open>taskReportPublication\<close>: the record that the reported task has in the picture. \<^verbatim>\<open>find\<close> on the sorted snapshot and the lookup by key
  agree: the key of a record is made of its type and id.
\<close>

definition task_record :: "picture_env \<Rightarrow> picture \<Rightarrow> json option \<Rightarrow> picture_record option" where
  "task_record env p i = find (\<lambda>r. pr_resource_type r = TaskType \<and> Some (JString (pr_id r)) = i) (snd (snd (picture_snapshot env p)))"

definition report_refused :: "fields \<Rightarrow> frame_identity \<Rightarrow> json \<Rightarrow> bool" where
  "report_refused message identity current \<longleftrightarrow>
     node_role (fr_source identity) \<noteq> AssetRole \<or>
     state_field current ''asset_id'' \<noteq> Some (JString (node_id (fr_source identity))) \<or>
     isOneOf (state_field current ''status'') [''completed'', ''failed'', ''cancelled''] \<or>
     state_field current ''status'' = Some (JString (js_lit ''in_progress'')) \<and>
       isOneOf (field_of message ''action'') [''acknowledge'', ''start'']"

definition reported_task :: "fields \<Rightarrow> json \<Rightarrow> json" where
  "reported_task message current =
     (let observedAt = field_of message ''observation_time'';
          acknowledgedAt = (case state_field current ''acknowledged_at'' of None \<Rightarrow> observedAt | v \<Rightarrow> v);
          startedAt = (case state_field current ''started_at'' of None \<Rightarrow> observedAt | v \<Rightarrow> v);
          common = json_field ''asset_id'' (state_field current ''asset_id'') @ json_field ''command'' (state_field current ''command'') @
            json_field ''created_at'' (state_field current ''created_at'') @ json_field ''input'' (state_field current ''input'') @
            json_field ''task_id'' (state_field current ''task_id'') @ json_field ''updated_at'' observedAt;
          kept = json_field ''acknowledged_at'' (state_field current ''acknowledged_at'') @
            json_field ''started_at'' (state_field current ''started_at'')
      in JObject (common @
       (if field_is message ''action'' ''acknowledge''
        then json_field ''acknowledged_at'' acknowledgedAt @ [lit ''status'' ''acknowledged'']
        else if field_is message ''action'' ''start''
        then json_field ''acknowledged_at'' acknowledgedAt @ json_field ''started_at'' startedAt @ [lit ''status'' ''in_progress'']
        else if field_is message ''action'' ''progress''
        then json_field ''acknowledged_at'' acknowledgedAt @ json_field ''started_at'' startedAt @ [lit ''status'' ''in_progress''] @
          json_field ''progress'' (nested message ''body'' ''progress'')
        else if field_is message ''action'' ''complete''
        then json_field ''acknowledged_at'' acknowledgedAt @ json_field ''started_at'' startedAt @ json_field ''finished_at'' observedAt @
          [lit ''status'' ''completed'', (js_lit ''progress'', json_int 1)] @ json_field ''output'' (nested message ''body'' ''output'')
        else if field_is message ''action'' ''fail''
        then kept @ json_field ''finished_at'' observedAt @ [lit ''status'' ''failed''] @
          json_field ''failure'' (nested message ''body'' ''failure'')
        else kept @ json_field ''finished_at'' observedAt @ [lit ''status'' ''cancelled''] @
          json_field ''cancellation'' (nested message ''body'' ''cancellation''))))"

definition taskReportPublication :: "picture_env \<Rightarrow> fields \<Rightarrow> picture \<Rightarrow> frame_identity \<Rightarrow> fields option" where
  "taskReportPublication env message p identity =
     (case task_record env p (field_of message ''task_id'') of
        None \<Rightarrow> None
      | Some r \<Rightarrow>
          if report_refused message identity (pr_state r) then None
          else Some ([lit ''type'' ''state'', lit ''resource_type'' ''task'', (js_lit ''resource'', reported_task message (pr_state r))] @
            json_field ''observation_time'' (field_of message ''observation_time'') @
            [lit ''path'' ''field'', lit ''confirmation'' ''awaiting_core'', (js_lit ''operation_id'', JString (fr_operation_id identity))] @
            json_field ''runtime_id'' (field_of message ''runtime_id'')))"

definition messagePublications :: "picture_env \<Rightarrow> fields \<Rightarrow> frame_identity \<Rightarrow> picture \<Rightarrow> int \<Rightarrow> fields list" where
  "messagePublications env message identity p received =
     (if field_is message ''type'' ''state'' then [message]
      else if field_is message ''type'' ''task_delivery'' then [taskDeliveryPublication message]
      else if field_is message ''type'' ''task_report'' then
        (case taskReportPublication env message p identity of None \<Rightarrow> [] | Some publication \<Rightarrow> [publication])
      else if \<not> field_is message ''type'' ''data_response'' then []
      else let publications = responsePublications (penv_sdk env) message (penv_iso env received)
          (if node_role (fr_source identity) = GatewayRole then (''gateway_feed'', ''core_confirmed'') else (''field'', ''not_required''))
        in if node_role (fr_source identity) = AssetRole
           then filter (\<lambda>publication. \<not> field_is publication ''resource_type'' ''task'') publications else publications)"

section \<open>Properties\<close>

lemma lit_field [simp]: "field_of (lit name s # fs) key = (if key = name then Some (JString (js_lit s)) else field_of fs key)"
  by (simp add: lit_def field_of_def)

lemma json_field_lookup [simp]: "field_of (json_field name v @ fs) key = (if key = name \<and> v \<noteq> None then v else field_of fs key)"
  by (auto simp: json_field_def field_of_def split: option.splits)

lemma json_field_last [simp]: "field_of (json_field name v) key = (if key = name then v else None)"
  by (auto simp: json_field_def field_of_def split: option.splits)

lemma pair_field [simp]: "field_of ((js_lit name, j) # fs) key = (if key = name then Some j else field_of fs key)"
  by (simp add: field_of_def)

lemma no_field [simp]: "field_of [] key = None"
  by (simp add: field_of_def)

lemmas publication_defs = entityPublication_def taskPublication_def objectPublication_def deletedPublication_def provenance_fields_def operation_field_def

text \<open>Every publication of a response carries the path and the confirmation of its source.\<close>

lemma response_provenance:
  assumes "publication \<in> set (responsePublications sdk response observedAt v)"
  shows "field_of publication ''path'' = Some (JString (js_lit (fst v))) \<and> field_of publication ''confirmation'' = Some (JString (js_lit (snd v)))"
proof -
  have one: "field_of (entityPublication r i v) ''path'' = Some (JString (js_lit (fst v)))"
    "field_of (entityPublication r i v) ''confirmation'' = Some (JString (js_lit (snd v)))"
    "field_of (taskPublication r i v) ''path'' = Some (JString (js_lit (fst v)))"
    "field_of (taskPublication r i v) ''confirmation'' = Some (JString (js_lit (snd v)))"
    "field_of (objectPublication r i v) ''path'' = Some (JString (js_lit (fst v)))"
    "field_of (objectPublication r i v) ''confirmation'' = Some (JString (js_lit (snd v)))"
    "field_of (deletedPublication t d a i at' v) ''path'' = Some (JString (js_lit (fst v)))"
    "field_of (deletedPublication t d a i at' v) ''confirmation'' = Some (JString (js_lit (snd v)))" for r i t d a at'
    by (simp_all add: publication_defs)
  have changed: "field_of x ''path'' = Some (JString (js_lit (fst v))) \<and> field_of x ''confirmation'' = Some (JString (js_lit (snd v)))"
    if "x \<in> set (changed_publication i o' v e)" for x i o' e
    using that by (auto simp: changed_publication_def Let_def one split: if_splits)
  from assms show ?thesis
    unfolding responsePublications_def Let_def by (auto simp: one split: if_splits dest: changed)
qed

text \<open>The state of a reported task keeps the asset of the task.\<close>

lemma reported_asset: "state_field (reported_task message current) ''asset_id'' = state_field current ''asset_id''"
  by (simp add: reported_task_def Let_def)


definition example_penv :: picture_env where
  "example_penv = \<lparr>penv_sdk = \<lparr>sdk_is = (\<lambda>_ _. True), date_parse = (\<lambda>_. None), sha256_hex = (\<lambda>_. [])\<rparr>, penv_number = (\<lambda>_. [0x30]),
     penv_iso = (\<lambda>_. []), locale_compare = (\<lambda>_ _. 0), listener_throws = (\<lambda>_ _. False)\<rparr>"

definition example_response :: fields where
  "example_response = [lit ''type'' ''data_response'', lit ''request_id'' ''r'', lit ''operation'' ''entity.get'', lit ''output'' ''e'']"

definition example_sender :: frame_identity where
  "example_sender = \<lparr>fr_revision = 1, fr_message_type = DataResponseMessage, fr_source = \<lparr>node_role = AssetRole, node_id = js_lit ''a''\<rparr>,
     fr_destination = None, fr_source_generation = 1, fr_service_session = js_lit ''s'', fr_source_sequence = 1, fr_operation_id = js_lit ''r'',
     fr_message_id = js_lit ''m'', fr_receipt = None, fr_priority = Request\<rparr>"


end
