(* ===== verification/Link_Transport.thy ===== *)
theory Link_Transport
  imports Picture_Projection Retry_Timing
begin

text \<open>
  The Link transport, \<^verbatim>\<open>packages/meshtastic-link/src/transport.ts\<close>: the operations that send and settle Atlas messages over the
  radio, the reassembly of received frames, and the timers between them.

  Outbound messages are objects that several tables share and that the code mutates, so they live in a store and the tables hold
  their addresses. The clock is part of the state: \<open>time\<close> is what \<^verbatim>\<open>clock.now()\<close> returns, \<open>timers\<close> the scheduled callbacks; \<open>fire\<close>
  runs one. \<^verbatim>\<open>pump\<close> awaits the radio in the middle: \<open>pump_start\<close> is its part up to the \<^verbatim>\<open>await\<close>, whose locals are kept in \<open>sending\<close>,
  \<open>pump_end\<close> the part after it, and every other operation may come between the two. Listeners of the transport may call it back:
  \<open>listen\<close> is what they do with the state when an event is emitted. Every message has \<^verbatim>\<open>trackingKey === operationID\<close>, so there is one field.
\<close>

declare map_of_eq_Some_iff [simp del]

section \<open>Definitions\<close>

subsection \<open>Data\<close>

record send_options =
  so_channel :: int
  so_priority :: message_priority
  so_request_id :: "int option"

record outbound =
  ob_message :: fields
  ob_operationID :: jstring
  ob_identity :: frame_identity
  ob_frames :: "bytes list"
  ob_pendingChunks :: "nat list"
  ob_delivery :: delivery_class
  ob_coalescingKey :: "jstring option"
  ob_retryTimer :: "nat option"
  ob_deadlineTimer :: "nat option"
  ob_started :: bool
  ob_order :: nat
  ob_queuedAt :: int
  ob_firstSentAt :: "int option"
  ob_rttAmbiguous :: bool
  ob_chunkSendCounts :: "nat list"
  ob_retrySequence :: nat
  ob_sendOptions :: send_options
  ob_commitStateBaseline :: "prepared option"

record compound_pair =
  cp_report :: nat
  cp_combinedFrame :: bytes
  cp_originalFrame :: bytes
  cp_originalIdentity :: frame_identity
  cp_originalSendOptions :: send_options
  cp_receiptIdentity :: receipt_identity

record inflight =
  if_outbound :: nat
  if_chunkIndex :: nat
  if_frame :: bytes
  if_pair :: "compound_pair option"

record reassembly =
  ra_identity :: frame_identity
  ra_chunks :: "(int, bytes) js_map"
  ra_chunkCount :: int
  ra_byteLength :: nat
  ra_expiresAt :: int
  ra_lastReceivedAt :: int
  ra_radioPacketID :: "int option"
  ra_timer :: nat

record source_fence =
  fence_generation :: int
  fence_session :: jstring

record pending_inbound =
  pi_source :: link_node
  pi_message_type :: link_message_type
  pi_task_id :: "json option"
  pi_operationID :: jstring
  pi_messageID :: jstring
  pi_radioPacketID :: "int option"
  pi_timer :: nat

datatype operation_status = Queued | Sent | ConfirmedStatus | Responded | Rejected | Failed

record operation_result =
  or_operation_id :: jstring
  or_status :: operation_status
  or_reason :: "jstring option"
  or_output :: "json option"
  or_next_cursor :: "json option"
  or_completed_at :: "int option"

record atomic_settlement =
  as_accepted :: bool
  as_receipt :: operation_result
  as_report :: operation_result

record settled_inbound =
  si_confirmed :: bool
  si_expiresAt :: int
  si_atomicTask :: "(jstring \<times> atomic_settlement) option"

record radio_packet =
  rp_payload :: bytes
  rp_received_at :: int
  rp_radio_packet_id :: "int option"
  rp_channel :: int

record message_event =
  me_message :: fields
  me_settlement_id :: jstring
  me_identity :: frame_identity
  me_received_at :: int
  me_addressed_to_local :: bool
  me_requires_settlement :: bool

datatype transport_event = MessageEvent message_event | OperationEvent operation_result | LinkErrorEvent jstring |
  PacketSentEvent jstring jstring nat int

datatype source_admission = AdmissionCapacity | AdmissionStaleSource | AdmissionPictureRejected

record timing_metric =
  tm_samples :: nat
  tm_total_ms :: int
  tm_maximum_ms :: int

record link_metrics =
  application_bytes :: nat
  packets_sent :: nat
  transmitted_bytes :: nat
  packets_received :: nat
  malformed_frames :: nat
  invalid_messages :: nat
  duplicate_packets_suppressed :: nat
  stale_messages_rejected :: nat
  picture_rejected_capacity :: nat
  incomplete_reassemblies :: nat
  best_effort_replaced :: nat
  confirmed_rejected_overload :: nat
  retry_exhausted :: nat
  retransmitted_packets :: nat
  fragment_repair_requests_sent :: nat
  fragment_repair_requests_received :: nat
  radio_send_failures :: nat
  inbound_settlement_expired :: nat
  peak_queue_depth :: nat
  packets_sent_by_message_type :: "link_message_type \<Rightarrow> nat"
  transmitted_bytes_by_priority :: "message_priority \<Rightarrow> nat"
  queue_wait_ms_by_priority :: "message_priority \<Rightarrow> timing_metric"
  operation_latency_ms_by_priority :: "message_priority \<Rightarrow> timing_metric"
  operation_outcomes :: "operation_status \<Rightarrow> nat"

text \<open>The callbacks that the transport schedules.\<close>

datatype timer_callback = PumpCallback | DeadlineCallback nat | RetryCallback nat | DeferredRetryCallback nat |
  ReassemblyCallback jstring | SettlementCallback jstring | CommittedExpiryCallback

record transport =
  node :: link_node
  sourceGeneration :: int
  serviceSession :: jstring
  privateChannel :: int
  queueLimit :: nat
  confirmedLimit :: nat
  reassemblyLimit :: nat
  reassemblyTimeoutMs :: int
  retryJitterMs :: nat
  retryIntervalMs :: "int option"
  adaptiveRetries :: bool
  frameEncoding :: frame_encoding
  retryTimings :: "(message_priority, estimator) js_map"
  stateEncoder :: "delta_encoder option"
  stateDecoder :: delta_decoder
  link_picture :: "picture option"
  store :: "nat \<Rightarrow> outbound"
  nextAddress :: nat
  queue :: "nat list"
  outboundByOperation :: "(jstring, nat) js_map"
  pendingDataRequests :: "(jstring, nat) js_map"
  responseOperations :: "(jstring, nat) js_map"
  reassemblies :: "(jstring, reassembly) js_map"
  sourceFences :: "(jstring, source_fence) js_map"
  pendingInbound :: "(jstring, pending_inbound) js_map"
  settledInbound :: "(jstring, settled_inbound) js_map"
  reservedTaskIDs :: "(jstring, frame_identity) js_map"
  operationResults :: "(jstring, operation_result) js_map"
  committedOperationIDs :: "(jstring, int option) js_map"
  committedOperationExpiryQueue :: "(jstring \<times> int) list"
  committedOperationExpiryQueueHead :: nat
  committedOperationExpiryTimer :: "nat option"
  committedOperationExpiryAt :: "int option"
  committedOperationCapacityBlocked :: bool
  intermediateResponseConfirmations :: "jstring list"
  taskDeliverySequences :: "(jstring, int) js_map"
  sourceSequence :: int
  nextOutboundOrder :: nat
  pumping :: bool
  pumpRequested :: bool
  pumpTimer :: "nat option"
  paused :: bool
  pauseWaiters :: nat
  activeOutbound :: "nat option"
  sending :: "inflight option"
  stopped :: bool
  activeObjectMessageID :: "jstring option"
  mutableMetrics :: link_metrics
  time :: int
  timers :: "(nat \<times> rat \<times> timer_callback) list"
  nextTimer :: nat
  idCount :: nat
  emitted :: "transport_event list"
  radioed :: "(bytes \<times> send_options) list"

text \<open>What the transport calls: the codecs, the radio, hashes, generated identifiers, the response validators and its listeners.\<close>

record transport_env =
  tx_codec :: codec_env
  tx_delta :: delta_env
  tx_picture :: picture_env
  settlement_digest :: "bytes \<Rightarrow> jstring"
  report_digest :: "bytes \<Rightarrow> jstring"
  jitter_sample :: "jstring \<Rightarrow> nat"
  createID :: "nat \<Rightarrow> jstring"
  radio_limit :: "send_options \<Rightarrow> int"
  radio_pacing :: "bytes \<Rightarrow> rat"
  response_valid :: "string \<Rightarrow> fields \<Rightarrow> json option \<Rightarrow> bool"
  listen :: "transport_event \<Rightarrow> transport \<Rightarrow> transport"
  capacity_available :: "transport \<Rightarrow> transport"

fun PRIORITY_ORDER :: "message_priority \<Rightarrow> nat" where
  "PRIORITY_ORDER Safety = 0"
| "PRIORITY_ORDER Task = 1"
| "PRIORITY_ORDER Request = 2"
| "PRIORITY_ORDER LiveState = 3"
| "PRIORITY_ORDER Resource = 4"
| "PRIORITY_ORDER ObjectContent = 5"

fun DEADLINE_MS :: "message_priority \<Rightarrow> int" where
  "DEADLINE_MS Safety = 15000"
| "DEADLINE_MS Task = 15000"
| "DEADLINE_MS Request = 30000"
| "DEADLINE_MS LiveState = 30000"
| "DEADLINE_MS Resource = 30000"
| "DEADLINE_MS ObjectContent = 5 * 60000"

fun RETRY_MS :: "message_priority \<Rightarrow> int" where
  "RETRY_MS Safety = 5000"
| "RETRY_MS Task = 5000"
| "RETRY_MS Request = 10000"
| "RETRY_MS LiveState = 10000"
| "RETRY_MS Resource = 10000"
| "RETRY_MS ObjectContent = 15000"

definition OPERATION_RESULT_LIMIT :: nat where "OPERATION_RESULT_LIMIT = 4096"
definition COMMITTED_OPERATION_ID_LIMIT :: nat where "COMMITTED_OPERATION_ID_LIMIT = 4096"
definition TASK_RESERVATION_LIMIT :: nat where "TASK_RESERVATION_LIMIT = 8192"
definition COMMITTED_OPERATION_ID_RETENTION_MS :: int where "COMMITTED_OPERATION_ID_RETENTION_MS = 10 * 60000"
definition SETTLED_INBOUND_LIMIT :: nat where "SETTLED_INBOUND_LIMIT = 4096"
definition TASK_DELIVERY_FENCE_LIMIT :: nat where "TASK_DELIVERY_FENCE_LIMIT = 4096"

subsection \<open>Clock, identifiers, store and events\<close>

definition schedule :: "rat \<Rightarrow> timer_callback \<Rightarrow> transport \<Rightarrow> nat \<times> transport" where
  "schedule delay callback s =
     (nextTimer s, s\<lparr>timers := timers s @ [(nextTimer s, rat_of_int (time s) + delay, callback)], nextTimer := nextTimer s + 1\<rparr>)"

definition cancel_timer :: "nat option \<Rightarrow> transport \<Rightarrow> transport" where
  "cancel_timer h s = (case h of None \<Rightarrow> s | Some i \<Rightarrow> s\<lparr>timers := filter (\<lambda>t. fst t \<noteq> i) (timers s)\<rparr>)"

definition fresh_id :: "transport_env \<Rightarrow> transport \<Rightarrow> jstring \<times> transport" where
  "fresh_id tx s = (createID tx (idCount s), s\<lparr>idCount := idCount s + 1\<rparr>)"

definition change :: "nat \<Rightarrow> (outbound \<Rightarrow> outbound) \<Rightarrow> transport \<Rightarrow> transport" where
  "change a f s = s\<lparr>store := (store s)(a := f (store s a))\<rparr>"

definition measure_by :: "(link_metrics \<Rightarrow> link_metrics) \<Rightarrow> transport \<Rightarrow> transport" where
  "measure_by f s = s\<lparr>mutableMetrics := f (mutableMetrics s)\<rparr>"

definition count_duplicate :: "transport \<Rightarrow> transport" where
  "count_duplicate s = measure_by (\<lambda>m. m\<lparr>duplicate_packets_suppressed := duplicate_packets_suppressed m + 1\<rparr>) s"

definition emit_event :: "transport_env \<Rightarrow> transport_event \<Rightarrow> transport \<Rightarrow> transport" where
  "emit_event tx e s = listen tx e (s\<lparr>emitted := emitted s @ [e]\<rparr>)"

definition removeAll_queue :: "nat \<Rightarrow> transport \<Rightarrow> transport" where
  "removeAll_queue a s = s\<lparr>queue := filter (\<lambda>x. x \<noteq> a) (queue s)\<rparr>"

definition observeTiming :: "timing_metric \<Rightarrow> int \<Rightarrow> timing_metric" where
  "observeTiming m duration =
     \<lparr>tm_samples = tm_samples m + 1, tm_total_ms = tm_total_ms m + duration, tm_maximum_ms = max (tm_maximum_ms m) duration\<rparr>"

definition recordOperationTiming :: "nat \<Rightarrow> transport \<Rightarrow> transport" where
  "recordOperationTiming a s =
     (let p = fr_priority (ob_identity (store s a)) in
      measure_by (\<lambda>m. m\<lparr>operation_latency_ms_by_priority := (operation_latency_ms_by_priority m)(p :=
        observeTiming (operation_latency_ms_by_priority m p) (time s - ob_queuedAt (store s a)))\<rparr>) s)"

subsection \<open>Single values\<close>

fun message_type_name :: "link_message_type \<Rightarrow> string" where
  "message_type_name StateMessage = ''state''"
| "message_type_name TaskDeliveryMessage = ''task_delivery''"
| "message_type_name TaskReportMessage = ''task_report''"
| "message_type_name DataRequestMessage = ''data_request''"
| "message_type_name DataResponseMessage = ''data_response''"
| "message_type_name ResourceOperationMessage = ''resource_operation''"
| "message_type_name SubscriptionMessage = ''subscription''"
| "message_type_name ObjectContentMessage = ''object_content''"
| "message_type_name ControlMessage = ''control''"

definition message_types :: "link_message_type list" where
  "message_types = [StateMessage, TaskDeliveryMessage, TaskReportMessage, DataRequestMessage, DataResponseMessage, ResourceOperationMessage,
     SubscriptionMessage, ObjectContentMessage, ControlMessage]"

definition is_type :: "fields \<Rightarrow> link_message_type \<Rightarrow> bool" where
  "is_type message t \<longleftrightarrow> field_is message ''type'' (message_type_name t)"

definition type_of_message :: "fields \<Rightarrow> link_message_type" where
  "type_of_message message = (case find (is_type message) message_types of Some t \<Rightarrow> t | None \<Rightarrow> ControlMessage)"

definition sameOptionalNode :: "link_node option \<Rightarrow> link_node option \<Rightarrow> bool" where
  "sameOptionalNode left right =
     (case left of None \<Rightarrow> right = None | Some l \<Rightarrow> (case right of None \<Rightarrow> False | Some r \<Rightarrow> sameNode l r))"

definition addressed_to :: "frame_identity \<Rightarrow> link_node \<Rightarrow> bool" where
  "addressed_to identity n \<longleftrightarrow> (case fr_destination identity of None \<Rightarrow> False | Some d \<Rightarrow> sameNode d n)"

definition operationIDFor :: "transport_env \<Rightarrow> fields \<Rightarrow> link_node option \<Rightarrow> transport \<Rightarrow> jstring \<times> transport" where
  "operationIDFor tx message dest s =
     (if is_type message DataResponseMessage \<or> is_type message ObjectContentMessage then
        (case dest of
           None \<Rightarrow> (the_string (field_of message ''request_id''), s)
         | Some d \<Rightarrow> (role_name (node_role d) @ js_lit '':'' @ node_id d @ js_lit '':'' @ the_string (field_of message ''request_id''), s))
      else if is_type message DataRequestMessage then (the_string (field_of message ''request_id''), s)
      else if is_type message ControlMessage then (the_string (field_of message ''operation_id''), s)
      else if is_type message StateMessage \<and> truthy (field_of message ''operation_id'')
      then (the_string (field_of message ''operation_id''), s)
      else fresh_id tx s)"

definition wireOperationIDFor :: "fields \<Rightarrow> jstring \<Rightarrow> jstring" where
  "wireOperationIDFor message operationID =
     (if is_type message DataResponseMessage \<or> is_type message ObjectContentMessage
      then the_string (field_of message ''request_id'') else operationID)"

definition dataRequestID :: "outbound \<Rightarrow> jstring option" where
  "dataRequestID o1 = (if is_type (ob_message o1) DataRequestMessage then Some (the_string (field_of (ob_message o1) ''request_id'')) else None)"

definition outboundDeadlineMs :: "fields \<Rightarrow> message_priority \<Rightarrow> int" where
  "outboundDeadlineMs message priority =
     (if is_type message DataRequestMessage \<and> field_is message ''operation'' ''object.content'' then DEADLINE_MS ObjectContent
      else DEADLINE_MS priority)"

definition validStateSource :: "fields \<Rightarrow> link_node \<Rightarrow> bool" where
  "validStateSource message source =
     (if \<not> is_type message StateMessage \<or> node_role source \<noteq> AssetRole then True
      else if field_is message ''resource_type'' ''task'' then False
      else field_is message ''path'' ''field'' \<and> isOneOf (field_of message ''confirmation'') [''awaiting_core'', ''not_required''])"

definition isConfirmedControl :: "outbound \<Rightarrow> bool" where
  "isConfirmedControl o1 \<longleftrightarrow> is_type (ob_message o1) ControlMessage \<and> field_is (ob_message o1) ''control'' ''confirmed''"

definition positiveBoundedInteger :: "int \<Rightarrow> int \<Rightarrow> int \<Rightarrow> int result" where
  "positiveBoundedInteger v lo hi =
     (if \<not> is_safe_integer v \<or> v < lo \<or> hi < v then Inl (RangeError ''must be an integer from minimum through maximum'') else Inr v)"

definition isCountedOutcome :: "operation_status \<Rightarrow> bool" where
  "isCountedOutcome status \<longleftrightarrow> status \<noteq> Queued"

fun asErrorMessage :: "js_error \<Rightarrow> string" where
  "asErrorMessage (TypeError m) = m"
| "asErrorMessage (RangeError m) = m"
| "asErrorMessage (PlainError m) = m"

definition decimal_text :: "int \<Rightarrow> jstring" where
  "decimal_text i = js_lit (int_text i)"

definition inboundSettlementID :: "transport_env \<Rightarrow> frame_identity \<Rightarrow> jstring" where
  "inboundSettlementID tx identity =
     settlement_digest tx (textEncode (role_name (node_role (fr_source identity))) @ [0] @ textEncode (node_id (fr_source identity)) @ [0] @
       textEncode (decimal_text (fr_source_generation identity)) @ [0] @ textEncode (fr_service_session identity) @ [0] @
       textEncode (fr_operation_id identity))"

definition reassembly_key :: "frame_identity \<Rightarrow> jstring" where
  "reassembly_key i = node_key (fr_source i) @ js_lit '':'' @ decimal_text (fr_source_generation i) @ js_lit '':'' @ fr_service_session i @
     js_lit '':'' @ fr_message_id i"

definition delta_identity_of :: "frame_identity \<Rightarrow> delta_identity" where
  "delta_identity_of i = \<lparr>source_role = role_name (node_role (fr_source i)), source_id = node_id (fr_source i),
     source_generation = fr_source_generation i, service_session = fr_service_session i, source_sequence = fr_source_sequence i\<rparr>"

definition sameFrameSet :: "reassembly \<Rightarrow> link_frame \<Rightarrow> bool" where
  "sameFrameSet r frame \<longleftrightarrow>
     (let i = ra_identity r; f = frame_identity_of frame in
      ra_chunkCount r = chunk_count frame \<and> fr_message_type i = fr_message_type f \<and> sameNode (fr_source i) (fr_source f) \<and>
      sameOptionalNode (fr_destination i) (fr_destination f) \<and> fr_source_generation i = fr_source_generation f \<and>
      fr_service_session i = fr_service_session f \<and> fr_source_sequence i = fr_source_sequence f \<and>
      fr_operation_id i = fr_operation_id f \<and> fr_priority i = fr_priority f)"

text \<open>\<^verbatim>\<open>joinChunks\<close>; \<open>None\<close> is its exception.\<close>

definition joinChunks :: "reassembly \<Rightarrow> bytes option" where
  "joinChunks r =
     (let ordered = map (\<lambda>i. js_get (ra_chunks r) (int i)) [0 ..< nat (ra_chunkCount r)]
      in if None \<in> set ordered then None else Some (concat (map the ordered)))"

definition output_id :: "json option \<Rightarrow> string \<Rightarrow> json option" where
  "output_id out name = (case out of Some j \<Rightarrow> state_field j name | None \<Rightarrow> None)"

definition responseMatchesRequest :: "transport_env \<Rightarrow> fields \<Rightarrow> fields \<Rightarrow> bool" where
  "responseMatchesRequest tx request response =
     (let out = field_of response ''output''; target = field_of request ''target_id''; op = field_of request ''operation'';
          sdk = penv_sdk (tx_picture tx) in
      if is_type response ObjectContentMessage
      then field_is request ''operation'' ''object.content'' \<and> field_of response ''object_id'' = target
      else if field_of response ''operation'' \<noteq> op then False
      else if op_in op [''entity.history'', ''entity.trail''] then
        (if op_in op [''entity.history''] then response_valid tx ''movementHistoryResponseValidator'' request out
         else response_valid tx ''movementTrailResponseValidator'' request out)
      else if op_in op [''entity.inspect_movement''] then response_valid tx ''movementInspectionResponseValidator'' request out
      else if op_in op [''entity.get''] then sdk_is sdk ''isEntityResource'' out \<and> output_id out ''entity_id'' = target
      else if op_in op [''task.get''] then sdk_is sdk ''isTaskResource'' out \<and> output_id out ''task_id'' = target
      else if op_in op [''object.get''] then sdk_is sdk ''isObjectDetailResource'' out \<and> output_id out ''object_id'' = target
      else if op_in op [''runtime.tasks''] then sdk_is sdk ''isRuntimeTaskDeliveryResponse'' out \<and>
        list_all (\<lambda>task. state_field task ''asset_id'' = target) (elements (output_id out ''tasks''))
      else if op_in op [''object.content''] then False
      else if op_in op [''query.changed_since''] then response_valid tx ''changedSinceResponseValidator'' request out
      else True)"

definition responseMatchesMutation :: "transport_env \<Rightarrow> fields \<Rightarrow> fields \<Rightarrow> bool" where
  "responseMatchesMutation tx request response =
     (let out = field_of response ''output''; target = field_of request ''target_id''; op = field_of request ''operation'';
          sdk = penv_sdk (tx_picture tx) in
      if field_of response ''operation'' \<noteq> op then False
      else if op_in op [''entity.import_movement''] then
        sdk_is sdk ''isMovementHistoryBatchRequest'' (field_of request ''input'') \<and> response_valid tx ''movementImportResponseValidator'' request out
      else if op_in op [''entity.update''] then sdk_is sdk ''isEntityResource'' out \<and> output_id out ''entity_id'' = target
      else if op_in op [''entity.check_in''] then sdk_is sdk ''isEntityCheckInResponse'' out \<and>
        (case output_id out ''entity'' of Some e \<Rightarrow> state_field e ''entity_id'' | None \<Rightarrow> None) = target
      else if op_in op [''task.acknowledge'', ''task.start'', ''task.progress'', ''task.complete'', ''task.fail'', ''task.cancel''] then
        sdk_is sdk ''isTaskResource'' out \<and> output_id out ''task_id'' = target
      else if op_in op [''object.update''] then sdk_is sdk ''isObjectDetailResource'' out \<and> output_id out ''object_id'' = target
      else True)"

subsection \<open>Bookkeeping of operations\<close>

definition confirmedCount :: "transport \<Rightarrow> nat" where
  "confirmedCount s =
     length (remdups (map snd (outboundByOperation s) @ map snd (pendingDataRequests s) @ map snd (responseOperations s)))"

definition outboundOccupancy :: "transport \<Rightarrow> nat" where
  "outboundOccupancy s =
     length (remdups (queue s @ map snd (outboundByOperation s) @ (case activeOutbound s of None \<Rightarrow> [] | Some a \<Rightarrow> [a])))"

definition operationIsPending :: "transport \<Rightarrow> jstring \<Rightarrow> bool" where
  "operationIsPending s i \<longleftrightarrow> js_has (outboundByOperation s) i \<or> js_has (responseOperations s) i \<or>
     (\<exists>a \<in> set (map snd (pendingDataRequests s)). ob_operationID (store s a) = i)"

definition removable_result :: "transport \<Rightarrow> jstring option" where
  "removable_result s = map_option fst (find (\<lambda>(i, r). or_status r \<noteq> Queued \<and> \<not> operationIsPending s i) (operationResults s))"

definition forget_result :: "jstring \<Rightarrow> transport \<Rightarrow> transport" where
  "forget_result i s = s\<lparr>operationResults := js_delete i (operationResults s),
     intermediateResponseConfirmations := filter (\<lambda>x. x \<noteq> i) (intermediateResponseConfirmations s),
     responseOperations := js_delete i (responseOperations s)\<rparr>"

text \<open>The eviction loop of \<^verbatim>\<open>recordOperation\<close>: each turn removes one result, so as many turns as there are results are enough.\<close>

fun prune_results :: "nat \<Rightarrow> transport \<Rightarrow> transport" where
  "prune_results 0 s = s"
| "prune_results (Suc n) s =
     (if length (operationResults s) \<le> OPERATION_RESULT_LIMIT then s
      else (case removable_result s of None \<Rightarrow> s | Some i \<Rightarrow> prune_results n (forget_result i s)))"

definition recordOperation :: "operation_result \<Rightarrow> jstring \<Rightarrow> transport \<Rightarrow> transport" where
  "recordOperation result key s =
     (let prev = js_get (operationResults s) key;
          wasIntermediate = (prev \<noteq> None \<and> or_status (the prev) = ConfirmedStatus \<and> key \<in> set (intermediateResponseConfirmations s));
          tally = (\<lambda>s. measure_by (\<lambda>m. m\<lparr>operation_outcomes := (operation_outcomes m)(or_status result := operation_outcomes m (or_status result) + 1)\<rparr>) s);
          s = (if isCountedOutcome (or_status result) \<and> or_status result \<noteq> ConfirmedStatus \<and>
                  (prev = None \<or> \<not> isCountedOutcome (or_status (the prev)) \<or> wasIntermediate)
               then (tally s)\<lparr>intermediateResponseConfirmations := filter (\<lambda>x. x \<noteq> key) (intermediateResponseConfirmations s)\<rparr>
               else if or_status result = ConfirmedStatus \<and> key \<notin> set (intermediateResponseConfirmations s) \<and>
                  (prev = None \<or> \<not> isCountedOutcome (or_status (the prev))) then tally s
               else s);
          s = s\<lparr>operationResults := js_set key result (operationResults s)\<rparr>
      in prune_results (length (operationResults s)) s)"

definition emitCapacityAvailable :: "transport_env \<Rightarrow> transport \<Rightarrow> transport" where
  "emitCapacityAvailable tx s = capacity_available tx s"

text \<open>The loop of \<^verbatim>\<open>pruneCommittedOperationIDs\<close> over the queue from its head.\<close>

fun prune_expired :: "int \<Rightarrow> (jstring \<times> int) list \<Rightarrow> nat \<Rightarrow> (jstring, int option) js_map \<Rightarrow> nat \<times> (jstring, int option) js_map" where
  "prune_expired t [] h ids = (h, ids)"
| "prune_expired t ((i, e) # rest) h ids =
     (if t < e then (h, ids)
      else prune_expired t rest (h + 1) (if js_get ids i = Some (Some e) then js_delete i ids else ids))"

definition pruneCommittedOperationIDs :: "transport \<Rightarrow> transport" where
  "pruneCommittedOperationIDs s =
     (let q = committedOperationExpiryQueue s;
          (h, ids) = prune_expired (time s) (drop (committedOperationExpiryQueueHead s) q) (committedOperationExpiryQueueHead s)
            (committedOperationIDs s);
          s = s\<lparr>committedOperationIDs := ids, committedOperationExpiryQueueHead := h\<rparr>
      in if h = length q then s\<lparr>committedOperationExpiryQueue := [], committedOperationExpiryQueueHead := 0\<rparr>
         else if 1024 \<le> h then s\<lparr>committedOperationExpiryQueue := drop h q, committedOperationExpiryQueueHead := 0\<rparr>
         else s)"

definition scheduleCommittedOperationExpiryWakeup :: "transport \<Rightarrow> transport" where
  "scheduleCommittedOperationExpiryWakeup s =
     (if \<not> committedOperationCapacityBlocked s \<or> stopped s then s
      else (case drop (committedOperationExpiryQueueHead s) (committedOperationExpiryQueue s) of
          [] \<Rightarrow> s
        | (_, earliest) # _ \<Rightarrow>
            if committedOperationExpiryAt s \<noteq> None \<and> the (committedOperationExpiryAt s) \<le> earliest then s
            else let s = cancel_timer (committedOperationExpiryTimer s) s;
                     (h, s) = schedule (rat_of_int (max 0 (earliest - time s))) CommittedExpiryCallback (s\<lparr>committedOperationExpiryAt := Some earliest\<rparr>)
              in s\<lparr>committedOperationExpiryTimer := Some h\<rparr>))"

definition committed_expiry_callback :: "transport_env \<Rightarrow> transport \<Rightarrow> transport" where
  "committed_expiry_callback tx s =
     emitCapacityAvailable tx ((pruneCommittedOperationIDs
       (s\<lparr>committedOperationExpiryTimer := None, committedOperationExpiryAt := None\<rparr>))\<lparr>committedOperationCapacityBlocked := False\<rparr>)"

definition retainCompletedOperation :: "jstring \<Rightarrow> transport \<Rightarrow> transport" where
  "retainCompletedOperation i s =
     (case js_get (committedOperationIDs s) i of
        None \<Rightarrow> s
      | Some _ \<Rightarrow>
          let expires = time s + COMMITTED_OPERATION_ID_RETENTION_MS;
              s = s\<lparr>committedOperationIDs := js_set i (Some expires) (committedOperationIDs s),
                committedOperationExpiryQueue := committedOperationExpiryQueue s @ [(i, expires)]\<rparr>
          in if committedOperationCapacityBlocked s then scheduleCommittedOperationExpiryWakeup s else s)"

text \<open>The loop stops at the first entry that has not expired.\<close>

definition pruneSettledInbound :: "transport \<Rightarrow> transport" where
  "pruneSettledInbound s = s\<lparr>settledInbound := dropWhile (\<lambda>(_, settled). si_expiresAt settled \<le> time s) (settledInbound s)\<rparr>"

definition recordSettledInbound :: "jstring \<Rightarrow> bool \<Rightarrow> transport \<Rightarrow> transport" where
  "recordSettledInbound i confirmed s =
     (let s = pruneSettledInbound s in
      if js_has (settledInbound s) i then s
      else if \<not> js_has (pendingInbound s) i \<and> SETTLED_INBOUND_LIMIT \<le> length (settledInbound s) + length (pendingInbound s) then s
      else s\<lparr>settledInbound := js_set i \<lparr>si_confirmed = confirmed, si_expiresAt = time s + COMMITTED_OPERATION_ID_RETENTION_MS, si_atomicTask = None\<rparr>
        (settledInbound s)\<rparr>)"

definition hasEligibleOutbound :: "transport \<Rightarrow> bool" where
  "hasEligibleOutbound s \<longleftrightarrow> (\<exists>a \<in> set (queue s). \<not> is_type (ob_message (store s a)) ObjectContentMessage \<or>
     activeObjectMessageID s = None \<or> Some (fr_message_id (ob_identity (store s a))) = activeObjectMessageID s)"

definition requestPump :: "rat \<Rightarrow> transport \<Rightarrow> transport" where
  "requestPump delay s =
     (if pumping s \<or> pumpRequested s \<or> stopped s \<or> paused s then s
      else let (h, s) = schedule delay PumpCallback (s\<lparr>pumpRequested := True\<rparr>) in s\<lparr>pumpTimer := Some h\<rparr>)"

definition resolvePauseWaiters :: "transport \<Rightarrow> transport" where
  "resolvePauseWaiters s = s\<lparr>pauseWaiters := 0\<rparr>"

definition result_of :: "jstring \<Rightarrow> operation_status \<Rightarrow> jstring option \<Rightarrow> int option \<Rightarrow> operation_result" where
  "result_of i status reason completed = \<lparr>or_operation_id = i, or_status = status, or_reason = reason, or_output = None,
     or_next_cursor = None, or_completed_at = completed\<rparr>"

definition failedResult :: "transport_env \<Rightarrow> jstring \<Rightarrow> jstring \<Rightarrow> transport \<Rightarrow> operation_result \<times> transport" where
  "failedResult tx i reason s =
     (let result = result_of i Failed (Some reason) (Some (time s))
      in (result, emit_event tx (OperationEvent result) (recordOperation result i s)))"

definition drop_operation :: "nat \<Rightarrow> transport \<Rightarrow> transport" where
  "drop_operation a s = s\<lparr>outboundByOperation := js_delete (ob_operationID (store s a)) (outboundByOperation s)\<rparr>"

definition completeOutbound :: "transport_env \<Rightarrow> nat \<Rightarrow> operation_status \<Rightarrow> jstring option \<Rightarrow> transport \<Rightarrow> transport" where
  "completeOutbound tx a status reason s =
     (let s = cancel_timer (ob_retryTimer (store s a)) s; s = cancel_timer (ob_deadlineTimer (store s a)) s;
          s = drop_operation a s; i = ob_operationID (store s a);
          s = (case dataRequestID (store s a) of
              None \<Rightarrow> s
            | Some r \<Rightarrow> if js_get (pendingDataRequests s) r = Some a then s\<lparr>pendingDataRequests := js_delete r (pendingDataRequests s)\<rparr> else s);
          s = (if status \<noteq> ConfirmedStatus then s\<lparr>responseOperations := js_delete i (responseOperations s)\<rparr> else s);
          s = removeAll_queue a s;
          released = (activeObjectMessageID s = Some (fr_message_id (ob_identity (store s a))));
          s = (if released then s\<lparr>activeObjectMessageID := None\<rparr> else s);
          result = result_of i status reason (Some (time s));
          s = emit_event tx (OperationEvent result) (recordOperation result i (recordOperationTiming a (retainCompletedOperation i s)))
      in if released \<and> hasEligibleOutbound s then requestPump 0 s else s)"

definition failBestEffort :: "transport_env \<Rightarrow> nat \<Rightarrow> jstring \<Rightarrow> transport \<Rightarrow> transport" where
  "failBestEffort tx a reason s =
     (let s = removeAll_queue a s;
          s = (if activeObjectMessageID s = Some (fr_message_id (ob_identity (store s a))) then s\<lparr>activeObjectMessageID := None\<rparr> else s);
          i = ob_operationID (store s a); result = result_of i Failed (Some reason) (Some (time s))
      in emit_event tx (OperationEvent result) (recordOperation result i (recordOperationTiming a s)))"

definition replaceable :: "jstring option \<Rightarrow> transport \<Rightarrow> nat \<Rightarrow> bool" where
  "replaceable key s a \<longleftrightarrow> \<not> ob_started (store s a) \<and> ob_delivery (store s a) = BestEffort \<and> ob_coalescingKey (store s a) = key"

definition replaceQueuedBestEffort :: "transport_env \<Rightarrow> jstring option \<Rightarrow> transport \<Rightarrow> transport" where
  "replaceQueuedBestEffort tx key s =
     (case find (replaceable key s) (queue s) of
        None \<Rightarrow> s
      | Some a \<Rightarrow>
          let s = removeAll_queue a s; i = ob_operationID (store s a);
              result = result_of i Failed (Some (js_lit ''replaced by newer unsent state'')) (Some (time s));
              s = emit_event tx (OperationEvent result) (recordOperation result i s)
          in measure_by (\<lambda>m. m\<lparr>best_effort_replaced := best_effort_replaced m + 1\<rparr>) s)"

subsection \<open>Submitting\<close>

datatype outbound_preparation = ReadyOutbound outbound nat bool | ExistingResult operation_result |
  FailedPreparation jstring jstring bool | ThrownPreparation js_error

record capacity_reservation =
  additionalOutbound :: nat
  pendingInboundDelta :: int
  additionalConfirmed :: nat

definition outboundIdentity ::
    "transport_env \<Rightarrow> fields \<Rightarrow> link_node option \<Rightarrow> jstring \<Rightarrow> int \<Rightarrow> transport \<Rightarrow> frame_identity \<times> transport" where
  "outboundIdentity tx message dest operationID seq s =
     (let (m, s) = fresh_id tx s in
      (\<lparr>fr_revision = 1, fr_message_type = type_of_message message, fr_source = node s, fr_destination = dest,
        fr_source_generation = sourceGeneration s, fr_service_session = serviceSession s, fr_source_sequence = seq,
        fr_operation_id = wireOperationIDFor message operationID, fr_message_id = m, fr_receipt = None,
        fr_priority = messagePriority message\<rparr>, s))"

definition ordinary_encoding :: "frame_encoding \<Rightarrow> frame_encoding" where
  "ordinary_encoding e = (if e = DeflateV3 then DeflateV2 else e)"

definition serialize :: "transport_env \<Rightarrow> fields \<Rightarrow> bytes result" where
  "serialize tx message = serializeLinkMessage (env_sdk (tx_delta tx)) (env_text (tx_delta tx)) (JObject message)"

text \<open>The framing: the full payload, or a smaller state delta; with what commits the baseline once the full payload was sent.\<close>

definition frame_message ::
    "transport_env \<Rightarrow> fields \<Rightarrow> bytes \<Rightarrow> frame_identity \<Rightarrow> send_options \<Rightarrow> transport \<Rightarrow> (bytes list \<times> prepared option) result" where
  "frame_message tx message payload identity options s =
     (let limit = radio_limit tx options; encoding = ordinary_encoding (frameEncoding s) in
      bind_result (fragmentPayload (tx_codec tx) payload identity limit encoding) (\<lambda>frames.
        case stateEncoder s of
          None \<Rightarrow> Inr (frames, None)
        | Some enc \<Rightarrow>
            if \<not> is_type message StateMessage then Inr (frames, None)
            else bind_result (prepare (tx_delta tx) enc (JObject message) (delta_identity_of identity) (Some (time s))) (\<lambda>prep.
              case deltaPayload prep of
                None \<Rightarrow> Inr (frames, Some prep)
              | Some delta \<Rightarrow>
                  (case fragmentPayload (tx_codec tx) delta identity limit encoding of
                     Inl _ \<Rightarrow> Inr (frames, Some prep)
                   | Inr deltaFrames \<Rightarrow>
                       if length deltaFrames \<le> length frames \<and> total_bytes deltaFrames < total_bytes frames
                       then Inr (deltaFrames, None) else Inr (frames, Some prep)))))"

definition frame_outbound ::
    "transport_env \<Rightarrow> fields \<Rightarrow> jstring \<Rightarrow> delivery_class \<Rightarrow> frame_identity \<Rightarrow> bytes \<Rightarrow> bool \<Rightarrow> int option \<Rightarrow> capacity_reservation \<Rightarrow> bool \<Rightarrow>
     transport \<Rightarrow> outbound_preparation \<times> transport" where
  "frame_outbound tx message operationID delivery identity payload useInboundReservation radioRequestID capacity replacesFailed s =
     (let replaceKey = coalescingKey message;
          options = \<lparr>so_channel = privateChannel s, so_priority = fr_priority identity, so_request_id = radioRequestID\<rparr> in
      case frame_message tx message payload identity options s of
        Inl e \<Rightarrow> (FailedPreparation operationID (js_lit (''Link framing failed: '' @ asErrorMessage e)) False, s)
      | Inr (frames, commit) \<Rightarrow>
          let replaces = (delivery = BestEffort \<and> replaceKey \<noteq> None \<and> (\<exists>a \<in> set (queue s). replaceable replaceKey s a));
              finalOccupancy = int (outboundOccupancy s) + int (additionalOutbound capacity) - (if replaces then 1 else 0);
              finalPendingInbound = int (length (pendingInbound s)) + pendingInboundDelta capacity
          in if (if useInboundReservation then queueLimit s + confirmedLimit s \<le> outboundOccupancy s
                 else int (queueLimit s) < finalOccupancy + finalPendingInbound)
             then (FailedPreparation operationID (js_lit ''outbound queue capacity is exhausted'') False, s)
             else (ReadyOutbound \<lparr>ob_message = message, ob_operationID = operationID, ob_identity = identity, ob_frames = frames,
                 ob_pendingChunks = [0 ..< length frames], ob_delivery = delivery, ob_coalescingKey = replaceKey, ob_retryTimer = None,
                 ob_deadlineTimer = None, ob_started = False, ob_order = nextOutboundOrder s, ob_queuedAt = time s, ob_firstSentAt = None,
                 ob_rttAmbiguous = False, ob_chunkSendCounts = replicate (length frames) 0, ob_retrySequence = 0, ob_sendOptions = options,
                 ob_commitStateBaseline = commit\<rparr> (length payload) replacesFailed,
               s\<lparr>nextOutboundOrder := nextOutboundOrder s + 1\<rparr>))"

text \<open>The checks of \<^verbatim>\<open>prepareOutbound\<close> before the message is encoded: \<open>None\<close> means that it goes on.\<close>

definition admit_operation ::
    "fields \<Rightarrow> link_node option \<Rightarrow> jstring \<Rightarrow> capacity_reservation \<Rightarrow> frame_identity option \<Rightarrow> transport \<Rightarrow> outbound_preparation option \<times> transport" where
  "admit_operation message dest operationID capacity reservedIdentity s =
     (let delivery = deliveryClass message; failure = (\<lambda>reason overload. Some (FailedPreparation operationID (js_lit reason) overload)) in
      if stopped s then (failure ''link service is stopped'' False, s)
      else if \<not> validStateSource message (node s) then
        (failure (if is_type message StateMessage \<and> field_is message ''resource_type'' ''task''
           then ''Assets must publish Task lifecycle reports instead of Task state''
           else ''Asset state must use the field path without claiming Core authority'') False, s)
      else if delivery = Confirmed \<and> dest = None then (failure ''confirmed operations require a destination'' False, s)
      else if \<not> non_blank operationID then (Some (ThrownPreparation (TypeError ''operation ID must not be blank'')), s)
      else if is_type message DataRequestMessage \<and> field_of message ''request_id'' \<noteq> Some (JString operationID) then
        (failure ''Data request operation ID must match its request ID'' False, s)
      else let s = pruneCommittedOperationIDs s; existing = js_get (operationResults s) operationID in
        if js_has (reservedTaskIDs s) operationID \<and> js_get (reservedTaskIDs s) operationID \<noteq> reservedIdentity
        then (failure ''operation ID is reserved for queued Task delivery'' False, s)
        else if existing \<noteq> None \<and> (or_status (the existing) \<noteq> Failed \<or> js_has (committedOperationIDs s) operationID)
        then (Some (ExistingResult (the existing)), s)
        else if js_has (committedOperationIDs s) operationID
        then (failure ''operation ID was already committed in this Link service session'' False, s)
        else if delivery = Confirmed \<and> COMMITTED_OPERATION_ID_LIMIT < length (committedOperationIDs s) + additionalConfirmed capacity
        then (failure ''confirmed operation identity capacity is exhausted'' True,
          scheduleCommittedOperationExpiryWakeup (s\<lparr>committedOperationCapacityBlocked := True\<rparr>))
        else if is_type message DataRequestMessage \<and> js_has (pendingDataRequests s) (the_string (field_of message ''request_id''))
        then (failure ''data request ID is already pending'' False, s)
        else if delivery = Confirmed \<and> confirmedLimit s < confirmedCount s + additionalConfirmed capacity
        then (failure ''confirmed operation capacity is exhausted'' True, s)
        else (None, s))"

definition default_capacity :: "fields \<Rightarrow> capacity_reservation" where
  "default_capacity message = \<lparr>additionalOutbound = 1, pendingInboundDelta = 0,
     additionalConfirmed = (if deliveryClass message = Confirmed then 1 else 0)\<rparr>"

definition prepareOutbound ::
    "transport_env \<Rightarrow> fields \<Rightarrow> link_node option \<Rightarrow> jstring option \<Rightarrow> bool \<Rightarrow> int option \<Rightarrow> capacity_reservation \<Rightarrow> int \<Rightarrow> frame_identity option \<Rightarrow>
     transport \<Rightarrow> outbound_preparation \<times> transport" where
  "prepareOutbound tx message dest givenID useInboundReservation radioRequestID capacity seq reservedIdentity s =
     (let (operationID, s) = (case givenID of Some i \<Rightarrow> (i, s) | None \<Rightarrow> operationIDFor tx message dest s);
          (refusal, s) = admit_operation message dest operationID capacity reservedIdentity s
      in case refusal of
           Some r \<Rightarrow> (r, s)
         | None \<Rightarrow>
             (case serialize tx message of
                Inl e \<Rightarrow> (FailedPreparation operationID (js_lit (''Radio contract encoding failed: '' @ asErrorMessage e)) False, s)
              | Inr payload \<Rightarrow>
                  let (identity, s) = (case reservedIdentity of
                      Some i \<Rightarrow> (i, s) | None \<Rightarrow> outboundIdentity tx message dest operationID seq s)
                  in frame_outbound tx message operationID (deliveryClass message) identity payload useInboundReservation radioRequestID capacity
                    (js_has (operationResults s) operationID) s))"

text \<open>The first part of \<^verbatim>\<open>commitOutbound\<close>: the message becomes an object of the queue.\<close>

definition enqueue_outbound :: "transport_env \<Rightarrow> outbound \<Rightarrow> bool \<Rightarrow> transport \<Rightarrow> nat \<times> transport" where
  "enqueue_outbound tx o1 replacesFailed s =
     (let i = ob_operationID o1;
          s = (if replacesFailed then s\<lparr>operationResults := js_delete i (operationResults s)\<rparr> else s);
          s = s\<lparr>sourceSequence := max (sourceSequence s) (fr_source_sequence (ob_identity o1))\<rparr>;
          s = (if ob_delivery o1 = BestEffort \<and> ob_coalescingKey o1 \<noteq> None then replaceQueuedBestEffort tx (ob_coalescingKey o1) s else s)
      in (nextAddress s, s\<lparr>store := (store s)(nextAddress s := o1), nextAddress := nextAddress s + 1,
           reservedTaskIDs := js_delete i (reservedTaskIDs s), queue := queue s @ [nextAddress s]\<rparr>))"

text \<open>What a confirmed message is known by until it is settled, and its deadline.\<close>

definition track_confirmed :: "outbound \<Rightarrow> nat \<Rightarrow> transport \<Rightarrow> transport" where
  "track_confirmed o1 a s =
     (let i = ob_operationID o1;
          s = s\<lparr>committedOperationIDs := js_set i None (committedOperationIDs s), outboundByOperation := js_set i a (outboundByOperation s)\<rparr>;
          s = (if is_type (ob_message o1) DataRequestMessage
            then s\<lparr>pendingDataRequests := js_set (the_string (field_of (ob_message o1) ''request_id'')) a (pendingDataRequests s)\<rparr> else s);
          s = (if is_type (ob_message o1) ResourceOperationMessage then s\<lparr>responseOperations := js_set i a (responseOperations s)\<rparr> else s);
          (h, s) = schedule (rat_of_int (outboundDeadlineMs (ob_message o1) (fr_priority (ob_identity o1)))) (DeadlineCallback a) s
      in change a (\<lambda>x. x\<lparr>ob_deadlineTimer := Some h\<rparr>) s)"

definition commitOutbound :: "transport_env \<Rightarrow> outbound \<Rightarrow> nat \<Rightarrow> bool \<Rightarrow> bool \<Rightarrow> bool \<Rightarrow> transport \<Rightarrow> operation_result \<times> transport" where
  "commitOutbound tx o1 payloadLength replacesFailed withPump withRecord s =
     (case enqueue_outbound tx o1 replacesFailed s of (a, s) \<Rightarrow>
       let s = (if ob_delivery o1 = Confirmed then track_confirmed o1 a s else s);
           s = measure_by (\<lambda>m. m\<lparr>application_bytes := application_bytes m + payloadLength,
             peak_queue_depth := max (peak_queue_depth m) (length (queue s))\<rparr>) s;
           result = result_of (ob_operationID o1) Queued None None;
           s = (if withRecord then recordOperation result (ob_operationID o1) s else s)
       in (result, if withPump then requestPump 0 s else s))"

definition submitWithCapacity ::
    "transport_env \<Rightarrow> fields \<Rightarrow> link_node option \<Rightarrow> jstring option \<Rightarrow> bool \<Rightarrow> int option \<Rightarrow> frame_identity option \<Rightarrow> transport \<Rightarrow>
     (transport, operation_result) effect" where
  "submitWithCapacity tx message dest givenID useInboundReservation radioRequestID reservedIdentity s =
     (let seq = (case reservedIdentity of Some i \<Rightarrow> fr_source_sequence i | None \<Rightarrow> sourceSequence s + 1);
          (prep, s) = prepareOutbound tx message dest givenID useInboundReservation radioRequestID (default_capacity message) seq reservedIdentity s
      in case prep of
           ThrownPreparation e \<Rightarrow> (Inl e, s)
         | ExistingResult r \<Rightarrow> (Inr r, s)
         | FailedPreparation i reason overload \<Rightarrow>
             let s = (if overload then measure_by (\<lambda>m. m\<lparr>confirmed_rejected_overload := confirmed_rejected_overload m + 1\<rparr>) s else s);
                 (r, s) = failedResult tx i reason s
             in (Inr r, s)
         | ReadyOutbound o1 n replaces \<Rightarrow> (let (r, s) = commitOutbound tx o1 n replaces True True s in (Inr r, s)))"

definition submit :: "transport_env \<Rightarrow> fields \<Rightarrow> link_node option \<Rightarrow> jstring option \<Rightarrow> transport \<Rightarrow> (transport, operation_result) effect" where
  "submit tx message dest givenID s = submitWithCapacity tx message dest givenID False None None s"

text \<open>\<^verbatim>\<open>sendControl\<close>; its generated operation ID is never blank, so it does not throw.\<close>

definition sendControl :: "transport_env \<Rightarrow> link_node \<Rightarrow> fields \<Rightarrow> bool \<Rightarrow> int option \<Rightarrow> transport \<Rightarrow> operation_result option \<times> transport" where
  "sendControl tx dest message useInboundReservation radioRequestID s =
     (let (i, s) = fresh_id tx s;
          (r, s) = submitWithCapacity tx message (Some dest) (Some (js_lit ''control_'' @ i)) useInboundReservation radioRequestID None s
      in (case r of Inl _ \<Rightarrow> None | Inr x \<Rightarrow> Some x, s))"

subsection \<open>Reservations, settlement, cancellation\<close>

text \<open>\<^verbatim>\<open>reserveTaskDelivery\<close> gives the identity that its two closures capture; \<open>dispatch_reserved\<close> and \<open>cancel_reserved\<close> are the closures.\<close>

definition reserveTaskDelivery :: "transport_env \<Rightarrow> fields \<Rightarrow> link_node \<Rightarrow> jstring \<Rightarrow> transport \<Rightarrow> (transport, frame_identity) effect" where
  "reserveTaskDelivery tx message dest operationID s =
     (if stopped s then (Inl (PlainError ''link service is stopped''), s)
      else let (identity, s) = outboundIdentity tx message (Some dest) operationID (sourceSequence s + 1) s;
               options = \<lparr>so_channel = privateChannel s, so_priority = fr_priority identity, so_request_id = None\<rparr> in
        case bind_result (serialize tx message) (\<lambda>payload.
            fragmentPayload (tx_codec tx) payload identity (radio_limit tx options) (ordinary_encoding (frameEncoding s))) of
          Inl e \<Rightarrow> (Inl e, s)
        | Inr _ \<Rightarrow>
            let s = pruneCommittedOperationIDs s; existing = js_get (operationResults s) operationID in
            if js_has (reservedTaskIDs s) operationID \<or> js_has (committedOperationIDs s) operationID \<or>
               existing \<noteq> None \<and> or_status (the existing) \<noteq> Failed
            then (Inl (PlainError ''Task operation ID is already in use''), s)
            else if TASK_RESERVATION_LIMIT \<le> length (reservedTaskIDs s)
            then (Inl (RangeError ''confirmed operation identity capacity is exhausted''), s)
            else (Inr identity, s\<lparr>sourceSequence := fr_source_sequence identity,
              reservedTaskIDs := js_set operationID identity (reservedTaskIDs s)\<rparr>))"

definition dispatch_reserved ::
    "transport_env \<Rightarrow> fields \<Rightarrow> link_node \<Rightarrow> jstring \<Rightarrow> frame_identity \<Rightarrow> bool \<Rightarrow> transport \<Rightarrow> (transport, operation_result) effect" where
  "dispatch_reserved tx message dest operationID identity cancelled s =
     (if cancelled then (Inr (result_of operationID Failed (Some (js_lit ''Task reservation was cancelled'')) (Some (time s))), s)
      else submitWithCapacity tx message (Some dest) (Some operationID) False None (Some identity) s)"

definition cancel_reserved :: "jstring \<Rightarrow> frame_identity \<Rightarrow> transport \<Rightarrow> bool \<times> transport" where
  "cancel_reserved operationID identity s =
     (if js_get (reservedTaskIDs s) operationID \<noteq> Some identity then (False, s)
      else (True, s\<lparr>reservedTaskIDs := js_delete operationID (reservedTaskIDs s)\<rparr>))"

definition control_message :: "string \<Rightarrow> jstring \<Rightarrow> jstring \<Rightarrow> fields" where
  "control_message control operationID messageID =
     [lit ''type'' ''control'', lit ''control'' control, (js_lit ''operation_id'', JString operationID), (js_lit ''message_id'', JString messageID)]"

definition with_reason :: "jstring option \<Rightarrow> fields \<Rightarrow> fields" where
  "with_reason reason m = m @ json_field ''reason'' (map_option JString reason)"

definition forget_pending :: "jstring \<Rightarrow> transport \<Rightarrow> transport" where
  "forget_pending i s = s\<lparr>pendingInbound := js_delete i (pendingInbound s)\<rparr>"

definition settleInbound :: "transport_env \<Rightarrow> jstring \<Rightarrow> bool \<Rightarrow> jstring option \<Rightarrow> transport \<Rightarrow> bool \<times> transport" where
  "settleInbound tx i accepted reason s =
     (case js_get (pendingInbound s) i of
        None \<Rightarrow> (False, s)
      | Some pending \<Rightarrow>
          let (result, s) = sendControl tx (pi_source pending)
                (with_reason reason (control_message (if accepted then ''confirmed'' else ''rejected'') (pi_operationID pending) (pi_messageID pending)))
                True (pi_radioPacketID pending) s
          in if result = None \<or> or_status (the result) = Failed then (False, s)
             else (True, cancel_timer (Some (pi_timer pending)) (forget_pending i (recordSettledInbound i accepted s))))"

definition failedAtomicTaskSettlement :: "jstring \<Rightarrow> jstring \<Rightarrow> string \<Rightarrow> transport \<Rightarrow> atomic_settlement" where
  "failedAtomicTaskSettlement receiptID reportID reason s =
     \<lparr>as_accepted = False, as_receipt = result_of receiptID Failed (Some (js_lit reason)) (Some (time s)),
      as_report = result_of reportID Failed (Some (js_lit reason)) (Some (time s))\<rparr>"

definition refuse_settlement :: "jstring \<Rightarrow> jstring \<Rightarrow> string \<Rightarrow> transport \<Rightarrow> atomic_settlement \<times> transport" where
  "refuse_settlement receiptID reportID reason s = (failedAtomicTaskSettlement receiptID reportID reason s, s)"

text \<open>The two messages are prepared before either is committed; a failed preparation leaves the settlement pending.\<close>

definition commit_settlement ::
    "transport_env \<Rightarrow> jstring \<Rightarrow> jstring \<Rightarrow> pending_inbound \<Rightarrow> outbound \<times> nat \<times> bool \<Rightarrow> outbound \<times> nat \<times> bool \<Rightarrow> transport \<Rightarrow> atomic_settlement \<times> transport" where
  "commit_settlement tx i fingerprint pending receipt report s =
     (let (receiptResult, s) = commitOutbound tx (fst receipt) (fst (snd receipt)) (snd (snd receipt)) False False s;
          (reportResult, s) = commitOutbound tx (fst report) (fst (snd report)) (snd (snd report)) False False s;
          s = cancel_timer (Some (pi_timer pending)) (forget_pending i (recordSettledInbound i True s));
          s = recordOperation receiptResult (or_operation_id receiptResult) s;
          s = recordOperation reportResult (or_operation_id reportResult) s;
          outcome = \<lparr>as_accepted = True, as_receipt = receiptResult, as_report = reportResult\<rparr>;
          s = (case js_get (settledInbound s) i of
              None \<Rightarrow> s
            | Some settled \<Rightarrow> s\<lparr>settledInbound := js_set i (settled\<lparr>si_atomicTask := Some (fingerprint, outcome)\<rparr>) (settledInbound s)\<rparr>)
      in (outcome, requestPump 0 s))"

definition settleInboundWithTaskReport ::
    "transport_env \<Rightarrow> jstring \<Rightarrow> fields \<Rightarrow> link_node \<Rightarrow> jstring option \<Rightarrow> transport \<Rightarrow> atomic_settlement \<times> transport" where
  "settleInboundWithTaskReport tx i report dest givenID s =
     (let (reportID, s) = (case givenID of Some r \<Rightarrow> (r, s) | None \<Rightarrow> operationIDFor tx report None s);
          (c, s) = fresh_id tx s; receiptID = js_lit ''control_'' @ c in
      if stopped s then refuse_settlement receiptID reportID ''link service is stopped'' s
      else if \<not> isLinkMessage (env_sdk (tx_delta tx)) (Some (JObject report)) \<or> \<not> is_type report TaskReportMessage
      then refuse_settlement receiptID reportID ''atomic settlement requires a Task report'' s
      else if \<not> non_blank reportID then refuse_settlement receiptID reportID ''operation ID must not be blank'' s
      else if \<not> non_blank (node_id dest) then refuse_settlement receiptID reportID ''Task report destination is invalid'' s
      else case serialize tx report of
          Inl _ \<Rightarrow> refuse_settlement receiptID reportID ''invalid Task report encoding'' s
        | Inr payload \<Rightarrow>
            let fingerprint = report_digest tx (payload @ textEncode (stringify_strings [role_name (node_role dest), node_id dest]));
                s = pruneSettledInbound s;
                prior = (case js_get (settledInbound s) i of Some settled \<Rightarrow> si_atomicTask settled | None \<Rightarrow> None)
            in (case prior of
                Some (f, outcome) \<Rightarrow>
                  if f \<noteq> fingerprint \<or> givenID \<noteq> None \<and> or_operation_id (as_report outcome) \<noteq> the givenID
                  then refuse_settlement receiptID reportID ''settlement was already accepted with a different Task report'' s else (outcome, s)
              | None \<Rightarrow>
                  (case js_get (pendingInbound s) i of
                     None \<Rightarrow> refuse_settlement receiptID reportID ''settlement does not belong to the reported Task'' s
                   | Some pending \<Rightarrow>
                       if pi_message_type pending \<noteq> TaskDeliveryMessage \<or> pi_task_id pending \<noteq> field_of report ''task_id''
                       then refuse_settlement receiptID reportID ''settlement does not belong to the reported Task'' s
                       else if node_role (node s) \<noteq> AssetRole \<or> node_role (pi_source pending) \<noteq> GatewayRole
                       then refuse_settlement receiptID reportID ''atomic Task settlement is only valid for an Asset Task delivery'' s
                       else if \<not> sameNode dest (pi_source pending)
                       then refuse_settlement receiptID reportID ''Task report destination must match the pending Task source'' s
                       else let seq = sourceSequence s;
                           (receipt, s) = prepareOutbound tx (control_message ''confirmed'' (pi_operationID pending) (pi_messageID pending))
                             (Some (pi_source pending)) (Some receiptID) False (pi_radioPacketID pending)
                             \<lparr>additionalOutbound = 0, pendingInboundDelta = -1, additionalConfirmed = 0\<rparr> (seq + 1) None s
                         in (case receipt of
                             ReadyOutbound ro rn rr \<Rightarrow>
                               let (rep, s) = prepareOutbound tx report (Some dest) (Some reportID) False None
                                     \<lparr>additionalOutbound = 2, pendingInboundDelta = -1, additionalConfirmed = 1\<rparr> (seq + 2) None s
                               in (case rep of
                                   ReadyOutbound po pn pr \<Rightarrow> commit_settlement tx i fingerprint pending (ro, rn, rr) (po, pn, pr) s
                                 | FailedPreparation _ reason overload \<Rightarrow>
                                     let s = (if overload then measure_by (\<lambda>m. m\<lparr>confirmed_rejected_overload := confirmed_rejected_overload m + 1\<rparr>) s else s)
                                     in (\<lparr>as_accepted = False, as_receipt = result_of receiptID Failed (Some reason) (Some (time s)),
                                          as_report = result_of reportID Failed (Some reason) (Some (time s))\<rparr>, s)
                                 | _ \<Rightarrow> refuse_settlement receiptID reportID ''Task report operation identity is already tracked'' s)
                           | FailedPreparation _ reason _ \<Rightarrow>
                               (\<lparr>as_accepted = False, as_receipt = result_of receiptID Failed (Some reason) (Some (time s)),
                                 as_report = result_of reportID Failed (Some reason) (Some (time s))\<rparr>, s)
                           | _ \<Rightarrow> refuse_settlement receiptID reportID ''receipt operation identity is already tracked'' s))))"

definition cancel_target :: "transport \<Rightarrow> jstring \<Rightarrow> nat option" where
  "cancel_target s i =
     (case js_get (outboundByOperation s) i of
        Some a \<Rightarrow> Some a
      | None \<Rightarrow> (case js_get (responseOperations s) i of
          Some a \<Rightarrow> Some a
        | None \<Rightarrow> find (\<lambda>a. ob_operationID (store s a) = i) (map snd (outboundByOperation s) @ map snd (pendingDataRequests s))))"

definition cancel_operation :: "transport_env \<Rightarrow> jstring \<Rightarrow> jstring \<Rightarrow> transport \<Rightarrow> bool \<times> transport" where
  "cancel_operation tx i reason s =
     (case cancel_target s i of None \<Rightarrow> (False, s) | Some a \<Rightarrow> (True, completeOutbound tx a Failed (Some reason) s))"

subsection \<open>Source fences\<close>

definition stale_fence :: "int \<Rightarrow> jstring \<Rightarrow> source_fence \<Rightarrow> bool" where
  "stale_fence generation session current \<longleftrightarrow>
     generation < fence_generation current \<or> generation = fence_generation current \<and> session \<noteq> fence_session current"

definition checkSourceFence :: "link_node \<Rightarrow> int \<Rightarrow> jstring \<Rightarrow> transport \<Rightarrow> source_admission option \<times> transport" where
  "checkSourceFence source generation session s =
     (case js_get (sourceFences s) (node_key source) of
        Some current \<Rightarrow>
          if stale_fence generation session current
          then (Some AdmissionStaleSource, measure_by (\<lambda>m. m\<lparr>stale_messages_rejected := stale_messages_rejected m + 1\<rparr>) s)
          else (None, s)
      | None \<Rightarrow> if LINK_SOURCE_IDENTITY_LIMIT \<le> length (sourceFences s) then (Some AdmissionCapacity, s) else (None, s))"

definition superseded :: "link_node \<Rightarrow> int \<Rightarrow> jstring \<Rightarrow> reassembly \<Rightarrow> bool" where
  "superseded source generation session r \<longleftrightarrow>
     sameNode (fr_source (ra_identity r)) source \<and> \<not> generation < fr_source_generation (ra_identity r) \<and>
     \<not> (fr_source_generation (ra_identity r) = generation \<and> fr_service_session (ra_identity r) = session)"

definition drop_reassembly :: "jstring \<Rightarrow> transport \<Rightarrow> transport" where
  "drop_reassembly key s =
     (case js_get (reassemblies s) key of
        None \<Rightarrow> s
      | Some r \<Rightarrow> measure_by (\<lambda>m. m\<lparr>incomplete_reassemblies := incomplete_reassemblies m + 1\<rparr>)
          ((cancel_timer (Some (ra_timer r)) s)\<lparr>reassemblies := js_delete key (reassemblies s)\<rparr>))"

definition set_picture :: "picture option \<Rightarrow> transport \<Rightarrow> transport" where
  "set_picture p s = s\<lparr>link_picture := p\<rparr>"

definition fence_changed :: "link_node \<Rightarrow> int \<Rightarrow> transport \<Rightarrow> bool" where
  "fence_changed source generation s \<longleftrightarrow>
     (case js_get (sourceFences s) (node_key source) of None \<Rightarrow> True | Some current \<Rightarrow> fence_generation current < generation)"

text \<open>
  \<^verbatim>\<open>activateSourceFence\<close>. \<^verbatim>\<open>picture.activateSource\<close> throws on a negative generation or an empty session, which neither a decoded frame
  nor the guards of \<^verbatim>\<open>announceSourceActivation\<close> admit; here that case is a rejection.
\<close>

definition picture_admits :: "transport_env \<Rightarrow> link_node \<Rightarrow> int \<Rightarrow> jstring \<Rightarrow> transport \<Rightarrow> bool \<times> transport" where
  "picture_admits tx source generation session s =
     (case link_picture s of
        None \<Rightarrow> (True, s)
      | Some p \<Rightarrow>
          if \<not> fence_changed source generation s then (True, s)
          else (case activateSource (tx_picture tx) source generation session p of (r, p) \<Rightarrow> (r = Inr True, set_picture (Some p) s)))"

definition set_fence :: "link_node \<Rightarrow> int \<Rightarrow> jstring \<Rightarrow> transport \<Rightarrow> transport" where
  "set_fence source generation session s =
     s\<lparr>sourceFences := js_set (node_key source) \<lparr>fence_generation = generation, fence_session = session\<rparr> (sourceFences s)\<rparr>"

definition drop_superseded :: "link_node \<Rightarrow> int \<Rightarrow> jstring \<Rightarrow> transport \<Rightarrow> transport" where
  "drop_superseded source generation session s =
     fold drop_reassembly (map fst (filter (\<lambda>kr. superseded source generation session (snd kr)) (reassemblies s))) s"

definition activateSourceFence :: "transport_env \<Rightarrow> link_node \<Rightarrow> int \<Rightarrow> jstring \<Rightarrow> transport \<Rightarrow> source_admission option \<times> transport" where
  "activateSourceFence tx source generation session s =
     (case checkSourceFence source generation session s of
        (Some rejection, s) \<Rightarrow> (Some rejection, s)
      | (None, s) \<Rightarrow>
          (case picture_admits tx source generation session s of
             (False, t) \<Rightarrow> (Some AdmissionPictureRejected, t)
           | (True, t) \<Rightarrow>
               (None, if fence_changed source generation s then drop_superseded source generation session (set_fence source generation session t)
                 else set_fence source generation session t)))"

definition validateLinkNode :: "link_node \<Rightarrow> bool" where
  "validateLinkNode n \<longleftrightarrow> non_blank (node_id n) \<and> 0x3a \<notin> set (node_id n)"

definition announceSourceActivation :: "transport_env \<Rightarrow> link_node \<Rightarrow> int \<Rightarrow> jstring \<Rightarrow> transport \<Rightarrow> (transport, operation_result) effect" where
  "announceSourceActivation tx source generation session s =
     (if node_role (node s) \<noteq> GatewayRole \<or> node_role source \<noteq> AssetRole
      then (Inl (PlainError ''only a Gateway may announce an Asset source activation''), s)
      else if \<not> validateLinkNode source then (Inl (TypeError ''invalid Link node''), s)
      else if \<not> is_safe_integer generation \<or> generation \<le> 0 \<or> \<not> non_blank session
      then (Inl (PlainError ''source activation requires a positive generation and nonempty session''), s)
      else let i = js_lit ''source_active_'' @ node_id source @ js_lit ''_'' @ decimal_text generation;
               (rejection, s) = activateSourceFence tx source generation session s
        in if rejection \<noteq> None then (Inl (PlainError ''Source admission rejected''), s)
           else submit tx [lit ''type'' ''control'', lit ''control'' ''source_active'', (js_lit ''operation_id'', JString i),
             (js_lit ''active_source'', node_json source), (js_lit ''active_generation'', json_int generation),
             (js_lit ''active_session'', JString session)] None None s)"

subsection \<open>Pause, resume, stop\<close>

definition pause :: "transport \<Rightarrow> transport" where
  "pause s =
     (if stopped s then s
      else let s = s\<lparr>paused := True\<rparr>;
               s = (if pumpRequested s \<and> pumpTimer s \<noteq> None then (cancel_timer (pumpTimer s) s)\<lparr>pumpTimer := None, pumpRequested := False\<rparr> else s)
        in if \<not> pumping s then s else s\<lparr>pauseWaiters := pauseWaiters s + 1\<rparr>)"

definition resume :: "transport \<Rightarrow> transport" where
  "resume s = (if stopped s then s else let s = s\<lparr>paused := False\<rparr> in if hasEligibleOutbound s then requestPump 0 s else s)"

definition stop_one :: "transport_env \<Rightarrow> jstring \<Rightarrow> nat \<Rightarrow> transport \<Rightarrow> transport" where
  "stop_one tx reason a s =
     (if ob_delivery (store s a) = Confirmed then completeOutbound tx a Failed (Some reason) s else failBestEffort tx a reason s)"

definition stop :: "transport_env \<Rightarrow> jstring \<Rightarrow> transport \<Rightarrow> transport" where
  "stop tx reason s =
     (if stopped s then s
      else let s = s\<lparr>stopped := True, paused := True\<rparr>;
               s = (cancel_timer (pumpTimer s) s)\<lparr>pumpTimer := None, pumpRequested := False\<rparr>;
               s = (fold (\<lambda>r. cancel_timer (Some (ra_timer r))) (map snd (reassemblies s)) s)\<lparr>reassemblies := [], reservedTaskIDs := []\<rparr>;
               s = (cancel_timer (committedOperationExpiryTimer s) s)\<lparr>committedOperationExpiryTimer := None, committedOperationExpiryAt := None,
                 committedOperationCapacityBlocked := False\<rparr>;
               pending = remdups (queue s @ map snd (outboundByOperation s) @ map snd (pendingDataRequests s) @ map snd (responseOperations s) @
                 (case activeOutbound s of None \<Rightarrow> [] | Some a \<Rightarrow> [a]));
               s = (fold (stop_one tx reason) pending s)\<lparr>queue := []\<rparr>;
               s = (fold (\<lambda>p. cancel_timer (Some (pi_timer p))) (map snd (pendingInbound s)) s)\<lparr>pendingInbound := [], responseOperations := []\<rparr>
        in if \<not> pumping s then resolvePauseWaiters s else s)"

definition handleRadioDisconnect :: "transport_env \<Rightarrow> jstring \<Rightarrow> transport \<Rightarrow> transport" where
  "handleRadioDisconnect tx reason s = (if stopped s then s else emit_event tx (LinkErrorEvent reason) (stop tx reason s))"

subsection \<open>Choosing what to send\<close>

text \<open>\<^verbatim>\<open>objectEligible\<close>: the first object message takes the object-transfer lock when it is free.\<close>

definition objectEligible :: "outbound \<Rightarrow> jstring option \<Rightarrow> bool \<times> jstring option" where
  "objectEligible o1 lock =
     (if \<not> is_type (ob_message o1) ObjectContentMessage then (True, lock)
      else let held = (case lock of None \<Rightarrow> fr_message_id (ob_identity o1) | Some i \<Rightarrow> i)
        in (held = fr_message_id (ob_identity o1), Some held))"

definition more_urgent :: "outbound \<Rightarrow> outbound \<Rightarrow> bool" where
  "more_urgent candidate best \<longleftrightarrow>
     PRIORITY_ORDER (fr_priority (ob_identity candidate)) < PRIORITY_ORDER (fr_priority (ob_identity best)) \<or>
     fr_priority (ob_identity candidate) = fr_priority (ob_identity best) \<and> ob_order candidate < ob_order best"

fun scan_queue ::
    "(nat \<Rightarrow> outbound) \<Rightarrow> nat list \<Rightarrow> nat \<Rightarrow> (nat \<times> nat) option \<Rightarrow> jstring option \<Rightarrow> (nat \<times> nat) option \<times> jstring option" where
  "scan_queue st [] index best lock = (best, lock)"
| "scan_queue st (a # rest) index best lock =
     (case objectEligible (st a) lock of (eligible, lock') \<Rightarrow>
       scan_queue st rest (index + 1)
         (if eligible \<and> (case best of None \<Rightarrow> True | Some (_, b) \<Rightarrow> more_urgent (st a) (st b)) then Some (index, a) else best) lock')"

definition splice_one :: "nat \<Rightarrow> 'a list \<Rightarrow> 'a list" where
  "splice_one i xs = take i xs @ drop (Suc i) xs"

definition takeNextOutbound :: "transport \<Rightarrow> nat option \<times> transport" where
  "takeNextOutbound s =
     (case scan_queue (store s) (queue s) 0 None (activeObjectMessageID s) of
        (None, lock) \<Rightarrow> (None, s\<lparr>activeObjectMessageID := lock\<rparr>)
      | (Some (i, a), lock) \<Rightarrow> (Some a, s\<lparr>activeObjectMessageID := lock, queue := splice_one i (queue s)\<rparr>))"

definition compound_encoding :: "frame_encoding \<Rightarrow> bool" where
  "compound_encoding e \<longleftrightarrow> e = DeflateV3 \<or> e = BinaryV1 \<or> e = MessageV1 \<or> e = MessageV2"

text \<open>One turn of the loop of \<^verbatim>\<open>compoundReceiptPair\<close>: the frame that carries report and receipt, when this report can be paired.\<close>

definition combined_frame :: "transport_env \<Rightarrow> transport \<Rightarrow> link_node \<Rightarrow> send_options \<Rightarrow> receipt_identity \<Rightarrow> nat \<Rightarrow> bytes option" where
  "combined_frame tx s d options receiptIdentity a =
     (let report = store s a in
      if ob_started report \<or> ob_delivery report \<noteq> Confirmed \<or> \<not> is_type (ob_message report) TaskReportMessage \<or>
         length (ob_frames report) \<noteq> 1 \<or> \<not> addressed_to (ob_identity report) d then None
      else (case decodeFrame (tx_codec tx) (hd (ob_frames report)) of
          Inl _ \<Rightarrow> None
        | Inr original \<Rightarrow>
            let i = frame_identity_of original in
            if fr_message_type i \<noteq> TaskReportMessage \<or> fr_receipt i \<noteq> None \<or> \<not> addressed_to i d then None
            else (case bind_result (decodeMessagePayload (tx_codec tx) (frame_payload original)) (\<lambda>payload.
                fragmentPayload (tx_codec tx) payload (i\<lparr>fr_receipt := Some receiptIdentity\<rparr>) (radio_limit tx options) (frameEncoding s)) of
                Inl _ \<Rightarrow> None
              | Inr combined \<Rightarrow> (case combined of [c] \<Rightarrow> Some c | _ \<Rightarrow> None))))"

fun find_report :: "(nat \<Rightarrow> bytes option) \<Rightarrow> nat list \<Rightarrow> nat \<Rightarrow> (nat \<times> nat \<times> bytes) option" where
  "find_report f [] index = None"
| "find_report f (a # rest) index = (case f a of Some c \<Rightarrow> Some (index, a, c) | None \<Rightarrow> find_report f rest (index + 1))"

definition compoundReceiptPair :: "transport_env \<Rightarrow> nat \<Rightarrow> transport \<Rightarrow> compound_pair option \<times> transport" where
  "compoundReceiptPair tx a s =
     (let receipt = store s a in
      if \<not> compound_encoding (frameEncoding s) \<or> \<not> isConfirmedControl receipt \<or> length (ob_frames receipt) \<noteq> 1 then (None, s)
      else (case (fr_destination (ob_identity receipt), field_of (ob_message receipt) ''message_id'') of
          (Some d, Some m) \<Rightarrow>
            let rid = \<lparr>receipt_operation_id = the_string (field_of (ob_message receipt) ''operation_id''), receipt_message_id = the_string (Some m)\<rparr>
            in (case find_report (combined_frame tx s d (ob_sendOptions receipt) rid) (queue s) 0 of
                None \<Rightarrow> (None, s)
              | Some (i, r, c) \<Rightarrow>
                  (Some \<lparr>cp_report = r, cp_combinedFrame = c, cp_originalFrame = hd (ob_frames (store s r)),
                     cp_originalIdentity = ob_identity (store s r), cp_originalSendOptions = ob_sendOptions (store s r), cp_receiptIdentity = rid\<rparr>,
                   s\<lparr>queue := splice_one i (queue s)\<rparr>))
        | _ \<Rightarrow> (None, s)))"

subsection \<open>Retries\<close>

definition retryTiming :: "message_priority \<Rightarrow> transport \<Rightarrow> estimator result \<times> transport" where
  "retryTiming p s =
     (case js_get (retryTimings s) p of
        Some est \<Rightarrow> (Inr est, s)
      | None \<Rightarrow>
          (case new_estimator \<lparr>fallback_ms = Some (rat_of_int (RETRY_MS p)), minimum_delay_ms = Some (Some 2000),
              maximum_delay_ms = Some (Some (rat_of_int (RETRY_MS p) * 3 / 2)), peer_ttl_ms = None, max_peers = None\<rparr> of
             Inl e \<Rightarrow> (Inl e, s)
           | Inr est \<Rightarrow> (Inr est, s\<lparr>retryTimings := js_set p est (retryTimings s)\<rparr>)))"

definition retryDestination :: "transport_env \<Rightarrow> link_node \<Rightarrow> transport \<Rightarrow> jstring" where
  "retryDestination tx d s =
     (let fence = js_get (sourceFences s) (node_key d) in
      stringify (number_text (tx_codec tx)) (JArray [JString (role_name (node_role d)), JString (node_id d),
        (case fence of None \<Rightarrow> JNull | Some f \<Rightarrow> json_int (fence_generation f)), (case fence of None \<Rightarrow> JNull | Some f \<Rightarrow> JString (fence_session f))]))"

text \<open>
  \<^verbatim>\<open>retryDelay\<close>. The estimator throws on a blank dest or a negative time; the dest is the text of an array and the
  clock does not run below zero, so its error branch, where the fallback stays, is never taken.
\<close>

definition retry_base :: "transport_env \<Rightarrow> nat \<Rightarrow> transport \<Rightarrow> rat \<times> transport" where
  "retry_base tx a s =
     (let identity = ob_identity (store s a); p = fr_priority identity; fallback = rat_of_int (RETRY_MS p) in
      case (retryIntervalMs s, fr_destination identity) of
        (Some i, _) \<Rightarrow> (rat_of_int i, s)
      | (None, Some d) \<Rightarrow>
          if \<not> adaptiveRetries s then (fallback, s)
          else (case retryTiming p s of
              (Inl _, s) \<Rightarrow> (fallback, s)
            | (Inr est, s) \<Rightarrow>
                (case estimate est (retryDestination tx d s) (Some (rat_of_int (time s))) of
                   Inl _ \<Rightarrow> (fallback, s)
                 | Inr (delay, est) \<Rightarrow> (delay, s\<lparr>retryTimings := js_set p est (retryTimings s)\<rparr>)))
      | (None, None) \<Rightarrow> (fallback, s))"

definition retryDelay :: "transport_env \<Rightarrow> nat \<Rightarrow> transport \<Rightarrow> rat \<times> transport" where
  "retryDelay tx a s =
     (case retry_base tx a s of (base, s) \<Rightarrow>
       if retryJitterMs s = 0 then (base, s)
       else let o1 = store s a; n = fr_source (ob_identity o1);
                sample = jitter_sample tx (role_name (node_role n) @ js_lit '':'' @ node_id n @ js_lit '':'' @ ob_operationID o1 @
                  js_lit '':'' @ js_lit (nat_text (ob_retrySequence o1)))
         in (max 1 (base - of_nat (sample mod (retryJitterMs s + 1))), change a (\<lambda>x. x\<lparr>ob_retrySequence := ob_retrySequence x + 1\<rparr>) s))"

definition schedule_retry :: "transport_env \<Rightarrow> timer_callback \<Rightarrow> nat \<Rightarrow> transport \<Rightarrow> transport" where
  "schedule_retry tx callback a s =
     (let s = cancel_timer (ob_retryTimer (store s a)) s; (delay, s) = retryDelay tx a s; (h, s) = schedule delay callback s
      in change a (\<lambda>x. x\<lparr>ob_retryTimer := Some h\<rparr>) s)"

definition scheduleRetry :: "transport_env \<Rightarrow> nat \<Rightarrow> transport \<Rightarrow> transport" where
  "scheduleRetry tx a s = schedule_retry tx (RetryCallback a) a s"

definition deferRadioSendRetry :: "transport_env \<Rightarrow> nat \<Rightarrow> transport \<Rightarrow> transport" where
  "deferRadioSendRetry tx a s = schedule_retry tx (DeferredRetryCallback a) a s"

definition push_unless_active :: "nat \<Rightarrow> transport \<Rightarrow> transport" where
  "push_unless_active a s =
     (let s = removeAll_queue a s in if activeOutbound s = Some a then s else requestPump 0 (s\<lparr>queue := queue s @ [a]\<rparr>))"

definition next_order :: "nat \<Rightarrow> transport \<Rightarrow> transport" where
  "next_order a s = (change a (\<lambda>x. x\<lparr>ob_order := nextOutboundOrder s\<rparr>) s)\<lparr>nextOutboundOrder := nextOutboundOrder s + 1\<rparr>"

definition is_pending :: "nat \<Rightarrow> transport \<Rightarrow> bool" where
  "is_pending a s \<longleftrightarrow> js_has (outboundByOperation s) (ob_operationID (store s a))"

definition deferred_retry :: "nat \<Rightarrow> transport \<Rightarrow> transport" where
  "deferred_retry a s =
     (let s = change a (\<lambda>x. x\<lparr>ob_retryTimer := None\<rparr>) s in
      if \<not> is_pending a s \<or> stopped s then s else push_unless_active a (next_order a s))"

definition retryOutbound :: "nat \<Rightarrow> transport \<Rightarrow> transport" where
  "retryOutbound a s =
     (if \<not> is_pending a s \<or> stopped s then s
      else push_unless_active a (next_order a (change a (\<lambda>x. x\<lparr>ob_pendingChunks := [0 ..< length (ob_frames x)]\<rparr>) s)))"

subsection \<open>Sending\<close>

definition markOutboundStarted :: "nat \<Rightarrow> transport \<Rightarrow> transport" where
  "markOutboundStarted a s =
     (let s = change a (\<lambda>x. x\<lparr>ob_started := True\<rparr>) s; p = fr_priority (ob_identity (store s a)) in
      if ob_firstSentAt (store s a) \<noteq> None then s
      else measure_by (\<lambda>m. m\<lparr>queue_wait_ms_by_priority := (queue_wait_ms_by_priority m)(p :=
          observeTiming (queue_wait_ms_by_priority m p) (time s - ob_queuedAt (store s a)))\<rparr>)
        (change a (\<lambda>x. x\<lparr>ob_firstSentAt := Some (time s)\<rparr>) s))"

text \<open>\<^verbatim>\<open>recordPhysicalSend\<close>; the index is one of the frames', so the count exists.\<close>

definition recordPhysicalSend :: "transport_env \<Rightarrow> nat \<Rightarrow> bytes \<Rightarrow> nat \<Rightarrow> transport \<Rightarrow> transport" where
  "recordPhysicalSend tx a frame chunk s =
     (let o1 = store s a; identity = ob_identity o1; n = length frame; sends = (if chunk < length (ob_chunkSendCounts o1) then ob_chunkSendCounts o1 ! chunk else 0);
          s = measure_by (\<lambda>m. m\<lparr>retransmitted_packets := retransmitted_packets m + (if 0 < sends then 1 else 0), packets_sent := packets_sent m + 1,
            transmitted_bytes := transmitted_bytes m + n,
            packets_sent_by_message_type := (packets_sent_by_message_type m)(fr_message_type identity := packets_sent_by_message_type m (fr_message_type identity) + 1),
            transmitted_bytes_by_priority := (transmitted_bytes_by_priority m)(fr_priority identity := transmitted_bytes_by_priority m (fr_priority identity) + n)\<rparr>)
            (change a (\<lambda>x. x\<lparr>ob_chunkSendCounts := (ob_chunkSendCounts x)[chunk := sends + 1]\<rparr>) s)
      in emit_event tx (PacketSentEvent (fr_message_id identity) (ob_operationID o1) n (time s)) s)"

definition commit_baseline :: "nat \<Rightarrow> transport \<Rightarrow> transport" where
  "commit_baseline a s =
     (case (ob_commitStateBaseline (store s a), stateEncoder s) of
        (Some prep, Some enc) \<Rightarrow> (case commitFull enc prep (Some (time s)) of Inl _ \<Rightarrow> s | Inr (enc', _) \<Rightarrow> s\<lparr>stateEncoder := Some enc'\<rparr>)
      | _ \<Rightarrow> s)"

definition afterAllChunksSent :: "transport_env \<Rightarrow> nat \<Rightarrow> transport \<Rightarrow> transport" where
  "afterAllChunksSent tx a s =
     (let s = change a (\<lambda>x. x\<lparr>ob_commitStateBaseline := None\<rparr>) (commit_baseline a s); o1 = store s a;
          s = (if is_type (ob_message o1) ObjectContentMessage \<and> activeObjectMessageID s = Some (fr_message_id (ob_identity o1))
               then s\<lparr>activeObjectMessageID := None\<rparr> else s)
      in if ob_delivery o1 = BestEffort then
           let result = result_of (ob_operationID o1) Sent None (Some (time s))
           in emit_event tx (OperationEvent result) (recordOperation result (ob_operationID o1) (recordOperationTiming a s))
         else scheduleRetry tx a s)"

definition finishCompoundReceiptPair :: "transport_env \<Rightarrow> nat \<Rightarrow> compound_pair \<Rightarrow> transport \<Rightarrow> transport" where
  "finishCompoundReceiptPair tx receipt pair s =
     (let s = afterAllChunksSent tx receipt s; report = cp_report pair in
      if \<not> is_pending report s then s
      else afterAllChunksSent tx report (change report (\<lambda>x. x\<lparr>ob_identity := (ob_identity x)\<lparr>fr_receipt := Some (cp_receiptIdentity pair)\<rparr>,
        ob_frames := [cp_combinedFrame pair], ob_sendOptions := ob_sendOptions (store s receipt)\<rparr>) s))"

definition handleCompoundReceiptFailure :: "transport_env \<Rightarrow> nat \<Rightarrow> compound_pair \<Rightarrow> transport \<Rightarrow> transport" where
  "handleCompoundReceiptFailure tx receipt pair s =
     (let report = cp_report pair;
          s = (if is_pending report s then deferRadioSendRetry tx report (change report (\<lambda>x. x\<lparr>ob_identity := cp_originalIdentity pair,
              ob_frames := [cp_originalFrame pair], ob_sendOptions := cp_originalSendOptions pair, ob_pendingChunks := [0]\<rparr>) s) else s);
          s = next_order receipt (change receipt (\<lambda>x. x\<lparr>ob_pendingChunks := [0]\<rparr>) s)
      in requestPump 0 (s\<lparr>queue := queue s @ [receipt]\<rparr>))"

text \<open>The \<^verbatim>\<open>finally\<close> block of \<^verbatim>\<open>pump\<close>.\<close>

definition pump_finally :: "transport_env \<Rightarrow> rat \<Rightarrow> transport \<Rightarrow> transport" where
  "pump_finally tx delay s =
     (let s = s\<lparr>activeOutbound := None, pumping := False, sending := None\<rparr>;
          s = (if outboundOccupancy s + length (pendingInbound s) < queueLimit s then emitCapacityAvailable tx s else s);
          s = (if \<not> paused s \<and> hasEligibleOutbound s then requestPump delay s else s)
      in if \<not> pumping s \<and> \<not> pumpRequested s then resolvePauseWaiters s else s)"

definition start_pair :: "compound_pair option \<Rightarrow> transport \<Rightarrow> transport" where
  "start_pair pair s =
     (case pair of
        None \<Rightarrow> s
      | Some p \<Rightarrow> markOutboundStarted (cp_report p) (change (cp_report p) (\<lambda>x. x\<lparr>ob_started := True, ob_pendingChunks := []\<rparr>) s))"

definition pump_start :: "transport_env \<Rightarrow> transport \<Rightarrow> transport" where
  "pump_start tx s =
     (if pumping s \<or> stopped s \<or> paused s then s
      else (case takeNextOutbound (s\<lparr>pumping := True\<rparr>) of
          (None, s) \<Rightarrow> pump_finally tx 0 s
        | (Some a, s) \<Rightarrow>
            let s = s\<lparr>activeOutbound := Some a\<rparr>; o1 = store s a in
            (case ob_pendingChunks o1 of
               [] \<Rightarrow> pump_finally tx 0 ((removeAll_queue a s)\<lparr>activeObjectMessageID :=
                 (if activeObjectMessageID s = Some (fr_message_id (ob_identity o1)) then None else activeObjectMessageID s)\<rparr>)
             | chunk # rest \<Rightarrow>
                 let s = change a (\<lambda>x. x\<lparr>ob_pendingChunks := rest\<rparr>) s in
                 if length (ob_frames o1) \<le> chunk then pump_finally tx 0 s
                 else (case compoundReceiptPair tx a s of (pair, s) \<Rightarrow>
                   let frame = (case pair of None \<Rightarrow> ob_frames o1 ! chunk | Some p \<Rightarrow> cp_combinedFrame p);
                       s = start_pair pair (markOutboundStarted a s)
                   in s\<lparr>sending := Some \<lparr>if_outbound = a, if_chunkIndex = chunk, if_frame = frame, if_pair = pair\<rparr>,
                        radioed := radioed s @ [(frame, ob_sendOptions o1)]\<rparr>))))"

text \<open>The \<^verbatim>\<open>catch\<close> block of \<^verbatim>\<open>pump\<close>, for the text of the error.\<close>

definition send_failed :: "transport_env \<Rightarrow> inflight \<Rightarrow> jstring \<Rightarrow> transport \<Rightarrow> transport" where
  "send_failed tx f e s =
     (if stopped s then s
      else let a = if_outbound f;
               s = change a (\<lambda>x. x\<lparr>ob_rttAmbiguous := True\<rparr>) (measure_by (\<lambda>m. m\<lparr>radio_send_failures := radio_send_failures m + 1\<rparr>) s)
        in (case if_pair f of
            Some p \<Rightarrow> handleCompoundReceiptFailure tx a p (change (cp_report p) (\<lambda>x. x\<lparr>ob_rttAmbiguous := True\<rparr>) s)
          | None \<Rightarrow>
              if ob_delivery (store s a) = Confirmed then
                (if is_pending a s then deferRadioSendRetry tx a (change a (\<lambda>x. x\<lparr>ob_pendingChunks := if_chunkIndex f # ob_pendingChunks x\<rparr>) s) else s)
              else failBestEffort tx a (js_lit ''radio send failed: '' @ e) s))"

text \<open>The part of \<^verbatim>\<open>pump\<close> after a send that succeeded, with the delay of the next one.\<close>

definition send_succeeded :: "transport_env \<Rightarrow> inflight \<Rightarrow> transport \<Rightarrow> rat \<times> transport" where
  "send_succeeded tx f s =
     (let a = if_outbound f; settled = (\<lambda>s. ob_delivery (store s a) = Confirmed \<and> \<not> is_pending a s) in
      if stopped s then (0, s)
      else (case if_pair f of
          Some p \<Rightarrow>
            let s = recordPhysicalSend tx (cp_report p) (if_frame f) 0 s
            in (radio_pacing tx (if_frame f), if stopped s then s else finishCompoundReceiptPair tx a p s)
        | None \<Rightarrow>
            if settled s then (0, s)
            else let s = recordPhysicalSend tx a (if_frame f) (if_chunkIndex f) s in
              (radio_pacing tx (if_frame f),
               if stopped s \<or> settled s then s
               else if ob_pendingChunks (store s a) \<noteq> [] then s\<lparr>queue := queue s @ [a]\<rparr>
               else afterAllChunksSent tx a s)))"

definition pump_end :: "transport_env \<Rightarrow> jstring option \<Rightarrow> transport \<Rightarrow> transport" where
  "pump_end tx failure s =
     (case sending s of
        None \<Rightarrow> s
      | Some f \<Rightarrow>
          (case failure of
             Some e \<Rightarrow> pump_finally tx 0 (send_failed tx f e s)
           | None \<Rightarrow> (case send_succeeded tx f s of (delay, s) \<Rightarrow> pump_finally tx delay s)))"

definition pump_callback :: "transport_env \<Rightarrow> transport \<Rightarrow> transport" where
  "pump_callback tx s =
     (let s = s\<lparr>pumpTimer := None, pumpRequested := False\<rparr> in if paused s \<or> stopped s then resolvePauseWaiters s else pump_start tx s)"

definition deadline_callback :: "transport_env \<Rightarrow> nat \<Rightarrow> transport \<Rightarrow> transport" where
  "deadline_callback tx a s =
     (let o1 = store s a; awaitingConfirmation = is_pending a s;
          awaitingResponse = ((case dataRequestID o1 of None \<Rightarrow> False | Some r \<Rightarrow> js_get (pendingDataRequests s) r = Some a) \<or>
            js_get (responseOperations s) (ob_operationID o1) = Some a)
      in if \<not> awaitingConfirmation \<and> \<not> awaitingResponse then s
         else completeOutbound tx a Failed
           (Some (js_lit (if awaitingConfirmation then ''confirmation deadline expired'' else ''response deadline expired'')))
           (measure_by (\<lambda>m. m\<lparr>retry_exhausted := retry_exhausted m + 1\<rparr>) s))"

subsection \<open>Answering a sender\<close>

definition reject_control :: "frame_identity \<Rightarrow> string \<Rightarrow> fields" where
  "reject_control identity reason =
     with_reason (Some (js_lit reason)) (control_message ''rejected'' (fr_operation_id identity) (fr_message_id identity))"

definition rejectAddressedMessage :: "transport_env \<Rightarrow> frame_identity \<Rightarrow> string \<Rightarrow> int option \<Rightarrow> transport \<Rightarrow> transport" where
  "rejectAddressedMessage tx identity reason packet s =
     snd (sendControl tx (fr_source identity) (reject_control identity reason) True packet
       (recordSettledInbound (inboundSettlementID tx identity) False s))"

definition rejectInboundCapacity :: "transport_env \<Rightarrow> frame_identity \<Rightarrow> jstring \<Rightarrow> int option \<Rightarrow> string \<Rightarrow> transport \<Rightarrow> transport" where
  "rejectInboundCapacity tx identity settlementID packet reason s =
     snd (sendControl tx (fr_source identity) (reject_control identity reason) True packet
       (recordSettledInbound settlementID False
         (measure_by (\<lambda>m. m\<lparr>confirmed_rejected_overload := confirmed_rejected_overload m + 1\<rparr>) s)))"

definition expirePendingInbound :: "transport_env \<Rightarrow> jstring \<Rightarrow> transport \<Rightarrow> transport" where
  "expirePendingInbound tx settlementID s =
     (case js_get (pendingInbound s) settlementID of
        None \<Rightarrow> s
      | Some pending \<Rightarrow>
          let s = snd (sendControl tx (pi_source pending) (with_reason (Some (js_lit ''application settlement deadline expired''))
                (control_message ''rejected'' (pi_operationID pending) (pi_messageID pending))) True (pi_radioPacketID pending) s)
          in forget_pending settlementID (recordSettledInbound settlementID False
               (measure_by (\<lambda>m. m\<lparr>inbound_settlement_expired := inbound_settlement_expired m + 1\<rparr>) s)))"

definition confirmAwaitingResponseTransport :: "transport_env \<Rightarrow> nat \<Rightarrow> transport \<Rightarrow> transport" where
  "confirmAwaitingResponseTransport tx a s =
     (let s = change a (\<lambda>x. x\<lparr>ob_retryTimer := None\<rparr>) (cancel_timer (ob_retryTimer (store s a)) s);
          i = ob_operationID (store s a); s = removeAll_queue a (drop_operation a s);
          result = result_of i ConfirmedStatus None None;
          s = s\<lparr>intermediateResponseConfirmations := set_add i (intermediateResponseConfirmations s)\<rparr>
      in emit_event tx (OperationEvent result) (recordOperation result i s))"

definition response_operation :: "fields \<Rightarrow> transport \<Rightarrow> nat option" where
  "response_operation message s =
     (case field_of message ''request_id'' of
        None \<Rightarrow> None
      | Some r \<Rightarrow>
          (case js_get (pendingDataRequests s) (the_string (Some r)) of
             Some a \<Rightarrow> Some a
           | None \<Rightarrow> if is_type message DataResponseMessage then js_get (responseOperations s) (the_string (Some r)) else None))"

definition matchingResponseOperation :: "transport_env \<Rightarrow> fields \<Rightarrow> frame_identity \<Rightarrow> transport \<Rightarrow> nat option" where
  "matchingResponseOperation tx message identity s =
     (case response_operation message s of
        None \<Rightarrow> None
      | Some a \<Rightarrow>
          let request = ob_message (store s a) in
          if \<not> addressed_to (ob_identity (store s a)) (fr_source identity) then None
          else if is_type request DataRequestMessage then (if responseMatchesRequest tx request message then Some a else None)
          else if \<not> is_type message DataResponseMessage \<or> \<not> is_type request ResourceOperationMessage \<or> \<not> responseMatchesMutation tx request message
          then None else Some a)"

definition response_result :: "fields \<Rightarrow> jstring \<Rightarrow> int \<Rightarrow> operation_result" where
  "response_result message i now =
     \<lparr>or_operation_id = i, or_status = Responded, or_reason = None,
      or_output = (if is_type message ObjectContentMessage then Some (JObject (concat (map (\<lambda>name. json_field name (field_of message name))
          [''object_id'', ''content_base64'', ''sha256''])))
        else field_of message ''output''),
      or_next_cursor = (if is_type message DataResponseMessage then field_of message ''next_cursor'' else None),
      or_completed_at = Some now\<rparr>"

definition completeDataRequest :: "transport_env \<Rightarrow> fields \<Rightarrow> frame_identity \<Rightarrow> transport \<Rightarrow> transport" where
  "completeDataRequest tx message identity s =
     (case matchingResponseOperation tx message identity s of
        None \<Rightarrow> s
      | Some a \<Rightarrow>
          let s = cancel_timer (ob_deadlineTimer (store s a)) (cancel_timer (ob_retryTimer (store s a)) s); i = ob_operationID (store s a);
              s = s\<lparr>pendingDataRequests := js_delete (the_string (field_of message ''request_id'')) (pendingDataRequests s),
                responseOperations := js_delete i (responseOperations s)\<rparr>;
              s = removeAll_queue a (drop_operation a s);
              result = response_result message i (time s)
          in emit_event tx (OperationEvent result) (recordOperation result i (recordOperationTiming a (retainCompletedOperation i s))))"

subsection \<open>Controls\<close>

definition node_of_json :: "json option \<Rightarrow> link_node" where
  "node_of_json v =
     (let part = (\<lambda>name. case v of Some j \<Rightarrow> state_field j name | None \<Rightarrow> None) in
      \<lparr>node_role = (if part ''role'' = Some (JString (js_lit ''asset'')) then AssetRole else GatewayRole), node_id = the_string (part ''id'')\<rparr>)"

definition control_target :: "fields \<Rightarrow> frame_identity \<Rightarrow> transport \<Rightarrow> nat option" where
  "control_target message identity s =
     find (\<lambda>a. let o1 = ob_identity (store s a) in
         field_of message ''operation_id'' = Some (JString (fr_operation_id o1)) \<and> addressed_to o1 (fr_source identity) \<and>
         field_of message ''message_id'' = Some (JString (fr_message_id o1)))
       (map snd (outboundByOperation s))"

definition requested_chunks :: "fields \<Rightarrow> nat \<Rightarrow> nat list" where
  "requested_chunks message n =
     map nat (filter (\<lambda>i. 0 \<le> i \<and> i < int n) (map (\<lambda>j. the_integer (Some j)) (elements (field_of message ''missing_chunks''))))"

definition repair_chunks :: "transport_env \<Rightarrow> fields \<Rightarrow> nat \<Rightarrow> transport \<Rightarrow> transport" where
  "repair_chunks tx message a s =
     (let s = change a (\<lambda>x. x\<lparr>ob_pendingChunks := requested_chunks message (length (ob_frames x))\<rparr>) s;
          s = cancel_timer (ob_retryTimer (store s a)) s
      in if ob_pendingChunks (store s a) \<noteq> []
         then push_unless_active a (measure_by (\<lambda>m. m\<lparr>fragment_repair_requests_received := fragment_repair_requests_received m + 1\<rparr>) s)
         else scheduleRetry tx a s)"

text \<open>The round trip of a confirmed message of one frame feeds the estimator of its priority.\<close>

definition observe_confirmation :: "transport_env \<Rightarrow> nat \<Rightarrow> transport \<Rightarrow> transport" where
  "observe_confirmation tx a s =
     (let o1 = store s a; p = fr_priority (ob_identity o1) in
      case (ob_firstSentAt o1, fr_destination (ob_identity o1)) of
        (Some sent, Some d) \<Rightarrow>
          if adaptiveRetries s \<and> retryIntervalMs s = None \<and> length (ob_frames o1) = 1 then
            (case retryTiming p s of
               (Inl _, s) \<Rightarrow> s
             | (Inr est, s) \<Rightarrow>
                 (case observe est \<lparr>destination = retryDestination tx d s, measured_rtt_ms = Some (rat_of_int (time s - sent)),
                     observed_at_ms = Some (rat_of_int (time s)), retransmitted = (ob_rttAmbiguous o1 \<or> ob_chunkSendCounts o1 \<noteq> [1])\<rparr> of
                    Inl _ \<Rightarrow> s
                  | Inr (_, est) \<Rightarrow> s\<lparr>retryTimings := js_set p est (retryTimings s)\<rparr>))
          else s
      | _ \<Rightarrow> s)"

definition handleControl :: "transport_env \<Rightarrow> fields \<Rightarrow> frame_identity \<Rightarrow> transport \<Rightarrow> transport" where
  "handleControl tx message identity s =
     (if field_is message ''control'' ''source_active'' then
        (if node_role (fr_source identity) \<noteq> GatewayRole then s
         else snd (activateSourceFence tx (node_of_json (field_of message ''active_source'')) (the_integer (field_of message ''active_generation''))
           (the_string (field_of message ''active_session'')) s))
      else if \<not> addressed_to identity (node s) then s
      else (case control_target message identity s of
          None \<Rightarrow> s
        | Some a \<Rightarrow>
            if field_is message ''control'' ''missing_chunks'' then repair_chunks tx message a s
            else let confirmed = field_is message ''control'' ''confirmed'';
                     s = (if confirmed then observe_confirmation tx a s else s); request = ob_message (store s a)
              in if confirmed \<and> (is_type request DataRequestMessage \<or> is_type request ResourceOperationMessage)
                 then confirmAwaitingResponseTransport tx a s
                 else completeOutbound tx a (if confirmed then ConfirmedStatus else Rejected)
                   (map_option (\<lambda>r. the_string (Some r)) (field_of message ''reason'')) s))"

definition handleCompoundReceipt :: "transport_env \<Rightarrow> frame_identity \<Rightarrow> transport \<Rightarrow> transport" where
  "handleCompoundReceipt tx identity s =
     (case fr_receipt identity of
        None \<Rightarrow> s
      | Some r \<Rightarrow>
          if node_role (fr_source identity) \<noteq> AssetRole \<or> \<not> addressed_to identity (node s) then s
          else handleControl tx (control_message ''confirmed'' (receipt_operation_id r) (receipt_message_id r)) identity s)"

subsection \<open>Complete messages\<close>

text \<open>\<^verbatim>\<open>updatePicture\<close>; the flag is an exception of \<^verbatim>\<open>picture.apply\<close>, which leaves the handler.\<close>

fun apply_publications :: "picture_env \<Rightarrow> apply_context \<Rightarrow> fields list \<Rightarrow> transport \<Rightarrow> bool \<times> transport" where
  "apply_publications env cx [] s = (False, s)"
| "apply_publications env cx (p # ps) s =
     (case link_picture s of
        None \<Rightarrow> (False, s)
      | Some pic \<Rightarrow>
          (case apply_publication env p cx pic of
             (Inl _, pic) \<Rightarrow> (True, set_picture (Some pic) s)
           | (Inr rejection, pic) \<Rightarrow>
               let s = set_picture (Some pic) s in
               apply_publications env cx ps
                 (case rejection of
                    None \<Rightarrow> s
                  | Some Capacity \<Rightarrow> measure_by (\<lambda>m. m\<lparr>picture_rejected_capacity := picture_rejected_capacity m + 1\<rparr>) s
                  | Some _ \<Rightarrow> measure_by (\<lambda>m. m\<lparr>stale_messages_rejected := stale_messages_rejected m + 1\<rparr>) s)))"

definition updatePicture :: "transport_env \<Rightarrow> fields \<Rightarrow> frame_identity \<Rightarrow> transport \<Rightarrow> bool \<times> transport" where
  "updatePicture tx message identity s =
     (case link_picture s of
        None \<Rightarrow> (False, s)
      | Some pic \<Rightarrow> apply_publications (tx_picture tx) \<lparr>cx_source = fr_source identity, cx_source_generation = fr_source_generation identity,
          cx_service_session = fr_service_session identity, cx_source_sequence = fr_source_sequence identity, cx_received_at = time s\<rparr>
          (messagePublications (tx_picture tx) message identity pic (time s)) s)"

definition task_field :: "fields \<Rightarrow> string \<Rightarrow> json option" where
  "task_field message name = (case field_of message ''task'' of Some j \<Rightarrow> state_field j name | None \<Rightarrow> None)"

datatype delivery_order = NewDelivery | DuplicateDelivery | StaleDelivery

definition delivery_key :: "fields \<Rightarrow> frame_identity \<Rightarrow> jstring" where
  "delivery_key message i = node_key (fr_source i) @ js_lit '':'' @ decimal_text (fr_source_generation i) @ js_lit '':'' @ fr_service_session i @
     js_lit '':'' @ the_string (task_field message ''task_id'')"

definition acceptTaskDeliverySequence :: "fields \<Rightarrow> frame_identity \<Rightarrow> transport \<Rightarrow> delivery_order option \<times> transport" where
  "acceptTaskDeliverySequence message identity s =
     (if \<not> is_type message TaskDeliveryMessage then (None, s)
      else let key = delivery_key message identity; seq = fr_source_sequence identity; current = js_get (taskDeliverySequences s) key in
        if current \<noteq> None \<and> seq < the current then (Some StaleDelivery, s)
        else if current = Some seq then (Some DuplicateDelivery, s)
        else (Some NewDelivery, s\<lparr>taskDeliverySequences := evict_oldest TASK_DELIVERY_FENCE_LIMIT (js_set key seq (taskDeliverySequences s))\<rparr>))"

definition assigned_asset :: "transport_env \<Rightarrow> fields \<Rightarrow> transport \<Rightarrow> jstring option" where
  "assigned_asset tx message s =
     (case link_picture s of
        None \<Rightarrow> None
      | Some pic \<Rightarrow>
          (case find (\<lambda>r. pr_resource_type r = TaskType \<and> field_of message ''task_id'' = Some (JString (pr_id r))) (snd (snd (picture_snapshot (tx_picture tx) pic))) of
             None \<Rightarrow> None | Some r \<Rightarrow> pr_source_asset_id r))"

definition message_event_of :: "transport_env \<Rightarrow> fields \<Rightarrow> frame_identity \<Rightarrow> bool \<Rightarrow> transport \<Rightarrow> transport_event" where
  "message_event_of tx message identity requiresSettlement s =
     MessageEvent \<lparr>me_message = message, me_settlement_id = inboundSettlementID tx identity, me_identity = identity, me_received_at = time s,
       me_addressed_to_local = addressed_to identity (node s), me_requires_settlement = requiresSettlement\<rparr>"

definition await_settlement :: "fields \<Rightarrow> frame_identity \<Rightarrow> jstring \<Rightarrow> int option \<Rightarrow> transport \<Rightarrow> transport" where
  "await_settlement message identity settlementID packet s =
     (let (h, s) = schedule (rat_of_int (DEADLINE_MS (fr_priority identity))) (SettlementCallback settlementID) s
      in s\<lparr>pendingInbound := js_set settlementID \<lparr>pi_source = fr_source identity, pi_message_type = type_of_message message,
           pi_task_id = (if is_type message TaskDeliveryMessage then task_field message ''task_id'' else None),
           pi_operationID = fr_operation_id identity, pi_messageID = fr_message_id identity, pi_radioPacketID = packet, pi_timer = h\<rparr> (pendingInbound s)\<rparr>)"

text \<open>The end of \<^verbatim>\<open>handleCompleteMessage\<close>: picture, response, event.\<close>

definition publish_message :: "transport_env \<Rightarrow> fields \<Rightarrow> frame_identity \<Rightarrow> delivery_order option \<Rightarrow> bool \<Rightarrow> transport \<Rightarrow> transport" where
  "publish_message tx message identity taskOrder requiresSettlement s =
     (let (thrown, s) = (if taskOrder = Some DuplicateDelivery then (False, s) else updatePicture tx message identity s) in
      if thrown then s
      else let s = (if addressed_to identity (node s) \<and> (is_type message DataResponseMessage \<or> is_type message ObjectContentMessage)
                 then completeDataRequest tx message identity s else s)
        in emit_event tx (message_event_of tx message identity requiresSettlement s) s)"

text \<open>The settlement of a confirmed message: answered again, suppressed, refused, or accepted and pending.\<close>

definition settle_or_publish :: "transport_env \<Rightarrow> fields \<Rightarrow> frame_identity \<Rightarrow> int option \<Rightarrow> delivery_order option \<Rightarrow> transport \<Rightarrow> transport" where
  "settle_or_publish tx message identity packet taskOrder s =
     (let addressed = addressed_to identity (node s); requiresSettlement = (deliveryClass message = Confirmed \<and> addressed);
          settlementID = inboundSettlementID tx identity;
          s = (if requiresSettlement then pruneSettledInbound s else s); settled = js_get (settledInbound s) settlementID;
          unmatched = (addressed \<and> (is_type message DataResponseMessage \<or> is_type message ObjectContentMessage \<and> field_of message ''request_id'' \<noteq> None) \<and>
            matchingResponseOperation tx message identity s = None) in
      if requiresSettlement \<and> settled \<noteq> None then
        snd (sendControl tx (fr_source identity) (control_message (if si_confirmed (the settled) then ''confirmed'' else ''rejected'')
          (fr_operation_id identity) (fr_message_id identity)) True packet (count_duplicate s))
      else if requiresSettlement \<and> js_has (pendingInbound s) settlementID then count_duplicate s
      else if unmatched then s
      else if \<not> requiresSettlement then publish_message tx message identity taskOrder False s
      else if taskOrder = Some DuplicateDelivery then count_duplicate s
      else if confirmedLimit s \<le> length (pendingInbound s) \<or> queueLimit s \<le> outboundOccupancy s + length (pendingInbound s)
      then rejectInboundCapacity tx identity settlementID packet ''inbound confirmed operation capacity is exhausted'' s
      else if SETTLED_INBOUND_LIMIT \<le> length (settledInbound s) + length (pendingInbound s)
      then rejectInboundCapacity tx identity settlementID packet ''inbound settlement identity capacity is exhausted'' s
      else publish_message tx message identity taskOrder True (await_settlement message identity settlementID packet s))"

text \<open>The checks of a message that is not a control: \<open>Some reason\<close> refuses it, and tells an addressed sender so.\<close>

definition refusal_reason :: "transport_env \<Rightarrow> fields \<Rightarrow> frame_identity \<Rightarrow> transport \<Rightarrow> string option" where
  "refusal_reason tx message identity s =
     (if is_type message TaskDeliveryMessage \<and> node_role (fr_source identity) \<noteq> GatewayRole then Some ''Task delivery source is not the Gateway''
      else if is_type message TaskDeliveryMessage \<and> addressed_to identity (node s) \<and> task_field message ''asset_id'' \<noteq> Some (JString (node_id (node s)))
      then Some ''Task is assigned to a different Asset''
      else if is_type message TaskReportMessage \<and> node_role (fr_source identity) \<noteq> AssetRole then Some ''Task reports must originate from an Asset''
      else if is_type message TaskReportMessage \<and>
        (case assigned_asset tx message s of None \<Rightarrow> False | Some i \<Rightarrow> i \<noteq> node_id (fr_source identity))
      then Some ''Task report source is not the assigned Asset''
      else None)"

definition route_message :: "transport_env \<Rightarrow> fields \<Rightarrow> frame_identity \<Rightarrow> int option \<Rightarrow> transport \<Rightarrow> transport" where
  "route_message tx message identity packet s =
     (let addressed = addressed_to identity (node s) in
      if deliveryClass message = Confirmed \<and> fr_destination identity = None then s
      else (case refusal_reason tx message identity s of
          Some reason \<Rightarrow> if addressed then rejectAddressedMessage tx identity reason packet s else s
        | None \<Rightarrow>
            (case acceptTaskDeliverySequence message identity s of (taskOrder, s) \<Rightarrow>
              if taskOrder = Some StaleDelivery then
                let s = measure_by (\<lambda>m. m\<lparr>stale_messages_rejected := stale_messages_rejected m + 1\<rparr>) s
                in if addressed then rejectAddressedMessage tx identity ''Task delivery source sequence is stale'' packet s else s
              else if taskOrder = Some DuplicateDelivery \<and> \<not> addressed
              then count_duplicate s
              else settle_or_publish tx message identity packet taskOrder s)))"

fun fields_of :: "json \<Rightarrow> fields" where
  "fields_of (JObject m) = m"
| "fields_of _ = []"

text \<open>The message of complete bytes with the payload it was read from, and whether it came as a state delta; \<open>None\<close> counts as invalid.\<close>

definition decode_complete :: "transport_env \<Rightarrow> frame_identity \<Rightarrow> bytes \<Rightarrow> transport \<Rightarrow> (fields \<times> bytes \<times> bool) option" where
  "decode_complete tx identity bs s =
     (case decodeMessagePayload (tx_codec tx) bs of
        Inl _ \<Rightarrow> None
      | Inr payload \<Rightarrow>
          if fr_message_type identity = StateMessage \<and> isStateDeltaPayload payload
          then map_option (\<lambda>m. (fields_of m, payload, True)) (fst (decode (tx_delta tx) (stateDecoder s) payload (delta_identity_of identity)))
          else (case deserializeLinkMessage (env_sdk (tx_delta tx)) (env_parse (tx_delta tx)) (env_unwrap (tx_delta tx)) payload of
              Inl _ \<Rightarrow> None
            | Inr m \<Rightarrow> Some (fields_of m, payload, False)))"

text \<open>\<^verbatim>\<open>decode\<close> of a delta leaves the decoder's cache as it is, so only a full publication stores the decoder.\<close>

definition handle_decoded :: "transport_env \<Rightarrow> fields \<Rightarrow> bytes \<Rightarrow> bool \<Rightarrow> frame_identity \<Rightarrow> int option \<Rightarrow> transport \<Rightarrow> transport" where
  "handle_decoded tx message payload stateDelta identity packet s =
     (if \<not> is_type message (fr_message_type identity) \<or> messagePriority message \<noteq> fr_priority identity \<or> \<not> validStateSource message (fr_source identity) then s
      else (case activateSourceFence tx (fr_source identity) (fr_source_generation identity) (fr_service_session identity) s of
          (Some _, s) \<Rightarrow> s
        | (None, s) \<Rightarrow>
            let s = (if is_type message StateMessage \<and> \<not> stateDelta
                  then s\<lparr>stateDecoder := snd (decode (tx_delta tx) (stateDecoder s) payload (delta_identity_of identity))\<rparr> else s);
                compound = (is_type message TaskReportMessage \<and> fr_receipt identity \<noteq> None);
                s = (if compound then handleCompoundReceipt tx identity s else s)
            in if compound \<and> stopped s then s
               else if is_type message ControlMessage
               then (if fr_destination identity \<noteq> None \<and> \<not> addressed_to identity (node s) then s else handleControl tx message identity s)
               else route_message tx message identity packet s))"

definition handleCompleteMessage :: "transport_env \<Rightarrow> frame_identity \<Rightarrow> bytes \<Rightarrow> int option \<Rightarrow> transport \<Rightarrow> transport" where
  "handleCompleteMessage tx identity bs packet s =
     (case decode_complete tx identity bs s of
        None \<Rightarrow> measure_by (\<lambda>m. m\<lparr>invalid_messages := invalid_messages m + 1\<rparr>) s
      | Some (message, payload, stateDelta) \<Rightarrow> handle_decoded tx message payload stateDelta identity packet s)"

subsection \<open>Reassembly\<close>

definition expectsObjectContent :: "transport_env \<Rightarrow> frame_identity \<Rightarrow> transport \<Rightarrow> bool \<times> transport" where
  "expectsObjectContent tx identity s =
     (if \<not> addressed_to identity (node s) then (False, s)
      else let i = inboundSettlementID tx identity; s = pruneSettledInbound s in
        (js_has (pendingInbound s) i \<or> js_has (settledInbound s) i \<or>
         (case js_get (pendingDataRequests s) (fr_operation_id identity) of
            None \<Rightarrow> False
          | Some a \<Rightarrow>
              let request = ob_message (store s a) in
              is_type request DataRequestMessage \<and> field_is request ''operation'' ''object.content'' \<and>
              field_of request ''request_id'' = Some (JString (fr_operation_id identity)) \<and> addressed_to (ob_identity (store s a)) (fr_source identity)), s))"

definition reassemblyInterval :: "transport \<Rightarrow> reassembly \<Rightarrow> int" where
  "reassemblyInterval s r =
     (let i = ra_identity r in
      if fr_message_type i = StateMessage \<or> fr_message_type i = ControlMessage \<or> \<not> addressed_to i (node s) \<or> \<not> js_has (ra_chunks r) (ra_chunkCount r - 1)
      then reassemblyTimeoutMs s
      else if fr_priority i = Task \<or> fr_priority i = Safety then min (reassemblyTimeoutMs s) 1000 else reassemblyTimeoutMs s)"

definition missing_chunks :: "reassembly \<Rightarrow> nat list" where
  "missing_chunks r = filter (\<lambda>i. \<not> js_has (ra_chunks r) (int i)) [0 ..< nat (ra_chunkCount r)]"

text \<open>The reassembly is an object of the table: the request that \<^verbatim>\<open>sendControl\<close> queues may let a listener drop it, and then only the timer is new.\<close>

definition expireReassembly :: "transport_env \<Rightarrow> jstring \<Rightarrow> transport \<Rightarrow> transport" where
  "expireReassembly tx key s =
     (case js_get (reassemblies s) key of
        None \<Rightarrow> s
      | Some r \<Rightarrow>
          let i = ra_identity r in
          if fr_message_type i \<noteq> StateMessage \<and> addressed_to i (node s) \<and> time s + reassemblyInterval s r < ra_expiresAt r then
            let s = snd (sendControl tx (fr_source i) (control_message ''missing_chunks'' (fr_operation_id i) (fr_message_id i) @
                  [(js_lit ''missing_chunks'', JArray (map (\<lambda>n. json_int (int n)) (missing_chunks r)))]) False (ra_radioPacketID r) s);
                s = measure_by (\<lambda>m. m\<lparr>fragment_repair_requests_sent := fragment_repair_requests_sent m + 1\<rparr>) s;
                (h, s) = schedule (rat_of_int (reassemblyTimeoutMs s)) (ReassemblyCallback key) s
            in s\<lparr>reassemblies := map (\<lambda>(k, x). (k, if k = key \<and> ra_timer x = ra_timer r then x\<lparr>ra_timer := h\<rparr> else x)) (reassemblies s)\<rparr>
          else measure_by (\<lambda>m. m\<lparr>incomplete_reassemblies := incomplete_reassemblies m + 1\<rparr>) (s\<lparr>reassemblies := js_delete key (reassemblies s)\<rparr>))"

fun oldest_reassembly :: "(jstring \<times> reassembly) \<Rightarrow> (jstring, reassembly) js_map \<Rightarrow> jstring" where
  "oldest_reassembly best [] = fst best"
| "oldest_reassembly best (p # ps) = oldest_reassembly (if ra_lastReceivedAt (snd p) < ra_lastReceivedAt (snd best) then p else best) ps"

definition makeReassemblyRoom :: "transport \<Rightarrow> transport" where
  "makeReassemblyRoom s =
     (if length (reassemblies s) < reassemblyLimit s then s
      else (case reassemblies s of [] \<Rightarrow> s | p # ps \<Rightarrow> drop_reassembly (oldest_reassembly p ps) s))"

definition open_reassembly :: "jstring \<Rightarrow> link_frame \<Rightarrow> radio_packet \<Rightarrow> transport \<Rightarrow> reassembly \<times> transport" where
  "open_reassembly key frame packet s =
     (case js_get (reassemblies s) key of
        Some r \<Rightarrow> (r, s)
      | None \<Rightarrow>
          let s = makeReassemblyRoom s; (h, s) = schedule (rat_of_int (reassemblyTimeoutMs s)) (ReassemblyCallback key) s;
              r = \<lparr>ra_identity = frame_identity_of frame, ra_chunks = [], ra_chunkCount = chunk_count frame, ra_byteLength = 0,
                ra_expiresAt = time s + DEADLINE_MS (fr_priority (frame_identity_of frame)), ra_lastReceivedAt = rp_received_at packet,
                ra_radioPacketID = rp_radio_packet_id packet, ra_timer = h\<rparr>
          in (r, s\<lparr>reassemblies := js_set key r (reassemblies s)\<rparr>))"

definition store_chunk :: "link_frame \<Rightarrow> radio_packet \<Rightarrow> reassembly \<Rightarrow> reassembly" where
  "store_chunk frame packet r =
     r\<lparr>ra_chunks := js_set (chunk_index frame) (frame_payload frame) (ra_chunks r), ra_byteLength := ra_byteLength r + length (frame_payload frame),
       ra_lastReceivedAt := rp_received_at packet,
       ra_radioPacketID := (case rp_radio_packet_id packet of Some i \<Rightarrow> Some i | None \<Rightarrow> ra_radioPacketID r)\<rparr>"

text \<open>A frame of an admitted source; \<^verbatim>\<open>joinChunks\<close> throws when a chunk is missing.\<close>

definition collect_frame :: "transport_env \<Rightarrow> link_frame \<Rightarrow> radio_packet \<Rightarrow> transport \<Rightarrow> transport" where
  "collect_frame tx frame packet s =
     (let key = reassembly_key (frame_identity_of frame) in
      case open_reassembly key frame packet s of (r, s) \<Rightarrow>
        if \<not> sameFrameSet r frame then s
        else if js_has (ra_chunks r) (chunk_index frame)
        then count_duplicate s
        else if MAX_LINK_MESSAGE_BYTES < ra_byteLength r + length (frame_payload frame) then drop_reassembly key s
        else let r = store_chunk frame packet r; s = cancel_timer (Some (ra_timer r)) s in
          if int (length (ra_chunks r)) \<noteq> ra_chunkCount r then
            (case schedule (rat_of_int (reassemblyInterval s r)) (ReassemblyCallback key) s of (h, s) \<Rightarrow>
              s\<lparr>reassemblies := js_set key (r\<lparr>ra_timer := h\<rparr>) (reassemblies s)\<rparr>)
          else let s = s\<lparr>reassemblies := js_delete key (reassemblies s)\<rparr> in
            (case joinChunks r of None \<Rightarrow> s | Some bs \<Rightarrow> handleCompleteMessage tx (ra_identity r) bs (ra_radioPacketID r) s))"

definition receive :: "transport_env \<Rightarrow> radio_packet \<Rightarrow> transport \<Rightarrow> transport" where
  "receive tx packet s =
     (if stopped s \<or> rp_channel packet \<noteq> privateChannel s then s
      else let s = measure_by (\<lambda>m. m\<lparr>packets_received := packets_received m + 1\<rparr>) s in
        (case decodeFrame (tx_codec tx) (rp_payload packet) of
           Inl _ \<Rightarrow> measure_by (\<lambda>m. m\<lparr>malformed_frames := malformed_frames m + 1\<rparr>) s
         | Inr frame \<Rightarrow>
             let i = frame_identity_of frame in
             if sameNode (fr_source i) (node s) then s
             else (case checkSourceFence (fr_source i) (fr_source_generation i) (fr_service_session i) s of
                 (Some _, s) \<Rightarrow> s
               | (None, s) \<Rightarrow>
                   if fr_message_type i = ObjectContentMessage then
                     (case expectsObjectContent tx i s of (expected, s) \<Rightarrow> if expected then collect_frame tx frame packet s else s)
                   else collect_frame tx frame packet s)))"

subsection \<open>Timers\<close>

definition run_callback :: "transport_env \<Rightarrow> timer_callback \<Rightarrow> transport \<Rightarrow> transport" where
  "run_callback tx callback s =
     (case callback of
        PumpCallback \<Rightarrow> pump_callback tx s
      | DeadlineCallback a \<Rightarrow> deadline_callback tx a s
      | RetryCallback a \<Rightarrow> retryOutbound a s
      | DeferredRetryCallback a \<Rightarrow> deferred_retry a s
      | ReassemblyCallback key \<Rightarrow> expireReassembly tx key s
      | SettlementCallback i \<Rightarrow> expirePendingInbound tx i s
      | CommittedExpiryCallback \<Rightarrow> committed_expiry_callback tx s)"

text \<open>A timer that is due fires once, in the order that the clock chooses.\<close>

definition fire :: "transport_env \<Rightarrow> nat \<Rightarrow> transport \<Rightarrow> transport" where
  "fire tx h s =
     (case js_get (timers s) h of
        Some (due, callback) \<Rightarrow> if due \<le> rat_of_int (time s) then run_callback tx callback (s\<lparr>timers := js_delete h (timers s)\<rparr>) else s
      | None \<Rightarrow> s)"

definition pass_time :: "int \<Rightarrow> transport \<Rightarrow> transport" where
  "pass_time t s = s\<lparr>time := max (time s) t\<rparr>"

subsection \<open>Construction and reading\<close>

record transport_options =
  opt_node :: link_node
  opt_sourceGeneration :: int
  opt_serviceSession :: "jstring option"
  opt_frameEncoding :: "frame_encoding option"
  opt_adaptiveRetries :: bool
  opt_stateDeltas :: bool
  opt_picture :: "picture option"
  opt_privateChannel :: "int option"
  opt_queueLimit :: "int option"
  opt_confirmedLimit :: "int option"
  opt_reassemblyLimit :: "int option"
  opt_reassemblyTimeoutMs :: "int option"
  opt_retryJitterMs :: "int option"
  opt_retryIntervalMs :: "int option"

definition or_else :: "'a option \<Rightarrow> 'a \<Rightarrow> 'a" where
  "or_else v d = (case v of None \<Rightarrow> d | Some x \<Rightarrow> x)"

definition emptyTiming :: timing_metric where
  "emptyTiming = \<lparr>tm_samples = 0, tm_total_ms = 0, tm_maximum_ms = 0\<rparr>"

definition empty_metrics :: link_metrics where
  "empty_metrics = \<lparr>application_bytes = 0, packets_sent = 0, transmitted_bytes = 0, packets_received = 0, malformed_frames = 0,
     invalid_messages = 0, duplicate_packets_suppressed = 0, stale_messages_rejected = 0, picture_rejected_capacity = 0,
     incomplete_reassemblies = 0, best_effort_replaced = 0, confirmed_rejected_overload = 0, retry_exhausted = 0,
     retransmitted_packets = 0, fragment_repair_requests_sent = 0, fragment_repair_requests_received = 0, radio_send_failures = 0,
     inbound_settlement_expired = 0, peak_queue_depth = 0, packets_sent_by_message_type = (\<lambda>_. 0), transmitted_bytes_by_priority = (\<lambda>_. 0),
     queue_wait_ms_by_priority = (\<lambda>_. emptyTiming), operation_latency_ms_by_priority = (\<lambda>_. emptyTiming), operation_outcomes = (\<lambda>_. 0)\<rparr>"

text \<open>No address is allocated at first: the store's value there is never read.\<close>

definition blank_outbound :: "link_node \<Rightarrow> outbound" where
  "blank_outbound n = \<lparr>ob_message = [], ob_operationID = [], ob_identity = \<lparr>fr_revision = 1, fr_message_type = ControlMessage, fr_source = n,
     fr_destination = None, fr_source_generation = 0, fr_service_session = [], fr_source_sequence = 0, fr_operation_id = [], fr_message_id = [],
     fr_receipt = None, fr_priority = Safety\<rparr>, ob_frames = [], ob_pendingChunks = [], ob_delivery = BestEffort, ob_coalescingKey = None,
     ob_retryTimer = None, ob_deadlineTimer = None, ob_started = False, ob_order = 0, ob_queuedAt = 0, ob_firstSentAt = None,
     ob_rttAmbiguous = False, ob_chunkSendCounts = [], ob_retrySequence = 0,
     ob_sendOptions = \<lparr>so_channel = 0, so_priority = Safety, so_request_id = None\<rparr>, ob_commitStateBaseline = None\<rparr>"

definition check_options :: "transport_options \<Rightarrow> jstring \<Rightarrow> int list result" where
  "check_options options session =
     (if \<not> validateLinkNode (opt_node options) then Inl (TypeError ''invalid Link node'')
      else if \<not> is_safe_integer (opt_sourceGeneration options) \<or> opt_sourceGeneration options < 0
      then Inl (RangeError ''source generation must be a non-negative safe integer'')
      else if \<not> non_blank session then Inl (TypeError ''service session must not be blank'')
      else bind_result (positiveBoundedInteger (or_else (opt_privateChannel options) 1) 0 7) (\<lambda>c.
        bind_result (positiveBoundedInteger (or_else (opt_queueLimit options) 64) 1 4096) (\<lambda>q.
        bind_result (positiveBoundedInteger (or_else (opt_confirmedLimit options) 64) 1 4096) (\<lambda>k.
        bind_result (positiveBoundedInteger (or_else (opt_reassemblyLimit options) 64) 1 4096) (\<lambda>r.
        bind_result (positiveBoundedInteger (or_else (opt_reassemblyTimeoutMs options) 10000) 1 300000) (\<lambda>t.
        bind_result (positiveBoundedInteger (or_else (opt_retryJitterMs options) 0) 0 1000) (\<lambda>j.
        bind_result (case opt_retryIntervalMs options of None \<Rightarrow> Inr 0 | Some i \<Rightarrow> positiveBoundedInteger i 1 60000) (\<lambda>_.
          Inr [c, q, k, r, t, j]))))))))"

definition new_transport :: "transport_env \<Rightarrow> transport_options \<Rightarrow> int \<Rightarrow> transport result" where
  "new_transport tx options now =
     (let session = or_else (opt_serviceSession options) (createID tx 0); n = opt_node options in
      bind_result (check_options options session) (\<lambda>ints.
      bind_result (if opt_stateDeltas options then bind_result (new_encoder None None) (\<lambda>e. Inr (Some e)) else Inr None) (\<lambda>encoder.
      bind_result (new_decoder None) (\<lambda>decoder.
        Inr \<lparr>node = n, sourceGeneration = opt_sourceGeneration options, serviceSession = session, privateChannel = ints ! 0,
          queueLimit = nat (ints ! 1), confirmedLimit = nat (ints ! 2), reassemblyLimit = nat (ints ! 3), reassemblyTimeoutMs = ints ! 4,
          retryJitterMs = nat (ints ! 5), retryIntervalMs = opt_retryIntervalMs options, adaptiveRetries = opt_adaptiveRetries options,
          frameEncoding = or_else (opt_frameEncoding options) CanonicalJson, retryTimings = [], stateEncoder = encoder, stateDecoder = decoder,
          link_picture = opt_picture options, store = (\<lambda>_. blank_outbound n), nextAddress = 0, queue = [], outboundByOperation = [],
          pendingDataRequests = [], responseOperations = [], reassemblies = [], sourceFences = [], pendingInbound = [], settledInbound = [],
          reservedTaskIDs = [], operationResults = [], committedOperationIDs = [], committedOperationExpiryQueue = [],
          committedOperationExpiryQueueHead = 0, committedOperationExpiryTimer = None, committedOperationExpiryAt = None,
          committedOperationCapacityBlocked = False, intermediateResponseConfirmations = [], taskDeliverySequences = [],
          sourceSequence = 0, nextOutboundOrder = 0, pumping = False, pumpRequested = False, pumpTimer = None, paused = False,
          pauseWaiters = 0, activeOutbound = None, sending = None, stopped = False, activeObjectMessageID = None,
          mutableMetrics = empty_metrics, time = now, timers = [], nextTimer = 0,
          idCount = (if opt_serviceSession options = None then 1 else 0), emitted = [], radioed = []\<rparr>))))"

definition status :: "transport \<Rightarrow> jstring \<Rightarrow> operation_result option" where
  "status s operationID = js_get (operationResults s) operationID"

record transport_diagnostics =
  queue_depth :: nat
  confirmed_pending :: nat
  inbound_awaiting_settlement :: nat
  diag_incomplete_reassemblies :: nat
  diag_stopped :: bool

definition diagnostics :: "transport \<Rightarrow> transport_diagnostics" where
  "diagnostics s = \<lparr>queue_depth = length (queue s), confirmed_pending = confirmedCount s, inbound_awaiting_settlement = length (pendingInbound s),
     diag_incomplete_reassemblies = length (reassemblies s), diag_stopped = stopped s\<rparr>"

end
