(* ===== verification/Transport_Evolution.thy ===== *)
theory Transport_Evolution
  imports Link_Transport Interfaces
begin

text \<open>
  The calls of the Link transport, listeners that call it back, and the preorder \<open>evolves\<close> between a state of the transport and the states
  that its operations lead to: the settings stay, source fences only rise, a stopped transport stays stopped and silent, the bounded tables
  stay within their bounds, and what is known of an inbound message is kept for the time of its retention. The lemmas of \<open>vitals\<close> are the
  parts of operations that keep all of that, those of \<open>evolving\<close> the rules by which an operation is followed from its parts.
\<close>

declare map_of_eq_Some_iff [simp del]

section \<open>Definitions\<close>

subsection \<open>Calls and re-entrant listeners\<close>

datatype transport_call = SubmitCall fields "link_node option" "jstring option" | ReserveCall fields link_node jstring |
  DispatchCall fields link_node jstring frame_identity bool | CancelReservedCall jstring frame_identity | SettleCall jstring bool "jstring option" |
  SettleWithReportCall jstring fields link_node "jstring option" | CancelCall jstring jstring | AnnounceCall link_node int jstring |
  PauseCall | ResumeCall | StopCall jstring | DisconnectCall jstring | ReceiveCall radio_packet | SentCall "jstring option" |
  FireCall nat | TimeCall int

fun transport_step :: "transport_env \<Rightarrow> transport \<Rightarrow> transport_call \<Rightarrow> transport" where
  "transport_step tx s (SubmitCall message dest i) = snd (submit tx message dest i s)"
| "transport_step tx s (ReserveCall message dest i) = snd (reserveTaskDelivery tx message dest i s)"
| "transport_step tx s (DispatchCall message dest i identity cancelled) = snd (dispatch_reserved tx message dest i identity cancelled s)"
| "transport_step tx s (CancelReservedCall i identity) = snd (cancel_reserved i identity s)"
| "transport_step tx s (SettleCall i accepted reason) = snd (settleInbound tx i accepted reason s)"
| "transport_step tx s (SettleWithReportCall i report dest givenID) = snd (settleInboundWithTaskReport tx i report dest givenID s)"
| "transport_step tx s (CancelCall i reason) = snd (cancel_operation tx i reason s)"
| "transport_step tx s (AnnounceCall source generation session) = snd (announceSourceActivation tx source generation session s)"
| "transport_step tx s PauseCall = pause s"
| "transport_step tx s ResumeCall = resume s"
| "transport_step tx s (StopCall reason) = stop tx reason s"
| "transport_step tx s (DisconnectCall reason) = handleRadioDisconnect tx reason s"
| "transport_step tx s (ReceiveCall packet) = receive tx packet s"
| "transport_step tx s (SentCall failure) = pump_end tx failure s"
| "transport_step tx s (FireCall h) = fire tx h s"
| "transport_step tx s (TimeCall t) = pass_time t s"

definition transport_run :: "transport_env \<Rightarrow> transport \<Rightarrow> transport_call list \<Rightarrow> transport" where
  "transport_run tx s calls = foldl (transport_step tx) s calls"

text \<open>
  Listeners that call the transport back: on an event they make the calls of a script, and the events of those calls reach the listeners
  again, to the given depth of nesting.
\<close>

fun reentrant :: "nat \<Rightarrow> (transport_event \<Rightarrow> transport \<Rightarrow> transport_call list) \<Rightarrow> (transport \<Rightarrow> transport_call list) \<Rightarrow> transport_env \<Rightarrow> transport_env" where
  "reentrant 0 script capacity tx = tx\<lparr>listen := (\<lambda>e s. s), capacity_available := (\<lambda>s. s)\<rparr>"
| "reentrant (Suc n) script capacity tx = tx\<lparr>listen := (\<lambda>e s. transport_run (reentrant n script capacity tx) s (script e s)),
     capacity_available := (\<lambda>s. transport_run (reentrant n script capacity tx) s (capacity s))\<rparr>"

subsection \<open>What every operation keeps\<close>

definition bounds_ok :: "transport \<Rightarrow> bool" where
  "bounds_ok s \<longleftrightarrow> 1 \<le> reassemblyLimit s \<and> js_map_ok (reassemblies s) \<and> length (reassemblies s) \<le> reassemblyLimit s \<and>
     js_map_ok (sourceFences s) \<and> length (sourceFences s) \<le> LINK_SOURCE_IDENTITY_LIMIT \<and>
     js_map_ok (settledInbound s) \<and> js_map_ok (pendingInbound s) \<and> length (pendingInbound s) \<le> confirmedLimit s \<and>
     card (fst ` set (settledInbound s) \<union> fst ` set (pendingInbound s)) \<le> SETTLED_INBOUND_LIMIT \<and>
     length (taskDeliverySequences s) \<le> TASK_DELIVERY_FENCE_LIMIT \<and>
     js_map_ok (committedOperationIDs s) \<and> length (committedOperationIDs s) \<le> COMMITTED_OPERATION_ID_LIMIT \<and>
     js_map_ok (reservedTaskIDs s) \<and> length (reservedTaskIDs s) \<le> TASK_RESERVATION_LIMIT"

definition settings :: "transport \<Rightarrow> link_node \<times> int \<times> jstring \<times> int \<times> nat \<times> nat \<times> nat" where
  "settings s = (node s, sourceGeneration s, serviceSession s, privateChannel s, queueLimit s, confirmedLimit s, reassemblyLimit s)"

definition fence_before :: "source_fence \<Rightarrow> source_fence \<Rightarrow> bool" where
  "fence_before f g \<longleftrightarrow> \<not> stale_fence (fence_generation g) (fence_session g) f"

text \<open>
  The transport knows the settlement of the inbound message \<open>i\<close>, or waits for it, in such a way that it still knows it at the time \<open>d\<close>.
\<close>

definition retained :: "jstring \<Rightarrow> int \<Rightarrow> transport \<Rightarrow> bool" where
  "retained i d s \<longleftrightarrow>
     (\<exists>x. js_get (settledInbound s) i = Some x \<and> d < si_expiresAt x) \<or>
     js_get (settledInbound s) i = None \<and> js_has (pendingInbound s) i \<and> d < time s + COMMITTED_OPERATION_ID_RETENTION_MS"

definition evolves :: "transport \<Rightarrow> transport \<Rightarrow> bool" where
  "evolves s t \<longleftrightarrow> settings t = settings s \<and>
     (\<forall>k f. js_get (sourceFences s) k = Some f \<longrightarrow> (\<exists>g. js_get (sourceFences t) k = Some g \<and> fence_before f g)) \<and>
     (stopped s \<longrightarrow> stopped t \<and> radioed t = radioed s) \<and> time s \<le> time t \<and> (bounds_ok s \<longrightarrow> bounds_ok t) \<and>
     (\<forall>i d. retained i d s \<and> time t \<le> d \<and> \<not> stopped t \<longrightarrow> retained i d t)"

section \<open>The preorder\<close>

lemma fence_before_refl: "fence_before f f"
  by (simp add: fence_before_def stale_fence_def)

lemma fence_before_trans: "fence_before f g \<Longrightarrow> fence_before g h \<Longrightarrow> fence_before f h"
  by (auto simp: fence_before_def stale_fence_def)

interpretation evolution: effect_preorder evolves
proof
  show "evolves s s" for s by (auto simp: evolves_def fence_before_refl)
  show "evolves a c" if ab: "evolves a b" and bc: "evolves b c" for a b c
  proof -
    have "\<exists>h. js_get (sourceFences c) k = Some h \<and> fence_before f h" if f: "js_get (sourceFences a) k = Some f" for k f
    proof -
      from ab f obtain g where g: "js_get (sourceFences b) k = Some g" "fence_before f g" unfolding evolves_def by blast
      with bc obtain h where "js_get (sourceFences c) k = Some h" "fence_before g h" unfolding evolves_def by blast
      with g(2) show ?thesis using fence_before_trans by blast
    qed
    moreover have "retained i d c" if "retained i d a" "time c \<le> d" "\<not> stopped c" for i d
    proof -
      have "\<not> stopped b" "time b \<le> d" using bc that unfolding evolves_def by auto
      with ab that(1) have "retained i d b" unfolding evolves_def by blast
      with bc that(2,3) show ?thesis unfolding evolves_def by blast
    qed
    ultimately show ?thesis using ab bc unfolding evolves_def by simp
  qed
qed

text \<open>The fields that \<open>evolves\<close> reads; most operations keep them.\<close>

definition vital where
  "vital s = (settings s, sourceFences s, stopped s, radioed s, time s, reassemblies s, settledInbound s, pendingInbound s, taskDeliverySequences s,
     committedOperationIDs s, reservedTaskIDs s)"

lemma vital_evolves: "vital t = vital s \<Longrightarrow> evolves s t"
  by (auto simp: vital_def evolves_def settings_def bounds_ok_def fence_before_refl retained_def)

lemma evolves_then: "evolves s t \<Longrightarrow> evolves t u \<Longrightarrow> evolves s u"
  by (rule evolution.trans)

lemma evolves_vital: "evolves s t \<Longrightarrow> vital u = vital t \<Longrightarrow> evolves s u"
  by (rule evolves_then[OF _ vital_evolves])

text \<open>Rules for the structure of an operation: bindings, branches, results with a state.\<close>

lemma evolves_let: "(\<And>x. evolves s (f x)) \<Longrightarrow> evolves s (Let a f)"
  by simp

lemma evolves_let_state: "evolves s a \<Longrightarrow> (\<And>t. evolves s t \<Longrightarrow> evolves s (f t)) \<Longrightarrow> evolves s (Let a f)"
  by simp

lemma evolves_pair: "evolves s (snd p) \<Longrightarrow> (\<And>x t. p = (x, t) \<Longrightarrow> evolves s t \<Longrightarrow> evolves s (f x t)) \<Longrightarrow> evolves s (case p of (x, t) \<Rightarrow> f x t)"
  by (cases p) simp

lemma evolves_if: "(c \<Longrightarrow> evolves s a) \<Longrightarrow> (\<not> c \<Longrightarrow> evolves s b) \<Longrightarrow> evolves s (if c then a else b)"
  by simp

lemma evolves_option: "(v = None \<Longrightarrow> evolves s a) \<Longrightarrow> (\<And>x. v = Some x \<Longrightarrow> evolves s (f x)) \<Longrightarrow> evolves s (case v of None \<Rightarrow> a | Some x \<Rightarrow> f x)"
  by (cases v) simp_all

lemma evolves_sum: "(\<And>x. v = Inl x \<Longrightarrow> evolves s (f x)) \<Longrightarrow> (\<And>x. v = Inr x \<Longrightarrow> evolves s (g x)) \<Longrightarrow> evolves s (case v of Inl x \<Rightarrow> f x | Inr x \<Rightarrow> g x)"
  by (cases v) simp_all

lemma snd_branches: "snd (Let a f) = Let a (\<lambda>x. snd (f x))" "snd (case p of (x, y) \<Rightarrow> g x y) = (case p of (x, y) \<Rightarrow> snd (g x y))"
  "snd (if c then u else v) = (if c then snd u else snd v)"
  "snd (case w of None \<Rightarrow> u | Some x \<Rightarrow> h x) = (case w of None \<Rightarrow> snd u | Some x \<Rightarrow> snd (h x))"
  "snd (case q of Inl x \<Rightarrow> k x | Inr y \<Rightarrow> l y) = (case q of Inl x \<Rightarrow> snd (k x) | Inr y \<Rightarrow> snd (l y))"
  by (simp_all split: prod.splits option.splits sum.splits)

section \<open>Parts that keep the vital fields\<close>

named_theorems vitals

lemma vital_schedule [vitals]: "vital (snd (schedule d c s)) = vital s"
  by (simp add: schedule_def vital_def settings_def)
lemma vital_cancel_timer [vitals]: "vital (cancel_timer h s) = vital s"
  by (simp add: cancel_timer_def vital_def settings_def split: option.split)
lemma vital_fresh_id [vitals]: "vital (snd (fresh_id tx s)) = vital s"
  by (simp add: fresh_id_def vital_def settings_def)
lemma vital_change [vitals]: "vital (change a f s) = vital s"
  by (simp add: change_def vital_def settings_def)
lemma vital_measure_by [vitals]: "vital (measure_by f s) = vital s"
  by (simp add: measure_by_def vital_def settings_def)
lemma vital_removeAll [vitals]: "vital (removeAll_queue a s) = vital s"
  by (simp add: removeAll_queue_def vital_def settings_def)
lemma vital_timing [vitals]: "vital (recordOperationTiming a s) = vital s"
  by (simp add: recordOperationTiming_def vital_measure_by Let_def)
lemma vital_operationIDFor [vitals]: "vital (snd (operationIDFor tx m d s)) = vital s"
  by (simp add: operationIDFor_def vital_fresh_id split: option.split)
lemma vital_forget_result [vitals]: "vital (forget_result i s) = vital s"
  by (simp add: forget_result_def vital_def settings_def)
lemma vital_prune_results [vitals]: "vital (prune_results n s) = vital s"
  by (induction n arbitrary: s) (simp_all add: vital_forget_result split: option.split)

lemma vital_fields:
  "vital (s\<lparr>operationResults := x1\<rparr>) = vital s" "vital (s\<lparr>intermediateResponseConfirmations := x2\<rparr>) = vital s"
  "vital (s\<lparr>queue := x3\<rparr>) = vital s" "vital (s\<lparr>outboundByOperation := x4\<rparr>) = vital s" "vital (s\<lparr>pendingDataRequests := x5\<rparr>) = vital s"
  "vital (s\<lparr>responseOperations := x6\<rparr>) = vital s" "vital (s\<lparr>activeObjectMessageID := x7\<rparr>) = vital s" "vital (s\<lparr>emitted := x8\<rparr>) = vital s"
  "vital (s\<lparr>pumpRequested := x9\<rparr>) = vital s" "vital (s\<lparr>pumpTimer := x10\<rparr>) = vital s" "vital (s\<lparr>pauseWaiters := x11\<rparr>) = vital s"
  "vital (s\<lparr>paused := x12\<rparr>) = vital s" "vital (s\<lparr>pumping := x13\<rparr>) = vital s" "vital (s\<lparr>activeOutbound := x14\<rparr>) = vital s"
  "vital (s\<lparr>sending := x15\<rparr>) = vital s" "vital (s\<lparr>nextOutboundOrder := x16\<rparr>) = vital s" "vital (s\<lparr>sourceSequence := x17\<rparr>) = vital s"
  "vital (s\<lparr>stateEncoder := x18\<rparr>) = vital s" "vital (s\<lparr>stateDecoder := x19\<rparr>) = vital s" "vital (s\<lparr>retryTimings := x20\<rparr>) = vital s"
  "vital (s\<lparr>link_picture := x21\<rparr>) = vital s" "vital (s\<lparr>committedOperationExpiryTimer := x22\<rparr>) = vital s"
  "vital (s\<lparr>committedOperationExpiryAt := x23\<rparr>) = vital s" "vital (s\<lparr>committedOperationCapacityBlocked := x24\<rparr>) = vital s"
  "vital (s\<lparr>store := x25\<rparr>) = vital s" "vital (s\<lparr>nextAddress := x26\<rparr>) = vital s" "vital (s\<lparr>timers := x27\<rparr>) = vital s"
  "vital (s\<lparr>committedOperationExpiryQueue := x28\<rparr>) = vital s" "vital (s\<lparr>committedOperationExpiryQueueHead := x29\<rparr>) = vital s"
  by (simp_all add: vital_def settings_def)

lemmas vital_simps = vitals vital_fields Let_def split_beta

lemma vital_recordOperation [vitals]: "vital (recordOperation r i s) = vital s"
  by (simp add: recordOperation_def vital_simps)
lemma vital_requestPump [vitals]: "vital (requestPump d s) = vital s"
  by (simp add: requestPump_def vital_simps)
lemma vital_resolvePauseWaiters [vitals]: "vital (resolvePauseWaiters s) = vital s"
  by (simp add: resolvePauseWaiters_def vital_simps)
lemma vital_wakeup [vitals]: "vital (scheduleCommittedOperationExpiryWakeup s) = vital s"
  by (simp add: scheduleCommittedOperationExpiryWakeup_def vital_simps split: list.split prod.split)
lemma vital_drop_operation [vitals]: "vital (drop_operation a s) = vital s"
  by (simp add: drop_operation_def vital_simps)
lemma vital_next_order [vitals]: "vital (next_order a s) = vital s"
  by (simp add: next_order_def vital_simps)
lemma vital_push [vitals]: "vital (push_unless_active a s) = vital s"
  by (simp add: push_unless_active_def vital_requestPump vital_simps)
lemma vital_retryOutbound [vitals]: "vital (retryOutbound a s) = vital s"
  by (simp add: retryOutbound_def vital_push vital_next_order vital_simps)
lemma vital_deferred_retry [vitals]: "vital (deferred_retry a s) = vital s"
  by (simp add: deferred_retry_def vital_push vital_next_order vital_simps)
lemma vital_markOutboundStarted [vitals]: "vital (markOutboundStarted a s) = vital s"
  by (simp add: markOutboundStarted_def vital_simps)
lemma vital_retryTiming [vitals]: "vital (snd (retryTiming p s)) = vital s"
  by (simp add: retryTiming_def vital_simps split: option.split sum.split)
lemma vital_retry_base [vitals]: "vital (snd (retry_base tx a s)) = vital s"
  using vital_retryTiming[of "fr_priority (ob_identity (store s a))" s]
  by (auto simp: retry_base_def vital_simps split: option.split sum.split prod.split)
lemma vital_retryDelay [vitals]: "vital (snd (retryDelay tx a s)) = vital s"
  by (simp add: retryDelay_def vital_retry_base vital_simps)
lemma vital_schedule_retry [vitals]: "vital (schedule_retry tx c a s) = vital s"
  by (simp add: schedule_retry_def vital_retryDelay vital_simps)
lemma vital_scheduleRetry [vitals]: "vital (scheduleRetry tx a s) = vital s"
  by (simp add: scheduleRetry_def vital_schedule_retry)
lemma vital_deferRadioSendRetry [vitals]: "vital (deferRadioSendRetry tx a s) = vital s"
  by (simp add: deferRadioSendRetry_def vital_schedule_retry)
lemma vital_commit_baseline [vitals]: "vital (commit_baseline a s) = vital s"
  by (simp add: commit_baseline_def vital_simps split: option.split sum.split)
lemma vital_takeNextOutbound [vitals]: "vital (snd (takeNextOutbound s)) = vital s"
  by (simp add: takeNextOutbound_def vital_simps split: option.split prod.split)
lemma vital_compoundReceiptPair [vitals]: "vital (snd (compoundReceiptPair tx a s)) = vital s"
  by (simp add: compoundReceiptPair_def vital_simps split: option.split prod.split)
lemma vital_start_pair [vitals]: "vital (start_pair p s) = vital s"
  by (simp add: start_pair_def vital_markOutboundStarted vital_simps split: option.split)
lemma vital_repair_chunks [vitals]: "vital (repair_chunks tx m a s) = vital s"
  by (simp add: repair_chunks_def vital_push vital_scheduleRetry vital_simps)
lemma vital_observe_confirmation [vitals]: "vital (observe_confirmation tx a s) = vital s"
  using vital_retryTiming[of "fr_priority (ob_identity (store s a))" s]
  by (auto simp: observe_confirmation_def vital_simps split: option.split sum.split prod.split)
lemma vital_set_picture [vitals]: "vital (set_picture p s) = vital s"
  by (simp add: set_picture_def vital_simps)
lemma vital_apply_publications [vitals]: "vital (snd (apply_publications env cx ps s)) = vital s"
proof (induction ps arbitrary: s)
  case (Cons p ps)
  show ?case
    by (simp only: apply_publications.simps snd_branches Cons vital_simps split: option.split prod.split sum.split)
      (simp add: Cons vital_measure_by vital_set_picture split: picture_rejection.split)
qed simp
lemma vital_updatePicture [vitals]: "vital (snd (updatePicture tx m i s)) = vital s"
  by (simp add: updatePicture_def vital_apply_publications split: option.split)
lemma vital_outboundIdentity [vitals]: "vital (snd (outboundIdentity tx m d i n s)) = vital s"
  by (simp add: outboundIdentity_def vital_simps)
lemma vital_frame_outbound [vitals]: "vital (snd (frame_outbound tx m i d f p u r c e s)) = vital s"
  by (simp add: frame_outbound_def vital_simps split: sum.split prod.split)

section \<open>Parts that change the bounded tables\<close>

named_theorems evolving

lemma delete_ok: "js_map_ok m \<Longrightarrow> js_map_ok (js_delete k m)"
  by (simp add: distinct_delete)

lemma delete_length: "length (js_delete k m) \<le> length m"
  by (rule length_delete_le)

lemma update_ok: "js_map_ok m \<Longrightarrow> js_map_ok (js_set k v m)"
  by (rule distinct_update)

lemma update_length: "length (js_set k v m) \<le> length m + 1"
  by (induction m) auto

lemma update_length_old: "js_get m k \<noteq> None \<Longrightarrow> length (js_set k v m) = length m"
  by (induction m) auto

lemma prune_expired_keeps: "js_map_ok ids \<Longrightarrow> js_map_ok (snd (prune_expired t q h ids)) \<and> length (snd (prune_expired t q h ids)) \<le> length ids"
proof (induction q arbitrary: h ids)
  case (Cons p q)
  obtain i e where p: "p = (i, e)" by (cases p)
  have d: "js_map_ok (js_delete i ids)" "length (js_delete i ids) \<le> length ids"
    by (rule delete_ok[OF Cons.prems], rule delete_length)
  show ?case using Cons.IH[OF d(1), of "h + 1"] Cons.IH[OF Cons.prems, of "h + 1"] d(2) Cons.prems by (auto simp: p)
qed simp

lemma evolves_pruneCommitted [evolving]: "evolves s t \<Longrightarrow> evolves s (pruneCommittedOperationIDs t)"
proof (erule evolves_then)
  show "evolves t (pruneCommittedOperationIDs t)"
    using prune_expired_keeps[of "committedOperationIDs t" "time t" "drop (committedOperationExpiryQueueHead t) (committedOperationExpiryQueue t)"
        "committedOperationExpiryQueueHead t"]
    by (auto simp: pruneCommittedOperationIDs_def Let_def split_beta evolves_def settings_def bounds_ok_def fence_before_refl retained_def)
qed

lemma evolves_retain [evolving]: "evolves s t \<Longrightarrow> evolves s (retainCompletedOperation i t)"
proof (erule evolves_then)
  have "evolves t (t\<lparr>committedOperationIDs := js_set i e (committedOperationIDs t), committedOperationExpiryQueue := q\<rparr>)"
    if "js_get (committedOperationIDs t) i \<noteq> None" for e q
    using update_length_old[OF that, of e]
    by (auto simp: evolves_def settings_def bounds_ok_def fence_before_refl retained_def update_ok)
  then show "evolves t (retainCompletedOperation i t)"
    by (auto simp: retainCompletedOperation_def Let_def intro: evolution.refl evolves_vital[OF _ vital_wakeup] split: option.split)
qed

lemma card_shrinks: "A \<subseteq> fst ` set xs \<union> fst ` set ys \<Longrightarrow> card (fst ` set xs \<union> fst ` set ys) \<le> n \<Longrightarrow> card A \<le> n"
  by (meson List.finite_set card_mono finite_UnI finite_imageI le_trans)

lemma prune_get: "js_get m i = Some x \<Longrightarrow> \<not> P (i, x) \<Longrightarrow> js_get (dropWhile P m) i = Some x"
  by (induction m) (auto split: if_splits)

lemma prune_none: "js_get m i = None \<Longrightarrow> js_get (dropWhile P m) i = None"
  by (induction m) (auto split: if_splits)

lemma prune_retained: "retained i d t \<Longrightarrow> time t \<le> d \<Longrightarrow> retained i d (pruneSettledInbound t)"
  by (cases "js_get (settledInbound t) i") (auto simp: retained_def pruneSettledInbound_def prune_get prune_none)

lemma evolves_pruneSettled [evolving]: "evolves s t \<Longrightarrow> evolves s (pruneSettledInbound t)"
proof (erule evolves_then)
  let ?keep = "dropWhile (\<lambda>(_, x). si_expiresAt x \<le> time t) (settledInbound t)"
  have sub: "set ?keep \<subseteq> set (settledInbound t)" by (auto dest: set_dropWhileD)
  have "js_map_ok ?keep" if "js_map_ok (settledInbound t)"
    using that by (metis distinct_append map_append takeWhile_dropWhile_id)
  moreover have "card (fst ` set ?keep \<union> fst ` set (pendingInbound t)) \<le> n"
    if "card (fst ` set (settledInbound t) \<union> fst ` set (pendingInbound t)) \<le> n" for n
    using sub by (intro card_shrinks[OF _ that]) auto
  ultimately show "evolves t (pruneSettledInbound t)"
    using prune_retained[of _ _ t] by (auto simp: pruneSettledInbound_def evolves_def settings_def bounds_ok_def fence_before_refl)
qed

lemma card_keys: "js_map_ok m \<Longrightarrow> card (fst ` set m) = length m"
  by (metis distinct_card length_map set_map)

lemma card_room:
  assumes "js_map_ok a" "js_map_ok b" "length a + length b < n"
  shows "card (insert k (fst ` set a \<union> fst ` set b)) \<le> n"
proof -
  have "card (fst ` set a \<union> fst ` set b) \<le> length a + length b"
    using card_Un_le[of "fst ` set a" "fst ` set b"] assms by (simp add: card_keys)
  moreover have "card (insert k (fst ` set a \<union> fst ` set b)) \<le> card (fst ` set a \<union> fst ` set b) + 1"
    by (simp add: card_insert_if)
  ultimately show ?thesis using assms(3) by linarith
qed

lemma update_keys: "fst ` set (js_set k v m) = insert k (fst ` set m)"
  by (induction m) auto

lemma delete_keys: "fst ` set (js_delete k m) \<subseteq> fst ` set m"
  by (induction m) auto

lemma has_key: "js_has m k \<longleftrightarrow> k \<in> fst ` set m"
  by (simp add: js_has_def map_of_eq_None_iff)

lemma evolves_recordSettled [evolving]: "evolves s t \<Longrightarrow> evolves s (recordSettledInbound i c t)"
proof (erule evolves_then)
  define u where "u = pruneSettledInbound t"
  have u: "evolves t u" unfolding u_def by (intro evolving evolution.refl)
  have "evolves u (u\<lparr>settledInbound := js_set i x (settledInbound u)\<rparr>)"
    if fresh: "\<not> js_has (settledInbound u) i" and x: "si_expiresAt x = time u + COMMITTED_OPERATION_ID_RETENTION_MS" and guard: "\<not> (\<not> js_has (pendingInbound u) i \<and> SETTLED_INBOUND_LIMIT \<le> length (settledInbound u) + length (pendingInbound u))" for x
  proof -
    have "card (insert i (fst ` set (settledInbound u) \<union> fst ` set (pendingInbound u))) \<le> SETTLED_INBOUND_LIMIT" if b: "bounds_ok u"
    proof (cases "js_has (pendingInbound u) i")
      case True
      then have "insert i (fst ` set (settledInbound u) \<union> fst ` set (pendingInbound u)) = fst ` set (settledInbound u) \<union> fst ` set (pendingInbound u)"
        by (auto simp: has_key)
      with b show ?thesis by (simp add: bounds_ok_def)
    next
      case False
      with guard b show ?thesis by (intro card_room) (simp_all add: bounds_ok_def)
    qed
    moreover have "retained j d (u\<lparr>settledInbound := js_set i x (settledInbound u)\<rparr>)" if "retained j d u" for j d
      using that fresh x by (cases "j = i") (auto simp: retained_def js_lookup js_has_def)
    ultimately show ?thesis
      by (auto simp: evolves_def settings_def fence_before_refl) (simp add: bounds_ok_def update_ok update_keys)
  qed
  then have "evolves u (if js_has (settledInbound u) i then u
      else if \<not> js_has (pendingInbound u) i \<and> SETTLED_INBOUND_LIMIT \<le> length (settledInbound u) + length (pendingInbound u) then u
      else u\<lparr>settledInbound := js_set i x (settledInbound u)\<rparr>)" if "si_expiresAt x = time u + COMMITTED_OPERATION_ID_RETENTION_MS" for x
    using that by (auto intro: evolution.refl)
  from evolves_then[OF u this] show "evolves t (recordSettledInbound i c t)"
    unfolding recordSettledInbound_def Let_def u_def by simp
qed

text \<open>Settling moves an entry from the pending to the settled messages.\<close>

lemma settle_retained:
  assumes "retained j d t" "time t \<le> d"
  shows "retained j d (forget_pending i (recordSettledInbound i c t))"
proof -
  define u where "u = pruneSettledInbound t"
  have r: "retained j d u" and u: "time u = time t" "pendingInbound u = pendingInbound t"
    using prune_retained[OF assms] by (simp_all add: u_def pruneSettledInbound_def)
  define v where "v = recordSettledInbound i c t"
  have v: "v = u \<and> (js_has (settledInbound u) i \<or> \<not> js_has (pendingInbound u) i) \<or>
      \<not> js_has (settledInbound u) i \<and> v = u\<lparr>settledInbound := js_set i \<lparr>si_confirmed = c,
        si_expiresAt = time u + COMMITTED_OPERATION_ID_RETENTION_MS, si_atomicTask = None\<rparr> (settledInbound u)\<rparr>"
    by (auto simp: v_def recordSettledInbound_def Let_def u_def[symmetric])
  have "retained j d (v\<lparr>pendingInbound := js_delete i (pendingInbound v)\<rparr>)"
    using r v by (cases "j = i") (auto simp: retained_def js_lookup js_has_def)
  then show ?thesis by (simp add: forget_pending_def v_def)
qed

lemma evolves_settle [evolving]:
  assumes "evolves s t"
  shows "evolves s (forget_pending i (recordSettledInbound i c t))"
proof (rule evolves_then[OF assms])
  define v where "v = recordSettledInbound i c t"
  have v: "evolves t v" unfolding v_def by (rule evolves_recordSettled[OF evolution.refl])
  have "card (fst ` set (settledInbound v) \<union> fst ` set (js_delete i (pendingInbound v))) \<le> n"
    if "card (fst ` set (settledInbound v) \<union> fst ` set (pendingInbound v)) \<le> n" for n
    using delete_keys[of i "pendingInbound v"] by (intro card_shrinks[OF _ that]) auto
  moreover have "length (js_delete i (pendingInbound v)) \<le> length (pendingInbound v)" by (rule delete_length)
  ultimately have "bounds_ok (forget_pending i v)" if "bounds_ok v" using that by (auto simp: forget_pending_def bounds_ok_def delete_ok)
  moreover have "time v = time t" by (simp add: v_def recordSettledInbound_def pruneSettledInbound_def Let_def)
  ultimately show "evolves t (forget_pending i (recordSettledInbound i c t))"
    using v settle_retained[of _ _ t i c] unfolding v_def[symmetric] by (auto simp: evolves_def settings_def forget_pending_def)
qed

lemma evolves_vitals [evolving]:
  "evolves s t \<Longrightarrow> evolves s (cancel_timer h t)" "evolves s t \<Longrightarrow> evolves s (change a f t)" "evolves s t \<Longrightarrow> evolves s (measure_by g t)"
  "evolves s t \<Longrightarrow> evolves s (removeAll_queue a t)" "evolves s t \<Longrightarrow> evolves s (recordOperationTiming a t)"
  "evolves s t \<Longrightarrow> evolves s (recordOperation r i t)" "evolves s t \<Longrightarrow> evolves s (requestPump d t)"
  "evolves s t \<Longrightarrow> evolves s (resolvePauseWaiters t)" "evolves s t \<Longrightarrow> evolves s (scheduleCommittedOperationExpiryWakeup t)"
  "evolves s t \<Longrightarrow> evolves s (drop_operation a t)" "evolves s t \<Longrightarrow> evolves s (next_order a t)" "evolves s t \<Longrightarrow> evolves s (push_unless_active a t)"
  "evolves s t \<Longrightarrow> evolves s (retryOutbound a t)" "evolves s t \<Longrightarrow> evolves s (deferred_retry a t)" "evolves s t \<Longrightarrow> evolves s (markOutboundStarted a t)"
  "evolves s t \<Longrightarrow> evolves s (scheduleRetry tx a t)" "evolves s t \<Longrightarrow> evolves s (deferRadioSendRetry tx a t)"
  "evolves s t \<Longrightarrow> evolves s (commit_baseline a t)" "evolves s t \<Longrightarrow> evolves s (start_pair p t)" "evolves s t \<Longrightarrow> evolves s (repair_chunks tx m a t)"
  "evolves s t \<Longrightarrow> evolves s (observe_confirmation tx a t)" "evolves s t \<Longrightarrow> evolves s (set_picture q t)"
  "evolves s t \<Longrightarrow> evolves s (snd (schedule e c t))" "evolves s t \<Longrightarrow> evolves s (snd (fresh_id tx t))"
  "evolves s t \<Longrightarrow> evolves s (snd (operationIDFor tx m n t))" "evolves s t \<Longrightarrow> evolves s (snd (updatePicture tx m w t))"
  "evolves s t \<Longrightarrow> evolves s (snd (takeNextOutbound t))" "evolves s t \<Longrightarrow> evolves s (snd (compoundReceiptPair tx a t))"
  "evolves s t \<Longrightarrow> evolves s (snd (outboundIdentity tx m n i z t))" "evolves s t \<Longrightarrow> evolves s (snd (frame_outbound tx m i l w b1 b2 b3 b4 b5 t))"
  by (erule evolves_vital, simp add: vitals)+

lemma evolves_fields [evolving]:
  "evolves s t \<Longrightarrow> evolves s (t\<lparr>operationResults := x1\<rparr>)" "evolves s t \<Longrightarrow> evolves s (t\<lparr>intermediateResponseConfirmations := x2\<rparr>)"
  "evolves s t \<Longrightarrow> evolves s (t\<lparr>queue := x3\<rparr>)" "evolves s t \<Longrightarrow> evolves s (t\<lparr>outboundByOperation := x4\<rparr>)"
  "evolves s t \<Longrightarrow> evolves s (t\<lparr>pendingDataRequests := x5\<rparr>)" "evolves s t \<Longrightarrow> evolves s (t\<lparr>responseOperations := x6\<rparr>)"
  "evolves s t \<Longrightarrow> evolves s (t\<lparr>activeObjectMessageID := x7\<rparr>)" "evolves s t \<Longrightarrow> evolves s (t\<lparr>emitted := x8\<rparr>)"
  "evolves s t \<Longrightarrow> evolves s (t\<lparr>pumpRequested := x9\<rparr>)" "evolves s t \<Longrightarrow> evolves s (t\<lparr>pumpTimer := x10\<rparr>)"
  "evolves s t \<Longrightarrow> evolves s (t\<lparr>pauseWaiters := x11\<rparr>)" "evolves s t \<Longrightarrow> evolves s (t\<lparr>paused := x12\<rparr>)"
  "evolves s t \<Longrightarrow> evolves s (t\<lparr>pumping := x13\<rparr>)" "evolves s t \<Longrightarrow> evolves s (t\<lparr>activeOutbound := x14\<rparr>)"
  "evolves s t \<Longrightarrow> evolves s (t\<lparr>sending := x15\<rparr>)" "evolves s t \<Longrightarrow> evolves s (t\<lparr>nextOutboundOrder := x16\<rparr>)"
  "evolves s t \<Longrightarrow> evolves s (t\<lparr>sourceSequence := x17\<rparr>)" "evolves s t \<Longrightarrow> evolves s (t\<lparr>stateDecoder := x19\<rparr>)"
  "evolves s t \<Longrightarrow> evolves s (t\<lparr>committedOperationExpiryTimer := x22\<rparr>)" "evolves s t \<Longrightarrow> evolves s (t\<lparr>committedOperationExpiryAt := x23\<rparr>)"
  "evolves s t \<Longrightarrow> evolves s (t\<lparr>committedOperationCapacityBlocked := x24\<rparr>)" "evolves s t \<Longrightarrow> evolves s (t\<lparr>timers := x27\<rparr>)"
  by (erule evolves_vital, simp add: vital_fields)+

lemma evolves_leave [evolving]:
  "evolves s t \<Longrightarrow> evolves s (t\<lparr>reservedTaskIDs := js_delete i (reservedTaskIDs t)\<rparr>)" "evolves s t \<Longrightarrow> evolves s (t\<lparr>reservedTaskIDs := []\<rparr>)"
  "evolves s t \<Longrightarrow> evolves s (t\<lparr>reassemblies := js_delete k (reassemblies t)\<rparr>)" "evolves s t \<Longrightarrow> evolves s (t\<lparr>reassemblies := []\<rparr>)"
  by (erule evolves_then, auto simp: evolves_def settings_def bounds_ok_def fence_before_refl retained_def delete_ok intro: le_trans[OF delete_length])+

lemma evolves_let_pair: "evolves s (snd a) \<Longrightarrow> (\<And>x t. a = (x, t) \<Longrightarrow> evolves s t \<Longrightarrow> evolves s (f x t)) \<Longrightarrow> evolves s (Let a (\<lambda>(x, t). f x t))"
  by (cases a) simp

lemma evolves_fold: "(\<And>x t. evolves s t \<Longrightarrow> evolves s (g x t)) \<Longrightarrow> evolves s t \<Longrightarrow> evolves s (fold g xs t)"
  by (induction xs arbitrary: t) simp_all

lemma evolves_list: "(v = [] \<Longrightarrow> evolves s a) \<Longrightarrow> (\<And>x xs. v = x # xs \<Longrightarrow> evolves s (f x xs)) \<Longrightarrow> evolves s (case v of [] \<Rightarrow> a | x # xs \<Rightarrow> f x xs)"
  by (cases v) simp_all

lemma evolves_snd: "(c \<Longrightarrow> evolves s (snd a)) \<Longrightarrow> (\<not> c \<Longrightarrow> evolves s (snd b)) \<Longrightarrow> evolves s (snd (if c then a else b))"
  "evolves s t \<Longrightarrow> evolves s (snd (x, t))"
  "(v = None \<Longrightarrow> evolves s (snd a)) \<Longrightarrow> (\<And>x. v = Some x \<Longrightarrow> evolves s (snd (g x))) \<Longrightarrow> evolves s (snd (case v of None \<Rightarrow> a | Some x \<Rightarrow> g x))"
  by (auto split: option.split)

lemmas evolves_structure = evolves_snd evolves_let_pair evolves_let_state evolves_let evolves_pair evolves_if evolves_option evolves_sum evolves_list

lemma evolves_stopping: "evolves s t \<Longrightarrow> evolves s (t\<lparr>stopped := True\<rparr>)" "stopped s \<Longrightarrow> evolves s t \<Longrightarrow> evolves s (t\<lparr>pendingInbound := []\<rparr>)"
proof -
  have "card (fst ` set (settledInbound t)) \<le> n" if "card (fst ` set (settledInbound t) \<union> fst ` set (pendingInbound t)) \<le> n" for n
    by (intro card_shrinks[OF _ that]) auto
  then have "evolves t (t\<lparr>stopped := True\<rparr>)" "stopped t \<Longrightarrow> evolves t (t\<lparr>pendingInbound := []\<rparr>)"
    by (auto simp: evolves_def settings_def bounds_ok_def fence_before_refl)
  moreover have "stopped t" if "stopped s" "evolves s t" using that by (simp add: evolves_def)
  ultimately show "evolves s t \<Longrightarrow> evolves s (t\<lparr>stopped := True\<rparr>)" "stopped s \<Longrightarrow> evolves s t \<Longrightarrow> evolves s (t\<lparr>pendingInbound := []\<rparr>)"
    by (blast intro: evolves_then)+
qed

lemma evolves_pass_time [evolving]: "evolves s t \<Longrightarrow> evolves s (pass_time n t)"
  by (erule evolves_then) (auto simp: pass_time_def evolves_def settings_def bounds_ok_def fence_before_refl retained_def)

lemma evolves_checkSourceFence [evolving]: "evolves s t \<Longrightarrow> evolves s (snd (checkSourceFence n g i t))"
  by (simp only: checkSourceFence_def snd_branches snd_conv) (intro evolves_structure evolving)

lemma evolves_drop_reassembly [evolving]: "evolves s t \<Longrightarrow> evolves s (drop_reassembly k t)"
proof -
  assume *: "evolves s t"
  have "(cancel_timer h t)\<lparr>reassemblies := js_delete k (reassemblies t)\<rparr> = (cancel_timer h t)\<lparr>reassemblies := js_delete k (reassemblies (cancel_timer h t))\<rparr>" for h
    by (simp add: cancel_timer_def split: option.split)
  with * show ?thesis by (auto simp: drop_reassembly_def intro!: evolving split: option.split)
qed

lemma check_passes: "checkSourceFence n g i t = (None, u) \<Longrightarrow> u = t"
  by (auto simp: checkSourceFence_def split: option.splits if_splits)

lemma evolves_set_fence:
  assumes c: "checkSourceFence n g i t = (None, t)"
  shows "evolves t (set_fence n g i t)"
proof -
  let ?f = "\<lparr>fence_generation = g, fence_session = i\<rparr>" and ?old = "sourceFences t"
  have newer: "fence_before f ?f" if "js_get ?old (node_key n) = Some f" for f
    using c that by (auto simp: checkSourceFence_def fence_before_def split: if_splits)
  have "length (js_set (node_key n) ?f ?old) \<le> LINK_SOURCE_IDENTITY_LIMIT" if "length ?old \<le> LINK_SOURCE_IDENTITY_LIMIT"
  proof (cases "js_get ?old (node_key n)")
    case None
    then have "length ?old < LINK_SOURCE_IDENTITY_LIMIT" using c by (auto simp: checkSourceFence_def split: if_splits)
    then show ?thesis using update_length[of "node_key n" ?f ?old] by linarith
  next
    case (Some f)
    then show ?thesis using that update_length_old[of ?old "node_key n"] by simp
  qed
  moreover have "\<exists>h. js_get (js_set (node_key n) ?f ?old) k = Some h \<and> fence_before f h" if "js_get ?old k = Some f" for k f
    using newer[of f] that by (cases "k = node_key n") (auto simp: js_lookup fence_before_refl)
  ultimately show ?thesis by (simp add: set_fence_def evolves_def settings_def bounds_ok_def update_ok retained_def)
qed

lemma vital_picture_admits: "vital (snd (picture_admits tx n g i s)) = vital s"
  by (simp add: picture_admits_def vital_set_picture split: option.split prod.split)

lemma vital_set_fence: "vital u = vital t \<Longrightarrow> vital (set_fence n g i u) = vital (set_fence n g i t)"
  by (simp add: set_fence_def vital_def settings_def)

lemma evolves_drop_superseded [evolving]: "evolves s t \<Longrightarrow> evolves s (drop_superseded n g i t)"
  unfolding drop_superseded_def by (intro evolves_fold evolving)

lemma evolves_activateSourceFence [evolving]:
  assumes "evolves s t"
  shows "evolves s (snd (activateSourceFence tx n g i t))"
proof (cases "checkSourceFence n g i t")
  case (Pair r u)
  have u: "evolves s u" using evolves_checkSourceFence[OF assms, of n g i] Pair by simp
  show ?thesis
  proof (cases r)
    case None
    note c = Pair[unfolded None check_passes[OF Pair[unfolded None]]]
    obtain ok v where p: "picture_admits tx n g i t = (ok, v)" by fastforce
    have v: "vital v = vital t" using vital_picture_admits[of tx n g i t] p by simp
    have "evolves s (set_fence n g i v)"
      using evolves_vital[OF evolves_then[OF assms evolves_set_fence[OF c]] vital_set_fence[OF v]] .
    then show ?thesis using evolves_vital[OF assms v]
      by (auto simp: activateSourceFence_def c p evolves_drop_superseded split: bool.split)
  qed (use u Pair in \<open>simp add: activateSourceFence_def\<close>)
qed

lemma evolves_pause [evolving]: "evolves s t \<Longrightarrow> evolves s (pause t)"
  by (simp only: pause_def) (intro evolves_structure evolving; assumption)

lemma evolves_resume [evolving]: "evolves s t \<Longrightarrow> evolves s (resume t)"
  by (simp only: resume_def) (intro evolves_structure evolving; assumption)

lemma evolves_makeRoom [evolving]: "evolves s t \<Longrightarrow> evolves s (makeReassemblyRoom t)"
  by (simp only: makeReassemblyRoom_def) (intro evolves_structure evolving; assumption)

lemma evolves_expectsObjectContent [evolving]: "evolves s t \<Longrightarrow> evolves s (snd (expectsObjectContent tx i t))"
  by (simp only: expectsObjectContent_def snd_branches snd_conv) (intro evolves_structure evolving; assumption)

lemma evolves_cancel_reserved [evolving]: "evolves s t \<Longrightarrow> evolves s (snd (cancel_reserved i f t))"
  by (simp only: cancel_reserved_def snd_branches snd_conv) (intro evolves_structure evolving; assumption)

lemma evolves_admit_operation [evolving]: "evolves s t \<Longrightarrow> evolves s (snd (admit_operation m d i c r t))"
  by (simp only: admit_operation_def snd_branches snd_conv) (intro evolves_structure evolving; assumption)

lemma evolves_acceptSequence [evolving]: "evolves s t \<Longrightarrow> evolves s (snd (acceptTaskDeliverySequence m i t))"
proof -
  assume *: "evolves s t"
  have "evolves s (t\<lparr>taskDeliverySequences := evict_oldest TASK_DELIVERY_FENCE_LIMIT x\<rparr>)" for x
    by (rule evolves_then[OF *]) (simp add: evolves_def settings_def bounds_ok_def fence_before_refl retained_def)
  with * show ?thesis by (simp only: acceptTaskDeliverySequence_def snd_branches snd_conv) (intro evolves_structure; assumption)
qed

section \<open>Reassembly tables\<close>

lemma delete_length_less: "js_get m k \<noteq> None \<Longrightarrow> length (js_delete k m) < length m"
proof (induction m)
  case (Cons p m)
  have "length (js_delete k m) \<le> length m" by (rule delete_length)
  with Cons show ?case by (cases p) (auto split: if_splits)
qed simp

lemma oldest_in: "oldest_reassembly best ps = fst best \<or> oldest_reassembly best ps \<in> fst ` set ps"
proof (induction best ps rule: oldest_reassembly.induct)
  case (2 best p ps)
  then show ?case by (cases "ra_lastReceivedAt (snd p) < ra_lastReceivedAt (snd best)") auto
qed simp

lemma makeRoom_room:
  assumes "bounds_ok t"
  shows "length (reassemblies (makeReassemblyRoom t)) < reassemblyLimit t"
proof (cases "length (reassemblies t) < reassemblyLimit t")
  case False
  then obtain p ps where r: "reassemblies t = p # ps" using assms by (cases "reassemblies t") (auto simp: bounds_ok_def)
  have k: "oldest_reassembly p ps \<in> fst ` set (reassemblies t)" using oldest_in[of p ps] by (auto simp: r)
  then have "js_get (reassemblies t) (oldest_reassembly p ps) \<noteq> None" by (simp add: map_of_eq_None_iff)
  then obtain x where x: "js_get (reassemblies t) (oldest_reassembly p ps) = Some x" by blast
  then have "length (js_delete (oldest_reassembly p ps) (reassemblies t)) < length (reassemblies t)" by (intro delete_length_less) simp
  moreover have "reassemblies (makeReassemblyRoom t) = js_delete (oldest_reassembly p ps) (reassemblies t)"
    using False x by (simp add: makeReassemblyRoom_def drop_reassembly_def measure_by_def r)
  ultimately show ?thesis using assms by (simp add: bounds_ok_def)
qed (simp add: makeReassemblyRoom_def)

lemma open_has: "open_reassembly key f p s = (r, t) \<Longrightarrow> js_get (reassemblies t) key = Some r"
  by (auto simp: open_reassembly_def Let_def js_lookup split: option.splits prod.splits)

lemma evolves_store:
  assumes "evolves s t" "bounds_ok t \<Longrightarrow> length (js_set k r (reassemblies t)) \<le> reassemblyLimit t"
  shows "evolves s (t\<lparr>reassemblies := js_set k r (reassemblies t)\<rparr>)"
  using assms(2) by (intro evolves_then[OF assms(1)]) (simp add: evolves_def settings_def bounds_ok_def fence_before_refl retained_def update_ok)

lemma evolves_restore:
  assumes "evolves s t" "js_get (reassemblies t) k \<noteq> None"
  shows "evolves s (t\<lparr>reassemblies := js_set k r (reassemblies t)\<rparr>)"
  by (rule evolves_store[OF assms(1)]) (use update_length_old[OF assms(2)] in \<open>simp add: bounds_ok_def\<close>)

lemma makeRoom_limit: "reassemblyLimit (makeReassemblyRoom t) = reassemblyLimit t"
  using evolves_makeRoom[OF evolution.refl[of t]] by (simp add: evolves_def settings_def)

lemma evolves_open [evolving]:
  assumes "evolves s t"
  shows "evolves s (snd (open_reassembly key f p t))"
proof (cases "js_get (reassemblies t) key")
  case None
  define u where "u = makeReassemblyRoom t"
  define w where "w = snd (schedule (rat_of_int (reassemblyTimeoutMs u)) (ReassemblyCallback key) u)"
  have u: "evolves s u" unfolding u_def by (intro evolving assms)
  have w: "evolves s w" unfolding w_def by (intro evolving u)
  have wu: "reassemblies w = reassemblies u" "reassemblyLimit w = reassemblyLimit u" by (simp_all add: w_def schedule_def)
  have "evolves s (w\<lparr>reassemblies := js_set key r (reassemblies w)\<rparr>)" for r
  proof (cases "bounds_ok t")
    case True
    then have "length (reassemblies w) < reassemblyLimit w" using makeRoom_room[OF True] by (simp add: wu u_def makeRoom_limit)
    then show ?thesis using update_length[of key r "reassemblies w"] by (intro evolves_store[OF w]) linarith
  next
    case False
    have "evolves t (w\<lparr>reassemblies := js_set key r (reassemblies w)\<rparr>)"
    proof -
      have "evolves t w" unfolding w_def u_def by (intro evolving evolution.refl)
      with False show ?thesis by (simp add: evolves_def settings_def retained_def)
    qed
    then show ?thesis by (rule evolves_then[OF assms])
  qed
  then show ?thesis by (simp add: open_reassembly_def None Let_def split_beta u_def[symmetric] w_def[symmetric])
qed (simp add: open_reassembly_def assms)

lemma evolves_retimed [evolving]: "evolves s t \<Longrightarrow> evolves s (t\<lparr>reassemblies := map (\<lambda>(k, x). (k, f k x)) (reassemblies t)\<rparr>)"
proof (erule evolves_then)
  have "distinct (map (fst \<circ> (\<lambda>(k, x). (k, f k x))) m) = js_map_ok m" for m :: "(jstring \<times> reassembly) list"
    by (simp add: comp_def split_def)
  then show "evolves t (t\<lparr>reassemblies := map (\<lambda>(k, x). (k, f k x)) (reassemblies t)\<rparr>)"
    by (simp add: evolves_def settings_def bounds_ok_def fence_before_refl retained_def)
qed

section \<open>Identities that are committed\<close>

lemma admit_room:
  assumes "admit_operation m d i c r s = (None, t)" "deliveryClass m = Confirmed"
  shows "length (committedOperationIDs t) + additionalConfirmed c \<le> COMMITTED_OPERATION_ID_LIMIT"
  using assms by (auto simp: admit_operation_def Let_def split: if_splits)

lemma admit_not_ready: "admit_operation m d i c r s \<noteq> (Some (ReadyOutbound o1 n w), t)"
  by (auto simp: admit_operation_def Let_def split: if_splits)

lemma frame_outbound_ready:
  assumes "frame_outbound tx m i d f p u q c e s = (ReadyOutbound o1 n w, t)"
  shows "ob_delivery o1 = d" "ob_coalescingKey o1 = coalescingKey m" "ob_operationID o1 = i" "ob_identity o1 = f" "ob_message o1 = m"
  using assms by (auto simp: frame_outbound_def Let_def split: sum.splits prod.splits if_splits)

lemma vital_committed: "vital u = vital t \<Longrightarrow> committedOperationIDs u = committedOperationIDs t"
  by (simp add: vital_def)

lemma prepare_ready:
  assumes p: "prepareOutbound tx m d g u q c n r s = (ReadyOutbound o1 k w, t)"
  shows "ob_delivery o1 = deliveryClass m" "ob_coalescingKey o1 = coalescingKey m"
    "deliveryClass m = Confirmed \<Longrightarrow> length (committedOperationIDs t) + additionalConfirmed c \<le> COMMITTED_OPERATION_ID_LIMIT"
proof -
  obtain i s1 where i: "(case g of Some i \<Rightarrow> (i, s) | None \<Rightarrow> operationIDFor tx m d s) = (i, s1)" by fastforce
  obtain a s2 where a: "admit_operation m d i c r s1 = (a, s2)" by fastforce
  from p have a': "a = None" using a admit_not_ready[of m d i c r s1] by (auto simp: prepareOutbound_def i a Let_def split: option.splits)
  from p obtain payload where "serialize tx m = Inr payload" by (auto simp: prepareOutbound_def i a a' Let_def split: sum.splits)
  obtain f s3 where f: "(case r of Some i \<Rightarrow> (i, s2) | None \<Rightarrow> outboundIdentity tx m d i n s2) = (f, s3)" by fastforce
  have s3: "vital s3 = vital s2" using f vital_outboundIdentity[of tx m d i n s2] by (auto split: option.splits)
  have fo: "frame_outbound tx m i (deliveryClass m) f payload u q c (js_has (operationResults s3) i) s3 = (ReadyOutbound o1 k w, t)"
    using p \<open>serialize tx m = Inr payload\<close> by (simp add: prepareOutbound_def i a a' f)
  show "ob_delivery o1 = deliveryClass m" "ob_coalescingKey o1 = coalescingKey m" using frame_outbound_ready[OF fo] by simp_all
  have "committedOperationIDs t = committedOperationIDs s2"
    using vital_committed[OF vital_frame_outbound[of tx m i "deliveryClass m" f payload u q c "js_has (operationResults s3) i" s3]] vital_committed[OF s3]
    by (simp add: fo)
  then show "deliveryClass m = Confirmed \<Longrightarrow> length (committedOperationIDs t) + additionalConfirmed c \<le> COMMITTED_OPERATION_ID_LIMIT"
    using admit_room[OF a[unfolded a']] by simp
qed

lemma evolves_prepare [evolving]: "evolves s t \<Longrightarrow> evolves s (snd (prepareOutbound tx m d g u q c n r t))"
proof -
  assume *: "evolves s t"
  have i: "evolves s (snd (case g of Some i \<Rightarrow> (i, t) | None \<Rightarrow> operationIDFor tx m d t))"
    by (simp only: snd_branches snd_conv) (intro evolves_structure evolving *)
  have f: "evolves s u \<Longrightarrow> evolves s (snd (case r of Some i \<Rightarrow> (i, u) | None \<Rightarrow> outboundIdentity tx m d j n u))" for u j
    by (simp only: snd_branches snd_conv) (intro evolves_structure evolving)
  show ?thesis
    by (simp only: prepareOutbound_def snd_branches snd_conv) (intro evolves_structure evolving i f; assumption)
qed

end
