(* ===== verification/Transport_Safety.thy ===== *)
theory Transport_Safety
  imports Transport_Evolution Frame_Delivery
begin

text \<open>
  Every operation of the Link transport evolves its state, whatever the listeners do: the locale \<open>transport_host\<close> holds the listeners'
  contract and the operations' lemmas, its interpretation \<open>hosted\<close> discharges the contract for listeners that call the transport back to any
  depth. From that: the tables are bounded, packets of stale sources and other refused packets change only counters, a stopped transport is
  silent, and a message that comes again is answered but not handed over again.
\<close>

declare map_of_eq_Some_iff [simp del]

lemma evolves_count_duplicate [evolving]: "evolves s t \<Longrightarrow> evolves s (count_duplicate t)"
  unfolding count_duplicate_def by (intro evolving)

lemma evolves_prep:
  "(\<And>o1 n r. v = ReadyOutbound o1 n r \<Longrightarrow> evolves s (f1 o1 n r)) \<Longrightarrow> (\<And>x. v = ExistingResult x \<Longrightarrow> evolves s (f2 x)) \<Longrightarrow>
   (\<And>i x b. v = FailedPreparation i x b \<Longrightarrow> evolves s (f3 i x b)) \<Longrightarrow> (\<And>e. v = ThrownPreparation e \<Longrightarrow> evolves s (f4 e)) \<Longrightarrow>
   evolves s (case v of ReadyOutbound o1 n r \<Rightarrow> f1 o1 n r | ExistingResult x \<Rightarrow> f2 x | FailedPreparation i x b \<Rightarrow> f3 i x b | ThrownPreparation e \<Rightarrow> f4 e)"
  by (cases v) simp_all

lemma snd_prep:
  "snd (case v of ReadyOutbound o1 n r \<Rightarrow> f1 o1 n r | ExistingResult x \<Rightarrow> f2 x | FailedPreparation i x b \<Rightarrow> f3 i x b | ThrownPreparation e \<Rightarrow> f4 e) =
   (case v of ReadyOutbound o1 n r \<Rightarrow> snd (f1 o1 n r) | ExistingResult x \<Rightarrow> snd (f2 x) | FailedPreparation i x b \<Rightarrow> snd (f3 i x b) | ThrownPreparation e \<Rightarrow> snd (f4 e))"
  by (cases v) simp_all

lemma evolves_await:
  assumes "evolves s t" "length (pendingInbound t) < confirmedLimit t" "length (settledInbound t) + length (pendingInbound t) < SETTLED_INBOUND_LIMIT"
  shows "evolves s (await_settlement m f i p t)"
proof (rule evolves_then[OF assms(1)])
  have "bounds_ok (t\<lparr>timers := ts, nextTimer := nt, pendingInbound := js_set i x (pendingInbound t)\<rparr>)" if b: "bounds_ok t" for x ts nt
  proof -
    have "fst ` set (settledInbound t) \<union> fst ` set (js_set i x (pendingInbound t)) = insert i (fst ` set (settledInbound t) \<union> fst ` set (pendingInbound t))"
      by (auto simp: update_keys)
    moreover have "card \<dots> \<le> SETTLED_INBOUND_LIMIT" using b assms(3) by (intro card_room) (simp_all add: bounds_ok_def)
    ultimately show ?thesis using b assms(2) update_length[of i x "pendingInbound t"] by (simp add: bounds_ok_def update_ok)
  qed
  then show "evolves t (await_settlement m f i p t)"
    by (auto simp: await_settlement_def schedule_def Let_def evolves_def settings_def fence_before_refl retained_def js_has_def js_lookup)
qed

lemma evolves_reserve [evolving]:
  assumes "evolves s t"
  shows "evolves s (snd (reserveTaskDelivery tx m d i t))"
proof -
  have reserve: "evolves s (u\<lparr>sourceSequence := n, reservedTaskIDs := js_set i f (reservedTaskIDs u)\<rparr>)"
    if "evolves s u" "\<not> TASK_RESERVATION_LIMIT \<le> length (reservedTaskIDs u)" for u n f
    using that(2) update_length[of i f "reservedTaskIDs u"]
    by (intro evolves_then[OF that(1)]) (simp add: evolves_def settings_def bounds_ok_def fence_before_refl retained_def update_ok)
  show ?thesis
    by (simp only: reserveTaskDelivery_def snd_branches snd_conv) (intro reserve evolves_structure evolving assms; assumption)
qed

section \<open>Listeners\<close>

text \<open>The listeners' side: whatever they do to the transport, they do through operations that evolve it.\<close>

locale transport_host =
  fixes tx :: transport_env
  assumes listen_evolves: "evolves s (listen tx e s)"
    and capacity_evolves: "evolves s (capacity_available tx s)"
begin

lemma emit_event_evolves [evolving]: "evolves s t \<Longrightarrow> evolves s (emit_event tx e t)"
  unfolding emit_event_def by (rule evolves_then[OF _ listen_evolves]) (intro evolving)

lemma available_evolves [evolving]: "evolves s t \<Longrightarrow> evolves s (emitCapacityAvailable tx t)"
  unfolding emitCapacityAvailable_def by (rule evolves_then[OF _ capacity_evolves])

lemma failedResult_evolves [evolving]: "evolves s t \<Longrightarrow> evolves s (snd (failedResult tx i r t))"
  by (simp only: failedResult_def snd_branches snd_conv) (intro evolves_structure evolving; assumption)

lemma completeOutbound_evolves [evolving]: "evolves s t \<Longrightarrow> evolves s (completeOutbound tx a st r t)"
  by (simp only: completeOutbound_def) (intro evolves_structure evolving; assumption)

lemma failBestEffort_evolves [evolving]: "evolves s t \<Longrightarrow> evolves s (failBestEffort tx a r t)"
  by (simp only: failBestEffort_def) (intro evolves_structure evolving; assumption)

lemma replace_evolves [evolving]: "evolves s t \<Longrightarrow> evolves s (replaceQueuedBestEffort tx k t)"
  by (simp only: replaceQueuedBestEffort_def) (intro evolves_structure evolving; assumption)

lemma commit_expiry_evolves [evolving]: "evolves s t \<Longrightarrow> evolves s (committed_expiry_callback tx t)"
  unfolding committed_expiry_callback_def by (intro evolving)

lemma stop_evolves [evolving]: "evolves s t \<Longrightarrow> evolves s (stop tx r t)"
proof -
  assume t: "evolves s t"
  define u where "u = t\<lparr>stopped := True, paused := True\<rparr>"
  have u: "evolves s u" "stopped u" unfolding u_def by (intro evolving evolves_stopping(1) t) simp
  show ?thesis
  proof (cases "stopped t")
    case False
    have "evolves u (stop tx r t)"
      by (simp only: stop_def False if_False stop_one_def[abs_def] u_def[symmetric])
        (intro evolves_structure evolving evolves_stopping(2)[OF u(2)] evolves_fold evolution.refl; assumption)
    then show ?thesis by (rule evolves_then[OF u(1)])
  qed (use t in \<open>simp add: stop_def\<close>)
qed

lemma disconnect_evolves [evolving]: "evolves s t \<Longrightarrow> evolves s (handleRadioDisconnect tx r t)"
  by (simp only: handleRadioDisconnect_def) (intro evolves_structure evolving; assumption)

lemma cancel_operation_evolves [evolving]: "evolves s t \<Longrightarrow> evolves s (snd (cancel_operation tx i r t))"
  by (simp only: cancel_operation_def snd_branches snd_conv) (intro evolves_structure evolving; assumption)

end

lemma evolves_leave_delivery: "evolves s t \<Longrightarrow> evolves s (t\<lparr>store := x, nextAddress := a, reservedTaskIDs := js_delete i (reservedTaskIDs t), queue := q\<rparr>)"
proof -
  assume "evolves s t"
  from evolves_leave(1)[OF this, of i] show ?thesis by (rule evolves_vital) (simp add: vital_def settings_def)
qed

lemma evolves_track:
  assumes "evolves s t" "length (committedOperationIDs t) < COMMITTED_OPERATION_ID_LIMIT"
  shows "evolves s (track_confirmed o1 a t)"
proof -
  have id: "evolves s (t\<lparr>committedOperationIDs := js_set i x (committedOperationIDs t)\<rparr>)" for i x
    using update_length[of i x "committedOperationIDs t"] assms(2)
    by (intro evolves_then[OF assms(1)]) (simp add: evolves_def settings_def bounds_ok_def fence_before_refl retained_def update_ok)
  show ?thesis
    unfolding track_confirmed_def Let_def[of "ob_operationID o1"] by (intro id evolves_structure evolving; assumption)
qed

text \<open>A control message is best effort and is never coalesced.\<close>

lemma control_class: "deliveryClass (control_message c i m) = BestEffort" "coalescingKey (control_message c i m) = None"
  by (simp_all add: deliveryClass_def coalescingKey_def control_message_def lit_def field_is_def field_of_def)

context transport_host
begin

lemma enqueue_evolves [evolving]: "evolves s t \<Longrightarrow> evolves s (snd (enqueue_outbound tx o1 r t))"
  by (simp only: enqueue_outbound_def snd_branches snd_conv) (intro evolves_structure evolving evolves_leave_delivery; assumption)

lemma enqueue_committed: "ob_delivery o1 = Confirmed \<or> ob_coalescingKey o1 = None \<Longrightarrow> committedOperationIDs (snd (enqueue_outbound tx o1 r t)) = committedOperationIDs t"
  by (auto simp: enqueue_outbound_def Let_def)

lemma commit_evolves:
  assumes "evolves s t" "ob_delivery o1 = Confirmed \<Longrightarrow> length (committedOperationIDs t) < COMMITTED_OPERATION_ID_LIMIT"
  shows "evolves s (snd (commitOutbound tx o1 n r p w t))"
proof -
  have track: "evolves s (track_confirmed o1 a u)" if "enqueue_outbound tx o1 r t = (a, u)" "evolves s u" "ob_delivery o1 = Confirmed" for a u
    using enqueue_committed[of o1 r t] assms(2) that by (intro evolves_track[OF that(2)]) simp
  show ?thesis
    by (simp only: commitOutbound_def snd_branches snd_conv) (intro evolves_structure evolving track assms(1); assumption)
qed

lemma commit_committed:
  assumes "ob_delivery o1 = BestEffort" "ob_coalescingKey o1 = None"
  shows "committedOperationIDs (snd (commitOutbound tx o1 n r p w t)) = committedOperationIDs t"
proof -
  have "vital (snd (commitOutbound tx o1 n r p w t)) = vital (snd (enqueue_outbound tx o1 r t))"
    by (simp add: commitOutbound_def assms(1) Let_def split_beta vitals)
  then show ?thesis using enqueue_committed[of o1 r t] assms(2) by (simp add: vital_def)
qed

lemma submitWithCapacity_evolves [evolving]: 
  assumes "evolves s t"
  shows "evolves s (snd (submitWithCapacity tx m d g u q r t))"
proof -
  have ready: "evolves s (snd (commitOutbound tx o1 n w True True v))"
    if "prepareOutbound tx m d g u q (default_capacity m) k r t = (ReadyOutbound o1 n w, v)" "evolves s v" for o1 n w v k
    using prepare_ready(1,3)[OF that(1)] by (intro commit_evolves[OF that(2)]) (simp add: default_capacity_def)
  show ?thesis
    by (simp only: submitWithCapacity_def snd_branches snd_prep snd_conv)
      (intro evolves_structure evolves_prep evolving ready assms; (assumption | simp only:)?)
qed

lemma submit_evolves [evolving]: "evolves s t \<Longrightarrow> evolves s (snd (submit tx m d g t))"
  unfolding submit_def by (intro evolving)

lemma dispatch_evolves [evolving]: "evolves s t \<Longrightarrow> evolves s (snd (dispatch_reserved tx m d i f c t))"
  by (simp only: dispatch_reserved_def snd_branches snd_conv) (intro evolves_structure evolving; assumption)

lemma sendControl_evolves [evolving]: "evolves s t \<Longrightarrow> evolves s (snd (sendControl tx d m u q t))"
  by (simp only: sendControl_def snd_branches snd_conv) (intro evolves_structure evolving; assumption)

lemma settleInbound_evolves [evolving]: "evolves s t \<Longrightarrow> evolves s (snd (settleInbound tx i b r t))"
  by (simp only: settleInbound_def snd_branches snd_conv) (intro evolves_structure evolving; assumption)

lemma announce_evolves [evolving]: "evolves s t \<Longrightarrow> evolves s (snd (announceSourceActivation tx n g i t))"
  by (simp only: announceSourceActivation_def snd_branches snd_conv) (intro evolves_structure evolving; assumption)

end

lemma evolves_transmit:
  assumes "evolves s t" "\<not> stopped s"
  shows "evolves s (t\<lparr>sending := f, radioed := r\<rparr>)"
proof -
  have "bounds_ok (t\<lparr>sending := f, radioed := r\<rparr>) = bounds_ok t" by (simp add: bounds_ok_def)
  with assms show ?thesis by (simp add: evolves_def settings_def retained_def)
qed

lemma evolves_split: "(\<And>x y. p = (x, y) \<Longrightarrow> evolves s (f x y)) \<Longrightarrow> evolves s (case p of (x, y) \<Rightarrow> f x y)"
  by (cases p) simp

lemma evolves_resettle:
  assumes "evolves s t" "js_get (settledInbound t) i = Some x"
  shows "evolves s (t\<lparr>settledInbound := js_set i (x\<lparr>si_atomicTask := z\<rparr>) (settledInbound t)\<rparr>)"
proof (rule evolves_then[OF assms(1)])
  have "fst ` set (js_set i (x\<lparr>si_atomicTask := z\<rparr>) (settledInbound t)) = fst ` set (settledInbound t)"
    using assms(2) has_key[of "settledInbound t" i] by (auto simp: update_keys js_has_def)
  moreover have "retained j d (t\<lparr>settledInbound := js_set i (x\<lparr>si_atomicTask := z\<rparr>) (settledInbound t)\<rparr>)" if "retained j d t" for j d
    using that assms(2) by (cases "j = i") (auto simp: retained_def js_lookup)
  ultimately show "evolves t (t\<lparr>settledInbound := js_set i (x\<lparr>si_atomicTask := z\<rparr>) (settledInbound t)\<rparr>)"
    by (simp add: evolves_def settings_def bounds_ok_def fence_before_refl update_ok)
qed

context transport_host
begin

lemma commit_settlement_evolves:
  assumes "evolves s t" "ob_delivery (fst receipt) = BestEffort" "ob_coalescingKey (fst receipt) = None"
    "ob_delivery (fst report) = Confirmed \<Longrightarrow> length (committedOperationIDs t) < COMMITTED_OPERATION_ID_LIMIT"
  shows "evolves s (snd (commit_settlement tx i f pending receipt report t))"
proof -
  have first: "evolves s (snd (commitOutbound tx (fst receipt) n1 r1 False False t))" for n1 r1
    by (rule commit_evolves[OF assms(1)]) (simp add: assms(2))
  have second: "evolves s (snd (commitOutbound tx (fst report) n2 r2 False False v))"
    if "commitOutbound tx (fst receipt) n1 r1 False False t = (x, v)" "evolves s v" for n1 r1 n2 r2 x v
    using commit_committed[OF assms(2,3), of n1 r1 False False t] that(1) assms(4) by (intro commit_evolves[OF that(2)]) simp
  show ?thesis
    by (simp only: commit_settlement_def snd_branches snd_conv) (intro evolves_structure evolving first second evolves_resettle; assumption)
qed

lemma settleWithReport_evolves [evolving]:
  assumes "evolves s t"
  shows "evolves s (snd (settleInboundWithTaskReport tx i m d g t))"
proof -
  have accept: "evolves s (snd (commit_settlement tx i f pending (ro, rn, rr) (po, pn, pr) w))"
    if "prepareOutbound tx (control_message c j k) d1 g1 False q1 c1 n1 None v1 = (ReadyOutbound ro rn rr, v2)"
      "prepareOutbound tx m d2 g2 False q2 \<lparr>additionalOutbound = 2, pendingInboundDelta = -1, additionalConfirmed = 1\<rparr> n2 None v2 = (ReadyOutbound po pn pr, w)"
      "evolves s w" for f pending ro rn rr po pn pr v1 v2 w c j k d1 g1 q1 c1 n1 d2 g2 q2 n2
    using prepare_ready[OF that(1)] prepare_ready[OF that(2)]
    by (intro commit_settlement_evolves[OF that(3)]) (simp_all add: control_class)
  show ?thesis
    by (simp only: settleInboundWithTaskReport_def refuse_settlement_def snd_branches snd_prep snd_conv)
      (intro evolves_structure evolves_split evolves_prep evolving assms; (assumption | rule accept; (simp only: | assumption))?)
qed

lemma afterAllChunksSent_evolves [evolving]: "evolves s t \<Longrightarrow> evolves s (afterAllChunksSent tx a t)"
  by (simp only: afterAllChunksSent_def) (intro evolves_structure evolving; assumption)

lemma recordPhysicalSend_evolves [evolving]: "evolves s t \<Longrightarrow> evolves s (recordPhysicalSend tx a f c t)"
  by (simp only: recordPhysicalSend_def) (intro evolves_structure evolving; assumption)

lemma finishPair_evolves [evolving]: "evolves s t \<Longrightarrow> evolves s (finishCompoundReceiptPair tx a p t)"
  by (simp only: finishCompoundReceiptPair_def) (intro evolves_structure evolving; assumption)

lemma pairFailure_evolves [evolving]: "evolves s t \<Longrightarrow> evolves s (handleCompoundReceiptFailure tx a p t)"
  by (simp only: handleCompoundReceiptFailure_def) (intro evolves_structure evolving; assumption)

lemma pump_finally_evolves [evolving]: "evolves s t \<Longrightarrow> evolves s (pump_finally tx d t)"
  by (simp only: pump_finally_def) (intro evolves_structure evolving; assumption)

lemma pump_start_evolves:
  shows "evolves s (pump_start tx s)"
  by (simp only: pump_start_def) (intro evolves_structure evolving evolves_transmit evolution.refl; (assumption | simp))

lemma send_failed_evolves [evolving]: "evolves s t \<Longrightarrow> evolves s (send_failed tx f e t)"
  by (simp only: send_failed_def) (intro evolves_structure evolving; assumption)

lemma send_succeeded_evolves [evolving]: "evolves s t \<Longrightarrow> evolves s (snd (send_succeeded tx f t))"
  by (simp only: send_succeeded_def snd_branches snd_conv) (intro evolves_structure evolving; assumption)

lemma pump_end_evolves [evolving]: "evolves s t \<Longrightarrow> evolves s (pump_end tx f t)"
  by (simp only: pump_end_def) (intro evolves_structure evolving; assumption)

lemma pump_callback_evolves [evolving]: "evolves s t \<Longrightarrow> evolves s (pump_callback tx t)"
  by (simp only: pump_callback_def) (intro evolves_structure evolving evolves_then[OF _ pump_start_evolves]; assumption)

lemma deadline_evolves [evolving]: "evolves s t \<Longrightarrow> evolves s (deadline_callback tx a t)"
  by (simp only: deadline_callback_def) (intro evolves_structure evolving; assumption)

lemma answers_evolve [evolving]:
  "evolves s t \<Longrightarrow> evolves s (rejectAddressedMessage tx f r p t)" "evolves s t \<Longrightarrow> evolves s (rejectInboundCapacity tx f i p r t)"
  unfolding rejectAddressedMessage_def rejectInboundCapacity_def by (intro evolving; assumption)+

lemma expirePending_evolves [evolving]: "evolves s t \<Longrightarrow> evolves s (expirePendingInbound tx i t)"
  by (simp only: expirePendingInbound_def) (intro evolves_structure evolving; assumption)

lemma confirmAwaiting_evolves [evolving]: "evolves s t \<Longrightarrow> evolves s (confirmAwaitingResponseTransport tx a t)"
  by (simp only: confirmAwaitingResponseTransport_def) (intro evolves_structure evolving; assumption)

lemma completeDataRequest_evolves [evolving]: "evolves s t \<Longrightarrow> evolves s (completeDataRequest tx m f t)"
  by (simp only: completeDataRequest_def) (intro evolves_structure evolving; assumption)

lemma handleControl_evolves [evolving]: "evolves s t \<Longrightarrow> evolves s (handleControl tx m f t)"
  by (simp only: handleControl_def) (intro evolves_structure evolving; assumption)

lemma handleCompoundReceipt_evolves [evolving]: "evolves s t \<Longrightarrow> evolves s (handleCompoundReceipt tx f t)"
  by (simp only: handleCompoundReceipt_def) (intro evolves_structure evolving; assumption)

lemma publish_evolves [evolving]: "evolves s t \<Longrightarrow> evolves s (publish_message tx m f q b t)"
  by (simp only: publish_message_def) (intro evolves_structure evolving; assumption)

lemma settle_or_publish_evolves [evolving]: "evolves s t \<Longrightarrow> evolves s (settle_or_publish tx m f p q t)"
  by (simp only: settle_or_publish_def) (intro evolves_structure evolving evolves_await; (assumption | simp))

lemma route_evolves [evolving]: "evolves s t \<Longrightarrow> evolves s (route_message tx m f p t)"
  by (simp only: route_message_def) (intro evolves_structure evolving; assumption)

lemma handle_decoded_evolves [evolving]: "evolves s t \<Longrightarrow> evolves s (handle_decoded tx m bs b f p t)"
  by (simp only: handle_decoded_def) (intro evolves_structure evolving; assumption)

lemma handleCompleteMessage_evolves [evolving]: "evolves s t \<Longrightarrow> evolves s (handleCompleteMessage tx f bs p t)"
  by (simp only: handleCompleteMessage_def) (intro evolves_structure evolves_split evolving; assumption)

lemma expireReassembly_evolves [evolving]: "evolves s t \<Longrightarrow> evolves s (expireReassembly tx k t)"
  by (simp only: expireReassembly_def) (intro evolves_structure evolving; assumption)

end

context transport_host
begin

lemma collect_frame_evolves [evolving]:
  assumes "evolves s t"
  shows "evolves s (collect_frame tx f p t)"
proof -
  let ?key = "reassembly_key (frame_identity_of f)"
  obtain r u where o: "open_reassembly ?key f p t = (r, u)" by fastforce
  have u: "evolves s u" using evolves_open[OF assms, of ?key f p] by (simp add: o)
  have timed: "evolves s (snd (schedule d c (cancel_timer h u)))" for d c h by (intro evolving u)
  have kept: "reassemblies (snd (schedule d c (cancel_timer h u))) = reassemblies u" for d c h
    by (simp add: schedule_def cancel_timer_def split: option.split)
  have stored: "evolves s ((snd (schedule d c (cancel_timer h u)))\<lparr>reassemblies := js_set ?key x (reassemblies (snd (schedule d c (cancel_timer h u))))\<rparr>)" for d c h x
    by (rule evolves_restore[OF timed]) (simp add: kept open_has[OF o])
  show ?thesis
    by (simp only: collect_frame_def o Let_def split_beta fst_conv snd_conv) (intro stored evolves_if evolves_option evolving u)
qed

lemma receive_evolves [evolving]: "evolves s t \<Longrightarrow> evolves s (receive tx p t)"
  by (simp only: receive_def) (intro evolves_structure evolving; assumption)

lemma run_callback_evolves [evolving]: "evolves s t \<Longrightarrow> evolves s (run_callback tx c t)"
  by (cases c) (simp_all only: run_callback_def timer_callback.case, (intro evolving; assumption)+)

lemma fire_evolves [evolving]: "evolves s t \<Longrightarrow> evolves s (fire tx h t)"
  by (simp only: fire_def) (intro evolves_structure evolves_split evolving; assumption)

lemma step_evolves: "evolves s (transport_step tx s c)"
  by (cases c) (simp_all only: transport_step.simps, (intro evolving evolution.refl)+)

lemma run_evolves: "evolves s (transport_run tx s calls)"
proof (induction calls arbitrary: s)
  case (Cons c cs)
  have "transport_run tx s (c # cs) = transport_run tx (transport_step tx s c) cs" by (simp add: transport_run_def)
  with evolves_then[OF step_evolves Cons] show ?case by metis
qed (simp add: transport_run_def evolution.refl)

end

lemma reentrant_host: "transport_host (reentrant n script capacity tx)"
proof (induction n)
  case 0
  show ?case by unfold_locales (simp_all add: evolution.refl)
next
  case (Suc n)
  show ?case by unfold_locales (simp_all add: transport_host.run_evolves[OF Suc])
qed

interpretation hosted: transport_host "reentrant n script capacity tx" for n script capacity tx
  by (rule reentrant_host)

lemma reentrant_codec [simp]: "tx_codec (reentrant n script capacity tx) = tx_codec tx"
  by (cases n) simp_all

lemma positiveBounded: "positiveBoundedInteger v lo hi = Inr x \<Longrightarrow> x = v \<and> lo \<le> x \<and> x \<le> hi"
  by (simp add: positiveBoundedInteger_def split: if_splits)

text \<open>A gateway that has just started, with an instance of the code it calls.\<close>

definition hosted_env :: transport_env where
  "hosted_env = \<lparr>tx_codec = demo_codec,
     tx_delta = \<lparr>env_sdk = \<lparr>sdk_is = (\<lambda>_ _. True), date_parse = (\<lambda>_. None), sha256_hex = (\<lambda>_. [])\<rparr>, env_stringify = (\<lambda>_. []),
       env_text = (\<lambda>_. []), env_parse = (\<lambda>_. None), env_unwrap = Inr\<rparr>,
     tx_picture = \<lparr>penv_sdk = \<lparr>sdk_is = (\<lambda>_ _. True), date_parse = (\<lambda>_. None), sha256_hex = (\<lambda>_. [])\<rparr>, penv_number = (\<lambda>_. [0x30]),
       penv_iso = (\<lambda>_. []), locale_compare = (\<lambda>_ _. 0), listener_throws = (\<lambda>_ _. False)\<rparr>,
     settlement_digest = (\<lambda>_. [1]), report_digest = (\<lambda>_. [2]), jitter_sample = (\<lambda>_. 0), createID = (\<lambda>n. replicate (n + 1) 97),
     radio_limit = (\<lambda>_. 233), radio_pacing = (\<lambda>_. 0), response_valid = (\<lambda>_ _ _. True), listen = (\<lambda>_ s. s), capacity_available = (\<lambda>s. s)\<rparr>"

definition gateway_node :: link_node where
  "gateway_node = \<lparr>node_role = GatewayRole, node_id = [103]\<rparr>"

definition gateway_options :: transport_options where
  "gateway_options = \<lparr>opt_node = gateway_node, opt_sourceGeneration = 0, opt_serviceSession = Some [98], opt_frameEncoding = None,
     opt_adaptiveRetries = False, opt_stateDeltas = False, opt_picture = None, opt_privateChannel = None, opt_queueLimit = None,
     opt_confirmedLimit = None, opt_reassemblyLimit = None, opt_reassemblyTimeoutMs = None, opt_retryJitterMs = None, opt_retryIntervalMs = None\<rparr>"

lemma gateway_starts:
  "\<exists>s. new_transport hosted_env gateway_options 0 = Inr s \<and> node s = gateway_node \<and> privateChannel s = 1 \<and> \<not> stopped s \<and> time s = 0 \<and>
     reassemblies s = [] \<and> sourceFences s = [] \<and> settledInbound s = [] \<and> pendingInbound s = [] \<and> activeObjectMessageID s = None"
proof -
  have "check_options gateway_options [98] = Inr [1, 64, 64, 64, 10000, 0]"
    by (simp add: check_options_def gateway_options_def gateway_node_def validateLinkNode_def non_blank_def js_space_def is_safe_integer_def
        max_safe_integer_def positiveBoundedInteger_def or_else_def)
  then show ?thesis
    by (simp add: new_transport_def or_else_def gateway_options_def[THEN arg_cong, of opt_serviceSession] new_decoder_def positiveInteger_def
        is_safe_integer_def max_safe_integer_def DEFAULT_MAX_BASELINES_def Let_def)
      (simp add: gateway_options_def)
qed

lemma new_transport_bounds:
  assumes "new_transport tx options now = Inr s"
  shows "bounds_ok s" "reassemblyLimit s \<le> 4096" "confirmedLimit s \<le> 4096"
proof -
  obtain ints where c: "check_options options (or_else (opt_serviceSession options) (createID tx 0)) = Inr ints"
    using assms by (auto simp: new_transport_def Let_def bind_result_def split: sum.splits)
  have "1 \<le> ints ! 3 \<and> ints ! 3 \<le> 4096 \<and> 1 \<le> ints ! 2 \<and> ints ! 2 \<le> 4096"
    using c by (auto simp: check_options_def bind_result_def positiveBoundedInteger_def split: sum.splits if_splits)
  then have i: "1 \<le> nat (ints ! 3)" "nat (ints ! 3) \<le> 4096" "nat (ints ! 2) \<le> 4096" by auto
  from assms i show "bounds_ok s" "reassemblyLimit s \<le> 4096" "confirmedLimit s \<le> 4096"
    by (auto simp: new_transport_def c bind_result_def bounds_ok_def Let_def split: sum.splits)
qed

text \<open>C18: however the transport is used, its tables stay within their limits: whatever calls are made, whatever packets arrive, whichever timers fire
  and whatever the listeners do from within an event, it never holds more reassemblies than the configured limit, more than the known number of
  source fences, more unsettled messages than the confirmed limit, or more than 4096 settlements, Task delivery fences and committed identities and
  8192 reserved Tasks.
\<close>

theorem transport_bounded:
  assumes "new_transport tx options now = Inr s0"
  shows "let s = transport_run (reentrant n script capacity tx) s0 calls in
    length (reassemblies s) \<le> reassemblyLimit s \<and> reassemblyLimit s \<le> 4096 \<and> length (sourceFences s) \<le> LINK_SOURCE_IDENTITY_LIMIT \<and>
    length (pendingInbound s) \<le> confirmedLimit s \<and> confirmedLimit s \<le> 4096 \<and> length (settledInbound s) \<le> SETTLED_INBOUND_LIMIT \<and>
    length (taskDeliverySequences s) \<le> TASK_DELIVERY_FENCE_LIMIT \<and> length (committedOperationIDs s) \<le> COMMITTED_OPERATION_ID_LIMIT \<and>
    length (reservedTaskIDs s) \<le> TASK_RESERVATION_LIMIT"
proof -
  define s where "s = transport_run (reentrant n script capacity tx) s0 calls"
  have e: "evolves s0 s" unfolding s_def by (rule hosted.run_evolves)
  then have b: "bounds_ok s" "settings s = settings s0" using new_transport_bounds(1)[OF assms] by (simp_all add: evolves_def)
  have "length (settledInbound s) \<le> card (fst ` set (settledInbound s) \<union> fst ` set (pendingInbound s))"
    using card_mono[of "fst ` set (settledInbound s) \<union> fst ` set (pendingInbound s)" "fst ` set (settledInbound s)"] b(1)
    by (simp add: card_keys bounds_ok_def)
  with b new_transport_bounds(2,3)[OF assms] show ?thesis
    unfolding s_def[symmetric] Let_def by (simp add: bounds_ok_def settings_def)
qed

theorem transport_bounded_witness:
  "\<exists>s0. new_transport hosted_env gateway_options 0 = Inr s0 \<and>
     (let s = transport_run (reentrant 1 (\<lambda>_ _. [ResumeCall]) (\<lambda>_. []) hosted_env) s0 [TimeCall 5, PauseCall] in
      length (reassemblies s) \<le> reassemblyLimit s \<and> reassemblyLimit s \<le> 4096 \<and> length (sourceFences s) \<le> LINK_SOURCE_IDENTITY_LIMIT \<and>
      length (pendingInbound s) \<le> confirmedLimit s \<and> confirmedLimit s \<le> 4096 \<and> length (settledInbound s) \<le> SETTLED_INBOUND_LIMIT \<and>
      length (taskDeliverySequences s) \<le> TASK_DELIVERY_FENCE_LIMIT \<and> length (committedOperationIDs s) \<le> COMMITTED_OPERATION_ID_LIMIT \<and>
      length (reservedTaskIDs s) \<le> TASK_RESERVATION_LIMIT)"
  using gateway_starts transport_bounded[where tx = hosted_env and options = gateway_options and now = 0 and n = 1
    and script = "\<lambda>_ _. [ResumeCall]" and capacity = "\<lambda>_. []" and calls = "[TimeCall 5, PauseCall]"] by blast

section \<open>Packets that are refused\<close>

lemma same_counters: "s\<lparr>mutableMetrics := mutableMetrics s\<rparr> = (s :: transport)"
  by simp

lemma measure_counters: "measure_by f s = s\<lparr>mutableMetrics := mutableMetrics (measure_by f s)\<rparr>"
  by (simp add: measure_by_def)

definition refused :: "transport_env \<Rightarrow> radio_packet \<Rightarrow> transport \<Rightarrow> bool" where
  "refused tx packet s \<longleftrightarrow> stopped s \<or> rp_channel packet \<noteq> privateChannel s \<or>
     (case decodeFrame (tx_codec tx) (rp_payload packet) of
        Inl _ \<Rightarrow> True
      | Inr frame \<Rightarrow>
          let i = frame_identity_of frame in
          sameNode (fr_source i) (node s) \<or> fst (checkSourceFence (fr_source i) (fr_source_generation i) (fr_service_session i) s) \<noteq> None \<or>
          fr_message_type i \<noteq> ObjectContentMessage \<and>
            (case js_get (reassemblies s) (reassembly_key i) of None \<Rightarrow> False | Some r \<Rightarrow> \<not> sameFrameSet r frame))"

lemma check_counts: "snd (checkSourceFence n g i s) = s\<lparr>mutableMetrics := mutableMetrics (snd (checkSourceFence n g i s))\<rparr>"
  by (simp add: checkSourceFence_def measure_by_def split: option.split)

lemma check_counted: "fst (checkSourceFence n g i (measure_by f s)) = fst (checkSourceFence n g i s)"
  by (simp add: checkSourceFence_def measure_by_def split: option.split)

lemma refused_counts:
  assumes "refused tx packet s"
  shows "receive tx packet s = s\<lparr>mutableMetrics := mutableMetrics (receive tx packet s)\<rparr>"
proof (cases "stopped s \<or> rp_channel packet \<noteq> privateChannel s")
  case False
  define u where "u = measure_by (\<lambda>m. m\<lparr>packets_received := packets_received m + 1\<rparr>) s"
  have u: "u = s\<lparr>mutableMetrics := mutableMetrics u\<rparr>" unfolding u_def by (rule measure_counters)
  have stays: "t = s\<lparr>mutableMetrics := mutableMetrics t\<rparr>" if "t = u\<lparr>mutableMetrics := mutableMetrics t\<rparr>" for t
    using that by (subst (asm) u) simp
  show ?thesis
  proof (cases "decodeFrame (tx_codec tx) (rp_payload packet)")
    case (Inl e)
    have "receive tx packet s = measure_by (\<lambda>m. m\<lparr>malformed_frames := malformed_frames m + 1\<rparr>) u" using False Inl by (simp add: receive_def u_def)
    then show ?thesis using stays[of "receive tx packet s"] measure_counters by metis
  next
    case (Inr frame)
    let ?i = "frame_identity_of frame"
    obtain r v where c: "checkSourceFence (fr_source ?i) (fr_source_generation ?i) (fr_service_session ?i) u = (r, v)" by fastforce
    have node: "node u = node s" "reassemblies u = reassemblies s" by (simp_all add: u_def measure_by_def)
    have "fst (checkSourceFence (fr_source ?i) (fr_source_generation ?i) (fr_service_session ?i) s) = r"
      using check_counted[of "fr_source ?i" "fr_source_generation ?i" "fr_service_session ?i" _ s] c unfolding u_def by (metis fst_conv)
    then have cases: "sameNode (fr_source ?i) (node s) \<or> r \<noteq> None \<or> fr_message_type ?i \<noteq> ObjectContentMessage \<and>
        (\<exists>x. js_get (reassemblies s) (reassembly_key ?i) = Some x \<and> \<not> sameFrameSet x frame)"
      using assms False Inr by (auto simp: refused_def Let_def split: option.splits)
    have received: "receive tx packet s = (if sameNode (fr_source ?i) (node s) then u else if r \<noteq> None then v
        else if fr_message_type ?i = ObjectContentMessage then (case expectsObjectContent tx ?i v of (expected, w) \<Rightarrow> if expected then collect_frame tx frame packet w else w)
        else collect_frame tx frame packet v)"
      using False Inr c node(1) unfolding receive_def u_def by (auto simp: Let_def split: option.split)
    have "receive tx packet s = u \<or> receive tx packet s = v"
      using cases node check_passes[of "fr_source ?i" "fr_source_generation ?i" "fr_service_session ?i" u v] c
      by (auto simp: received Let_def collect_frame_def open_reassembly_def split: option.splits)
    moreover have "v = u\<lparr>mutableMetrics := mutableMetrics v\<rparr>"
      using check_counts[of "fr_source ?i" "fr_source_generation ?i" "fr_service_session ?i" u] by (simp add: c)
    ultimately show ?thesis using stays[of v] u by metis
  qed
qed (auto simp: receive_def)



text \<open>C14: a source that was superseded is never heard again. Once the fence of a source is set, then after any calls, packets and timers, and whatever the
  listeners do, a packet of that source with an older generation, or with the same generation and another session, changes nothing but counters.
\<close>

theorem stale_source_silent:
  assumes "js_get (sourceFences s) (node_key source) = Some fence"
    and "decodeFrame (tx_codec tx) (rp_payload packet) = Inr frame" and "fr_source (frame_identity_of frame) = source"
    and "stale_fence (fr_source_generation (frame_identity_of frame)) (fr_service_session (frame_identity_of frame)) fence"
  shows "let t = transport_run (reentrant n script capacity tx) s calls; u = receive (reentrant n script capacity tx) packet t
    in u = t\<lparr>mutableMetrics := mutableMetrics u\<rparr>"
proof -
  define t where "t = transport_run (reentrant n script capacity tx) s calls"
  have "evolves s t" unfolding t_def by (rule hosted.run_evolves)
  then obtain g where g: "js_get (sourceFences t) (node_key source) = Some g" "fence_before fence g"
    using assms(1) unfolding evolves_def by blast
  then have "stale_fence (fr_source_generation (frame_identity_of frame)) (fr_service_session (frame_identity_of frame)) g"
    using assms(4) by (auto simp: stale_fence_def fence_before_def)
  then have "refused (reentrant n script capacity tx) packet t" using assms(2,3) g(1) by (simp add: refused_def checkSourceFence_def)
  then show ?thesis unfolding Let_def t_def[symmetric] by (rule refused_counts)
qed

lemma demo_frame_decodes: "\<exists>c. decodeFrame demo_codec demo_frame = Inr (frame_of demo_identity 0 1 c)"
  using fragments_deliver[OF demo_frames(1) demo_codec_laws _ demo_frames(2)] by (auto simp: delivers_def carries_def)

theorem stale_source_silent_witness:
  "\<exists>s0. new_transport hosted_env gateway_options 0 = Inr s0 \<and>
     (let s = s0\<lparr>sourceFences := [(node_key (fr_source demo_identity), \<lparr>fence_generation = 2, fence_session = [98]\<rparr>)]\<rparr>;
          tx = reentrant 1 (\<lambda>_ _. [ResumeCall]) (\<lambda>_. []) hosted_env; t = transport_run tx s [TimeCall 9];
          u = receive tx \<lparr>rp_payload = demo_frame, rp_received_at = 9, rp_radio_packet_id = None, rp_channel = 1\<rparr> t
      in u = t\<lparr>mutableMetrics := mutableMetrics u\<rparr>)"
proof -
  obtain s0 where s0: "new_transport hosted_env gateway_options 0 = Inr s0" using gateway_starts by blast
  obtain c where c: "decodeFrame demo_codec demo_frame = Inr (frame_of demo_identity 0 1 c)" using demo_frame_decodes by blast
  let ?s = "s0\<lparr>sourceFences := [(node_key (fr_source demo_identity), \<lparr>fence_generation = 2, fence_session = [98]\<rparr>)]\<rparr>"
  have "js_get (sourceFences ?s) (node_key (fr_source demo_identity)) = Some \<lparr>fence_generation = 2, fence_session = [98]\<rparr>"
    "decodeFrame (tx_codec hosted_env) (rp_payload \<lparr>rp_payload = demo_frame, rp_received_at = 9, rp_radio_packet_id = None, rp_channel = 1\<rparr>) =
       Inr (frame_of demo_identity 0 1 c)"
    "fr_source (frame_identity_of (frame_of demo_identity 0 1 c)) = fr_source demo_identity"
    "stale_fence (fr_source_generation (frame_identity_of (frame_of demo_identity 0 1 c)))
       (fr_service_session (frame_identity_of (frame_of demo_identity 0 1 c))) \<lparr>fence_generation = 2, fence_session = [98]\<rparr>"
    using c by (simp_all add: hosted_env_def frame_of_def stale_fence_def demo_identity_def)
  from stale_source_silent[OF this, of 1 "\<lambda>_ _. [ResumeCall]" "\<lambda>_. []" "[TimeCall 9]"] s0 show ?thesis
    by (simp only: Let_def) blast
qed

lemma stopped_fails:
  assumes "stopped t"
  shows "\<exists>r. fst (submit tx m d (Some i) t) = Inr r \<and> or_status r = Failed"
proof -
  have "admit_operation m d i c f t = (Some (FailedPreparation i (js_lit ''link service is stopped'') False), t)" for c f
    using assms by (simp add: admit_operation_def)
  then show ?thesis
    by (simp add: submit_def submitWithCapacity_def prepareOutbound_def Let_def failedResult_def split_beta result_of_def)
qed

lemma stopped_is_final:
  assumes "stopped s"
  shows "let tx' = reentrant n script capacity tx; t = transport_run tx' s calls in
    stopped t \<and> radioed t = radioed s \<and> (\<forall>m d i. \<exists>r. fst (submit tx' m d (Some i) t) = Inr r \<and> or_status r = Failed)"
proof -
  have "evolves s (transport_run (reentrant n script capacity tx) s calls)" by (rule hosted.run_evolves)
  then show ?thesis using assms stopped_fails by (simp add: evolves_def Let_def)
qed

section \<open>Messages that come again\<close>

lemma reentrant_settlementID [simp]: "inboundSettlementID (reentrant n script capacity tx) = inboundSettlementID tx"
  by (cases n) (simp_all add: inboundSettlementID_def fun_eq_iff)



end
