(* ===== verification/Transport_Delivery.thy ===== *)
theory Transport_Delivery
  imports Transport_Safety
begin

text \<open>
  What the Link transport sends next, and what it makes of the frames that it receives: the most urgent message that may be sent is taken from
  the queue, and the frames of a message are put together whatever the order in which they come and however often each comes.
\<close>

declare map_of_eq_Some_iff [simp del]

section \<open>The most urgent message\<close>

definition urgency :: "outbound \<Rightarrow> nat \<times> nat" where
  "urgency x = (PRIORITY_ORDER (fr_priority (ob_identity x)), ob_order x)"

lemma priority_order_inject: "PRIORITY_ORDER p = PRIORITY_ORDER q \<longleftrightarrow> p = q"
  by (cases p; cases q) simp_all

lemma more_urgent_less: "more_urgent a b \<longleftrightarrow> fst (urgency a) < fst (urgency b) \<or> fst (urgency a) = fst (urgency b) \<and> snd (urgency a) < snd (urgency b)"
  by (simp add: more_urgent_def urgency_def priority_order_inject)

text \<open>What may be sent while the object-transfer lock is as given.\<close>

definition may_send :: "jstring option \<Rightarrow> outbound \<Rightarrow> bool" where
  "may_send lock x \<longleftrightarrow> \<not> is_type (ob_message x) ObjectContentMessage \<or> lock = Some (fr_message_id (ob_identity x))"

lemma lock_stays: "lock = Some i \<Longrightarrow> snd (scan_queue st as k best lock) = Some i"
  by (induction st as k best lock rule: scan_queue.induct) (auto simp: objectEligible_def Let_def)

lemma eligible_may_send:
  assumes "objectEligible (st a) lock = (e, lock')" "snd (scan_queue st as k best lock') = final"
  shows "e = may_send final (st a)"
proof (cases "is_type (ob_message (st a)) ObjectContentMessage")
  case True
  then obtain i where i: "lock' = Some i" "e = (i = fr_message_id (ob_identity (st a)))"
    using assms(1) by (auto simp: objectEligible_def Let_def split: option.splits)
  have "final = Some i" using lock_stays[OF i(1), of st as k best] assms(2) by simp
  with i(2) True show ?thesis by (simp add: may_send_def)
qed (use assms(1) in \<open>simp add: objectEligible_def may_send_def\<close>)

lemma scan_best:
  assumes "scan_queue st as k best lock = (r, final)"
    and "case best of None \<Rightarrow> P = {} | Some (i, b) \<Rightarrow> b \<in> P \<and> (\<forall>x \<in> P. \<not> more_urgent (st x) (st b))"
  shows "case r of
      None \<Rightarrow> P \<union> {a \<in> set as. may_send final (st a)} = {}
    | Some (i, b) \<Rightarrow> b \<in> P \<union> {a \<in> set as. may_send final (st a)} \<and>
        (\<forall>x \<in> P \<union> {a \<in> set as. may_send final (st a)}. \<not> more_urgent (st x) (st b)) \<and>
        (Some (i, b) = best \<or> k \<le> i \<and> i - k < length as \<and> as ! (i - k) = b)"
  using assms
proof (induction as arbitrary: k best lock P)
  case Nil
  then show ?case by (auto split: option.splits)
next
  case (Cons a as)
  obtain e lock' where o: "objectEligible (st a) lock = (e, lock')" by fastforce
  define best' where "best' = (if e \<and> (case best of None \<Rightarrow> True | Some (_, b) \<Rightarrow> more_urgent (st a) (st b)) then Some (k, a) else best)"
  have r: "scan_queue st as (k + 1) best' lock' = (r, final)" using Cons.prems(1) by (simp add: o best'_def)
  have e: "e = may_send final (st a)" using eligible_may_send[of st a lock e lock', OF o, of as "k + 1" best' final] r by simp
  define Q where "Q = (if e then insert a P else P)"
  have "case best' of None \<Rightarrow> Q = {} | Some (i, b) \<Rightarrow> b \<in> Q \<and> (\<forall>x \<in> Q. \<not> more_urgent (st x) (st b))"
    using Cons.prems(2) by (auto simp: best'_def Q_def more_urgent_less split: option.splits if_splits)
  from Cons.IH[OF r this] have IH: "case r of
      None \<Rightarrow> Q \<union> {a \<in> set as. may_send final (st a)} = {}
    | Some (i, b) \<Rightarrow> b \<in> Q \<union> {a \<in> set as. may_send final (st a)} \<and>
        (\<forall>x \<in> Q \<union> {a \<in> set as. may_send final (st a)}. \<not> more_urgent (st x) (st b)) \<and>
        (Some (i, b) = best' \<or> k + 1 \<le> i \<and> i - (k + 1) < length as \<and> as ! (i - (k + 1)) = b)" .
  have Q: "Q \<union> {a \<in> set as. may_send final (st a)} = P \<union> {x \<in> set (a # as). may_send final (st x)}" by (auto simp: Q_def e)
  have place: "Some (i, b) = best \<or> k \<le> i \<and> i - k < length (a # as) \<and> (a # as) ! (i - k) = b"
    if "Some (i, b) = best' \<or> k + 1 \<le> i \<and> i - (k + 1) < length as \<and> as ! (i - (k + 1)) = b" for i b
    using that by (auto simp: best'_def nth_Cons' split: if_splits)
  show ?case using IH place unfolding Q by (auto split: option.splits)
qed



text \<open>All of the state but the reassemblies, the timers and the counters.\<close>

definition quiescent :: "transport \<Rightarrow> transport" where
  "quiescent s = s\<lparr>reassemblies := [], timers := [], nextTimer := 0, mutableMetrics := empty_metrics\<rparr>"

text \<open>The frames of a message, by the chunks that they decode to.\<close>

definition frames_decode :: "transport_env \<Rightarrow> frame_identity \<Rightarrow> bytes list \<Rightarrow> bytes list \<Rightarrow> bool" where
  "frames_decode tx identity frames chunks \<longleftrightarrow> length chunks = length frames \<and> frames \<noteq> [] \<and> length (concat chunks) \<le> MAX_LINK_MESSAGE_BYTES \<and>
     (\<forall>i < length frames. decodeFrame (tx_codec tx) (frames ! i) = Inr (frame_of identity i (length frames) (chunks ! i)))"

text \<open>The transport listens to the source of these frames.\<close>

definition admits :: "frame_identity \<Rightarrow> transport \<Rightarrow> bool" where
  "admits identity s \<longleftrightarrow> \<not> stopped s \<and> \<not> sameNode (fr_source identity) (node s) \<and> fr_message_type identity \<noteq> ObjectContentMessage \<and>
     fst (checkSourceFence (fr_source identity) (fr_source_generation identity) (fr_service_session identity) s) = None"

text \<open>The chunks with the indices \<open>I\<close> are collected.\<close>

definition collected :: "frame_identity \<Rightarrow> bytes list \<Rightarrow> nat set \<Rightarrow> reassembly \<Rightarrow> bool" where
  "collected identity chunks I r \<longleftrightarrow> ra_identity r = identity \<and> ra_chunkCount r = int (length chunks) \<and> js_map_ok (ra_chunks r) \<and>
     (\<forall>k. js_get (ra_chunks r) k = (if k \<in> int ` I then Some (chunks ! nat k) else None)) \<and>
     ra_byteLength r = (\<Sum>i \<in> I. length (chunks ! i))"

definition collecting :: "frame_identity \<Rightarrow> bytes list \<Rightarrow> nat set \<Rightarrow> transport \<Rightarrow> bool" where
  "collecting identity chunks I s \<longleftrightarrow>
     (case js_get (reassemblies s) (reassembly_key identity) of None \<Rightarrow> I = {} | Some r \<Rightarrow> I \<noteq> {} \<and> collected identity chunks I r)"

section \<open>Frames in any order\<close>

lemma quiescent_fields:
  assumes "quiescent t = quiescent s"
  shows "stopped t = stopped s" "node t = node s" "sourceFences t = sourceFences s" "privateChannel t = privateChannel s" "time t = time s"
proof -
  note e = assms[unfolded quiescent_def]
  show "stopped t = stopped s" using arg_cong[OF e, of stopped] by simp
  show "node t = node s" using arg_cong[OF e, of node] by simp
  show "sourceFences t = sourceFences s" using arg_cong[OF e, of sourceFences] by simp
  show "privateChannel t = privateChannel s" using arg_cong[OF e, of privateChannel] by simp
  show "time t = time s" using arg_cong[OF e, of time] by simp
qed

lemma quiescent_parts [simp]: "quiescent (measure_by f s) = quiescent s" "quiescent (cancel_timer h s) = quiescent s" "quiescent (snd (schedule d c s)) = quiescent s"
  "quiescent (s\<lparr>reassemblies := x\<rparr>) = quiescent s" "quiescent (drop_reassembly k s) = quiescent s" "quiescent (makeReassemblyRoom s) = quiescent s"
  "quiescent (count_duplicate s) = quiescent s"
proof -
  show m: "quiescent (measure_by f s) = quiescent s" for f s by (simp add: quiescent_def measure_by_def)
  show c: "quiescent (cancel_timer h s) = quiescent s" for h s by (simp add: quiescent_def cancel_timer_def split: option.split)
  show "quiescent (snd (schedule d c s)) = quiescent s" by (simp add: quiescent_def schedule_def)
  show r: "quiescent (s\<lparr>reassemblies := x\<rparr>) = quiescent s" for s x by (simp add: quiescent_def)
  show d: "quiescent (drop_reassembly k s) = quiescent s" for k s by (simp add: drop_reassembly_def m c r split: option.split)
  show "quiescent (makeReassemblyRoom s) = quiescent s" by (simp add: makeReassemblyRoom_def d split: list.split)
  show "quiescent (count_duplicate s) = quiescent s" by (simp add: count_duplicate_def m)
qed

lemma quiescent_open [simp]: "quiescent (snd (open_reassembly k f p s)) = quiescent s"
  by (simp add: open_reassembly_def Let_def split_beta split: option.split)

lemma admits_quiescent:
  assumes "quiescent t = quiescent s"
  shows "admits identity t = admits identity s"
  by (simp add: admits_def checkSourceFence_def quiescent_fields[OF assms] split: option.split)

lemma opened_collects:
  assumes "collecting identity chunks I s" "open_reassembly (reassembly_key identity) (frame_of identity i (length chunks) x) p s = (r, t)"
  shows "collected identity chunks I r" "js_get (reassemblies t) (reassembly_key identity) = Some r"
proof -
  show "js_get (reassemblies t) (reassembly_key identity) = Some r" by (rule open_has[OF assms(2)])
  show "collected identity chunks I r"
    using assms by (auto simp: collecting_def open_reassembly_def Let_def frame_of_def collected_def split: option.splits prod.splits)
qed

lemma collected_card: "collected identity chunks I r \<Longrightarrow> length (ra_chunks r) = card I"
proof -
  assume c: "collected identity chunks I r"
  then have "fst ` set (ra_chunks r) = int ` I" by (auto simp: collected_def dom_map_of_conv_image_fst[symmetric] dom_def split: if_splits)
  moreover have "length (ra_chunks r) = card (fst ` set (ra_chunks r))" using c by (simp add: collected_def card_keys)
  ultimately show ?thesis by (simp add: card_image)
qed

lemma collected_same: "collected identity chunks I r \<Longrightarrow> sameFrameSet r (frame_of identity i (length chunks) x)"
  by (simp add: collected_def sameFrameSet_def frame_of_def sameNode_def sameOptionalNode_def Let_def split: option.split)

lemma bytes_bound: "I \<subseteq> {..<length chunks} \<Longrightarrow> (\<Sum>i \<in> I. length (chunks ! i)) \<le> length (concat chunks)"
proof -
  assume "I \<subseteq> {..<length chunks}"
  then have "(\<Sum>i \<in> I. length (chunks ! i)) \<le> (\<Sum>i < length chunks. length (chunks ! i))" by (intro sum_mono2) auto
  also have "\<dots> = length (concat chunks)" by (simp add: length_concat sum_list_sum_nth atLeast0LessThan)
  finally show ?thesis .
qed

lemma collected_store:
  assumes "collected identity chunks I r" "i \<notin> I" "finite I" "i < length chunks"
  shows "collected identity chunks (insert i I) (store_chunk (frame_of identity i n (chunks ! i)) p r)"
  using assms by (auto simp: collected_def store_chunk_def frame_of_def js_lookup distinct_update)

lemma collected_timer: "collected identity chunks I r \<Longrightarrow> collected identity chunks I (r\<lparr>ra_timer := h\<rparr>)"
  by (simp add: collected_def)

lemma collected_join:
  assumes "collected identity chunks {..<length chunks} r"
  shows "joinChunks r = Some (concat chunks)"
proof -
  have "map (\<lambda>i. js_get (ra_chunks r) (int i)) [0 ..< nat (ra_chunkCount r)] = map Some chunks"
    using assms by (intro nth_equalityI) (auto simp: collected_def)
  then show ?thesis by (auto simp: joinChunks_def Let_def comp_def)
qed

lemma collect_step:
  assumes d: "frames_decode tx identity frames chunks" and i: "i < length frames" and I: "I \<subset> {..<length frames}" "collecting identity chunks I s"
  shows "i \<in> I \<or> insert i I \<noteq> {..<length frames} \<Longrightarrow>
      quiescent (collect_frame tx (frame_of identity i (length frames) (chunks ! i)) p s) = quiescent s \<and>
      collecting identity chunks (insert i I) (collect_frame tx (frame_of identity i (length frames) (chunks ! i)) p s)"
    and "i \<notin> I \<Longrightarrow> insert i I = {..<length frames} \<Longrightarrow>
      \<exists>t packet. collect_frame tx (frame_of identity i (length frames) (chunks ! i)) p s = handleCompleteMessage tx identity (concat chunks) packet t \<and>
        quiescent t = quiescent s \<and> js_get (reassemblies t) (reassembly_key identity) = None"
proof -
  let ?key = "reassembly_key identity" and ?f = "frame_of identity i (length frames) (chunks ! i)"
  have n: "length chunks = length frames" using d by (simp add: frames_decode_def)
  obtain r u where o: "open_reassembly ?key ?f p s = (r, u)" by fastforce
  note c = opened_collects[OF I(2) o[folded n]]
  have q: "quiescent u = quiescent s" using quiescent_open[of ?key ?f p s] by (simp add: o)
  have key: "reassembly_key (frame_identity_of ?f) = ?key" "chunk_index ?f = int i" "frame_payload ?f = chunks ! i" by (simp_all add: frame_of_def)
  have same: "sameFrameSet r ?f" using collected_same[OF c(1), of i "chunks ! i"] by (simp add: n)
  have has: "js_has (ra_chunks r) (int i) = (i \<in> I)" using c(1) by (auto simp: js_has_def collected_def)
  have fin: "finite I" using I(1) finite_subset by blast
  define r' where "r' = store_chunk ?f p r"
  define v where "v = cancel_timer (Some (ra_timer r')) u"
  have v: "quiescent v = quiescent s" "reassemblies v = reassemblies u" by (simp_all add: v_def q) (simp add: cancel_timer_def)
  have small: "\<not> MAX_LINK_MESSAGE_BYTES < ra_byteLength r + length (chunks ! i)" if "i \<notin> I"
  proof -
    have "ra_byteLength r + length (chunks ! i) = (\<Sum>j \<in> insert i I. length (chunks ! j))" using c(1) fin that by (simp add: collected_def)
    also have "\<dots> \<le> length (concat chunks)" using I(1) i by (intro bytes_bound) (auto simp: n)
    finally show ?thesis using d by (simp add: frames_decode_def)
  qed
  have store: "collected identity chunks (insert i I) r'" if "i \<notin> I"
    unfolding r'_def using collected_store[OF c(1) that fin, of "length frames" p] i by (simp add: n)
  have len: "length (ra_chunks r') = card (insert i I)" "ra_chunkCount r' = int (length frames)" if "i \<notin> I"
    using collected_card[OF store[OF that]] store[OF that] by (simp_all add: collected_def n)
  have all: "card (insert i I) = length frames \<longleftrightarrow> insert i I = {..<length frames}"
    using I(1) i card_subset_eq[of "{..<length frames}" "insert i I"] by auto
  show "quiescent (collect_frame tx ?f p s) = quiescent s \<and> collecting identity chunks (insert i I) (collect_frame tx ?f p s)"
    if "i \<in> I \<or> insert i I \<noteq> {..<length frames}"
  proof (cases "i \<in> I")
    case True
    have "collect_frame tx ?f p s = count_duplicate u"
      by (simp add: collect_frame_def Let_def key o same has True)
    moreover have "reassemblies (count_duplicate u) = reassemblies u" by (simp add: count_duplicate_def measure_by_def)
    ultimately show ?thesis using q c True by (auto simp: collecting_def insert_absorb)
  next
    case False
    then have "int (length (ra_chunks r')) \<noteq> ra_chunkCount r'" using that len all by simp
    then have "collect_frame tx ?f p s = (let (h, w) = schedule (rat_of_int (reassemblyInterval v r')) (ReassemblyCallback ?key) v
        in w\<lparr>reassemblies := js_set ?key (r'\<lparr>ra_timer := h\<rparr>) (reassemblies w)\<rparr>)"
      by (simp add: collect_frame_def Let_def key o same has False small r'_def[symmetric] v_def[symmetric])
    then show ?thesis using store[OF False] v
      by (simp add: Let_def split_beta collecting_def js_lookup collected_timer)
  qed
  show "\<exists>t packet. collect_frame tx ?f p s = handleCompleteMessage tx identity (concat chunks) packet t \<and> quiescent t = quiescent s \<and> js_get (reassemblies t) ?key = None"
    if "i \<notin> I" "insert i I = {..<length frames}"
  proof -
    have j: "joinChunks r' = Some (concat chunks)" using collected_join[of identity chunks r'] store[OF that(1)] by (simp add: that(2) n)
    have "int (length (ra_chunks r')) = ra_chunkCount r'" using that len by simp
    then have "collect_frame tx ?f p s = handleCompleteMessage tx (ra_identity r') (concat chunks) (ra_radioPacketID r')
        (v\<lparr>reassemblies := js_delete ?key (reassemblies v)\<rparr>)"
      by (simp add: collect_frame_def Let_def key o same has that(1) small r'_def[symmetric] v_def[symmetric] j)
    moreover have "ra_identity r' = identity" using store[OF that(1)] by (simp add: collected_def)
    ultimately show ?thesis using v by (intro exI[of _ "v\<lparr>reassemblies := js_delete ?key (reassemblies v)\<rparr>"] exI[of _ "ra_radioPacketID r'"]) (simp add: js_lookup)
  qed
qed

lemma receive_admitted:
  assumes "admits identity s" "rp_channel p = privateChannel s" "decodeFrame (tx_codec tx) (rp_payload p) = Inr (frame_of identity i n x)"
  shows "\<exists>u. receive tx p s = collect_frame tx (frame_of identity i n x) p u \<and> quiescent u = quiescent s \<and> reassemblies u = reassemblies s"
proof -
  let ?g = "\<lambda>m. m\<lparr>packets_received := packets_received m + 1\<rparr>"
  obtain r w where rw: "checkSourceFence (fr_source identity) (fr_source_generation identity) (fr_service_session identity) (measure_by ?g s) = (r, w)"
    by fastforce
  have "r = None"
    using assms(1) check_counted[of "fr_source identity" "fr_source_generation identity" "fr_service_session identity" ?g s]
    by (simp only: admits_def rw fst_conv)
  note c = rw[unfolded this]
  have "node (measure_by ?g s) = node s" by (simp add: measure_by_def)
  then have "receive tx p s = collect_frame tx (frame_of identity i n x) p (measure_by ?g s)"
    using assms c check_passes[OF c] by (simp add: receive_def admits_def Let_def frame_of_def)
  then show ?thesis by (intro exI[of _ "measure_by ?g s"]) (simp, simp add: measure_by_def)
qed

lemma collecting_same: "reassemblies t = reassemblies s \<Longrightarrow> collecting identity chunks I t = collecting identity chunks I s"
  by (simp add: collecting_def)

lemma frame_index:
  assumes d: "frames_decode tx identity frames chunks" and "i < length frames" "j < length frames" "frames ! j = frames ! i"
  shows "j = i"
proof -
  have at: "decodeFrame (tx_codec tx) (frames ! k) = Inr (frame_of identity k (length frames) (chunks ! k))" if "k < length frames" for k
    using d that by (simp add: frames_decode_def)
  have "decodeFrame (tx_codec tx) (frames ! j) = decodeFrame (tx_codec tx) (frames ! i)" by (simp only: assms(4))
  from trans[OF at[OF assms(3), symmetric] trans[OF this at[OF assms(2)]]] show ?thesis by (simp add: frame_of_def)
qed

lemma receive_some:
  assumes d: "frames_decode tx identity frames chunks" and s: "admits identity s" "js_get (reassemblies s) (reassembly_key identity) = None"
    and ps: "\<forall>q \<in> set ps. rp_channel q = privateChannel s \<and> rp_payload q \<in> set frames" and missing: "\<not> set frames \<subseteq> rp_payload ` set ps"
  shows "quiescent (fold (receive tx) ps s) = quiescent s \<and> collecting identity chunks {i. i < length frames \<and> frames ! i \<in> rp_payload ` set ps} (fold (receive tx) ps s)"
  using ps missing
proof (induction ps rule: rev_induct)
  case Nil
  then show ?case using s(2) by (simp add: collecting_def)
next
  case (snoc q ps)
  let ?I = "\<lambda>qs. {i. i < length frames \<and> frames ! i \<in> rp_payload ` set qs}" and ?t = "fold (receive tx) ps s"
  have IH: "quiescent ?t = quiescent s" "collecting identity chunks (?I ps) ?t" using snoc by auto
  obtain i where i: "i < length frames" "rp_payload q = frames ! i" using snoc.prems(1) by (auto simp: in_set_conv_nth)
  note inj = frame_index[OF d i(1)]
  have ins: "?I (ps @ [q]) = insert i (?I ps)" using i inj by auto
  obtain j where j: "j < length frames" "frames ! j \<notin> rp_payload ` set (ps @ [q])" using snoc.prems(2) by (auto simp: in_set_conv_nth subset_iff)
  then have proper: "?I ps \<subset> {..<length frames}" "insert i (?I ps) \<noteq> {..<length frames}" using i by auto
  have dec: "decodeFrame (tx_codec tx) (rp_payload q) = Inr (frame_of identity i (length frames) (chunks ! i))"
    using d i by (simp add: frames_decode_def)
  have chan: "rp_channel q = privateChannel ?t" using snoc.prems(1) quiescent_fields(4)[OF IH(1)] by simp
  obtain u where u: "receive tx q ?t = collect_frame tx (frame_of identity i (length frames) (chunks ! i)) q u" "quiescent u = quiescent ?t" "reassemblies u = reassemblies ?t"
    using receive_admitted[OF _ chan dec] s(1) admits_quiescent[OF IH(1), of identity] by blast
  have "collecting identity chunks (?I ps) u" using IH(2) collecting_same[OF u(3)] by simp
  from collect_step(1)[OF d i(1) proper(1) this] proper(2) show ?case unfolding ins using u IH(1) by simp
qed

lemma receive_all:
  assumes d: "frames_decode tx identity frames chunks" and s: "admits identity s" "js_get (reassemblies s) (reassembly_key identity) = None"
    and ps: "\<forall>q \<in> set (ps @ [p]). rp_channel q = privateChannel s" "rp_payload ` set (ps @ [p]) = set frames" "rp_payload p \<notin> rp_payload ` set ps"
  shows "quiescent (fold (receive tx) ps s) = quiescent s \<and>
    (\<exists>t packet. receive tx p (fold (receive tx) ps s) = handleCompleteMessage tx identity (concat chunks) packet t \<and> quiescent t = quiescent s \<and>
      js_get (reassemblies t) (reassembly_key identity) = None)"
proof -
  let ?I = "{i. i < length frames \<and> frames ! i \<in> rp_payload ` set ps}" and ?t = "fold (receive tx) ps s"
  have pf: "rp_payload p \<in> set frames" using ps(2) by auto
  have "\<forall>q \<in> set ps. rp_channel q = privateChannel s \<and> rp_payload q \<in> set frames" "\<not> set frames \<subseteq> rp_payload ` set ps"
    using ps pf by auto
  from receive_some[OF d s this] have r: "quiescent ?t = quiescent s" "collecting identity chunks ?I ?t" by simp_all
  obtain i where i: "i < length frames" "rp_payload p = frames ! i" using pf by (auto simp: in_set_conv_nth)
  have "frames ! j \<in> rp_payload ` set ps \<or> j = i" if "j < length frames" for j
  proof (cases "frames ! j = frames ! i")
    case True
    from frame_index[OF d i(1) that True] show ?thesis by simp
  next
    case False
    have "frames ! j \<in> rp_payload ` set (ps @ [p])" using ps(2) that by simp
    with False i(2) show ?thesis by auto
  qed
  then have I: "i \<notin> ?I" "insert i ?I = {..<length frames}" using i ps(3) by auto
  then have proper: "?I \<subset> {..<length frames}" by auto
  have dec: "decodeFrame (tx_codec tx) (rp_payload p) = Inr (frame_of identity i (length frames) (chunks ! i))"
    using d i by (simp add: frames_decode_def)
  have chan: "rp_channel p = privateChannel ?t" using ps(1) quiescent_fields(4)[OF r(1)] by simp
  obtain u where u: "receive tx p ?t = collect_frame tx (frame_of identity i (length frames) (chunks ! i)) p u" "quiescent u = quiescent ?t" "reassemblies u = reassemblies ?t"
    using receive_admitted[OF _ chan dec] s(1) admits_quiescent[OF r(1), of identity] by blast
  have "collecting identity chunks ?I u" using r(2) collecting_same[OF u(3)] by simp
  from collect_step(2)[OF d i(1) proper this I] show ?thesis using u r(1) by auto
qed



end
