(* ===== verification/Spec2Isabelle.thy ===== *)
theory Spec2Isabelle
  imports Binary_Codec State_Delta Link_Subscriptions Retry_Timing Sdk_Cache Core_Client Device_Framing Frame_Delivery Picture_Safety Transport_Delivery
begin

text \<open>
  \<^bold>\<open>Atlas\<close>: a verification development of the TypeScript parts of the repository that carry its own logic.

  \<^bold>\<open>The program.\<close> Atlas Core keeps entities, tasks and objects and publishes their changes as a feed of
  versioned events. Three groups of TypeScript packages work on top of it.
  \<^item> The \<^emph>\<open>SDK\<close> (\<^verbatim>\<open>packages/sdk/src\<close>) gives a client a local cache of the resources it subscribes to. Responses
    of Core, feed events, local deletes and reconnects race with each other; the cache decides by version,
    tombstone and token which of them counts.
  \<^item> \<^emph>\<open>Atlas Link\<close> (\<^verbatim>\<open>packages/meshtastic-link/src\<close>) carries the same resources over a radio with packets of some
    200 bytes. A message is checked against the contract, coded compactly (binary-v1, compact-value-v1, a compression mode, or as the
    difference to a publication that the receiver already holds), cut into frames and queued; the transport sends, acknowledges, repeats and
    reassembles; the shared picture keeps what was received; subscriptions say what a remote node wants to receive; a retry estimator
    learns the pace of the radio.
  \<^item> The \<^emph>\<open>Asset host\<close> (\<^verbatim>\<open>edge/asset/src\<close>) flies one aircraft: it tracks it over MAVLink, takes the tasks that Core
    assigns, executes them one at a time, reports their state, and remembers on disk what it owes.

  \<^bold>\<open>The theories\<close>, in the order of their imports.
  \<^item> \<^verbatim>\<open>Prelude\<close>: bytes, UTF-16 code units, JavaScript numbers by bit pattern, ordered maps (\<^verbatim>\<open>Map\<close> as an association
    list in insertion order) and the lemmas all theories share. \<^verbatim>\<open>Interfaces\<close>: the locales. \<open>framed_codec\<close> is the
    contract of a reader that is composed with others; \<open>guarded_machine\<close> a state machine whose operations keep
    an invariant; \<open>effect_preorder\<close> a relation that every operation extends; \<open>lww_replica\<close> a replica in which the highest version wins;
    \<open>event_feed\<close> and \<open>event_machine\<close> a store that numbers the events which rebuild it. Every locale is
    interpreted on the model of the code (varints, text, strings and values of binary-v1; the subscription,
    delta, cache, tracker and engine machines; the resource cache; the picture and its feed; the evolution of the transport).
  \<^item> \<^verbatim>\<open>Binary_IO\<close>, \<^verbatim>\<open>Wtf8\<close>, \<^verbatim>\<open>Json\<close>, \<^verbatim>\<open>Binary_Codec\<close>: \<^verbatim>\<open>binary-io.ts\<close>, \<^verbatim>\<open>canonical-json.ts\<close> and \<^verbatim>\<open>binary-codec.ts\<close>. Readers
    return \<open>error + value\<close> with the offset they reached. Shown: each codec reads back what it wrote, with
    any bytes before and after it, and on arbitrary input the readers stay within the limits of the codec.
  \<^item> \<^verbatim>\<open>Float_Bits\<close>, \<^verbatim>\<open>Compact_Value\<close>: \<^verbatim>\<open>compact-value.ts\<close>, with the IEEE formats that it chooses between. \<^verbatim>\<open>Compression\<close>:
    \<^verbatim>\<open>compression-methods.ts\<close> and \<^verbatim>\<open>message-codec.ts\<close>; the compressors are parameters with the law that decompressing gives back.
    \<^verbatim>\<open>Link_Frame\<close>: \<^verbatim>\<open>frame.ts\<close>, the seven encodings of a frame and the fragmentation of a payload. \<^verbatim>\<open>Frame_Delivery\<close>: whatever the encoding, the
    frames of a payload fit the radio and decode to chunks that give back the payload.
  \<^item> \<^verbatim>\<open>Json_Patch\<close>, \<^verbatim>\<open>State_Delta\<close>: \<^verbatim>\<open>state-delta.ts\<close>. Patches deliver the document; a delta that the sender offers is
    decoded to the publication; both caches stay bounded; a full publication synchronises them.
  \<^item> \<^verbatim>\<open>Contract\<close>: \<^verbatim>\<open>contract.ts\<close> and the timestamp check of \<^verbatim>\<open>validation.ts\<close>. The validators, the classes and the
    coalescing key of a message, and the serialized form, which is read back unchanged.
  \<^item> \<^verbatim>\<open>Link_Subscriptions\<close>: \<^verbatim>\<open>subscriptions.ts\<close>. The local side refines the abstract demand (a set of client and
    selector pairs); the gateway side keeps exactly the unexpired leases.
  \<^item> \<^verbatim>\<open>Picture\<close>, \<^verbatim>\<open>Picture_Safety\<close>: \<^verbatim>\<open>picture.ts\<close>, the records, tombstones, source fences and numbered events of the gateway's picture. Shown:
    a client that redoes the events after its snapshot has the picture, the tables and their bytes are bounded, versions never go back.
    \<^verbatim>\<open>Picture_Projection\<close>: \<^verbatim>\<open>picture-projection.ts\<close>, what a message publishes to the picture; an Asset never claims Core's authority.
  \<^item> \<^verbatim>\<open>Link_Transport\<close>: \<^verbatim>\<open>transport.ts\<close>, the class \<^verbatim>\<open>LinkTransport\<close> as the record \<open>transport\<close>. Its outbound messages are objects that several
    tables share, so they live in a store; timers and the clock are fields; \<open>pump_start\<close> and \<open>pump_end\<close> are \<^verbatim>\<open>pump\<close> before and after its
    \<^verbatim>\<open>await\<close>. \<^verbatim>\<open>Transport_Evolution\<close> has the calls, listeners that call back to any depth of nesting (\<open>reentrant\<close>), and the
    preorder \<open>evolves\<close> that every operation keeps. \<^verbatim>\<open>Transport_Safety\<close> proves it for each operation inside the locale \<open>transport_host\<close> and
    interprets the locale on the re-entrant listeners; its properties are the bounds of the tables, stale sources, refused packets and
    messages that come again. \<^verbatim>\<open>Transport_Delivery\<close>: which message is sent next, and the reassembly of frames in any order.
  \<^item> \<^verbatim>\<open>Retry_Timing\<close>: \<^verbatim>\<open>retry-timing.ts\<close>; times are rational numbers. \<^verbatim>\<open>Device_Framing\<close>: \<^verbatim>\<open>device-framing.ts\<close>, the
    stream of packets from a serial device; the result does not depend on how the stream is cut.
  \<^item> \<^verbatim>\<open>Json_Text\<close>, \<^verbatim>\<open>Sdk_Subscriptions\<close>, \<^verbatim>\<open>Sdk_Cache\<close>: \<^verbatim>\<open>subscriptions.ts\<close>, \<^verbatim>\<open>resource-id.ts\<close> and \<^verbatim>\<open>cache.ts\<close> of the SDK.
    Every public method of the cache is an operation of \<open>resource_cache\<close>; the lemmas state convergence, that the indexes agree
    with the resources, that deletes are final, and that versions never go back.
  \<^item> \<^verbatim>\<open>Asset_Vehicle\<close>: \<^verbatim>\<open>vehicle.ts\<close>, \<^verbatim>\<open>readiness.ts\<close>, \<^verbatim>\<open>commands.ts\<close>. \<^verbatim>\<open>Task_Engine\<close>: \<^verbatim>\<open>task-engine.ts\<close>, with the control
    file, Core and the link as sources of outcomes, so that each call may fail at every point. \<^verbatim>\<open>Asset_Controller\<close>:
    \<^verbatim>\<open>controller.ts\<close>, the message handlers, the loops and the shutdown. \<^verbatim>\<open>Core_Client\<close>: the parts of \<^verbatim>\<open>core-client.ts\<close>
    that decide (the manifest, the mapping of tasks and of resources).

  \<^bold>\<open>Conventions.\<close> A class is a record with the fields of the class and an operation takes and returns it. A thrown
  error is a value (\<open>Inl\<close>) or a field of the outcome, together with the state that it leaves behind. An
  operation that awaits something takes what the awaited call gave as an argument, so a theorem holds for every
  outcome. Code outside the repository (UUIDs, digests, the file system, the network) is an argument as well.

  \<^bold>\<open>Bounds.\<close> The readers of the codecs recurse on a fuel that is the length of the input, which the lemmas show to be
  enough, since each step consumes a byte. The loops of the controller take the number of rounds as an
  argument and the theorems hold for each number; the confirmation loop of the shutdown ends for each bound of at
  least the configured seconds in milliseconds, provided that the clock advances. The eviction loop of the transport's results takes as many
  turns as there are results, each of which removes one; the nesting of listeners is a parameter and the theorems hold for each depth.

  \<^bold>\<open>Not modelled.\<close> The processes around these components (\<^verbatim>\<open>service.ts\<close>, \<^verbatim>\<open>gateway.ts\<close>, \<^verbatim>\<open>radio.ts\<close>, \<^verbatim>\<open>serial.ts\<close>, \<^verbatim>\<open>joining.ts\<close>, the
  SDK's HTTP client and sync engine), which are mostly I/O; the terminal and web surfaces; the release
  tools; generated protocol types. Text that is only shown to a person (the message of an error) is left out. Interleavings inside
  one synchronous method do not exist in JavaScript and have no counterpart here; calls that a listener makes from within one do, in the
  transport. The clock of the transport counts whole milliseconds, as \<^verbatim>\<open>Date.now\<close> does.
\<close>

end
